(* ===== verification/Prelude.thy ===== *)
theory Prelude
  imports Main "HOL-Library.Multiset"
begin

text \<open>
  What the components share: the JavaScript idioms that every module of the server uses
  (\<open>Number.isSafeInteger\<close>, \<open>map.get(k) ?? d\<close>, the counter that a \<open>Map\<close> keeps per key
  and drops at zero, \<open>findIndex\<close> followed by \<open>splice\<close>), the sequencing of fallible
  computations, and two interfaces: the state machine whose invariant holds along every
  run, and the keyed counter that stands for a multiset of holders.
\<close>

named_theorems result_simps \<open>inversion of successful results\<close>

section \<open>Numbers\<close>

text \<open>
  JavaScript numbers that the code validates with \<open>Number.isSafeInteger\<close> are integers in
  the model. A value that is no integer fails that test, and so does an integer outside
  the range below; within the range the arithmetic of the code is exact.
\<close>

definition max_safe_integer :: int where
  "max_safe_integer = 9007199254740991"

definition safe_integer :: "int \<Rightarrow> bool" where
  "safe_integer n \<longleftrightarrow> - max_safe_integer \<le> n \<and> n \<le> max_safe_integer"

definition positive_safe :: "int \<Rightarrow> bool" where
  "positive_safe n \<longleftrightarrow> safe_integer n \<and> 0 < n"

lemma positive_safe_pos: "positive_safe n \<Longrightarrow> 0 < n"
  by (simp add: positive_safe_def)

section \<open>Fallible computations\<close>

text \<open>
  A function that may throw returns a sum, the error on the left. Sequencing stops at the
  first error, as an exception does.
\<close>

definition rbind :: "'e + 'a \<Rightarrow> ('a \<Rightarrow> 'e + 'b) \<Rightarrow> 'e + 'b" where
  "rbind r f = (case r of Inl e \<Rightarrow> Inl e | Inr a \<Rightarrow> f a)"

definition ensure :: "bool \<Rightarrow> 'e \<Rightarrow> 'e + unit" where
  "ensure b e = (if b then Inr () else Inl e)"

lemma rbind_simps [simp]:
  "rbind (Inl e) f = Inl e"
  "rbind (Inr a) f = f a"
  by (simp_all add: rbind_def)

lemma rbind_Inr [result_simps]: "rbind r f = Inr b \<longleftrightarrow> (\<exists>a. r = Inr a \<and> f a = Inr b)"
  by (cases r) auto

lemma rbind_Inl: "rbind r f = Inl e \<longleftrightarrow> r = Inl e \<or> (\<exists>a. r = Inr a \<and> f a = Inl e)"
  by (cases r) auto

lemma ensure_Inr [result_simps]: "ensure b e = Inr u \<longleftrightarrow> b"
  by (simp add: ensure_def)

lemma ensure_Inl: "ensure b e = Inl e' \<longleftrightarrow> \<not> b \<and> e' = e"
  by (auto simp add: ensure_def)

lemma ensure_cases [simp]: "ensure True e = Inr ()" "ensure False e = Inl e"
  by (simp_all add: ensure_def)

section \<open>Lists\<close>

text \<open>
  \<open>extract P xs\<close> of the library splits a list at the first element that satisfies \<open>P\<close>:
  it is \<open>findIndex\<close> (\<open>None\<close> for \<open>-1\<close>) and the two halves a \<open>splice\<close> joins.
\<close>

lemma extract_Some:
  "List.extract P xs = Some (ys, y, zs) \<Longrightarrow> xs = ys @ y # zs \<and> P y \<and> (\<forall>x\<in>set ys. \<not> P x)"
  by (auto simp: List.extract_Some_iff)

lemma extract_None: "List.extract P xs = None \<longleftrightarrow> (\<forall>x\<in>set xs. \<not> P x)"
  by (auto simp: List.extract_None_iff)

lemma extract_length: "List.extract P xs = Some (ys, y, zs) \<Longrightarrow> length (ys @ zs) < length xs"
  by (auto simp: List.extract_Some_iff)

lemma split_at_nth: "i < length xs \<Longrightarrow> \<exists>ys zs. xs = ys @ xs ! i # zs \<and> length ys = i"
  by (rule exI [of _ "take i xs"], rule exI [of _ "drop (Suc i) xs"])
    (simp add: id_take_nth_drop [symmetric])

lemma mset_update_off:
  assumes "i < length xs" and "P (xs ! i)" and "\<not> P y"
  shows "mset (filter P (xs[i := y])) = mset (filter P xs) - {#xs ! i#}"
proof -
  obtain ys zs x where xs: "xs = ys @ x # zs" "length ys = i" "xs ! i = x"
    using split_at_nth [OF assms(1)] by auto
  show ?thesis using assms(2,3) xs by (simp add: list_update_append)
qed

lemma length_filter_update_off:
  assumes "i < length xs" and "P (xs ! i)" and "\<not> P y"
  shows "length (filter P xs) = Suc (length (filter P (xs[i := y])))"
proof -
  obtain ys zs x where xs: "xs = ys @ x # zs" "length ys = i" "xs ! i = x"
    using split_at_nth [OF assms(1)] by auto
  show ?thesis using assms(2,3) xs by (simp add: list_update_append)
qed

lemma length_filter_update_same:
  assumes "i < length xs" and "P (xs ! i) = P y"
  shows "length (filter P (xs[i := y])) = length (filter P xs)"
proof -
  obtain ys zs x where xs: "xs = ys @ x # zs" "length ys = i" "xs ! i = x"
    using split_at_nth [OF assms(1)] by auto
  show ?thesis using assms(2) xs by (simp add: list_update_append)
qed

lemma filter_unique:
  assumes "length (filter P xs) \<le> 1" and "x \<in> set xs" and "P x"
  shows "filter P xs = [x]"
proof -
  have "x \<in> set (filter P xs)" using assms by simp
  then show ?thesis using assms(1) by (cases "filter P xs") auto
qed

lemma length_filter_filter: "length (filter P (filter Q xs)) \<le> length (filter P xs)"
  by (induction xs) auto

lemma filter_one:
  assumes "distinct (map f xs)" and "x \<in> set xs" and "P x" and "\<And>y. y \<in> set xs \<Longrightarrow> P y \<Longrightarrow> f y = f x"
  shows "length (filter P xs) = 1"
proof -
  have "set (filter P xs) = {x}" using assms by (auto simp: distinct_map inj_on_def)
  moreover have "distinct (filter P xs)" using assms(1) by (simp add: distinct_map)
  ultimately show ?thesis using distinct_card by fastforce
qed

lemma filter_at_most_one:
  assumes "distinct (map f xs)" and "\<And>x y. P x \<Longrightarrow> P y \<Longrightarrow> f x = f y"
  shows "length (filter P xs) \<le> 1"
proof -
  have "distinct (filter P xs)" using assms(1) by (simp add: distinct_map)
  moreover have "card (set (filter P xs)) \<le> Suc 0"
    using assms by (subst card_le_Suc0_iff_eq) (auto simp: distinct_map inj_on_def)
  ultimately show ?thesis using distinct_card by fastforce
qed

section \<open>Maps with defaults and keyed counters\<close>

definition get_or :: "('k \<Rightarrow> 'v option) \<Rightarrow> 'k \<Rightarrow> 'v \<Rightarrow> 'v" where
  "get_or m k d = (case m k of None \<Rightarrow> d | Some v \<Rightarrow> v)"

definition count_inc :: "('k \<Rightarrow> int option) \<Rightarrow> 'k \<Rightarrow> ('k \<Rightarrow> int option)" where
  "count_inc m k = m(k := Some (get_or m k 0 + 1))"

definition count_dec :: "('k \<Rightarrow> int option) \<Rightarrow> 'k \<Rightarrow> ('k \<Rightarrow> int option)" where
  "count_dec m k =
     (let n = get_or m k 1 - 1
      in if n = 0 then m(k := None) else m(k := Some n))"

definition counts_positive :: "('k \<Rightarrow> int option) \<Rightarrow> bool" where
  "counts_positive m \<longleftrightarrow> (\<forall>k v. m k = Some v \<longrightarrow> 0 < v)"

definition count_of :: "('k \<Rightarrow> int option) \<Rightarrow> 'k \<Rightarrow> int" where
  "count_of m k = get_or m k 0"

text \<open>
  The contract of a counter per key: what a client may rely on after an increment and
  after a decrement of a key that is counted. The clients' lemmas read such a counter as
  the multiset of the holders it counts.
\<close>

locale keyed_counter =
  fixes look :: "'m \<Rightarrow> 'k \<Rightarrow> int"
    and incr :: "'m \<Rightarrow> 'k \<Rightarrow> 'm"
    and decr :: "'m \<Rightarrow> 'k \<Rightarrow> 'm"
    and sound :: "'m \<Rightarrow> bool"
  assumes look_incr: "sound m \<Longrightarrow> look (incr m k) j = (if j = k then look m k + 1 else look m j)"
    and look_decr: "sound m \<Longrightarrow> 0 < look m k \<Longrightarrow>
      look (decr m k) j = (if j = k then look m k - 1 else look m j)"
    and sound_incr: "sound m \<Longrightarrow> sound (incr m k)"
    and sound_decr: "sound m \<Longrightarrow> 0 < look m k \<Longrightarrow> sound (decr m k)"
begin

definition represents :: "'m \<Rightarrow> 'k multiset \<Rightarrow> bool" where
  "represents m M \<longleftrightarrow> sound m \<and> (\<forall>k. look m k = int (count M k))"

lemma represents_look: "represents m M \<Longrightarrow> look m k = int (count M k)"
  by (simp add: represents_def)

lemma represents_incr: "represents m M \<Longrightarrow> represents (incr m k) (add_mset k M)"
  by (auto simp: represents_def look_incr sound_incr)

lemma represents_decr:
  assumes "represents m M" and "k \<in># M"
  shows "represents (decr m k) (M - {#k#})"
proof -
  from assms have pos: "0 < look m k" and look: "\<And>j. look m j = int (count M j)"
    and "sound m"
    by (auto simp: represents_def)
  have c: "0 < count M k" using assms(2) by simp
  show ?thesis
    unfolding represents_def
  proof (intro conjI allI)
    show "sound (decr m k)" using \<open>sound m\<close> pos by (rule sound_decr)
    fix j
    show "look (decr m k) j = int (count (M - {#k#}) j)"
      using look_decr [OF \<open>sound m\<close> pos, of j] look c by (auto simp: of_nat_diff)
  qed
qed

lemma represents_zero: "represents m M \<Longrightarrow> look m k = 0 \<longleftrightarrow> k \<notin># M"
  by (simp add: represents_def not_in_iff)

end

interpretation map_counter: keyed_counter count_of count_inc count_dec counts_positive
proof unfold_locales
  fix m :: "'k \<Rightarrow> int option" and k j
  assume s: "counts_positive m"
  show "count_of (count_inc m k) j = (if j = k then count_of m k + 1 else count_of m j)"
    by (simp add: count_of_def count_inc_def get_or_def)
  show "counts_positive (count_inc m k)"
    using s by (fastforce simp: counts_positive_def count_inc_def get_or_def split: option.splits)
  assume "0 < count_of m k"
  then obtain v where v: "m k = Some v" "0 < v"
    by (auto simp: count_of_def get_or_def split: option.splits)
  show "count_of (count_dec m k) j = (if j = k then count_of m k - 1 else count_of m j)"
    using v by (simp add: count_of_def count_dec_def get_or_def)
  show "counts_positive (count_dec m k)"
    using s v by (fastforce simp: counts_positive_def count_dec_def get_or_def)
qed

lemma map_counter_None:
  assumes "map_counter.represents m M"
  shows "m k = None \<longleftrightarrow> k \<notin># M"
proof -
  have "counts_positive m" using assms by (simp add: map_counter.represents_def)
  then have "m k = None \<longleftrightarrow> count_of m k = 0"
    by (force simp: counts_positive_def count_of_def get_or_def split: option.splits)
  with map_counter.represents_zero [OF assms] show ?thesis by simp
qed

lemma map_counter_get:
  "map_counter.represents m M \<Longrightarrow> get_or m k 0 = int (count M k)"
  using map_counter.represents_look [of m M k] by (simp add: count_of_def)

lemma map_counter_empty: "map_counter.represents (\<lambda>_. None) {#}"
  by (simp add: map_counter.represents_def counts_positive_def count_of_def get_or_def)

section \<open>State machines\<close>

text \<open>
  A component is a state and a total step function on events; an interleaving of events is
  a list of them. The invariant of a component holds after every list of events.
\<close>

definition run :: "('s \<Rightarrow> 'e \<Rightarrow> 's) \<Rightarrow> 's \<Rightarrow> 'e list \<Rightarrow> 's" where
  "run step s es = foldl step s es"

lemma run_simps [simp]:
  "run step s [] = s"
  "run step s (e # es) = run step (step s e) es"
  by (simp_all add: run_def)

lemma run_append: "run step s (es @ fs) = run step (run step s es) fs"
  by (simp add: run_def)

locale machine =
  fixes start :: "'s"
    and step :: "'s \<Rightarrow> 'e \<Rightarrow> 's"
    and inv :: "'s \<Rightarrow> bool"
  assumes inv_start: "inv start"
    and inv_step: "inv s \<Longrightarrow> inv (step s e)"
begin

lemma inv_run_from: "inv s \<Longrightarrow> inv (run step s es)"
  by (induction es arbitrary: s) (auto intro: inv_step)

lemma inv_run: "inv (run step start es)"
  by (rule inv_run_from [OF inv_start])

lemma run_invariant: "(\<And>s. inv s \<Longrightarrow> P s) \<Longrightarrow> P (run step start es)"
  using inv_run by blast

end

section \<open>Characters\<close>

text \<open>
  The ranges of regular expressions. Evaluation compares the bits of two characters from the
  highest one down, without computing their codes.
\<close>

fun bits_le :: "bool list \<Rightarrow> bool list \<Rightarrow> bool" where
  "bits_le (x # xs) (y # ys) = (if x = y then bits_le xs ys else y)"
| "bits_le xs ys = True"

definition char_between :: "char \<Rightarrow> char \<Rightarrow> char \<Rightarrow> bool" where
  "char_between a b c \<longleftrightarrow> (of_char a :: nat) \<le> of_char c \<and> (of_char c :: nat) \<le> of_char b"

fun char_bits :: "char \<Rightarrow> bool list" where
  "char_bits (Char b0 b1 b2 b3 b4 b5 b6 b7) = [b7, b6, b5, b4, b3, b2, b1, b0]"

lemma bits_le_horner:
  "length xs = length ys \<Longrightarrow> bits_le xs ys \<longleftrightarrow>
    horner_sum of_bool (2 :: nat) (rev xs) \<le> horner_sum of_bool 2 (rev ys)"
proof (induction xs ys rule: bits_le.induct)
  case (1 x xs y ys)
  have b: "horner_sum of_bool (2 :: nat) zs < 2 ^ length zs" for zs :: "bool list"
    by (rule horner_sum_of_bool_2_less)
  show ?case using 1 b [of "rev xs"] b [of "rev ys"]
    by (cases x; cases y) (simp_all add: horner_sum_append)
qed auto

lemma char_le_bits: "(of_char c :: nat) \<le> of_char d \<longleftrightarrow> bits_le (char_bits c) (char_bits d)"
proof -
  have "(of_char c :: nat) = horner_sum of_bool 2 (rev (char_bits c))" for c
    by (cases c) (simp only: of_char_Char char_bits.simps rev.simps append.simps)
  moreover have "length (char_bits c) = length (char_bits d)" by (cases c; cases d) simp
  ultimately show ?thesis by (simp only: bits_le_horner)
qed

lemma char_between_code [code]:
  "char_between a b c \<longleftrightarrow> bits_le (char_bits a) (char_bits c) \<and> bits_le (char_bits c) (char_bits b)"
  by (simp add: char_between_def char_le_bits)

definition is_lower :: "char \<Rightarrow> bool" where "is_lower = char_between CHR ''a'' CHR ''z''"
definition is_upper :: "char \<Rightarrow> bool" where "is_upper = char_between CHR ''A'' CHR ''Z''"
definition is_digit :: "char \<Rightarrow> bool" where "is_digit = char_between CHR ''0'' CHR ''9''"

end
