(* ===== verification/GitChildAdmission.thy ===== *)
theory GitChildAdmission
  imports Prelude "HOL-Library.Sublist"
begin

text \<open>
  The admission of Git child processes, \<open>src/src/resource-admission/ResourceAdmission.ts\<close>.
  A state holds the counters of the class \<open>ResourceAdmission\<close>, the queue of waiters, the
  permits handed out so far (one entry per closure that \<open>#createPermit\<close> returned, with its
  \<open>released\<close> flag) and the settled promises in the order in which they settled. The per
  Project count is a shared mutable object in the code: the map holds a reference and every
  permit captures one; the model keeps the objects in the store \<open>gs_counts\<close> and the
  references as indices into it, and the invariant shows that the sharing is safe.

  The events are the synchronous sections of the code: a call of \<open>acquireGitChild\<close>, a
  queue timeout, the dispatch of an abort signal, a call of a permit's \<open>release\<close>, and
  \<open>close\<close>.
\<close>

section \<open>Data\<close>

datatype git_class = ReadOp | WriteOp

datatype git_error = GitBusy | GitCancelled | GitClosed | GitInvalidProject

definition git_retryable :: "git_error \<Rightarrow> bool" where
  "git_retryable e \<longleftrightarrow> e = GitBusy"

record class_count =
  cc_read :: int
  cc_write :: int

definition cc_total :: "class_count \<Rightarrow> int" where
  "cc_total n = cc_read n + cc_write n"

fun cc_get :: "git_class \<Rightarrow> class_count \<Rightarrow> int" where
  "cc_get ReadOp n = cc_read n"
| "cc_get WriteOp n = cc_write n"

fun cc_add :: "git_class \<Rightarrow> int \<Rightarrow> class_count \<Rightarrow> class_count" where
  "cc_add ReadOp d n = n\<lparr>cc_read := cc_read n + d\<rparr>"
| "cc_add WriteOp d n = n\<lparr>cc_write := cc_write n + d\<rparr>"

definition cc_zero :: class_count where
  "cc_zero = \<lparr>cc_read = 0, cc_write = 0\<rparr>"

record git_options =
  go_maxChildren :: int
  go_maxChildrenPerProject :: int
  go_maxQueuedReads :: "int option"
  go_maxQueuedWrites :: "int option"
  go_maxReadChildren :: "int option"
  go_maxWriteChildren :: "int option"
  go_queueMax :: int
  go_queueMaxPerProject :: int
  go_queueTimeoutMs :: int

record git_limits =
  gl_maxChildren :: int
  gl_maxChildrenPerProject :: int
  gl_maxQueued :: class_count
  gl_maxActive :: class_count
  gl_queueMax :: int
  gl_queueMaxPerProject :: int
  gl_queueTimeoutMs :: int

definition option_or :: "'a option \<Rightarrow> 'a \<Rightarrow> 'a" where
  "option_or x d = (case x of None \<Rightarrow> d | Some v \<Rightarrow> v)"

text \<open>
  \<open>normalizeOptions\<close> and the constructor; \<open>None\<close> is the \<open>TypeError\<close> of invalid options.
\<close>

definition git_normalize :: "git_options \<Rightarrow> git_limits option" where
  "git_normalize o1 =
     (let queuedReads = option_or (go_maxQueuedReads o1) (go_queueMax o1 - 1);
          queuedWrites = option_or (go_maxQueuedWrites o1) (go_queueMax o1 - 1);
          readChildren = option_or (go_maxReadChildren o1) (go_maxChildren o1 - 1);
          writeChildren = option_or (go_maxWriteChildren o1) (go_maxChildren o1 - 1);
          integers = [go_maxChildren o1, go_maxChildrenPerProject o1, queuedReads, queuedWrites,
            readChildren, writeChildren, go_queueMax o1, go_queueMaxPerProject o1,
            go_queueTimeoutMs o1]
      in if (\<exists>v\<in>set integers. \<not> safe_integer v \<or> v \<le> 0)
            \<or> go_maxChildrenPerProject o1 \<ge> go_maxChildren o1
            \<or> readChildren \<ge> go_maxChildren o1
            \<or> writeChildren \<ge> go_maxChildren o1
            \<or> queuedReads \<ge> go_queueMax o1
            \<or> queuedWrites \<ge> go_queueMax o1
            \<or> go_queueMaxPerProject o1 \<ge> go_queueMax o1
         then None
         else Some \<lparr>gl_maxChildren = go_maxChildren o1,
                gl_maxChildrenPerProject = go_maxChildrenPerProject o1,
                gl_maxQueued = \<lparr>cc_read = queuedReads, cc_write = queuedWrites\<rparr>,
                gl_maxActive = \<lparr>cc_read = readChildren, cc_write = writeChildren\<rparr>,
                gl_queueMax = go_queueMax o1,
                gl_queueMaxPerProject = go_queueMaxPerProject o1,
                gl_queueTimeoutMs = go_queueTimeoutMs o1\<rparr>)"

record git_waiter =
  gw_id :: nat
  gw_class :: git_class
  gw_project :: string
  gw_signal :: "nat option"

record git_permit =
  gp_class :: git_class
  gp_project :: string
  gp_ref :: nat
  gp_released :: bool

record git_request =
  gr_class :: git_class
  gr_project :: string
  gr_signal :: "nat option"

record git_state =
  gs_active :: class_count
  gs_byProject :: "string \<Rightarrow> nat option"
  gs_counts :: "class_count list"
  gs_queuedByProject :: "string \<Rightarrow> int option"
  gs_queued :: class_count
  gs_queue :: "git_waiter list"
  gs_closed :: bool
  gs_closeResolved :: bool
  gs_aborted :: "nat list"
  gs_permits :: "git_permit list"
  gs_settled :: "(nat \<times> (git_error + nat)) list"
  gs_next :: nat

definition git_start :: git_state where
  "git_start = \<lparr>gs_active = cc_zero, gs_byProject = (\<lambda>_. None), gs_counts = [],
     gs_queuedByProject = (\<lambda>_. None), gs_queued = cc_zero, gs_queue = [], gs_closed = False,
     gs_closeResolved = False, gs_aborted = [], gs_permits = [], gs_settled = [], gs_next = 0\<rparr>"

section \<open>Operations\<close>

definition signal_aborted :: "nat option \<Rightarrow> git_state \<Rightarrow> bool" where
  "signal_aborted sig s = (case sig of None \<Rightarrow> False | Some a \<Rightarrow> a \<in> set (gs_aborted s))"

definition git_settle :: "nat \<Rightarrow> git_error + nat \<Rightarrow> git_state \<Rightarrow> git_state" where
  "git_settle i r s = s\<lparr>gs_settled := gs_settled s @ [(i, r)]\<rparr>"

definition can_grant :: "git_limits \<Rightarrow> git_state \<Rightarrow> string \<Rightarrow> git_class \<Rightarrow> bool" where
  "can_grant L s p c \<longleftrightarrow>
     cc_total (gs_active s) < gl_maxChildren L
     \<and> cc_get c (gs_active s) < cc_get c (gl_maxActive L)
     \<and> (case gs_byProject s p of
          None \<Rightarrow> True
        | Some r \<Rightarrow> cc_total (gs_counts s ! r) < gl_maxChildrenPerProject L)"

definition create_permit :: "string \<Rightarrow> git_class \<Rightarrow> git_state \<Rightarrow> nat \<times> git_state" where
  "create_permit p c s =
     (let (r, store) = (case gs_byProject s p of
            Some r \<Rightarrow> (r, gs_counts s)
          | None \<Rightarrow> (length (gs_counts s), gs_counts s @ [cc_zero]))
      in (length (gs_permits s),
          s\<lparr>gs_active := cc_add c 1 (gs_active s),
            gs_counts := store[r := cc_add c 1 (store ! r)],
            gs_byProject := (gs_byProject s)(p := Some r),
            gs_permits := gs_permits s
              @ [\<lparr>gp_class = c, gp_project = p, gp_ref = r, gp_released = False\<rparr>]\<rparr>))"

definition grant :: "nat \<Rightarrow> string \<Rightarrow> git_class \<Rightarrow> git_state \<Rightarrow> git_state" where
  "grant i p c s = (let (k, s') = create_permit p c s in git_settle i (Inr k) s')"

text \<open>
  \<open>#settleWaiter\<close>, together with the \<open>splice\<close> that its callers have just done: a waiter is
  settled exactly when it is no longer in the queue, so the flag \<open>settled\<close> of the code is
  membership in the queue, and clearing the timer and the abort listener is what makes the
  events below act on queued waiters only.
\<close>

definition settle_waiter :: "git_waiter list \<Rightarrow> git_waiter \<Rightarrow> git_waiter list \<Rightarrow> git_state \<Rightarrow> git_state" where
  "settle_waiter ys w zs s =
     s\<lparr>gs_queue := ys @ zs,
       gs_queued := cc_add (gw_class w) (- 1) (gs_queued s),
       gs_queuedByProject := count_dec (gs_queuedByProject s) (gw_project w)\<rparr>"

definition remove_and_reject :: "nat \<Rightarrow> git_error \<Rightarrow> git_state \<Rightarrow> git_state" where
  "remove_and_reject i e s =
     (case List.extract (\<lambda>w. gw_id w = i) (gs_queue s) of
        None \<Rightarrow> s
      | Some (ys, w, zs) \<Rightarrow> git_settle i (Inl e) (settle_waiter ys w zs s))"

function drain_queue :: "git_limits \<Rightarrow> git_state \<Rightarrow> git_state" where
  "drain_queue L s =
     (if gs_closed s \<or> \<not> cc_total (gs_active s) < gl_maxChildren L then s
      else case List.extract (\<lambda>w. can_grant L s (gw_project w) (gw_class w)) (gs_queue s) of
             None \<Rightarrow> s
           | Some (ys, w, zs) \<Rightarrow>
               (let s1 = settle_waiter ys w zs s
                in if signal_aborted (gw_signal w) s1
                   then drain_queue L (git_settle (gw_id w) (Inl GitCancelled) s1)
                   else drain_queue L (grant (gw_id w) (gw_project w) (gw_class w) s1)))"
  by pat_completeness auto
termination
proof (relation "measure (\<lambda>(L, s). length (gs_queue s))", goal_cases)
  case 1
  show ?case by simp
next
  case (2 L s x2 ys y w zs x)
  then show ?case by (auto simp: settle_waiter_def git_settle_def dest: extract_length)
next
  case (3 L s x2 ys y w zs x)
  then show ?case
    by (auto simp: settle_waiter_def git_settle_def grant_def create_permit_def Let_def
        split: prod.splits option.splits dest: extract_length)
qed

declare drain_queue.simps [simp del]

definition git_enqueue :: "git_limits \<Rightarrow> git_request \<Rightarrow> git_state \<Rightarrow> git_state" where
  "git_enqueue L q s =
     (let i = gs_next s;
          s1 = s\<lparr>gs_next := Suc i,
                 gs_queue := gs_queue s @ [\<lparr>gw_id = i, gw_class = gr_class q,
                   gw_project = gr_project q, gw_signal = gr_signal q\<rparr>],
                 gs_queued := cc_add (gr_class q) 1 (gs_queued s),
                 gs_queuedByProject := count_inc (gs_queuedByProject s) (gr_project q)\<rparr>;
          s2 = (if signal_aborted (gr_signal q) s1
                then drain_queue L (remove_and_reject i GitCancelled s1) else s1)
      in drain_queue L s2)"

definition acquire_git_child ::
  "(string \<Rightarrow> bool) \<Rightarrow> git_limits \<Rightarrow> git_request \<Rightarrow> git_state \<Rightarrow> git_state" where
  "acquire_git_child is_project L q s =
     (let i = gs_next s; refuse = (\<lambda>e. git_settle i (Inl e) (s\<lparr>gs_next := Suc i\<rparr>))
      in if gs_closed s then refuse GitClosed
         else if \<not> is_project (gr_project q) then refuse GitInvalidProject
         else if signal_aborted (gr_signal q) s then refuse GitCancelled
         else if can_grant L s (gr_project q) (gr_class q)
         then grant i (gr_project q) (gr_class q) (s\<lparr>gs_next := Suc i\<rparr>)
         else if int (length (gs_queue s)) \<ge> gl_queueMax L
              \<or> cc_get (gr_class q) (gs_queued s) \<ge> cc_get (gr_class q) (gl_maxQueued L)
              \<or> get_or (gs_queuedByProject s) (gr_project q) 0 \<ge> gl_queueMaxPerProject L
         then refuse GitBusy
         else git_enqueue L q s)"

definition queue_timeout :: "git_limits \<Rightarrow> nat \<Rightarrow> git_state \<Rightarrow> git_state" where
  "queue_timeout L i s =
     (if i \<in> gw_id ` set (gs_queue s) then drain_queue L (remove_and_reject i GitBusy s) else s)"

text \<open>
  An abort signal fires once. Its listeners run in the order in which they were added; a
  listener that a preceding one caused to be removed does not run.
\<close>

definition abort_listener :: "git_limits \<Rightarrow> nat \<Rightarrow> git_state \<Rightarrow> git_state" where
  "abort_listener L i s =
     (if i \<in> gw_id ` set (gs_queue s) then drain_queue L (remove_and_reject i GitCancelled s) else s)"

definition abort_signal :: "git_limits \<Rightarrow> nat \<Rightarrow> git_state \<Rightarrow> git_state" where
  "abort_signal L a s =
     (if a \<in> set (gs_aborted s) then s
      else fold (abort_listener L)
             (map gw_id (filter (\<lambda>w. gw_signal w = Some a) (gs_queue s)))
             (s\<lparr>gs_aborted := a # gs_aborted s\<rparr>))"

definition release_permit :: "git_limits \<Rightarrow> nat \<Rightarrow> git_state \<Rightarrow> git_state" where
  "release_permit L k s =
     (if k \<ge> length (gs_permits s) \<or> gp_released (gs_permits s ! k) then s
      else let q = gs_permits s ! k;
               n = cc_add (gp_class q) (- 1) (gs_counts s ! gp_ref q);
               s1 = s\<lparr>gs_permits := (gs_permits s)[k := q\<lparr>gp_released := True\<rparr>],
                      gs_active := cc_add (gp_class q) (- 1) (gs_active s),
                      gs_counts := (gs_counts s)[gp_ref q := n],
                      gs_byProject := (if cc_total n = 0
                        then (gs_byProject s)(gp_project q := None) else gs_byProject s)\<rparr>
           in if gs_closed s1
              then (if cc_total (gs_active s1) = 0 then s1\<lparr>gs_closeResolved := True\<rparr> else s1)
              else drain_queue L s1)"

definition git_close :: "git_state \<Rightarrow> git_state" where
  "git_close s =
     (if gs_closed s then s
      else let s1 = fold (\<lambda>w. remove_and_reject (gw_id w) GitClosed) (gs_queue s)
                      (s\<lparr>gs_closed := True\<rparr>)
           in if cc_total (gs_active s1) = 0 then s1\<lparr>gs_closeResolved := True\<rparr> else s1)"

datatype git_event =
    GitAcquire git_request
  | GitTimeout nat
  | GitAbort nat
  | GitRelease nat
  | GitClose

fun git_step :: "(string \<Rightarrow> bool) \<Rightarrow> git_limits \<Rightarrow> git_state \<Rightarrow> git_event \<Rightarrow> git_state" where
  "git_step is_project L s (GitAcquire q) = acquire_git_child is_project L q s"
| "git_step is_project L s (GitTimeout i) = queue_timeout L i s"
| "git_step is_project L s (GitAbort a) = abort_signal L a s"
| "git_step is_project L s (GitRelease k) = release_permit L k s"
| "git_step is_project L s GitClose = git_close s"

section \<open>Invariant\<close>

lemma cc_get_add [simp]: "cc_get c (cc_add d n x) = (if c = d then cc_get c x + n else cc_get c x)"
  by (cases c; cases d) simp_all

lemma cc_total_add [simp]: "cc_total (cc_add d n x) = cc_total x + n"
  by (cases d) (simp_all add: cc_total_def)

lemma cc_get_zero [simp]: "cc_get c cc_zero = 0"
  by (cases c) (simp_all add: cc_zero_def)

lemma cc_total_zero [simp]: "cc_total cc_zero = 0"
  by (simp add: cc_total_def cc_zero_def)

lemma cc_total_get: "cc_total n = cc_get ReadOp n + cc_get WriteOp n"
  by (simp add: cc_total_def)

text \<open>The permits that are outstanding and satisfy a condition.\<close>

definition live :: "(git_permit \<Rightarrow> bool) \<Rightarrow> git_permit list \<Rightarrow> int" where
  "live P qs = int (length (filter (\<lambda>q. \<not> gp_released q \<and> P q) qs))"

lemma live_Nil [simp]: "live P [] = 0"
  by (simp add: live_def)

lemma live_snoc [simp]:
  "live P (qs @ [q]) = live P qs + (if \<not> gp_released q \<and> P q then 1 else 0)"
  by (simp add: live_def)

lemma live_nonneg [simp]: "0 \<le> live P qs"
  by (simp add: live_def)

lemma live_release:
  assumes "k < length qs" and "\<not> gp_released (qs ! k)"
  shows "live P (qs[k := (qs ! k)\<lparr>gp_released := True\<rparr>]) = live P qs - (if P (qs ! k) then 1 else 0)"
proof (cases "P (qs ! k)")
  case True
  then show ?thesis
    using assms length_filter_update_off [of k qs "\<lambda>q. \<not> gp_released q \<and> P q"
        "(qs ! k)\<lparr>gp_released := True\<rparr>"]
    by (simp add: live_def)
next
  case False
  then show ?thesis
    using assms length_filter_update_same [of k qs "\<lambda>q. \<not> gp_released q \<and> P q"
        "(qs ! k)\<lparr>gp_released := True\<rparr>"]
    by (simp add: live_def)
qed

lemma live_pos: "q \<in> set qs \<Longrightarrow> \<not> gp_released q \<Longrightarrow> P q \<Longrightarrow> 0 < live P qs"
  by (auto simp: live_def length_greater_0_conv[symmetric] simp del: length_greater_0_conv)
    (metis (mono_tags, lifting) filter_empty_conv length_greater_0_conv)

lemma live_split:
  "live (\<lambda>q. Q q \<and> gp_class q = ReadOp) qs + live (\<lambda>q. Q q \<and> gp_class q = WriteOp) qs = live Q qs"
proof (induction qs rule: rev_induct)
  case (snoc q qs)
  then show ?case by (cases "gp_class q") auto
qed simp

definition of_project :: "string \<Rightarrow> git_permit \<Rightarrow> bool" where
  "of_project p q \<longleftrightarrow> gp_project q = p"

text \<open>The counters agree with the permits; the shared count objects are not confused.\<close>

definition accounts :: "git_state \<Rightarrow> bool" where
  "accounts s \<longleftrightarrow>
     (\<forall>c. cc_get c (gs_active s) = live (\<lambda>q. gp_class q = c) (gs_permits s))
     \<and> (\<forall>p r. gs_byProject s p = Some r \<longrightarrow>
          r < length (gs_counts s) \<and> 0 < cc_total (gs_counts s ! r)
          \<and> (\<forall>c. cc_get c (gs_counts s ! r)
                = live (\<lambda>q. of_project p q \<and> gp_class q = c) (gs_permits s)))
     \<and> (\<forall>p q r. gs_byProject s p = Some r \<longrightarrow> gs_byProject s q = Some r \<longrightarrow> p = q)
     \<and> (\<forall>q\<in>set (gs_permits s). \<not> gp_released q \<longrightarrow> gs_byProject s (gp_project q) = Some (gp_ref q))"

definition within_limits :: "git_limits \<Rightarrow> git_state \<Rightarrow> bool" where
  "within_limits L s \<longleftrightarrow>
     cc_total (gs_active s) \<le> gl_maxChildren L
     \<and> (\<forall>c. cc_get c (gs_active s) \<le> cc_get c (gl_maxActive L))
     \<and> (\<forall>p r. gs_byProject s p = Some r \<longrightarrow>
          cc_total (gs_counts s ! r) \<le> gl_maxChildrenPerProject L)"

definition queue_accounts :: "git_limits \<Rightarrow> git_state \<Rightarrow> bool" where
  "queue_accounts L s \<longleftrightarrow>
     (\<forall>c. cc_get c (gs_queued s) = int (length (filter (\<lambda>w. gw_class w = c) (gs_queue s)))
        \<and> cc_get c (gs_queued s) \<le> cc_get c (gl_maxQueued L))
     \<and> map_counter.represents (gs_queuedByProject s) (mset (map gw_project (gs_queue s)))
     \<and> (\<forall>p. int (count (mset (map gw_project (gs_queue s))) p) \<le> gl_queueMaxPerProject L)
     \<and> int (length (gs_queue s)) \<le> gl_queueMax L"

definition settled_once :: "git_state \<Rightarrow> bool" where
  "settled_once s \<longleftrightarrow>
     distinct (map gw_id (gs_queue s) @ map fst (gs_settled s))
     \<and> set (map gw_id (gs_queue s) @ map fst (gs_settled s)) = {..<gs_next s}"

definition no_grantable_waiter :: "git_limits \<Rightarrow> git_state \<Rightarrow> bool" where
  "no_grantable_waiter L s \<longleftrightarrow>
     (\<forall>w\<in>set (gs_queue s). \<not> can_grant L s (gw_project w) (gw_class w))"

definition close_state :: "git_state \<Rightarrow> bool" where
  "close_state s \<longleftrightarrow>
     (gs_closed s \<longrightarrow> gs_queue s = [])
     \<and> (gs_closeResolved s \<longleftrightarrow> gs_closed s \<and> cc_total (gs_active s) = 0)"

definition git_core :: "git_limits \<Rightarrow> git_state \<Rightarrow> bool" where
  "git_core L s \<longleftrightarrow> accounts s \<and> within_limits L s \<and> queue_accounts L s \<and> settled_once s"

definition git_inv :: "git_limits \<Rightarrow> git_state \<Rightarrow> bool" where
  "git_inv L s \<longleftrightarrow> git_core L s \<and> no_grantable_waiter L s \<and> close_state s"

definition limits_ok :: "git_limits \<Rightarrow> bool" where
  "limits_ok L \<longleftrightarrow>
     0 < gl_maxChildrenPerProject L \<and> gl_maxChildrenPerProject L < gl_maxChildren L
     \<and> (\<forall>c. 0 < cc_get c (gl_maxActive L) \<and> cc_get c (gl_maxActive L) < gl_maxChildren L)
     \<and> (\<forall>c. 0 < cc_get c (gl_maxQueued L) \<and> cc_get c (gl_maxQueued L) < gl_queueMax L)
     \<and> 0 < gl_queueMaxPerProject L \<and> gl_queueMaxPerProject L < gl_queueMax L"

lemma all_classes: "(\<forall>c. P c) \<longleftrightarrow> P ReadOp \<and> P WriteOp"
  by (metis git_class.exhaust)

lemma normalize_limits_ok: "git_normalize opts = Some L \<Longrightarrow> limits_ok L"
  by (auto simp: git_normalize_def limits_ok_def Let_def all_classes split: if_splits)

section \<open>Preservation\<close>

lemma accountsD:
  assumes "accounts s"
  shows "cc_get c (gs_active s) = live (\<lambda>q. gp_class q = c) (gs_permits s)"
    and "gs_byProject s p = Some r \<Longrightarrow> r < length (gs_counts s)"
    and "gs_byProject s p = Some r \<Longrightarrow> 0 < cc_total (gs_counts s ! r)"
    and "gs_byProject s p = Some r \<Longrightarrow>
      cc_get c (gs_counts s ! r) = live (\<lambda>q. of_project p q \<and> gp_class q = c) (gs_permits s)"
    and "gs_byProject s p = Some r \<Longrightarrow> gs_byProject s p' = Some r \<Longrightarrow> p = p'"
    and "q \<in> set (gs_permits s) \<Longrightarrow> \<not> gp_released q \<Longrightarrow>
      gs_byProject s (gp_project q) = Some (gp_ref q)"
  using assms unfolding accounts_def by blast+

lemma accounts_total:
  assumes "accounts s" and "gs_byProject s p = Some r"
  shows "cc_total (gs_counts s ! r) = live (of_project p) (gs_permits s)"
  using accountsD(4) [OF assms] live_split [of "of_project p"]
  by (simp add: cc_total_get)

lemma no_entry_no_permit:
  assumes "accounts s" and "gs_byProject s p = None"
  shows "live (\<lambda>q. of_project p q \<and> Q q) (gs_permits s) = 0"
  using accountsD(6) [OF assms(1)] assms(2)
  by (auto simp: live_def of_project_def filter_empty_conv)

lemma project_count:
  assumes "accounts s"
  shows "(case gs_byProject s p of None \<Rightarrow> 0 | Some r \<Rightarrow> cc_total (gs_counts s ! r))
    = live (of_project p) (gs_permits s)"
  using accounts_total [OF assms] no_entry_no_permit [OF assms, of p "\<lambda>_. True"]
  by (simp split: option.split)

lemma create_permit_accounts:
  assumes a: "accounts s"
  shows "accounts (snd (create_permit p c s))"
proof (cases "gs_byProject s p")
  case None
  have fresh: "gs_byProject s p' = Some r \<Longrightarrow> r \<noteq> length (gs_counts s)" for p' r
    using accountsD(2) [OF a] by fastforce
  have zero: "live (\<lambda>q. of_project p q \<and> gp_class q = d) (gs_permits s) = 0" for d
    by (rule no_entry_no_permit [OF a None])
  show ?thesis
    unfolding accounts_def create_permit_def using None
    by (auto simp: accountsD [OF a] nth_append fresh zero zero [unfolded of_project_def] of_project_def
        dest: accountsD(2) [OF a] accountsD(3) [OF a] accountsD(5) [OF a])
next
  case (Some r)
  show ?thesis
    unfolding accounts_def create_permit_def using Some
    by (auto simp: accountsD [OF a] nth_list_update of_project_def
        dest: accountsD(2) [OF a] accountsD(3) [OF a] accountsD(5) [OF a])
qed

lemma create_permit_frame [simp]:
  "gs_queue (snd (create_permit p c s)) = gs_queue s"
  "gs_queued (snd (create_permit p c s)) = gs_queued s"
  "gs_queuedByProject (snd (create_permit p c s)) = gs_queuedByProject s"
  "gs_closed (snd (create_permit p c s)) = gs_closed s"
  "gs_closeResolved (snd (create_permit p c s)) = gs_closeResolved s"
  "gs_aborted (snd (create_permit p c s)) = gs_aborted s"
  "gs_settled (snd (create_permit p c s)) = gs_settled s"
  "gs_next (snd (create_permit p c s)) = gs_next s"
  "gs_active (snd (create_permit p c s)) = cc_add c 1 (gs_active s)"
  by (simp_all add: create_permit_def Let_def split: option.split)

lemma create_permit_limits:
  assumes a: "accounts s" and l: "within_limits L s" and ok: "limits_ok L"
    and g: "can_grant L s p c"
  shows "within_limits L (snd (create_permit p c s))"
proof (cases "gs_byProject s p")
  case None
  have fresh: "gs_byProject s p' = Some r \<Longrightarrow> r < length (gs_counts s)" for p' r
    using accountsD(2) [OF a] by fastforce
  show ?thesis
    using l g ok None fresh unfolding within_limits_def can_grant_def limits_ok_def
    by (auto simp: create_permit_def nth_append less_imp_neq)
next
  case (Some r)
  show ?thesis
    using l g ok Some accountsD(2) [OF a Some] unfolding within_limits_def can_grant_def limits_ok_def
    by (auto simp: create_permit_def nth_list_update)
qed

lemma grant_eq: "grant i p c s = git_settle i (Inr (length (gs_permits s))) (snd (create_permit p c s))"
  by (simp add: grant_def create_permit_def Let_def split: prod.split option.split)

lemma settle_frame [simp]:
  "accounts (git_settle i r s) = accounts s"
  "within_limits L (git_settle i r s) = within_limits L s"
  "queue_accounts L (git_settle i r s) = queue_accounts L s"
  "can_grant L (git_settle i r s) p c = can_grant L s p c"
  "gs_queue (git_settle i r s) = gs_queue s"
  "gs_closed (git_settle i r s) = gs_closed s"
  "gs_closeResolved (git_settle i r s) = gs_closeResolved s"
  "gs_active (git_settle i r s) = gs_active s"
  "gs_aborted (git_settle i r s) = gs_aborted s"
  "gs_next (git_settle i r s) = gs_next s"
  "gs_settled (git_settle i r s) = gs_settled s @ [(i, r)]"
  by (simp_all add: git_settle_def accounts_def within_limits_def queue_accounts_def can_grant_def
      cong: option.case_cong)

lemma settle_waiter_frame [simp]:
  "accounts (settle_waiter ys w zs s) = accounts s"
  "within_limits L (settle_waiter ys w zs s) = within_limits L s"
  "can_grant L (settle_waiter ys w zs s) p c = can_grant L s p c"
  "gs_queue (settle_waiter ys w zs s) = ys @ zs"
  "gs_closed (settle_waiter ys w zs s) = gs_closed s"
  "gs_closeResolved (settle_waiter ys w zs s) = gs_closeResolved s"
  "gs_active (settle_waiter ys w zs s) = gs_active s"
  "gs_aborted (settle_waiter ys w zs s) = gs_aborted s"
  "gs_next (settle_waiter ys w zs s) = gs_next s"
  "gs_settled (settle_waiter ys w zs s) = gs_settled s"
  by (simp_all add: settle_waiter_def accounts_def within_limits_def can_grant_def
      cong: option.case_cong)

lemma queue_accounts_cong:
  "gs_queue s = gs_queue t \<Longrightarrow> gs_queued s = gs_queued t \<Longrightarrow>
   gs_queuedByProject s = gs_queuedByProject t \<Longrightarrow> queue_accounts L s = queue_accounts L t"
  by (simp add: queue_accounts_def)

lemma settle_waiter_queue:
  assumes q: "queue_accounts L s" and e: "gs_queue s = ys @ w # zs"
  shows "queue_accounts L (settle_waiter ys w zs s)"
proof -
  let ?M = "mset (map gw_project (gs_queue s))" and ?q = "ys @ zs"
  have cls: "cc_get c (gs_queued s) = int (length (filter (\<lambda>w. gw_class w = c) (gs_queue s)))"
    and lim: "cc_get c (gs_queued s) \<le> cc_get c (gl_maxQueued L)" for c
    using q unfolding queue_accounts_def by blast+
  have cls': "cc_get c (cc_add (gw_class w) (- 1) (gs_queued s))
      = int (length (filter (\<lambda>w. gw_class w = c) ?q))" for c
    using cls [of c] e by auto
  have lim': "cc_get c (cc_add (gw_class w) (- 1) (gs_queued s)) \<le> cc_get c (gl_maxQueued L)" for c
    using lim [of c] by (cases "c = gw_class w") auto
  have rep: "map_counter.represents (count_dec (gs_queuedByProject s) (gw_project w))
      (?M - {#gw_project w#})"
    using q e by (intro map_counter.represents_decr) (auto simp: queue_accounts_def)
  have proj: "int (count (mset (map gw_project ?q)) p) \<le> gl_queueMaxPerProject L" for p
  proof -
    have "int (count ?M p) \<le> gl_queueMaxPerProject L" using q by (simp add: queue_accounts_def)
    then show ?thesis using e by (simp split: if_splits)
  qed
  have len: "int (length ?q) \<le> gl_queueMax L"
    using q e by (simp add: queue_accounts_def)
  show ?thesis
    unfolding queue_accounts_def settle_waiter_def
    using cls' lim' rep proj len e by simp
qed

lemma settled_once_remove:
  assumes "settled_once s" and "gs_queue s = ys @ w # zs"
  shows "settled_once (git_settle (gw_id w) r (settle_waiter ys w zs s))"
  using assms unfolding settled_once_def by auto

lemma grant_waiter_core:
  assumes "git_core L s" and "limits_ok L" and "gs_queue s = ys @ w # zs"
    and "can_grant L s (gw_project w) (gw_class w)"
  shows "git_core L (grant (gw_id w) (gw_project w) (gw_class w) (settle_waiter ys w zs s))"
proof -
  let ?s = "settle_waiter ys w zs s"
  have "settled_once (grant (gw_id w) (gw_project w) (gw_class w) ?s)"
    using assms(1,3) unfolding git_core_def settled_once_def grant_eq by auto
  moreover have "queue_accounts L (grant (gw_id w) (gw_project w) (gw_class w) ?s)"
    using settle_waiter_queue [of L s ys w zs] assms(1,3)
    by (simp add: grant_eq git_core_def queue_accounts_cong [of "snd (create_permit p c s)" s for p c s])
  ultimately show ?thesis
    using assms create_permit_accounts [of ?s] create_permit_limits [of ?s L]
    by (simp add: git_core_def grant_eq)
qed

lemma reject_waiter_core:
  assumes "git_core L s" and "gs_queue s = ys @ w # zs"
  shows "git_core L (git_settle (gw_id w) (Inl e) (settle_waiter ys w zs s))"
  using assms settled_once_remove [of s ys w zs] settle_waiter_queue [of L s ys w zs]
  by (simp add: git_core_def)

lemma remove_and_reject_core:
  assumes "git_core L s"
  shows "git_core L (remove_and_reject i e s)"
  using assms unfolding remove_and_reject_def
  by (auto split: option.split dest!: extract_Some intro: reject_waiter_core)


lemma drain_cases:
  assumes c: "git_core L s" and ok: "limits_ok L"
  obtains (stop) "drain_queue L s = s" and "gs_closed s \<or> no_grantable_waiter L s"
    | (more) s' where "drain_queue L s = drain_queue L s'" and "git_core L s'"
      and "length (gs_queue s') < length (gs_queue s)" and "gs_closed s' = gs_closed s"
      and "gs_closeResolved s' = gs_closeResolved s" and "gs_aborted s' = gs_aborted s"
      and "\<not> gs_closed s"
proof (cases "gs_closed s \<or> \<not> cc_total (gs_active s) < gl_maxChildren L")
  case True
  then show ?thesis using stop
    by (auto simp: drain_queue.simps [of L s] no_grantable_waiter_def can_grant_def)
next
  case open1: False
  show ?thesis
  proof (cases "List.extract (\<lambda>w. can_grant L s (gw_project w) (gw_class w)) (gs_queue s)")
    case None
    then have "drain_queue L s = s" using open1 by (subst drain_queue.simps) simp
    moreover have "no_grantable_waiter L s"
      using None by (simp add: no_grantable_waiter_def extract_None)
    ultimately show ?thesis using stop by blast
  next
    case (Some t)
    then obtain ys w zs where t: "t = (ys, w, zs)" by (cases t) auto
    have q: "gs_queue s = ys @ w # zs" and g: "can_grant L s (gw_project w) (gw_class w)"
      using Some t by (auto dest: extract_Some)
    let ?s1 = "settle_waiter ys w zs s"
    let ?s2 = "if signal_aborted (gw_signal w) ?s1
      then git_settle (gw_id w) (Inl GitCancelled) ?s1
      else grant (gw_id w) (gw_project w) (gw_class w) ?s1"
    have "drain_queue L s = drain_queue L ?s2"
      using open1 Some t by (subst drain_queue.simps) (simp add: Let_def)
    moreover have "git_core L ?s2"
      using reject_waiter_core [OF c q] grant_waiter_core [OF c ok q g] by simp
    moreover have "gs_queue ?s2 = ys @ zs" by (simp add: grant_eq)
    ultimately show ?thesis using more [of ?s2] open1 q by (auto simp: grant_eq)
  qed
qed

lemma drain_core:
  assumes "git_core L s" and "limits_ok L"
  shows "git_core L (drain_queue L s)
    \<and> (gs_closed s \<or> no_grantable_waiter L (drain_queue L s))
    \<and> gs_closed (drain_queue L s) = gs_closed s
    \<and> gs_closeResolved (drain_queue L s) = gs_closeResolved s
    \<and> gs_aborted (drain_queue L s) = gs_aborted s"
  using assms
proof (induction "length (gs_queue s)" arbitrary: s rule: less_induct)
  case less
  from less.prems show ?case
  proof (cases rule: drain_cases)
    case stop
    then show ?thesis using less.prems by simp
  next
    case (more s')
    then show ?thesis using less.hyps [of s'] less.prems(2) by auto
  qed
qed

lemma remove_and_reject_frame [simp]:
  "gs_closed (remove_and_reject i e s) = gs_closed s"
  "gs_closeResolved (remove_and_reject i e s) = gs_closeResolved s"
  "gs_active (remove_and_reject i e s) = gs_active s"
  "gs_aborted (remove_and_reject i e s) = gs_aborted s"
  "can_grant L (remove_and_reject i e s) p c = can_grant L s p c"
  "gs_next (remove_and_reject i e s) = gs_next s"
  by (simp_all add: remove_and_reject_def split: option.split prod.split)

text \<open>A drained state: the invariant, when the close promise is not touched.\<close>

lemma drained_inv:
  assumes "git_core L s" and "limits_ok L" and "\<not> gs_closed s" and "\<not> gs_closeResolved s"
  shows "git_inv L (drain_queue L s)"
  using drain_core [OF assms(1,2)] assms(3,4) by (auto simp: git_inv_def close_state_def)

lemma inv_open: "git_inv L s \<Longrightarrow> \<not> gs_closed s \<Longrightarrow> \<not> gs_closeResolved s"
  by (simp add: git_inv_def close_state_def)

lemma inv_queue_open: "git_inv L s \<Longrightarrow> gs_queue s \<noteq> [] \<Longrightarrow> \<not> gs_closed s"
  by (auto simp: git_inv_def close_state_def)

lemma reject_and_drain_inv:
  assumes "git_inv L s" and "limits_ok L" and "i \<in> gw_id ` set (gs_queue s)"
  shows "git_inv L (drain_queue L (remove_and_reject i e s))"
proof -
  have "\<not> gs_closed s" using assms(1,3) by (auto dest: inv_queue_open)
  with assms show ?thesis
    by (intro drained_inv) (auto simp: git_inv_def close_state_def intro: remove_and_reject_core)
qed

lemma queue_timeout_inv: "git_inv L s \<Longrightarrow> limits_ok L \<Longrightarrow> git_inv L (queue_timeout L i s)"
  by (simp add: queue_timeout_def reject_and_drain_inv)

lemma abort_listener_inv: "git_inv L s \<Longrightarrow> limits_ok L \<Longrightarrow> git_inv L (abort_listener L i s)"
  by (simp add: abort_listener_def reject_and_drain_inv)

lemma aborted_frame [simp]:
  "git_inv L (s\<lparr>gs_aborted := xs\<rparr>) = git_inv L s"
  by (simp add: git_inv_def git_core_def accounts_def within_limits_def queue_accounts_def
      settled_once_def no_grantable_waiter_def close_state_def can_grant_def cong: option.case_cong)

lemma abort_signal_inv:
  assumes "git_inv L s" and "limits_ok L"
  shows "git_inv L (abort_signal L a s)"
proof -
  have "git_inv L t \<Longrightarrow> git_inv L (fold (abort_listener L) is t)" for "is" t
    using assms(2) by (induction "is" arbitrary: t) (simp_all add: abort_listener_inv)
  with assms(1) show ?thesis by (simp add: abort_signal_def)
qed


lemma release_effect:
  assumes k: "k < length (gs_permits s)" and u: "\<not> gp_released (gs_permits s ! k)"
    and a: "accounts s" and l: "within_limits L s"
    and q: "q = gs_permits s ! k"
    and n: "n = cc_add (gp_class q) (- 1) (gs_counts s ! gp_ref q)"
    and s1: "s1 = s\<lparr>gs_permits := (gs_permits s)[k := q\<lparr>gp_released := True\<rparr>],
         gs_active := cc_add (gp_class q) (- 1) (gs_active s),
         gs_counts := (gs_counts s)[gp_ref q := n],
         gs_byProject := (if cc_total n = 0
           then (gs_byProject s)(gp_project q := None) else gs_byProject s)\<rparr>"
  shows "accounts s1" and "within_limits L s1"
proof -
  have qs: "q \<in> set (gs_permits s)" using k q by simp
  have ent: "gs_byProject s (gp_project q) = Some (gp_ref q)"
    using accountsD(6) [OF a qs] u q by simp
  note cnt = accountsD(4) [OF a ent] and tot = accounts_total [OF a ent]
    and bound = accountsD(2) [OF a ent] and inj = accountsD(5) [OF a ent]
  have rel: "live P ((gs_permits s)[k := q\<lparr>gp_released := True\<rparr>])
      = live P (gs_permits s) - (if P q then 1 else 0)" for P
    using live_release [OF k u] q by simp
  have n_tot: "cc_total n = live (of_project (gp_project q)) (gs_permits s1)"
    using n tot s1 rel by (simp add: of_project_def)
  have same: "x \<in> set (gs_permits s1) \<Longrightarrow> \<not> gp_released x \<Longrightarrow> x \<in> set (gs_permits s)" for x
    using s1 by (auto dest: set_update_subset_insert [THEN subsetD])
  have entry: "gs_byProject s1 p = Some r \<Longrightarrow> gs_byProject s p = Some r \<and> (p = gp_project q \<longrightarrow> cc_total n \<noteq> 0)"
    for p r using s1 by (auto split: if_splits)
  have get: "gs_counts s1 ! r = (if p = gp_project q then n else gs_counts s ! r)"
    if e: "gs_byProject s p = Some r" for p r
  proof (cases "p = gp_project q")
    case True
    then have "r = gp_ref q" using ent e by simp
    then show ?thesis using True s1 bound by simp
  next
    case False
    then have "gp_ref q \<noteq> r" using inj [of p] e by auto
    then show ?thesis using False s1 by simp
  qed
  show "accounts s1"
    unfolding accounts_def
  proof (intro conjI allI impI ballI)
    fix c show "cc_get c (gs_active s1) = live (\<lambda>q. gp_class q = c) (gs_permits s1)"
      using s1 rel by (simp add: accountsD(1) [OF a])
  next
    fix p r assume e: "gs_byProject s1 p = Some r"
    show "r < length (gs_counts s1)" using accountsD(2) [OF a, of p r] entry [OF e] s1 by simp
    have "0 \<le> cc_total n" by (simp add: n_tot)
    then show "0 < cc_total (gs_counts s1 ! r)"
      using entry [OF e] get accountsD(3) [OF a] by fastforce
    fix c show "cc_get c (gs_counts s1 ! r) = live (\<lambda>q. of_project p q \<and> gp_class q = c) (gs_permits s1)"
      using entry [OF e] get [of p r] accountsD(4) [OF a, of p r c] ent s1 rel n
      by (auto simp: of_project_def)
  next
    fix p p' r assume "gs_byProject s1 p = Some r" "gs_byProject s1 p' = Some r"
    then show "p = p'" using entry accountsD(5) [OF a] by metis
  next
    fix x assume x: "x \<in> set (gs_permits s1)" "\<not> gp_released x"
    then have x': "gs_byProject s (gp_project x) = Some (gp_ref x)"
      using same accountsD(6) [OF a] by blast
    show "gs_byProject s1 (gp_project x) = Some (gp_ref x)"
    proof -
      have "0 < live (of_project (gp_project x)) (gs_permits s1)"
        by (rule live_pos [OF x]) (simp add: of_project_def)
      then have "cc_total n = 0 \<Longrightarrow> gp_project x \<noteq> gp_project q"
        by (auto simp: n_tot)
      then show ?thesis using x' s1 by auto
    qed
  qed
  show "within_limits L s1"
    unfolding within_limits_def
  proof (intro conjI allI impI)
    show "cc_total (gs_active s1) \<le> gl_maxChildren L" using l s1 by (simp add: within_limits_def)
    fix c
    have "cc_get c (gs_active s) \<le> cc_get c (gl_maxActive L)"
      using l unfolding within_limits_def by blast
    then show "cc_get c (gs_active s1) \<le> cc_get c (gl_maxActive L)" using s1 by auto
  next
    fix p r assume e: "gs_byProject s1 p = Some r"
    have "cc_total (gs_counts s ! r) \<le> gl_maxChildrenPerProject L"
      using l entry [OF e] unfolding within_limits_def by blast
    moreover have "cc_total (gs_counts s1 ! r) \<le> cc_total (gs_counts s ! r)"
      using get [of p r] entry [OF e] n ent by auto
    ultimately show "cc_total (gs_counts s1 ! r) \<le> gl_maxChildrenPerProject L" by simp
  qed
qed


lemma active_frame:
  "gs_active t = gs_active s \<Longrightarrow> gs_byProject t = gs_byProject s \<Longrightarrow> gs_counts t = gs_counts s \<Longrightarrow>
   gs_permits t = gs_permits s \<Longrightarrow> accounts t = accounts s \<and> within_limits L t = within_limits L s"
  by (simp add: accounts_def within_limits_def)

lemma queue_frame:
  "gs_queue t = gs_queue s \<Longrightarrow> gs_queued t = gs_queued s \<Longrightarrow>
   gs_queuedByProject t = gs_queuedByProject s \<Longrightarrow> gs_settled t = gs_settled s \<Longrightarrow>
   gs_next t = gs_next s \<Longrightarrow> queue_accounts L t = queue_accounts L s \<and> settled_once t = settled_once s"
  by (simp add: queue_accounts_def settled_once_def)

lemma closed_frame [simp]:
  "git_core L (s\<lparr>gs_closed := b\<rparr>) = git_core L s"
  "git_core L (s\<lparr>gs_closeResolved := b\<rparr>) = git_core L s"
  by (simp_all add: git_core_def accounts_def within_limits_def queue_accounts_def settled_once_def)

lemma release_permit_inv:
  assumes i: "git_inv L s" and ok: "limits_ok L"
  shows "git_inv L (release_permit L k s)"
proof (cases "k \<ge> length (gs_permits s) \<or> gp_released (gs_permits s ! k)")
  case True
  then show ?thesis using i by (simp add: release_permit_def)
next
  case False
  then have k: "k < length (gs_permits s)" and u: "\<not> gp_released (gs_permits s ! k)" by auto
  define q where "q = gs_permits s ! k"
  define n where "n = cc_add (gp_class q) (- 1) (gs_counts s ! gp_ref q)"
  define s1 where "s1 = s\<lparr>gs_permits := (gs_permits s)[k := q\<lparr>gp_released := True\<rparr>],
    gs_active := cc_add (gp_class q) (- 1) (gs_active s), gs_counts := (gs_counts s)[gp_ref q := n],
    gs_byProject := (if cc_total n = 0 then (gs_byProject s)(gp_project q := None)
      else gs_byProject s)\<rparr>"
  have a: "accounts s" and l: "within_limits L s" using i by (simp_all add: git_inv_def git_core_def)
  have "git_core L s1"
    using release_effect [OF k u a l q_def n_def s1_def] i queue_frame [of s1 s L]
    by (simp add: git_inv_def git_core_def s1_def)
  moreover have eff: "release_permit L k s = (if gs_closed s
      then (if cc_total (gs_active s1) = 0 then s1\<lparr>gs_closeResolved := True\<rparr> else s1)
      else drain_queue L s1)"
    using False by (simp add: release_permit_def Let_def q_def n_def s1_def)
  moreover have "\<not> gs_closeResolved s"
  proof -
    have "0 < live (\<lambda>_. True) (gs_permits s)"
      using k u by (intro live_pos [of "gs_permits s ! k"]) auto
    then have "0 < cc_total (gs_active s)"
      using accountsD(1) [OF a] live_split [of "\<lambda>_. True" "gs_permits s"] by (simp add: cc_total_get)
    then show ?thesis using i by (auto simp: git_inv_def close_state_def)
  qed
  ultimately show ?thesis
  proof (cases "gs_closed s")
    case True
    then have "gs_queue s1 = []" "\<not> gs_closeResolved s1" "gs_closed s1"
      using i \<open>\<not> gs_closeResolved s\<close> by (auto simp: git_inv_def close_state_def s1_def)
    then show ?thesis
      using True eff \<open>git_core L s1\<close>
      by (simp add: git_inv_def close_state_def no_grantable_waiter_def)
  next
    case False
    then show ?thesis
      using eff \<open>git_core L s1\<close> ok \<open>\<not> gs_closeResolved s\<close> by (auto intro!: drained_inv simp: s1_def)
  qed
qed

lemma remove_head:
  "gs_queue s = w # ws \<Longrightarrow> gs_queue (remove_and_reject (gw_id w) e s) = ws"
  by (simp add: remove_and_reject_def List.extract_Cons_code)

lemma reject_all:
  "gs_queue s = ws \<Longrightarrow> git_core L s \<Longrightarrow>
   gs_queue (fold (\<lambda>w. remove_and_reject (gw_id w) e) ws s) = []
   \<and> git_core L (fold (\<lambda>w. remove_and_reject (gw_id w) e) ws s)
   \<and> gs_closed (fold (\<lambda>w. remove_and_reject (gw_id w) e) ws s) = gs_closed s
   \<and> gs_closeResolved (fold (\<lambda>w. remove_and_reject (gw_id w) e) ws s) = gs_closeResolved s
   \<and> gs_active (fold (\<lambda>w. remove_and_reject (gw_id w) e) ws s) = gs_active s"
  by (induction ws arbitrary: s) (simp_all add: remove_head remove_and_reject_core)

lemma git_close_inv: "git_inv L s \<Longrightarrow> git_inv L (git_close s)"
  using reject_all [of "s\<lparr>gs_closed := True\<rparr>" "gs_queue s" L GitClosed]
  by (auto simp: git_close_def Let_def git_inv_def close_state_def no_grantable_waiter_def)

lemma next_frame [simp]:
  "accounts (s\<lparr>gs_next := n\<rparr>) = accounts s"
  "within_limits L (s\<lparr>gs_next := n\<rparr>) = within_limits L s"
  "queue_accounts L (s\<lparr>gs_next := n\<rparr>) = queue_accounts L s"
  "can_grant L (s\<lparr>gs_next := n\<rparr>) p c = can_grant L s p c"
  by (simp_all add: accounts_def within_limits_def queue_accounts_def can_grant_def cong: option.case_cong)

lemma settled_once_next:
  "settled_once s \<Longrightarrow> settled_once (git_settle (gs_next s) r (s\<lparr>gs_next := Suc (gs_next s)\<rparr>))"
  by (auto simp: settled_once_def lessThan_Suc)

lemma refuse_inv:
  "git_inv L s \<Longrightarrow> git_inv L (git_settle (gs_next s) r (s\<lparr>gs_next := Suc (gs_next s)\<rparr>))"
  using settled_once_next [of s r]
  by (auto simp: git_inv_def git_core_def no_grantable_waiter_def close_state_def)

lemma can_grant_antimono:
  assumes a: "accounts s" and g: "can_grant L (snd (create_permit p c s)) p' c'"
  shows "can_grant L s p' c'"
proof (cases "gs_byProject s p")
  case None
  then show ?thesis
    using g accountsD(2) [OF a, of p'] unfolding can_grant_def create_permit_def
    by (auto simp: nth_append split: if_splits option.splits)
next
  case (Some r)
  then show ?thesis
    using g accountsD(2) [OF a Some] unfolding can_grant_def create_permit_def
    by (auto simp: nth_list_update split: if_splits option.splits)
qed

lemma grant_now_inv:
  assumes i: "git_inv L s" and ok: "limits_ok L" and o: "\<not> gs_closed s" and g: "can_grant L s p c"
  shows "git_inv L (grant (gs_next s) p c (s\<lparr>gs_next := Suc (gs_next s)\<rparr>))"
proof -
  let ?s = "s\<lparr>gs_next := Suc (gs_next s)\<rparr>"
  have a: "accounts ?s" and l: "within_limits L ?s" and g': "can_grant L ?s p c"
    using i g by (simp_all add: git_inv_def git_core_def)
  have "settled_once (grant (gs_next s) p c ?s)"
    using i unfolding git_inv_def git_core_def settled_once_def grant_eq by (auto simp: lessThan_Suc)
  moreover have "queue_accounts L (grant (gs_next s) p c ?s)"
    using i by (simp add: grant_eq git_inv_def git_core_def
        queue_accounts_cong [of "snd (create_permit p c ?s)" s])
  moreover have "no_grantable_waiter L (grant (gs_next s) p c ?s)"
    using i can_grant_antimono [OF a] by (auto simp: no_grantable_waiter_def grant_eq git_inv_def)
  ultimately show ?thesis
    using create_permit_accounts [OF a] create_permit_limits [OF a l ok g'] i o
    by (simp add: git_inv_def git_core_def grant_eq close_state_def)
qed

lemma enqueue_inv:
  assumes i: "git_inv L s" and ok: "limits_ok L" and o: "\<not> gs_closed s"
    and len: "int (length (gs_queue s)) < gl_queueMax L"
    and cls: "cc_get (gr_class q) (gs_queued s) < cc_get (gr_class q) (gl_maxQueued L)"
    and proj: "get_or (gs_queuedByProject s) (gr_project q) 0 < gl_queueMaxPerProject L"
    and live: "\<not> signal_aborted (gr_signal q) s"
  shows "git_inv L (git_enqueue L q s)"
proof -
  let ?w = "\<lparr>gw_id = gs_next s, gw_class = gr_class q, gw_project = gr_project q, gw_signal = gr_signal q\<rparr>"
  let ?s = "s\<lparr>gs_next := Suc (gs_next s), gs_queue := gs_queue s @ [?w],
     gs_queued := cc_add (gr_class q) 1 (gs_queued s),
     gs_queuedByProject := count_inc (gs_queuedByProject s) (gr_project q)\<rparr>"
  let ?M = "mset (map gw_project (gs_queue s))"
  have qa: "queue_accounts L s" using i by (simp add: git_inv_def git_core_def)
  then have rep: "map_counter.represents (gs_queuedByProject s) ?M" by (simp add: queue_accounts_def)
  have "int (count (add_mset (gr_project q) ?M) p) \<le> gl_queueMaxPerProject L" for p
    using qa proj map_counter_get [OF rep, of "gr_project q"] by (auto simp: queue_accounts_def)
  moreover have "cc_get c (gs_queued s) = int (length (filter (\<lambda>w. gw_class w = c) (gs_queue s)))"
    and "cc_get c (gs_queued s) \<le> cc_get c (gl_maxQueued L)" for c
    using qa unfolding queue_accounts_def by blast+
  ultimately have "queue_accounts L ?s"
    unfolding queue_accounts_def using len cls map_counter.represents_incr [OF rep, of "gr_project q"]
    by auto
  moreover have "settled_once ?s"
    using i unfolding git_inv_def git_core_def settled_once_def by (auto simp: lessThan_Suc)
  ultimately have core: "git_core L ?s"
    using i active_frame [of ?s s L] by (simp add: git_inv_def git_core_def)
  have "git_enqueue L q s = drain_queue L ?s"
    using live by (simp add: git_enqueue_def Let_def signal_aborted_def split: option.splits)
  then show ?thesis
    using drained_inv [OF core ok] i o by (simp add: git_inv_def close_state_def)
qed

lemma acquire_inv:
  assumes "git_inv L s" and "limits_ok L"
  shows "git_inv L (acquire_git_child is_project L q s)"
  using assms unfolding acquire_git_child_def Let_def
  by (auto simp: not_le intro!: refuse_inv grant_now_inv enqueue_inv)

lemma git_start_inv: "limits_ok L \<Longrightarrow> git_inv L git_start"
  using map_counter_empty
  by (auto simp: git_inv_def git_core_def accounts_def within_limits_def queue_accounts_def
      settled_once_def no_grantable_waiter_def close_state_def git_start_def limits_ok_def
      less_imp_le)

lemma git_step_inv:
  assumes "git_inv L s" and "limits_ok L"
  shows "git_inv L (git_step is_project L s e)"
  using assms
  by (cases e) (simp_all add: acquire_inv queue_timeout_inv abort_signal_inv release_permit_inv git_close_inv)

section \<open>Properties\<close>

interpretation git: machine git_start "git_step is_project L" "\<lambda>s. limits_ok L \<longrightarrow> git_inv L s"
  for is_project :: "string \<Rightarrow> bool" and L :: git_limits
  by unfold_locales (auto simp: git_start_inv git_step_inv)

lemma git_reachable:
  "git_normalize opts = Some L \<Longrightarrow> git_inv L (run (git_step is_project L) git_start es)"
  using git.inv_run normalize_limits_ok by blast

lemma git_inv_parts:
  assumes "git_inv L s"
  shows "accounts s" and "within_limits L s" and "queue_accounts L s" and "settled_once s"
    and "no_grantable_waiter L s" and "close_state s"
  using assms by (simp_all add: git_inv_def git_core_def)

lemma outstanding_bounds:
  assumes "git_inv L s" and ok: "limits_ok L"
  shows "live (\<lambda>_. True) (gs_permits s) \<le> gl_maxChildren L"
    and "live (\<lambda>q. gp_class q = c) (gs_permits s) \<le> cc_get c (gl_maxActive L)"
    and "live (of_project p) (gs_permits s) \<le> gl_maxChildrenPerProject L"
proof -
  note parts = git_inv_parts [OF assms(1)]
  show "live (\<lambda>_. True) (gs_permits s) \<le> gl_maxChildren L"
    using parts(2) accountsD(1) [OF parts(1)] live_split [of "\<lambda>_. True" "gs_permits s"]
    by (simp add: within_limits_def cc_total_get)
  have "cc_get c (gs_active s) \<le> cc_get c (gl_maxActive L)"
    using parts(2) unfolding within_limits_def by blast
  then show "live (\<lambda>q. gp_class q = c) (gs_permits s) \<le> cc_get c (gl_maxActive L)"
    by (simp add: accountsD(1) [OF parts(1)])
  show "live (of_project p) (gs_permits s) \<le> gl_maxChildrenPerProject L"
  proof (cases "gs_byProject s p")
    case None
    then show ?thesis using project_count [OF parts(1), of p] ok by (simp add: limits_ok_def)
  next
    case (Some r)
    then have "cc_total (gs_counts s ! r) \<le> gl_maxChildrenPerProject L"
      using parts(2) unfolding within_limits_def by blast
    then show ?thesis using accounts_total [OF parts(1) Some] by simp
  qed
qed

text \<open>One round of the loop of \<open>#drainQueue\<close>, and what any number of rounds does to the queue.\<close>

lemma drain_round:
  assumes "git_core L s" and "limits_ok L"
  obtains (stop) "drain_queue L s = s"
    | (round) as v bs s' where "drain_queue L s = drain_queue L s'" and "git_core L s'"
      and "gs_queue s = as @ v # bs" and "gs_queue s' = as @ bs"
      and "can_grant L s (gw_project v) (gw_class v)"
      and "\<forall>x\<in>set as. \<not> can_grant L s (gw_project x) (gw_class x)"
proof (cases "gs_closed s \<or> \<not> cc_total (gs_active s) < gl_maxChildren L")
  case True
  then show ?thesis using stop by (auto simp: drain_queue.simps [of L s])
next
  case o: False
  show ?thesis
  proof (cases "List.extract (\<lambda>w. can_grant L s (gw_project w) (gw_class w)) (gs_queue s)")
    case None
    then have "drain_queue L s = s" using o by (subst drain_queue.simps) simp
    then show ?thesis by (rule stop)
  next
    case (Some t)
    then obtain as v bs where t: "t = (as, v, bs)" by (cases t) auto
    let ?s1 = "settle_waiter as v bs s"
    let ?s2 = "if signal_aborted (gw_signal v) ?s1
      then git_settle (gw_id v) (Inl GitCancelled) ?s1
      else grant (gw_id v) (gw_project v) (gw_class v) ?s1"
    note ex = extract_Some [OF Some [unfolded t]]
    have "drain_queue L s = drain_queue L ?s2"
      using o Some t by (subst drain_queue.simps) (simp add: Let_def)
    moreover have "git_core L ?s2"
      using ex reject_waiter_core [OF assms(1)] grant_waiter_core [OF assms] by simp
    moreover have "gs_queue ?s2 = as @ bs" by (simp add: grant_eq)
    ultimately show ?thesis using round [of ?s2 as v bs] ex by blast
  qed
qed

lemma subseq_subset: "subseq xs ys \<Longrightarrow> set xs \<subseteq> set ys"
  by (induction rule: list_emb.induct) auto

lemma drain_subseq:
  assumes "git_core L s" and "limits_ok L"
  shows "subseq (gs_queue (drain_queue L s)) (gs_queue s)"
  using assms
proof (induction "length (gs_queue s)" arbitrary: s rule: less_induct)
  case less
  from less.prems show ?case
  proof (cases rule: drain_round)
    case stop
    then show ?thesis by simp
  next
    case (round as v bs s')
    then have "subseq (gs_queue (drain_queue L s')) (as @ bs)"
      using less.hyps [of s'] less.prems(2) by simp
    moreover have "subseq (as @ bs) (as @ v # bs)" unfolding subseq_append' by (rule list_emb_Cons) (rule subseq_order.order_refl)
    ultimately show ?thesis using round subseq_order.order_trans by metis
  qed
qed

lemma subseq_pair_remove:
  assumes "subseq [x, y] (as @ v # bs)" and "v \<noteq> x" and "v \<noteq> y" and "distinct (as @ v # bs)"
  shows "subseq [x, y] (as @ bs)"
proof -
  have "subseq (filter (\<lambda>z. z \<noteq> v) [x, y]) (filter (\<lambda>z. z \<noteq> v) (as @ v # bs))"
    by (rule subseq_filter [OF assms(1)])
  moreover have "filter (\<lambda>z. z \<noteq> v) as = as" "filter (\<lambda>z. z \<noteq> v) bs = bs"
    using assms(4) by (auto simp: filter_id_conv)
  ultimately show ?thesis using assms(2,3) by simp
qed

lemma subseq_pair_first:
  assumes "subseq [x, y] (as @ y # bs)" and "distinct (as @ y # bs)"
  shows "x \<in> set as"
proof -
  obtain us vs where uv: "[x, y] = us @ vs" "subseq us as" "subseq vs (y # bs)"
    using assms(1) by (auto simp: subseq_append_iff)
  have "us \<noteq> []"
  proof
    assume "us = []"
    then have "subseq [x, y] (y # bs)" using uv by simp
    then have "subseq [y] bs \<or> subseq [x, y] bs" by (auto simp: subseq_Cons2_iff split: if_splits)
    then have "y \<in> set bs" by (auto dest: subseq_subset)
    then show False using assms(2) by simp
  qed
  then have "hd us = x" and "hd us \<in> set us" using uv(1) by (cases us; simp)+
  then show ?thesis using subseq_subset [OF uv(2)] by auto
qed

lemma drain_fifo:
  assumes "git_core L s" and "limits_ok L" and "subseq [w, w'] (gs_queue s)"
    and "gw_project w' = gw_project w" and "gw_class w' = gw_class w"
    and "w \<in> set (gs_queue (drain_queue L s))"
  shows "w' \<in> set (gs_queue (drain_queue L s))"
  using assms
proof (induction "length (gs_queue s)" arbitrary: s rule: less_induct)
  case less
  from less.prems(1,2) show ?case
  proof (cases rule: drain_round)
    case stop
    then show ?thesis using subseq_subset [OF less.prems(3)] by simp
  next
    case (round as v bs s')
    have dist: "distinct (as @ v # bs)"
      using less.prems(1) round(3) by (auto simp: git_core_def settled_once_def distinct_map)
    have "set (gs_queue (drain_queue L s')) \<subseteq> set (as @ bs)"
      using subseq_subset [OF drain_subseq [OF round(2) less.prems(2)]] round(4) by simp
    then have "v \<noteq> w" using less.prems(6) round(1) dist by auto
    moreover have "v \<noteq> w'"
      using subseq_pair_first [of w w' as bs] less.prems(3-5) round dist by metis
    ultimately have "subseq [w, w'] (gs_queue s')"
      using subseq_pair_remove [of w w' as v bs] less.prems(3) round dist by simp
    then show ?thesis
      using less.hyps [of s'] less.prems round by simp
  qed
qed

lemma drain_idle: "no_grantable_waiter L s \<Longrightarrow> drain_queue L s = s"
  by (subst drain_queue.simps) (auto simp: no_grantable_waiter_def extract_None split: option.split
      dest: extract_Some)

lemma release_drains:
  assumes i: "git_inv L s" and ok: "limits_ok L" and o: "\<not> gs_closed s"
  obtains s1 where "release_permit L k s = drain_queue L s1" and "git_core L s1"
    and "gs_queue s1 = gs_queue s"
proof (cases "k \<ge> length (gs_permits s) \<or> gp_released (gs_permits s ! k)")
  case True
  then have "release_permit L k s = drain_queue L s"
    using i drain_idle [of L s] by (simp add: release_permit_def git_inv_def)
  then show ?thesis using that i by (simp add: git_inv_def)
next
  case False
  then have k: "k < length (gs_permits s)" and u: "\<not> gp_released (gs_permits s ! k)" by auto
  define q where "q = gs_permits s ! k"
  define n where "n = cc_add (gp_class q) (- 1) (gs_counts s ! gp_ref q)"
  define s1 where "s1 = s\<lparr>gs_permits := (gs_permits s)[k := q\<lparr>gp_released := True\<rparr>],
    gs_active := cc_add (gp_class q) (- 1) (gs_active s), gs_counts := (gs_counts s)[gp_ref q := n],
    gs_byProject := (if cc_total n = 0 then (gs_byProject s)(gp_project q := None)
      else gs_byProject s)\<rparr>"
  have a: "accounts s" and l: "within_limits L s" using i by (simp_all add: git_inv_def git_core_def)
  have "git_core L s1"
    using release_effect [OF k u a l q_def n_def s1_def] i queue_frame [of s1 s L]
    by (simp add: git_inv_def git_core_def s1_def)
  moreover have "release_permit L k s = drain_queue L s1"
    using False o by (simp add: release_permit_def Let_def q_def n_def s1_def)
  ultimately show ?thesis using that by (simp add: s1_def)
qed

lemma acquire_waits:
  assumes i: "git_inv L s" and ng: "\<not> can_grant L s (gr_project q) (gr_class q)"
  shows "gs_permits (acquire_git_child is_project L q s) = gs_permits s"
proof -
  let ?s = "s\<lparr>gs_next := Suc (gs_next s), gs_queue := gs_queue s @ [\<lparr>gw_id = gs_next s,
     gw_class = gr_class q, gw_project = gr_project q, gw_signal = gr_signal q\<rparr>],
     gs_queued := cc_add (gr_class q) 1 (gs_queued s),
     gs_queuedByProject := count_inc (gs_queuedByProject s) (gr_project q)\<rparr>"
  have "can_grant L ?s p c = can_grant L s p c" for p c
    by (simp add: can_grant_def cong: option.case_cong)
  then have "drain_queue L ?s = ?s"
    using i ng by (intro drain_idle) (auto simp: no_grantable_waiter_def git_inv_def)
  then have "\<not> signal_aborted (gr_signal q) s \<Longrightarrow> gs_permits (git_enqueue L q s) = gs_permits s"
    by (simp add: git_enqueue_def Let_def signal_aborted_def split: option.splits)
  then show ?thesis
    using ng by (simp add: acquire_git_child_def Let_def git_settle_def)
qed

definition demo_options :: git_options where
  "demo_options = \<lparr>go_maxChildren = 2, go_maxChildrenPerProject = 1, go_maxQueuedReads = None,
     go_maxQueuedWrites = None, go_maxReadChildren = None, go_maxWriteChildren = None,
     go_queueMax = 3, go_queueMaxPerProject = 2, go_queueTimeoutMs = 1000\<rparr>"

definition demo_limits :: git_limits where
  "demo_limits = \<lparr>gl_maxChildren = 2, gl_maxChildrenPerProject = 1,
     gl_maxQueued = \<lparr>cc_read = 2, cc_write = 2\<rparr>, gl_maxActive = \<lparr>cc_read = 1, cc_write = 1\<rparr>,
     gl_queueMax = 3, gl_queueMaxPerProject = 2, gl_queueTimeoutMs = 1000\<rparr>"

lemma demo_normalize: "git_normalize demo_options = Some demo_limits"
  by code_simp

definition demo_request :: "git_class \<Rightarrow> string \<Rightarrow> git_request" where
  "demo_request c p = \<lparr>gr_class = c, gr_project = p, gr_signal = None\<rparr>"

definition demo_events :: "git_event list" where
  "demo_events = [GitAcquire (demo_request ReadOp ''a''), GitAcquire (demo_request ReadOp ''b''),
     GitAcquire (demo_request ReadOp ''b''), GitRelease 0]"

definition demo_state :: git_state where
  "demo_state = run (git_step (\<lambda>_. True) demo_limits) git_start demo_events"

lemma demo_queue: "map gw_id (gs_queue demo_state) = [2]" "\<not> gs_closed demo_state"
  "map fst (gs_settled demo_state) = [0, 1]"
  by code_simp+

text \<open>C11. Whatever the interleaving of acquisitions, timeouts, aborts, releases and close, the
  permits that are outstanding never exceed the limits of the accepted options: in all, per
  class, and per Project; nor does the queue, in all, per class and per Project.\<close>

theorem git_limits_hold:
  assumes "git_normalize opts = Some L"
  shows "live (\<lambda>_. True) (gs_permits (run (git_step is_project L) git_start es)) \<le> gl_maxChildren L
    \<and> live (\<lambda>q. gp_class q = c) (gs_permits (run (git_step is_project L) git_start es))
        \<le> cc_get c (gl_maxActive L)
    \<and> live (of_project p) (gs_permits (run (git_step is_project L) git_start es))
        \<le> gl_maxChildrenPerProject L
    \<and> int (length (gs_queue (run (git_step is_project L) git_start es))) \<le> gl_queueMax L
    \<and> int (length (filter (\<lambda>w. gw_class w = c) (gs_queue (run (git_step is_project L) git_start es))))
        \<le> cc_get c (gl_maxQueued L)
    \<and> int (count (mset (map gw_project (gs_queue (run (git_step is_project L) git_start es)))) p)
        \<le> gl_queueMaxPerProject L"
proof -
  let ?s = "run (git_step is_project L) git_start es"
  have i: "git_inv L ?s" using assms by (rule git_reachable)
  have "queue_accounts L ?s" by (rule git_inv_parts [OF i])
  then have "int (length (gs_queue ?s)) \<le> gl_queueMax L"
    and "int (length (filter (\<lambda>w. gw_class w = c) (gs_queue ?s))) \<le> cc_get c (gl_maxQueued L)"
    and "int (count (mset (map gw_project (gs_queue ?s))) p) \<le> gl_queueMaxPerProject L"
    unfolding queue_accounts_def by metis+
  then show ?thesis using outstanding_bounds [OF i normalize_limits_ok [OF assms]] by blast
qed

theorem git_limits_hold_witness:
  "git_normalize demo_options = Some demo_limits
    \<and> live (\<lambda>_. True) (gs_permits demo_state) \<le> 2 \<and> live (\<lambda>_. True) (gs_permits demo_state) = 1"
  using git_limits_hold [OF demo_normalize, of "\<lambda>_. True" demo_events] demo_normalize
  by (simp add: demo_state_def [symmetric]) code_simp


text \<open>C12. No wakeup is lost: while the admission is open, no waiter is left in the queue that
  could be granted now, in all reachable states and not only after a release.\<close>

theorem git_no_lost_wakeup:
  assumes "git_normalize opts = Some L"
    and "w \<in> set (gs_queue (run (git_step is_project L) git_start es))"
  shows "\<not> can_grant L (run (git_step is_project L) git_start es) (gw_project w) (gw_class w)"
  using git_inv_parts(5) [OF git_reachable [OF assms(1), of is_project es]] assms(2)
  by (simp add: no_grantable_waiter_def)

theorem git_no_lost_wakeup_witness:
  "\<exists>w\<in>set (gs_queue demo_state). \<not> can_grant demo_limits demo_state (gw_project w) (gw_class w)"
proof -
  have "\<exists>w. w \<in> set (gs_queue demo_state)" using demo_queue(1) by (cases "gs_queue demo_state") auto
  then show ?thesis
    using git_no_lost_wakeup [OF demo_normalize, of _ "\<lambda>_. True" demo_events]
    unfolding demo_state_def by blast
qed

text \<open>C13. Every request is settled at most once, and none is forgotten: the identifiers of the
  waiters in the queue and of the settled promises are exactly those handed out, each once.\<close>

theorem git_settles_once:
  assumes "git_normalize opts = Some L"
    and "s = run (git_step is_project L) git_start es"
  shows "distinct (map gw_id (gs_queue s) @ map fst (gs_settled s))
    \<and> set (map gw_id (gs_queue s)) \<union> set (map fst (gs_settled s)) = {..<gs_next s}"
  using git_inv_parts(4) [OF git_reachable [OF assms(1), of is_project es]] assms(2)
  by (simp add: settled_once_def)

theorem git_settles_once_witness:
  "distinct (map gw_id (gs_queue demo_state) @ map fst (gs_settled demo_state))"
  using git_settles_once [OF demo_normalize, of demo_state "\<lambda>_. True" demo_events]
  by (simp add: demo_state_def)



definition busy_events :: "git_event list" where
  "busy_events = map (GitAcquire \<circ> demo_request ReadOp) [''a'', ''b'', ''b'']"

definition busy_state :: git_state where
  "busy_state = run (git_step (\<lambda>_. True) demo_limits) git_start busy_events"

definition demo_waiter :: "nat \<Rightarrow> git_waiter" where
  "demo_waiter i = \<lparr>gw_id = i, gw_class = ReadOp, gw_project = ''b'', gw_signal = None\<rparr>"

lemma busy_queue: "gs_queue busy_state = [demo_waiter 1, demo_waiter 2]"
  by code_simp


text \<open>The class limits keep a lane free: in a reachable state in which no permit of a class
  is outstanding, a Project that holds no permit is granted that class at once, however many
  permits of the other class are out.\<close>

theorem git_idle_class_admits:
  assumes n: "git_normalize opts = Some L"
    and s: "s = run (git_step is_project L) git_start es"
    and idle: "live (\<lambda>q. gp_class q = c) (gs_permits s) = 0"
    and free: "live (of_project p) (gs_permits s) = 0"
  shows "can_grant L s p c"
proof -
  have i: "git_inv L s" using git_reachable [OF n] s by simp
  note a = git_inv_parts(1) [OF i] and l = git_inv_parts(2) [OF i]
  have ok: "limits_ok L" by (rule normalize_limits_ok [OF n])
  obtain d where d: "cc_total (gs_active s) = cc_get c (gs_active s) + cc_get d (gs_active s)"
    by (cases c) (auto simp: cc_total_get intro: that [of WriteOp] that [of ReadOp])
  have z: "cc_get c (gs_active s) = 0" using accountsD(1) [OF a] idle by simp
  have "cc_get d (gs_active s) \<le> cc_get d (gl_maxActive L)"
    using l unfolding within_limits_def by blast
  then have "cc_total (gs_active s) < gl_maxChildren L"
    using d z ok unfolding limits_ok_def by (smt (verit))
  moreover have "cc_get c (gs_active s) < cc_get c (gl_maxActive L)"
    using z ok by (simp add: limits_ok_def)
  moreover have "gs_byProject s p = None"
    using accounts_total [OF a, of p] accountsD(3) [OF a, of p] free
    by (cases "gs_byProject s p") auto
  ultimately show ?thesis by (simp add: can_grant_def)
qed

theorem git_idle_class_admits_witness:
  "can_grant demo_limits busy_state ''c'' WriteOp \<and> \<not> can_grant demo_limits busy_state ''c'' ReadOp"
proof -
  have "live (\<lambda>q. gp_class q = WriteOp) (gs_permits busy_state) = 0"
    and "live (of_project ''c'') (gs_permits busy_state) = 0"
    and "\<not> can_grant demo_limits busy_state ''c'' ReadOp"
    by code_simp+
  then show ?thesis
    using git_idle_class_admits [OF demo_normalize busy_state_def] by blast
qed

lemma closed_release:
  assumes "gs_closed s"
  shows "gs_closed (release_permit L k s)"
    and "length (gs_permits (release_permit L k s)) = length (gs_permits s)"
  using assms by (simp_all add: release_permit_def Let_def)

lemma closed_idle:
  assumes "close_state s" and "gs_closed s"
  shows "queue_timeout L i s = s"
    and "abort_listener L i s = s"
    and "git_close s = s"
  using assms by (simp_all add: close_state_def queue_timeout_def abort_listener_def git_close_def)

lemma closed_abort:
  assumes "close_state s" and "gs_closed s"
  shows "gs_permits (abort_signal L a s) = gs_permits s \<and> gs_closed (abort_signal L a s)"
  using assms by (simp add: close_state_def abort_signal_def)

lemma closed_acquire:
  assumes "gs_closed s"
  shows "acquire_git_child is_project L q s
      = s\<lparr>gs_next := Suc (gs_next s), gs_settled := gs_settled s @ [(gs_next s, Inl GitClosed)]\<rparr>"
  using assms by (simp add: acquire_git_child_def git_settle_def Let_def)

lemma closed_step:
  assumes "git_inv L s" and "gs_closed s"
  shows "gs_closed (git_step is_project L s e)
    \<and> length (gs_permits (git_step is_project L s e)) = length (gs_permits s)"
proof -
  have c: "close_state s" by (rule git_inv_parts [OF assms(1)])
  show ?thesis
    using closed_idle [OF c assms(2)] closed_abort [OF c assms(2)] closed_acquire [OF assms(2)]
      closed_release [OF assms(2)] assms(2)
    by (cases e) simp_all
qed

lemma closed_run:
  "git_inv L s \<Longrightarrow> limits_ok L \<Longrightarrow> gs_closed s \<Longrightarrow>
   gs_closed (run (git_step is_project L) s es)
   \<and> length (gs_permits (run (git_step is_project L) s es)) = length (gs_permits s)"
  by (induction es arbitrary: s) (simp_all add: closed_step git_step_inv)

lemma close_closes: "git_inv L s \<Longrightarrow> gs_closed (git_close s)"
  using reject_all [of "s\<lparr>gs_closed := True\<rparr>" "gs_queue s" L GitClosed]
  by (auto simp: git_close_def Let_def git_inv_def)

lemma close_permits: "gs_permits (git_close s) = gs_permits s"
proof -
  have "gs_permits (fold (\<lambda>w. remove_and_reject (gw_id w) e) ws t) = gs_permits t" for ws :: "git_waiter list" and e t
    by (induction ws arbitrary: t)
      (simp_all add: remove_and_reject_def settle_waiter_def git_settle_def split: option.split)
  then show ?thesis by (simp add: git_close_def Let_def)
qed

lemma release_marks:
  assumes "gs_closed s"
  shows "gs_permits (release_permit L k s)
    = (gs_permits s)[k := (gs_permits s ! k)\<lparr>gp_released := True\<rparr>]"
proof (cases "k < length (gs_permits s) \<and> gp_released (gs_permits s ! k)")
  case True
  then have "(gs_permits s ! k)\<lparr>gp_released := True\<rparr> = gs_permits s ! k"
    by (cases "gs_permits s ! k") simp
  then have "(gs_permits s)[k := (gs_permits s ! k)\<lparr>gp_released := True\<rparr>] = gs_permits s"
    by (metis list_update_id)
  then show ?thesis using True by (simp add: release_permit_def)
next
  case False
  then show ?thesis using assms by (auto simp: release_permit_def Let_def list_update_beyond not_less)
qed

lemma release_all:
  assumes "gs_closed s" and "i < length (gs_permits s)"
    and "gp_released (gs_permits s ! i) \<or> i \<in> set ks"
  shows "gp_released (gs_permits (run (git_step is_project L) s (map GitRelease ks)) ! i)"
  using assms
proof (induction ks arbitrary: s)
  case (Cons k ks)
  have "gp_released (gs_permits (release_permit L k s) ! i) \<or> i \<in> set ks"
    using Cons.prems by (cases "k < length (gs_permits s)") (auto simp: release_marks nth_list_update list_update_beyond)
  then show ?case using Cons.IH [of "release_permit L k s"] Cons.prems closed_release [of s] by simp
qed simp

lemma close_resolves_iff:
  assumes "git_inv L s" and "gs_closed s"
  shows "gs_closeResolved s \<longleftrightarrow> live (\<lambda>_. True) (gs_permits s) = 0"
proof -
  have "cc_total (gs_active s) = live (\<lambda>_. True) (gs_permits s)"
    using accountsD(1) [OF git_inv_parts(1) [OF assms(1)]] live_split [of "\<lambda>_. True" "gs_permits s"]
    by (simp add: cc_total_get)
  then show ?thesis using git_inv_parts(6) [OF assms(1)] assms(2) by (simp add: close_state_def)
qed

text \<open>C15. Close is final and completes: whatever happens before and after it, a closed
  admission has no waiter and creates no permit, its close promise is resolved exactly when no
  permit is outstanding, and releasing every permit once, in any order, resolves it.\<close>

theorem git_close_completes:
  assumes n: "git_normalize opts = Some L"
    and s: "s = git_close (run (git_step is_project L) git_start es)"
    and t: "t = run (git_step is_project L) s fs"
    and ks: "{..<length (gs_permits s)} \<subseteq> set ks"
  shows "gs_queue t = [] \<and> length (gs_permits t) = length (gs_permits s)
    \<and> (gs_closeResolved t \<longleftrightarrow> live (\<lambda>_. True) (gs_permits t) = 0)
    \<and> gs_closeResolved (run (git_step is_project L) s (map GitRelease ks))"
proof -
  have ok: "limits_ok L" by (rule normalize_limits_ok [OF n])
  have i: "git_inv L s" and c: "gs_closed s"
    using git_reachable [OF n, of is_project es] s by (auto intro: git_close_inv close_closes)
  have inv: "git_inv L (run (git_step is_project L) s es)" for es
    using git.inv_run_from [of L s is_project es] i ok by blast
  note cr = closed_run [OF i ok c]
  let ?u = "run (git_step is_project L) s (map GitRelease ks)"
  have "gp_released q" if "q \<in> set (gs_permits ?u)" for q
  proof -
    note q = that
    obtain k where k: "k < length (gs_permits ?u)" "q = gs_permits ?u ! k"
      using q by (auto simp: in_set_conv_nth)
    then have "k < length (gs_permits s)" using cr by simp
    then show ?thesis using k release_all [OF c, of k ks is_project L] ks by auto
  qed
  then have "live (\<lambda>_. True) (gs_permits ?u) = 0" by (simp add: live_def filter_empty_conv)
  then have "gs_closeResolved ?u" using close_resolves_iff [OF inv] cr by blast
  moreover have "gs_queue t = []"
    using git_inv_parts(6) [OF inv] cr t by (simp add: close_state_def)
  ultimately show ?thesis using cr close_resolves_iff [OF inv] t by blast
qed

theorem git_close_completes_witness:
  "\<not> gs_closeResolved (git_close busy_state)
    \<and> gs_closeResolved (run (git_step (\<lambda>_. True) demo_limits) (git_close busy_state) [GitRelease 0])"
proof -
  have "length (gs_permits (git_close busy_state)) = 1"
    and "\<not> gs_closeResolved (git_close busy_state)"
    by code_simp+
  then show ?thesis
    using git_close_completes [OF demo_normalize, of "git_close busy_state" "\<lambda>_. True" busy_events _ "[]" "[0]"]
    by (simp add: busy_state_def lessThan_Suc)
qed

end
