(* ===== verification/EventAdmission.thy ===== *)
theory EventAdmission
  imports GitChildAdmission
begin

text \<open>
  The admission of Project event streams,
  \<open>src/src/resource-admission/ProjectEventAdmission.ts\<close>: connections that are being
  authorized hold a pending slot, which \<open>promote\<close> exchanges for a connection permit of a
  Project. A pending slot and a permit are closures over a flag; the state lists the slots and
  the permits ever handed out, with their flags, and a caller names one by its position.
\<close>

section \<open>Data\<close>

record event_options =
  eo_maxConnections :: int
  eo_maxConnectionsPerProject :: int
  eo_maxPendingAuthorizations :: "int option"

record event_limits =
  el_maxConnections :: int
  el_maxConnectionsPerProject :: int
  el_maxPendingAuthorizations :: int

definition event_limits_of :: "event_options \<Rightarrow> event_limits option" where
  "event_limits_of opts =
     (if \<not> safe_integer (eo_maxConnections opts) \<or> eo_maxConnections opts < 2
         \<or> \<not> safe_integer (eo_maxConnectionsPerProject opts) \<or> eo_maxConnectionsPerProject opts < 1
         \<or> eo_maxConnectionsPerProject opts \<ge> eo_maxConnections opts
         \<or> (case eo_maxPendingAuthorizations opts of None \<Rightarrow> False
            | Some n \<Rightarrow> \<not> safe_integer n \<or> n < 1)
      then None
      else Some \<lparr>el_maxConnections = eo_maxConnections opts,
             el_maxConnectionsPerProject = eo_maxConnectionsPerProject opts,
             el_maxPendingAuthorizations =
               option_or (eo_maxPendingAuthorizations opts) (eo_maxConnections opts)\<rparr>)"

record event_permit =
  ep_project :: string
  ep_released :: bool

record event_state =
  ea_active :: int
  ea_byProject :: "string \<Rightarrow> int option"
  ea_pending :: int
  ea_closed :: bool
  ea_closeResolved :: bool
  ea_permits :: "event_permit list"
  ea_slots :: "bool list"

definition event_start :: event_state where
  "event_start = \<lparr>ea_active = 0, ea_byProject = (\<lambda>_. None), ea_pending = 0, ea_closed = False,
     ea_closeResolved = False, ea_permits = [], ea_slots = []\<rparr>"

section \<open>Operations\<close>

definition event_settle_close :: "event_state \<Rightarrow> event_state" where
  "event_settle_close s =
     (if ea_closed s \<and> ea_active s = 0 \<and> ea_pending s = 0
      then s\<lparr>ea_closeResolved := True\<rparr> else s)"

definition event_acquire_pending ::
  "event_limits \<Rightarrow> event_state \<Rightarrow> (git_error + nat) \<times> event_state" where
  "event_acquire_pending L s =
     (if ea_closed s then (Inl GitClosed, s)
      else if ea_pending s \<ge> el_maxPendingAuthorizations L then (Inl GitBusy, s)
      else (Inr (length (ea_slots s)),
            s\<lparr>ea_pending := ea_pending s + 1, ea_slots := ea_slots s @ [False]\<rparr>))"

definition event_slot_settled :: "nat \<Rightarrow> event_state \<Rightarrow> bool" where
  "event_slot_settled k s \<longleftrightarrow> k \<ge> length (ea_slots s) \<or> ea_slots s ! k"

definition event_settle_slot :: "nat \<Rightarrow> event_state \<Rightarrow> event_state" where
  "event_settle_slot k s =
     (if event_slot_settled k s then s
      else event_settle_close
        (s\<lparr>ea_slots := (ea_slots s)[k := True], ea_pending := ea_pending s - 1\<rparr>))"

definition event_acquire ::
  "(string \<Rightarrow> bool) \<Rightarrow> event_limits \<Rightarrow> string \<Rightarrow> event_state \<Rightarrow> (git_error + nat) \<times> event_state" where
  "event_acquire is_project L p s =
     (if ea_closed s then (Inl GitClosed, s)
      else if \<not> is_project p then (Inl GitInvalidProject, s)
      else let projectActive = get_or (ea_byProject s) p 0
           in if ea_active s \<ge> el_maxConnections L
                 \<or> projectActive \<ge> el_maxConnectionsPerProject L
              then (Inl GitBusy, s)
              else (Inr (length (ea_permits s)),
                    s\<lparr>ea_active := ea_active s + 1,
                      ea_byProject := (ea_byProject s)(p := Some (projectActive + 1)),
                      ea_permits := ea_permits s @ [\<lparr>ep_project = p, ep_released = False\<rparr>]\<rparr>))"

definition event_promote ::
  "(string \<Rightarrow> bool) \<Rightarrow> event_limits \<Rightarrow> nat \<Rightarrow> string \<Rightarrow> event_state \<Rightarrow> (git_error + nat) \<times> event_state" where
  "event_promote is_project L k p s =
     (if event_slot_settled k s then (Inl GitClosed, s)
      else event_acquire is_project L p (event_settle_slot k s))"

definition event_release :: "nat \<Rightarrow> event_state \<Rightarrow> event_state" where
  "event_release k s =
     (if k \<ge> length (ea_permits s) \<or> ep_released (ea_permits s ! k) then s
      else let q = ea_permits s ! k
           in event_settle_close
                (s\<lparr>ea_permits := (ea_permits s)[k := q\<lparr>ep_released := True\<rparr>],
                   ea_active := ea_active s - 1,
                   ea_byProject := count_dec (ea_byProject s) (ep_project q)\<rparr>))"

definition event_close :: "event_state \<Rightarrow> event_state" where
  "event_close s = (if ea_closed s then s else event_settle_close (s\<lparr>ea_closed := True\<rparr>))"

datatype event_call =
    CallPending
  | CallPromote nat string
  | CallSettle nat
  | CallAcquire string
  | CallRelease nat
  | CallClose

fun event_step ::
  "(string \<Rightarrow> bool) \<Rightarrow> event_limits \<Rightarrow> event_state \<Rightarrow> event_call \<Rightarrow> event_state" where
  "event_step is_project L s CallPending = snd (event_acquire_pending L s)"
| "event_step is_project L s (CallPromote k p) = snd (event_promote is_project L k p s)"
| "event_step is_project L s (CallSettle k) = event_settle_slot k s"
| "event_step is_project L s (CallAcquire p) = snd (event_acquire is_project L p s)"
| "event_step is_project L s (CallRelease k) = event_release k s"
| "event_step is_project L s CallClose = event_close s"

section \<open>Invariant\<close>

text \<open>The Projects of the permits that are held, one occurrence per permit.\<close>

definition event_holders :: "event_state \<Rightarrow> string multiset" where
  "event_holders s = mset (map ep_project (filter (\<lambda>q. \<not> ep_released q) (ea_permits s)))"

definition event_waiting :: "event_state \<Rightarrow> nat" where
  "event_waiting s = length (filter Not (ea_slots s))"

definition event_inv :: "event_limits \<Rightarrow> event_state \<Rightarrow> bool" where
  "event_inv L s \<longleftrightarrow>
     map_counter.represents (ea_byProject s) (event_holders s)
     \<and> ea_active s = int (size (event_holders s))
     \<and> ea_pending s = int (event_waiting s)
     \<and> ea_active s \<le> el_maxConnections L
     \<and> ea_pending s \<le> el_maxPendingAuthorizations L
     \<and> (\<forall>p. int (count (event_holders s) p) \<le> el_maxConnectionsPerProject L)
     \<and> (ea_closeResolved s \<longleftrightarrow> ea_closed s \<and> ea_active s = 0 \<and> ea_pending s = 0)"

definition event_limits_ok :: "event_limits \<Rightarrow> bool" where
  "event_limits_ok L \<longleftrightarrow> 0 < el_maxConnectionsPerProject L
     \<and> el_maxConnectionsPerProject L < el_maxConnections L \<and> 0 < el_maxPendingAuthorizations L"

lemma event_limits_of_ok: "event_limits_of opts = Some L \<Longrightarrow> event_limits_ok L"
  by (auto simp: event_limits_of_def event_limits_ok_def option_or_def split: if_splits option.splits)

lemma event_invD:
  assumes "event_inv L s"
  shows "map_counter.represents (ea_byProject s) (event_holders s)"
    and "ea_active s = int (size (event_holders s))" and "ea_pending s = int (event_waiting s)"
    and "ea_active s \<le> el_maxConnections L" and "ea_pending s \<le> el_maxPendingAuthorizations L"
    and "int (count (event_holders s) p) \<le> el_maxConnectionsPerProject L"
    and "ea_closeResolved s \<longleftrightarrow> ea_closed s \<and> ea_active s = 0 \<and> ea_pending s = 0"
  using assms unfolding event_inv_def by blast+

lemma event_start_inv: "event_limits_ok L \<Longrightarrow> event_inv L event_start"
  using map_counter_empty
  by (simp add: event_inv_def event_start_def event_limits_ok_def event_holders_def event_waiting_def)

text \<open>\<open>#resolveCloseIfDrained\<close> restores the last conjunct of the invariant.\<close>

lemma event_settle_close_inv:
  assumes "map_counter.represents (ea_byProject s) (event_holders s)"
    and "ea_active s = int (size (event_holders s))" and "ea_pending s = int (event_waiting s)"
    and "ea_active s \<le> el_maxConnections L" and "ea_pending s \<le> el_maxPendingAuthorizations L"
    and "\<And>p. int (count (event_holders s) p) \<le> el_maxConnectionsPerProject L"
    and "ea_closeResolved s \<Longrightarrow> ea_closed s \<and> ea_active s = 0 \<and> ea_pending s = 0"
  shows "event_inv L (event_settle_close s)"
  using assms by (auto simp: event_inv_def event_settle_close_def event_holders_def event_waiting_def)

lemma event_acquire_pending_inv: "event_inv L s \<Longrightarrow> event_inv L (snd (event_acquire_pending L s))"
  by (auto simp: event_acquire_pending_def event_inv_def event_holders_def event_waiting_def)

lemma event_waiting_settle:
  assumes "\<not> event_slot_settled k s"
  shows "event_waiting s = Suc (event_waiting (s\<lparr>ea_slots := (ea_slots s)[k := True], ea_pending := n\<rparr>))"
  using assms length_filter_update_off [of k "ea_slots s" Not True]
  by (simp add: event_slot_settled_def event_waiting_def)

lemma event_settle_slot_inv:
  assumes "event_inv L s"
  shows "event_inv L (event_settle_slot k s)"
proof (cases "event_slot_settled k s")
  case False
  let ?s = "s\<lparr>ea_slots := (ea_slots s)[k := True], ea_pending := ea_pending s - 1\<rparr>"
  have h: "event_holders ?s = event_holders s" by (simp add: event_holders_def)
  have w: "event_waiting s = Suc (event_waiting ?s)" by (rule event_waiting_settle [OF False])
  note d = event_invD [OF assms]
  have pos: "0 < ea_pending s" using d(3) w by linarith
  have "event_inv L (event_settle_close ?s)"
  proof (rule event_settle_close_inv)
    show "map_counter.represents (ea_byProject ?s) (event_holders ?s)" using d(1) h by simp
    show "ea_active ?s = int (size (event_holders ?s))" using d(2) h by simp
    show "ea_pending ?s = int (event_waiting ?s)" using d(3) unfolding w by simp
    show "int (count (event_holders ?s) p) \<le> el_maxConnectionsPerProject L" for p
      using d(6) [of p] h by simp
    show "ea_closed ?s \<and> ea_active ?s = 0 \<and> ea_pending ?s = 0" if "ea_closeResolved ?s"
      using that d(7) pos by simp
  qed (use d(4,5) in simp_all)
  with False show ?thesis by (simp add: event_settle_slot_def)
qed (simp add: event_settle_slot_def assms)

lemma event_acquire_cases:
  obtains (refused) e where "event_acquire is_project L p s = (Inl e, s)"
  | (granted) "event_acquire is_project L p s = (Inr (length (ea_permits s)),
        s\<lparr>ea_active := ea_active s + 1, ea_byProject := count_inc (ea_byProject s) p,
          ea_permits := ea_permits s @ [\<lparr>ep_project = p, ep_released = False\<rparr>]\<rparr>)"
      and "\<not> ea_closed s" and "is_project p" and "ea_active s < el_maxConnections L"
      and "get_or (ea_byProject s) p 0 < el_maxConnectionsPerProject L"
proof (cases "ea_closed s \<or> \<not> is_project p \<or> ea_active s \<ge> el_maxConnections L
    \<or> get_or (ea_byProject s) p 0 \<ge> el_maxConnectionsPerProject L")
  case True
  then have "\<exists>e. event_acquire is_project L p s = (Inl e, s)"
    by (auto simp: event_acquire_def Let_def)
  then show ?thesis using refused by blast
next
  case False
  then show ?thesis by (intro granted) (auto simp: event_acquire_def Let_def count_inc_def)
qed

lemma event_acquire_inv:
  assumes "event_inv L s"
  shows "event_inv L (snd (event_acquire is_project L p s))"
proof (cases rule: event_acquire_cases [of is_project L p s])
  case (refused e)
  then show ?thesis using assms by simp
next
  case granted
  let ?s = "snd (event_acquire is_project L p s)"
  note d = event_invD [OF assms]
  have h: "event_holders ?s = add_mset p (event_holders s)"
    and w: "event_waiting ?s = event_waiting s"
    using granted(1) by (simp_all add: event_holders_def event_waiting_def)
  have "int (count (event_holders ?s) r) \<le> el_maxConnectionsPerProject L" for r
    using d(6) [of r] granted(5) map_counter_get [OF d(1), of p] h by auto
  moreover have "map_counter.represents (ea_byProject ?s) (event_holders ?s)"
    using map_counter.represents_incr [OF d(1), of p] granted(1) h by simp
  ultimately show ?thesis
    unfolding event_inv_def h w using granted d(2-7) by (simp add: h)
qed

lemma event_release_inv:
  assumes "event_inv L s"
  shows "event_inv L (event_release k s)"
proof (cases "k \<ge> length (ea_permits s) \<or> ep_released (ea_permits s ! k)")
  case False
  let ?q = "ea_permits s ! k"
  let ?s = "s\<lparr>ea_permits := (ea_permits s)[k := ?q\<lparr>ep_released := True\<rparr>],
    ea_active := ea_active s - 1, ea_byProject := count_dec (ea_byProject s) (ep_project ?q)\<rparr>"
  have k: "k < length (ea_permits s)" using False by simp
  note d = event_invD [OF assms]
  have mem: "ep_project ?q \<in># event_holders s"
    using False k by (auto simp: event_holders_def intro!: image_eqI [of _ _ ?q])
  have h: "event_holders ?s = event_holders s - {#ep_project ?q#}"
    using False mset_update_off [OF k, of "\<lambda>q. \<not> ep_released q" "?q\<lparr>ep_released := True\<rparr>"]
    by (simp add: event_holders_def image_mset_Diff)
  have "event_inv L (event_settle_close ?s)"
  proof (rule event_settle_close_inv)
    show "map_counter.represents (ea_byProject ?s) (event_holders ?s)"
      using map_counter.represents_decr [OF d(1) mem] h by simp
    show "ea_active ?s = int (size (event_holders ?s))"
      using d(2) mem h by (cases "size (event_holders s)") (auto simp: size_Diff_singleton)
    fix p show "int (count (event_holders ?s) p) \<le> el_maxConnectionsPerProject L"
      using d(6) [of p] h by (auto simp: count_diff split: if_splits)
  qed (use d mem in \<open>auto simp: event_waiting_def\<close>)
  with False show ?thesis by (simp add: event_release_def Let_def)
qed (simp add: event_release_def assms)

lemma event_close_inv: "event_inv L s \<Longrightarrow> event_inv L (event_close s)"
  by (auto simp: event_close_def event_inv_def event_settle_close_def event_holders_def event_waiting_def)

lemma event_step_inv: "event_inv L s \<Longrightarrow> event_inv L (event_step is_project L s e)"
  by (cases e) (simp_all add: event_acquire_pending_inv event_settle_slot_inv event_acquire_inv
      event_release_inv event_close_inv event_promote_def)

interpretation events: machine event_start "event_step is_project L"
    "\<lambda>s. event_limits_ok L \<longrightarrow> event_inv L s"
  for is_project :: "string \<Rightarrow> bool" and L :: event_limits
  by unfold_locales (auto simp: event_start_inv event_step_inv)

lemma event_reachable:
  "event_limits_of opts = Some L \<Longrightarrow> event_inv L (run (event_step is_project L) event_start es)"
  using events.inv_run event_limits_of_ok by blast

section \<open>Properties\<close>

lemma event_settle_frame:
  "event_holders (event_settle_close s) = event_holders s"
  "event_waiting (event_settle_close s) = event_waiting s"
  "ea_closed (event_settle_close s) = ea_closed s"
  "ea_permits (event_settle_close s) = ea_permits s"
  "ea_slots (event_settle_close s) = ea_slots s"
  "ea_active (event_settle_close s) = ea_active s"
  "ea_byProject (event_settle_close s) = ea_byProject s"
  by (simp_all add: event_settle_close_def event_holders_def event_waiting_def)

lemma event_settle_slot_effect:
  assumes "\<not> event_slot_settled k s"
  shows "event_waiting s = Suc (event_waiting (event_settle_slot k s))"
    and "event_holders (event_settle_slot k s) = event_holders s"
    and "event_slot_settled k (event_settle_slot k s)"
    and "ea_closed (event_settle_slot k s) = ea_closed s"
    and "ea_active (event_settle_slot k s) = ea_active s"
    and "ea_byProject (event_settle_slot k s) = ea_byProject s"
  using assms event_waiting_settle [OF assms]
  by (simp_all add: event_settle_slot_def event_settle_frame event_slot_settled_def)
    (simp add: event_holders_def)

lemma event_acquire_effect:
  "event_waiting (snd (event_acquire is_project L p s)) = event_waiting s"
  "ea_slots (snd (event_acquire is_project L p s)) = ea_slots s"
  "event_holders (snd (event_acquire is_project L p s)) =
     (if isl (fst (event_acquire is_project L p s)) then event_holders s
      else add_mset p (event_holders s))"
  by (cases rule: event_acquire_cases [of is_project L p s];
      simp add: event_waiting_def event_holders_def)+

lemma event_acquire_granted:
  "\<not> isl (fst (event_acquire is_project L p s)) \<longleftrightarrow> \<not> ea_closed s \<and> is_project p
     \<and> ea_active s < el_maxConnections L
     \<and> get_or (ea_byProject s) p 0 < el_maxConnectionsPerProject L"
  by (auto simp: event_acquire_def Let_def not_le)

definition demo_event_options :: event_options where
  "demo_event_options = \<lparr>eo_maxConnections = 2, eo_maxConnectionsPerProject = 1,
     eo_maxPendingAuthorizations = None\<rparr>"

definition demo_event_limits :: event_limits where
  "demo_event_limits = \<lparr>el_maxConnections = 2, el_maxConnectionsPerProject = 1,
     el_maxPendingAuthorizations = 2\<rparr>"

definition demo_calls :: "event_call list" where
  "demo_calls = [CallPending, CallPromote 0 ''a'', CallPending, CallPending]"

definition demo_events_state :: event_state where
  "demo_events_state = run (event_step (\<lambda>_. True) demo_event_limits) event_start demo_calls"

lemma demo_event_limits_of: "event_limits_of demo_event_options = Some demo_event_limits"
  by code_simp

lemma demo_events_facts:
  "event_waiting demo_events_state = 2" "event_holders demo_events_state = {#''a''#}"
  "\<not> event_slot_settled 1 demo_events_state" "ea_slots demo_events_state = [True, False, False]"
  "length (ea_permits demo_events_state) = 1"
  by code_simp+

text \<open>The connections that are held never exceed the limits, in all and per Project, nor
  the authorizations that are pending, after any sequence of calls.\<close>

theorem event_limits_hold:
  assumes "event_limits_of opts = Some L"
    and "s = run (event_step is_project L) event_start es"
  shows "int (size (event_holders s)) \<le> el_maxConnections L
    \<and> int (count (event_holders s) p) \<le> el_maxConnectionsPerProject L
    \<and> int (event_waiting s) \<le> el_maxPendingAuthorizations L"
  using event_invD [OF event_reachable [OF assms(1), of is_project es]] assms(2) by metis

theorem event_limits_hold_witness:
  "int (size (event_holders demo_events_state)) \<le> 2 \<and> event_waiting demo_events_state = 2"
  using event_limits_hold [OF demo_event_limits_of demo_events_state_def]
  by (simp add: demo_event_limits_def demo_events_facts)

text \<open>Promoting a pending authorization gives the slot back whatever the outcome, so a
  refused promotion leaks nothing; it yields a connection exactly when the admission is open,
  the Project identifier is valid and both limits leave room; and the slot cannot be promoted
  a second time.\<close>

theorem event_promote_exchanges:
  assumes n: "event_limits_of opts = Some L"
    and s: "s = run (event_step is_project L) event_start es"
    and k: "\<not> event_slot_settled k s"
    and r: "event_promote is_project L k p s = (res, t)"
  shows "event_waiting s = Suc (event_waiting t)
    \<and> (\<not> isl res \<longleftrightarrow> \<not> ea_closed s \<and> is_project p
          \<and> int (size (event_holders s)) < el_maxConnections L
          \<and> int (count (event_holders s) p) < el_maxConnectionsPerProject L)
    \<and> event_holders t = (if isl res then event_holders s else add_mset p (event_holders s))
    \<and> event_promote is_project L k p' t = (Inl GitClosed, t)"
proof -
  let ?u = "event_settle_slot k s"
  have i: "event_inv L s" using event_reachable [OF n, of is_project es] s by simp
  note d = event_invD [OF i] and u = event_settle_slot_effect [OF k]
  have e: "event_acquire is_project L p ?u = (res, t)" using r k by (simp add: event_promote_def)
  note a = event_acquire_effect [of is_project L p ?u, unfolded e, simplified]
  have "event_slot_settled k t" using u(3) a(2) by (simp add: event_slot_settled_def)
  moreover have "\<not> isl res \<longleftrightarrow> \<not> ea_closed s \<and> is_project p
      \<and> int (size (event_holders s)) < el_maxConnections L
      \<and> int (count (event_holders s) p) < el_maxConnectionsPerProject L"
    using event_acquire_granted [of is_project L p ?u] e u(4-6) d(2) map_counter_get [OF d(1), of p]
    by simp
  moreover have "event_waiting s = Suc (event_waiting t)" using u(1) a(1) by simp
  moreover have "event_holders t = (if isl res then event_holders s else add_mset p (event_holders s))"
    using u(2) a(3) by simp
  ultimately show ?thesis by (auto simp: event_promote_def)
qed

theorem event_promote_exchanges_witness:
  "\<exists>t. event_promote (\<lambda>_. True) demo_event_limits 1 ''a'' demo_events_state = (Inl GitBusy, t)
     \<and> event_waiting t = 1 \<and> event_holders t = {#''a''#}"
proof -
  obtain res t where r: "event_promote (\<lambda>_. True) demo_event_limits 1 ''a'' demo_events_state = (res, t)"
    by (cases "event_promote (\<lambda>_. True) demo_event_limits 1 ''a'' demo_events_state")
  moreover have "fst (event_promote (\<lambda>_. True) demo_event_limits 1 ''a'' demo_events_state) = Inl GitBusy"
    by code_simp
  ultimately show ?thesis
    using event_promote_exchanges [OF demo_event_limits_of demo_events_state_def
        demo_events_facts(3) r] demo_events_facts by auto
qed

lemma event_closed_step:
  assumes "ea_closed s"
  shows "ea_closed (event_step is_project L s e)
    \<and> length (ea_permits (event_step is_project L s e)) = length (ea_permits s)
    \<and> length (ea_slots (event_step is_project L s e)) = length (ea_slots s)"
  using assms
  by (cases e) (simp_all add: event_acquire_pending_def event_acquire_def event_promote_def
      event_settle_slot_def event_release_def event_close_def event_settle_frame Let_def)

lemma event_closed_run:
  "ea_closed s \<Longrightarrow> ea_closed (run (event_step is_project L) s es)
    \<and> length (ea_permits (run (event_step is_project L) s es)) = length (ea_permits s)
    \<and> length (ea_slots (run (event_step is_project L) s es)) = length (ea_slots s)"
  by (induction es arbitrary: s) (simp_all add: event_closed_step)

definition event_drain_calls :: "event_state \<Rightarrow> event_call list" where
  "event_drain_calls s = map CallRelease [0..<length (ea_permits s)]
     @ map CallSettle [0..<length (ea_slots s)]"

lemma event_release_all:
  "i < length (ea_permits s) \<Longrightarrow> ep_released (ea_permits s ! i) \<or> i \<in> set ks \<Longrightarrow>
   ep_released (ea_permits (run (event_step is_project L) s (map CallRelease ks)) ! i)
   \<and> ea_slots (run (event_step is_project L) s (map CallRelease ks)) = ea_slots s
   \<and> length (ea_permits (run (event_step is_project L) s (map CallRelease ks))) = length (ea_permits s)"
proof (induction ks arbitrary: s)
  case (Cons k ks)
  have "ea_slots (event_release k s) = ea_slots s"
    and "length (ea_permits (event_release k s)) = length (ea_permits s)"
    and "ep_released (ea_permits (event_release k s) ! i) \<or> i \<in> set ks"
    using Cons.prems by (auto simp: event_release_def Let_def event_settle_frame nth_list_update)
  then show ?case using Cons.IH [of "event_release k s"] Cons.prems(1) by simp
qed simp

lemma event_settle_all:
  "i < length (ea_slots s) \<Longrightarrow> ea_slots s ! i \<or> i \<in> set ks \<Longrightarrow>
   ea_slots (run (event_step is_project L) s (map CallSettle ks)) ! i"
proof (induction ks arbitrary: s)
  case (Cons k ks)
  have "length (ea_slots (event_settle_slot k s)) = length (ea_slots s)"
    and "ea_slots (event_settle_slot k s) ! i \<or> i \<in> set ks"
    using Cons.prems by (auto simp: event_settle_slot_def event_slot_settled_def event_settle_frame nth_list_update)
  then show ?case using Cons.IH [of "event_settle_slot k s"] Cons.prems(1) by simp
qed simp

lemma event_settle_permits:
  "ea_permits (run (event_step is_project L) s (map CallSettle ks)) = ea_permits s"
  by (induction ks arbitrary: s) (simp_all add: event_settle_slot_def event_settle_frame)

lemma event_drained:
  assumes "s' = run (event_step is_project L) s (event_drain_calls s)"
  shows "event_holders s' = {#} \<and> event_waiting s' = 0"
proof -
  let ?u = "run (event_step is_project L) s (map CallRelease [0..<length (ea_permits s)])"
  have len: "length (ea_permits ?u) = length (ea_permits s) \<and> ea_slots ?u = ea_slots s"
  proof -
    have "length (ea_permits (run (event_step is_project L) s (map CallRelease ks))) = length (ea_permits s)
        \<and> ea_slots (run (event_step is_project L) s (map CallRelease ks)) = ea_slots s" for ks
      by (induction ks arbitrary: s) (simp_all add: event_release_def Let_def event_settle_frame)
    then show ?thesis .
  qed
  have rel: "ep_released q" if "q \<in> set (ea_permits ?u)" for q
  proof -
    note q = that
    obtain i where "i < length (ea_permits ?u)" "q = ea_permits ?u ! i"
      using q by (auto simp: in_set_conv_nth)
    then show ?thesis using event_release_all [of i s "[0..<length (ea_permits s)]" is_project L] len by simp
  qed
  have s': "s' = run (event_step is_project L) ?u (map CallSettle [0..<length (ea_slots s)])"
    using assms by (simp add: event_drain_calls_def run_append)
  have "x" if "x \<in> set (ea_slots s')" for x
  proof -
    note x = that
    have "length (ea_slots (run (event_step is_project L) v (map CallSettle ks))) = length (ea_slots v)"
      for v ks by (induction ks arbitrary: v) (simp_all add: event_settle_slot_def event_settle_frame)
    then obtain i where "i < length (ea_slots ?u)" "x = ea_slots s' ! i"
      using x by (auto simp: in_set_conv_nth s')
    then show ?thesis using event_settle_all [of i ?u "[0..<length (ea_slots s)]" is_project L] len s' by simp
  qed
  then have "\<forall>x\<in>set (ea_slots s'). x" by blast
  then have "event_waiting s' = 0" by (simp add: event_waiting_def filter_empty_conv)
  moreover have "ea_permits s' = ea_permits ?u"
    unfolding s' by (rule event_settle_permits)
  then have "event_holders s' = {#}" using rel by (simp add: event_holders_def filter_empty_conv)
  ultimately show ?thesis by simp
qed

text \<open>Close is final and completes: after it no slot and no permit is created, its promise
  is resolved exactly when neither is held, and giving back every permit and every slot once
  resolves it.\<close>

theorem event_close_completes:
  assumes n: "event_limits_of opts = Some L"
    and s: "s = event_close (run (event_step is_project L) event_start es)"
    and t: "t = run (event_step is_project L) s fs"
  shows "length (ea_permits t) = length (ea_permits s) \<and> length (ea_slots t) = length (ea_slots s)
    \<and> (ea_closeResolved t \<longleftrightarrow> event_holders t = {#} \<and> event_waiting t = 0)
    \<and> ea_closeResolved (run (event_step is_project L) t (event_drain_calls t))"
proof -
  have ok: "event_limits_ok L" by (rule event_limits_of_ok [OF n])
  have i: "event_inv L s" and c: "ea_closed s"
    using event_close_inv [OF event_reachable [OF n, of is_project es]] s
    by (auto simp: event_close_def event_settle_frame)
  have inv: "event_inv L (run (event_step is_project L) s es)" for es
    using events.inv_run_from [of L s is_project es] i ok by blast
  have iff: "ea_closeResolved u \<longleftrightarrow> event_holders u = {#} \<and> event_waiting u = 0"
    if "event_inv L u" "ea_closed u" for u
    using event_invD [OF that(1)] that(2) by simp
  let ?u = "run (event_step is_project L) t (event_drain_calls t)"
  have "?u = run (event_step is_project L) s (fs @ event_drain_calls t)"
    by (simp add: run_append t)
  then have "ea_closeResolved ?u"
    using iff [of ?u] event_drained [of ?u is_project L t] inv event_closed_run [OF c] by metis
  moreover note cr = event_closed_run [OF c, of is_project L fs]
  moreover have "ea_closeResolved t \<longleftrightarrow> event_holders t = {#} \<and> event_waiting t = 0"
    using iff [OF inv [of fs]] cr t by simp
  ultimately show ?thesis using t by simp
qed

theorem event_close_completes_witness:
  "\<not> ea_closeResolved (event_close demo_events_state)
   \<and> ea_closeResolved (run (event_step (\<lambda>_. True) demo_event_limits) (event_close demo_events_state)
       [CallRelease 0, CallSettle 0, CallSettle 1, CallSettle 2])"
proof -
  have "\<not> ea_closeResolved (event_close demo_events_state)"
    and "event_drain_calls (event_close demo_events_state)
      = [CallRelease 0, CallSettle 0, CallSettle 1, CallSettle 2]"
    by code_simp+
  then show ?thesis
    using event_close_completes [OF demo_event_limits_of, of "event_close demo_events_state"
        "\<lambda>_. True" demo_calls _ "[]"]
    by (simp add: demo_events_state_def)
qed

end
