(* ===== verification/NodePath.thy ===== *)
theory NodePath
  imports Prelude
begin

text \<open>
  What the server uses of the POSIX half of \<open>node:path\<close>: a path is a string, its segments are
  what lies between slashes, and the operations are those of the platform's standard library
  (\<open>isAbsolute\<close>, \<open>normalize\<close>, \<open>join\<close>, \<open>resolve\<close> from an absolute root, \<open>relative\<close> of two absolute
  paths, the \<open>root\<close> and \<open>dir\<close> of \<open>parse\<close>).
\<close>

section \<open>Segments\<close>

fun split_slash :: "string \<Rightarrow> string list" where
  "split_slash [] = [[]]"
| "split_slash (c # cs) =
     (if c = CHR ''/'' then [] # split_slash cs
      else (case split_slash cs of [] \<Rightarrow> [[c]] | s # ss \<Rightarrow> (c # s) # ss))"

fun join_slash :: "string list \<Rightarrow> string" where
  "join_slash [] = []"
| "join_slash [s] = s"
| "join_slash (s # t # ss) = s @ CHR ''/'' # join_slash (t # ss)"

fun push_segment :: "bool \<Rightarrow> string list \<Rightarrow> string \<Rightarrow> string list" where
  "push_segment allow acc s =
     (if s = [] \<or> s = ''.'' then acc
      else if s = ''..''
      then (if acc \<noteq> [] \<and> last acc \<noteq> ''..'' then butlast acc
            else if allow then acc @ [s] else acc)
      else acc @ [s])"

definition normal_segments :: "bool \<Rightarrow> string \<Rightarrow> string list" where
  "normal_segments allow p = foldl (push_segment allow) [] (split_slash p)"

section \<open>Operations\<close>

definition is_absolute :: "string \<Rightarrow> bool" where
  "is_absolute p \<longleftrightarrow> p \<noteq> [] \<and> hd p = CHR ''/''"

definition path_normalize :: "string \<Rightarrow> string" where
  "path_normalize p =
     (if p = [] then ''.''
      else let trailing = (last p = CHR ''/'');
               body = join_slash (normal_segments (\<not> is_absolute p) p)
           in if body = []
              then (if is_absolute p then ''/'' else if trailing then ''./'' else ''.'')
              else (if is_absolute p then ''/'' else []) @ body @ (if trailing then ''/'' else []))"

definition path_join :: "string list \<Rightarrow> string" where
  "path_join ps = path_normalize (join_slash (filter (\<lambda>p. p \<noteq> []) ps))"

definition path_resolve :: "string \<Rightarrow> string list \<Rightarrow> string" where
  "path_resolve root ps =
     CHR ''/'' # join_slash (normal_segments False (join_slash (root # ps)))"

definition parse_root :: "string \<Rightarrow> string" where
  "parse_root p = (if is_absolute p then ''/'' else [])"

definition parse_dir :: "string \<Rightarrow> string" where
  "parse_dir p =
     (let core = rev (dropWhile (\<lambda>c. c = CHR ''/'') (rev p));
          up = rev (dropWhile (\<lambda>c. c \<noteq> CHR ''/'') (rev core))
      in if core = [] then parse_root p
         else if up = [] then []
         else if length up = 1 then parse_root p
         else butlast up)"

fun drop_common :: "'a list \<Rightarrow> 'a list \<Rightarrow> 'a list \<times> 'a list" where
  "drop_common (x # xs) (y # ys) = (if x = y then drop_common xs ys else (x # xs, y # ys))"
| "drop_common xs ys = (xs, ys)"

definition path_relative :: "string \<Rightarrow> string \<Rightarrow> string" where
  "path_relative a b =
     (let (up, down) = drop_common (normal_segments False a) (normal_segments False b)
      in join_slash (map (\<lambda>_. ''..'') up @ down))"

text \<open>
  The test that five modules make of a configured directory: absolute, equal to its
  normalization, and not the file-system root.
\<close>

definition absolute_directory :: "string \<Rightarrow> bool" where
  "absolute_directory p \<longleftrightarrow> is_absolute p \<and> path_normalize p = p \<and> parse_root p \<noteq> p"

lemma path_examples:
  "path_normalize ''/srv//repos/./x/../y'' = ''/srv/repos/y''"
  "path_normalize ''a/../../b/'' = ''../b/''"
  "path_join [''/srv'', ''ab'', ''repository''] = ''/srv/ab/repository''"
  "path_relative ''/srv/repos'' ''/srv/other'' = ''../other''"
  "parse_dir ''/srv/repos'' = ''/srv''" "parse_dir ''/srv'' = ''/''" "parse_dir ''/srv/repos/'' = ''/srv''"
  "absolute_directory ''/srv/repos''" "\<not> absolute_directory ''/srv/../repos''"
  by code_simp+

section \<open>Normal paths\<close>

lemma split_slash_nonempty: "split_slash p \<noteq> []"
  by (induction p) (auto split: list.split)

lemma split_slash_clean: "s \<in> set (split_slash p) \<Longrightarrow> CHR ''/'' \<notin> set s"
proof (induction p arbitrary: s)
  case (Cons c cs)
  obtain t ts where t: "split_slash cs = t # ts" using split_slash_nonempty [of cs] by (cases "split_slash cs") auto
  then show ?case using Cons by (auto split: if_splits)
qed simp

definition clean_segment :: "string \<Rightarrow> bool" where
  "clean_segment s \<longleftrightarrow> s \<noteq> [] \<and> CHR ''/'' \<notin> set s"

lemma normal_segments_clean: "list_all clean_segment (normal_segments allow p)"
proof -
  have "list_all clean_segment (foldl (push_segment allow) acc ss)"
    if "list_all clean_segment acc" "\<forall>s\<in>set ss. CHR ''/'' \<notin> set s" for acc ss
    using that
  proof (induction ss arbitrary: acc)
    case (Cons s ss)
    have "list_all clean_segment (push_segment allow acc s)"
      using Cons.prems by (auto simp: clean_segment_def list_all_iff dest: in_set_butlastD)
    then show ?case using Cons by simp
  qed simp
  then show ?thesis using split_slash_clean by (auto simp: normal_segments_def)
qed

lemma split_single: "CHR ''/'' \<notin> set s \<Longrightarrow> split_slash s = [s]"
  by (induction s) (auto split: list.split)

lemma split_first: "CHR ''/'' \<notin> set s \<Longrightarrow> split_slash (s @ CHR ''/'' # p) = s # split_slash p"
  by (induction s) auto

lemma split_join: "ss \<noteq> [] \<Longrightarrow> list_all clean_segment ss \<Longrightarrow> split_slash (join_slash ss) = ss"
  by (induction ss rule: join_slash.induct) (auto simp: clean_segment_def split_single split_first)

lemma join_slash_snoc: "ss \<noteq> [] \<Longrightarrow> join_slash (ss @ [x]) = join_slash ss @ CHR ''/'' # x"
  by (induction ss rule: join_slash.induct) auto

lemma join_slash_inj:
  assumes "list_all clean_segment ss" "list_all clean_segment ts" "join_slash ss = join_slash ts"
  shows "ss = ts"
proof -
  have empty: "us = []" if "list_all clean_segment us" "join_slash us = []" for us
    using that by (cases us rule: join_slash.cases) (auto simp: clean_segment_def)
  show ?thesis
  proof (cases "ss = [] \<or> ts = []")
    case True
    then show ?thesis using empty assms by (metis join_slash.simps(1))
  next
    case False
    then have "split_slash (join_slash ss) = ss" "split_slash (join_slash ts) = ts"
      using assms(1,2) by (simp_all add: split_join)
    then show ?thesis using assms(3) by metis
  qed
qed

lemma parse_dir_join:
  assumes "clean_segment x"
  shows "parse_dir (CHR ''/'' # join_slash (ss @ [x])) = CHR ''/'' # join_slash ss"
proof -
  define pre where "pre = CHR ''/'' # (if ss = [] then [] else join_slash ss @ ''/'')"
  define p where "p = CHR ''/'' # join_slash (ss @ [x])"
  have p: "p = pre @ x" unfolding p_def pre_def by (cases "ss = []") (simp_all add: join_slash_snoc)
  have x: "x \<noteq> []" "CHR ''/'' \<notin> set x" using assms by (simp_all add: clean_segment_def)
  obtain y c where y: "x = y @ [c]" "c \<noteq> CHR ''/''" using x by (cases x rule: rev_cases) auto
  have core: "rev (dropWhile (\<lambda>c. c = CHR ''/'') (rev p)) = p" unfolding p y(1) using y(2) by simp
  obtain qs where pre: "pre = qs @ ''/''" unfolding pre_def by (cases "ss = []") auto
  have "rev (dropWhile (\<lambda>c. c \<noteq> CHR ''/'') (rev p)) = pre"
    unfolding p pre rev_append using x(2) by (subst dropWhile_append2) auto
  then have "parse_dir p = (if length pre = 1 then parse_root p else butlast pre)"
    using core x(1) p pre by (simp add: parse_dir_def Let_def)
  then show ?thesis unfolding p_def [symmetric]
    by (cases "ss = []") (simp_all add: pre_def p_def parse_root_def is_absolute_def butlast_append)
qed

lemma absolute_directory_segments:
  assumes p: "absolute_directory p" and "last p \<noteq> CHR ''/''"
  obtains d a where "normal_segments False p = d @ [a]" and "p = CHR ''/'' # join_slash (d @ [a])"
    and "list_all clean_segment d" and "clean_segment a"
proof -
  have "p = CHR ''/'' # join_slash (normal_segments False p)" "normal_segments False p \<noteq> []"
    using assms by (auto simp: absolute_directory_def path_normalize_def parse_root_def Let_def split: if_splits)
  moreover obtain d a where "normal_segments False p = d @ [a]"
    using calculation(2) by (cases "normal_segments False p" rule: rev_cases) auto
  ultimately show ?thesis using that [of d a] normal_segments_clean [of False p] by simp
qed

end
