(* ===== verification/ReceiveAdmission.thy ===== *)
theory ReceiveAdmission
  imports NodePath
begin

text \<open>
  The admission of Git receives, \<open>src/src/resource-admission/GitReceiveAdmission.ts\<close>. Its
  \<open>acquire\<close> is asynchronous: a call first waits for the calls before it (the promise chain
  \<open>#serial\<close>), checks the limits, measures the free space, and only then counts the receive.
  The model keeps one record per call that got past the synchronous checks, with its phase:
  waiting for its turn, measuring (with the per-Project count it has read), or done. The
  events are the synchronous sections between the awaits, in any order that the promises
  allow; an \<open>await\<close> that was won by the operation may still be resumed after its controller
  was aborted, so the events do not exclude it.
\<close>

section \<open>Data\<close>

datatype receive_error =
    ReceiveBusy | ReceiveCancelled | ReceiveClosed | ReceiveInputLimit
  | ReceiveInvalidProject | ReceiveStorage

definition receive_retryable :: "receive_error \<Rightarrow> bool" where
  "receive_retryable e \<longleftrightarrow> e = ReceiveBusy \<or> e = ReceiveStorage"

record receive_options =
  ro_capacityTimeoutMs :: int
  ro_freeSpaceFloorBytes :: int
  ro_maxConcurrentReceives :: int
  ro_maxConcurrentReceivesPerProject :: int
  ro_maximumRequestBytes :: int
  ro_repositoryRoot :: string
  ro_reservationBytes :: int

definition receive_options_ok :: "receive_options \<Rightarrow> bool" where
  "receive_options_ok opts \<longleftrightarrow>
     \<not> ((\<exists>v\<in>set [ro_capacityTimeoutMs opts, ro_freeSpaceFloorBytes opts,
              ro_maxConcurrentReceives opts, ro_maxConcurrentReceivesPerProject opts,
              ro_maximumRequestBytes opts, ro_reservationBytes opts]. \<not> safe_integer v \<or> v \<le> 0)
        \<or> ro_maxConcurrentReceivesPerProject opts > ro_maxConcurrentReceives opts
        \<or> \<not> is_absolute (ro_repositoryRoot opts)
        \<or> path_normalize (ro_repositoryRoot opts) \<noteq> ro_repositoryRoot opts
        \<or> parse_root (ro_repositoryRoot opts) = ro_repositoryRoot opts)"

datatype receive_phase = RxWaiting | RxMeasuring int | RxDone "receive_error + nat"

record receive_call =
  rc_project :: string
  rc_signal :: "nat option"
  rc_reason :: "receive_error option"
  rc_phase :: receive_phase

record receive_permit =
  rp_project :: string
  rp_consumed :: int
  rp_released :: bool

record receive_state =
  rs_active :: int
  rs_byProject :: "string \<Rightarrow> int option"
  rs_closed :: bool
  rs_closeResolved :: bool
  rs_pending :: int
  rs_reserved :: int
  rs_calls :: "receive_call list"
  rs_permits :: "receive_permit list"
  rs_aborted :: "nat list"

definition receive_start :: receive_state where
  "receive_start = \<lparr>rs_active = 0, rs_byProject = (\<lambda>_. None), rs_closed = False,
     rs_closeResolved = False, rs_pending = 0, rs_reserved = 0, rs_calls = [], rs_permits = [],
     rs_aborted = []\<rparr>"

section \<open>Operations\<close>

definition receive_aborted :: "nat option \<Rightarrow> receive_state \<Rightarrow> bool" where
  "receive_aborted sig s = (case sig of None \<Rightarrow> False | Some a \<Rightarrow> a \<in> set (rs_aborted s))"

definition receive_settle_close :: "receive_state \<Rightarrow> receive_state" where
  "receive_settle_close s =
     (if rs_closed s \<and> rs_active s = 0 \<and> rs_pending s = 0
      then s\<lparr>rs_closeResolved := True\<rparr> else s)"

definition receive_done :: "receive_call \<Rightarrow> bool" where
  "receive_done c \<longleftrightarrow> (case rc_phase c of RxDone r \<Rightarrow> True | _ \<Rightarrow> False)"

text \<open>
  \<open>controller.abort(reason)\<close>: the first reason stays. A call that is done has removed its
  controller and its listener.
\<close>

definition receive_abort_call :: "receive_error \<Rightarrow> receive_call \<Rightarrow> receive_call" where
  "receive_abort_call e c =
     (if receive_done c \<or> rc_reason c \<noteq> None then c else c\<lparr>rc_reason := Some e\<rparr>)"

definition receive_set_phase :: "nat \<Rightarrow> receive_phase \<Rightarrow> receive_state \<Rightarrow> receive_state" where
  "receive_set_phase i ph s =
     s\<lparr>rs_calls := (rs_calls s)[i := (rs_calls s ! i)\<lparr>rc_phase := ph\<rparr>]\<rparr>"

text \<open>The \<open>finally\<close> block of \<open>acquire\<close>.\<close>

definition receive_finish :: "nat \<Rightarrow> receive_error + nat \<Rightarrow> receive_state \<Rightarrow> receive_state" where
  "receive_finish i r s =
     receive_settle_close ((receive_set_phase i (RxDone r) s)\<lparr>rs_pending := rs_pending s - 1\<rparr>)"

text \<open>
  The synchronous prefix of \<open>acquire\<close>: a refusal at once, or the position of the call, whose
  controller is registered.
\<close>

definition receive_acquire ::
  "(string \<Rightarrow> bool) \<Rightarrow> string \<Rightarrow> nat option \<Rightarrow> receive_state \<Rightarrow> (receive_error + nat) \<times> receive_state" where
  "receive_acquire is_project p sig s =
     (if rs_closed s then (Inl ReceiveClosed, s)
      else if \<not> is_project p then (Inl ReceiveInvalidProject, s)
      else if receive_aborted sig s then (Inl ReceiveCancelled, s)
      else (Inr (length (rs_calls s)),
            s\<lparr>rs_pending := rs_pending s + 1,
              rs_calls := rs_calls s @ [\<lparr>rc_project = p, rc_signal = sig, rc_reason = None,
                rc_phase = RxWaiting\<rparr>]\<rparr>))"

text \<open>
  The section after \<open>await previous\<close>: every earlier call has released its link of the chain.
\<close>

definition receive_turn :: "receive_options \<Rightarrow> nat \<Rightarrow> receive_state \<Rightarrow> receive_state" where
  "receive_turn O1 i s =
     (if i < length (rs_calls s) \<and> rc_phase (rs_calls s ! i) = RxWaiting
         \<and> (\<forall>c\<in>set (take i (rs_calls s)). receive_done c)
      then let c = rs_calls s ! i
           in if rs_closed s then receive_finish i (Inl ReceiveClosed) s
              else if receive_aborted (rc_signal c) s then receive_finish i (Inl ReceiveCancelled) s
              else let projectActive = get_or (rs_byProject s) (rc_project c) 0
                   in if rs_active s \<ge> ro_maxConcurrentReceives O1
                         \<or> projectActive \<ge> ro_maxConcurrentReceivesPerProject O1
                      then receive_finish i (Inl ReceiveBusy) s
                      else (case rc_reason c of
                              Some e \<Rightarrow> receive_finish i (Inl e) s
                            | None \<Rightarrow> receive_set_phase i (RxMeasuring projectActive) s)
      else s)"

definition receive_capacity_timeout :: "nat \<Rightarrow> receive_state \<Rightarrow> receive_state" where
  "receive_capacity_timeout i s =
     (if i < length (rs_calls s)
      then (case rc_phase (rs_calls s ! i) of
              RxMeasuring n \<Rightarrow> s\<lparr>rs_calls := (rs_calls s)[i := receive_abort_call ReceiveStorage (rs_calls s ! i)]\<rparr>
            | _ \<Rightarrow> s)
      else s)"

definition receive_permit_for :: "receive_options \<Rightarrow> string \<Rightarrow> int \<Rightarrow> receive_state \<Rightarrow> nat \<times> receive_state" where
  "receive_permit_for O1 p projectActive s =
     (length (rs_permits s),
      s\<lparr>rs_active := rs_active s + 1,
        rs_byProject := (rs_byProject s)(p := Some (projectActive + 1)),
        rs_reserved := rs_reserved s + ro_reservationBytes O1,
        rs_permits := rs_permits s @ [\<lparr>rp_project = p, rp_consumed = 0, rp_released = False\<rparr>]\<rparr>)"

text \<open>
  The section after the measurement, \<open>None\<close> for a measurement that was rejected.
\<close>

definition receive_measured :: "receive_options \<Rightarrow> nat \<Rightarrow> int option \<Rightarrow> receive_state \<Rightarrow> receive_state" where
  "receive_measured O1 i result s =
     (if i < length (rs_calls s)
      then (let c = rs_calls s ! i
            in case rc_phase c of
                 RxMeasuring projectActive \<Rightarrow>
                   (case result of
                      None \<Rightarrow> receive_finish i (Inl ReceiveStorage) s
                    | Some available \<Rightarrow>
                        if available < 0 then receive_finish i (Inl ReceiveStorage) s
                        else if receive_aborted (rc_signal c) s
                        then receive_finish i (Inl ReceiveCancelled) s
                        else if available < ro_freeSpaceFloorBytes O1 + rs_reserved s + ro_reservationBytes O1
                        then receive_finish i (Inl ReceiveBusy) s
                        else (let (k, s1) = receive_permit_for O1 (rc_project c) projectActive s
                              in receive_finish i (Inr k) s1))
               | _ \<Rightarrow> s)
      else s)"

text \<open>An await that the abort of the controller has won.\<close>

definition receive_abandon :: "nat \<Rightarrow> receive_state \<Rightarrow> receive_state" where
  "receive_abandon i s =
     (if i < length (rs_calls s) \<and> \<not> receive_done (rs_calls s ! i)
      then (case rc_reason (rs_calls s ! i) of
              None \<Rightarrow> s
            | Some e \<Rightarrow> receive_finish i (Inl e) s)
      else s)"

definition receive_abort :: "nat \<Rightarrow> receive_state \<Rightarrow> receive_state" where
  "receive_abort a s =
     s\<lparr>rs_aborted := a # rs_aborted s,
       rs_calls := map (\<lambda>c. if rc_signal c = Some a then receive_abort_call ReceiveCancelled c else c)
         (rs_calls s)\<rparr>"

definition receive_close :: "receive_state \<Rightarrow> receive_state" where
  "receive_close s =
     (if rs_closed s then s
      else receive_settle_close
        (s\<lparr>rs_closed := True, rs_calls := map (receive_abort_call ReceiveClosed) (rs_calls s)\<rparr>))"

definition receive_consume ::
  "receive_options \<Rightarrow> nat \<Rightarrow> int \<Rightarrow> receive_state \<Rightarrow> (receive_error + unit) \<times> receive_state" where
  "receive_consume O1 k n s =
     (if k \<ge> length (rs_permits s) then (Inl ReceiveInputLimit, s)
      else let q = rs_permits s ! k
           in if rp_released q \<or> \<not> safe_integer n \<or> n \<le> 0
                 \<or> rp_consumed q > ro_maximumRequestBytes O1 - n
              then (Inl ReceiveInputLimit, s)
              else (Inr (), s\<lparr>rs_permits := (rs_permits s)[k := q\<lparr>rp_consumed := rp_consumed q + n\<rparr>]\<rparr>))"

definition receive_release :: "receive_options \<Rightarrow> nat \<Rightarrow> receive_state \<Rightarrow> receive_state" where
  "receive_release O1 k s =
     (if k \<ge> length (rs_permits s) \<or> rp_released (rs_permits s ! k) then s
      else let q = rs_permits s ! k
           in receive_settle_close
                (s\<lparr>rs_permits := (rs_permits s)[k := q\<lparr>rp_released := True\<rparr>],
                   rs_active := rs_active s - 1,
                   rs_reserved := rs_reserved s - ro_reservationBytes O1,
                   rs_byProject := count_dec (rs_byProject s) (rp_project q)\<rparr>))"

datatype receive_event =
    RxAcquire string "nat option"
  | RxTurn nat
  | RxTimeout nat
  | RxMeasured nat "int option"
  | RxAbandon nat
  | RxAbort nat
  | RxConsume nat int
  | RxRelease nat
  | RxClose

fun receive_step ::
  "(string \<Rightarrow> bool) \<Rightarrow> receive_options \<Rightarrow> receive_state \<Rightarrow> receive_event \<Rightarrow> receive_state" where
  "receive_step is_project O1 s (RxAcquire p sig) = snd (receive_acquire is_project p sig s)"
| "receive_step is_project O1 s (RxTurn i) = receive_turn O1 i s"
| "receive_step is_project O1 s (RxTimeout i) = receive_capacity_timeout i s"
| "receive_step is_project O1 s (RxMeasured i r) = receive_measured O1 i r s"
| "receive_step is_project O1 s (RxAbandon i) = receive_abandon i s"
| "receive_step is_project O1 s (RxAbort a) = receive_abort a s"
| "receive_step is_project O1 s (RxConsume k n) = snd (receive_consume O1 k n s)"
| "receive_step is_project O1 s (RxRelease k) = receive_release O1 k s"
| "receive_step is_project O1 s RxClose = receive_close s"

section \<open>Invariant\<close>

definition receive_holders :: "receive_state \<Rightarrow> string multiset" where
  "receive_holders s = mset (map rp_project (filter (\<lambda>q. \<not> rp_released q) (rs_permits s)))"

definition receive_undone :: "receive_state \<Rightarrow> nat" where
  "receive_undone s = length (filter (\<lambda>c. \<not> receive_done c) (rs_calls s))"

text \<open>
  The per-Project counter is an upper bound of the permits held: a measuring call holds the
  count it has read before its await, and a permit released meanwhile is counted again when
  the call is granted. The counter is exact when the per-Project limit is one.
\<close>

definition receive_accounts :: "receive_options \<Rightarrow> receive_state \<Rightarrow> bool" where
  "receive_accounts O1 s \<longleftrightarrow>
     rs_active s = int (size (receive_holders s))
     \<and> rs_reserved s = rs_active s * ro_reservationBytes O1
     \<and> rs_active s \<le> ro_maxConcurrentReceives O1
     \<and> counts_positive (rs_byProject s)
     \<and> (\<forall>p. int (count (receive_holders s) p) \<le> count_of (rs_byProject s) p)
     \<and> (\<forall>p. count_of (rs_byProject s) p \<le> ro_maxConcurrentReceivesPerProject O1)
     \<and> (ro_maxConcurrentReceivesPerProject O1 = 1 \<longrightarrow>
          (\<forall>p. count_of (rs_byProject s) p = int (count (receive_holders s) p)))
     \<and> (\<forall>q\<in>set (rs_permits s). 0 \<le> rp_consumed q \<and> rp_consumed q \<le> ro_maximumRequestBytes O1)"

definition receive_chain :: "receive_options \<Rightarrow> receive_state \<Rightarrow> bool" where
  "receive_chain O1 s \<longleftrightarrow>
     (\<forall>i n. i < length (rs_calls s) \<longrightarrow> rc_phase (rs_calls s ! i) = RxMeasuring n \<longrightarrow>
        (\<forall>j<i. receive_done (rs_calls s ! j))
        \<and> count_of (rs_byProject s) (rc_project (rs_calls s ! i)) \<le> n
        \<and> n < ro_maxConcurrentReceivesPerProject O1
        \<and> rs_active s < ro_maxConcurrentReceives O1)"

definition receive_core :: "receive_options \<Rightarrow> receive_state \<Rightarrow> bool" where
  "receive_core O1 s \<longleftrightarrow> receive_accounts O1 s \<and> receive_chain O1 s
     \<and> rs_pending s = int (receive_undone s)"

definition receive_inv :: "receive_options \<Rightarrow> receive_state \<Rightarrow> bool" where
  "receive_inv O1 s \<longleftrightarrow> receive_core O1 s
     \<and> (rs_closeResolved s \<longleftrightarrow> rs_closed s \<and> rs_active s = 0 \<and> rs_pending s = 0)"

lemma receive_accountsD:
  assumes "receive_accounts O1 s"
  shows "rs_active s = int (size (receive_holders s))"
    and "rs_reserved s = rs_active s * ro_reservationBytes O1"
    and "rs_active s \<le> ro_maxConcurrentReceives O1"
    and "counts_positive (rs_byProject s)"
    and "int (count (receive_holders s) p) \<le> count_of (rs_byProject s) p"
    and "count_of (rs_byProject s) p \<le> ro_maxConcurrentReceivesPerProject O1"
    and "ro_maxConcurrentReceivesPerProject O1 = 1 \<Longrightarrow>
      count_of (rs_byProject s) p = int (count (receive_holders s) p)"
    and "q \<in> set (rs_permits s) \<Longrightarrow> 0 \<le> rp_consumed q \<and> rp_consumed q \<le> ro_maximumRequestBytes O1"
  using assms unfolding receive_accounts_def by blast+

lemma receive_chainD:
  assumes "receive_chain O1 s" and "i < length (rs_calls s)"
    and "rc_phase (rs_calls s ! i) = RxMeasuring n"
  shows "j < i \<Longrightarrow> receive_done (rs_calls s ! j)"
    and "count_of (rs_byProject s) (rc_project (rs_calls s ! i)) \<le> n"
    and "n < ro_maxConcurrentReceivesPerProject O1"
    and "rs_active s < ro_maxConcurrentReceives O1"
  using assms unfolding receive_chain_def by blast+

lemma receive_accounts_frame:
  "rs_active t = rs_active s \<Longrightarrow> rs_reserved t = rs_reserved s \<Longrightarrow> rs_byProject t = rs_byProject s \<Longrightarrow>
   rs_permits t = rs_permits s \<Longrightarrow> receive_accounts O1 t = receive_accounts O1 s"
  by (simp add: receive_accounts_def receive_holders_def)

lemma receive_settle_inv:
  assumes "receive_core O1 s"
    and "rs_closeResolved s \<Longrightarrow> rs_closed s \<and> rs_active s = 0 \<and> rs_pending s = 0"
  shows "receive_inv O1 (receive_settle_close s)"
proof -
  have "receive_core O1 (s\<lparr>rs_closeResolved := True\<rparr>) = receive_core O1 s"
    by (simp add: receive_core_def receive_accounts_def receive_chain_def receive_holders_def
        receive_undone_def)
  then show ?thesis using assms by (auto simp: receive_inv_def receive_settle_close_def)
qed

lemma receive_done_phase [simp]:
  "receive_done (c\<lparr>rc_phase := RxDone r\<rparr>)"
  "\<not> receive_done (c\<lparr>rc_phase := RxMeasuring n\<rparr>)"
  "receive_done (c\<lparr>rc_reason := e\<rparr>) = receive_done c"
  by (simp_all add: receive_done_def)

lemma receive_not_done:
  "rc_phase c = RxWaiting \<Longrightarrow> \<not> receive_done c"
  "rc_phase c = RxMeasuring n \<Longrightarrow> \<not> receive_done c"
  by (simp_all add: receive_done_def)

text \<open>Finishing a call, with the counters as they are after the part of the call before.\<close>

lemma receive_finish_inv:
  assumes a: "receive_accounts O1 s" and c: "receive_chain O1 (receive_set_phase i (RxDone r) s)"
    and p: "rs_pending s = int (receive_undone s)"
    and i: "i < length (rs_calls s)" "\<not> receive_done (rs_calls s ! i)"
    and u: "\<not> rs_closeResolved s"
  shows "receive_inv O1 (receive_finish i r s)"
proof -
  let ?s = "(receive_set_phase i (RxDone r) s)\<lparr>rs_pending := rs_pending s - 1\<rparr>"
  have "receive_undone s = Suc (receive_undone ?s)"
    using i length_filter_update_off [of i "rs_calls s" "\<lambda>c. \<not> receive_done c"]
    by (simp add: receive_undone_def receive_set_phase_def)
  moreover have "receive_accounts O1 ?s"
    using a receive_accounts_frame [of ?s s O1] by (simp add: receive_set_phase_def)
  moreover have "receive_chain O1 ?s" using c by (simp add: receive_chain_def)
  ultimately have "receive_core O1 ?s" using p by (simp add: receive_core_def)
  moreover have "\<not> rs_closeResolved ?s" using u by (simp add: receive_set_phase_def)
  ultimately show ?thesis unfolding receive_finish_def by (intro receive_settle_inv) auto
qed

lemma receive_chain_done:
  assumes "receive_chain O1 s"
  shows "receive_chain O1 (receive_set_phase i (RxDone r) s)"
  unfolding receive_chain_def
proof (intro allI impI)
  fix k n
  assume k: "k < length (rs_calls (receive_set_phase i (RxDone r) s))"
    "rc_phase (rs_calls (receive_set_phase i (RxDone r) s) ! k) = RxMeasuring n"
  then have k': "k < length (rs_calls s)" "k \<noteq> i" "rc_phase (rs_calls s ! k) = RxMeasuring n"
    by (cases "k = i"; simp add: receive_set_phase_def)+
  note d = receive_chainD [OF assms k'(1,3)]
  have "receive_done (rs_calls (receive_set_phase i (RxDone r) s) ! j)" if "j < k" for j
    using d(1) [OF that] that k'(1) by (cases "j = i") (simp_all add: receive_set_phase_def)
  then show "(\<forall>j<k. receive_done (rs_calls (receive_set_phase i (RxDone r) s) ! j))
      \<and> count_of (rs_byProject (receive_set_phase i (RxDone r) s))
          (rc_project (rs_calls (receive_set_phase i (RxDone r) s) ! k)) \<le> n
      \<and> n < ro_maxConcurrentReceivesPerProject O1
      \<and> rs_active (receive_set_phase i (RxDone r) s) < ro_maxConcurrentReceives O1"
    using d(2-4) k'(2) by (auto simp: receive_set_phase_def)
qed

lemma receive_undone_pending:
  assumes "receive_inv O1 s" and "i < length (rs_calls s)" and "\<not> receive_done (rs_calls s ! i)"
  shows "\<not> rs_closeResolved s"
proof -
  have "receive_undone s \<noteq> 0"
    using assms(2,3) by (auto simp: receive_undone_def filter_empty_conv)
  then show ?thesis using assms(1) by (auto simp: receive_inv_def receive_core_def)
qed

lemma receive_refuse_inv:
  assumes "receive_inv O1 s" and "i < length (rs_calls s)" and "\<not> receive_done (rs_calls s ! i)"
  shows "receive_inv O1 (receive_finish i r s)"
  using assms receive_undone_pending [OF assms]
  by (intro receive_finish_inv) (auto simp: receive_inv_def receive_core_def receive_chain_done)

lemma receive_abandon_inv: "receive_inv O1 s \<Longrightarrow> receive_inv O1 (receive_abandon i s)"
  by (auto simp: receive_abandon_def intro: receive_refuse_inv split: option.split)

lemma receive_acquire_inv:
  assumes i: "receive_inv O1 s"
  shows "receive_inv O1 (snd (receive_acquire is_project p sig s))"
proof -
  let ?c = "\<lparr>rc_project = p, rc_signal = sig, rc_reason = None, rc_phase = RxWaiting\<rparr>"
  let ?s = "s\<lparr>rs_pending := rs_pending s + 1, rs_calls := rs_calls s @ [?c]\<rparr>"
  have "receive_inv O1 ?s" if "\<not> rs_closed s"
  proof -
    have "receive_accounts O1 ?s"
      using i receive_accounts_frame [of ?s s O1] by (simp add: receive_inv_def receive_core_def)
    moreover have "receive_chain O1 ?s"
      using i unfolding receive_inv_def receive_core_def receive_chain_def
      by (auto simp: nth_append less_Suc_eq)
    moreover have "receive_undone ?s = Suc (receive_undone s)"
      by (simp add: receive_undone_def receive_done_def)
    ultimately show ?thesis using i that by (auto simp: receive_inv_def receive_core_def)
  qed
  then show ?thesis using i by (simp add: receive_acquire_def)
qed

lemma receive_abort_call_simps [simp]:
  "receive_done (receive_abort_call e c) = receive_done c"
  "rc_phase (receive_abort_call e c) = rc_phase c"
  "rc_project (receive_abort_call e c) = rc_project c"
  by (simp_all add: receive_abort_call_def)

lemma receive_calls_frame:
  assumes "receive_core O1 s" and "length (rs_calls t) = length (rs_calls s)"
    and "\<And>i. i < length (rs_calls s) \<Longrightarrow> rc_phase (rs_calls t ! i) = rc_phase (rs_calls s ! i)
      \<and> rc_project (rs_calls t ! i) = rc_project (rs_calls s ! i)"
    and same: "rs_active t = rs_active s" "rs_reserved t = rs_reserved s"
      "rs_byProject t = rs_byProject s" "rs_permits t = rs_permits s" "rs_pending t = rs_pending s"
  shows "receive_core O1 t"
proof -
  have d: "receive_done (rs_calls t ! i) = receive_done (rs_calls s ! i)" if "i < length (rs_calls s)" for i
    using assms(3) [OF that] by (simp add: receive_done_def)
  have "map (\<lambda>c. \<not> receive_done c) (rs_calls t) = map (\<lambda>c. \<not> receive_done c) (rs_calls s)"
    using assms(2) d by (auto intro: nth_equalityI)
  then have "length (filter id (map (\<lambda>c. \<not> receive_done c) (rs_calls t)))
      = length (filter id (map (\<lambda>c. \<not> receive_done c) (rs_calls s)))" by simp
  then have "receive_undone t = receive_undone s"
    by (simp add: receive_undone_def filter_map comp_def)
  moreover have "receive_chain O1 t"
    using assms(1,2,3) d same unfolding receive_core_def receive_chain_def by auto
  moreover have "receive_accounts O1 t = receive_accounts O1 s"
    using same by (intro receive_accounts_frame)
  ultimately show ?thesis using assms(1) same by (simp add: receive_core_def)
qed

lemma receive_inv_core: "receive_inv O1 s \<Longrightarrow> receive_core O1 s"
  by (simp add: receive_inv_def)

lemma receive_abort_inv:
  assumes "receive_inv O1 s"
  shows "receive_inv O1 (receive_abort a s)"
proof -
  have "receive_core O1 (receive_abort a s)"
    by (rule receive_calls_frame [OF receive_inv_core [OF assms]]) (auto simp: receive_abort_def)
  then show ?thesis using assms by (simp add: receive_abort_def receive_inv_def)
qed

lemma receive_timeout_inv:
  assumes "receive_inv O1 s"
  shows "receive_inv O1 (receive_capacity_timeout i s)"
proof -
  let ?t = "s\<lparr>rs_calls := (rs_calls s)[i := receive_abort_call ReceiveStorage (rs_calls s ! i)]\<rparr>"
  have "rc_phase (rs_calls ?t ! k) = rc_phase (rs_calls s ! k)
      \<and> rc_project (rs_calls ?t ! k) = rc_project (rs_calls s ! k)" if "k < length (rs_calls s)" for k
    using that by (cases "k = i") simp_all
  then have "receive_core O1 ?t"
    by (intro receive_calls_frame [OF receive_inv_core [OF assms]]) auto
  then show ?thesis
    using assms by (auto simp: receive_capacity_timeout_def receive_inv_def split: receive_phase.split)
qed

lemma receive_close_inv:
  assumes "receive_inv O1 s"
  shows "receive_inv O1 (receive_close s)"
proof (cases "rs_closed s")
  case False
  let ?t = "s\<lparr>rs_closed := True, rs_calls := map (receive_abort_call ReceiveClosed) (rs_calls s)\<rparr>"
  have "receive_core O1 ?t"
    by (rule receive_calls_frame [OF receive_inv_core [OF assms]]) auto
  then have "receive_inv O1 (receive_settle_close ?t)"
    using assms False by (intro receive_settle_inv) (auto simp: receive_inv_def)
  then show ?thesis using False by (simp add: receive_close_def)
qed (simp add: receive_close_def assms)

lemma receive_turn_inv:
  assumes "receive_inv O1 s"
  shows "receive_inv O1 (receive_turn O1 i s)"
proof (cases "i < length (rs_calls s) \<and> rc_phase (rs_calls s ! i) = RxWaiting
    \<and> (\<forall>c\<in>set (take i (rs_calls s)). receive_done c)")
  case True
  let ?c = "rs_calls s ! i"
  let ?n = "get_or (rs_byProject s) (rc_project ?c) 0"
  have i: "i < length (rs_calls s)" and nd: "\<not> receive_done ?c"
    using True by (auto simp: receive_not_done)
  have before: "receive_done (rs_calls s ! j)" if "j < i" for j
  proof -
    have "take i (rs_calls s) ! j \<in> set (take i (rs_calls s))" using that i by (intro nth_mem) simp
    then show ?thesis using True that by simp
  qed
  note refuse = receive_refuse_inv [OF assms i nd]
  have measuring: "receive_inv O1 (receive_set_phase i (RxMeasuring ?n) s)"
    if lim: "rs_active s < ro_maxConcurrentReceives O1" "?n < ro_maxConcurrentReceivesPerProject O1"
  proof -
    let ?t = "receive_set_phase i (RxMeasuring ?n) s"
    have later: "rc_phase (rs_calls s ! k) \<noteq> RxMeasuring m" if "i < k" "k < length (rs_calls s)" for k m
      using receive_chainD(1) [of O1 s k m i] assms nd that by (auto simp: receive_inv_def receive_core_def)
    have "receive_chain O1 ?t"
      unfolding receive_chain_def
    proof (intro allI impI)
      fix k m
      assume k: "k < length (rs_calls ?t)" "rc_phase (rs_calls ?t ! k) = RxMeasuring m"
      have kk: "k = i \<and> m = ?n \<or> k < i \<and> rc_phase (rs_calls s ! k) = RxMeasuring m"
        using k i later [of k m] by (cases k i rule: linorder_cases) (auto simp: receive_set_phase_def)
      have "k = i" using kk before [of k] by (auto simp: receive_done_def)
      then show "(\<forall>j<k. receive_done (rs_calls ?t ! j))
          \<and> count_of (rs_byProject ?t) (rc_project (rs_calls ?t ! k)) \<le> m
          \<and> m < ro_maxConcurrentReceivesPerProject O1 \<and> rs_active ?t < ro_maxConcurrentReceives O1"
        using kk before i lim by (auto simp: receive_set_phase_def count_of_def)
    qed
    moreover have "receive_undone ?t = receive_undone s"
      using length_filter_update_same [OF i, of "\<lambda>c. \<not> receive_done c"] nd
      by (simp add: receive_undone_def receive_set_phase_def)
    moreover have "receive_accounts O1 ?t = receive_accounts O1 s"
      by (rule receive_accounts_frame) (simp_all add: receive_set_phase_def)
    ultimately show ?thesis
      using assms unfolding receive_inv_def receive_core_def by (simp add: receive_set_phase_def)
  qed
  show ?thesis
    using True refuse measuring
    by (auto simp: receive_turn_def Let_def not_le split: option.split)
qed (auto simp: receive_turn_def assms)

text \<open>
  The grant reads the per-Project count of before the measurement. The invariant survives it
  because that count bounds the present one from above, and because no other call can be
  measuring.
\<close>

lemma receive_grant_inv:
  assumes inv: "receive_inv O1 s" and i: "i < length (rs_calls s)"
    and m: "rc_phase (rs_calls s ! i) = RxMeasuring n"
    and max: "0 < ro_maximumRequestBytes O1"
    and t: "t = snd (receive_permit_for O1 (rc_project (rs_calls s ! i)) n s)"
  shows "receive_inv O1 (receive_finish i r t)"
proof -
  let ?p = "rc_project (rs_calls s ! i)"
  have acc: "receive_accounts O1 s" and chain: "receive_chain O1 s"
    using inv by (simp_all add: receive_inv_def receive_core_def)
  note a = receive_accountsD [OF acc] and c = receive_chainD [OF chain i m]
  have nd: "\<not> receive_done (rs_calls s ! i)" by (rule receive_not_done(2) [OF m])
  have t': "rs_active t = rs_active s + 1" "rs_byProject t = (rs_byProject s)(?p := Some (n + 1))"
    "rs_reserved t = rs_reserved s + ro_reservationBytes O1" "rs_calls t = rs_calls s"
    "rs_pending t = rs_pending s" "rs_closeResolved t = rs_closeResolved s"
    "rs_permits t = rs_permits s @ [\<lparr>rp_project = ?p, rp_consumed = 0, rp_released = False\<rparr>]"
    by (simp_all add: t receive_permit_for_def)
  have h: "receive_holders t = add_mset ?p (receive_holders s)"
    by (simp add: receive_holders_def t')
  have n0: "0 \<le> n" using a(5) [of ?p] c(2) by linarith
  have cnt: "count_of (rs_byProject t) q = (if q = ?p then n + 1 else count_of (rs_byProject s) q)" for q
    by (simp add: t' count_of_def get_or_def)
  have "receive_accounts O1 t"
    unfolding receive_accounts_def
  proof (intro conjI allI impI ballI)
    show "rs_active t = int (size (receive_holders t))" using a(1) by (simp add: h t')
    show "rs_reserved t = rs_active t * ro_reservationBytes O1"
      using a(2) by (simp add: t' distrib_right)
    show "rs_active t \<le> ro_maxConcurrentReceives O1" using c(4) by (simp add: t')
    show "counts_positive (rs_byProject t)" using a(4) n0 by (auto simp: counts_positive_def t')
    fix q
    show "int (count (receive_holders t) q) \<le> count_of (rs_byProject t) q"
      using a(5) [of q] c(2) by (auto simp: h cnt)
    show "count_of (rs_byProject t) q \<le> ro_maxConcurrentReceivesPerProject O1"
      using a(6) [of q] c(3) by (auto simp: cnt)
    show "count_of (rs_byProject t) q = int (count (receive_holders t) q)"
      if one: "ro_maxConcurrentReceivesPerProject O1 = 1"
      using a(7) [OF one, of q] c(2,3) one n0 by (auto simp: h cnt)
  next
    fix q assume "q \<in> set (rs_permits t)"
    then show "0 \<le> rp_consumed q" "rp_consumed q \<le> ro_maximumRequestBytes O1"
      using a(8) [of q] max by (auto simp: t')
  qed
  moreover have "receive_chain O1 (receive_set_phase i (RxDone r) t)"
    unfolding receive_chain_def
  proof (intro allI impI)
    fix k m' assume k: "k < length (rs_calls (receive_set_phase i (RxDone r) t))"
      "rc_phase (rs_calls (receive_set_phase i (RxDone r) t) ! k) = RxMeasuring m'"
    then have k': "k < length (rs_calls s)" "k \<noteq> i" "rc_phase (rs_calls s ! k) = RxMeasuring m'"
      by (cases "k = i"; simp add: receive_set_phase_def t')+
    have False
      using receive_chainD(1) [OF chain k'(1,3), of i] c(1) [of k] nd receive_not_done(2) [OF k'(3)] k'(2)
      by (cases k i rule: linorder_cases) auto
    then show "(\<forall>j<k. receive_done (rs_calls (receive_set_phase i (RxDone r) t) ! j))
      \<and> count_of (rs_byProject (receive_set_phase i (RxDone r) t))
          (rc_project (rs_calls (receive_set_phase i (RxDone r) t) ! k)) \<le> m'
      \<and> m' < ro_maxConcurrentReceivesPerProject O1
      \<and> rs_active (receive_set_phase i (RxDone r) t) < ro_maxConcurrentReceives O1" by simp
  qed
  moreover have "rs_pending t = int (receive_undone t)"
    using inv by (simp add: receive_inv_def receive_core_def receive_undone_def t')
  ultimately show ?thesis
    using receive_undone_pending [OF inv i nd] i nd t' by (intro receive_finish_inv) auto
qed

lemma receive_measured_inv:
  assumes inv: "receive_inv O1 s" and max: "0 < ro_maximumRequestBytes O1"
  shows "receive_inv O1 (receive_measured O1 i x s)"
proof (cases "i < length (rs_calls s)")
  case True
  show ?thesis
  proof (cases "rc_phase (rs_calls s ! i)")
    case (RxMeasuring n)
    note refuse = receive_refuse_inv [OF inv True receive_not_done(2) [OF RxMeasuring]]
    note grant = receive_grant_inv [OF inv True RxMeasuring max refl]
    show ?thesis
      using True RxMeasuring refuse grant
      by (simp add: receive_measured_def receive_permit_for_def Let_def split: option.split)
  qed (use True inv in \<open>simp_all add: receive_measured_def\<close>)
qed (simp add: receive_measured_def inv)

lemma receive_consume_inv:
  assumes inv: "receive_inv O1 s"
  shows "receive_inv O1 (snd (receive_consume O1 k n s))"
proof (cases "snd (receive_consume O1 k n s) = s")
  case False
  let ?q = "rs_permits s ! k"
  let ?t = "s\<lparr>rs_permits := (rs_permits s)[k := ?q\<lparr>rp_consumed := rp_consumed ?q + n\<rparr>]\<rparr>"
  have k: "k < length (rs_permits s)" and n: "0 < n" "rp_consumed ?q + n \<le> ro_maximumRequestBytes O1"
    and eq: "snd (receive_consume O1 k n s) = ?t"
    using False by (auto simp: receive_consume_def Let_def split: if_splits)
  have acc: "receive_accounts O1 s" using inv by (simp add: receive_inv_def receive_core_def)
  obtain ys zs where split: "rs_permits s = ys @ ?q # zs" "length ys = k"
    using split_at_nth [OF k] by blast
  have upd: "rs_permits ?t = ys @ ?q\<lparr>rp_consumed := rp_consumed ?q + n\<rparr> # zs"
    using split by (metis (no_types, lifting) list_update_length receive_state.select_convs(8)
        receive_state.surjective receive_state.update_convs(8))
  let ?live = "\<lambda>qs. mset (map rp_project (filter (\<lambda>q. \<not> rp_released q) qs))"
  have "receive_holders ?t = ?live (ys @ ?q\<lparr>rp_consumed := rp_consumed ?q + n\<rparr> # zs)"
    unfolding receive_holders_def upd ..
  also have "\<dots> = ?live (ys @ ?q # zs)" by simp
  also have "\<dots> = receive_holders s" using split(1) by (simp add: receive_holders_def)
  finally have "receive_holders ?t = receive_holders s" .
  moreover have "\<forall>q\<in>set (rs_permits ?t). 0 \<le> rp_consumed q \<and> rp_consumed q \<le> ro_maximumRequestBytes O1"
  proof -
    have "?q \<in> set (rs_permits s)" using k by simp
    then have "0 \<le> rp_consumed ?q" using receive_accountsD(8) [OF acc] by blast
    moreover have "set (rs_permits ?t) \<subseteq> insert (?q\<lparr>rp_consumed := rp_consumed ?q + n\<rparr>) (set (rs_permits s))"
      by (simp add: set_update_subset_insert)
    ultimately show ?thesis using receive_accountsD(8) [OF acc] n by fastforce
  qed
  ultimately have "receive_accounts O1 ?t" using acc by (simp add: receive_accounts_def)
  moreover have "receive_chain O1 ?t = receive_chain O1 s" "receive_undone ?t = receive_undone s"
    by (simp_all add: receive_chain_def receive_undone_def)
  ultimately show ?thesis using inv eq by (simp add: receive_inv_def receive_core_def)
qed (simp add: inv)

lemma receive_release_inv:
  assumes inv: "receive_inv O1 s"
  shows "receive_inv O1 (receive_release O1 k s)"
proof (cases "k \<ge> length (rs_permits s) \<or> rp_released (rs_permits s ! k)")
  case False
  let ?q = "rs_permits s ! k"
  let ?t = "s\<lparr>rs_permits := (rs_permits s)[k := ?q\<lparr>rp_released := True\<rparr>], rs_active := rs_active s - 1,
    rs_reserved := rs_reserved s - ro_reservationBytes O1,
    rs_byProject := count_dec (rs_byProject s) (rp_project ?q)\<rparr>"
  have k: "k < length (rs_permits s)" and u: "\<not> rp_released ?q" using False by auto
  have acc: "receive_accounts O1 s" and chain: "receive_chain O1 s"
    using inv by (simp_all add: receive_inv_def receive_core_def)
  note a = receive_accountsD [OF acc]
  have mem: "rp_project ?q \<in># receive_holders s"
    using u k by (auto simp: receive_holders_def intro!: image_eqI [of _ _ ?q])
  then have pos: "0 < count_of (rs_byProject s) (rp_project ?q)"
    using a(5) [of "rp_project ?q"] by (auto simp: count_greater_zero_iff [symmetric] simp del: count_greater_zero_iff)
  have act: "0 < rs_active s" using a(1) mem by (auto simp: size_eq_0_iff_empty zero_less_iff_neq_zero)
  have h: "receive_holders ?t = receive_holders s - {#rp_project ?q#}"
    using u k mset_update_off [OF k, of "\<lambda>q. \<not> rp_released q" "?q\<lparr>rp_released := True\<rparr>"]
    by (simp add: receive_holders_def image_mset_Diff)
  note dec = map_counter.look_decr [OF a(4) pos]
  have "receive_accounts O1 ?t"
    unfolding receive_accounts_def
  proof (intro conjI allI impI ballI)
    show "rs_active ?t = int (size (receive_holders ?t))"
      using a(1) mem h by (cases "size (receive_holders s)") (auto simp: size_Diff_singleton)
    show "rs_reserved ?t = rs_active ?t * ro_reservationBytes O1"
      using a(2) by (simp add: left_diff_distrib)
    show "rs_active ?t \<le> ro_maxConcurrentReceives O1" using a(3) by simp
    show "counts_positive (rs_byProject ?t)"
      using map_counter.sound_decr [OF a(4) pos] by simp
    fix p
    show "int (count (receive_holders ?t) p) \<le> count_of (rs_byProject ?t) p"
      using a(5) [of p] mem by (auto simp: h dec of_nat_diff Suc_leI)
    show "count_of (rs_byProject ?t) p \<le> ro_maxConcurrentReceivesPerProject O1"
      using a(6) [of p] by (auto simp: dec)
    show "count_of (rs_byProject ?t) p = int (count (receive_holders ?t) p)"
      if one: "ro_maxConcurrentReceivesPerProject O1 = 1"
      using a(7) [OF one, of p] mem by (auto simp: h dec of_nat_diff Suc_leI)
  next
    fix q assume "q \<in> set (rs_permits ?t)"
    then have "q = ?q\<lparr>rp_released := True\<rparr> \<or> q \<in> set (rs_permits s)"
      using set_update_subset_insert by fastforce
    moreover have "?q \<in> set (rs_permits s)" using k by simp
    ultimately show "0 \<le> rp_consumed q" "rp_consumed q \<le> ro_maximumRequestBytes O1"
      using a(8) [of q] a(8) [of ?q] by auto
  qed
  moreover have "receive_chain O1 ?t"
    unfolding receive_chain_def
  proof (intro allI impI)
    fix i n assume i: "i < length (rs_calls ?t)" "rc_phase (rs_calls ?t ! i) = RxMeasuring n"
    then have "i < length (rs_calls s)" "rc_phase (rs_calls s ! i) = RxMeasuring n" by simp_all
    note c = receive_chainD [OF chain this]
    show "(\<forall>j<i. receive_done (rs_calls ?t ! j))
      \<and> count_of (rs_byProject ?t) (rc_project (rs_calls ?t ! i)) \<le> n
      \<and> n < ro_maxConcurrentReceivesPerProject O1 \<and> rs_active ?t < ro_maxConcurrentReceives O1"
      using c by (auto simp: dec)
  qed
  moreover have "receive_undone ?t = receive_undone s" by (simp add: receive_undone_def)
  ultimately have "receive_core O1 ?t" using inv by (simp add: receive_inv_def receive_core_def)
  then have "receive_inv O1 (receive_settle_close ?t)"
    using inv act by (intro receive_settle_inv) (auto simp: receive_inv_def)
  then show ?thesis using False by (simp add: receive_release_def Let_def)
qed (simp add: receive_release_def inv)

lemma receive_start_inv:
  "receive_options_ok O1 \<Longrightarrow> receive_inv O1 receive_start"
  by (auto simp: receive_inv_def receive_core_def receive_accounts_def receive_chain_def
      receive_holders_def receive_undone_def receive_start_def counts_positive_def count_of_def
      get_or_def receive_options_ok_def)

lemma receive_step_inv:
  assumes "receive_inv O1 s" and "receive_options_ok O1"
  shows "receive_inv O1 (receive_step is_project O1 s e)"
proof -
  have "0 < ro_maximumRequestBytes O1" using assms(2) by (simp add: receive_options_ok_def)
  then show ?thesis
    using assms(1)
    by (cases e) (simp_all add: receive_acquire_inv receive_turn_inv receive_timeout_inv
        receive_measured_inv receive_abandon_inv receive_abort_inv receive_consume_inv
        receive_release_inv receive_close_inv)
qed

interpretation receives: machine receive_start "receive_step is_project O1"
    "\<lambda>s. receive_options_ok O1 \<longrightarrow> receive_inv O1 s"
  for is_project :: "string \<Rightarrow> bool" and O1 :: receive_options
  by unfold_locales (auto simp: receive_start_inv receive_step_inv)

lemma receive_reachable:
  "receive_options_ok O1 \<Longrightarrow> receive_inv O1 (run (receive_step is_project O1) receive_start es)"
  using receives.inv_run by blast

section \<open>Properties\<close>

definition demo_receive :: receive_options where
  "demo_receive = \<lparr>ro_capacityTimeoutMs = 1000, ro_freeSpaceFloorBytes = 5,
     ro_maxConcurrentReceives = 2, ro_maxConcurrentReceivesPerProject = 1,
     ro_maximumRequestBytes = 10, ro_repositoryRoot = ''/srv'', ro_reservationBytes = 20\<rparr>"

lemma demo_receive_ok: "receive_options_ok demo_receive"
  by code_simp

definition demo_receive_events :: "receive_event list" where
  "demo_receive_events = [RxAcquire ''a'' None, RxAcquire ''b'' None, RxTurn 0, RxTurn 1,
     RxMeasured 0 (Some 100), RxConsume 0 7, RxConsume 0 7, RxTurn 1]"

definition demo_receive_state :: receive_state where
  "demo_receive_state = run (receive_step (\<lambda>_. True) demo_receive) receive_start demo_receive_events"

lemma demo_receive_facts:
  "rs_active demo_receive_state = 1" "map rp_consumed (rs_permits demo_receive_state) = [7]"
  "map rc_phase (rs_calls demo_receive_state) = [RxDone (Inr 0), RxMeasuring 0]"
  "receive_holders demo_receive_state = {#''a''#}"
  by code_simp+

text \<open>C16. Whatever the interleaving of calls, turns, timeouts, measurements, aborts, releases and
  close, the receives that are held never exceed the limits, in all and per Project; the bytes
  reserved are one reservation per receive held; no receive consumes more than the maximum;
  and calls are served in order: when a call measures, every earlier one is settled.\<close>

theorem receive_limits_hold:
  assumes ok: "receive_options_ok O1"
    and s: "s = run (receive_step is_project O1) receive_start es"
  shows "int (size (receive_holders s)) \<le> ro_maxConcurrentReceives O1
    \<and> int (count (receive_holders s) p) \<le> ro_maxConcurrentReceivesPerProject O1
    \<and> rs_reserved s = int (size (receive_holders s)) * ro_reservationBytes O1
    \<and> (\<forall>q\<in>set (rs_permits s). rp_consumed q \<le> ro_maximumRequestBytes O1)
    \<and> (i < length (rs_calls s) \<and> rc_phase (rs_calls s ! i) = RxMeasuring n \<and> j < i
        \<longrightarrow> receive_done (rs_calls s ! j))"
proof -
  have "receive_inv O1 s" using receive_reachable [OF ok] s by simp
  then have acc: "receive_accounts O1 s" and chain: "receive_chain O1 s"
    by (simp_all add: receive_inv_def receive_core_def)
  note a = receive_accountsD [OF acc]
  have "int (count (receive_holders s) p) \<le> ro_maxConcurrentReceivesPerProject O1"
    using a(5) [of p] a(6) [of p] by linarith
  then show ?thesis using a receive_chainD(1) [OF chain] by auto
qed

theorem receive_limits_hold_witness:
  "receive_done (rs_calls demo_receive_state ! 0) \<and> rs_reserved demo_receive_state = 20"
proof -
  have "length (map rc_phase (rs_calls demo_receive_state)) = 2"
    and "map rc_phase (rs_calls demo_receive_state) ! 1 = RxMeasuring 0"
    by (simp_all add: demo_receive_facts)
  then have "1 < length (rs_calls demo_receive_state)"
    and "rc_phase (rs_calls demo_receive_state ! 1) = RxMeasuring 0"
    by simp_all
  then show ?thesis
    using receive_limits_hold [OF demo_receive_ok demo_receive_state_def, of _ 1 0 0] demo_receive_facts
    by (simp add: demo_receive_def)
qed

text \<open>A receive is granted only on measured free space that covers the floor, every
  reservation already made and its own; the number of receives held changes by at most that
  one, and a measurement that failed or was negative grants nothing.\<close>

theorem receive_grant_needs_space:
  assumes ok: "receive_options_ok O1"
    and s: "s = run (receive_step is_project O1) receive_start es"
    and g: "receive_holders (receive_measured O1 i x s) \<noteq> receive_holders s"
  shows "\<exists>available. x = Some available
    \<and> ro_freeSpaceFloorBytes O1
        + int (size (receive_holders (receive_measured O1 i x s))) * ro_reservationBytes O1 \<le> available
    \<and> receive_holders (receive_measured O1 i x s)
        = add_mset (rc_project (rs_calls s ! i)) (receive_holders s)
    \<and> \<not> receive_aborted (rc_signal (rs_calls s ! i)) s"
proof -
  have inv: "receive_inv O1 s" using receive_reachable [OF ok] s by simp
  then have a: "rs_reserved s = int (size (receive_holders s)) * ro_reservationBytes O1"
    using receive_accountsD(1,2) [of O1 s] by (simp add: receive_inv_def receive_core_def)
  have fin: "receive_holders (receive_finish i r t) = receive_holders t" for i r t
    by (simp add: receive_finish_def receive_settle_close_def receive_set_phase_def receive_holders_def)
  obtain n v where i: "i < length (rs_calls s)" and "rc_phase (rs_calls s ! i) = RxMeasuring n"
    and x: "x = Some v" and v: "0 \<le> v" "\<not> receive_aborted (rc_signal (rs_calls s ! i)) s"
      "ro_freeSpaceFloorBytes O1 + rs_reserved s + ro_reservationBytes O1 \<le> v"
    and eq: "receive_measured O1 i x s = receive_finish i (Inr (length (rs_permits s)))
      (snd (receive_permit_for O1 (rc_project (rs_calls s ! i)) n s))"
    using g fin by (auto simp: receive_measured_def receive_permit_for_def Let_def not_le
        split: if_splits receive_phase.splits option.splits)
  have "receive_holders (receive_measured O1 i x s)
      = add_mset (rc_project (rs_calls s ! i)) (receive_holders s)"
    unfolding eq fin by (simp add: receive_permit_for_def receive_holders_def)
  then show ?thesis using x v a by (simp add: distrib_right)
qed

theorem receive_grant_needs_space_witness:
  "\<exists>available. Some 100 = Some available
    \<and> 5 + int (size (receive_holders (receive_measured demo_receive 1 (Some 100) demo_receive_state))) * 20
        \<le> available"
proof -
  have "receive_holders (receive_measured demo_receive 1 (Some 100) demo_receive_state) = {#''b'', ''a''#}"
    by code_simp
  then show ?thesis
    using receive_grant_needs_space [OF demo_receive_ok demo_receive_state_def, of 1 "Some 100"]
      demo_receive_facts(4) by (auto simp: demo_receive_def)
qed

text \<open>With one receive per Project, the limit the server is wired with, the per-Project map
  has an entry for exactly the Projects that hold a receive, so it does not grow and refuses
  nobody wrongly.\<close>

theorem receive_project_counter_exact:
  assumes ok: "receive_options_ok O1" and one: "ro_maxConcurrentReceivesPerProject O1 = 1"
    and s: "s = run (receive_step is_project O1) receive_start es"
  shows "rs_byProject s p = (if p \<in># receive_holders s then Some 1 else None)"
proof -
  have "receive_inv O1 s" using receive_reachable [OF ok] s by simp
  then have acc: "receive_accounts O1 s" by (simp add: receive_inv_def receive_core_def)
  note a = receive_accountsD [OF acc]
  have "count_of (rs_byProject s) p = int (count (receive_holders s) p)" by (rule a(7) [OF one])
  moreover have "count_of (rs_byProject s) p \<le> 1" using a(6) [of p] one by simp
  moreover have "0 < v" if "rs_byProject s p = Some v" for v
    using a(4) that by (auto simp: counts_positive_def)
  moreover have "p \<in># receive_holders s \<longleftrightarrow> count (receive_holders s) p \<noteq> 0" by simp
  ultimately show ?thesis
    by (cases "rs_byProject s p"; cases "count (receive_holders s) p")
      (simp_all add: count_of_def get_or_def)
qed

theorem receive_project_counter_exact_witness:
  "rs_byProject demo_receive_state ''a'' = Some 1 \<and> rs_byProject demo_receive_state ''b'' = None"
  using receive_project_counter_exact [OF demo_receive_ok _ demo_receive_state_def] demo_receive_facts(4)
  by (simp add: demo_receive_def)

text \<open>
  With a larger per-Project limit the counter drifts: a permit that is released while another
  call of the same Project measures is counted again when that call is granted. After two
  rounds the Project is refused although nothing is held.
\<close>

definition drift_options :: receive_options where
  "drift_options = \<lparr>ro_capacityTimeoutMs = 1000, ro_freeSpaceFloorBytes = 1,
     ro_maxConcurrentReceives = 3, ro_maxConcurrentReceivesPerProject = 3,
     ro_maximumRequestBytes = 10, ro_repositoryRoot = ''/srv'', ro_reservationBytes = 1\<rparr>"

definition drift_round :: "nat \<Rightarrow> receive_event list" where
  "drift_round k = [RxAcquire ''p'' None, RxTurn k, RxMeasured k (Some 100),
     RxAcquire ''p'' None, RxTurn (k + 1), RxRelease k, RxMeasured (k + 1) (Some 100),
     RxRelease (k + 1)]"

definition drift_events :: "receive_event list" where
  "drift_events = drift_round 0 @ drift_round 2
     @ [RxAcquire ''p'' None, RxTurn 4, RxMeasured 4 (Some 100), RxRelease 4]"


lemma receive_quiet_step:
  assumes inv: "receive_inv O1 s" and r: "rs_closeResolved s"
  shows "rs_closeResolved (receive_step is_project O1 s e)
    \<and> rs_calls (receive_step is_project O1 s e) = rs_calls s
    \<and> length (rs_permits (receive_step is_project O1 s e)) = length (rs_permits s)"
proof -
  have c: "rs_closed s" and z: "receive_undone s = 0" and h: "rs_active s = 0"
    using inv r by (auto simp: receive_inv_def receive_core_def)
  then have d: "\<forall>c\<in>set (rs_calls s). receive_done c" by (simp add: receive_undone_def filter_empty_conv)
  then have dn: "i < length (rs_calls s) \<Longrightarrow> receive_done (rs_calls s ! i)" for i by simp
  have ph: "i < length (rs_calls s) \<Longrightarrow> \<exists>r. rc_phase (rs_calls s ! i) = RxDone r" for i
    using dn [of i] by (simp add: receive_done_def split: receive_phase.splits)
  have "mset (filter (\<lambda>q. \<not> rp_released q) (rs_permits s)) = {#}"
    using inv h by (auto simp: receive_inv_def receive_core_def receive_accounts_def receive_holders_def)
  then have rel: "\<forall>q\<in>set (rs_permits s). rp_released q" by (simp add: filter_empty_conv)
  show ?thesis
  proof (cases e)
    case (RxTurn i)
    then show ?thesis using r ph [of i] by (auto simp: receive_turn_def)
  next
    case (RxTimeout i)
    then show ?thesis using r ph [of i] by (auto simp: receive_capacity_timeout_def)
  next
    case (RxMeasured i v)
    then show ?thesis using r ph [of i] by (auto simp: receive_measured_def)
  next
    case (RxAbandon i)
    then show ?thesis using r dn [of i] by (auto simp add: receive_abandon_def)
  next
    case (RxAbort a)
    have "map (\<lambda>c. if rc_signal c = Some a then receive_abort_call ReceiveCancelled c else c) (rs_calls s)
        = rs_calls s"
      using d by (intro map_idI) (simp add: receive_abort_call_def)
    then show ?thesis using RxAbort r by (simp add: receive_abort_def)
  next
    case (RxRelease k)
    have "k \<ge> length (rs_permits s) \<or> rp_released (rs_permits s ! k)" using rel nth_mem [of k "rs_permits s"] by (metis not_le)
    then show ?thesis using RxRelease r by (auto simp: receive_release_def)
  next
    case (RxConsume k n)
    have "k \<ge> length (rs_permits s) \<or> rp_released (rs_permits s ! k)" using rel nth_mem [of k "rs_permits s"] by (metis not_le)
    then show ?thesis using RxConsume r by (auto simp: receive_consume_def Let_def)
  qed (use c r in \<open>simp_all add: receive_acquire_def receive_close_def\<close>)
qed

lemma receive_quiet_run:
  "receive_inv O1 s \<Longrightarrow> receive_options_ok O1 \<Longrightarrow> rs_closeResolved s \<Longrightarrow>
   rs_closeResolved (run (receive_step is_project O1) s es)
   \<and> length (rs_calls (run (receive_step is_project O1) s es)) = length (rs_calls s)
   \<and> length (rs_permits (run (receive_step is_project O1) s es)) = length (rs_permits s)"
  by (induction es arbitrary: s) (simp_all add: receive_quiet_step receive_step_inv)

text \<open>The close promise is resolved exactly when the admission is closed, no receive is held
  and no call is waiting or measuring; once it is resolved, it stays so and nothing that
  happens afterwards starts a call or hands out a permit.\<close>

theorem receive_close_final:
  assumes ok: "receive_options_ok O1"
    and s: "s = run (receive_step is_project O1) receive_start es"
    and t: "t = run (receive_step is_project O1) s fs"
  shows "(rs_closeResolved s \<longleftrightarrow> rs_closed s \<and> receive_holders s = {#} \<and> receive_undone s = 0)
    \<and> (rs_closeResolved s \<longrightarrow> receive_holders t = {#} \<and> receive_undone t = 0
        \<and> length (rs_calls t) = length (rs_calls s) \<and> length (rs_permits t) = length (rs_permits s))"
proof -
  have iff: "rs_closeResolved u \<longleftrightarrow> rs_closed u \<and> receive_holders u = {#} \<and> receive_undone u = 0"
    if "receive_inv O1 u" for u
    using that by (auto simp: receive_inv_def receive_core_def receive_accounts_def)
  have i: "receive_inv O1 s" using receive_reachable [OF ok] s by simp
  have "t = run (receive_step is_project O1) receive_start (es @ fs)" by (simp add: t s run_append)
  then have "receive_inv O1 t" using receive_reachable [OF ok] by simp
  then show ?thesis using iff [OF i] iff [of t] receive_quiet_run [OF i ok, of is_project fs] t by blast
qed

theorem receive_close_final_witness:
  "rs_closeResolved (run (receive_step (\<lambda>_. True) demo_receive) demo_receive_state
     [RxClose, RxAbandon 1, RxRelease 0])"
proof -
  let ?e = "demo_receive_events @ [RxClose, RxAbandon 1, RxRelease 0]"
  let ?s = "run (receive_step (\<lambda>_. True) demo_receive) receive_start ?e"
  have "rs_closed ?s" "receive_holders ?s = {#}" "receive_undone ?s = 0" by code_simp+
  then have "rs_closeResolved ?s" using receive_close_final [OF demo_receive_ok, of ?s "\<lambda>_. True" ?e] by blast
  then show ?thesis by (simp add: demo_receive_state_def run_append)
qed

end
