(* ===== verification/UploadAdmission.thy ===== *)
theory UploadAdmission
  imports NodePath
begin

text \<open>
  The admission of bootstrap uploads, \<open>src/src/resource-admission/BootstrapUploadAdmission.ts\<close>.
  Waiters queue in order of arrival; the drain loop measures the free space for the waiter at
  the head, an asynchronous call, and grants or rejects it. The loop is outside of synchronous
  code only while it awaits a measurement, so the flag \<open>#draining\<close> and the local variable
  \<open>waiter\<close> of the suspended loop are one optional field. The events are the synchronous
  sections: a call of \<open>acquire\<close>, a queue timeout, the dispatch of an abort signal, the end of a
  measurement, a release and \<open>close\<close>.
\<close>

section \<open>Data\<close>

datatype upload_error =
  UploadBusy | UploadCancelled | UploadClosed | UploadInvalidAttempt | UploadStorage

definition upload_retryable :: "upload_error \<Rightarrow> bool" where
  "upload_retryable e \<longleftrightarrow> e = UploadBusy \<or> e = UploadStorage"

record upload_options =
  uo_maxConcurrentUploads :: int
  uo_maxUploadsPerAttempt :: int
  uo_queueMax :: int
  uo_queueTimeoutMs :: int
  uo_freeSpaceFloorBytes :: int
  uo_reservationBytes :: int
  uo_stagingRoot :: string

definition upload_options_ok :: "upload_options \<Rightarrow> bool" where
  "upload_options_ok U \<longleftrightarrow>
     \<not> ((\<exists>v\<in>set [uo_maxConcurrentUploads U, uo_maxUploadsPerAttempt U, uo_queueMax U,
              uo_queueTimeoutMs U, uo_freeSpaceFloorBytes U, uo_reservationBytes U].
            \<not> safe_integer v \<or> v \<le> 0)
        \<or> uo_maxUploadsPerAttempt U \<noteq> 1
        \<or> \<not> is_absolute (uo_stagingRoot U)
        \<or> path_normalize (uo_stagingRoot U) \<noteq> uo_stagingRoot U
        \<or> parse_root (uo_stagingRoot U) = uo_stagingRoot U)"

record upload_waiter =
  uw_id :: nat
  uw_attempt :: string
  uw_signal :: "nat option"

record upload_permit =
  up_attempt :: string
  up_released :: bool

record upload_state =
  us_active :: int
  us_inFlight :: "string set"
  us_queue :: "upload_waiter list"
  us_draining :: "upload_waiter option"
  us_reserved :: int
  us_closed :: bool
  us_closeResolved :: bool
  us_aborted :: "nat list"
  us_permits :: "upload_permit list"
  us_settled :: "(nat \<times> (upload_error + nat)) list"
  us_next :: nat

definition upload_start :: upload_state where
  "upload_start = \<lparr>us_active = 0, us_inFlight = {}, us_queue = [], us_draining = None,
     us_reserved = 0, us_closed = False, us_closeResolved = False, us_aborted = [],
     us_permits = [], us_settled = [], us_next = 0\<rparr>"

section \<open>Operations\<close>

definition upload_aborted :: "nat option \<Rightarrow> upload_state \<Rightarrow> bool" where
  "upload_aborted sig s = (case sig of None \<Rightarrow> False | Some a \<Rightarrow> a \<in> set (us_aborted s))"

definition upload_settle :: "nat \<Rightarrow> upload_error + nat \<Rightarrow> upload_state \<Rightarrow> upload_state" where
  "upload_settle i r s = s\<lparr>us_settled := us_settled s @ [(i, r)]\<rparr>"

text \<open>
  \<open>#removeWaiter\<close>: a waiter is settled exactly when it has left the queue; the boolean tells
  whether there was something to remove.
\<close>

definition remove_waiter :: "nat \<Rightarrow> bool \<Rightarrow> upload_state \<Rightarrow> bool \<times> upload_state" where
  "remove_waiter i retain s =
     (case List.extract (\<lambda>w. uw_id w = i) (us_queue s) of
        None \<Rightarrow> (False, s)
      | Some (ys, w, zs) \<Rightarrow>
          (True, s\<lparr>us_queue := ys @ zs,
             us_inFlight := (if retain then us_inFlight s else us_inFlight s - {uw_attempt w})\<rparr>))"

definition upload_reject :: "nat \<Rightarrow> upload_error \<Rightarrow> upload_state \<Rightarrow> upload_state" where
  "upload_reject i e s =
     (case remove_waiter i False s of (removed, s1) \<Rightarrow>
        if removed then upload_settle i (Inl e) s1 else s1)"

text \<open>
  One pass through the condition of the loop: it suspends in the measurement for the head of
  the queue or leaves. The second test in \<open>finally\<close> repeats the condition that has just
  failed, so leaving the loop never restarts it.
\<close>

definition upload_loop :: "upload_options \<Rightarrow> upload_state \<Rightarrow> upload_state" where
  "upload_loop U s =
     (if \<not> us_closed s \<and> us_active s < uo_maxConcurrentUploads U \<and> us_queue s \<noteq> []
      then s\<lparr>us_draining := Some (hd (us_queue s))\<rparr>
      else s\<lparr>us_draining := None\<rparr>)"

definition kick_drain :: "upload_options \<Rightarrow> upload_state \<Rightarrow> upload_state" where
  "kick_drain U s = (if \<not> us_closed s \<and> us_draining s = None then upload_loop U s else s)"

definition upload_enqueue :: "upload_options \<Rightarrow> string \<Rightarrow> nat option \<Rightarrow> upload_state \<Rightarrow> upload_state" where
  "upload_enqueue U att sig s =
     (let i = us_next s;
          s1 = s\<lparr>us_next := Suc i, us_inFlight := insert att (us_inFlight s),
                 us_queue := us_queue s @ [\<lparr>uw_id = i, uw_attempt = att, uw_signal = sig\<rparr>]\<rparr>;
          s2 = (if upload_aborted sig s1 then kick_drain U (upload_reject i UploadCancelled s1) else s1)
      in kick_drain U s2)"

definition upload_acquire ::
  "(string \<Rightarrow> bool) \<Rightarrow> upload_options \<Rightarrow> string \<Rightarrow> nat option \<Rightarrow> upload_state \<Rightarrow> upload_state" where
  "upload_acquire is_opaque U att sig s =
     (let i = us_next s; refuse = (\<lambda>e. upload_settle i (Inl e) (s\<lparr>us_next := Suc i\<rparr>))
      in if us_closed s then refuse UploadClosed
         else if \<not> is_opaque att then refuse UploadInvalidAttempt
         else if upload_aborted sig s then refuse UploadCancelled
         else if att \<in> us_inFlight s \<or> int (length (us_queue s)) \<ge> uo_queueMax U
         then refuse UploadBusy
         else upload_enqueue U att sig s)"

definition upload_timeout :: "upload_options \<Rightarrow> nat \<Rightarrow> upload_state \<Rightarrow> upload_state" where
  "upload_timeout U i s =
     (if i \<in> uw_id ` set (us_queue s) then kick_drain U (upload_reject i UploadBusy s) else s)"

definition upload_abort_listener :: "upload_options \<Rightarrow> nat \<Rightarrow> upload_state \<Rightarrow> upload_state" where
  "upload_abort_listener U i s =
     (if i \<in> uw_id ` set (us_queue s) then kick_drain U (upload_reject i UploadCancelled s) else s)"

definition upload_abort :: "upload_options \<Rightarrow> nat \<Rightarrow> upload_state \<Rightarrow> upload_state" where
  "upload_abort U a s =
     (if a \<in> set (us_aborted s) then s
      else fold (upload_abort_listener U)
             (map uw_id (filter (\<lambda>w. uw_signal w = Some a) (us_queue s)))
             (s\<lparr>us_aborted := a # us_aborted s\<rparr>))"

definition upload_grant :: "upload_options \<Rightarrow> upload_waiter \<Rightarrow> upload_state \<Rightarrow> upload_state" where
  "upload_grant U w s =
     (case remove_waiter (uw_id w) True s of (_, s1) \<Rightarrow>
        upload_settle (uw_id w) (Inr (length (us_permits s1)))
          (s1\<lparr>us_active := us_active s1 + 1,
              us_reserved := us_reserved s1 + uo_reservationBytes U,
              us_permits := us_permits s1 @ [\<lparr>up_attempt = uw_attempt w, up_released = False\<rparr>]\<rparr>))"

text \<open>The rest of the loop body after the measurement, \<open>None\<close> for one that was rejected.\<close>

definition upload_measured :: "upload_options \<Rightarrow> int option \<Rightarrow> upload_state \<Rightarrow> upload_state" where
  "upload_measured U result s =
     (case us_draining s of
        None \<Rightarrow> s
      | Some w \<Rightarrow>
          (case result of
             None \<Rightarrow> upload_loop U (upload_reject (uw_id w) UploadStorage s)
           | Some available \<Rightarrow>
               if available < 0 then upload_loop U (upload_reject (uw_id w) UploadStorage s)
               else if uw_id w \<notin> uw_id ` set (us_queue s) \<or> us_closed s then upload_loop U s
               else if upload_aborted (uw_signal w) s
               then upload_loop U (upload_reject (uw_id w) UploadCancelled s)
               else if available < uo_freeSpaceFloorBytes U + us_reserved s + uo_reservationBytes U
               then upload_loop U (upload_reject (uw_id w) UploadBusy s)
               else upload_loop U (upload_grant U w s)))"

definition upload_release :: "upload_options \<Rightarrow> nat \<Rightarrow> upload_state \<Rightarrow> upload_state" where
  "upload_release U k s =
     (if k \<ge> length (us_permits s) \<or> up_released (us_permits s ! k) then s
      else let q = us_permits s ! k;
               s1 = s\<lparr>us_permits := (us_permits s)[k := q\<lparr>up_released := True\<rparr>],
                      us_active := us_active s - 1,
                      us_reserved := us_reserved s - uo_reservationBytes U,
                      us_inFlight := us_inFlight s - {up_attempt q}\<rparr>
           in if us_closed s1
              then (if us_active s1 = 0 then s1\<lparr>us_closeResolved := True\<rparr> else s1)
              else kick_drain U s1)"

definition upload_close :: "upload_state \<Rightarrow> upload_state" where
  "upload_close s =
     (if us_closed s then s
      else let s1 = fold (\<lambda>w. upload_reject (uw_id w) UploadClosed) (us_queue s)
                      (s\<lparr>us_closed := True\<rparr>)
           in if us_active s1 = 0 then s1\<lparr>us_closeResolved := True\<rparr> else s1)"

datatype upload_event =
    UpAcquire string "nat option"
  | UpTimeout nat
  | UpAbort nat
  | UpMeasured "int option"
  | UpRelease nat
  | UpClose

fun upload_step :: "(string \<Rightarrow> bool) \<Rightarrow> upload_options \<Rightarrow> upload_state \<Rightarrow> upload_event \<Rightarrow> upload_state" where
  "upload_step is_opaque U s (UpAcquire att sig) = upload_acquire is_opaque U att sig s"
| "upload_step is_opaque U s (UpTimeout i) = upload_timeout U i s"
| "upload_step is_opaque U s (UpAbort a) = upload_abort U a s"
| "upload_step is_opaque U s (UpMeasured r) = upload_measured U r s"
| "upload_step is_opaque U s (UpRelease k) = upload_release U k s"
| "upload_step is_opaque U s UpClose = upload_close s"

section \<open>Invariant\<close>

definition upload_live :: "upload_state \<Rightarrow> string list" where
  "upload_live s = map up_attempt (filter (\<lambda>q. \<not> up_released q) (us_permits s))"

definition upload_waiting :: "upload_state \<Rightarrow> string list" where
  "upload_waiting s = map uw_attempt (us_queue s)"

definition upload_core :: "upload_options \<Rightarrow> upload_state \<Rightarrow> bool" where
  "upload_core U s \<longleftrightarrow>
     us_active s = int (length (upload_live s))
     \<and> us_active s \<le> uo_maxConcurrentUploads U
     \<and> us_reserved s = us_active s * uo_reservationBytes U
     \<and> distinct (upload_waiting s @ upload_live s)
     \<and> us_inFlight s = set (upload_waiting s) \<union> set (upload_live s)
     \<and> int (length (us_queue s)) \<le> uo_queueMax U
     \<and> distinct (map uw_id (us_queue s) @ map fst (us_settled s))
     \<and> set (map uw_id (us_queue s)) \<union> set (map fst (us_settled s)) = {..<us_next s}"

text \<open>
  The suspended loop: the waiter it holds is the head of the queue or has left it, its
  identifier is not reused, and there is room for one more upload.
\<close>

definition upload_suspended :: "upload_options \<Rightarrow> upload_state \<Rightarrow> bool" where
  "upload_suspended U s \<longleftrightarrow>
     (\<forall>w. us_draining s = Some w \<longrightarrow> us_active s < uo_maxConcurrentUploads U
        \<and> uw_id w < us_next s
        \<and> (uw_id w \<in> uw_id ` set (us_queue s) \<longrightarrow> us_queue s \<noteq> [] \<and> hd (us_queue s) = w))"

definition upload_awake :: "upload_options \<Rightarrow> upload_state \<Rightarrow> bool" where
  "upload_awake U s \<longleftrightarrow>
     (\<not> us_closed s \<and> us_queue s \<noteq> [] \<and> us_active s < uo_maxConcurrentUploads U
        \<longrightarrow> us_draining s \<noteq> None)"

definition upload_ending :: "upload_state \<Rightarrow> bool" where
  "upload_ending s \<longleftrightarrow> (us_closed s \<longrightarrow> us_queue s = [])
     \<and> (us_closeResolved s \<longleftrightarrow> us_closed s \<and> us_active s = 0)"

definition upload_inv :: "upload_options \<Rightarrow> upload_state \<Rightarrow> bool" where
  "upload_inv U s \<longleftrightarrow>
     upload_core U s \<and> upload_suspended U s \<and> upload_awake U s \<and> upload_ending s"

lemma upload_coreD:
  assumes "upload_core U s"
  shows "us_active s = int (length (upload_live s))" and "us_active s \<le> uo_maxConcurrentUploads U"
    and "us_reserved s = us_active s * uo_reservationBytes U"
    and "distinct (upload_waiting s @ upload_live s)"
    and "us_inFlight s = set (upload_waiting s) \<union> set (upload_live s)"
    and "int (length (us_queue s)) \<le> uo_queueMax U"
    and "distinct (map uw_id (us_queue s) @ map fst (us_settled s))"
    and "set (map uw_id (us_queue s)) \<union> set (map fst (us_settled s)) = {..<us_next s}"
  using assms unfolding upload_core_def by blast+

lemma upload_loop_simps [simp]:
  "us_queue (upload_loop U s) = us_queue s" "us_active (upload_loop U s) = us_active s"
  "us_closed (upload_loop U s) = us_closed s" "us_closeResolved (upload_loop U s) = us_closeResolved s"
  "us_next (upload_loop U s) = us_next s" "us_settled (upload_loop U s) = us_settled s"
  "us_permits (upload_loop U s) = us_permits s" "us_aborted (upload_loop U s) = us_aborted s"
  "us_reserved (upload_loop U s) = us_reserved s"
  "upload_core U' (upload_loop U s) = upload_core U' s"
  "upload_ending (upload_loop U s) = upload_ending s"
  by (simp_all add: upload_loop_def upload_core_def upload_ending_def upload_live_def upload_waiting_def)

lemma upload_kick_simps [simp]:
  "us_queue (kick_drain U s) = us_queue s" "us_active (kick_drain U s) = us_active s"
  "us_closed (kick_drain U s) = us_closed s" "us_closeResolved (kick_drain U s) = us_closeResolved s"
  "us_next (kick_drain U s) = us_next s" "us_settled (kick_drain U s) = us_settled s"
  "us_permits (kick_drain U s) = us_permits s" "us_aborted (kick_drain U s) = us_aborted s"
  "upload_core U' (kick_drain U s) = upload_core U' s"
  "upload_ending (kick_drain U s) = upload_ending s"
  by (simp_all add: kick_drain_def)

lemma upload_core_next: "upload_core U s \<Longrightarrow> w \<in> set (us_queue s) \<Longrightarrow> uw_id w < us_next s"
  using upload_coreD(8) [of U s] by auto

lemma upload_loop_inv:
  assumes "upload_core U s" and "upload_ending s"
  shows "upload_inv U (upload_loop U s)"
proof -
  have "upload_suspended U (upload_loop U s)"
    using upload_core_next [OF assms(1)]
    by (auto simp: upload_suspended_def upload_loop_def split: if_splits)
  moreover have "upload_awake U (upload_loop U s)"
    by (auto simp: upload_awake_def upload_loop_def)
  ultimately show ?thesis using assms by (simp add: upload_inv_def)
qed

lemma upload_kick_inv:
  assumes "upload_core U s" and "upload_ending s" and "upload_suspended U s"
  shows "upload_inv U (kick_drain U s)"
proof (cases "\<not> us_closed s \<and> us_draining s = None")
  case True
  then show ?thesis using upload_loop_inv [OF assms(1,2)] by (simp add: kick_drain_def)
next
  case False
  then have "upload_awake U s" by (auto simp: upload_awake_def)
  moreover have "kick_drain U s = s" using False unfolding kick_drain_def by (rule if_not_P)
  ultimately show ?thesis using assms by (simp add: upload_inv_def)
qed

text \<open>Removing a waiter.\<close>

lemma upload_reject_effect:
  assumes core: "upload_core U s" and i: "i \<in> uw_id ` set (us_queue s)"
  obtains ys w zs where "us_queue s = ys @ w # zs" and "uw_id w = i"
    and "upload_reject i e s = s\<lparr>us_queue := ys @ zs, us_inFlight := us_inFlight s - {uw_attempt w},
           us_settled := us_settled s @ [(i, Inl e)]\<rparr>"
proof (cases "List.extract (\<lambda>w. uw_id w = i) (us_queue s)")
  case None
  then show ?thesis using i by (auto simp: extract_None)
next
  case (Some t)
  obtain ys w zs where t: "t = (ys, w, zs)" by (cases t)
  note ex = extract_Some [OF Some [unfolded t]]
  show ?thesis
    by (rule that [of ys w zs])
      (use ex Some t in \<open>simp_all add: upload_reject_def remove_waiter_def upload_settle_def\<close>)
qed

lemma upload_reject_core:
  assumes core: "upload_core U s"
  shows "upload_core U (upload_reject i e s)"
proof (cases "i \<in> uw_id ` set (us_queue s)")
  case True
  from upload_reject_effect [OF core True, of e] obtain ys w zs where
    q: "us_queue s = ys @ w # zs" "uw_id w = i" and eq: "upload_reject i e s
      = s\<lparr>us_queue := ys @ zs, us_inFlight := us_inFlight s - {uw_attempt w},
          us_settled := us_settled s @ [(i, Inl e)]\<rparr>" .
  note c = upload_coreD [OF core]
  show ?thesis
    unfolding upload_core_def eq
    using c(1-3,6) c(4,5,7,8) q by (auto simp: upload_live_def upload_waiting_def)
next
  case False
  then have "List.extract (\<lambda>w. uw_id w = i) (us_queue s) = None" by (auto simp: extract_None)
  then show ?thesis using core by (simp add: upload_reject_def remove_waiter_def)
qed

lemma upload_reject_simps [simp]:
  "us_active (upload_reject i e s) = us_active s" "us_closed (upload_reject i e s) = us_closed s"
  "us_closeResolved (upload_reject i e s) = us_closeResolved s"
  "us_draining (upload_reject i e s) = us_draining s" "us_next (upload_reject i e s) = us_next s"
  "us_permits (upload_reject i e s) = us_permits s" "us_aborted (upload_reject i e s) = us_aborted s"
  "us_reserved (upload_reject i e s) = us_reserved s"
  by (simp_all add: upload_reject_def remove_waiter_def upload_settle_def split: option.split)

lemma upload_reject_queue:
  assumes "upload_core U s"
  shows "us_queue (upload_reject i e s) = filter (\<lambda>w. uw_id w \<noteq> i) (us_queue s)"
proof (cases "i \<in> uw_id ` set (us_queue s)")
  case True
  from upload_reject_effect [OF assms True, of e] obtain ys w zs where
    q: "us_queue s = ys @ w # zs" "uw_id w = i" and eq: "upload_reject i e s
      = s\<lparr>us_queue := ys @ zs, us_inFlight := us_inFlight s - {uw_attempt w},
          us_settled := us_settled s @ [(i, Inl e)]\<rparr>" .
  have "i \<notin> uw_id ` set ys" "i \<notin> uw_id ` set zs" using upload_coreD(7) [OF assms] q by auto
  then have "filter (\<lambda>w. uw_id w \<noteq> i) ys = ys" "filter (\<lambda>w. uw_id w \<noteq> i) zs = zs"
    by (auto simp: filter_id_conv)
  then show ?thesis using q eq by simp
next
  case False
  then have "List.extract (\<lambda>w. uw_id w = i) (us_queue s) = None" by (auto simp: extract_None)
  moreover have "filter (\<lambda>w. uw_id w \<noteq> i) (us_queue s) = us_queue s"
    using False by (auto simp: filter_id_conv)
  ultimately show ?thesis by (simp add: upload_reject_def remove_waiter_def)
qed

lemma upload_reject_suspended:
  assumes "upload_core U s" and "upload_suspended U s"
  shows "upload_suspended U (upload_reject i e s)"
  unfolding upload_suspended_def
proof (intro allI impI conjI)
  fix w assume "us_draining (upload_reject i e s) = Some w"
  then have d: "us_draining s = Some w" by simp
  with assms(2) show "us_active (upload_reject i e s) < uo_maxConcurrentUploads U"
    and "uw_id w < us_next (upload_reject i e s)" by (auto simp: upload_suspended_def)
  assume m: "uw_id w \<in> uw_id ` set (us_queue (upload_reject i e s))"
  then have "uw_id w \<in> uw_id ` set (us_queue s)" and ne: "uw_id w \<noteq> i"
    by (auto simp: upload_reject_queue [OF assms(1)])
  then have "us_queue s \<noteq> [] \<and> hd (us_queue s) = w"
    using assms(2) d unfolding upload_suspended_def by blast
  then obtain rest where "us_queue s = w # rest" by (cases "us_queue s") auto
  then have "us_queue (upload_reject i e s) = w # filter (\<lambda>w. uw_id w \<noteq> i) rest"
    using ne by (simp add: upload_reject_queue [OF assms(1)])
  then show "us_queue (upload_reject i e s) \<noteq> []" "hd (us_queue (upload_reject i e s)) = w"
    by simp_all
qed

lemma upload_reject_ending:
  "upload_core U s \<Longrightarrow> upload_ending s \<Longrightarrow> upload_ending (upload_reject i e s)"
  by (simp add: upload_ending_def upload_reject_queue)

lemma upload_reject_kick_inv:
  "upload_inv U s \<Longrightarrow> upload_inv U (kick_drain U (upload_reject i e s))"
  by (intro upload_kick_inv)
    (auto simp: upload_inv_def upload_reject_core upload_reject_suspended upload_reject_ending)

lemma upload_reject_loop_inv:
  "upload_inv U s \<Longrightarrow> upload_inv U (upload_loop U (upload_reject i e s))"
  by (intro upload_loop_inv) (auto simp: upload_inv_def upload_reject_core upload_reject_ending)

lemma upload_timeout_inv: "upload_inv U s \<Longrightarrow> upload_inv U (upload_timeout U i s)"
  by (simp add: upload_timeout_def upload_reject_kick_inv)

lemma upload_flags_frame [simp]:
  "upload_core U (s\<lparr>us_aborted := xs\<rparr>) = upload_core U s"
  "upload_core U (s\<lparr>us_closed := b\<rparr>) = upload_core U s"
  "upload_core U (s\<lparr>us_closeResolved := b\<rparr>) = upload_core U s"
  "upload_suspended U (s\<lparr>us_aborted := xs\<rparr>) = upload_suspended U s"
  "upload_suspended U (s\<lparr>us_closed := b\<rparr>) = upload_suspended U s"
  "upload_suspended U (s\<lparr>us_closeResolved := b\<rparr>) = upload_suspended U s"
  "upload_awake U (s\<lparr>us_aborted := xs\<rparr>) = upload_awake U s"
  "upload_ending (s\<lparr>us_aborted := xs\<rparr>) = upload_ending s"
proof -
  show "upload_core U (s\<lparr>us_aborted := xs\<rparr>) = upload_core U s"
    "upload_core U (s\<lparr>us_closed := b\<rparr>) = upload_core U s"
    "upload_core U (s\<lparr>us_closeResolved := b\<rparr>) = upload_core U s"
    by (simp_all add: upload_core_def upload_live_def upload_waiting_def)
  show "upload_suspended U (s\<lparr>us_aborted := xs\<rparr>) = upload_suspended U s"
    "upload_suspended U (s\<lparr>us_closed := b\<rparr>) = upload_suspended U s"
    "upload_suspended U (s\<lparr>us_closeResolved := b\<rparr>) = upload_suspended U s"
    by (simp_all add: upload_suspended_def)
  show "upload_awake U (s\<lparr>us_aborted := xs\<rparr>) = upload_awake U s"
    "upload_ending (s\<lparr>us_aborted := xs\<rparr>) = upload_ending s"
    by (simp_all add: upload_awake_def upload_ending_def)
qed

lemma upload_abort_inv:
  assumes "upload_inv U s"
  shows "upload_inv U (upload_abort U a s)"
proof -
  have "upload_inv U t \<Longrightarrow> upload_inv U (fold (upload_abort_listener U) is t)" for "is" t
    by (induction "is" arbitrary: t) (simp_all add: upload_abort_listener_def upload_reject_kick_inv)
  with assms show ?thesis by (simp add: upload_abort_def upload_inv_def)
qed

lemma upload_close_inv:
  assumes "upload_inv U s"
  shows "upload_inv U (upload_close s)"
proof (cases "us_closed s")
  case False
  let ?f = "\<lambda>ws t. fold (\<lambda>w. upload_reject (uw_id w) UploadClosed) ws t"
  have step: "upload_core U t \<Longrightarrow> upload_suspended U t \<Longrightarrow> set (us_queue t) \<subseteq> set ws \<Longrightarrow>
      upload_core U (?f ws t) \<and> upload_suspended U (?f ws t) \<and> us_queue (?f ws t) = []
      \<and> us_closed (?f ws t) = us_closed t \<and> us_closeResolved (?f ws t) = us_closeResolved t"
    for ws :: "upload_waiter list" and t
  proof (induction ws arbitrary: t)
    case (Cons w ws)
    let ?t = "upload_reject (uw_id w) UploadClosed t"
    have "set (us_queue ?t) \<subseteq> set ws"
      using Cons.prems(3) by (auto simp: upload_reject_queue [OF Cons.prems(1)])
    then show ?case
      using Cons.IH [of ?t] upload_reject_core [OF Cons.prems(1)] upload_reject_suspended [OF Cons.prems(1,2)]
      by simp
  qed simp
  let ?s = "s\<lparr>us_closed := True\<rparr>"
  have "upload_core U ?s" "upload_suspended U ?s"
    using assms by (simp_all add: upload_inv_def)
  then have st: "upload_core U (?f (us_queue s) ?s) \<and> upload_suspended U (?f (us_queue s) ?s)
      \<and> us_queue (?f (us_queue s) ?s) = [] \<and> us_closed (?f (us_queue s) ?s)
      \<and> us_closeResolved (?f (us_queue s) ?s) = us_closeResolved s"
    using step [of ?s "us_queue s"] by simp
  moreover have "\<not> us_closeResolved s" using assms False by (simp add: upload_inv_def upload_ending_def)
  ultimately show ?thesis
    using False by (auto simp: upload_close_def Let_def upload_inv_def upload_awake_def upload_ending_def)
qed (simp add: upload_close_def assms)

lemma upload_refuse_inv:
  assumes "upload_inv U s"
  shows "upload_inv U (upload_settle (us_next s) r (s\<lparr>us_next := Suc (us_next s)\<rparr>))"
proof -
  let ?t = "upload_settle (us_next s) r (s\<lparr>us_next := Suc (us_next s)\<rparr>)"
  have core: "upload_core U s" using assms by (simp add: upload_inv_def)
  have "upload_core U ?t"
    using upload_coreD [OF core] unfolding upload_core_def
    by (auto simp: upload_settle_def upload_live_def upload_waiting_def lessThan_Suc)
  then show ?thesis
    using assms by (auto simp: upload_inv_def upload_suspended_def upload_awake_def upload_ending_def
        upload_settle_def less_SucI)
qed

lemma upload_enqueue_inv:
  assumes inv: "upload_inv U s" and open1: "\<not> us_closed s" and fresh: "att \<notin> us_inFlight s"
    and len: "int (length (us_queue s)) < uo_queueMax U" and na: "\<not> upload_aborted sig s"
  shows "upload_inv U (upload_enqueue U att sig s)"
proof -
  let ?w = "\<lparr>uw_id = us_next s, uw_attempt = att, uw_signal = sig\<rparr>"
  let ?t = "s\<lparr>us_next := Suc (us_next s), us_inFlight := insert att (us_inFlight s),
    us_queue := us_queue s @ [?w]\<rparr>"
  have core: "upload_core U s" and susp: "upload_suspended U s" and en: "upload_ending s"
    using inv by (simp_all add: upload_inv_def)
  note c = upload_coreD [OF core]
  have "upload_core U ?t"
    using c fresh len unfolding upload_core_def
    by (auto simp: upload_live_def upload_waiting_def lessThan_Suc)
  moreover have "upload_suspended U ?t"
    unfolding upload_suspended_def
  proof (intro allI impI)
    fix v assume "us_draining ?t = Some v"
    then have v: "us_active s < uo_maxConcurrentUploads U" "uw_id v < us_next s"
      "uw_id v \<in> uw_id ` set (us_queue s) \<Longrightarrow> us_queue s \<noteq> [] \<and> hd (us_queue s) = v"
      using susp by (auto simp: upload_suspended_def)
    then show "us_active ?t < uo_maxConcurrentUploads U \<and> uw_id v < us_next ?t
        \<and> (uw_id v \<in> uw_id ` set (us_queue ?t) \<longrightarrow> us_queue ?t \<noteq> [] \<and> hd (us_queue ?t) = v)"
      by auto
  qed
  moreover have "upload_ending ?t" using en open1 by (simp add: upload_ending_def)
  ultimately have "upload_inv U (kick_drain U ?t)" by (intro upload_kick_inv)
  moreover have "upload_enqueue U att sig s = kick_drain U ?t"
    using na by (simp add: upload_enqueue_def Let_def upload_aborted_def split: option.splits)
  ultimately show ?thesis by simp
qed

lemma upload_acquire_inv: "upload_inv U s \<Longrightarrow> upload_inv U (upload_acquire is_opaque U att sig s)"
  unfolding upload_acquire_def Let_def by (auto simp: not_le intro: upload_refuse_inv upload_enqueue_inv)

lemma upload_grant_inv:
  assumes inv: "upload_inv U s" and d: "us_draining s = Some w"
    and q: "uw_id w \<in> uw_id ` set (us_queue s)" and o: "\<not> us_closed s"
  shows "upload_inv U (upload_loop U (upload_grant U w s))"
proof -
  have core: "upload_core U s" and susp: "upload_suspended U s" and en: "upload_ending s"
    using inv by (simp_all add: upload_inv_def)
  note c = upload_coreD [OF core]
  have "us_queue s \<noteq> [] \<and> hd (us_queue s) = w" and room: "us_active s < uo_maxConcurrentUploads U"
    using susp d q unfolding upload_suspended_def by blast+
  then obtain rest where s: "us_queue s = w # rest" by (cases "us_queue s") auto
  let ?p = "\<lparr>up_attempt = uw_attempt w, up_released = False\<rparr>"
  have eq: "upload_grant U w s = s\<lparr>us_queue := rest, us_active := us_active s + 1,
      us_reserved := us_reserved s + uo_reservationBytes U, us_permits := us_permits s @ [?p],
      us_settled := us_settled s @ [(uw_id w, Inr (length (us_permits s)))]\<rparr>"
    using s by (simp add: upload_grant_def remove_waiter_def List.extract_Cons_code upload_settle_def)
  have "upload_core U (upload_grant U w s)"
    using c room s unfolding upload_core_def eq
    by (auto simp: upload_live_def upload_waiting_def distrib_right)
  moreover have "upload_ending (upload_grant U w s)"
    using en o c(1) by (simp add: upload_ending_def eq)
  ultimately show ?thesis by (rule upload_loop_inv)
qed

lemma upload_measured_inv:
  assumes "upload_inv U s"
  shows "upload_inv U (upload_measured U x s)"
proof (cases "us_draining s")
  case (Some w)
  have "upload_inv U (upload_loop U s)"
    using assms by (intro upload_loop_inv) (simp_all add: upload_inv_def)
  then show ?thesis
    using Some upload_reject_loop_inv [OF assms] upload_grant_inv [OF assms Some]
    by (auto simp: upload_measured_def split: option.split)
qed (simp add: upload_measured_def assms)

lemma upload_release_inv:
  assumes inv: "upload_inv U s"
  shows "upload_inv U (upload_release U k s)"
proof (cases "k \<ge> length (us_permits s) \<or> up_released (us_permits s ! k)")
  case False
  let ?q = "us_permits s ! k"
  let ?t = "s\<lparr>us_permits := (us_permits s)[k := ?q\<lparr>up_released := True\<rparr>], us_active := us_active s - 1,
    us_reserved := us_reserved s - uo_reservationBytes U, us_inFlight := us_inFlight s - {up_attempt ?q}\<rparr>"
  have core: "upload_core U s" and susp: "upload_suspended U s" and en: "upload_ending s"
    using inv by (simp_all add: upload_inv_def)
  note c = upload_coreD [OF core]
  have k: "k < length (us_permits s)" and u: "\<not> up_released ?q" using False by auto
  obtain ys zs where sp: "us_permits s = ys @ ?q # zs" "length ys = k"
    using split_at_nth [OF k] by blast
  have "us_permits ?t = ys @ ?q\<lparr>up_released := True\<rparr> # zs"
    using sp by (metis (no_types, lifting) list_update_length upload_state.select_convs(9)
        upload_state.surjective upload_state.update_convs(9) upload_state.update_convs(1)
        upload_state.update_convs(2) upload_state.update_convs(5))
  then have lt: "upload_live ?t = map up_attempt (filter (\<lambda>q. \<not> up_released q) ys)
      @ map up_attempt (filter (\<lambda>q. \<not> up_released q) zs)"
    by (simp add: upload_live_def)
  have ls: "upload_live s = map up_attempt (filter (\<lambda>q. \<not> up_released q) ys)
      @ up_attempt ?q # map up_attempt (filter (\<lambda>q. \<not> up_released q) zs)"
    unfolding upload_live_def using u by (subst sp(1)) simp
  have wt: "upload_waiting ?t = upload_waiting s" by (simp add: upload_waiting_def)
  have act: "0 < us_active s" using c(1) ls by simp
  have ct: "upload_core U ?t"
    using c unfolding upload_core_def wt lt ls by (auto simp: algebra_simps)
  moreover have st: "upload_suspended U ?t" using susp by (auto simp: upload_suspended_def)
  moreover have nr: "\<not> us_closeResolved s" using en act by (auto simp: upload_ending_def)
  ultimately show ?thesis
  proof (cases "us_closed s")
    case True
    have "upload_inv U (if us_active ?t = 0 then ?t\<lparr>us_closeResolved := True\<rparr> else ?t)"
    proof -
      have fin: "upload_inv U (if us_active t = 0 then t\<lparr>us_closeResolved := True\<rparr> else t)"
        if "upload_core U t" "upload_suspended U t" "\<not> us_closeResolved t" "us_closed t" "us_queue t = []" for t
        using that by (simp add: upload_inv_def upload_awake_def upload_ending_def)
      show ?thesis by (rule fin [OF ct st]) (use nr en True in \<open>auto simp: upload_ending_def\<close>)
    qed
    then show ?thesis using False True by (simp add: upload_release_def Let_def)
  next
    case open1: False
    have "upload_inv U (kick_drain U ?t)"
      using ct st nr open1 by (intro upload_kick_inv) (simp_all add: upload_ending_def)
    then show ?thesis using False open1 by (simp add: upload_release_def Let_def)
  qed
qed (simp add: upload_release_def inv)

lemma upload_start_inv: "upload_options_ok U \<Longrightarrow> upload_inv U upload_start"
  by (auto simp: upload_inv_def upload_core_def upload_suspended_def upload_awake_def upload_ending_def
      upload_live_def upload_waiting_def upload_start_def upload_options_ok_def)

lemma upload_step_inv: "upload_inv U s \<Longrightarrow> upload_inv U (upload_step is_opaque U s e)"
  by (cases e) (simp_all add: upload_acquire_inv upload_timeout_inv upload_abort_inv
      upload_measured_inv upload_release_inv upload_close_inv)

interpretation uploads: machine upload_start "upload_step is_opaque U"
    "\<lambda>s. upload_options_ok U \<longrightarrow> upload_inv U s"
  for is_opaque :: "string \<Rightarrow> bool" and U :: upload_options
  by unfold_locales (auto simp: upload_start_inv upload_step_inv)

lemma upload_reachable:
  "upload_options_ok U \<Longrightarrow> upload_inv U (run (upload_step is_opaque U) upload_start es)"
  using uploads.inv_run by blast

section \<open>Properties\<close>

definition demo_upload :: upload_options where
  "demo_upload = \<lparr>uo_maxConcurrentUploads = 1, uo_maxUploadsPerAttempt = 1, uo_queueMax = 3,
     uo_queueTimeoutMs = 1000, uo_freeSpaceFloorBytes = 5, uo_reservationBytes = 20,
     uo_stagingRoot = ''/srv''\<rparr>"

definition demo_upload_events :: "upload_event list" where
  "demo_upload_events = [UpAcquire ''a'' None, UpAcquire ''b'' (Some 1), UpAcquire ''a'' None,
     UpMeasured (Some 30), UpAcquire ''c'' None, UpAbort 1]"

definition demo_upload_state :: upload_state where
  "demo_upload_state = run (upload_step (\<lambda>_. True) demo_upload) upload_start demo_upload_events"

lemma demo_upload_ok: "upload_options_ok demo_upload"
  by code_simp

lemma demo_upload_facts:
  "upload_live demo_upload_state = [''a'']" "upload_waiting demo_upload_state = [''c'']"
  "map fst (us_settled demo_upload_state) = [2, 0, 1]" "us_draining demo_upload_state = None"
  "\<not> us_closed demo_upload_state"
  by code_simp+



text \<open>C19. No wakeup is lost: while the admission is open and there is both a waiter and room, the
  drain loop is running, and it is measuring for the head of the queue unless that waiter has
  just left.\<close>

theorem upload_no_lost_wakeup:
  assumes ok: "upload_options_ok U"
    and s: "s = run (upload_step is_opaque U) upload_start es"
    and w: "us_queue s \<noteq> []" and r: "int (length (upload_live s)) < uo_maxConcurrentUploads U"
  shows "\<exists>w. us_draining s = Some w \<and> (uw_id w \<in> uw_id ` set (us_queue s) \<longrightarrow> hd (us_queue s) = w)"
proof -
  have inv: "upload_inv U s" using upload_reachable [OF ok] s by simp
  then have "us_active s = int (length (upload_live s))" and "\<not> us_closed s"
    using upload_coreD(1) [of U s] w by (auto simp: upload_inv_def upload_ending_def)
  then obtain v where "us_draining s = Some v"
    using inv w r by (auto simp: upload_inv_def upload_awake_def)
  then show ?thesis using inv by (auto simp: upload_inv_def upload_suspended_def)
qed

theorem upload_no_lost_wakeup_witness:
  "\<exists>w. us_draining (run (upload_step (\<lambda>_. True) demo_upload) demo_upload_state [UpRelease 0]) = Some w
     \<and> uw_attempt w = ''c''"
proof -
  let ?es = "demo_upload_events @ [UpRelease 0]"
  let ?s = "run (upload_step (\<lambda>_. True) demo_upload) upload_start ?es"
  have q: "us_queue ?s = [\<lparr>uw_id = 3, uw_attempt = ''c'', uw_signal = None\<rparr>]" and l: "upload_live ?s = []"
    and d: "map_option uw_id (us_draining ?s) = Some 3"
    by code_simp+
  obtain w where "us_draining ?s = Some w"
    and "uw_id w \<in> uw_id ` set (us_queue ?s) \<longrightarrow> hd (us_queue ?s) = w"
    using upload_no_lost_wakeup [OF demo_upload_ok refl, of "\<lambda>_. True" ?es] q l
    by (auto simp: demo_upload_def)
  then show ?thesis using q d by (auto simp: demo_upload_state_def run_append)
qed

text \<open>Uploads are granted strictly in order of arrival and only against measured space: a
  measurement that grants removes exactly the head of the queue, the space covers the floor and
  every reservation including the new one, and the waiter's signal is not aborted.\<close>

theorem upload_grants_head:
  assumes ok: "upload_options_ok U"
    and s: "s = run (upload_step is_opaque U) upload_start es"
    and g: "upload_live (upload_measured U x s) \<noteq> upload_live s"
  shows "\<exists>w rest available. us_queue s = w # rest \<and> us_queue (upload_measured U x s) = rest
    \<and> upload_live (upload_measured U x s) = upload_live s @ [uw_attempt w]
    \<and> x = Some available
    \<and> uo_freeSpaceFloorBytes U
        + int (length (upload_live (upload_measured U x s))) * uo_reservationBytes U \<le> available
    \<and> \<not> upload_aborted (uw_signal w) s"
proof -
  have inv: "upload_inv U s" using upload_reachable [OF ok] s by simp
  then have res: "us_reserved s = int (length (upload_live s)) * uo_reservationBytes U"
    using upload_coreD(1,3) [of U s] by (simp add: upload_inv_def)
  have rl: "upload_live (upload_loop U t) = upload_live t" for t by (simp add: upload_live_def)
  have rr: "upload_live (upload_reject i e t) = upload_live t" for i e t by (simp add: upload_live_def)
  obtain w v where d: "us_draining s = Some w" and x: "x = Some v"
    and m: "uw_id w \<in> uw_id ` set (us_queue s)" "\<not> upload_aborted (uw_signal w) s"
      "uo_freeSpaceFloorBytes U + us_reserved s + uo_reservationBytes U \<le> v"
    and eq: "upload_measured U x s = upload_loop U (upload_grant U w s)"
    using g rl rr by (auto simp: upload_measured_def not_le split: option.splits if_splits)
  have "us_queue s \<noteq> [] \<and> hd (us_queue s) = w"
    using inv d m(1) unfolding upload_inv_def upload_suspended_def by blast
  then obtain rest where q: "us_queue s = w # rest" by (cases "us_queue s") auto
  have "us_queue (upload_measured U x s) = rest"
    and "upload_live (upload_measured U x s) = upload_live s @ [uw_attempt w]"
    unfolding eq rl using q
    by (simp_all add: upload_grant_def remove_waiter_def List.extract_Cons_code upload_settle_def upload_live_def)
  then show ?thesis using q x m res by (simp add: distrib_right)
qed

theorem upload_grants_head_witness:
  "\<exists>w rest available. us_queue (run (upload_step (\<lambda>_. True) demo_upload) demo_upload_state [UpRelease 0])
     = w # rest \<and> Some 25 = Some available \<and> 5 + 20 \<le> (available :: int)"
proof -
  let ?es = "demo_upload_events @ [UpRelease 0]"
  let ?s = "run (upload_step (\<lambda>_. True) demo_upload) upload_start ?es"
  have "upload_live (upload_measured demo_upload (Some 25) ?s) = [''c'']" and "upload_live ?s = []"
    by code_simp+
  then show ?thesis
    using upload_grants_head [OF demo_upload_ok refl, of "Some 25" "\<lambda>_. True" ?es]
    by (auto simp: demo_upload_def demo_upload_state_def run_append)
qed

end
