(* ===== verification/LifecycleJournal.thy ===== *)
theory LifecycleJournal
  imports Prelude
begin

text \<open>
  The journals of Project lifecycle operations,
  \<open>src/src/coordination/postgres/PostgresPortabilityLifecyclePersistence.ts\<close>: the rows of one
  Project, the validation of inputs and rows, and the operations \<open>putLifecycleJournal\<close>,
  \<open>getLifecycleJournal\<close>, \<open>getNonterminalLifecycleJournal\<close>, \<open>advanceLifecycleJournal\<close>, with the
  recovery candidate that each of them keeps in step. An operation runs in a transaction of
  its own: an error leaves the database as it was, so the operations return an error or a
  result together with the new database. The primary key, the two unique indexes and the
  checks of the schema that the statements can run into are conditions of the insert and of
  the update; PostgreSQL refuses the statement otherwise.

  A timestamp is the number of milliseconds it denotes, \<open>BadStamp\<close> in an input that is not the
  canonical ISO form. \<open>isCollabOpaqueId\<close>, \<open>isCollabMemberId\<close> and \<open>isCollabGitOid\<close> of the protocol
  package are parameters, bundled in the record \<open>id_checks\<close>.
\<close>

section \<open>Data\<close>

datatype coord_error = InvalidRecord | DependencyFailed | StateConflict

datatype lifecycle_kind =
  AuthorityTransfer | Backup | DeleteKind | Export | Leave | RemoveMember | Retire

datatype lifecycle_state = Active | Cancelled | Completed | RecoveryRequired

datatype direction = CloudToLan | LanToCloud

datatype put_result = Created | PutReplayed
datatype advance_result = Advanced | AdvanceReplayed

datatype stamp = Stamp int | BadStamp

record id_checks =
  ic_opaque :: "string \<Rightarrow> bool"
  ic_member :: "string \<Rightarrow> bool"
  ic_oid :: "string \<Rightarrow> bool"

record journal_input =
  ji_actor :: "string option"
  ji_createdAt :: stamp
  ji_direction :: "direction option"
  ji_generation :: int
  ji_personalRef :: "string option"
  ji_idempotencyKey :: string
  ji_kind :: lifecycle_kind
  ji_operation :: string
  ji_phase :: string
  ji_fingerprint :: string
  ji_scheduledAt :: stamp

record journal =
  j_actor :: "string option"
  j_createdAt :: int
  j_direction :: "direction option"
  j_generation :: int
  j_personalRef :: "string option"
  j_idempotencyKey :: string
  j_kind :: lifecycle_kind
  j_operation :: string
  j_phase :: string
  j_fingerprint :: string
  j_scheduledAt :: int
  j_batchRevision :: "int option"
  j_batchSha :: "string option"
  j_checkpointSha :: "string option"
  j_recoveryFrom :: "string option"
  j_resultSha :: "string option"
  j_state :: lifecycle_state
  j_updatedAt :: int

record advance_input =
  ai_batchRevision :: "int option"
  ai_batchSha :: "string option"
  ai_checkpointSha :: "string option"
  ai_expectedPhase :: string
  ai_expectedState :: lifecycle_state
  ai_nextPhase :: string
  ai_nextState :: lifecycle_state
  ai_operation :: string
  ai_recoveryFrom :: "string option"
  ai_resultSha :: "string option"
  ai_scheduledAt :: stamp
  ai_updatedAt :: stamp

record candidate =
  cd_operation :: string
  cd_scheduledAt :: int
  cd_createdAt :: int

record journal_db =
  db_journals :: "journal list"
  db_candidates :: "lifecycle_kind \<Rightarrow> candidate option"

section \<open>Validation\<close>

text \<open>\<open>SHA256_PATTERN\<close>, \<open>PHASE_PATTERN\<close> and \<open>PRINCIPAL_PATTERN\<close>.\<close>

definition sha256_ok :: "string \<Rightarrow> bool" where
  "sha256_ok s \<longleftrightarrow> length s = 64
     \<and> list_all (\<lambda>c. is_digit c \<or> char_between CHR ''a'' CHR ''f'' c) s"

fun phase_ok :: "string \<Rightarrow> bool" where
  "phase_ok [] = False"
| "phase_ok (c # cs) \<longleftrightarrow> is_lower c \<and> length cs \<le> 63
     \<and> list_all (\<lambda>d. is_lower d \<or> is_digit d \<or> d = CHR ''-'') cs"

fun principal_ok :: "string \<Rightarrow> bool" where
  "principal_ok [] = False"
| "principal_ok (c # cs) \<longleftrightarrow> (is_lower c \<or> is_upper c \<or> is_digit c) \<and> length cs \<le> 127
     \<and> list_all (\<lambda>d. is_lower d \<or> is_upper d \<or> is_digit d \<or> d \<in> set ''._:-'') cs"

definition timestamp :: "stamp \<Rightarrow> coord_error + int" where
  "timestamp t = (case t of Stamp n \<Rightarrow> Inr n | BadStamp \<Rightarrow> Inl InvalidRecord)"

definition require :: "bool \<Rightarrow> coord_error + unit" where
  "require b = ensure b InvalidRecord"

definition option_ok :: "('a \<Rightarrow> bool) \<Rightarrow> 'a option \<Rightarrow> bool" where
  "option_ok P x = (case x of None \<Rightarrow> True | Some v \<Rightarrow> P v)"

text \<open>
  \<open>canonicalJournalInput\<close>, and the record that \<open>putLifecycleJournal\<close> expects to read back.
\<close>

definition canonical_journal :: "id_checks \<Rightarrow> journal_input \<Rightarrow> coord_error + journal" where
  "canonical_journal ids i =
     rbind (require (\<not> ((ji_kind i = AuthorityTransfer \<and> ji_direction i = None)
         \<or> (ji_kind i \<noteq> AuthorityTransfer \<and> ji_direction i \<noteq> None)
         \<or> (if ji_kind i = Leave \<or> ji_kind i = RemoveMember
            then \<not> (case ji_personalRef i of None \<Rightarrow> False | Some r \<Rightarrow> ic_oid ids r)
            else ji_personalRef i \<noteq> None)))) (\<lambda>_.
     rbind (require (option_ok (ic_member ids) (ji_actor i))) (\<lambda>_.
     rbind (require (positive_safe (ji_generation i))) (\<lambda>_.
     rbind (require (ic_opaque ids (ji_idempotencyKey i))) (\<lambda>_.
     rbind (require (ic_opaque ids (ji_operation i))) (\<lambda>_.
     rbind (require (phase_ok (ji_phase i))) (\<lambda>_.
     rbind (require (sha256_ok (ji_fingerprint i))) (\<lambda>_.
     rbind (timestamp (ji_scheduledAt i)) (\<lambda>scheduled.
     rbind (timestamp (ji_createdAt i)) (\<lambda>created.
       Inr \<lparr>j_actor = ji_actor i, j_createdAt = created, j_direction = ji_direction i,
             j_generation = ji_generation i, j_personalRef = ji_personalRef i,
             j_idempotencyKey = ji_idempotencyKey i, j_kind = ji_kind i,
             j_operation = ji_operation i, j_phase = ji_phase i,
             j_fingerprint = ji_fingerprint i, j_scheduledAt = scheduled,
             j_batchRevision = None, j_batchSha = None, j_checkpointSha = None,
             j_recoveryFrom = None, j_resultSha = None, j_state = Active,
             j_updatedAt = created\<rparr>)))))))))"

text \<open>\<open>validateAdvance\<close>, with the two timestamps it has checked.\<close>

definition validate_advance :: "id_checks \<Rightarrow> advance_input \<Rightarrow> coord_error + int \<times> int" where
  "validate_advance ids a =
     rbind (require (ic_opaque ids (ai_operation a))) (\<lambda>_.
     rbind (require (phase_ok (ai_expectedPhase a))) (\<lambda>_.
     rbind (require (phase_ok (ai_nextPhase a))) (\<lambda>_.
     rbind (require ((ai_nextState a = RecoveryRequired) = (ai_recoveryFrom a \<noteq> None))) (\<lambda>_.
     rbind (require (option_ok phase_ok (ai_recoveryFrom a))) (\<lambda>_.
     rbind (require (option_ok sha256_ok (ai_resultSha a))) (\<lambda>_.
     rbind (require (option_ok sha256_ok (ai_checkpointSha a))) (\<lambda>_.
     rbind (require (option_ok sha256_ok (ai_batchSha a))) (\<lambda>_.
     rbind (require ((ai_batchRevision a = None) = (ai_batchSha a = None))) (\<lambda>_.
     rbind (require (option_ok positive_safe (ai_batchRevision a))) (\<lambda>_.
     rbind (timestamp (ai_scheduledAt a)) (\<lambda>scheduled.
     rbind (timestamp (ai_updatedAt a)) (\<lambda>updated.
       Inr (scheduled, updated)))))))))))))"

text \<open>\<open>lifecycleJournal\<close>: a row that no writer of this module produces is a failed dependency.\<close>

definition decode_journal :: "id_checks \<Rightarrow> journal \<Rightarrow> coord_error + journal" where
  "decode_journal ids r =
     (if option_ok (ic_member ids) (j_actor r)
         \<and> (j_state r = RecoveryRequired) = (j_recoveryFrom r \<noteq> None)
         \<and> option_ok positive_safe (j_batchRevision r) \<and> positive_safe (j_generation r)
      then Inr r else Inl DependencyFailed)"

section \<open>Operations\<close>

definition open_journal :: "journal \<Rightarrow> bool" where
  "open_journal r \<longleftrightarrow> j_state r = Active \<or> j_state r = RecoveryRequired"

definition select_journal :: "string \<Rightarrow> journal_db \<Rightarrow> journal option" where
  "select_journal opid db = find (\<lambda>r. j_operation r = opid) (db_journals db)"

definition get_journal :: "id_checks \<Rightarrow> string \<Rightarrow> journal_db \<Rightarrow> coord_error + journal option" where
  "get_journal ids opid db =
     rbind (require (ic_opaque ids opid)) (\<lambda>_.
       case select_journal opid db of
         None \<Rightarrow> Inr None
       | Some r \<Rightarrow> rbind (decode_journal ids r) (\<lambda>r'. Inr (Some r')))"

definition get_nonterminal :: "id_checks \<Rightarrow> journal_db \<Rightarrow> coord_error + journal option" where
  "get_nonterminal ids db =
     (case filter open_journal (db_journals db) of
        [] \<Rightarrow> Inr None
      | [r] \<Rightarrow> rbind (decode_journal ids r) (\<lambda>r'. Inr (Some r'))
      | _ \<Rightarrow> Inl StateConflict)"

text \<open>The checks of the table, as far as the statements of this module can fail them.\<close>

definition row_ok :: "journal \<Rightarrow> bool" where
  "row_ok r \<longleftrightarrow> j_createdAt r \<le> j_scheduledAt r \<and> j_createdAt r \<le> j_updatedAt r
     \<and> (j_state r = RecoveryRequired) = (j_recoveryFrom r \<noteq> None)
     \<and> (j_batchRevision r = None) = (j_batchSha r = None)
     \<and> (j_batchRevision r \<noteq> None \<longrightarrow> j_checkpointSha r \<noteq> None)"

definition same_identity :: "journal \<Rightarrow> journal \<Rightarrow> bool" where
  "same_identity r r' \<longleftrightarrow> j_actor r = j_actor r' \<and> j_kind r = j_kind r'
     \<and> j_idempotencyKey r = j_idempotencyKey r'"

definition constraints_ok :: "journal list \<Rightarrow> journal \<Rightarrow> bool" where
  "constraints_ok others r \<longleftrightarrow> row_ok r
     \<and> \<not> (open_journal r \<and> list_ex open_journal others)
     \<and> \<not> list_ex (same_identity r) others"

definition upsert_candidate ::
  "lifecycle_kind \<Rightarrow> string \<Rightarrow> int \<Rightarrow> int \<Rightarrow> journal_db \<Rightarrow> coord_error + journal_db" where
  "upsert_candidate k opid scheduled created db =
     (case db_candidates db k of
        None \<Rightarrow>
          rbind (ensure (created \<le> scheduled) DependencyFailed) (\<lambda>_. Inr (db\<lparr>db_candidates := (db_candidates db)(k := Some \<lparr>cd_operation = opid,
            cd_scheduledAt = scheduled, cd_createdAt = created\<rparr>)\<rparr>))
      | Some c \<Rightarrow>
          if cd_operation c = opid
          then rbind (ensure (cd_createdAt c \<le> scheduled) DependencyFailed) (\<lambda>_.
            Inr (db\<lparr>db_candidates := (db_candidates db)(k := Some (c\<lparr>cd_scheduledAt := scheduled\<rparr>))\<rparr>))
          else Inl StateConflict)"

definition delete_candidate :: "lifecycle_kind \<Rightarrow> string \<Rightarrow> journal_db \<Rightarrow> journal_db" where
  "delete_candidate k opid db =
     (case db_candidates db k of
        None \<Rightarrow> db
      | Some c \<Rightarrow>
          if cd_operation c = opid then db\<lparr>db_candidates := (db_candidates db)(k := None)\<rparr> else db)"

definition insert_journal :: "journal \<Rightarrow> journal_db \<Rightarrow> coord_error + bool \<times> journal_db" where
  "insert_journal r db =
     (if select_journal (j_operation r) db \<noteq> None then Inr (False, db)
      else if constraints_ok (db_journals db) r
      then Inr (True, db\<lparr>db_journals := db_journals db @ [r]\<rparr>)
      else Inl DependencyFailed)"

definition first_other :: "(journal \<Rightarrow> bool) \<Rightarrow> string \<Rightarrow> journal_db \<Rightarrow> bool" where
  "first_other P opid db =
     (case filter P (db_journals db) of [] \<Rightarrow> False | r # _ \<Rightarrow> j_operation r \<noteq> opid)"

definition put_journal ::
  "id_checks \<Rightarrow> journal_input \<Rightarrow> journal_db \<Rightarrow> coord_error + put_result \<times> journal_db" where
  "put_journal ids i db =
     rbind (canonical_journal ids i) (\<lambda>c.
     rbind (ensure (\<not> first_other open_journal (j_operation c) db) StateConflict) (\<lambda>_.
     rbind (ensure (\<not> first_other (same_identity c) (j_operation c) db) StateConflict) (\<lambda>_.
     rbind (insert_journal c db) (\<lambda>(inserted, db1).
     rbind (get_journal ids (j_operation c) db1) (\<lambda>stored.
     rbind (ensure (stored = Some c) StateConflict) (\<lambda>_.
     rbind (upsert_candidate (j_kind c) (j_operation c) (j_scheduledAt c) (j_createdAt c) db1) (\<lambda>db2.
       Inr (if inserted then Created else PutReplayed, db2))))))))"

definition coalesce :: "'a option \<Rightarrow> 'a option \<Rightarrow> 'a option" where
  "coalesce x y = (case x of None \<Rightarrow> y | Some v \<Rightarrow> Some v)"

text \<open>The condition and the assignments of the \<open>UPDATE\<close>.\<close>

definition advance_applies :: "advance_input \<Rightarrow> journal \<Rightarrow> bool" where
  "advance_applies a r \<longleftrightarrow> j_operation r = ai_operation a
     \<and> j_phase r = ai_expectedPhase a \<and> j_state r = ai_expectedState a
     \<and> (ai_checkpointSha a = None \<or> j_checkpointSha r = None \<or> j_checkpointSha r = ai_checkpointSha a)
     \<and> (ai_batchRevision a = None \<or> j_batchRevision r = None
        \<or> j_batchRevision r = ai_batchRevision a \<and> j_batchSha r = ai_batchSha a)
     \<and> (ai_resultSha a = None \<or> j_resultSha r = None \<or> j_resultSha r = ai_resultSha a)"

definition advance_row :: "advance_input \<Rightarrow> int \<Rightarrow> int \<Rightarrow> journal \<Rightarrow> journal" where
  "advance_row a scheduled updated r =
     r\<lparr>j_phase := ai_nextPhase a, j_recoveryFrom := ai_recoveryFrom a, j_state := ai_nextState a,
       j_checkpointSha := coalesce (j_checkpointSha r) (ai_checkpointSha a),
       j_batchRevision := coalesce (j_batchRevision r) (ai_batchRevision a),
       j_batchSha := coalesce (j_batchSha r) (ai_batchSha a),
       j_resultSha := coalesce (j_resultSha r) (ai_resultSha a),
       j_scheduledAt := scheduled, j_updatedAt := updated\<rparr>"

definition update_journal ::
  "advance_input \<Rightarrow> int \<Rightarrow> int \<Rightarrow> journal_db \<Rightarrow> coord_error + bool \<times> journal_db" where
  "update_journal a scheduled updated db =
     (case List.extract (advance_applies a) (db_journals db) of
        None \<Rightarrow> Inr (False, db)
      | Some (ys, r, zs) \<Rightarrow>
          let r' = advance_row a scheduled updated r
          in if constraints_ok (ys @ zs) r'
             then Inr (True, db\<lparr>db_journals := ys @ r' # zs\<rparr>)
             else Inl DependencyFailed)"

definition matches_next :: "advance_input \<Rightarrow> int \<Rightarrow> int \<Rightarrow> journal \<Rightarrow> bool" where
  "matches_next a scheduled updated r \<longleftrightarrow>
     j_phase r = ai_nextPhase a \<and> j_state r = ai_nextState a
     \<and> j_recoveryFrom r = ai_recoveryFrom a
     \<and> j_scheduledAt r = scheduled \<and> j_updatedAt r = updated
     \<and> (ai_checkpointSha a = None \<or> j_checkpointSha r = ai_checkpointSha a)
     \<and> (ai_batchRevision a = None \<or> j_batchRevision r = ai_batchRevision a)
     \<and> (ai_batchSha a = None \<or> j_batchSha r = ai_batchSha a)
     \<and> (ai_resultSha a = None \<or> j_resultSha r = ai_resultSha a)"

definition advance_journal ::
  "id_checks \<Rightarrow> advance_input \<Rightarrow> journal_db \<Rightarrow> coord_error + advance_result \<times> journal_db" where
  "advance_journal ids a db =
     rbind (validate_advance ids a) (\<lambda>(scheduled, updated).
     rbind (update_journal a scheduled updated db) (\<lambda>(changed, db1).
     rbind (get_journal ids (ai_operation a) db1) (\<lambda>stored.
       case stored of
         None \<Rightarrow> Inl StateConflict
       | Some r \<Rightarrow>
           rbind (ensure (matches_next a scheduled updated r) StateConflict) (\<lambda>_.
           rbind (if ai_nextState a = Active \<or> ai_nextState a = RecoveryRequired
                  then upsert_candidate (j_kind r) (j_operation r) scheduled (j_createdAt r) db1
                  else Inr (delete_candidate (j_kind r) (j_operation r) db1)) (\<lambda>db2.
             Inr (if changed then Advanced else AdvanceReplayed, db2))))))"

section \<open>Invariant\<close>

text \<open>
  The rows are well formed and identified by their operation; at most one is open; the
  idempotency identity is unique; and the recovery candidates of lifecycle kinds are exactly
  those of the open journal.
\<close>

definition candidate_of :: "journal \<Rightarrow> candidate" where
  "candidate_of r = \<lparr>cd_operation = j_operation r, cd_scheduledAt = j_scheduledAt r,
     cd_createdAt = j_createdAt r\<rparr>"

definition candidates_of :: "journal list \<Rightarrow> lifecycle_kind \<Rightarrow> candidate option" where
  "candidates_of rs k = map_option candidate_of (find (\<lambda>r. open_journal r \<and> j_kind r = k) rs)"

definition typed_row :: "id_checks \<Rightarrow> journal \<Rightarrow> bool" where
  "typed_row ids r \<longleftrightarrow> option_ok (ic_member ids) (j_actor r)
     \<and> option_ok positive_safe (j_batchRevision r) \<and> positive_safe (j_generation r)
     \<and> ic_opaque ids (j_operation r)"

definition journal_inv :: "id_checks \<Rightarrow> journal_db \<Rightarrow> bool" where
  "journal_inv ids db \<longleftrightarrow>
     distinct (map j_operation (db_journals db))
     \<and> (\<forall>r\<in>set (db_journals db). row_ok r \<and> typed_row ids r)
     \<and> length (filter open_journal (db_journals db)) \<le> 1
     \<and> pairwise (\<lambda>r r'. \<not> same_identity r r') (set (db_journals db))
     \<and> db_candidates db = candidates_of (db_journals db)"

lemma journal_invD:
  assumes "journal_inv ids db"
  shows "distinct (map j_operation (db_journals db))"
    and "r \<in> set (db_journals db) \<Longrightarrow> row_ok r" and "r \<in> set (db_journals db) \<Longrightarrow> typed_row ids r"
    and "length (filter open_journal (db_journals db)) \<le> 1"
    and "pairwise (\<lambda>r r'. \<not> same_identity r r') (set (db_journals db))"
    and "db_candidates db = candidates_of (db_journals db)"
  using assms unfolding journal_inv_def by blast+

lemma require_Inr [result_simps]: "require b = Inr u \<longleftrightarrow> b"
  by (simp add: require_def ensure_Inr)

lemma timestamp_Inr [result_simps]: "timestamp t = Inr n \<longleftrightarrow> t = Stamp n"
  by (simp add: timestamp_def split: stamp.split)

lemma decode_typed: "typed_row ids r \<Longrightarrow> row_ok r \<Longrightarrow> decode_journal ids r = Inr r"
  by (simp add: decode_journal_def typed_row_def row_ok_def)

lemma select_mem: "select_journal opid db = Some r \<Longrightarrow> r \<in> set (db_journals db) \<and> j_operation r = opid"
  by (auto simp: select_journal_def find_Some_iff)

lemma select_none: "select_journal opid db = None \<longleftrightarrow> opid \<notin> j_operation ` set (db_journals db)"
  by (auto simp: select_journal_def find_None_iff)

lemma find_distinct:
  "distinct (map f xs) \<Longrightarrow> x \<in> set xs \<Longrightarrow> find (\<lambda>y. f y = f x) xs = Some x"
  by (induction xs) auto

lemma select_row:
  "distinct (map j_operation (db_journals db)) \<Longrightarrow> r \<in> set (db_journals db) \<Longrightarrow>
   select_journal (j_operation r) db = Some r"
  by (simp add: select_journal_def find_distinct)

lemma get_journal_row:
  assumes "distinct (map j_operation (db_journals db))" and "r \<in> set (db_journals db)"
    and "typed_row ids r" and "row_ok r"
  shows "get_journal ids (j_operation r) db = Inr (Some r)"
  using assms by (simp add: get_journal_def select_row decode_typed require_def)
    (simp add: typed_row_def)

lemma get_journal_mem:
  "get_journal ids opid db = Inr (Some r) \<Longrightarrow> r \<in> set (db_journals db) \<and> j_operation r = opid"
  by (auto simp: get_journal_def decode_journal_def result_simps dest!: select_mem
      split: option.splits if_splits)

lemma candidates_none: "list_all (\<lambda>r. \<not> open_journal r) rs \<Longrightarrow> candidates_of rs k = None"
  by (induction rs) (auto simp: candidates_of_def)

lemma candidates_split:
  assumes "list_all (\<lambda>r. \<not> open_journal r) (ys @ zs)"
  shows "candidates_of (ys @ r # zs) k
    = (if open_journal r \<and> j_kind r = k then Some (candidate_of r) else None)"
  using assms candidates_none [of ys k] candidates_none [of zs k]
  by (induction ys) (auto simp: candidates_of_def)

lemma one_open:
  assumes "length (filter open_journal (ys @ r # zs)) \<le> 1" and "open_journal r"
  shows "list_all (\<lambda>r. \<not> open_journal r) (ys @ zs)"
  using assms by (auto simp: list_all_iff filter_empty_conv)

lemma candidates_skip:
  "\<not> open_journal r \<Longrightarrow> candidates_of (ys @ r # zs) = candidates_of (ys @ zs)"
  by (rule ext, induction ys) (auto simp: candidates_of_def)

lemma candidates_some:
  "candidates_of rs k = Some c \<Longrightarrow> \<exists>r\<in>set rs. open_journal r \<and> j_kind r = k \<and> c = candidate_of r"
  by (auto simp: candidates_of_def find_Some_iff)

lemma candidates_open:
  assumes "length (filter open_journal rs) \<le> 1" and "r \<in> set rs" and "open_journal r"
  shows "candidates_of rs (j_kind r) = Some (candidate_of r)"
proof -
  obtain ys zs where "rs = ys @ r # zs" using assms(2) by (meson split_list)
  then show ?thesis using candidates_split [of ys zs r "j_kind r"] one_open [of ys r zs] assms by simp
qed

text \<open>The row that a valid input describes.\<close>

lemma canonical_journal_ok:
  assumes "canonical_journal ids i = Inr c"
  shows "typed_row ids c" and "j_state c = Active" and "j_updatedAt c = j_createdAt c"
    and "j_recoveryFrom c = None" and "j_batchRevision c = None" and "j_batchSha c = None"
    and "j_checkpointSha c = None" and "j_resultSha c = None"
  using assms by (auto simp: canonical_journal_def result_simps typed_row_def option_ok_def)

lemma canonical_open: "canonical_journal ids i = Inr c \<Longrightarrow> open_journal c"
  by (simp add: open_journal_def canonical_journal_ok)

lemma upsert_same:
  assumes "db_candidates db k = Some c" and "cd_createdAt c \<le> cd_scheduledAt c"
  shows "upsert_candidate k (cd_operation c) (cd_scheduledAt c) created db = Inr db"
  using assms by (simp add: upsert_candidate_def fun_upd_idem)

lemma upsert_new:
  assumes "db_candidates db k = None" and "created \<le> scheduled"
  shows "upsert_candidate k opid scheduled created db
    = Inr (db\<lparr>db_candidates := (db_candidates db)(k := Some \<lparr>cd_operation = opid,
            cd_scheduledAt = scheduled, cd_createdAt = created\<rparr>)\<rparr>)"
  using assms by (simp add: upsert_candidate_def)

text \<open>The two ways in which a put succeeds.\<close>

lemma put_journal_cases:
  assumes inv: "journal_inv ids db" and p: "put_journal ids i db = Inr (res, db')"
  obtains (created) c where "canonical_journal ids i = Inr c" and "res = Created"
      and "select_journal (j_operation c) db = None" and "constraints_ok (db_journals db) c"
      and "db' = \<lparr>db_journals = db_journals db @ [c],
             db_candidates = (\<lambda>k. if k = j_kind c then Some (candidate_of c) else None)\<rparr>"
  | (replayed) c where "canonical_journal ids i = Inr c" and "res = PutReplayed"
      and "c \<in> set (db_journals db)" and "db' = db"
proof -
  note d = journal_invD [OF inv]
  obtain c ins db1 where c: "canonical_journal ids i = Inr c"
    and ins: "insert_journal c db = Inr (ins, db1)"
    and g: "get_journal ids (j_operation c) db1 = Inr (Some c)"
    and u: "upsert_candidate (j_kind c) (j_operation c) (j_scheduledAt c) (j_createdAt c) db1 = Inr db'"
    and res: "res = (if ins then Created else PutReplayed)"
    using p by (auto simp: put_journal_def result_simps)
  show ?thesis
  proof (cases "select_journal (j_operation c) db")
    case None
    then have ok: "constraints_ok (db_journals db) c" and i: "ins"
      and db1: "db1 = db\<lparr>db_journals := db_journals db @ [c]\<rparr>"
      using ins by (auto simp: insert_journal_def split: if_splits)
    have none: "list_all (\<lambda>r. \<not> open_journal r) (db_journals db)"
      using ok canonical_open [OF c] by (auto simp: constraints_ok_def list_ex_iff list_all_iff)
    then have cand: "db_candidates db = (\<lambda>_. None)"
      using d(6) candidates_none by auto
    have "j_createdAt c \<le> j_scheduledAt c" using ok by (simp add: constraints_ok_def row_ok_def)
    then have "db' = \<lparr>db_journals = db_journals db @ [c],
        db_candidates = (\<lambda>k. if k = j_kind c then Some (candidate_of c) else None)\<rparr>"
      using u cand db1 by (auto simp: upsert_new candidate_of_def intro!: journal_db.equality)
    then show ?thesis using created c res i None ok by simp
  next
    case (Some r)
    then have i: "\<not> ins" and db1: "db1 = db"
      using ins by (auto simp: insert_journal_def)
    have mem: "c \<in> set (db_journals db)" using get_journal_mem [OF g] db1 by simp
    have "db_candidates db (j_kind c) = Some (candidate_of c)"
      unfolding d(6) by (rule candidates_open [OF d(4) mem canonical_open [OF c]])
    moreover have "j_createdAt c \<le> j_scheduledAt c" using d(2) [OF mem] by (simp add: row_ok_def)
    ultimately have "db' = db"
      using u db1 upsert_same [of db "j_kind c" "candidate_of c"] by (simp add: candidate_of_def)
    then show ?thesis using replayed c res i mem by simp
  qed
qed

lemma same_identity_sym: "same_identity r r' \<longleftrightarrow> same_identity r' r"
  by (auto simp: same_identity_def)

lemma put_journal_inv:
  assumes inv: "journal_inv ids db" and p: "put_journal ids i db = Inr (res, db')"
  shows "journal_inv ids db'"
  using inv p
proof (cases rule: put_journal_cases)
  case (created c)
  note d = journal_invD [OF inv]
  have no: "list_all (\<lambda>r. \<not> open_journal r) (db_journals db)"
    using created canonical_open by (auto simp: constraints_ok_def list_ex_iff list_all_iff)
  then have "filter open_journal (db_journals db) = []" by (auto simp: filter_empty_conv list_all_iff)
  moreover have "candidates_of (db_journals db @ [c])
      = (\<lambda>k. if k = j_kind c then Some (candidate_of c) else None)"
    using candidates_split [of "db_journals db" "[]" c] no canonical_open [OF created(1)] by auto
  moreover have "pairwise (\<lambda>r r'. \<not> same_identity r r') (insert c (set (db_journals db)))"
    using d(5) created(4) by (auto simp: pairwise_insert constraints_ok_def list_ex_iff same_identity_sym)
  ultimately show ?thesis
    using d(1-3) created canonical_journal_ok(1) [OF created(1)] unfolding journal_inv_def
    by (auto simp: constraints_ok_def select_none)
qed (use inv in simp)

lemma validate_advance_ok:
  assumes "validate_advance ids a = Inr (sch, upd)"
  shows "ai_scheduledAt a = Stamp sch" and "ai_updatedAt a = Stamp upd"
    and "(ai_nextState a = RecoveryRequired) = (ai_recoveryFrom a \<noteq> None)"
    and "(ai_batchRevision a = None) = (ai_batchSha a = None)"
    and "option_ok positive_safe (ai_batchRevision a)" and "ic_opaque ids (ai_operation a)"
  using assms by (auto simp: validate_advance_def result_simps)

lemma coalesce_None [simp]: "coalesce None y = y"
  and coalesce_Some [simp]: "coalesce (Some v) y = Some v"
  by (simp_all add: coalesce_def)

lemma advance_row_typed:
  assumes "validate_advance ids a = Inr (sch, upd)" and "typed_row ids r"
  shows "typed_row ids (advance_row a sch upd r)"
  using assms validate_advance_ok(5) [OF assms(1)]
  by (cases "j_batchRevision r") (auto simp: advance_row_def typed_row_def)

lemma advance_row_matches:
  assumes "advance_applies a r" and "row_ok r" and "validate_advance ids a = Inr (sch, upd)"
  shows "matches_next a sch upd (advance_row a sch upd r)"
  using assms(1,2) validate_advance_ok(4) [OF assms(3)]
  by (cases "j_checkpointSha r"; cases "j_batchRevision r"; cases "j_resultSha r")
    (auto simp: matches_next_def advance_row_def advance_applies_def row_ok_def)

lemma advance_row_fields [simp]:
  "j_operation (advance_row a sch upd r) = j_operation r"
  "j_kind (advance_row a sch upd r) = j_kind r"
  "j_createdAt (advance_row a sch upd r) = j_createdAt r"
  "j_state (advance_row a sch upd r) = ai_nextState a"
  "j_phase (advance_row a sch upd r) = ai_nextPhase a"
  "j_scheduledAt (advance_row a sch upd r) = sch"
  "same_identity (advance_row a sch upd r) x = same_identity r x"
  by (simp_all add: advance_row_def same_identity_def)

lemma mem_by_operation:
  "distinct (map j_operation rs) \<Longrightarrow> r \<in> set rs \<Longrightarrow> r' \<in> set rs \<Longrightarrow> j_operation r = j_operation r'
   \<Longrightarrow> r = r'"
  by (metis (no_types, lifting) distinct_map inj_on_def)

text \<open>The two ways in which an advance succeeds.\<close>

lemma advance_journal_cases:
  assumes inv: "journal_inv ids db" and p: "advance_journal ids a db = Inr (res, db')"
  obtains (advanced) sch upd ys r zs where "validate_advance ids a = Inr (sch, upd)"
      and "res = Advanced" and "db_journals db = ys @ r # zs" and "advance_applies a r"
      and "constraints_ok (ys @ zs) (advance_row a sch upd r)"
      and "db' = \<lparr>db_journals = ys @ advance_row a sch upd r # zs,
             db_candidates = candidates_of (ys @ advance_row a sch upd r # zs)\<rparr>"
  | (replayed) sch upd r where "validate_advance ids a = Inr (sch, upd)" and "res = AdvanceReplayed"
      and "r \<in> set (db_journals db)" and "j_operation r = ai_operation a"
      and "matches_next a sch upd r" and "db' = db"
proof -
  note d = journal_invD [OF inv]
  obtain sch upd ch db1 r' where v: "validate_advance ids a = Inr (sch, upd)"
    and up: "update_journal a sch upd db = Inr (ch, db1)"
    and g: "get_journal ids (ai_operation a) db1 = Inr (Some r')" and m: "matches_next a sch upd r'"
    and u: "(if ai_nextState a = Active \<or> ai_nextState a = RecoveryRequired
              then upsert_candidate (j_kind r') (j_operation r') sch (j_createdAt r') db1
              else Inr (delete_candidate (j_kind r') (j_operation r') db1)) = Inr db'"
    and res: "res = (if ch then Advanced else AdvanceReplayed)"
    using p by (auto simp: advance_journal_def result_simps ensure_Inr split: option.splits)
  have st: "open_journal r' \<longleftrightarrow> ai_nextState a = Active \<or> ai_nextState a = RecoveryRequired"
    and sched: "j_scheduledAt r' = sch"
    using m by (auto simp: matches_next_def open_journal_def)
  have ups: "open_journal r' \<Longrightarrow>
      upsert_candidate (j_kind r') (j_operation r') sch (j_createdAt r') db1 = Inr db'"
    and dels: "\<not> open_journal r' \<Longrightarrow> db' = delete_candidate (j_kind r') (j_operation r') db1"
    using u st by (auto split: if_splits)
  note mem' = get_journal_mem [OF g]
  show ?thesis
  proof (cases "List.extract (advance_applies a) (db_journals db)")
    case None
    then have db1: "db1 = db" and nc: "\<not> ch" using up by (auto simp: update_journal_def)
    have mem: "r' \<in> set (db_journals db)" using mem' db1 by simp
    have "db' = db"
    proof (cases "open_journal r'")
      case True
      have "db_candidates db (j_kind r') = Some (candidate_of r')"
        unfolding d(6) by (rule candidates_open [OF d(4) mem True])
      moreover have "j_createdAt r' \<le> j_scheduledAt r'" using d(2) [OF mem] by (simp add: row_ok_def)
      ultimately show ?thesis
        using ups True sched db1 upsert_same [of db "j_kind r'" "candidate_of r'" "j_createdAt r'"]
        by (simp add: candidate_of_def)
    next
      case False
      have "cd_operation c \<noteq> j_operation r'" if c: "db_candidates db (j_kind r') = Some c" for c
      proof
        assume op: "cd_operation c = j_operation r'"
        obtain q where q: "q \<in> set (db_journals db)" "open_journal q" "c = candidate_of q"
          using candidates_some [OF c [unfolded d(6)]] by blast
        have "q = r'" using mem_by_operation [OF d(1) q(1) mem] q(3) op by (simp add: candidate_of_def)
        then show False using q(2) False by simp
      qed
      then show ?thesis
        using dels False db1 by (auto simp: delete_candidate_def split: option.splits)
    qed
    then show ?thesis using replayed v res nc mem mem' m by simp
  next
    case (Some t)
    obtain ys r zs where t: "t = (ys, r, zs)" by (cases t)
    note ex = extract_Some [OF Some [unfolded t]]
    let ?r = "advance_row a sch upd r"
    have ok: "constraints_ok (ys @ zs) ?r" and ch: ch
      and db1: "db1 = db\<lparr>db_journals := ys @ ?r # zs\<rparr>"
      using up Some t by (auto simp: update_journal_def Let_def split: if_splits)
    have dist: "distinct (map j_operation (ys @ ?r # zs))" using d(1) ex by simp
    have "j_operation r' = j_operation ?r" using mem' ex by (simp add: advance_applies_def)
    then have r': "r' = ?r" using mem_by_operation [OF dist, of r' ?r] mem' db1 by simp
    have created: "j_createdAt ?r \<le> sch" using ok by (simp add: constraints_ok_def row_ok_def advance_row_def)
    have "db_candidates db' = candidates_of (ys @ ?r # zs) \<and> db_journals db' = ys @ ?r # zs"
    proof (cases "open_journal ?r")
      case True
      then have no: "list_all (\<lambda>r. \<not> open_journal r) (ys @ zs)"
        using ok by (simp add: constraints_ok_def list_ex_iff list_all_iff)
      have new: "candidates_of (ys @ ?r # zs)
          = (\<lambda>k. if j_kind r = k then Some (candidate_of ?r) else None)"
        using candidates_split [OF no, of ?r] True by auto
      have old: "db_candidates db = (\<lambda>k. if open_journal r \<and> j_kind r = k then Some (candidate_of r) else None)"
        unfolding d(6) using candidates_split [OF no, of r] ex by auto
      have "upsert_candidate (j_kind r) (j_operation r) sch (j_createdAt r) db1 = Inr db'"
        using ups True unfolding r' by simp
      then show ?thesis
        using created old new db1
        by (auto simp: upsert_candidate_def candidate_of_def ensure_def split: option.splits if_splits)
    next
      case False
      then have new: "candidates_of (ys @ ?r # zs) = candidates_of (ys @ zs)" by (rule candidates_skip)
      have del: "db' = delete_candidate (j_kind r) (j_operation r) db1"
        using dels False unfolding r' by simp
      show ?thesis
      proof (cases "open_journal r")
        case open_r: True
        have no: "list_all (\<lambda>r. \<not> open_journal r) (ys @ zs)"
          using one_open [of ys r zs] open_r d(4) ex by simp
        have "db_candidates db = (\<lambda>k. if j_kind r = k then Some (candidate_of r) else None)"
          unfolding d(6) using candidates_split [OF no, of r] ex open_r by auto
        moreover have "candidates_of (ys @ zs) = (\<lambda>_. None)" using candidates_none [OF no] by auto
        ultimately show ?thesis
          using del db1 new by (auto simp: delete_candidate_def candidate_of_def)
      next
        case closed_r: False
        have same: "db_candidates db = candidates_of (ys @ zs)"
          unfolding d(6) using candidates_skip [OF closed_r] ex by simp
        have "cd_operation c \<noteq> j_operation r" if c: "candidates_of (ys @ zs) k = Some c" for c k
        proof -
          obtain q where "q \<in> set (ys @ zs)" "c = candidate_of q" using candidates_some [OF c] by blast
          moreover have "j_operation r \<notin> j_operation ` set (ys @ zs)" using dist by auto
          ultimately show ?thesis by (metis candidate.select_convs(1) candidate_of_def image_eqI)
        qed
        then show ?thesis
          using del db1 new same by (auto simp: delete_candidate_def split: option.splits)
      qed
    qed
    then show ?thesis using advanced v res ch ex ok by simp
  qed
qed

lemma advance_journal_inv:
  assumes inv: "journal_inv ids db" and p: "advance_journal ids a db = Inr (res, db')"
  shows "journal_inv ids db'"
  using inv p
proof (cases rule: advance_journal_cases)
  case (advanced sch upd ys r zs)
  note d = journal_invD [OF inv]
  let ?r = "advance_row a sch upd r"
  have mem: "r \<in> set (db_journals db)" using advanced by simp
  have ok: "row_ok ?r" using advanced by (simp add: constraints_ok_def)
  have "length (filter open_journal (ys @ zs)) \<le> 1"
    using d(4) advanced(3) by (auto split: if_splits)
  moreover have "open_journal ?r \<Longrightarrow> filter open_journal (ys @ zs) = []"
    using advanced(5) by (auto simp: constraints_ok_def list_ex_iff filter_empty_conv)
  ultimately have one: "length (filter open_journal (ys @ ?r # zs)) \<le> 1"
    by (cases "open_journal ?r") auto
  have "pairwise (\<lambda>r r'. \<not> same_identity r r') (insert ?r (set (ys @ zs)))"
    using d(5) advanced(3,5)
    by (auto simp: pairwise_insert constraints_ok_def list_ex_iff same_identity_sym [of _ ?r]
        intro: pairwise_subset)
  then show ?thesis
    unfolding journal_inv_def
    using advanced d(1-3) one ok advance_row_typed [OF advanced(1) d(3) [OF mem]]
    by (auto simp: insert_commute)
qed (use inv in simp)

section \<open>Commands\<close>

datatype journal_command = PutJournal journal_input | AdvanceJournal advance_input

text \<open>A command that fails rolls its transaction back.\<close>

fun journal_step :: "id_checks \<Rightarrow> journal_db \<Rightarrow> journal_command \<Rightarrow> journal_db" where
  "journal_step ids db (PutJournal i) =
     (case put_journal ids i db of Inl e \<Rightarrow> db | Inr (res, db') \<Rightarrow> db')"
| "journal_step ids db (AdvanceJournal a) =
     (case advance_journal ids a db of Inl e \<Rightarrow> db | Inr (res, db') \<Rightarrow> db')"

definition empty_journals :: journal_db where
  "empty_journals = \<lparr>db_journals = [], db_candidates = (\<lambda>_. None)\<rparr>"

lemma empty_journals_inv: "journal_inv ids empty_journals"
  by (simp add: journal_inv_def empty_journals_def candidates_of_def pairwise_def fun_eq_iff)

lemma journal_step_inv: "journal_inv ids db \<Longrightarrow> journal_inv ids (journal_step ids db c)"
proof (cases c)
  case (PutJournal i)
  assume inv: "journal_inv ids db"
  show ?thesis
  proof (cases "put_journal ids i db")
    case (Inr x)
    then show ?thesis using PutJournal put_journal_inv [OF inv] by (cases x) simp
  qed (use inv PutJournal in simp)
next
  case (AdvanceJournal a)
  assume inv: "journal_inv ids db"
  show ?thesis
  proof (cases "advance_journal ids a db")
    case (Inr x)
    then show ?thesis using AdvanceJournal advance_journal_inv [OF inv] by (cases x) simp
  qed (use inv AdvanceJournal in simp)
qed

interpretation journals: machine empty_journals "journal_step ids" "journal_inv ids"
  for ids :: id_checks
  by unfold_locales (auto simp: empty_journals_inv journal_step_inv)

lemmas journals_reachable = journals.inv_run

section \<open>Properties\<close>

definition demo_ids :: id_checks where
  "demo_ids = \<lparr>ic_opaque = (\<lambda>s. s \<noteq> []), ic_member = (\<lambda>s. s \<noteq> []), ic_oid = (\<lambda>s. s \<noteq> [])\<rparr>"

definition demo_journal :: "string \<Rightarrow> string \<Rightarrow> journal_input" where
  "demo_journal opid key = \<lparr>ji_actor = Some ''m'', ji_createdAt = Stamp 10, ji_direction = None,
     ji_generation = 1, ji_personalRef = None, ji_idempotencyKey = key, ji_kind = Backup,
     ji_operation = opid, ji_phase = ''prepared'', ji_fingerprint = replicate 64 CHR ''0'',
     ji_scheduledAt = Stamp 10\<rparr>"

definition demo_advance :: "string \<Rightarrow> advance_input" where
  "demo_advance opid = \<lparr>ai_batchRevision = None, ai_batchSha = None,
     ai_checkpointSha = Some (replicate 64 CHR ''a''), ai_expectedPhase = ''prepared'',
     ai_expectedState = Active, ai_nextPhase = ''captured'', ai_nextState = Active,
     ai_operation = opid, ai_recoveryFrom = None, ai_resultSha = None,
     ai_scheduledAt = Stamp 10, ai_updatedAt = Stamp 12\<rparr>"

definition demo_commands :: "journal_command list" where
  "demo_commands = [PutJournal (demo_journal ''o1'' ''k1''), PutJournal (demo_journal ''o2'' ''k2'')]"

definition demo_db :: journal_db where
  "demo_db = run (journal_step demo_ids) empty_journals demo_commands"

lemma demo_db_facts:
  "map j_operation (db_journals demo_db) = [''o1'']" "map j_phase (db_journals demo_db) = [''prepared'']"
  "map j_state (db_journals demo_db) = [Active]" "map j_kind (db_journals demo_db) = [Backup]"
  by code_simp+

text \<open>C20. After any sequence of puts and advances, failed ones included, a Project has at most one
  journal that is active or needs recovery, no two journals with the same actor, kind and
  idempotency key, and its lifecycle recovery candidates are exactly that open journal with its
  present schedule: recovery neither misses an open operation nor chases a finished one.\<close>

theorem journal_one_open_and_candidate:
  assumes "db = run (journal_step ids) empty_journals cs"
  shows "length (filter open_journal (db_journals db)) \<le> 1
    \<and> distinct (map j_operation (db_journals db))
    \<and> pairwise (\<lambda>r r'. \<not> same_identity r r') (set (db_journals db))
    \<and> (db_candidates db k = Some c \<longleftrightarrow>
        (\<exists>r\<in>set (db_journals db). open_journal r \<and> j_kind r = k \<and> c = candidate_of r))"
proof -
  have "journal_inv ids db" unfolding assms by (rule journals_reachable)
  note d = journal_invD [OF this]
  have "db_candidates db k = Some c \<longleftrightarrow>
      (\<exists>r\<in>set (db_journals db). open_journal r \<and> j_kind r = k \<and> c = candidate_of r)"
    unfolding d(6) using candidates_some [of "db_journals db" k c] candidates_open [OF d(4)] by auto
  then show ?thesis using d(1,4,5) by blast
qed

theorem journal_one_open_and_candidate_witness:
  "db_candidates demo_db Backup \<noteq> None \<and> db_candidates demo_db Export = None"
proof -
  obtain r where r: "db_journals demo_db = [r]" "j_kind r = Backup" "j_state r = Active"
    using demo_db_facts by (cases "db_journals demo_db") auto
  then have "db_candidates demo_db Backup = Some (candidate_of r)"
    using journal_one_open_and_candidate [OF demo_db_def, of Backup "candidate_of r"]
    by (simp add: open_journal_def)
  moreover have "db_candidates demo_db Export = None"
    using journal_one_open_and_candidate [OF demo_db_def, of Export] r
    by (cases "db_candidates demo_db Export") auto
  ultimately show ?thesis by simp
qed

text \<open>While a journal is open, a put of any other operation is refused as a conflict, so the
  lifecycle operations of a Project exclude each other.\<close>

theorem journal_put_excluded:
  assumes db: "db = run (journal_step ids) empty_journals cs"
    and r: "r \<in> set (db_journals db)" "open_journal r"
    and c: "canonical_journal ids i = Inr c" and other: "j_operation c \<noteq> j_operation r"
  shows "put_journal ids i db = Inl StateConflict"
proof -
  have "journal_inv ids db" unfolding db by (rule journals_reachable)
  then have "length (filter open_journal (db_journals db)) \<le> 1" by (rule journal_invD)
  moreover have "r \<in> set (filter open_journal (db_journals db))" using r by simp
  ultimately have "filter open_journal (db_journals db) = [r]"
    using filter_unique r by metis
  then show ?thesis using c other by (auto simp: put_journal_def first_other_def ensure_def)
qed

theorem journal_put_excluded_witness:
  "put_journal demo_ids (demo_journal ''o3'' ''k3'') demo_db = Inl StateConflict"
proof -
  obtain r where r: "db_journals demo_db = [r]" "j_operation r = ''o1''" "j_state r = Active"
    using demo_db_facts by (cases "db_journals demo_db") auto
  moreover have "isl (canonical_journal demo_ids (demo_journal ''o3'' ''k3'')) = False"
    and "map_sum id j_operation (canonical_journal demo_ids (demo_journal ''o3'' ''k3'')) = Inr ''o3''"
    by code_simp+
  then obtain c where "canonical_journal demo_ids (demo_journal ''o3'' ''k3'') = Inr c" "j_operation c = ''o3''"
    by (cases "canonical_journal demo_ids (demo_journal ''o3'' ''k3'')") auto
  ultimately show ?thesis
    using journal_put_excluded [OF demo_db_def, of r "demo_journal ''o3'' ''k3''" c]
    by (simp add: open_journal_def)
qed

text \<open>A put can be retried: whatever succeeded once is answered \<open>replayed\<close> the next time and
  changes nothing.\<close>

theorem journal_put_idempotent:
  assumes db: "db = run (journal_step ids) empty_journals cs"
    and p: "put_journal ids i db = Inr (res, db')"
  shows "put_journal ids i db' = Inr (PutReplayed, db')"
proof -
  have inv: "journal_inv ids db" unfolding db by (rule journals_reachable)
  then have inv': "journal_inv ids db'" using p by (rule put_journal_inv)
  note d' = journal_invD [OF inv']
  obtain c where c: "canonical_journal ids i = Inr c" and mem: "c \<in> set (db_journals db')"
    using inv p by (cases rule: put_journal_cases) auto
  have op: "open_journal c" by (rule canonical_open [OF c])
  have "filter open_journal (db_journals db') = [c]" by (rule filter_unique [OF d'(4) mem op])
  moreover have "r = c" if "r \<in> set (filter (same_identity c) (db_journals db'))" for r
    using d'(5) mem that by (auto simp: pairwise_def)
  then have "filter (same_identity c) (db_journals db') = [] \<or>
      (\<exists>rs. filter (same_identity c) (db_journals db') = c # rs)"
    by (cases "filter (same_identity c) (db_journals db')") simp_all
  ultimately have first: "\<not> first_other open_journal (j_operation c) db'"
    "\<not> first_other (same_identity c) (j_operation c) db'"
    by (auto simp: first_other_def)
  have "get_journal ids (j_operation c) db' = Inr (Some c)"
    using get_journal_row [OF d'(1) mem d'(3) [OF mem] d'(2) [OF mem]] .
  moreover have "insert_journal c db' = Inr (False, db')"
    using select_row [OF d'(1) mem] by (simp add: insert_journal_def)
  moreover have "upsert_candidate (j_kind c) (j_operation c) (j_scheduledAt c) (j_createdAt c) db' = Inr db'"
    using upsert_same [of db' "j_kind c" "candidate_of c"] candidates_open [OF d'(4) mem op] d'(6) d'(2) [OF mem]
    by (simp add: candidate_of_def row_ok_def)
  ultimately show ?thesis using c first by (simp add: put_journal_def ensure_def)
qed

theorem journal_put_idempotent_witness:
  "\<exists>db'. put_journal demo_ids (demo_journal ''o1'' ''k1'') empty_journals = Inr (Created, db')
     \<and> put_journal demo_ids (demo_journal ''o1'' ''k1'') db' = Inr (PutReplayed, db')"
proof -
  have "map_sum id fst (put_journal demo_ids (demo_journal ''o1'' ''k1'') empty_journals) = Inr Created"
    by code_simp
  then obtain db' where "put_journal demo_ids (demo_journal ''o1'' ''k1'') empty_journals = Inr (Created, db')"
    by (cases "put_journal demo_ids (demo_journal ''o1'' ''k1'') empty_journals") auto
  then show ?thesis
    using journal_put_idempotent [of empty_journals demo_ids "[]"] by auto
qed

text \<open>What no later command changes: the identity of a journal and the results it has recorded.\<close>

definition keeps :: "'a option \<Rightarrow> 'a option \<Rightarrow> bool" where
  "keeps x y \<longleftrightarrow> x = None \<or> y = x"

definition evolves :: "journal \<Rightarrow> journal \<Rightarrow> bool" where
  "evolves r r' \<longleftrightarrow> same_identity r r' \<and> j_operation r' = j_operation r
     \<and> j_fingerprint r' = j_fingerprint r \<and> j_generation r' = j_generation r
     \<and> j_direction r' = j_direction r \<and> j_createdAt r' = j_createdAt r
     \<and> j_personalRef r' = j_personalRef r
     \<and> keeps (j_checkpointSha r) (j_checkpointSha r') \<and> keeps (j_batchRevision r) (j_batchRevision r')
     \<and> keeps (j_batchSha r) (j_batchSha r') \<and> keeps (j_resultSha r) (j_resultSha r')"

lemma keeps_coalesce [simp]: "keeps x (coalesce x y)"
  by (cases x) (simp_all add: keeps_def)

lemma keeps_trans: "keeps x y \<Longrightarrow> keeps y z \<Longrightarrow> keeps x z"
  by (auto simp: keeps_def)

lemma evolves_refl [simp]: "evolves r r"
  by (simp add: evolves_def keeps_def same_identity_def)

lemma evolves_trans: "evolves r s \<Longrightarrow> evolves s t \<Longrightarrow> evolves r t"
  unfolding evolves_def same_identity_def
  by (elim conjE, intro conjI; (rule trans, assumption, assumption | rule keeps_trans, assumption, assumption))

lemma evolves_advance: "evolves r (advance_row a sch upd r)"
  by (simp add: evolves_def advance_row_def same_identity_def)

lemma journal_step_evolves:
  assumes inv: "journal_inv ids db" and r: "r \<in> set (db_journals db)"
  shows "\<exists>r'\<in>set (db_journals (journal_step ids db c)). evolves r r'"
proof (cases c)
  case (PutJournal i)
  show ?thesis
  proof (cases "put_journal ids i db")
    case (Inr x)
    obtain res db' where x: "x = (res, db')" by (cases x)
    from inv Inr [unfolded x] have "set (db_journals db) \<subseteq> set (db_journals db')"
      by (cases rule: put_journal_cases) auto
    then have "r \<in> set (db_journals (journal_step ids db c))" using r PutJournal Inr x by auto
    then show ?thesis by (rule bexI [rotated]) simp
  qed (use r PutJournal in \<open>auto intro!: bexI [of _ r]\<close>)
next
  case (AdvanceJournal a)
  show ?thesis
  proof (cases "advance_journal ids a db")
    case (Inr x)
    obtain res db' where x: "x = (res, db')" by (cases x)
    from inv Inr [unfolded x] have "\<exists>r'\<in>set (db_journals db'). evolves r r'"
    proof (cases rule: advance_journal_cases)
      case (advanced sch upd ys q zs)
      then show ?thesis using r evolves_advance [of q a sch upd]
        by (cases "r = q") (auto intro: bexI [of _ r])
    qed (use r in \<open>auto intro!: bexI [of _ r]\<close>)
    then show ?thesis using AdvanceJournal Inr x by simp
  qed (use r AdvanceJournal in \<open>auto intro!: bexI [of _ r]\<close>)
qed

lemma journal_run_evolves:
  "journal_inv ids db \<Longrightarrow> r \<in> set (db_journals db) \<Longrightarrow>
   \<exists>r'\<in>set (db_journals (run (journal_step ids) db cs)). evolves r r'"
proof (induction cs arbitrary: db r)
  case (Cons c cs)
  obtain r1 where r1: "r1 \<in> set (db_journals (journal_step ids db c))" "evolves r r1"
    using journal_step_evolves [OF Cons.prems] by blast
  then show ?case
    using Cons.IH [OF journal_step_inv [OF Cons.prems(1)] r1(1)] evolves_trans [OF r1(2)] by auto
qed (auto intro!: bexI)

text \<open>C21. A journal is never lost and never rewritten: whatever commands follow, a journal of the
  same operation is still there with the same actor, kind, direction, idempotency key, request
  fingerprint, generation and creation time, and a checkpoint digest, batch or result once
  recorded keeps its value.\<close>

theorem journal_write_once:
  assumes db: "db = run (journal_step ids) empty_journals cs"
    and r: "r \<in> set (db_journals db)"
  shows "\<exists>r'\<in>set (db_journals (run (journal_step ids) db ds)).
    j_operation r' = j_operation r \<and> same_identity r r'
    \<and> j_fingerprint r' = j_fingerprint r \<and> j_generation r' = j_generation r
    \<and> j_direction r' = j_direction r \<and> j_createdAt r' = j_createdAt r
    \<and> (j_checkpointSha r = None \<or> j_checkpointSha r' = j_checkpointSha r)
    \<and> (j_batchRevision r = None \<or> j_batchRevision r' = j_batchRevision r)
    \<and> (j_batchSha r = None \<or> j_batchSha r' = j_batchSha r)
    \<and> (j_resultSha r = None \<or> j_resultSha r' = j_resultSha r)"
proof -
  have "journal_inv ids db" unfolding db by (rule journals_reachable)
  from journal_run_evolves [OF this r, of ds] show ?thesis
    by (auto simp: evolves_def keeps_def)
qed

definition captured_db :: journal_db where
  "captured_db = run (journal_step demo_ids) empty_journals
     (demo_commands @ [AdvanceJournal (demo_advance ''o1'')])"

lemma captured_facts:
  "map j_operation (db_journals captured_db) = [''o1'']"
  "map j_phase (db_journals captured_db) = [''captured'']"
  "map j_checkpointSha (db_journals captured_db) = [Some (replicate 64 CHR ''a'')]"
  by code_simp+

theorem journal_write_once_witness:
  "\<exists>r'\<in>set (db_journals (run (journal_step demo_ids) captured_db
      [AdvanceJournal ((demo_advance ''o1'')\<lparr>ai_expectedPhase := ''captured'',
         ai_checkpointSha := Some (replicate 64 CHR ''b'')\<rparr>)])).
    j_checkpointSha r' = Some (replicate 64 CHR ''a'')"
proof -
  obtain r where r: "db_journals captured_db = [r]" "j_checkpointSha r = Some (replicate 64 CHR ''a'')"
    using captured_facts by (cases "db_journals captured_db") auto
  then show ?thesis
    using journal_write_once [OF captured_db_def, of r] by fastforce
qed

text \<open>An advance is a compare-and-set with safe retries: it reports \<open>advanced\<close> only when the
  journal was in the expected phase and state, it changes that journal alone, it leaves it in the
  next phase and state with the new schedule, and repeating the call that succeeded succeeds
  again and changes nothing more.\<close>

theorem journal_advance_cas:
  assumes db: "db = run (journal_step ids) empty_journals cs"
    and p: "advance_journal ids a db = Inr (res, db')"
  shows "(\<exists>ys r zs r'. db_journals db = ys @ r # zs \<and> db_journals db' = ys @ r' # zs
      \<and> j_operation r = ai_operation a \<and> j_operation r' = ai_operation a
      \<and> j_phase r' = ai_nextPhase a \<and> j_state r' = ai_nextState a
      \<and> Stamp (j_scheduledAt r') = ai_scheduledAt a \<and> Stamp (j_updatedAt r') = ai_updatedAt a
      \<and> (res = Advanced \<longrightarrow> j_phase r = ai_expectedPhase a \<and> j_state r = ai_expectedState a)
      \<and> (res = AdvanceReplayed \<longrightarrow> db' = db))
    \<and> (\<exists>res'. advance_journal ids a db' = Inr (res', db'))"
proof -
  have inv: "journal_inv ids db" unfolding db by (rule journals_reachable)
  have inv': "journal_inv ids db'" by (rule advance_journal_inv [OF inv p])
  note d' = journal_invD [OF inv']
  have "\<exists>sch upd r. validate_advance ids a = Inr (sch, upd) \<and> r \<in> set (db_journals db')
      \<and> j_operation r = ai_operation a \<and> matches_next a sch upd r"
    using inv p
  proof (cases rule: advance_journal_cases)
    case (advanced sch upd ys r zs)
    have "row_ok r" using journal_invD(2) [OF inv, of r] advanced(3) by simp
    then have "matches_next a sch upd (advance_row a sch upd r)"
      by (rule advance_row_matches [OF advanced(4) _ advanced(1)])
    then show ?thesis using advanced by (auto simp: advance_applies_def)
  qed auto
  then obtain sch upd r where v: "validate_advance ids a = Inr (sch, upd)" and r: "r \<in> set (db_journals db')"
    and op: "j_operation r = ai_operation a" and m: "matches_next a sch upd r" by blast
  have "\<exists>res'. advance_journal ids a db' = Inr (res', db')"
  proof -
    have row: "advance_row a sch upd r = r" if "advance_applies a r"
      using m that by (cases r) (auto simp: matches_next_def advance_row_def coalesce_def split: option.splits)
    have same: "\<exists>ch. update_journal a sch upd db' = Inr (ch, db')"
    proof (cases "List.extract (advance_applies a) (db_journals db')")
      case None
      then show ?thesis by (intro exI [of _ False]) (simp add: update_journal_def)
    next
      case (Some t)
      obtain ys q zs where t: "t = (ys, q, zs)" by (cases t)
      note ex = extract_Some [OF Some [unfolded t]]
      have "q = r" using mem_by_operation [OF d'(1), of q r] ex r op by (simp add: advance_applies_def)
      then have q: "advance_row a sch upd q = q" using row ex by simp
      have "constraints_ok (ys @ zs) q"
        using d'(2) [of q] d'(4,5,1) ex
        by (auto simp: constraints_ok_def list_ex_iff pairwise_def filter_empty_conv split: if_splits)
      then show ?thesis using Some t q ex by (intro exI [of _ True]) (simp add: update_journal_def Let_def)
    qed
    then obtain ch where up: "update_journal a sch upd db' = Inr (ch, db')" by blast
    have g: "get_journal ids (ai_operation a) db' = Inr (Some r)"
      using get_journal_row [OF d'(1) r d'(3) [OF r] d'(2) [OF r]] op by simp
    have st: "open_journal r \<longleftrightarrow> ai_nextState a = Active \<or> ai_nextState a = RecoveryRequired"
      and sch: "j_scheduledAt r = sch"
      using m by (auto simp: matches_next_def open_journal_def)
    have "upsert_candidate (j_kind r) (j_operation r) sch (j_createdAt r) db' = Inr db'" if "open_journal r"
      using upsert_same [of db' "j_kind r" "candidate_of r"] candidates_open [OF d'(4) r that] d'(6) d'(2) [OF r] sch
      by (simp add: candidate_of_def row_ok_def)
    moreover have "delete_candidate (j_kind r) (j_operation r) db' = db'" if closed: "\<not> open_journal r"
    proof (cases "db_candidates db' (j_kind r)")
      case (Some c)
      then obtain q where q: "q \<in> set (db_journals db')" "open_journal q" "c = candidate_of q"
        using candidates_some d'(6) by metis
      then have "q \<noteq> r" using closed by blast
      then have "j_operation q \<noteq> j_operation r" using mem_by_operation [OF d'(1) q(1) r] by blast
      then show ?thesis using Some q(3) by (simp add: delete_candidate_def candidate_of_def)
    qed (simp add: delete_candidate_def)
    ultimately show ?thesis
      using v up g m st by (cases "open_journal r") (auto simp: advance_journal_def ensure_def)
  qed
  moreover have "\<exists>ys r zs r'. db_journals db = ys @ r # zs \<and> db_journals db' = ys @ r' # zs
      \<and> j_operation r = ai_operation a \<and> j_operation r' = ai_operation a
      \<and> j_phase r' = ai_nextPhase a \<and> j_state r' = ai_nextState a
      \<and> Stamp (j_scheduledAt r') = ai_scheduledAt a \<and> Stamp (j_updatedAt r') = ai_updatedAt a
      \<and> (res = Advanced \<longrightarrow> j_phase r = ai_expectedPhase a \<and> j_state r = ai_expectedState a)
      \<and> (res = AdvanceReplayed \<longrightarrow> db' = db)"
    using inv p
  proof (cases rule: advance_journal_cases)
    case (advanced sch upd ys r zs)
    have "j_updatedAt (advance_row a sch upd r) = upd" by (simp add: advance_row_def)
    then show ?thesis
      using advanced(2,3,4,6) validate_advance_ok(1,2) [OF advanced(1)]
      by (intro exI [of _ ys] exI [of _ r] exI [of _ zs] exI [of _ "advance_row a sch upd r"])
        (simp add: advance_applies_def)
  next
    case (replayed sch upd r)
    obtain ys zs where "db_journals db = ys @ r # zs" using replayed(3) by (meson split_list)
    then show ?thesis
      using replayed validate_advance_ok(1,2) [OF replayed(1)]
      by (intro exI [of _ ys] exI [of _ r] exI [of _ zs] exI [of _ r]) (auto simp: matches_next_def)
  qed
  ultimately show ?thesis by blast
qed

theorem journal_advance_cas_witness:
  "\<exists>db' res'. advance_journal demo_ids (demo_advance ''o1'') demo_db = Inr (Advanced, db')
     \<and> advance_journal demo_ids (demo_advance ''o1'') db' = Inr (res', db')"
proof -
  have "map_sum id fst (advance_journal demo_ids (demo_advance ''o1'') demo_db) = Inr Advanced"
    by code_simp
  then obtain db' where "advance_journal demo_ids (demo_advance ''o1'') demo_db = Inr (Advanced, db')"
    by (cases "advance_journal demo_ids (demo_advance ''o1'') demo_db") auto
  then show ?thesis using journal_advance_cas [OF demo_db_def] by blast
qed

section \<open>The interface of a journal store\<close>

text \<open>
  What the coordinators of lifecycle operations rely on: an advance changes the journal of its
  operation alone and in the way the row update says, and the advance of an open journal from
  its present phase succeeds. The lemmas below follow from these laws alone.
\<close>

lemma select_update:
  assumes "db_journals db = ys @ r # zs" and "distinct (map j_operation (db_journals db))"
    and "j_operation r' = j_operation r" and "db_journals db' = ys @ r' # zs"
  shows "select_journal opid db'
    = (if opid = j_operation r then Some r' else select_journal opid db)"
proof -
  have "find (\<lambda>q. j_operation q = opid) (ys @ r' # zs)
      = (if opid = j_operation r then Some r' else find (\<lambda>q. j_operation q = opid) (ys @ r # zs))"
    using assms(2) unfolding assms(1) by (induction ys) (auto simp: assms(3))
  then show ?thesis by (simp add: select_journal_def assms(1,4))
qed

lemma advance_journal_select:
  assumes inv: "journal_inv ids db" and p: "advance_journal ids a db = Inr (Advanced, db')"
  obtains j sch upd where "validate_advance ids a = Inr (sch, upd)"
    and "select_journal (ai_operation a) db = Some j" and "advance_applies a j"
    and "\<And>opid. select_journal opid db'
      = (if opid = ai_operation a then Some (advance_row a sch upd j) else select_journal opid db)"
  using inv p
proof (cases rule: advance_journal_cases)
  case (advanced sch upd ys r zs)
  note d = journal_invD [OF inv]
  have op: "j_operation r = ai_operation a" using advanced(4) by (simp add: advance_applies_def)
  have "r \<in> set (db_journals db)" using advanced(3) by simp
  then have sel: "select_journal (ai_operation a) db = Some r" using select_row [OF d(1)] op by metis
  have "select_journal opid db'
      = (if opid = j_operation r then Some (advance_row a sch upd r) else select_journal opid db)" for opid
    using select_update [OF advanced(3) d(1), of "advance_row a sch upd r" db' opid] advanced(6) by simp
  then show ?thesis using that [OF advanced(1) sel advanced(4)] op by simp
qed simp

lemma advance_journal_succeeds:
  assumes inv: "journal_inv ids db" and sel: "select_journal (ai_operation a) db = Some j"
    and op: "open_journal j" and v: "validate_advance ids a = Inr (sch, upd)"
    and ap: "advance_applies a j" and ok: "row_ok (advance_row a sch upd j)"
  shows "\<exists>db'. advance_journal ids a db = Inr (Advanced, db')"
proof -
  note d = journal_invD [OF inv]
  have mem: "j \<in> set (db_journals db)" and opid: "j_operation j = ai_operation a"
    using select_mem [OF sel] by simp_all
  let ?r = "advance_row a sch upd j"
  obtain ys r zs where ex: "List.extract (advance_applies a) (db_journals db) = Some (ys, r, zs)"
    using mem ap by (cases "List.extract (advance_applies a) (db_journals db)") (auto simp: extract_None)
  note e = extract_Some [OF ex]
  have "j_operation r = j_operation j" using e opid by (simp add: advance_applies_def)
  then have r: "r = j" using mem_by_operation [OF d(1) _ mem] e by simp
  have no: "list_all (\<lambda>r. \<not> open_journal r) (ys @ zs)"
    using one_open [of ys j zs] d(4) e r op by simp
  have ident: "\<not> list_ex (same_identity j) (ys @ zs)"
    using d(5,1) e r by (auto simp: list_ex_iff pairwise_def)
  have con: "constraints_ok (ys @ zs) ?r"
    using ok no ident by (auto simp: constraints_ok_def list_all_iff list_ex_iff)
  let ?db = "db\<lparr>db_journals := ys @ ?r # zs\<rparr>"
  have up: "update_journal a sch upd db = Inr (True, ?db)"
    using ex con r by (simp add: update_journal_def Let_def)
  have typed: "typed_row ids ?r" by (rule advance_row_typed [OF v d(3) [OF mem]])
  have "get_journal ids (j_operation ?r) ?db = Inr (Some ?r)"
    using d(1) e r typed ok by (intro get_journal_row) auto
  then have g: "get_journal ids (ai_operation a) ?db = Inr (Some ?r)" using opid by simp
  have m: "matches_next a sch upd ?r" by (rule advance_row_matches [OF ap d(2) [OF mem] v])
  have created: "j_createdAt j \<le> sch" using ok by (simp add: row_ok_def advance_row_def)
  have "db_candidates db (j_kind j) = Some (candidate_of j)"
    unfolding d(6) by (rule candidates_open [OF d(4) mem op])
  then have "\<exists>db'. upsert_candidate (j_kind ?r) (j_operation ?r) sch (j_createdAt ?r) ?db = Inr db'"
    using created by (simp add: upsert_candidate_def candidate_of_def ensure_def)
  then show ?thesis using v up g m by (auto simp: advance_journal_def ensure_def)
qed

locale phase_store =
  fixes valid :: "'s \<Rightarrow> bool"
    and look :: "string \<Rightarrow> 's \<Rightarrow> journal option"
    and advance :: "advance_input \<Rightarrow> 's \<Rightarrow> coord_error + advance_result \<times> 's"
    and checks :: id_checks
  assumes look_row: "valid s \<Longrightarrow> look opid s = Some j \<Longrightarrow> row_ok j \<and> typed_row checks j \<and> j_operation j = opid"
    and advance_valid: "valid s \<Longrightarrow> advance a s = Inr (res, s') \<Longrightarrow> valid s'"
    and advance_effect: "valid s \<Longrightarrow> advance a s = Inr (Advanced, s') \<Longrightarrow>
      \<exists>j sch upd. validate_advance checks a = Inr (sch, upd) \<and> look (ai_operation a) s = Some j
        \<and> (\<forall>opid. look opid s' = (if opid = ai_operation a then Some (advance_row a sch upd j) else look opid s))"
    and advance_succeeds: "valid s \<Longrightarrow> look (ai_operation a) s = Some j \<Longrightarrow> open_journal j \<Longrightarrow>
      validate_advance checks a = Inr (sch, upd) \<Longrightarrow> advance_applies a j \<Longrightarrow>
      row_ok (advance_row a sch upd j) \<Longrightarrow> \<exists>s'. advance a s = Inr (Advanced, s')"
begin

text \<open>
  One phase further: from the phase it is in, an active journal moves to the next one, at a
  time after its last update, with its result recorded if there is one.
\<close>

lemma next_phase:
  assumes v: "valid s" and l: "look opid s = Some j" and act: "j_state j = Active"
    and a: "ai_operation a = opid" "ai_expectedPhase a = j_phase j" "ai_expectedState a = Active"
      "ai_recoveryFrom a = None" "ai_batchRevision a = None" "ai_batchSha a = None"
      "ai_checkpointSha a = None" "ai_scheduledAt a = Stamp (j_scheduledAt j)" "ai_updatedAt a = Stamp u"
    and ok: "ic_opaque checks opid" "phase_ok (j_phase j)" "phase_ok (ai_nextPhase a)"
      "ai_nextState a \<noteq> RecoveryRequired" "option_ok sha256_ok (ai_resultSha a)"
    and u: "j_updatedAt j < u" and result: "ai_resultSha a = None \<or> j_resultSha j = None"
  obtains s' where "advance a s = Inr (Advanced, s')" and "valid s'"
    and "look opid s' = Some (advance_row a (j_scheduledAt j) u j)"
    and "\<And>q. q \<noteq> opid \<Longrightarrow> look q s' = look q s"
proof -
  have row: "row_ok j" and opj: "j_operation j = opid" using look_row [OF v l] by simp_all
  have va: "validate_advance checks a = Inr (j_scheduledAt j, u)"
    using a ok by (auto simp: validate_advance_def require_def ensure_def timestamp_def option_ok_def)
  have "open_journal j" using act by (simp add: open_journal_def)
  moreover have "advance_applies a j" using a act opj result by (auto simp: advance_applies_def)
  moreover have "row_ok (advance_row a (j_scheduledAt j) u j)"
    using row u a ok act by (auto simp: row_ok_def advance_row_def coalesce_def split: option.splits)
  ultimately obtain s' where s': "advance a s = Inr (Advanced, s')"
    using advance_succeeds [OF v _ _ va] l a(1) by blast
  obtain j' sch upd where e: "validate_advance checks a = Inr (sch, upd)" "look (ai_operation a) s = Some j'"
    "\<And>q. look q s' = (if q = ai_operation a then Some (advance_row a sch upd j') else look q s)"
    using advance_effect [OF v s'] by blast
  then show ?thesis using that [OF s' advance_valid [OF v s']] va l a(1) by simp
qed

end

interpretation journal_rows: phase_store "journal_inv ids" select_journal "advance_journal ids" ids
  for ids :: id_checks
proof unfold_locales
  fix s s' :: journal_db and opid j a res sch upd
  assume inv: "journal_inv ids s"
  show "row_ok j \<and> typed_row ids j \<and> j_operation j = opid" if sel: "select_journal opid s = Some j"
    using select_mem [OF sel] journal_invD(2,3) [OF inv] by blast
  show "journal_inv ids s'" if "advance_journal ids a s = Inr (res, s')"
    by (rule advance_journal_inv [OF inv that])
  show "\<exists>j sch upd. validate_advance ids a = Inr (sch, upd) \<and> select_journal (ai_operation a) s = Some j
      \<and> (\<forall>opid. select_journal opid s' = (if opid = ai_operation a
            then Some (advance_row a sch upd j) else select_journal opid s))"
    if p: "advance_journal ids a s = Inr (Advanced, s')"
    by (rule advance_journal_select [OF inv p]) blast
  show "\<exists>s'. advance_journal ids a s = Inr (Advanced, s')"
    if "select_journal (ai_operation a) s = Some j" "open_journal j"
      "validate_advance ids a = Inr (sch, upd)" "advance_applies a j" "row_ok (advance_row a sch upd j)"
    by (rule advance_journal_succeeds [OF inv that])
qed

end
