(* ===== verification/RecoveryDispatch.thy ===== *)
theory RecoveryDispatch
  imports LifecycleJournal
begin

text \<open>
  Recovery of Project lifecycle operations,
  \<open>src/src/project-authority/lifecycle/ProjectLifecycleRecoveryDispatcher.ts\<close>. The dispatcher
  reads journals under a Project lease and hands an active one to the owner of its kind. What
  it does not control is one state \<open>'w\<close>, the world: the database, whatever the owners change,
  and the other processes, which act before a lease is granted. The record \<open>dispatch_env\<close>
  names what the dispatcher calls: the lease, the persistence reads, and the owners. A failure
  that is not a \<open>ProjectRecoveryError\<close> is \<open>dependency-failed\<close> inside a lease and passes through
  unchanged outside one, as in the code.
\<close>

section \<open>Data\<close>

datatype recovery_error = RecoveryClosed | RecoveryDependencyFailed | RecoveryNeeded

datatype dispatch_error = Recovery recovery_error | ForeignFailure

datatype recovery_outcome = Settled | WaitingForProof | OfflineMaintenance

datatype lease_answer = LeaseGranted | LeaseRecoveryError recovery_error | LeaseRefused

datatype reservation_answer = Reserved | NotReserved | ReservationFailed

record 'w recovery_owner_ops =
  ro_reserve :: "(string \<Rightarrow> journal \<Rightarrow> 'w \<Rightarrow> reservation_answer \<times> 'w) option"
  ro_recover :: "journal \<Rightarrow> bool \<Rightarrow> 'w \<Rightarrow> (recovery_error + recovery_outcome) \<times> 'w"
  ro_unreserve :: "'w \<Rightarrow> 'w"

record 'w dispatch_env =
  de_closed :: "'w \<Rightarrow> bool"
  de_acquire :: "string \<Rightarrow> 'w \<Rightarrow> lease_answer \<times> 'w"
  de_release :: "'w \<Rightarrow> bool \<times> 'w"
  de_get :: "string \<Rightarrow> string \<Rightarrow> 'w \<Rightarrow> coord_error + journal option"
  de_open :: "string \<Rightarrow> 'w \<Rightarrow> coord_error + journal option"
  de_owner :: "lifecycle_kind \<Rightarrow> 'w recovery_owner_ops option"

record recovery_candidate =
  rk_kind :: "lifecycle_kind option"
  rk_operation :: string
  rk_project :: string
  rk_scheduledAt :: stamp

section \<open>Operations\<close>

text \<open>
  \<open>snapshotCandidate\<close>; a candidate of another kind, as the bootstrap's, is \<open>None\<close> as its kind.
\<close>

definition snapshot_candidate ::
  "(string \<Rightarrow> bool) \<Rightarrow> (string \<Rightarrow> bool) \<Rightarrow> recovery_candidate \<Rightarrow> bool" where
  "snapshot_candidate is_opaque is_project c \<longleftrightarrow>
     rk_kind c \<noteq> None \<and> is_opaque (rk_operation c) \<and> is_project (rk_project c)
     \<and> rk_scheduledAt c \<noteq> BadStamp"

definition terminal :: "journal \<Rightarrow> bool" where
  "terminal r \<longleftrightarrow> j_state r = Cancelled \<or> j_state r = Completed"

definition exact_journal :: "journal \<Rightarrow> lifecycle_kind option \<Rightarrow> string option \<Rightarrow> bool" where
  "exact_journal r k opid \<longleftrightarrow> (k = None \<or> k = Some (j_kind r)) \<and> (opid = None \<or> opid = Some (j_operation r))"

definition permits_deletion_successor :: "journal \<Rightarrow> bool" where
  "permits_deletion_successor r \<longleftrightarrow> j_state r = Completed
     \<and> (j_kind r = Retire \<or> j_kind r = AuthorityTransfer \<and> j_direction r = Some CloudToLan)"

text \<open>\<open>#withProjectLease\<close>: a lease that does not close turns every result into a failure.\<close>

definition with_lease ::
  "'w dispatch_env \<Rightarrow> string \<Rightarrow> ('w \<Rightarrow> (recovery_error + 'r) \<times> 'w) \<Rightarrow> 'w \<Rightarrow> (dispatch_error + 'r) \<times> 'w" where
  "with_lease E p f w =
     (if de_closed E w then (Inl (Recovery RecoveryClosed), w)
      else case de_acquire E p w of
        (LeaseRecoveryError e, w1) \<Rightarrow> (Inl (Recovery e), w1)
      | (LeaseRefused, w1) \<Rightarrow>
          (Inl (Recovery (if de_closed E w1 then RecoveryClosed else RecoveryDependencyFailed)), w1)
      | (LeaseGranted, w1) \<Rightarrow>
          (case (if de_closed E w1 then (Inl RecoveryClosed, w1) else f w1) of (r, w2) \<Rightarrow>
             (case de_release E w2 of (closed, w3) \<Rightarrow>
                (if \<not> closed then Inl (Recovery RecoveryDependencyFailed)
                 else case r of Inl e \<Rightarrow> Inl (Recovery e) | Inr x \<Rightarrow> Inr x, w3))))"

text \<open>A read of the persistence under the lease; a failed query is a failed dependency.\<close>

definition lease_read :: "(coord_error + 'a) \<Rightarrow> recovery_error + 'a" where
  "lease_read r = (case r of Inl e \<Rightarrow> Inl RecoveryDependencyFailed | Inr x \<Rightarrow> Inr x)"

definition needs_exact ::
  "journal option \<Rightarrow> lifecycle_kind option \<Rightarrow> string option \<Rightarrow> recovery_error + journal" where
  "needs_exact x k opid =
     (case x of
        None \<Rightarrow> Inl RecoveryDependencyFailed
      | Some r \<Rightarrow> if exact_journal r k opid then Inr r else Inl RecoveryDependencyFailed)"

datatype attempt = Retry journal | Result journal recovery_outcome

text \<open>
  The body of the lease in \<open>#recoverObserved\<close>: the owner runs only on the journal that was
  observed and reserved for, and its outcome is checked against the journal it leaves.
\<close>

definition recover_attempt ::
  "'w dispatch_env \<Rightarrow> 'w recovery_owner_ops \<Rightarrow> string \<Rightarrow> journal \<Rightarrow> bool \<Rightarrow> 'w
     \<Rightarrow> (recovery_error + attempt) \<times> 'w" where
  "recover_attempt E own p pre reserved w =
     (case rbind (lease_read (de_get E p (j_operation pre) w))
             (\<lambda>x. needs_exact x (Some (j_kind pre)) (Some (j_operation pre))) of
        Inl e \<Rightarrow> (Inl e, w)
      | Inr r \<Rightarrow>
          if r \<noteq> pre then (Inr (Retry r), w)
          else if j_state r = RecoveryRequired then (Inl RecoveryNeeded, w)
          else if terminal r then (Inr (Result r Settled), w)
          else (case ro_recover own r reserved w of
                  (Inl e, w1) \<Rightarrow> (Inl e, w1)
                | (Inr oc, w1) \<Rightarrow>
                    (rbind (rbind (lease_read (de_get E p (j_operation r) w1))
                        (\<lambda>x. needs_exact x (Some (j_kind r)) (Some (j_operation r)))) (\<lambda>t.
                     rbind (ensure (j_state t \<noteq> RecoveryRequired) RecoveryNeeded) (\<lambda>_.
                     rbind (ensure (terminal t = (oc = Settled)) RecoveryDependencyFailed) (\<lambda>_.
                       Inr (Result t oc)))), w1)))"

text \<open>
  One iteration of the loop of \<open>#recoverObserved\<close>: the owner reserves outside the lease, and what
  it reserved is given back whatever happens under the lease.
\<close>

definition recover_round ::
  "'w dispatch_env \<Rightarrow> string \<Rightarrow> journal \<Rightarrow> 'w \<Rightarrow> (dispatch_error + attempt) \<times> 'w" where
  "recover_round E p pre w =
     (case de_owner E (j_kind pre) of
        None \<Rightarrow> (Inl (Recovery RecoveryDependencyFailed), w)
      | Some own \<Rightarrow>
          if j_state pre = RecoveryRequired then (Inl (Recovery RecoveryNeeded), w)
          else if terminal pre then (Inr (Result pre Settled), w)
          else (case (case ro_reserve own of None \<Rightarrow> (NotReserved, w) | Some f \<Rightarrow> f p pre w) of
                  (answer, w1) \<Rightarrow>
                    if answer = ReservationFailed then (Inl ForeignFailure, w1)
                    else (case with_lease E p (recover_attempt E own p pre (answer = Reserved)) w1 of
                            (r, w2) \<Rightarrow> (r, if answer = Reserved then ro_unreserve own w2 else w2))))"

text \<open>
  \<open>#recoverObserved\<close>, with the number of iterations it may take: the loop starts again only when
  the journal has changed between the reservation and the lease, so \<open>None\<close> means that it
  changed more often than that.
\<close>

fun recover_observed ::
  "nat \<Rightarrow> 'w dispatch_env \<Rightarrow> string \<Rightarrow> journal \<Rightarrow> 'w
     \<Rightarrow> ((dispatch_error + journal \<times> recovery_outcome) \<times> 'w) option" where
  "recover_observed 0 E p pre w = None"
| "recover_observed (Suc n) E p pre w =
     (case recover_round E p pre w of
        (Inl e, w1) \<Rightarrow> Some (Inl e, w1)
      | (Inr (Result t oc), w1) \<Rightarrow> Some (Inr (t, oc), w1)
      | (Inr (Retry t), w1) \<Rightarrow> recover_observed n E p t w1)"

definition read_open :: "'w dispatch_env \<Rightarrow> string \<Rightarrow> 'w \<Rightarrow> (dispatch_error + journal option) \<times> 'w" where
  "read_open E p = with_lease E p (\<lambda>w. (lease_read (de_open E p w), w))"

text \<open>
  \<open>#drainProject\<close>, its loop counted down from \<open>MAXIMUM_LIFECYCLE_JOURNALS_PER_RECOVERY\<close>.
\<close>

fun drain_project ::
  "nat \<Rightarrow> nat \<Rightarrow> 'w dispatch_env \<Rightarrow> string \<Rightarrow> bool \<Rightarrow> journal option \<Rightarrow> 'w
     \<Rightarrow> ((dispatch_error + recovery_outcome) \<times> 'w) option" where
  "drain_project 0 fuel E p reject_waiting predecessor w =
     (case read_open E p w of
        (Inl e, w1) \<Rightarrow> Some (Inl e, w1)
      | (Inr None, w1) \<Rightarrow> Some (Inr Settled, w1)
      | (Inr (Some r), w1) \<Rightarrow> Some (Inl (Recovery RecoveryDependencyFailed), w1))"
| "drain_project (Suc n) fuel E p reject_waiting predecessor w =
     (case read_open E p w of
        (Inl e, w1) \<Rightarrow> Some (Inl e, w1)
      | (Inr None, w1) \<Rightarrow> Some (Inr Settled, w1)
      | (Inr (Some r), w1) \<Rightarrow>
          if (case predecessor of None \<Rightarrow> False
              | Some q \<Rightarrow> j_kind r \<noteq> DeleteKind \<or> \<not> permits_deletion_successor q)
          then Some (Inl (Recovery RecoveryDependencyFailed), w1)
          else (case recover_observed fuel E p r w1 of
                  None \<Rightarrow> None
                | Some (Inl e, w2) \<Rightarrow> Some (Inl e, w2)
                | Some (Inr (t, oc), w2) \<Rightarrow>
                    if oc \<noteq> Settled
                    then Some (if reject_waiting then Inl (Recovery RecoveryNeeded) else Inr oc, w2)
                    else drain_project n fuel E p reject_waiting (Some t) w2))"

definition maximum_journals :: nat where
  "maximum_journals = 2"

definition recover_project ::
  "(string \<Rightarrow> bool) \<Rightarrow> nat \<Rightarrow> 'w dispatch_env \<Rightarrow> string \<Rightarrow> 'w \<Rightarrow> ((dispatch_error + unit) \<times> 'w) option" where
  "recover_project is_project fuel E p w =
     (if \<not> is_project p then Some (Inl (Recovery RecoveryDependencyFailed), w)
      else map_option (\<lambda>(r, w1). (map_sum id (\<lambda>_. ()) r, w1))
             (drain_project maximum_journals fuel E p True None w))"

definition recover_candidate ::
  "(string \<Rightarrow> bool) \<Rightarrow> (string \<Rightarrow> bool) \<Rightarrow> nat \<Rightarrow> 'w dispatch_env \<Rightarrow> recovery_candidate \<Rightarrow> 'w
     \<Rightarrow> ((dispatch_error + recovery_outcome) \<times> 'w) option" where
  "recover_candidate is_opaque is_project fuel E c w =
     (if \<not> snapshot_candidate is_opaque is_project c
      then Some (Inl (Recovery RecoveryDependencyFailed), w)
      else case with_lease E (rk_project c)
             (\<lambda>w. (rbind (lease_read (de_get E (rk_project c) (rk_operation c) w))
                     (\<lambda>x. needs_exact x (rk_kind c) (Some (rk_operation c))), w)) w of
          (Inl e, w1) \<Rightarrow> Some (Inl e, w1)
        | (Inr r, w1) \<Rightarrow>
            (case recover_observed fuel E (rk_project c) r w1 of
               None \<Rightarrow> None
             | Some (Inl e, w2) \<Rightarrow> Some (Inl e, w2)
             | Some (Inr (t, oc), w2) \<Rightarrow>
                 if oc \<noteq> Settled then Some (Inr oc, w2)
                 else drain_project maximum_journals fuel E (rk_project c) False (Some t) w2))"

section \<open>Properties\<close>

lemma with_lease_Inr:
  "with_lease E p f w = (Inr x, w3) \<longleftrightarrow> \<not> de_closed E w
    \<and> (\<exists>w1 w2. de_acquire E p w = (LeaseGranted, w1) \<and> \<not> de_closed E w1
         \<and> f w1 = (Inr x, w2) \<and> de_release E w2 = (True, w3))"
  by (auto simp: with_lease_def split: prod.splits lease_answer.splits sum.splits if_splits)

lemma with_lease_cong:
  assumes "\<And>w1. f w1 = g w1"
  shows "with_lease E p f w = with_lease E p g w"
proof -
  have "f = g" by (rule ext) (rule assms)
  then show ?thesis by simp
qed

lemma lease_read_Inr [result_simps]: "lease_read r = Inr x \<longleftrightarrow> r = Inr x"
  by (simp add: lease_read_def split: sum.split)

lemma needs_exact_Inr [result_simps]:
  "needs_exact x k opid = Inr r \<longleftrightarrow> x = Some r \<and> exact_journal r k opid"
  by (auto simp: needs_exact_def split: option.split)

lemma recover_attempt_Inr:
  assumes "recover_attempt E own p pre reserved w = (Inr a, w1)"
  obtains (retry) r where "a = Retry r" and "w1 = w" and "r \<noteq> pre"
      and "de_get E p (j_operation pre) w = Inr (Some r)"
      and "j_kind r = j_kind pre" and "j_operation r = j_operation pre"
  | (finished) t oc where "a = Result t oc" and "de_get E p (j_operation pre) w1 = Inr (Some t)"
      and "j_kind t = j_kind pre" and "j_operation t = j_operation pre"
      and "j_state t \<noteq> RecoveryRequired" and "terminal t = (oc = Settled)"
proof -
  obtain r where r: "de_get E p (j_operation pre) w = Inr (Some r)"
    "j_kind r = j_kind pre" "j_operation r = j_operation pre"
  proof -
    have "\<exists>r. rbind (lease_read (de_get E p (j_operation pre) w))
        (\<lambda>x. needs_exact x (Some (j_kind pre)) (Some (j_operation pre))) = Inr r"
      using assms unfolding recover_attempt_def by (auto split: sum.splits)
    then show ?thesis using that by (auto simp: exact_journal_def result_simps)
  qed
  have g: "rbind (lease_read (de_get E p (j_operation pre) w))
      (\<lambda>x. needs_exact x (Some (j_kind pre)) (Some (j_operation pre))) = Inr r"
    using r by (simp add: result_simps exact_journal_def)
  show ?thesis
  proof (cases "r = pre")
    case False
    then show ?thesis using assms [unfolded recover_attempt_def g] retry [of r] r by auto
  next
    case True
    note u = assms [unfolded recover_attempt_def g]
    show ?thesis
    proof (cases "terminal pre")
      case True
      have st: "j_state pre \<noteq> RecoveryRequired" using True by (auto simp: terminal_def)
      then have "a = Result pre Settled" "w1 = w" using u True \<open>r = pre\<close> by auto
      then show ?thesis using finished [of pre Settled] r True st \<open>r = pre\<close> by simp
    next
      case False
      obtain x w' where x: "ro_recover own pre reserved w = (x, w')"
        by (cases "ro_recover own pre reserved w")
      have st: "j_state pre \<noteq> RecoveryRequired" using u \<open>r = pre\<close> by auto
      then obtain oc where oc: "x = Inr oc" using u x False \<open>r = pre\<close> by (cases x) simp_all
      have wv: "rbind (rbind (lease_read (de_get E p (j_operation pre) w'))
            (\<lambda>x. needs_exact x (Some (j_kind pre)) (Some (j_operation pre)))) (\<lambda>t.
          rbind (ensure (j_state t \<noteq> RecoveryRequired) RecoveryNeeded) (\<lambda>_.
          rbind (ensure (terminal t = (oc = Settled)) RecoveryDependencyFailed) (\<lambda>_. Inr (Result t oc)))) = Inr a \<and> w' = w1"
        using u x oc st False \<open>r = pre\<close> by auto
      note v = conjunct1 [OF wv] and w = conjunct2 [OF wv]
      obtain t where t: "de_get E p (j_operation pre) w' = Inr (Some t)"
        "exact_journal t (Some (j_kind pre)) (Some (j_operation pre))"
        "j_state t \<noteq> RecoveryRequired" "terminal t = (oc = Settled)" "a = Result t oc"
        using v unfolding rbind_Inr lease_read_Inr needs_exact_Inr ensure_Inr by blast
      show ?thesis
        by (rule finished [OF t(5) t(1) [unfolded w]]) (use t in \<open>simp_all add: exact_journal_def\<close>)
    qed
  qed
qed

lemma recover_round_Inr:
  assumes "recover_round E p pre w = (Inr a, w1)"
  obtains (known) "a = Result pre Settled" and "w1 = w" and "terminal pre" and "de_owner E (j_kind pre) \<noteq> None"
  | (leased) own answer v0 v1 v2 where "de_owner E (j_kind pre) = Some own" and "j_state pre = Active"
      and "(case ro_reserve own of None \<Rightarrow> (NotReserved, w) | Some f \<Rightarrow> f p pre w) = (answer, v0)"
      and "de_acquire E p v0 = (LeaseGranted, v1)"
      and "recover_attempt E own p pre (answer = Reserved) v1 = (Inr a, v2)"
  using assms
  by (cases "j_state pre")
    (auto simp: recover_round_def terminal_def with_lease_Inr split: option.splits if_splits prod.splits)

text \<open>What a result of \<open>#recoverObserved\<close> means.\<close>

definition settled_under_lease :: "'w dispatch_env \<Rightarrow> string \<Rightarrow> journal \<Rightarrow> journal \<Rightarrow> recovery_outcome \<Rightarrow> bool" where
  "settled_under_lease E p pre t oc \<longleftrightarrow> j_kind t = j_kind pre \<and> j_operation t = j_operation pre
     \<and> j_state t \<noteq> RecoveryRequired \<and> terminal t = (oc = Settled)
     \<and> (\<exists>w0. de_get E p (j_operation pre) w0 = Inr (Some t))"


definition demo_row :: journal where
  "demo_row = \<lparr>j_actor = Some ''m'', j_createdAt = 10, j_direction = None, j_generation = 1,
     j_personalRef = None, j_idempotencyKey = ''k'', j_kind = Backup, j_operation = ''o'',
     j_phase = ''prepared'', j_fingerprint = replicate 64 CHR ''0'', j_scheduledAt = 10,
     j_batchRevision = None, j_batchSha = None, j_checkpointSha = None, j_recoveryFrom = None,
     j_resultSha = None, j_state = Active, j_updatedAt = 10\<rparr>"

text \<open>A world of one row, and an owner that completes it.\<close>

definition demo_owner :: "journal recovery_owner_ops" where
  "demo_owner = \<lparr>ro_reserve = None, ro_recover = (\<lambda>j b w. (Inr Settled, w\<lparr>j_state := Completed\<rparr>)),
     ro_unreserve = id\<rparr>"

definition demo_dispatch :: "journal dispatch_env" where
  "demo_dispatch = \<lparr>de_closed = (\<lambda>w. False), de_acquire = (\<lambda>p w. (LeaseGranted, w)), de_release = (\<lambda>w. (True, w)),
     de_get = (\<lambda>p opid w. Inr (if j_operation w = opid then Some w else None)),
     de_open = (\<lambda>p w. Inr (if open_journal w then Some w else None)),
     de_owner = (\<lambda>k. Some demo_owner)\<rparr>"


text \<open>A drain that reports \<open>settled\<close> ended with a read under a lease that found nothing open.\<close>

lemma read_open_Inr:
  "read_open E p w = (Inr x, w') \<Longrightarrow> \<exists>w1. de_open E p w1 = Inr x \<and> de_release E w1 = (True, w')"
  by (auto simp: read_open_def with_lease_Inr result_simps)

lemma drain_project_Inr:
  assumes "drain_project n fuel E p rej q w = Some (Inr oc, w')"
  shows "(oc = Settled \<longrightarrow> (\<exists>w1. de_open E p w1 = Inr None \<and> de_release E w1 = (True, w')))
    \<and> (rej \<longrightarrow> oc = Settled)"
  using assms
proof (induction n arbitrary: q w)
  case 0
  then show ?case by (auto dest!: read_open_Inr split: prod.splits sum.splits option.splits)
next
  case (Suc n)
  obtain x w1 where x: "read_open E p w = (Inr x, w1)"
    using Suc.prems by (auto split: prod.splits sum.splits)
  show ?case
  proof (cases x)
    case None
    then show ?thesis using Suc.prems read_open_Inr [OF x] x by auto
  next
    case (Some r)
    obtain t oc1 w2 where o: "recover_observed fuel E p r w1 = Some (Inr (t, oc1), w2)"
      using Suc.prems x Some by (auto split: prod.splits sum.splits option.splits if_splits)
    show ?thesis
      using Suc.prems x Some o Suc.IH [of "Some t" w2]
      by (cases "oc1 = Settled") (auto split: option.splits if_splits)
  qed
qed

text \<open>A Project whose recovery succeeded has nothing left to recover: the last thing that
  \<open>recoverProject\<close> did was to read, under a lease it then gave back, that no journal of the
  Project is open. The same holds of a recovery candidate whose recovery reports \<open>settled\<close>.\<close>

theorem recovery_leaves_nothing_open:
  assumes "recover_project is_project n E p w = Some (Inr (), w')
    \<or> (recover_candidate is_opaque is_project n E c w = Some (Inr Settled, w') \<and> p = rk_project c)"
  shows "\<exists>w1. de_open E p w1 = Inr None \<and> de_release E w1 = (True, w')"
  using assms
proof
  assume "recover_project is_project n E p w = Some (Inr (), w')"
  then have m: "map_option (\<lambda>(r, w1). (map_sum id (\<lambda>_. ()) r, w1))
      (drain_project maximum_journals n E p True None w) = Some (Inr (), w')"
    by (simp add: recover_project_def split: if_splits)
  then obtain r where r: "drain_project maximum_journals n E p True None w = Some (r, w')"
    "map_sum id (\<lambda>_. ()) r = Inr ()"
    by auto
  then obtain oc where "drain_project maximum_journals n E p True None w = Some (Inr oc, w')"
    by (cases r) simp_all
  from drain_project_Inr [OF this] show ?thesis by simp
next
  assume c: "recover_candidate is_opaque is_project n E c w = Some (Inr Settled, w') \<and> p = rk_project c"
  let ?L = "with_lease E (rk_project c) (\<lambda>w. (rbind (lease_read (de_get E (rk_project c) (rk_operation c) w))
      (\<lambda>x. needs_exact x (rk_kind c) (Some (rk_operation c))), w)) w"
  obtain r w1 where L: "?L = (r, w1)" by (cases ?L)
  have ok: "snapshot_candidate is_opaque is_project c"
    using c by (auto simp: recover_candidate_def split: if_splits)
  then obtain j where j: "r = Inr j" using c L by (cases r) (auto simp: recover_candidate_def)
  obtain t oc w2 where o: "recover_observed n E (rk_project c) j w1 = Some (Inr (t, oc), w2)"
    using c L ok j by (cases "recover_observed n E (rk_project c) j w1")
      (auto simp: recover_candidate_def split: sum.splits)
  then have "drain_project maximum_journals n E p False (Some t) w2 = Some (Inr Settled, w')"
    using c L ok j by (cases "oc = Settled") (auto simp: recover_candidate_def)
  from drain_project_Inr [OF this] show ?thesis by simp
qed

theorem recovery_leaves_nothing_open_witness:
  "\<exists>w1. de_open demo_dispatch ''p'' w1 = Inr None \<and> de_release demo_dispatch w1 = (True, demo_row\<lparr>j_state := Completed\<rparr>)"
proof (rule recovery_leaves_nothing_open, rule disjI1)
  show "recover_project (\<lambda>_. True) 1 demo_dispatch ''p'' demo_row = Some (Inr (), demo_row\<lparr>j_state := Completed\<rparr>)"
    by (simp add: recover_project_def maximum_journals_def numeral_2_eq_2 read_open_def recover_round_def
        recover_attempt_def demo_dispatch_def demo_owner_def demo_row_def open_journal_def
        with_lease_def terminal_def needs_exact_def exact_journal_def lease_read_def)
qed

text \<open>
  Owners that refuse to act on anything but the active journal that the database holds at that
  moment, of the kind they own.
\<close>

definition guarded :: "'w dispatch_env \<Rightarrow> string \<Rightarrow> 'w dispatch_env" where
  "guarded E p = E\<lparr>de_owner := (\<lambda>k. map_option (\<lambda>own. own\<lparr>ro_recover := (\<lambda>j b w.
       if j_state j = Active \<and> j_kind j = k \<and> de_get E p (j_operation j) w = Inr (Some j)
       then ro_recover own j b w else (Inl RecoveryNeeded, w))\<rparr>) (de_owner E k))\<rparr>"

lemma guarded_fields [simp]:
  "de_closed (guarded E p) = de_closed E" "de_acquire (guarded E p) = de_acquire E"
  "de_release (guarded E p) = de_release E" "de_get (guarded E p) = de_get E" "de_open (guarded E p) = de_open E"
  by (simp_all add: guarded_def)

lemma guarded_lease: "with_lease (guarded E p) = with_lease E"
  unfolding with_lease_def guarded_fields ..

lemma guarded_attempt:
  assumes "de_owner E (j_kind pre) = Some own" and "de_owner (guarded E p) (j_kind pre) = Some own'"
  shows "recover_attempt (guarded E p) own' p pre b w = recover_attempt E own p pre b w"
proof -
  have own': "own' = own\<lparr>ro_recover := (\<lambda>j b w.
       if j_state j = Active \<and> j_kind j = j_kind pre \<and> de_get E p (j_operation j) w = Inr (Some j)
       then ro_recover own j b w else (Inl RecoveryNeeded, w))\<rparr>"
    using assms by (simp add: guarded_def)
  have act: "j_state pre = Active" if "j_state pre \<noteq> RecoveryRequired" "\<not> terminal pre"
    using that by (cases "j_state pre") (simp_all add: terminal_def)
  show ?thesis
  proof (cases "rbind (lease_read (de_get E p (j_operation pre) w))
      (\<lambda>x. needs_exact x (Some (j_kind pre)) (Some (j_operation pre)))")
    case (Inr r)
    then have "de_get E p (j_operation pre) w = Inr (Some r)" by (simp add: result_simps)
    then show ?thesis using Inr act unfolding recover_attempt_def guarded_fields by (simp add: own')
  qed (simp add: recover_attempt_def)
qed

lemma guarded_round: "recover_round (guarded E p) p pre w = recover_round E p pre w"
proof (cases "de_owner E (j_kind pre)")
  case None
  then show ?thesis by (simp add: recover_round_def) (simp add: guarded_def)
next
  case (Some own)
  then obtain own' where own': "de_owner (guarded E p) (j_kind pre) = Some own'"
    "ro_reserve own' = ro_reserve own" "ro_unreserve own' = ro_unreserve own"
    by (simp add: guarded_def)
  have "recover_attempt (guarded E p) own' p pre b = recover_attempt E own p pre b" for b
    by (rule ext) (rule guarded_attempt [OF Some own'(1)])
  then show ?thesis
    using Some own' unfolding recover_round_def guarded_lease
    by (cases "case ro_reserve own of None \<Rightarrow> (NotReserved, w) | Some f \<Rightarrow> f p pre w")
      (simp split: prod.split)
qed

lemma guarded_observed: "recover_observed n (guarded E p) p pre w = recover_observed n E p pre w"
  by (induction n arbitrary: pre w) (simp_all add: guarded_round split: prod.split sum.split attempt.split)

lemma guarded_drain: "drain_project n fuel (guarded E p) p rej q w = drain_project n fuel E p rej q w"
  by (induction n arbitrary: q w)
    (simp_all add: read_open_def guarded_lease guarded_observed split: prod.split sum.split option.split)

text \<open>C23. An owner is only ever given the journal that the database holds under the lease, active
  and of the owner's kind: owners that refused everything else would make no difference to any
  recovery. In particular a journal that asks for recovery, and one that changed between the
  reservation and the lease, never reach an owner.\<close>

theorem owners_see_current_journal:
  "recover_project is_project n (guarded E p) p w = recover_project is_project n E p w
    \<and> recover_candidate is_opaque is_project n (guarded E (rk_project c)) c w
      = recover_candidate is_opaque is_project n E c w"
proof -
  let ?p = "rk_project c"
  let ?f = "\<lambda>w. (rbind (lease_read (de_get E ?p (rk_operation c) w))
      (\<lambda>x. needs_exact x (rk_kind c) (Some (rk_operation c))), w)"
  obtain r w1 where L: "with_lease E ?p ?f w = (r, w1)" by (cases "with_lease E ?p ?f w")
  have "recover_candidate is_opaque is_project n (guarded E ?p) c w = recover_candidate is_opaque is_project n E c w"
  proof (cases r)
    case (Inr j)
    then show ?thesis
      using L unfolding recover_candidate_def guarded_lease guarded_fields guarded_observed guarded_drain by simp
  qed (use L in \<open>simp add: recover_candidate_def guarded_lease\<close>)
  then show ?thesis by (simp add: recover_project_def guarded_drain)
qed

section \<open>The interface of a recovery owner\<close>

text \<open>
  What the dispatcher needs of its surroundings to settle a Project: a \<open>ready\<close> world grants the
  lease and the reservation, nobody else interferes, and the owner of the journal that is open
  settles it and leaves a ready world with nothing open.
\<close>

locale recoverable =
  fixes E :: "'w dispatch_env" and p :: string and ready :: "'w \<Rightarrow> bool"
  assumes lease: "ready w \<Longrightarrow> \<not> de_closed E w \<and> de_acquire E p w = (LeaseGranted, w) \<and> de_release E w = (True, w)"
    and reads: "ready w \<Longrightarrow> \<exists>x. de_open E p w = Inr x \<and>
      (\<forall>j. x = Some j \<longrightarrow> j_state j = Active \<and> de_get E p (j_operation j) w = Inr (Some j))"
    and settles: "ready w \<Longrightarrow> de_open E p w = Inr (Some j) \<Longrightarrow> \<exists>own answer w' t. de_owner E (j_kind j) = Some own
      \<and> (case ro_reserve own of None \<Rightarrow> (NotReserved, w) | Some f \<Rightarrow> f p j w) = (answer, w)
      \<and> answer \<noteq> ReservationFailed \<and> ro_unreserve own w' = w'
      \<and> ro_recover own j (answer = Reserved) w = (Inr Settled, w') \<and> ready w'
      \<and> de_get E p (j_operation j) w' = Inr (Some t) \<and> j_kind t = j_kind j \<and> j_operation t = j_operation j
      \<and> terminal t \<and> de_open E p w' = Inr None"
begin

lemma lease_body: "ready w \<Longrightarrow> f w = (r, w') \<Longrightarrow> ready w' \<Longrightarrow>
    with_lease E p f w = (case r of Inl e \<Rightarrow> Inl (Recovery e) | Inr x \<Rightarrow> Inr x, w')"
  using lease [of w] lease [of w'] by (simp add: with_lease_def)

lemma read_ready: "ready w \<Longrightarrow> de_open E p w = Inr x \<Longrightarrow> read_open E p w = (Inr x, w)"
  using lease_body [of w "\<lambda>w. (lease_read (de_open E p w), w)"] by (simp add: read_open_def lease_read_def)

lemma round_settles:
  assumes w: "ready w" and j: "de_open E p w = Inr (Some j)"
  obtains t w' where "recover_round E p j w = (Inr (Result t Settled), w')" and "ready w'"
    and "de_open E p w' = Inr None" and "j_operation t = j_operation j"
    and "terminal t" and "de_get E p (j_operation j) w' = Inr (Some t)"
proof -
  have act: "j_state j = Active" and g: "de_get E p (j_operation j) w = Inr (Some j)"
    using reads [OF w] j by auto
  obtain own answer w' t where o: "de_owner E (j_kind j) = Some own"
    "(case ro_reserve own of None \<Rightarrow> (NotReserved, w) | Some f \<Rightarrow> f p j w) = (answer, w)"
    "answer \<noteq> ReservationFailed" "ro_unreserve own w' = w'"
    "ro_recover own j (answer = Reserved) w = (Inr Settled, w')" "ready w'"
    "de_get E p (j_operation j) w' = Inr (Some t)" "j_kind t = j_kind j" "j_operation t = j_operation j"
    "terminal t" "de_open E p w' = Inr None"
    using settles [OF w j] by blast
  have "j_state t \<noteq> RecoveryRequired" using o(10) by (auto simp: terminal_def)
  then have "recover_attempt E own p j (answer = Reserved) w = (Inr (Result t Settled), w')"
    using o g act
    by (simp add: recover_attempt_def lease_read_def needs_exact_def exact_journal_def terminal_def)
  from lease_body [OF w, of "recover_attempt E own p j (answer = Reserved)", OF this o(6)]
  have "recover_round E p j w = (Inr (Result t Settled), w')"
    using o act by (simp add: recover_round_def terminal_def)
  then show ?thesis using that o by blast
qed

lemma recover_project_settles:
  assumes w: "ready w" and p: "is_project p"
  shows "\<exists>w'. recover_project is_project (Suc n) E p w = Some (Inr (), w') \<and> ready w'
    \<and> de_open E p w' = Inr None
    \<and> (\<forall>j. de_open E p w = Inr (Some j) \<longrightarrow>
         (\<exists>t. de_get E p (j_operation j) w' = Inr (Some t) \<and> terminal t))"
proof -
  obtain x where x: "de_open E p w = Inr x" using reads [OF w] by blast
  show ?thesis
  proof (cases x)
    case None
    then show ?thesis
      using read_ready [OF w x] x w p
      by (simp add: recover_project_def maximum_journals_def numeral_2_eq_2)
  next
    case (Some j)
    obtain t w' where r: "recover_round E p j w = (Inr (Result t Settled), w')" "ready w'"
      "de_open E p w' = Inr None" "terminal t" "de_get E p (j_operation j) w' = Inr (Some t)"
      using round_settles [OF w] x Some by blast
    then show ?thesis
      using read_ready [OF w x] read_ready [OF r(2,3)] Some x p
      by (simp add: recover_project_def maximum_journals_def numeral_2_eq_2)
  qed
qed

end

end
