(* ===== verification/DeletionStore.thy ===== *)
theory DeletionStore
  imports LifecycleJournal
begin

text \<open>
  The persistence that the deletion of a Project works on, from
  \<open>src/src/coordination/postgres/PostgresPortabilityLifecyclePersistence.ts\<close>: tombstones,
  deletion intents, and the removal of the Project's coordination content with the check of
  what is left. The database holds the journals and, beside them, the tables these operations
  read: tombstones, intents, terminal responders, the transfer receipts, keys and envelopes,
  the recovery candidates of other kinds than lifecycle operations, and for every other table
  the number of rows the Project has in it. The removal is the function
  \<open>remove_project_coordination_content\<close> of the schema, which the model follows table by table.
\<close>

section \<open>Data\<close>

datatype terminal_kind = TerminalTransfer | TerminalRetire
datatype deletion_reason = ReasonCloudToLan | ReasonRetire

record tombstone =
  tb_generation :: int
  tb_resultSha :: string
  tb_retiredAt :: int
  tb_expiresAt :: int
  tb_operation :: string
  tb_kind :: terminal_kind

record tombstone_input =
  ti_generation :: int
  ti_resultSha :: string
  ti_retiredAt :: stamp
  ti_expiresAt :: stamp
  ti_operation :: string
  ti_kind :: terminal_kind

record tombstone_row =
  tr_tombstone :: tombstone
  tr_host :: "(string \<times> string) option"
  tr_pin :: "string option"

record responder =
  rs_kind :: terminal_kind
  rs_operation :: string
  rs_expiresAt :: int
  rs_responseSha :: string
  rs_replayMember :: "string option"
  rs_eligible :: "(string \<times> string) list"

record deletion_intent =
  in_authorization :: string
  in_member :: string
  in_createdAt :: int
  in_operation :: string
  in_placementGeneration :: int
  in_reason :: deletion_reason
  in_storageKey :: string
  in_node :: string
  in_termOperation :: string
  in_termKind :: terminal_kind

record intent_view =
  iv_intent :: deletion_intent
  iv_phase :: string
  iv_resultSha :: "string option"
  iv_updatedAt :: int

record deletion_db =
  dd_base :: journal_db
  dd_intents :: "deletion_intent list"
  dd_tombstones :: "tombstone_row list"
  dd_responders :: "responder list"
  dd_rows :: "string \<Rightarrow> nat"
  dd_foreign :: "string list"
  dd_receipts :: "(string \<times> string \<times> bool) list"
  dd_keys :: "(string \<times> string) list"
  dd_envelopes :: "(string \<times> string) list"

definition deletion_phases :: "string list" where
  "deletion_phases = [''traffic-denied'', ''repository-delete-intent'', ''repository-removed'',
     ''coordination-removed'', ''tombstoned'', ''completed'']"

section \<open>Tombstones\<close>

definition canonical_tombstone :: "id_checks \<Rightarrow> tombstone_input \<Rightarrow> coord_error + tombstone" where
  "canonical_tombstone ids i =
     rbind (require (positive_safe (ti_generation i))) (\<lambda>_.
     rbind (require (ic_opaque ids (ti_operation i))) (\<lambda>_.
     rbind (require (sha256_ok (ti_resultSha i))) (\<lambda>_.
     rbind (timestamp (ti_retiredAt i)) (\<lambda>retired.
     rbind (timestamp (ti_expiresAt i)) (\<lambda>expires.
     rbind (require (\<not> expires \<le> retired)) (\<lambda>_.
       Inr \<lparr>tb_generation = ti_generation i, tb_resultSha = ti_resultSha i, tb_retiredAt = retired,
             tb_expiresAt = expires, tb_operation = ti_operation i, tb_kind = ti_kind i\<rparr>))))))"

definition tombstone_ok :: "id_checks \<Rightarrow> tombstone \<Rightarrow> bool" where
  "tombstone_ok ids t \<longleftrightarrow> positive_safe (tb_generation t) \<and> ic_opaque ids (tb_operation t)
     \<and> sha256_ok (tb_resultSha t) \<and> tb_retiredAt t < tb_expiresAt t"

text \<open>\<open>ORDER BY authority_generation DESC LIMIT 1\<close>; generations are unique.\<close>

fun latest_row :: "tombstone_row list \<Rightarrow> tombstone_row option" where
  "latest_row [] = None"
| "latest_row (r # rs) =
     (case latest_row rs of
        None \<Rightarrow> Some r
      | Some q \<Rightarrow> if tb_generation (tr_tombstone q) \<le> tb_generation (tr_tombstone r) then Some r else Some q)"

definition get_tombstone ::
  "id_checks \<Rightarrow> string option \<Rightarrow> deletion_db \<Rightarrow> coord_error + tombstone option" where
  "get_tombstone ids opid db =
     rbind (require (option_ok (ic_opaque ids) opid)) (\<lambda>_.
       case latest_row (filter (\<lambda>r. opid = None \<or> opid = Some (tb_operation (tr_tombstone r)))
              (dd_tombstones db)) of
         None \<Rightarrow> Inr None
       | Some r \<Rightarrow> if tombstone_ok ids (tr_tombstone r) then Inr (Some (tr_tombstone r))
                   else Inl InvalidRecord)"

definition get_responder ::
  "id_checks \<Rightarrow> terminal_kind \<Rightarrow> string \<Rightarrow> deletion_db \<Rightarrow> coord_error + responder option" where
  "get_responder ids k opid db =
     rbind (require (ic_opaque ids opid)) (\<lambda>_.
       Inr (find (\<lambda>r. rs_kind r = k \<and> rs_operation r = opid) (dd_responders db)))"

definition host_principal :: "responder option \<Rightarrow> (string \<times> string) option" where
  "host_principal x =
     (case x of None \<Rightarrow> None
      | Some r \<Rightarrow> find (\<lambda>(m, p). rs_replayMember r = Some m) (rs_eligible r))"

definition insert_tombstone ::
  "tombstone \<Rightarrow> (string \<times> string) option \<Rightarrow> string option \<Rightarrow> deletion_db \<Rightarrow> coord_error + deletion_db" where
  "insert_tombstone t host pin db =
     (if list_ex (\<lambda>r. tb_operation (tr_tombstone r) = tb_operation t
            \<or> tb_generation (tr_tombstone r) = tb_generation t) (dd_tombstones db)
         \<or> (host \<noteq> None \<and> tb_kind t \<noteq> TerminalTransfer)
      then Inl DependencyFailed
      else Inr (db\<lparr>dd_tombstones := dd_tombstones db
             @ [\<lparr>tr_tombstone = t, tr_host = host, tr_pin = pin\<rparr>]\<rparr>))"

definition put_tombstone ::
  "id_checks \<Rightarrow> tombstone_input \<Rightarrow> string option \<Rightarrow> deletion_db \<Rightarrow> coord_error + put_result \<times> deletion_db" where
  "put_tombstone ids i pin db =
     rbind (canonical_tombstone ids i) (\<lambda>c.
     rbind (require (option_ok sha256_ok pin)) (\<lambda>_.
     rbind (require (pin = None \<or> tb_kind c = TerminalTransfer)) (\<lambda>_.
     rbind (get_tombstone ids (Some (tb_operation c)) db) (\<lambda>existing.
       if existing \<noteq> None
       then rbind (ensure (existing = Some c) StateConflict) (\<lambda>_.
            rbind (ensure ((case find (\<lambda>r. tb_operation (tr_tombstone r) = tb_operation c) (dd_tombstones db) of
                      None \<Rightarrow> False | Some r \<Rightarrow> tr_pin r = pin)) StateConflict) (\<lambda>_.
              Inr (PutReplayed, db)))
       else
         rbind (get_tombstone ids None db) (\<lambda>latest.
         rbind (ensure (case latest of None \<Rightarrow> True
                  | Some l \<Rightarrow> \<not> (tb_kind l = TerminalRetire \<or> tb_generation l \<ge> tb_generation c))
                StateConflict) (\<lambda>_.
         rbind (if tb_kind c = TerminalTransfer
                then get_responder ids TerminalTransfer (tb_operation c) db else Inr None) (\<lambda>resp.
         rbind (ensure (tb_kind c \<noteq> TerminalTransfer \<or> (host_principal resp \<noteq> None
                  \<and> map_option rs_responseSha resp = Some (tb_resultSha c))) StateConflict) (\<lambda>_.
         rbind (insert_tombstone c (host_principal resp) pin db) (\<lambda>db1.
           Inr (Created, db1)))))))))) "

section \<open>Deletion intents\<close>

definition lower_digit :: "char \<Rightarrow> bool" where
  "lower_digit c \<longleftrightarrow> is_lower c \<or> is_digit c"

text \<open>The patterns of a storage node and of a repository storage key.\<close>

definition node_ok :: "string \<Rightarrow> bool" where
  "node_ok s \<longleftrightarrow> s \<noteq> [] \<and> length s \<le> 64 \<and> lower_digit (hd s) \<and> lower_digit (last s)
     \<and> list_all (\<lambda>c. lower_digit c \<or> c \<in> set ''._-'') s"

definition storage_key_ok :: "string \<Rightarrow> bool" where
  "storage_key_ok s \<longleftrightarrow> s \<noteq> [] \<and> length s \<le> 128 \<and> lower_digit (hd s)
     \<and> list_all (\<lambda>c. lower_digit c \<or> c \<in> set ''_-'') s"

definition intent_ok :: "id_checks \<Rightarrow> deletion_intent \<Rightarrow> bool" where
  "intent_ok ids i \<longleftrightarrow> ic_opaque ids (in_operation i) \<and> ic_member ids (in_member i)
     \<and> sha256_ok (in_authorization i) \<and> ic_opaque ids (in_termOperation i)
     \<and> positive_safe (in_placementGeneration i) \<and> node_ok (in_node i) \<and> storage_key_ok (in_storageKey i)"

text \<open>
  \<open>getDeletionIntent\<close>: the row joined with its journal, from which it takes its phase, its result
  and its last update.
\<close>

definition get_intent ::
  "id_checks \<Rightarrow> string \<Rightarrow> deletion_db \<Rightarrow> coord_error + intent_view option" where
  "get_intent ids opid db =
     rbind (require (ic_opaque ids opid)) (\<lambda>_.
       case (find (\<lambda>i. in_operation i = opid) (dd_intents db), select_journal opid (dd_base db)) of
         (Some i, Some j) \<Rightarrow>
           if j_kind j \<noteq> DeleteKind then Inr None
           else if j_phase j \<notin> set deletion_phases then Inl DependencyFailed
           else if \<not> intent_ok ids i then Inl InvalidRecord
           else Inr (Some \<lparr>iv_intent = i, iv_phase = j_phase j, iv_resultSha = j_resultSha j,
                  iv_updatedAt = j_updatedAt j\<rparr>)
       | _ \<Rightarrow> Inr None)"

definition put_intent ::
  "id_checks \<Rightarrow> deletion_intent \<Rightarrow> deletion_db \<Rightarrow> coord_error + put_result \<times> deletion_db" where
  "put_intent ids i db =
     rbind (require (intent_ok ids i)) (\<lambda>_.
     rbind (get_journal ids (in_operation i) (dd_base db)) (\<lambda>journal.
     rbind (get_tombstone ids (Some (in_termOperation i)) db) (\<lambda>tomb.
     rbind (get_responder ids (in_termKind i) (in_termOperation i) db) (\<lambda>resp.
     rbind (ensure (case (journal, tomb, resp) of
              (Some j, Some t, Some r) \<Rightarrow>
                j_kind j = DeleteKind \<and> j_state j = Active \<and> j_phase j = ''traffic-denied''
                \<and> j_actor j = Some (in_member i) \<and> j_fingerprint j = in_authorization i
                \<and> j_createdAt j = in_createdAt i
                \<and> tb_kind t = in_termKind i \<and> tb_operation t = in_termOperation i
                \<and> rs_expiresAt r = tb_expiresAt t \<and> rs_responseSha r = tb_resultSha t
                \<and> (if in_reason i = ReasonRetire then in_termKind i = TerminalRetire
                   else in_termKind i = TerminalTransfer)
            | _ \<Rightarrow> False) StateConflict) (\<lambda>_.
     rbind (ensure (case filter (\<lambda>x. \<exists>j\<in>set (db_journals (dd_base db)).
                j_operation j = in_operation x \<and> j_state j \<noteq> Completed) (dd_intents db) of
              [] \<Rightarrow> True | x # _ \<Rightarrow> in_operation x = in_operation i) StateConflict) (\<lambda>_.
     let (inserted, db1) =
       (if list_ex (\<lambda>x. in_operation x = in_operation i) (dd_intents db) then (False, db)
        else (True, db\<lparr>dd_intents := dd_intents db @ [i]\<rparr>))
     in rbind (get_intent ids (in_operation i) db1) (\<lambda>stored.
        rbind (ensure (case (stored, journal) of
                 (Some v, Some j) \<Rightarrow> v = \<lparr>iv_intent = i, iv_phase = j_phase j, iv_resultSha = None,
                    iv_updatedAt = j_updatedAt j\<rparr>
               | _ \<Rightarrow> False) StateConflict) (\<lambda>_.
          Inr (if inserted then Created else PutReplayed, db1)))))))))"

section \<open>Removal of the coordination content\<close>

text \<open>The tables that the schema's function empties for the Project.\<close>

definition removed_relations :: "string list" where
  "removed_relations = [''project_recovery_links'', ''project_member_recovery_credentials'',
     ''leave_project_request_facts'', ''protected_claim_override_envelopes'',
     ''transferred_membership_claim_overrides'', ''project_member_removal_journals'',
     ''manager_responsibility_offers'', ''project_membership_idempotency_tombstones'',
     ''secret_replay_tombstones'', ''protected_invitation_envelopes'',
     ''cloud_project_join_journals'', ''project_invitations'', ''cloud_project_creation_journals'',
     ''leave_former_principal_replays'', ''project_principal_bindings'',
     ''transfer_claim_batch_receipts'', ''transferred_membership_claims'',
     ''authority_transfer_recovery'', ''project_backup_catalog'',
     ''development_bootstrap_settlements'', ''development_bootstrap_attempts'',
     ''development_actor_mappings'', ''accept_journal_relations'', ''accept_journals'',
     ''request_ticket_relations'', ''ticket_mentions'', ''ticket_comments'', ''request_comments'',
     ''tickets'', ''change_requests'', ''idempotency_results'', ''project_events'',
     ''project_event_sequences'', ''active_repository_placement_catalog'',
     ''repository_placements'', ''project_memberships'', ''projects'']"

text \<open>The tables that \<open>#verifyMinimalDeletionPartition\<close> requires to be empty.\<close>

definition forbidden_relations :: "string list" where
  "forbidden_relations = [''projects'', ''project_memberships'', ''repository_placements'',
     ''development_actor_mappings'', ''development_bootstrap_attempts'', ''project_events'',
     ''change_requests'', ''request_comments'', ''tickets'', ''ticket_comments'',
     ''request_ticket_relations'', ''ticket_mentions'', ''idempotency_results'',
     ''cloud_project_creation_journals'', ''project_invitations'', ''cloud_project_join_journals'',
     ''protected_invitation_envelopes'', ''secret_replay_tombstones'',
     ''project_membership_idempotency_tombstones'', ''manager_responsibility_offers'',
     ''project_member_removal_journals'', ''transferred_membership_claim_overrides'',
     ''protected_claim_override_envelopes'', ''leave_project_request_facts'', ''accept_journals'',
     ''project_principal_bindings'', ''authority_transfer_recovery'',
     ''transferred_membership_claims'', ''transfer_claim_batch_receipts'',
     ''leave_former_principal_replays'', ''project_backup_catalog'']"

definition has_tombstone :: "terminal_kind \<Rightarrow> string \<Rightarrow> deletion_db \<Rightarrow> bool" where
  "has_tombstone k opid db \<longleftrightarrow> list_ex (\<lambda>r. tb_kind (tr_tombstone r) = k
     \<and> tb_operation (tr_tombstone r) = opid) (dd_tombstones db)"

text \<open>The journals that outlive the removal of operation \<open>opid\<close> and its terminal operation.\<close>

definition journal_kept :: "string \<Rightarrow> string \<Rightarrow> deletion_db \<Rightarrow> journal \<Rightarrow> bool" where
  "journal_kept opid term db j \<longleftrightarrow> j_operation j = opid \<or> j_operation j = term
     \<or> list_ex (\<lambda>r. tb_operation (tr_tombstone r) = j_operation j
          \<or> j_kind j = DeleteKind \<and> j_generation j = tb_generation (tr_tombstone r)
             \<and> j_fingerprint j = tb_resultSha (tr_tombstone r)) (dd_tombstones db)
     \<or> list_ex (\<lambda>i. in_operation i = j_operation j) (dd_intents db)
     \<or> list_ex (\<lambda>(t, k). t = j_operation j) (dd_envelopes db)"

definition receipt_key_kept :: "(string \<times> string) list \<Rightarrow> (string \<times> string \<times> bool) list \<Rightarrow> string \<times> string \<Rightarrow> bool" where
  "receipt_key_kept envelopes receipts key \<longleftrightarrow>
     key \<in> set envelopes \<or> list_ex (\<lambda>(t, k, a). (t, k) = key) receipts"

definition removal_ready :: "string \<Rightarrow> terminal_kind \<Rightarrow> string \<Rightarrow> deletion_db \<Rightarrow> bool" where
  "removal_ready opid k term db \<longleftrightarrow>
     list_ex (\<lambda>i. in_operation i = opid \<and> in_termKind i = k \<and> in_termOperation i = term) (dd_intents db)
     \<and> list_ex (\<lambda>j. j_operation j = opid \<and> j_kind j = DeleteKind \<and> j_state j = Active
          \<and> j_phase j = ''repository-removed'') (db_journals (dd_base db))
     \<and> has_tombstone k term db"

definition remove_content :: "string \<Rightarrow> terminal_kind \<Rightarrow> string \<Rightarrow> deletion_db \<Rightarrow> bool \<times> deletion_db" where
  "remove_content opid k term db =
     (if \<not> removal_ready opid k term db then (False, db)
      else let receipts = filter (\<lambda>(t, key, a). a) (dd_receipts db)
           in (True, db\<lparr>dd_rows := (\<lambda>r. if r \<in> set removed_relations then 0 else dd_rows db r),
                 dd_receipts := receipts,
                 dd_keys := filter (receipt_key_kept (dd_envelopes db) receipts) (dd_keys db),
                 dd_responders := filter (\<lambda>r. has_tombstone (rs_kind r) (rs_operation r) db) (dd_responders db),
                 dd_foreign := [],
                 dd_base := \<lparr>db_journals = filter (journal_kept opid term db) (db_journals (dd_base db)),
                   db_candidates = (\<lambda>c. case db_candidates (dd_base db) c of
                      None \<Rightarrow> None
                    | Some x \<Rightarrow> if c = DeleteKind \<and> cd_operation x = opid then Some x else None)\<rparr>\<rparr>))"

definition forbidden_empty :: "deletion_db \<Rightarrow> bool" where
  "forbidden_empty db \<longleftrightarrow> list_all (\<lambda>r. dd_rows db r = 0) forbidden_relations"

definition all_kinds :: "lifecycle_kind list" where
  "all_kinds = [AuthorityTransfer, Backup, DeleteKind, Export, Leave, RemoveMember, Retire]"

definition continuity_ok :: "string \<Rightarrow> terminal_kind \<Rightarrow> string \<Rightarrow> deletion_db \<Rightarrow> bool" where
  "continuity_ok opid k term db \<longleftrightarrow>
     dd_foreign db = []
     \<and> list_all (\<lambda>c. case db_candidates (dd_base db) c of
          None \<Rightarrow> True | Some x \<Rightarrow> c = DeleteKind \<and> cd_operation x = opid) all_kinds
     \<and> list_all (journal_kept opid term db) (db_journals (dd_base db))
     \<and> list_all (receipt_key_kept (dd_envelopes db) (dd_receipts db)) (dd_keys db)
     \<and> list_all (\<lambda>(t, key, a). a) (dd_receipts db)
     \<and> list_all (\<lambda>r. has_tombstone (rs_kind r) (rs_operation r) db) (dd_responders db)
     \<and> map_option cd_operation (db_candidates (dd_base db) DeleteKind) = Some opid
     \<and> length (filter (\<lambda>i. in_operation i = opid) (dd_intents db)) = 1
     \<and> length (filter (\<lambda>r. rs_kind r = k \<and> rs_operation r = term) (dd_responders db)) \<le> 1
     \<and> length (filter (\<lambda>r. tb_kind (tr_tombstone r) = k \<and> tb_operation (tr_tombstone r) = term)
          (dd_tombstones db)) = 1"

definition verify_partition :: "deletion_intent \<Rightarrow> deletion_db \<Rightarrow> coord_error + unit" where
  "verify_partition i db =
     rbind (ensure (forbidden_empty db) DependencyFailed) (\<lambda>_.
       ensure (continuity_ok (in_operation i) (in_termKind i) (in_termOperation i) db) DependencyFailed)"

definition advance_in ::
  "id_checks \<Rightarrow> advance_input \<Rightarrow> deletion_db \<Rightarrow> coord_error + advance_result \<times> deletion_db" where
  "advance_in ids a db =
     rbind (advance_journal ids a (dd_base db)) (\<lambda>(res, b). Inr (res, db\<lparr>dd_base := b\<rparr>))"

definition plain_advance :: "string \<Rightarrow> string \<Rightarrow> string \<Rightarrow> lifecycle_state \<Rightarrow> string option \<Rightarrow> stamp \<Rightarrow> stamp \<Rightarrow> advance_input" where
  "plain_advance opid expected nxt st result scheduled updated =
     \<lparr>ai_batchRevision = None, ai_batchSha = None, ai_checkpointSha = None,
      ai_expectedPhase = expected, ai_expectedState = Active, ai_nextPhase = nxt, ai_nextState = st,
      ai_operation = opid, ai_recoveryFrom = None, ai_resultSha = result,
      ai_scheduledAt = scheduled, ai_updatedAt = updated\<rparr>"

definition remove_coordination_content ::
  "id_checks \<Rightarrow> string \<Rightarrow> stamp \<Rightarrow> stamp \<Rightarrow> deletion_db \<Rightarrow> coord_error + advance_result \<times> deletion_db" where
  "remove_coordination_content ids opid scheduled updated db =
     rbind (require (ic_opaque ids opid)) (\<lambda>_.
     rbind (timestamp scheduled) (\<lambda>_.
     rbind (timestamp updated) (\<lambda>_.
     rbind (get_intent ids opid db) (\<lambda>view.
       case view of
         None \<Rightarrow> Inl StateConflict
       | Some v \<Rightarrow>
         (let i = iv_intent v in
          rbind (get_tombstone ids (Some (in_termOperation i)) db) (\<lambda>tomb.
          rbind (ensure (case tomb of None \<Rightarrow> False
                   | Some t \<Rightarrow> in_termOperation i = tb_operation t \<and> in_termKind i = tb_kind t)
                 StateConflict) (\<lambda>_.
            if iv_phase v = ''coordination-removed''
            then rbind (verify_partition i db) (\<lambda>_. Inr (AdvanceReplayed, db))
            else if iv_phase v \<noteq> ''repository-removed'' then Inl StateConflict
            else (case remove_content opid (in_termKind i) (in_termOperation i) db of
                    (removed, db1) \<Rightarrow>
                      rbind (ensure removed StateConflict) (\<lambda>_.
                      rbind (advance_in ids (plain_advance opid ''repository-removed''
                               ''coordination-removed'' Active None scheduled updated) db1) (\<lambda>(res, db2).
                      rbind (verify_partition i db2) (\<lambda>_. Inr (res, db2)))))))))))) "

end
