(* ===== verification/Deletion.thy ===== *)
theory Deletion
  imports DeletionStore RecoveryDispatch
begin

text \<open>
  The deletion of a Project,
  \<open>src/src/project-authority/lifecycle/delete/DeletionCoordinator.ts\<close>: the loop that takes the
  journal of a deletion from phase to phase, at most eight times, each step a transaction of
  its own. The repository is present or removed. What the coordinator does not control at its
  k-th step is in the record \<open>deletion_env\<close>: whether the signal is aborted, what the clock shows,
  whether the removal of the repository fails, and whether the database is out of reach.
\<close>

section \<open>Data\<close>

datatype deletion_error =
    DeletionDenied | DeletionClosed | DeletionDependencyFailed | DeletionRecoveryNeeded
  | DeletionConflict

definition deletion_retryable :: "deletion_error \<Rightarrow> bool" where
  "deletion_retryable e \<longleftrightarrow> e = DeletionDependencyFailed"

datatype repository_failure = RepositoryClosed | RepositoryRejected | RepositoryOther

record deletion_env =
  dv_ids :: id_checks
  dv_closed :: bool
  dv_aborted :: "nat \<Rightarrow> bool"
  dv_clock :: "nat \<Rightarrow> int option"
  dv_removal :: "nat \<Rightarrow> repository_failure option"
  dv_outage :: "nat \<Rightarrow> bool"

record deletion_state =
  ds_db :: deletion_db
  ds_repository :: bool

section \<open>Operations\<close>

text \<open>\<open>mapDependency\<close>, on the errors of the coordination and of the repository.\<close>

fun map_coordination :: "coord_error \<Rightarrow> deletion_error" where
  "map_coordination StateConflict = DeletionConflict"
| "map_coordination InvalidRecord = DeletionConflict"
| "map_coordination DependencyFailed = DeletionDependencyFailed"

fun map_repository :: "repository_failure \<Rightarrow> deletion_error" where
  "map_repository RepositoryClosed = DeletionClosed"
| "map_repository RepositoryRejected = DeletionRecoveryNeeded"
| "map_repository RepositoryOther = DeletionDependencyFailed"

definition mapped :: "coord_error + 'a \<Rightarrow> deletion_error + 'a" where
  "mapped r = (case r of Inl e \<Rightarrow> Inl (map_coordination e) | Inr x \<Rightarrow> Inr x)"

definition next_timestamp :: "int option \<Rightarrow> int \<Rightarrow> deletion_error + int" where
  "next_timestamp observed after =
     (case observed of None \<Rightarrow> Inl DeletionDependencyFailed | Some n \<Rightarrow> Inr (max n (after + 1)))"

text \<open>\<open>exactDigest\<close> compares two digests in constant time.\<close>

definition exact_digest :: "string \<Rightarrow> string \<Rightarrow> bool" where
  "exact_digest a b \<longleftrightarrow> sha256_ok a \<and> sha256_ok b \<and> a = b"

definition assert_intent :: "journal \<Rightarrow> intent_view option \<Rightarrow> deletion_error + intent_view" where
  "assert_intent j x =
     (case x of
        None \<Rightarrow> Inl DeletionRecoveryNeeded
      | Some v \<Rightarrow>
          if in_operation (iv_intent v) \<noteq> j_operation j \<or> iv_phase v \<noteq> j_phase j
             \<or> in_authorization (iv_intent v) \<noteq> j_fingerprint j
          then Inl DeletionRecoveryNeeded else Inr v)"

text \<open>\<open>#advance\<close>, and the advance that completes the journal with the tombstone's digest.\<close>

definition deletion_advance ::
  "deletion_env \<Rightarrow> nat \<Rightarrow> journal \<Rightarrow> string \<Rightarrow> lifecycle_state \<Rightarrow> string option \<Rightarrow> deletion_state
     \<Rightarrow> deletion_error + deletion_state" where
  "deletion_advance V k j nxt st result s =
     rbind (next_timestamp (dv_clock V k) (j_updatedAt j)) (\<lambda>u.
     rbind (mapped (advance_in (dv_ids V) (plain_advance (j_operation j) (j_phase j) nxt st result
              (Stamp (j_scheduledAt j)) (Stamp u)) (ds_db s))) (\<lambda>(res, db).
       Inr (s\<lparr>ds_db := db\<rparr>)))"

definition read_tombstone :: "deletion_env \<Rightarrow> intent_view \<Rightarrow> deletion_state \<Rightarrow> deletion_error + tombstone option" where
  "read_tombstone V v s =
     mapped (get_tombstone (dv_ids V) (Some (in_termOperation (iv_intent v))) (ds_db s))"

text \<open>
  The body of one step. The repository is changed before the transaction that records it, so
  the step returns the state even when it fails.
\<close>

definition deletion_action ::
  "deletion_env \<Rightarrow> nat \<Rightarrow> journal \<Rightarrow> intent_view \<Rightarrow> deletion_state \<Rightarrow> (deletion_error + unit) \<times> deletion_state" where
  "deletion_action V k j v s =
     (let keep = (\<lambda>t r. case r of Inl e \<Rightarrow> (Inl e, t) | Inr t' \<Rightarrow> (Inr (), t'))
      in if j_phase j = ''traffic-denied''
         then keep s (deletion_advance V k j ''repository-delete-intent'' Active None s)
         else if j_phase j = ''repository-delete-intent''
         then (case dv_removal V k of
                 Some e \<Rightarrow> (Inl (map_repository e), s)
               | None \<Rightarrow>
                   (let s1 = s\<lparr>ds_repository := False\<rparr>
                    in keep s1 (deletion_advance V k j ''repository-removed'' Active None s1)))
         else if j_phase j = ''repository-removed''
         then keep s (rbind (next_timestamp (dv_clock V k) (j_updatedAt j)) (\<lambda>u.
                rbind (mapped (remove_coordination_content (dv_ids V) (j_operation j)
                         (Stamp (j_scheduledAt j)) (Stamp u) (ds_db s))) (\<lambda>(res, db).
                  Inr (s\<lparr>ds_db := db\<rparr>))))
         else if j_phase j = ''coordination-removed''
         then keep s (rbind (read_tombstone V v s) (\<lambda>tomb.
                rbind (ensure (case tomb of None \<Rightarrow> False
                         | Some t \<Rightarrow> tb_operation t = in_termOperation (iv_intent v)
                             \<and> tb_kind t = in_termKind (iv_intent v)) DeletionRecoveryNeeded) (\<lambda>_.
                  deletion_advance V k j ''tombstoned'' Active None s)))
         else if j_phase j = ''tombstoned''
         then keep s (rbind (read_tombstone V v s) (\<lambda>tomb.
                case tomb of
                  None \<Rightarrow> Inl DeletionRecoveryNeeded
                | Some t \<Rightarrow> deletion_advance V k j ''completed'' Completed (Some (tb_resultSha t)) s))
         else (Inl DeletionRecoveryNeeded, s))"

text \<open>The loop of \<open>recover\<close>: \<open>n\<close> steps are left, this is the k-th.\<close>

fun deletion_loop ::
  "deletion_env \<Rightarrow> nat \<Rightarrow> nat \<Rightarrow> journal \<Rightarrow> deletion_state
     \<Rightarrow> (deletion_error + recovery_outcome) \<times> deletion_state" where
  "deletion_loop V k 0 j s = (Inl DeletionRecoveryNeeded, s)"
| "deletion_loop V k (Suc n) j s =
     (if dv_aborted V k then (Inl DeletionClosed, s)
      else if j_state j = Completed \<and> j_phase j = ''completed'' then (Inr Settled, s)
      else if j_state j \<noteq> Active then (Inl DeletionRecoveryNeeded, s)
      else if dv_outage V k then (Inl DeletionDependencyFailed, s)
      else case rbind (mapped (get_intent (dv_ids V) (j_operation j) (ds_db s))) (assert_intent j) of
             Inl e \<Rightarrow> (Inl e, s)
           | Inr v \<Rightarrow>
               (case deletion_action V k j v s of
                  (Inl e, s1) \<Rightarrow> (Inl e, s1)
                | (Inr _, s1) \<Rightarrow>
                    (case mapped (get_journal (dv_ids V) (j_operation j) (dd_base (ds_db s1))) of
                       Inl e \<Rightarrow> (Inl e, s1)
                     | Inr None \<Rightarrow> (Inl DeletionRecoveryNeeded, s1)
                     | Inr (Some j') \<Rightarrow> deletion_loop V (Suc k) n j' s1)))"

definition maximum_phases :: nat where
  "maximum_phases = 8"

definition deletion_recover ::
  "deletion_env \<Rightarrow> bool \<Rightarrow> journal \<Rightarrow> deletion_state \<Rightarrow> (deletion_error + recovery_outcome) \<times> deletion_state" where
  "deletion_recover V reserved j s =
     (if dv_closed V then (Inl DeletionClosed, s)
      else if \<not> reserved then (Inl DeletionRecoveryNeeded, s)
      else if j_kind j \<noteq> DeleteKind then (Inl DeletionConflict, s)
      else deletion_loop V 0 maximum_phases j s)"

text \<open>
  \<open>resumeAuthorized\<close>, with the answers of the reservation and of the lease: \<open>None\<close> for granted.
\<close>

definition resume_authorized ::
  "(string \<Rightarrow> bool) \<Rightarrow> deletion_env \<Rightarrow> repository_failure option \<Rightarrow> coord_error option
     \<Rightarrow> string \<Rightarrow> string \<Rightarrow> string \<Rightarrow> bool \<Rightarrow> deletion_state
     \<Rightarrow> (deletion_error + recovery_outcome) \<times> deletion_state" where
  "resume_authorized is_project V reservation lease project opid authorization aborted s =
     (if dv_closed V then (Inl DeletionClosed, s)
      else if \<not> is_project project \<or> \<not> ic_opaque (dv_ids V) opid \<or> \<not> sha256_ok authorization \<or> aborted
      then (Inl DeletionDenied, s)
      else case reservation of
             Some e \<Rightarrow> (Inl (map_repository e), s)
           | None \<Rightarrow>
               (case lease of
                  Some e \<Rightarrow> (Inl (map_coordination e), s)
                | None \<Rightarrow>
                    (case (mapped (get_intent (dv_ids V) opid (ds_db s)),
                           mapped (get_journal (dv_ids V) opid (dd_base (ds_db s)))) of
                       (Inl e, _) \<Rightarrow> (Inl e, s)
                     | (_, Inl e) \<Rightarrow> (Inl e, s)
                     | (Inr (Some v), Inr (Some j)) \<Rightarrow>
                         if exact_digest (in_authorization (iv_intent v)) authorization
                         then deletion_recover V True j s
                         else (Inl DeletionDenied, s)
                     | _ \<Rightarrow> (Inl DeletionDenied, s))))"

section \<open>Invariant\<close>

text \<open>
  The database is well formed: the journals are, the keys of the other tables are unique, and
  every row passes the checks that reading it repeats.
\<close>

definition deletion_db_ok :: "id_checks \<Rightarrow> deletion_db \<Rightarrow> bool" where
  "deletion_db_ok ids db \<longleftrightarrow> journal_inv ids (dd_base db)
     \<and> distinct (map in_operation (dd_intents db))
     \<and> distinct (map (\<lambda>r. tb_operation (tr_tombstone r)) (dd_tombstones db))
     \<and> distinct (map (\<lambda>r. (rs_kind r, rs_operation r)) (dd_responders db))
     \<and> (\<forall>r\<in>set (dd_tombstones db). tombstone_ok ids (tr_tombstone r))
     \<and> (\<forall>i\<in>set (dd_intents db). intent_ok ids i)"

text \<open>
  A deletion under way: its journal \<open>j\<close>, its intent and its tombstone belong together, no other
  journal is open, and whatever the journal claims has happened.
\<close>

definition deletion_underway :: "id_checks \<Rightarrow> string \<Rightarrow> deletion_intent \<Rightarrow> tombstone \<Rightarrow> deletion_state \<Rightarrow> bool" where
  "deletion_underway ids opid i t s \<longleftrightarrow> deletion_db_ok ids (ds_db s)
     \<and> i \<in> set (dd_intents (ds_db s)) \<and> in_operation i = opid
     \<and> t \<in> tr_tombstone ` set (dd_tombstones (ds_db s))
     \<and> tb_operation t = in_termOperation i \<and> tb_kind t = in_termKind i
     \<and> (\<forall>q\<in>set (db_journals (dd_base (ds_db s))). open_journal q \<longrightarrow> j_operation q = opid)
     \<and> (\<exists>j. select_journal opid (dd_base (ds_db s)) = Some j \<and> j_kind j = DeleteKind
          \<and> j_fingerprint j = in_authorization i
          \<and> (if j_state j = Active
             then j_phase j \<in> set (butlast deletion_phases) \<and> j_resultSha j = None
             else j_state j = Completed \<and> j_phase j = ''completed'' \<and> j_resultSha j = Some (tb_resultSha t))
          \<and> (j_phase j \<in> set (drop 2 deletion_phases) \<longrightarrow> \<not> ds_repository s)
          \<and> (j_phase j \<in> set (drop 3 deletion_phases) \<longrightarrow> forbidden_empty (ds_db s)))"

lemma advance_in_Inr:
  "advance_in ids a db = Inr (res, db') \<longleftrightarrow>
   (\<exists>b. advance_journal ids a (dd_base db) = Inr (res, b) \<and> db' = db\<lparr>dd_base := b\<rparr>)"
  by (auto simp: advance_in_def rbind_Inr)

interpretation deletion_rows: phase_store "deletion_db_ok ids" "\<lambda>opid db. select_journal opid (dd_base db)"
    "advance_in ids" ids
  for ids :: id_checks
proof unfold_locales
  fix s s' :: deletion_db and opid j a res sch upd
  assume inv: "deletion_db_ok ids s"
  then have base: "journal_inv ids (dd_base s)" by (simp add: deletion_db_ok_def)
  show "row_ok j \<and> typed_row ids j \<and> j_operation j = opid" if "select_journal opid (dd_base s) = Some j"
    by (rule journal_rows.look_row [OF base that])
  show "deletion_db_ok ids s'" if "advance_in ids a s = Inr (res, s')"
    using that inv journal_rows.advance_valid [OF base] by (auto simp: advance_in_Inr deletion_db_ok_def)
  show "\<exists>j sch upd. validate_advance ids a = Inr (sch, upd)
      \<and> select_journal (ai_operation a) (dd_base s) = Some j
      \<and> (\<forall>opid. select_journal opid (dd_base s') = (if opid = ai_operation a
            then Some (advance_row a sch upd j) else select_journal opid (dd_base s)))"
    if "advance_in ids a s = Inr (Advanced, s')"
  proof -
    note p = that
    obtain b where b: "advance_journal ids a (dd_base s) = Inr (Advanced, b)" "dd_base s' = b"
      using p by (auto simp: advance_in_Inr)
    show ?thesis using journal_rows.advance_effect [OF base b(1)] b(2) by simp
  qed
  show "\<exists>s'. advance_in ids a s = Inr (Advanced, s')"
    if "select_journal (ai_operation a) (dd_base s) = Some j" "open_journal j"
      "validate_advance ids a = Inr (sch, upd)" "advance_applies a j" "row_ok (advance_row a sch upd j)"
    using journal_rows.advance_succeeds [OF base that] by (auto simp: advance_in_Inr)
qed

lemma deletion_phases_ok: "list_all phase_ok deletion_phases"
  by code_simp

text \<open>Reading what belongs to the deletion.\<close>

lemma latest_single:
  assumes "distinct (map (\<lambda>r. tb_operation (tr_tombstone r)) rs)" and "r \<in> set rs"
  shows "filter (\<lambda>q. tb_operation (tr_tombstone r) = tb_operation (tr_tombstone q)) rs = [r]"
  using assms
proof (induction rs)
  case (Cons q rs)
  show ?case
  proof (cases "r = q")
    case True
    then show ?thesis using Cons.prems(1) by (auto simp: filter_empty_conv)
  next
    case False
    then have "r \<in> set rs" using Cons.prems(2) by simp
    moreover have "tb_operation (tr_tombstone q) \<notin> (\<lambda>r. tb_operation (tr_tombstone r)) ` set rs"
      using Cons.prems(1) by simp
    ultimately have "tb_operation (tr_tombstone r) \<noteq> tb_operation (tr_tombstone q)" by (metis (mono_tags, lifting) image_eqI)
    then show ?thesis using Cons.IH \<open>r \<in> set rs\<close> Cons.prems(1) by simp
  qed
qed simp

lemma get_tombstone_row:
  assumes "deletion_db_ok ids db" and "t \<in> tr_tombstone ` set (dd_tombstones db)"
  shows "get_tombstone ids (Some (tb_operation t)) db = Inr (Some t)"
proof -
  obtain r where r: "r \<in> set (dd_tombstones db)" "t = tr_tombstone r" using assms(2) by auto
  have "filter (\<lambda>q. tb_operation t = tb_operation (tr_tombstone q)) (dd_tombstones db) = [r]"
    using latest_single [OF _ r(1)] assms(1) r(2) by (simp add: deletion_db_ok_def)
  moreover have "tombstone_ok ids t" using assms(1) r by (auto simp: deletion_db_ok_def)
  ultimately show ?thesis
    using r(2) by (simp add: get_tombstone_def require_def ensure_def option_ok_def tombstone_ok_def)
qed

lemma get_intent_row:
  assumes ok: "deletion_db_ok ids db" and i: "i \<in> set (dd_intents db)"
    and j: "select_journal (in_operation i) (dd_base db) = Some j"
    and k: "j_kind j = DeleteKind" "j_phase j \<in> set deletion_phases"
  shows "get_intent ids (in_operation i) db = Inr (Some \<lparr>iv_intent = i, iv_phase = j_phase j,
    iv_resultSha = j_resultSha j, iv_updatedAt = j_updatedAt j\<rparr>)"
proof -
  have "find (\<lambda>x. in_operation x = in_operation i) (dd_intents db) = Some i"
    using find_distinct [of in_operation "dd_intents db" i] ok i by (simp add: deletion_db_ok_def)
  moreover have "intent_ok ids i" using ok i by (simp add: deletion_db_ok_def)
  ultimately show ?thesis
    using j k by (simp add: get_intent_def require_def ensure_def intent_ok_def)
qed

text \<open>The content removal: what it leaves, and that the check of the partition then passes.\<close>

lemma forbidden_removed: "set forbidden_relations \<subseteq> set removed_relations"
  by (simp add: forbidden_relations_def removed_relations_def)

lemma remove_content_base:
  assumes inv: "journal_inv ids b" and j: "j \<in> set (db_journals b)" "open_journal j" "keep j"
    and k: "j_kind j = DeleteKind" "j_operation j = opid"
  shows "journal_inv ids \<lparr>db_journals = filter keep (db_journals b),
      db_candidates = (\<lambda>c. case db_candidates b c of None \<Rightarrow> None
        | Some x \<Rightarrow> if c = DeleteKind \<and> cd_operation x = opid then Some x else None)\<rparr>"
proof -
  note d = journal_invD [OF inv]
  obtain ys zs where s: "db_journals b = ys @ j # zs" using j(1) by (meson split_list)
  have no: "list_all (\<lambda>r. \<not> open_journal r) (ys @ zs)" using one_open [of ys j zs] d(4) s j(2) by simp
  then have no': "list_all (\<lambda>r. \<not> open_journal r) (filter keep ys @ filter keep zs)"
    by (auto simp: list_all_iff)
  have new: "candidates_of (filter keep (db_journals b))
      = (\<lambda>c. if DeleteKind = c then Some (candidate_of j) else None)"
    using candidates_split [OF no', of j] j(2,3) k s by auto
  have old: "db_candidates b = (\<lambda>c. if DeleteKind = c then Some (candidate_of j) else None)"
    unfolding d(6) using candidates_split [OF no, of j] j(2) k s by auto
  have "length (filter open_journal (filter keep (db_journals b))) \<le> 1"
    using d(4) length_filter_filter [of open_journal keep "db_journals b"] by simp
  then show ?thesis
    using d(1-3,5) new old k(2)
    by (auto simp: journal_inv_def candidate_of_def distinct_map_filter pairwise_def)
qed

lemma remove_content_ok:
  assumes ok: "deletion_db_ok ids db" and i: "i \<in> set (dd_intents db)" "in_operation i = opid"
    and t: "has_tombstone (in_termKind i) (in_termOperation i) db"
    and j: "select_journal opid (dd_base db) = Some j" "j_kind j = DeleteKind" "j_state j = Active"
      "j_phase j = ''repository-removed''"
  obtains db' where "remove_content opid (in_termKind i) (in_termOperation i) db = (True, db')"
    and "deletion_db_ok ids db'" and "select_journal opid (dd_base db') = Some j"
    and "dd_intents db' = dd_intents db" and "dd_tombstones db' = dd_tombstones db"
    and "forbidden_empty db'" and "dd_foreign db' = []"
    and "list_all (journal_kept opid (in_termOperation i) db') (db_journals (dd_base db'))"
    and "list_all (receipt_key_kept (dd_envelopes db') (dd_receipts db')) (dd_keys db')"
    and "list_all (\<lambda>(t, key, a). a) (dd_receipts db')"
    and "list_all (\<lambda>r. has_tombstone (rs_kind r) (rs_operation r) db') (dd_responders db')"
proof -
  let ?keep = "journal_kept opid (in_termOperation i) db"
  define db' where "db' = snd (remove_content opid (in_termKind i) (in_termOperation i) db)"
  have mem: "j \<in> set (db_journals (dd_base db))" and op: "j_operation j = opid"
    using select_mem [OF j(1)] by simp_all
  have base: "journal_inv ids (dd_base db)" using ok by (simp add: deletion_db_ok_def)
  have ready: "removal_ready opid (in_termKind i) (in_termOperation i) db"
    using i t mem op j by (auto simp: removal_ready_def list_ex_iff)
  have keep: "?keep j" using op by (simp add: journal_kept_def)
  have open_j: "open_journal j" using j(3) by (simp add: open_journal_def)
  have inv': "journal_inv ids (dd_base db')"
    using remove_content_base [OF base mem open_j, of ?keep opid] keep j(2) op ready
    by (simp add: db'_def remove_content_def Let_def)
  have jr: "db_journals (dd_base db') = filter ?keep (db_journals (dd_base db))"
    using ready by (simp add: db'_def remove_content_def Let_def)
  have fields: "dd_intents db' = dd_intents db" "dd_tombstones db' = dd_tombstones db"
    "dd_foreign db' = []" "dd_envelopes db' = dd_envelopes db"
    "dd_responders db' = filter (\<lambda>r. has_tombstone (rs_kind r) (rs_operation r) db) (dd_responders db)"
    "dd_receipts db' = filter (\<lambda>(t, key, a). a) (dd_receipts db)"
    "dd_keys db' = filter (receipt_key_kept (dd_envelopes db') (dd_receipts db')) (dd_keys db)"
    "dd_rows db' = (\<lambda>r. if r \<in> set removed_relations then 0 else dd_rows db r)"
    using ready by (simp_all add: db'_def remove_content_def Let_def)
  have "remove_content opid (in_termKind i) (in_termOperation i) db = (True, db')"
    using ready by (simp add: db'_def remove_content_def Let_def)
  moreover have "deletion_db_ok ids db'"
    using ok inv' by (simp add: deletion_db_ok_def fields distinct_map_filter)
  moreover have "select_journal opid (dd_base db') = Some j"
    using select_row [OF journal_invD(1) [OF inv'], of j] mem keep op by (simp add: jr)
  moreover have "forbidden_empty db'"
    using forbidden_removed by (auto simp: forbidden_empty_def list_all_iff fields)
  moreover have "journal_kept opid (in_termOperation i) db' = ?keep"
    by (simp add: fun_eq_iff journal_kept_def fields)
  then have "list_all (journal_kept opid (in_termOperation i) db') (db_journals (dd_base db'))"
    by (simp add: list_all_iff jr)
  moreover have "list_all (\<lambda>r. has_tombstone (rs_kind r) (rs_operation r) db') (dd_responders db')"
    by (simp add: list_all_iff fields has_tombstone_def)
  moreover have "list_all (receipt_key_kept (dd_envelopes db') (dd_receipts db')) (dd_keys db')"
    "list_all (\<lambda>(t, key, a). a) (dd_receipts db')"
    by (simp_all add: list_all_iff fields)
  ultimately show ?thesis using that fields by blast
qed

lemma verify_partition_ok:
  assumes ok: "deletion_db_ok ids db" and i: "i \<in> set (dd_intents db)" "in_operation i = opid"
    and t: "t \<in> tr_tombstone ` set (dd_tombstones db)" "tb_operation t = in_termOperation i" "tb_kind t = in_termKind i"
    and j: "select_journal opid (dd_base db) = Some j" "j_kind j = DeleteKind" "j_state j = Active"
    and left: "forbidden_empty db" "dd_foreign db = []"
      "list_all (journal_kept opid (in_termOperation i) db) (db_journals (dd_base db))"
      "list_all (receipt_key_kept (dd_envelopes db) (dd_receipts db)) (dd_keys db)"
      "list_all (\<lambda>(t, key, a). a) (dd_receipts db)"
      "list_all (\<lambda>r. has_tombstone (rs_kind r) (rs_operation r) db) (dd_responders db)"
  shows "verify_partition i db = Inr ()"
proof -
  have mem: "j \<in> set (db_journals (dd_base db))" and op: "j_operation j = opid"
    using select_mem [OF j(1)] by simp_all
  have base: "journal_inv ids (dd_base db)" using ok by (simp add: deletion_db_ok_def)
  note d = journal_invD [OF base]
  have open_j: "open_journal j" using j(3) by (simp add: open_journal_def)
  obtain ys zs where s: "db_journals (dd_base db) = ys @ j # zs" using mem by (meson split_list)
  have no: "list_all (\<lambda>r. \<not> open_journal r) (ys @ zs)" using one_open [of ys j zs] d(4) s open_j by simp
  have cand: "db_candidates (dd_base db) = (\<lambda>c. if DeleteKind = c then Some (candidate_of j) else None)"
    unfolding d(6) using candidates_split [OF no, of j] open_j j(2) s by auto
  have "length (filter (\<lambda>x. in_operation x = opid) (dd_intents db)) = 1"
    using ok i by (intro filter_one [where x = i and f = in_operation]) (auto simp: deletion_db_ok_def)
  moreover have "length (filter (\<lambda>r. rs_kind r = in_termKind i \<and> rs_operation r = in_termOperation i)
      (dd_responders db)) \<le> 1"
    using ok by (intro filter_at_most_one [where f = "\<lambda>r. (rs_kind r, rs_operation r)"])
      (auto simp: deletion_db_ok_def)
  moreover obtain r where "r \<in> set (dd_tombstones db)" "t = tr_tombstone r" using t(1) by auto
  then have "length (filter (\<lambda>r. tb_kind (tr_tombstone r) = in_termKind i
      \<and> tb_operation (tr_tombstone r) = in_termOperation i) (dd_tombstones db)) = 1"
    using ok t(2,3)
    by (intro filter_one [where x = r and f = "\<lambda>r. tb_operation (tr_tombstone r)"])
      (auto simp: deletion_db_ok_def)
  ultimately have "continuity_ok opid (in_termKind i) (in_termOperation i) db"
    using left op unfolding continuity_ok_def cand
    by (simp add: list_all_iff candidate_of_def all_kinds_def)
  then show ?thesis using left(1) i(2) by (simp add: verify_partition_def ensure_def)
qed

section \<open>One step\<close>

lemma underwayD:
  assumes "deletion_underway ids opid i t s" and "select_journal opid (dd_base (ds_db s)) = Some j"
  shows "deletion_db_ok ids (ds_db s)" and "i \<in> set (dd_intents (ds_db s))" and "in_operation i = opid"
    and "t \<in> tr_tombstone ` set (dd_tombstones (ds_db s))" and "tb_operation t = in_termOperation i"
    and "tb_kind t = in_termKind i" and "j_kind j = DeleteKind" and "j_fingerprint j = in_authorization i"
    and "j_state j = Active \<Longrightarrow> j_phase j \<in> set (butlast deletion_phases) \<and> j_resultSha j = None"
    and "j_state j \<noteq> Active \<Longrightarrow> j_state j = Completed \<and> j_phase j = ''completed''
      \<and> j_resultSha j = Some (tb_resultSha t)"
    and "j_phase j \<in> set (drop 2 deletion_phases) \<Longrightarrow> \<not> ds_repository s"
    and "j_phase j \<in> set (drop 3 deletion_phases) \<Longrightarrow> forbidden_empty (ds_db s)"
    and "q \<in> set (db_journals (dd_base (ds_db s))) \<Longrightarrow> open_journal q \<Longrightarrow> j_operation q = opid"
  using assms by (auto simp: deletion_underway_def split: if_splits)

lemma underway_journal:
  assumes "deletion_underway ids opid i t s"
  obtains j where "select_journal opid (dd_base (ds_db s)) = Some j"
  using assms by (auto simp: deletion_underway_def)

text \<open>The journals beside that of the deletion.\<close>

lemma others_active:
  assumes "deletion_db_ok ids db" and "select_journal opid (dd_base db) = Some j" and "j_state j = Active"
    and "q \<in> set (db_journals (dd_base db))" and "open_journal q"
  shows "j_operation q = opid"
proof -
  have inv: "journal_inv ids (dd_base db)" using assms(1) by (simp add: deletion_db_ok_def)
  have j: "j \<in> set (db_journals (dd_base db))" "j_operation j = opid" "open_journal j"
    using select_mem [OF assms(2)] assms(3) by (auto simp: open_journal_def)
  have "filter open_journal (db_journals (dd_base db)) = [j]"
    using filter_unique [OF journal_invD(4) [OF inv] j(1,3)] .
  moreover have "q \<in> set (filter open_journal (db_journals (dd_base db)))" using assms(4,5) by simp
  ultimately show ?thesis using j(2) by simp
qed

lemma others_kept:
  assumes ok: "journal_inv ids b" and same: "\<And>q. q \<noteq> opid \<Longrightarrow> select_journal q b = select_journal q b0"
    and old: "\<And>q. q \<in> set (db_journals b0) \<Longrightarrow> open_journal q \<Longrightarrow> j_operation q = opid"
    and q: "q \<in> set (db_journals b)" "open_journal q"
  shows "j_operation q = opid"
proof (rule ccontr)
  assume "j_operation q \<noteq> opid"
  moreover from this have "select_journal (j_operation q) b0 = Some q"
    using select_row [OF journal_invD(1) [OF ok] q(1)] same by simp
  ultimately show False using old select_mem q(2) by blast
qed

lemma underwayI:
  assumes "deletion_db_ok ids (ds_db s)" and "i \<in> set (dd_intents (ds_db s))" and "in_operation i = opid"
    and "t \<in> tr_tombstone ` set (dd_tombstones (ds_db s))" and "tb_operation t = in_termOperation i"
    and "tb_kind t = in_termKind i" and "select_journal opid (dd_base (ds_db s)) = Some j"
    and "j_kind j = DeleteKind" and "j_fingerprint j = in_authorization i"
    and "j_state j = Active \<Longrightarrow> j_phase j \<in> set (butlast deletion_phases) \<and> j_resultSha j = None"
    and "j_state j \<noteq> Active \<Longrightarrow> j_state j = Completed \<and> j_phase j = ''completed''
      \<and> j_resultSha j = Some (tb_resultSha t)"
    and "j_phase j \<in> set (drop 2 deletion_phases) \<Longrightarrow> \<not> ds_repository s"
    and "j_phase j \<in> set (drop 3 deletion_phases) \<Longrightarrow> forbidden_empty (ds_db s)"
    and "\<And>q. j_state j \<noteq> Active \<Longrightarrow> q \<in> set (db_journals (dd_base (ds_db s))) \<Longrightarrow> open_journal q
      \<Longrightarrow> j_operation q = opid"
  shows "deletion_underway ids opid i t s"
proof -
  have "\<forall>q\<in>set (db_journals (dd_base (ds_db s))). open_journal q \<longrightarrow> j_operation q = opid"
    using others_active [OF assms(1,7)] assms(14) by blast
  then show ?thesis unfolding deletion_underway_def using assms(1-13) by auto
qed

lemma phases_set:
  "set deletion_phases = {''traffic-denied'', ''repository-delete-intent'', ''repository-removed'',
     ''coordination-removed'', ''tombstoned'', ''completed''}"
  "set (butlast deletion_phases) = {''traffic-denied'', ''repository-delete-intent'', ''repository-removed'',
     ''coordination-removed'', ''tombstoned''}"
  "set (drop 2 deletion_phases) = {''repository-removed'', ''coordination-removed'', ''tombstoned'', ''completed''}"
  "set (drop 3 deletion_phases) = {''coordination-removed'', ''tombstoned'', ''completed''}"
  by (simp_all add: deletion_phases_def)

lemma phase_in_ok: "p \<in> set deletion_phases \<Longrightarrow> phase_ok p"
  using deletion_phases_ok by (simp add: list_all_iff)

text \<open>An advance of the journal of the deletion, alone in its transaction or after the removal.\<close>

lemma advance_next:
  assumes ok: "deletion_db_ok ids db" and l: "select_journal opid (dd_base db) = Some j"
    and act: "j_state j = Active" "j_phase j \<in> set deletion_phases" "j_resultSha j = None"
    and nxt: "nxt \<in> set deletion_phases" "st \<noteq> RecoveryRequired" "option_ok sha256_ok res" "j_updatedAt j < u"
  obtains b j' where "advance_in ids (plain_advance opid (j_phase j) nxt st res (Stamp (j_scheduledAt j)) (Stamp u)) db
      = Inr (Advanced, db\<lparr>dd_base := b\<rparr>)"
    and "deletion_db_ok ids (db\<lparr>dd_base := b\<rparr>)" and "select_journal opid b = Some j'"
    and "j_phase j' = nxt" and "j_state j' = st" and "j_resultSha j' = res"
    and "j_kind j' = j_kind j" and "j_fingerprint j' = j_fingerprint j"
    and "\<And>q. q \<noteq> opid \<Longrightarrow> select_journal q b = select_journal q (dd_base db)"
proof -
  let ?a = "plain_advance opid (j_phase j) nxt st res (Stamp (j_scheduledAt j)) (Stamp u)"
  have opaque: "ic_opaque ids opid"
    using deletion_rows.look_row [OF ok l] by (auto simp: typed_row_def)
  obtain db' where s': "advance_in ids ?a db = Inr (Advanced, db')" "deletion_db_ok ids db'"
    "select_journal opid (dd_base db') = Some (advance_row ?a (j_scheduledAt j) u j)"
    "\<And>q. q \<noteq> opid \<Longrightarrow> select_journal q (dd_base db') = select_journal q (dd_base db)"
    by (rule deletion_rows.next_phase [OF ok l act(1), where a = ?a and u = u])
      (use opaque act nxt phase_in_ok in \<open>auto simp: plain_advance_def\<close>)
  obtain b where b: "db' = db\<lparr>dd_base := b\<rparr>" using s'(1) by (auto simp: advance_in_Inr)
  show ?thesis
    by (rule that [of b "advance_row ?a (j_scheduledAt j) u j"])
      (use s' b act in \<open>auto simp: advance_row_def plain_advance_def coalesce_def\<close>)
qed

lemma deletion_advance_ok:
  assumes un: "deletion_underway ids opid i t s" and l: "select_journal opid (dd_base (ds_db s)) = Some j"
    and act: "j_state j = Active" and ids: "dv_ids V = ids" and clock: "dv_clock V k = Some n"
    and nxt: "st = Active \<and> res = None \<and> nxt \<in> set (butlast deletion_phases)
      \<or> st = Completed \<and> res = Some (tb_resultSha t) \<and> nxt = ''completed''"
    and repo: "nxt \<in> set (drop 2 deletion_phases) \<Longrightarrow> \<not> ds_repository s"
    and empty: "nxt \<in> set (drop 3 deletion_phases) \<Longrightarrow> forbidden_empty (ds_db s)"
  obtains s' j' where "deletion_advance V k j nxt st res s = Inr s'" and "deletion_underway ids opid i t s'"
    and "select_journal opid (dd_base (ds_db s')) = Some j'" and "j_phase j' = nxt"
proof -
  note d = underwayD [OF un l]
  let ?u = "max n (j_updatedAt j + 1)"
  have "tombstone_ok ids t" using d(1,4) by (auto simp: deletion_db_ok_def)
  then have res: "option_ok sha256_ok res" using nxt by (auto simp: option_ok_def tombstone_ok_def)
  have opj: "j_operation j = opid" using deletion_rows.look_row [OF d(1) l] by simp
  obtain b j' where b: "advance_in ids (plain_advance opid (j_phase j) nxt st res
        (Stamp (j_scheduledAt j)) (Stamp ?u)) (ds_db s) = Inr (Advanced, (ds_db s)\<lparr>dd_base := b\<rparr>)"
    "deletion_db_ok ids ((ds_db s)\<lparr>dd_base := b\<rparr>)" "select_journal opid b = Some j'"
    "j_phase j' = nxt" "j_state j' = st" "j_resultSha j' = res" "j_kind j' = j_kind j"
    "j_fingerprint j' = j_fingerprint j"
    "\<And>q. q \<noteq> opid \<Longrightarrow> select_journal q b = select_journal q (dd_base (ds_db s))"
    by (rule advance_next [OF d(1) l act, of nxt st res ?u])
      (use d(9) [OF act] nxt res in \<open>auto simp: phases_set\<close>)
  have inv: "journal_inv ids b" using b(2) by (simp add: deletion_db_ok_def)
  let ?s = "s\<lparr>ds_db := (ds_db s)\<lparr>dd_base := b\<rparr>\<rparr>"
  have "j_operation q = opid" if "q \<in> set (db_journals b)" "open_journal q" for q
    by (rule others_kept [OF inv b(9) d(13) that])
  then have "deletion_underway ids opid i t ?s"
    by (intro underwayI [where j = j'])
      (use b d(1-12) nxt repo empty in \<open>auto simp: forbidden_empty_def\<close>)
  moreover have "deletion_advance V k j nxt st res s = Inr ?s"
    using b(1) opj by (simp add: deletion_advance_def next_timestamp_def clock ids mapped_def)
  ultimately show ?thesis using that [of ?s j'] b(3,4) by simp
qed

lemma removal_step:
  assumes un: "deletion_underway ids opid i t s" and l: "select_journal opid (dd_base (ds_db s)) = Some j"
    and act: "j_state j = Active" "j_phase j = ''repository-removed''" and u: "j_updatedAt j < u"
  obtains db' j' where "remove_coordination_content ids opid (Stamp (j_scheduledAt j)) (Stamp u) (ds_db s)
      = Inr (Advanced, db')"
    and "deletion_underway ids opid i t (s\<lparr>ds_db := db'\<rparr>)"
    and "select_journal opid (dd_base db') = Some j'" and "j_phase j' = ''coordination-removed''"
proof -
  note d = underwayD [OF un l]
  have tm: "has_tombstone (in_termKind i) (in_termOperation i) (ds_db s)"
    using d(4-6) by (auto simp: has_tombstone_def list_ex_iff)
  obtain db1 where c: "remove_content opid (in_termKind i) (in_termOperation i) (ds_db s) = (True, db1)"
    "deletion_db_ok ids db1" "select_journal opid (dd_base db1) = Some j" "dd_intents db1 = dd_intents (ds_db s)"
    "dd_tombstones db1 = dd_tombstones (ds_db s)" "forbidden_empty db1" "dd_foreign db1 = []"
    "list_all (journal_kept opid (in_termOperation i) db1) (db_journals (dd_base db1))"
    "list_all (receipt_key_kept (dd_envelopes db1) (dd_receipts db1)) (dd_keys db1)"
    "list_all (\<lambda>(t, key, a). a) (dd_receipts db1)"
    "list_all (\<lambda>r. has_tombstone (rs_kind r) (rs_operation r) db1) (dd_responders db1)"
    by (rule remove_content_ok [OF d(1-3) tm l d(7) act])
  obtain b j' where b: "advance_in ids (plain_advance opid (j_phase j) ''coordination-removed'' Active None
        (Stamp (j_scheduledAt j)) (Stamp u)) db1 = Inr (Advanced, db1\<lparr>dd_base := b\<rparr>)"
    "deletion_db_ok ids (db1\<lparr>dd_base := b\<rparr>)" "select_journal opid b = Some j'"
    "j_phase j' = ''coordination-removed''" "j_state j' = Active" "j_resultSha j' = None"
    "j_kind j' = j_kind j" "j_fingerprint j' = j_fingerprint j"
    "\<And>q. q \<noteq> opid \<Longrightarrow> select_journal q b = select_journal q (dd_base db1)"
    by (rule advance_next [OF c(2,3) act(1), of "''coordination-removed''" Active None u])
      (use d(9) [OF act(1)] u in \<open>auto simp: phases_set option_ok_def\<close>)
  let ?db = "db1\<lparr>dd_base := b\<rparr>"
  have kept: "journal_kept opid (in_termOperation i) ?db r" if r: "r \<in> set (db_journals b)" for r
  proof (cases "j_operation r = opid")
    case False
    have "distinct (map j_operation (db_journals b))"
      using b(2) by (simp add: deletion_db_ok_def journal_inv_def)
    then have "select_journal (j_operation r) b = Some r" using select_row r by blast
    then have "r \<in> set (db_journals (dd_base db1))" using b(9) False select_mem by metis
    then show ?thesis using c(8) by (simp add: list_all_iff journal_kept_def)
  qed (simp add: journal_kept_def)
  have has: "has_tombstone a x ?db = has_tombstone a x db1" for a x by (simp add: has_tombstone_def)
  have v: "verify_partition i ?db = Inr ()"
    by (rule verify_partition_ok [where j = j' and t = t, OF b(2) _ d(3)])
      (use b c d kept in \<open>auto simp: list_all_iff forbidden_empty_def has\<close>)
  have un': "deletion_underway ids opid i t (s\<lparr>ds_db := ?db\<rparr>)"
    by (rule underwayI [where j = j'])
      (use b c d act in \<open>auto simp: forbidden_empty_def phases_set\<close>)
  have opaque: "ic_opaque ids opid"
    using deletion_rows.look_row [OF d(1) l] by (auto simp: typed_row_def)
  have gi: "get_intent ids opid (ds_db s) = Inr (Some \<lparr>iv_intent = i, iv_phase = j_phase j,
      iv_resultSha = j_resultSha j, iv_updatedAt = j_updatedAt j\<rparr>)"
    using get_intent_row [OF d(1,2)] l d(3,7) act(2) by (simp add: phases_set)
  have gt: "get_tombstone ids (Some (in_termOperation i)) (ds_db s) = Inr (Some t)"
    using get_tombstone_row [OF d(1,4)] d(5) by simp
  have "remove_coordination_content ids opid (Stamp (j_scheduledAt j)) (Stamp u) (ds_db s) = Inr (Advanced, ?db)"
    using gi gt b(1) v c(1) d(5,6) opaque act
    by (simp add: remove_coordination_content_def require_def timestamp_def Let_def)
  then show ?thesis using that [OF _ un'] b(3,4) by simp
qed

text \<open>
  A step succeeds when the clock can be read and the repository can be removed; then the
  journal is one phase further. It never leaves the deletion in a state where the journal
  claims too much.
\<close>

fun next_phase_of :: "string \<Rightarrow> string list \<Rightarrow> string" where
  "next_phase_of p (q # r # rs) = (if p = q then r else next_phase_of p (r # rs))"
| "next_phase_of p _ = p"

lemma underway_repository:
  "deletion_underway ids opid i t s \<Longrightarrow> deletion_underway ids opid i t (s\<lparr>ds_repository := False\<rparr>)"
  by (auto simp: deletion_underway_def)

lemma deletion_action_underway:
  assumes un: "deletion_underway ids opid i t s" and l: "select_journal opid (dd_base (ds_db s)) = Some j"
    and act: "j_state j = Active" and ids: "dv_ids V = ids" and v: "iv_intent v = i"
  shows "deletion_underway ids opid i t (snd (deletion_action V k j v s))
    \<and> (fst (deletion_action V k j v s) = Inr () \<longrightarrow>
        (\<exists>j'. select_journal opid (dd_base (ds_db (snd (deletion_action V k j v s)))) = Some j'
          \<and> j_phase j' = next_phase_of (j_phase j) deletion_phases))
    \<and> (dv_clock V k \<noteq> None \<and> dv_removal V k = None \<longrightarrow> fst (deletion_action V k j v s) = Inr ())"
proof -
  note d = underwayD [OF un l]
  have p: "j_phase j \<in> set (butlast deletion_phases)" using d(9) [OF act] by simp
  have opj: "j_operation j = opid" using deletion_rows.look_row [OF d(1) l] by simp
  have gt: "get_tombstone ids (Some (in_termOperation i)) (ds_db s) = Inr (Some t)"
    using get_tombstone_row [OF d(1,4)] d(5) by simp
  have none: "deletion_advance V k j nxt st res q = Inl DeletionDependencyFailed"
    if "dv_clock V k = None" for nxt st res q
    using that by (simp add: deletion_advance_def next_timestamp_def)
  have ok: "\<exists>s' j'. deletion_advance V k j nxt st res q = Inr s' \<and> deletion_underway ids opid i t s'
      \<and> select_journal opid (dd_base (ds_db s')) = Some j' \<and> j_phase j' = nxt"
    if "dv_clock V k = Some n" "deletion_underway ids opid i t q"
      "select_journal opid (dd_base (ds_db q)) = Some j"
      "st = Active \<and> res = None \<and> nxt \<in> set (butlast deletion_phases)
        \<or> st = Completed \<and> res = Some (tb_resultSha t) \<and> nxt = ''completed''"
      "nxt \<in> set (drop 2 deletion_phases) \<longrightarrow> \<not> ds_repository q"
      "nxt \<in> set (drop 3 deletion_phases) \<longrightarrow> forbidden_empty (ds_db q)" for nxt st res q n
    using deletion_advance_ok [OF that(2,3) act ids that(1,4)] that(5,6) by metis
  consider (a) "j_phase j = ''traffic-denied''" | (b) "j_phase j = ''repository-delete-intent''"
    | (c) "j_phase j = ''repository-removed''" | (d) "j_phase j = ''coordination-removed''"
    | (e) "j_phase j = ''tombstoned''"
    using p by (auto simp: phases_set)
  then show ?thesis
  proof cases
    case a
    then show ?thesis
      using un none [of "''repository-delete-intent''"] ok [OF _ un l, of _ Active None "''repository-delete-intent''"]
      by (cases "dv_clock V k") (auto simp: deletion_action_def phases_set deletion_phases_def)
  next
    case b
    let ?s = "s\<lparr>ds_repository := False\<rparr>"
    have un': "deletion_underway ids opid i t ?s" by (rule underway_repository [OF un])
    show ?thesis
      using b un un' l none [of "''repository-removed''"] ok [of _ ?s Active None "''repository-removed''"]
      by (cases "dv_clock V k"; cases "dv_removal V k")
        (auto simp: deletion_action_def phases_set deletion_phases_def Let_def)
  next
    case c
    show ?thesis
    proof (cases "dv_clock V k")
      case None
      then show ?thesis using c un by (simp add: deletion_action_def next_timestamp_def)
    next
      case (Some n)
      let ?u = "max n (j_updatedAt j + 1)"
      obtain db' j' where r: "remove_coordination_content ids opid (Stamp (j_scheduledAt j)) (Stamp ?u) (ds_db s)
          = Inr (Advanced, db')" "deletion_underway ids opid i t (s\<lparr>ds_db := db'\<rparr>)"
        "select_journal opid (dd_base db') = Some j'" "j_phase j' = ''coordination-removed''"
        by (rule removal_step [OF un l act c, of ?u]) simp
      then show ?thesis
        using c Some opj ids
        by (simp add: deletion_action_def next_timestamp_def mapped_def deletion_phases_def)
    qed
  next
    case d
    then show ?thesis
      using underwayD [OF un l] un gt v ids none [of "''tombstoned''"] ok [OF _ un l, of _ Active None "''tombstoned''"]
      by (cases "dv_clock V k") (auto simp: deletion_action_def phases_set deletion_phases_def read_tombstone_def mapped_def)
  next
    case e
    then show ?thesis
      using underwayD [OF un l] un gt v ids none [of "''completed''"]
        ok [OF _ un l, of _ Completed "Some (tb_resultSha t)" "''completed''"]
      by (cases "dv_clock V k") (auto simp: deletion_action_def phases_set deletion_phases_def read_tombstone_def mapped_def)
  qed
qed

section \<open>Runs\<close>

fun phases_left :: "string \<Rightarrow> string list \<Rightarrow> nat" where
  "phases_left p [] = 0"
| "phases_left p (q # qs) = (if p = q then Suc (length qs) else phases_left p qs)"

definition clean_run :: "deletion_env \<Rightarrow> bool" where
  "clean_run V \<longleftrightarrow> \<not> dv_closed V \<and> (\<forall>k. \<not> dv_aborted V k \<and> dv_clock V k \<noteq> None \<and> dv_removal V k = None \<and> \<not> dv_outage V k)"

lemma intent_assert:
  assumes "deletion_underway ids opid i t s" and "select_journal opid (dd_base (ds_db s)) = Some j"
    and "j_state j = Active"
  obtains v where "rbind (mapped (get_intent ids (j_operation j) (ds_db s))) (assert_intent j) = Inr v"
    and "iv_intent v = i"
proof -
  note d = underwayD [OF assms(1,2)]
  have opj: "j_operation j = opid" using deletion_rows.look_row [OF d(1) assms(2)] by simp
  have "j_phase j \<in> set deletion_phases" using d(9) [OF assms(3)] by (auto simp: phases_set)
  then have "get_intent ids opid (ds_db s) = Inr (Some \<lparr>iv_intent = i, iv_phase = j_phase j,
      iv_resultSha = j_resultSha j, iv_updatedAt = j_updatedAt j\<rparr>)"
    using get_intent_row [OF d(1,2)] assms(2) d(3,7) by simp
  then show ?thesis using that d(3,8) opj by (simp add: mapped_def assert_intent_def)
qed

lemma journal_read:
  assumes "deletion_underway ids opid i t s" and "select_journal opid (dd_base (ds_db s)) = Some j"
  shows "get_journal ids opid (dd_base (ds_db s)) = Inr (Some j)"
proof -
  note d = underwayD [OF assms]
  have base: "journal_inv ids (dd_base (ds_db s))" using d(1) by (simp add: deletion_db_ok_def)
  note m = select_mem [OF assms(2)]
  show ?thesis
    using get_journal_row [OF journal_invD(1) [OF base], of j ids] m journal_invD(2,3) [OF base, of j] by simp
qed

lemma deletion_loop_underway:
  assumes "deletion_underway ids opid i t s" and "select_journal opid (dd_base (ds_db s)) = Some j"
    and "dv_ids V = ids"
  shows "deletion_underway ids opid i t (snd (deletion_loop V k n j s))
    \<and> (\<forall>oc. fst (deletion_loop V k n j s) = Inr oc \<longrightarrow> oc = Settled
        \<and> (\<exists>j'. select_journal opid (dd_base (ds_db (snd (deletion_loop V k n j s)))) = Some j'
             \<and> j_state j' = Completed))"
  using assms
proof (induction n arbitrary: k j s)
  case (Suc n)
  show ?case
  proof (cases "j_state j = Active \<and> \<not> dv_aborted V k \<and> \<not> dv_outage V k")
    case True
    obtain v where v: "rbind (mapped (get_intent ids (j_operation j) (ds_db s))) (assert_intent j) = Inr v"
      "iv_intent v = i"
      by (rule intent_assert [OF Suc.prems(1,2)]) (use True in simp)
    obtain r s1 where a: "deletion_action V k j v s = (r, s1)" by (cases "deletion_action V k j v s")
    have step: "deletion_underway ids opid i t s1"
      using deletion_action_underway [OF Suc.prems(1,2) _ Suc.prems(3) v(2), of k] True a by simp
    obtain j' where j': "select_journal opid (dd_base (ds_db s1)) = Some j'"
      using underway_journal [OF step] .
    have opj: "j_operation j = opid"
      using deletion_rows.look_row [OF underwayD(1) [OF Suc.prems(1,2)] Suc.prems(2)] by simp
    show ?thesis
      using Suc.IH [OF step j' Suc.prems(3), of "Suc k"] v a step True opj Suc.prems(3)
        journal_read [OF step j']
      by (cases r) (simp_all add: mapped_def)
  qed (use Suc.prems in auto)
qed simp

lemma deletion_loop_completes:
  assumes "deletion_underway ids opid i t s" and "select_journal opid (dd_base (ds_db s)) = Some j"
    and "dv_ids V = ids" and "clean_run V" and "phases_left (j_phase j) deletion_phases \<le> n"
  shows "fst (deletion_loop V k n j s) = Inr Settled"
  using assms
proof (induction n arbitrary: k j s)
  case 0
  have "j_phase j \<in> set deletion_phases"
    using underwayD(9,10) [OF 0(1,2)] by (cases "j_state j = Active") (auto simp: phases_set)
  then show ?case using 0(5) by (auto simp: phases_set deletion_phases_def)
next
  case (Suc n)
  note d = underwayD [OF Suc.prems(1,2)]
  have go: "\<not> dv_aborted V k" "dv_clock V k \<noteq> None" "dv_removal V k = None" "\<not> dv_outage V k"
    using Suc.prems(4) by (simp_all add: clean_run_def)
  show ?case
  proof (cases "j_state j = Active")
    case True
    obtain v where v: "rbind (mapped (get_intent ids (j_operation j) (ds_db s))) (assert_intent j) = Inr v"
      "iv_intent v = i"
      by (rule intent_assert [OF Suc.prems(1,2) True])
    obtain r s1 where a: "deletion_action V k j v s = (r, s1)" by (cases "deletion_action V k j v s")
    obtain j' where step: "deletion_underway ids opid i t s1" "r = Inr ()"
      "select_journal opid (dd_base (ds_db s1)) = Some j'"
      "j_phase j' = next_phase_of (j_phase j) deletion_phases"
      using deletion_action_underway [OF Suc.prems(1,2) True Suc.prems(3) v(2), of k] go a by auto
    have "phases_left (j_phase j') deletion_phases \<le> n"
      using Suc.prems(5) d(9) [OF True] step(4) by (auto simp: deletion_phases_def)
    moreover have "j_operation j = opid"
      using deletion_rows.look_row [OF d(1) Suc.prems(2)] by simp
    ultimately show ?thesis
      using Suc.IH [OF step(1,3) Suc.prems(3,4), of "Suc k"] v a step go True Suc.prems(3)
        journal_read [OF step(1,3)]
      by (simp add: mapped_def)
  qed (use d(10) go in simp)
qed

text \<open>What the parties outside the model do in one run: the answers and the arguments.\<close>

record deletion_run =
  dr_env :: deletion_env
  dr_reservation :: "repository_failure option"
  dr_lease :: "coord_error option"
  dr_project :: string
  dr_authorization :: string
  dr_aborted :: bool

definition deletion_resume ::
  "(string \<Rightarrow> bool) \<Rightarrow> string \<Rightarrow> deletion_run \<Rightarrow> deletion_state
     \<Rightarrow> (deletion_error + recovery_outcome) \<times> deletion_state" where
  "deletion_resume is_project opid r s =
     resume_authorized is_project (dr_env r) (dr_reservation r) (dr_lease r) (dr_project r) opid
       (dr_authorization r) (dr_aborted r) s"

definition deletion_runs ::
  "(string \<Rightarrow> bool) \<Rightarrow> string \<Rightarrow> deletion_run list \<Rightarrow> deletion_state \<Rightarrow> deletion_state" where
  "deletion_runs is_project opid rs s = fold (\<lambda>r s. snd (deletion_resume is_project opid r s)) rs s"

lemma deletion_recover_underway:
  assumes "deletion_underway ids opid i t s" and "select_journal opid (dd_base (ds_db s)) = Some j"
    and "dv_ids V = ids"
  shows "deletion_underway ids opid i t (snd (deletion_recover V b j s))"
  using deletion_loop_underway [OF assms, of 0 maximum_phases] assms(1)
  by (simp add: deletion_recover_def)

lemma resume_underway:
  assumes un: "deletion_underway ids opid i t s" and ids: "dv_ids (dr_env r) = ids"
  shows "deletion_underway ids opid i t (snd (deletion_resume is_project opid r s))"
proof -
  obtain j where j: "select_journal opid (dd_base (ds_db s)) = Some j" using underway_journal [OF un] .
  have "deletion_underway ids opid i t (snd (deletion_recover (dr_env r) True j s))"
    by (rule deletion_recover_underway [OF un j ids])
  then show ?thesis
    using un ids journal_read [OF un j]
    by (simp add: deletion_resume_def resume_authorized_def mapped_def split: option.split sum.split)
qed

lemma runs_underway:
  assumes "deletion_underway ids opid i t s" and "\<forall>r\<in>set rs. dv_ids (dr_env r) = ids"
  shows "deletion_underway ids opid i t (deletion_runs is_project opid rs s)"
  using assms by (induction rs arbitrary: s) (simp_all add: deletion_runs_def resume_underway)

lemma latest_row_mem: "latest_row rs = Some r \<Longrightarrow> r \<in> set rs"
  by (induction rs arbitrary: r) (auto split: option.splits if_splits)

lemma get_tombstone_mem:
  assumes "get_tombstone ids x db = Inr (Some t)"
  shows "t \<in> tr_tombstone ` set (dd_tombstones db)"
proof -
  obtain r where "latest_row (filter (\<lambda>r. x = None \<or> x = Some (tb_operation (tr_tombstone r)))
      (dd_tombstones db)) = Some r" "t = tr_tombstone r"
    using assms by (auto simp: get_tombstone_def result_simps split: option.splits if_splits)
  then show ?thesis using latest_row_mem by fastforce
qed

text \<open>A deletion is under way as soon as its intent is recorded.\<close>

lemma put_intent_underway:
  assumes ok: "deletion_db_ok ids db" and p: "put_intent ids i db = Inr (res, db')"
  shows "\<exists>t. get_tombstone ids (Some (in_termOperation i)) db = Inr (Some t)
    \<and> deletion_underway ids (in_operation i) i t \<lparr>ds_db = db', ds_repository = b\<rparr>"
proof -
  let ?db1 = "snd (if list_ex (\<lambda>x. in_operation x = in_operation i) (dd_intents db) then (False, db)
        else (True, db\<lparr>dd_intents := dd_intents db @ [i]\<rparr>))"
  obtain jo to ro vo where iok: "intent_ok ids i"
    and g: "get_journal ids (in_operation i) (dd_base db) = Inr jo"
      "get_tombstone ids (Some (in_termOperation i)) db = Inr to"
      "get_responder ids (in_termKind i) (in_termOperation i) db = Inr ro"
    and match: "case (jo, to, ro) of
              (Some j, Some t, Some r) \<Rightarrow>
                j_kind j = DeleteKind \<and> j_state j = Active \<and> j_phase j = ''traffic-denied''
                \<and> j_actor j = Some (in_member i) \<and> j_fingerprint j = in_authorization i
                \<and> j_createdAt j = in_createdAt i
                \<and> tb_kind t = in_termKind i \<and> tb_operation t = in_termOperation i
                \<and> rs_expiresAt r = tb_expiresAt t \<and> rs_responseSha r = tb_resultSha t
                \<and> (if in_reason i = ReasonRetire then in_termKind i = TerminalRetire
                   else in_termKind i = TerminalTransfer)
            | _ \<Rightarrow> False"
    and vo: "get_intent ids (in_operation i) ?db1 = Inr vo"
    and same: "case (vo, jo) of
                 (Some v, Some j) \<Rightarrow> v = \<lparr>iv_intent = i, iv_phase = j_phase j, iv_resultSha = None,
                    iv_updatedAt = j_updatedAt j\<rparr>
               | _ \<Rightarrow> False"
    and db': "db' = ?db1"
    using p unfolding put_intent_def rbind_Inr require_Inr ensure_Inr case_prod_beta Let_def
    by (elim exE conjE) (rule that, assumption+, simp_all only: fst_conv snd_conv sum.inject prod.inject prod.case)
  obtain j t where q: "jo = Some j" "to = Some t" "j_kind j = DeleteKind" "j_state j = Active"
    "j_phase j = ''traffic-denied''" "j_fingerprint j = in_authorization i" "tb_kind t = in_termKind i"
    "tb_operation t = in_termOperation i"
    using match by (cases jo; cases to; cases ro) simp_all
  obtain v where v: "get_intent ids (in_operation i) db' = Inr (Some v)"
    "v = \<lparr>iv_intent = i, iv_phase = j_phase j, iv_resultSha = None, iv_updatedAt = j_updatedAt j\<rparr>"
    using same vo db' q(1) by (cases vo) simp_all
  have base: "journal_inv ids (dd_base db)" using ok by (simp add: deletion_db_ok_def)
  have j: "j \<in> set (db_journals (dd_base db))" "j_operation j = in_operation i"
    using get_journal_mem [of ids "in_operation i" "dd_base db" j] g(1) q(1) by simp_all
  have sel: "select_journal (in_operation i) (dd_base db') = Some j"
    using select_row [OF journal_invD(1) [OF base] j(1)] j(2) db' by auto
  have i: "i \<in> set (dd_intents db')" "j_resultSha j = None"
    using v sel by (auto simp: get_intent_def result_simps find_Some_iff split: option.splits if_splits)
  have mem: "t \<in> tr_tombstone ` set (dd_tombstones db)" by (rule get_tombstone_mem [OF g(2) [unfolded q(2)]])
  have "in_operation i \<notin> in_operation ` set (dd_intents db)"
    if "\<not> list_ex (\<lambda>x. in_operation x = in_operation i) (dd_intents db)"
    using that by (auto simp: list_ex_iff)
  then have ok': "deletion_db_ok ids db'" using ok iok db' by (auto simp: deletion_db_ok_def)
  have "deletion_underway ids (in_operation i) i t \<lparr>ds_db = db', ds_repository = b\<rparr>"
    by (rule underwayI [where j = j]) (use ok' q sel i mem db' in \<open>auto simp: phases_set\<close>)
  then show ?thesis using g(2) q(2) by blast
qed

section \<open>Properties\<close>

lemma resume_Inr:
  assumes un: "deletion_underway ids opid i t s" and ids: "dv_ids (dr_env r) = ids"
    and out: "deletion_resume is_project opid r s = (Inr oc, s')"
  shows "oc = Settled \<and> (\<exists>j. select_journal opid (dd_base (ds_db s')) = Some j \<and> j_state j = Completed)"
proof -
  obtain j where j: "select_journal opid (dd_base (ds_db s)) = Some j" using underway_journal [OF un] .
  have "deletion_loop (dr_env r) 0 maximum_phases j s = (Inr oc, s')"
    using out ids journal_read [OF un j]
    by (auto simp: deletion_resume_def resume_authorized_def deletion_recover_def mapped_def
        split: option.splits sum.splits if_splits)
  then show ?thesis using deletion_loop_underway [OF un j ids, of 0 maximum_phases] by simp
qed

definition demo_intent :: deletion_intent where
  "demo_intent = \<lparr>in_authorization = replicate 64 CHR ''0'', in_member = ''m'', in_createdAt = 10,
     in_operation = ''d1'', in_placementGeneration = 1, in_reason = ReasonRetire,
     in_storageKey = ''key'', in_node = ''node1'', in_termOperation = ''r1'', in_termKind = TerminalRetire\<rparr>"

definition demo_tombstone :: tombstone where
  "demo_tombstone = \<lparr>tb_generation = 1, tb_resultSha = replicate 64 CHR ''b'', tb_retiredAt = 5,
     tb_expiresAt = 100, tb_operation = ''r1'', tb_kind = TerminalRetire\<rparr>"

definition demo_content :: deletion_db where
  "demo_content = \<lparr>dd_base = run (journal_step demo_ids) empty_journals
       [PutJournal ((demo_journal ''d1'' ''k1'')\<lparr>ji_kind := DeleteKind, ji_phase := ''traffic-denied''\<rparr>)],
     dd_intents = [], dd_tombstones = [\<lparr>tr_tombstone = demo_tombstone, tr_host = None, tr_pin = None\<rparr>],
     dd_responders = [\<lparr>rs_kind = TerminalRetire, rs_operation = ''r1'', rs_expiresAt = 100,
       rs_responseSha = replicate 64 CHR ''b'', rs_replayMember = None, rs_eligible = []\<rparr>],
     dd_rows = (\<lambda>_. 3), dd_foreign = [''bootstrap''], dd_receipts = [(''o'', ''k'', False)],
     dd_keys = [(''o'', ''k'')], dd_envelopes = []\<rparr>"

definition demo_env :: deletion_env where
  "demo_env = \<lparr>dv_ids = demo_ids, dv_closed = False, dv_aborted = (\<lambda>_. False), dv_clock = (\<lambda>_. Some 50),
     dv_removal = (\<lambda>_. None), dv_outage = (\<lambda>_. False)\<rparr>"

definition demo_run :: deletion_run where
  "demo_run = \<lparr>dr_env = demo_env, dr_reservation = None, dr_lease = None, dr_project = ''p'',
     dr_authorization = replicate 64 CHR ''0'', dr_aborted = False\<rparr>"

text \<open>A run in which the removal of the repository fails.\<close>

definition demo_crash :: deletion_run where
  "demo_crash = demo_run\<lparr>dr_env := demo_env\<lparr>dv_removal := (\<lambda>_. Some RepositoryOther)\<rparr>\<rparr>"

lemma demo_content_ok: "deletion_db_ok demo_ids demo_content"
proof -
  have "journal_inv demo_ids (dd_base demo_content)"
    by (simp only: demo_content_def deletion_db.simps journals_reachable)
  moreover have "tombstone_ok demo_ids demo_tombstone" by code_simp
  ultimately show ?thesis by (simp add: deletion_db_ok_def) (simp add: demo_content_def)
qed

lemma demo_put: "\<exists>db'. put_intent demo_ids demo_intent demo_content = Inr (Created, db')"
proof -
  have "map_sum id fst (put_intent demo_ids demo_intent demo_content) = Inr Created" by code_simp
  then show ?thesis by (cases "put_intent demo_ids demo_intent demo_content") auto
qed

text \<open>C24. From the moment its intent is recorded, and whatever fails in however many runs of
  \<open>resumeAuthorized\<close> (aborts, a lost clock, an unreachable database, a repository that cannot be
  removed, refused leases and reservations, wrong authorizations), a deletion never claims more
  than has happened: from phase \<open>repository-removed\<close> on the repository is gone, from
  \<open>coordination-removed\<close> on every relation that must be empty is empty, and the journal is
  completed only in phase \<open>completed\<close>, with the digest of the tombstone it rests on. A run that
  returns without an error returns \<open>settled\<close> on a completed journal.\<close>

theorem deletion_never_overclaims:
  assumes ok: "deletion_db_ok ids db" and p: "put_intent ids i db = Inr (res, db')"
    and ids: "\<forall>r\<in>set rs. dv_ids (dr_env r) = ids" "dv_ids (dr_env r) = ids"
    and s: "s = deletion_runs is_project (in_operation i) rs \<lparr>ds_db = db', ds_repository = b\<rparr>"
    and final: "deletion_resume is_project (in_operation i) r s = (out, s')"
  shows "\<exists>j t. get_journal ids (in_operation i) (dd_base (ds_db s')) = Inr (Some j)
    \<and> get_tombstone ids (Some (in_termOperation i)) (ds_db s') = Inr (Some t)
    \<and> (j_phase j \<in> set (drop 2 deletion_phases) \<longrightarrow> \<not> ds_repository s')
    \<and> (j_phase j \<in> set (drop 3 deletion_phases) \<longrightarrow> forbidden_empty (ds_db s'))
    \<and> (j_state j = Completed \<longleftrightarrow> j_phase j = ''completed'')
    \<and> (j_state j = Completed \<longrightarrow> j_resultSha j = Some (tb_resultSha t))
    \<and> (\<forall>oc. out = Inr oc \<longrightarrow> oc = Settled \<and> j_state j = Completed)"
proof -
  obtain t where "deletion_underway ids (in_operation i) i t \<lparr>ds_db = db', ds_repository = b\<rparr>"
    using put_intent_underway [OF ok p] by blast
  from runs_underway [OF this ids(1)] have un: "deletion_underway ids (in_operation i) i t s"
    unfolding s .
  from resume_underway [OF this ids(2)] have un': "deletion_underway ids (in_operation i) i t s'"
    using final by (metis snd_conv)
  obtain j where j: "select_journal (in_operation i) (dd_base (ds_db s')) = Some j"
    using underway_journal [OF un'] .
  note d = underwayD [OF un' j]
  have "oc = Settled \<and> j_state j = Completed" if "out = Inr oc" for oc
    using resume_Inr [OF un ids(2)] final that j by fastforce
  moreover have "j_state j = Completed \<longleftrightarrow> j_phase j = ''completed''"
    using d(9,10) by (cases "j_state j = Active") (auto simp: phases_set)
  moreover have "j_state j = Completed \<longrightarrow> j_resultSha j = Some (tb_resultSha t)" using d(10) by auto
  moreover have "get_tombstone ids (Some (in_termOperation i)) (ds_db s') = Inr (Some t)"
    using get_tombstone_row [OF d(1,4)] d(5) by simp
  ultimately show ?thesis using journal_read [OF un' j] d(11,12) by blast
qed

theorem deletion_never_overclaims_witness:
  "\<exists>(s::deletion_state) j. get_journal demo_ids ''d1'' (dd_base (ds_db s)) = Inr (Some j)
    \<and> (j_state j = Completed \<longleftrightarrow> j_phase j = ''completed'')"
proof -
  obtain db' where p: "put_intent demo_ids demo_intent demo_content = Inr (Created, db')"
    using demo_put by blast
  obtain out s' where f: "deletion_resume (\<lambda>_. True) (in_operation demo_intent) demo_run
      (deletion_runs (\<lambda>_. True) (in_operation demo_intent) [demo_crash] \<lparr>ds_db = db', ds_repository = True\<rparr>) = (out, s')"
    by (cases "deletion_resume (\<lambda>_. True) (in_operation demo_intent) demo_run
      (deletion_runs (\<lambda>_. True) (in_operation demo_intent) [demo_crash] \<lparr>ds_db = db', ds_repository = True\<rparr>)")
  have ids: "dv_ids (dr_env demo_run) = demo_ids" "\<forall>r\<in>set [demo_crash]. dv_ids (dr_env r) = demo_ids"
    by (simp_all add: demo_run_def demo_env_def demo_crash_def)
  show ?thesis
    using deletion_never_overclaims [OF demo_content_ok p ids(2,1) refl f]
    unfolding demo_intent_def deletion_intent.simps by blast
qed

text \<open>A run in which nothing fails.\<close>

definition clean_resume :: "(string \<Rightarrow> bool) \<Rightarrow> deletion_intent \<Rightarrow> deletion_run \<Rightarrow> bool" where
  "clean_resume is_project i r \<longleftrightarrow> clean_run (dr_env r) \<and> dr_reservation r = None \<and> dr_lease r = None
     \<and> is_project (dr_project r) \<and> dr_authorization r = in_authorization i \<and> \<not> dr_aborted r"

lemma clean_resume_settles:
  assumes un: "deletion_underway ids (in_operation i) i t s" and ids: "dv_ids (dr_env r) = ids"
    and clean: "clean_resume is_project i r"
  shows "\<exists>s'. deletion_resume is_project (in_operation i) r s = (Inr Settled, s')"
proof -
  obtain j where j: "select_journal (in_operation i) (dd_base (ds_db s)) = Some j"
    using underway_journal [OF un] .
  note d = underwayD [OF un j]
  let ?L = "deletion_loop (dr_env r) 0 maximum_phases j s"
  have "phases_left (j_phase j) deletion_phases \<le> maximum_phases"
    by (simp add: maximum_phases_def deletion_phases_def)
  then have L: "fst ?L = Inr Settled"
    using deletion_loop_completes [OF un j ids] clean by (simp add: clean_resume_def)
  have "j_phase j \<in> set deletion_phases"
    using d(9,10) by (cases "j_state j = Active") (auto simp: phases_set)
  then have "get_intent ids (in_operation i) (ds_db s) = Inr (Some \<lparr>iv_intent = i, iv_phase = j_phase j,
      iv_resultSha = j_resultSha j, iv_updatedAt = j_updatedAt j\<rparr>)"
    using get_intent_row [OF d(1,2)] j d(7) by simp
  moreover have "intent_ok ids i" using d(1,2) by (simp add: deletion_db_ok_def)
  ultimately have "deletion_resume is_project (in_operation i) r s = ?L"
    using clean journal_read [OF un j] ids d(7)
    by (simp add: deletion_resume_def resume_authorized_def clean_resume_def clean_run_def mapped_def
        deletion_recover_def exact_digest_def intent_ok_def)
  then show ?thesis using L by (metis prod.collapse)
qed

text \<open>C25. However many runs of a deletion have failed, and wherever, a run in which nothing fails
  and whose authorization is the recorded one finishes it within its eight steps: it returns
  \<open>settled\<close>, the repository and the Project's content are gone, and the journal is completed
  with the digest of the tombstone.\<close>

theorem deletion_recovers:
  assumes ok: "deletion_db_ok ids db" and p: "put_intent ids i db = Inr (res, db')"
    and ids: "\<forall>r\<in>set rs. dv_ids (dr_env r) = ids" "dv_ids (dr_env r) = ids"
    and s: "s = deletion_runs is_project (in_operation i) rs \<lparr>ds_db = db', ds_repository = b\<rparr>"
    and clean: "clean_resume is_project i r"
  shows "\<exists>s' j t. deletion_resume is_project (in_operation i) r s = (Inr Settled, s')
    \<and> \<not> ds_repository s' \<and> forbidden_empty (ds_db s')
    \<and> get_journal ids (in_operation i) (dd_base (ds_db s')) = Inr (Some j) \<and> j_state j = Completed
    \<and> get_tombstone ids (Some (in_termOperation i)) (ds_db s') = Inr (Some t)
    \<and> j_resultSha j = Some (tb_resultSha t)"
proof -
  obtain t where "deletion_underway ids (in_operation i) i t \<lparr>ds_db = db', ds_repository = b\<rparr>"
    using put_intent_underway [OF ok p] by blast
  from runs_underway [OF this ids(1)] have un: "deletion_underway ids (in_operation i) i t s"
    unfolding s .
  obtain s' where r: "deletion_resume is_project (in_operation i) r s = (Inr Settled, s')"
    using clean_resume_settles [OF un ids(2) clean] by blast
  obtain j' where j': "select_journal (in_operation i) (dd_base (ds_db s')) = Some j'" "j_state j' = Completed"
    using resume_Inr [OF un ids(2) r] by blast
  have un': "deletion_underway ids (in_operation i) i t s'"
    using resume_underway [OF un ids(2), of is_project] r by simp
  note d' = underwayD [OF un' j'(1)]
  have "get_tombstone ids (Some (in_termOperation i)) (ds_db s') = Inr (Some t)"
    using get_tombstone_row [OF d'(1,4)] d'(5) by simp
  then show ?thesis
    using r journal_read [OF un' j'(1)] j'(2) d'(10-12) by (auto simp: phases_set)
qed

theorem deletion_recovers_witness:
  "\<exists>s s'::deletion_state. deletion_resume (\<lambda>_. True) ''d1'' demo_run s = (Inr Settled, s') \<and> \<not> ds_repository s'"
proof -
  obtain db' where p: "put_intent demo_ids demo_intent demo_content = Inr (Created, db')"
    using demo_put by blast
  have ids: "\<forall>r\<in>set [demo_crash]. dv_ids (dr_env r) = demo_ids" "dv_ids (dr_env demo_run) = demo_ids"
    by (simp_all add: demo_run_def demo_env_def demo_crash_def)
  have "clean_resume (\<lambda>_. True) demo_intent demo_run"
    by (simp add: clean_resume_def clean_run_def demo_run_def demo_env_def demo_intent_def)
  then show ?thesis
    using deletion_recovers [OF demo_content_ok p ids refl]
    unfolding demo_intent_def deletion_intent.simps by blast
qed

text \<open>C26. Nothing happens to a Project, and no outcome is reported, unless the authorization
  presented is the digest recorded in the deletion's intent, and the reservation of the
  repository and the lease of the Project were granted.\<close>

theorem deletion_authorized:
  assumes run: "resume_authorized is_project V reservation lease project opid auth aborted s = (out, s')"
    and effect: "s' \<noteq> s \<or> (\<exists>oc. out = Inr oc)"
  shows "\<exists>v. get_intent (dv_ids V) opid (ds_db s) = Inr (Some v) \<and> in_authorization (iv_intent v) = auth
    \<and> sha256_ok auth \<and> is_project project \<and> \<not> aborted \<and> \<not> dv_closed V
    \<and> reservation = None \<and> lease = None"
  using run effect
  by (auto simp: resume_authorized_def mapped_def exact_digest_def
      split: option.splits sum.splits if_splits)

theorem deletion_authorized_witness:
  "\<exists>(s::deletion_state) s'. deletion_resume (\<lambda>_. True) ''d1'' demo_run s = (Inr Settled, s')
    \<and> dr_reservation demo_run = None
    \<and> (\<exists>v. get_intent demo_ids ''d1'' (ds_db s) = Inr (Some v))"
proof -
  obtain db' where p: "put_intent demo_ids demo_intent demo_content = Inr (Created, db')"
    using demo_put by blast
  let ?s = "\<lparr>ds_db = db', ds_repository = True\<rparr>"
  obtain t where un: "deletion_underway demo_ids ''d1'' demo_intent t ?s"
    using put_intent_underway [OF demo_content_ok p] by (auto simp: demo_intent_def)
  have "clean_resume (\<lambda>_. True) demo_intent demo_run" "dv_ids (dr_env demo_run) = demo_ids"
    "in_operation demo_intent = ''d1''"
    by (simp_all add: clean_resume_def clean_run_def demo_run_def demo_env_def demo_intent_def)
  then obtain s' where r: "deletion_resume (\<lambda>_. True) ''d1'' demo_run ?s = (Inr Settled, s')"
    using clean_resume_settles [of demo_ids demo_intent t ?s demo_run "\<lambda>_. True"] un by auto
  have "\<exists>v. get_intent (dv_ids (dr_env demo_run)) ''d1'' (ds_db ?s) = Inr (Some v)"
    using deletion_authorized [OF r [unfolded deletion_resume_def]] by blast
  then show ?thesis using r by (auto simp: demo_run_def demo_env_def)
qed

section \<open>Tombstones\<close>

definition tombstone_step ::
  "id_checks \<Rightarrow> deletion_db \<Rightarrow> tombstone_input \<times> string option \<Rightarrow> deletion_db" where
  "tombstone_step ids db c = (case put_tombstone ids (fst c) (snd c) db of Inl e \<Rightarrow> db | Inr (res, db') \<Rightarrow> db')"

definition precedes :: "tombstone_row \<Rightarrow> tombstone_row \<Rightarrow> bool" where
  "precedes r q \<longleftrightarrow> tb_generation (tr_tombstone r) < tb_generation (tr_tombstone q)
     \<and> tb_kind (tr_tombstone r) = TerminalTransfer
     \<and> tb_operation (tr_tombstone r) \<noteq> tb_operation (tr_tombstone q)"

definition tombstones_ok :: "id_checks \<Rightarrow> deletion_db \<Rightarrow> bool" where
  "tombstones_ok ids db \<longleftrightarrow> sorted_wrt precedes (dd_tombstones db)
     \<and> (\<forall>r\<in>set (dd_tombstones db). tombstone_ok ids (tr_tombstone r))"

lemma latest_none: "latest_row rs = None \<longleftrightarrow> rs = []"
  by (cases rs) (auto split: option.split)

lemma latest_snoc:
  "\<forall>q\<in>set rs. tb_generation (tr_tombstone q) < tb_generation (tr_tombstone r) \<Longrightarrow> latest_row (rs @ [r]) = Some r"
  by (induction rs) (auto simp: not_le)

lemma latest_last:
  assumes "sorted_wrt precedes rs" and "rs \<noteq> []"
  shows "latest_row rs = Some (last rs)"
  using assms by (cases rs rule: rev_cases) (auto simp: sorted_wrt_append precedes_def intro!: latest_snoc)

lemma canonical_tombstone_ok: "canonical_tombstone ids i = Inr c \<Longrightarrow> tombstone_ok ids c"
  by (auto simp: canonical_tombstone_def tombstone_ok_def result_simps)

lemma put_tombstone_cases:
  assumes "put_tombstone ids i pin db = Inr (res, db')"
  obtains (replayed) c where "canonical_tombstone ids i = Inr c" and "res = PutReplayed" and "db' = db"
  | (created) c host where "canonical_tombstone ids i = Inr c" and "res = Created"
      and "case latest_row (dd_tombstones db) of None \<Rightarrow> True
        | Some l \<Rightarrow> tb_kind (tr_tombstone l) \<noteq> TerminalRetire
            \<and> tb_generation (tr_tombstone l) < tb_generation c"
      and "insert_tombstone c host pin db = Inr db'"
  using assms
  by (auto simp: put_tombstone_def result_simps get_tombstone_def split: if_splits option.splits)

lemma put_tombstone_ok:
  assumes ok: "tombstones_ok ids db" and p: "put_tombstone ids i pin db = Inr (res, db')"
  shows "tombstones_ok ids db'"
  using p
proof (cases rule: put_tombstone_cases)
  case (created c host)
  let ?r = "\<lparr>tr_tombstone = c, tr_host = host, tr_pin = pin\<rparr>"
  have rows: "dd_tombstones db' = dd_tombstones db @ [?r]"
    and new: "\<forall>q\<in>set (dd_tombstones db). tb_operation (tr_tombstone q) \<noteq> tb_operation c"
    using created(4) by (auto simp: insert_tombstone_def list_ex_iff split: if_splits)
  have "precedes q ?r" if q: "q \<in> set (dd_tombstones db)" for q
  proof -
    have s: "sorted_wrt precedes (dd_tombstones db)" using ok by (simp add: tombstones_ok_def)
    have "dd_tombstones db \<noteq> []" using q by auto
    then have l: "tb_kind (tr_tombstone (last (dd_tombstones db))) \<noteq> TerminalRetire"
      "tb_generation (tr_tombstone (last (dd_tombstones db))) < tb_generation c"
      using created(3) latest_last [OF s] by simp_all
    have "q = last (dd_tombstones db) \<or> precedes q (last (dd_tombstones db))"
      using s q by (cases "dd_tombstones db" rule: rev_cases) (auto simp: sorted_wrt_append)
    then show ?thesis using l new q
      by (cases "tb_kind (tr_tombstone q)") (auto simp: precedes_def)
  qed
  then show ?thesis
    using ok canonical_tombstone_ok [OF created(1)] by (auto simp: tombstones_ok_def rows sorted_wrt_append)
qed (use ok in simp)

interpretation tombstones: machine "db\<lparr>dd_tombstones := []\<rparr>" "tombstone_step ids" "tombstones_ok ids"
  for db ids
proof unfold_locales
  show "tombstones_ok ids (db\<lparr>dd_tombstones := []\<rparr>)" by (simp add: tombstones_ok_def)
  show "tombstones_ok ids (tombstone_step ids s c)" if "tombstones_ok ids s" for s c
  proof (cases "put_tombstone ids (fst c) (snd c) s")
    case (Inr x)
    then show ?thesis using put_tombstone_ok [OF that] by (cases x) (simp add: tombstone_step_def)
  qed (use that in \<open>simp add: tombstone_step_def\<close>)
qed

definition demo_tombstone_input :: "int \<Rightarrow> string \<Rightarrow> tombstone_input" where
  "demo_tombstone_input g opid = \<lparr>ti_generation = g, ti_resultSha = replicate 64 CHR ''b'',
     ti_retiredAt = Stamp 5, ti_expiresAt = Stamp 100, ti_operation = opid, ti_kind = TerminalRetire\<rparr>"

text \<open>C27. A Project's tombstones form a history: in the order in which they were put, whatever
  puts were tried, the authority generations strictly increase, operations are distinct, and
  nothing follows a retirement. Reading the tombstone without an operation returns the last
  one, and putting the last one again with its pin changes nothing.\<close>

theorem tombstone_history:
  assumes db: "db = run (tombstone_step ids) (db0\<lparr>dd_tombstones := []\<rparr>) cs"
    and rows: "dd_tombstones db = rs @ [r]"
  shows "(\<forall>q\<in>set rs. tb_kind (tr_tombstone q) = TerminalTransfer
        \<and> tb_generation (tr_tombstone q) < tb_generation (tr_tombstone r)
        \<and> tb_operation (tr_tombstone q) \<noteq> tb_operation (tr_tombstone r))
    \<and> sorted_wrt (\<lambda>q p. tb_generation (tr_tombstone q) < tb_generation (tr_tombstone p)) (rs @ [r])
    \<and> get_tombstone ids None db = Inr (Some (tr_tombstone r))
    \<and> (canonical_tombstone ids i = Inr (tr_tombstone r) \<longrightarrow> option_ok sha256_ok (tr_pin r) \<longrightarrow>
         (tr_pin r = None \<or> tb_kind (tr_tombstone r) = TerminalTransfer) \<longrightarrow>
         put_tombstone ids i (tr_pin r) db = Inr (PutReplayed, db))"
proof -
  have ok: "tombstones_ok ids db" unfolding db by (rule tombstones.inv_run)
  then have s: "sorted_wrt precedes (rs @ [r])" and t: "tombstone_ok ids (tr_tombstone r)"
    using rows by (simp_all add: tombstones_ok_def)
  have a: "\<forall>q\<in>set rs. precedes q r" using s by (auto simp: sorted_wrt_append)
  have b: "sorted_wrt (\<lambda>q p. tb_generation (tr_tombstone q) < tb_generation (tr_tombstone p)) (rs @ [r])"
    by (rule sorted_wrt_mono_rel [OF _ s]) (simp add: precedes_def)
  have c: "get_tombstone ids None db = Inr (Some (tr_tombstone r))"
    using latest_last [OF s] t by (simp add: get_tombstone_def rows require_def option_ok_def)
  have f: "filter (\<lambda>q. tb_operation (tr_tombstone r) = tb_operation (tr_tombstone q)) rs = []"
    using a by (auto simp: filter_empty_conv precedes_def)
  have "find (\<lambda>q. tb_operation (tr_tombstone q) = tb_operation (tr_tombstone r)) (rs @ [r]) = Some r"
    using a by (induction rs) (auto simp: precedes_def)
  moreover have "get_tombstone ids (Some (tb_operation (tr_tombstone r))) db = Inr (Some (tr_tombstone r))"
    using f t by (simp add: get_tombstone_def rows require_def option_ok_def tombstone_ok_def)
  ultimately show ?thesis
    using a b c by (auto simp: precedes_def put_tombstone_def rows require_def)
qed

theorem tombstone_history_witness:
  "\<exists>db. get_tombstone demo_ids None db = Inr (Some demo_tombstone)"
proof -
  let ?cs = "[(demo_tombstone_input 1 ''r1'', None), (demo_tombstone_input 2 ''r2'', None)]"
  let ?db = "run (tombstone_step demo_ids) (demo_content\<lparr>dd_tombstones := []\<rparr>) ?cs"
  have "dd_tombstones ?db = [] @ [\<lparr>tr_tombstone = demo_tombstone, tr_host = None, tr_pin = None\<rparr>]"
    by code_simp
  from tombstone_history [OF refl this] show ?thesis by (intro exI [of _ ?db]) simp
qed

section \<open>The coordinator as a recovery owner\<close>

text \<open>
  What the dispatcher sees of the coordinator: it reserves the repository, and its errors are
  failed dependencies, as those of every owner that are not recovery errors themselves.
\<close>

definition deletion_owner :: "deletion_env \<Rightarrow> deletion_state recovery_owner_ops" where
  "deletion_owner V = \<lparr>ro_reserve = Some (\<lambda>p j w. (if dv_closed V then ReservationFailed else Reserved, w)),
     ro_recover = (\<lambda>j reserved w. case deletion_recover V reserved j w of
        (Inl e, w') \<Rightarrow> (Inl RecoveryDependencyFailed, w') | (Inr oc, w') \<Rightarrow> (Inr oc, w')),
     ro_unreserve = id\<rparr>"

definition deletion_dispatch :: "deletion_env \<Rightarrow> deletion_state dispatch_env" where
  "deletion_dispatch V = \<lparr>de_closed = (\<lambda>w. False), de_acquire = (\<lambda>p w. (LeaseGranted, w)),
     de_release = (\<lambda>w. (True, w)),
     de_get = (\<lambda>p opid w. get_journal (dv_ids V) opid (dd_base (ds_db w))),
     de_open = (\<lambda>p w. get_nonterminal (dv_ids V) (dd_base (ds_db w))),
     de_owner = (\<lambda>k. if k = DeleteKind then Some (deletion_owner V) else None)\<rparr>"

definition deletion_ready :: "deletion_env \<Rightarrow> deletion_intent \<Rightarrow> tombstone \<Rightarrow> deletion_state \<Rightarrow> bool" where
  "deletion_ready V i t s \<longleftrightarrow> clean_run V \<and> deletion_underway (dv_ids V) (in_operation i) i t s"

lemma underway_open:
  assumes un: "deletion_underway ids opid i t s" and j: "select_journal opid (dd_base (ds_db s)) = Some j"
  shows "get_nonterminal ids (dd_base (ds_db s)) = Inr (if j_state j = Active then Some j else None)"
proof -
  note d = underwayD [OF un j]
  have inv: "journal_inv ids (dd_base (ds_db s))" using d(1) by (simp add: deletion_db_ok_def)
  note m = select_mem [OF j]
  show ?thesis
  proof (cases "j_state j = Active")
    case True
    then have op: "open_journal j" by (simp add: open_journal_def)
    have "filter open_journal (db_journals (dd_base (ds_db s))) = [j]"
      using filter_unique [OF journal_invD(4) [OF inv] conjunct1 [OF m] op] .
    then show ?thesis
      using True m decode_typed [OF journal_invD(3) [OF inv] journal_invD(2) [OF inv]]
      by (simp add: get_nonterminal_def)
  next
    case False
    have "\<not> open_journal q" if q: "q \<in> set (db_journals (dd_base (ds_db s)))" for q
    proof
      assume op: "open_journal q"
      then have "j_operation q = j_operation j" using d(13) [OF q] m by simp
      then have "q = j" using mem_by_operation [OF journal_invD(1) [OF inv] q conjunct1 [OF m]] by simp
      then show False using op d(10) False by (simp add: open_journal_def)
    qed
    then have "filter open_journal (db_journals (dd_base (ds_db s))) = []" by (simp add: filter_empty_conv)
    then show ?thesis using False by (simp add: get_nonterminal_def)
  qed
qed

interpretation deletion_recoverable: recoverable "deletion_dispatch V" p "deletion_ready V i t"
  for V p i t
proof unfold_locales
  fix w :: deletion_state and j
  let ?opid = "in_operation i"
  assume "deletion_ready V i t w"
  then have c: "clean_run V" and un: "deletion_underway (dv_ids V) ?opid i t w"
    by (simp_all add: deletion_ready_def)
  obtain j0 where j0: "select_journal ?opid (dd_base (ds_db w)) = Some j0" using underway_journal [OF un] .
  have op: "j_operation j0 = ?opid" using select_mem [OF j0] by simp
  note no = underway_open [OF un j0] and rd = journal_read [OF un j0] and d = underwayD [OF un j0]
  show "\<not> de_closed (deletion_dispatch V) w \<and> de_acquire (deletion_dispatch V) p w = (LeaseGranted, w)
      \<and> de_release (deletion_dispatch V) w = (True, w)"
    by (simp add: deletion_dispatch_def)
  show "\<exists>x. de_open (deletion_dispatch V) p w = Inr x \<and> (\<forall>j. x = Some j \<longrightarrow>
      j_state j = Active \<and> de_get (deletion_dispatch V) p (j_operation j) w = Inr (Some j))"
    using no rd op by (auto simp: deletion_dispatch_def)
  assume "de_open (deletion_dispatch V) p w = Inr (Some j)"
  then have j: "j = j0" "j_state j0 = Active" using no by (auto simp: deletion_dispatch_def split: if_splits)
  let ?L = "deletion_loop V 0 maximum_phases j0 w"
  have "phases_left (j_phase j0) deletion_phases \<le> maximum_phases"
    by (simp add: maximum_phases_def deletion_phases_def)
  then have L: "fst ?L = Inr Settled" using deletion_loop_completes [OF un j0 refl c] by simp
  obtain j1 where j1: "select_journal ?opid (dd_base (ds_db (snd ?L))) = Some j1" "j_state j1 = Completed"
    and un1: "deletion_underway (dv_ids V) ?opid i t (snd ?L)"
    using deletion_loop_underway [OF un j0 refl, of 0 maximum_phases] L by blast
  have rec: "deletion_recover V True j0 w = (Inr Settled, snd ?L)"
    using L c d(7) by (simp add: deletion_recover_def clean_run_def) (metis prod.collapse)
  have "j_kind j1 = DeleteKind" "j_operation j1 = ?opid"
    using underwayD(7) [OF un1 j1(1)] select_mem [OF j1(1)] by simp_all
  then show "\<exists>own answer w' j'. de_owner (deletion_dispatch V) (j_kind j) = Some own
      \<and> (case ro_reserve own of None \<Rightarrow> (NotReserved, w) | Some f \<Rightarrow> f p j w) = (answer, w)
      \<and> answer \<noteq> ReservationFailed \<and> ro_unreserve own w' = w'
      \<and> ro_recover own j (answer = Reserved) w = (Inr Settled, w') \<and> deletion_ready V i t w'
      \<and> de_get (deletion_dispatch V) p (j_operation j) w' = Inr (Some j') \<and> j_kind j' = j_kind j
      \<and> j_operation j' = j_operation j
      \<and> terminal j' \<and> de_open (deletion_dispatch V) p w' = Inr None"
    using rec c d(7) op j un1 journal_read [OF un1 j1(1)] underway_open [OF un1 j1(1)] j1(2)
    by (intro exI [of _ "deletion_owner V"] exI [of _ Reserved] exI [of _ "snd ?L"] exI [of _ j1])
      (auto simp: deletion_dispatch_def deletion_owner_def deletion_ready_def terminal_def clean_run_def)
qed

end
