(* ===== verification/Base64Url.thy ===== *)
theory Base64Url
  imports Prelude
begin

text \<open>
  The base64url values of \<open>src/src/coordination/postgres/PostgresPortabilityLifecyclePersistence.ts\<close>:
  the alphabet, what \<open>Buffer\<close> of the standard library does to it, and \<open>canonicalBase64url\<close>. A byte
  is a natural number below 256.
\<close>

section \<open>The alphabet\<close>

definition b64_char :: "nat \<Rightarrow> char" where
  "b64_char n = (if n < 26 then char_of (65 + n) else if n < 52 then char_of (71 + n)
     else if n < 62 then char_of (n - 4) else if n = 62 then CHR ''-'' else CHR ''_'')"

definition b64_value :: "char \<Rightarrow> nat" where
  "b64_value c = (if is_upper c then of_char c - 65 else if is_lower c then of_char c - 71
     else if is_digit c then of_char c + 4 else if c = CHR ''-'' then 62 else 63)"

definition b64_symbol :: "char \<Rightarrow> bool" where
  "b64_symbol c \<longleftrightarrow> is_upper c \<or> is_lower c \<or> is_digit c \<or> c = CHR ''-'' \<or> c = CHR ''_''"

section \<open>Buffers\<close>

text \<open>
  \<open>Buffer.from(s, 'base64url')\<close> on symbols of the alphabet, and \<open>toString('base64url')\<close>: groups of
  three bytes and four symbols, a last group of one or two bytes without padding; a single
  symbol that is left over decodes to nothing.
\<close>

fun b64_decode :: "string \<Rightarrow> nat list" where
  "b64_decode (p # q # r # s # rest) =
     (b64_value p * 4 + b64_value q div 16) # (b64_value q mod 16 * 16 + b64_value r div 4)
       # (b64_value r mod 4 * 64 + b64_value s) # b64_decode rest"
| "b64_decode [p, q, r] = [b64_value p * 4 + b64_value q div 16, b64_value q mod 16 * 16 + b64_value r div 4]"
| "b64_decode [p, q] = [b64_value p * 4 + b64_value q div 16]"
| "b64_decode _ = []"

fun b64_encode :: "nat list \<Rightarrow> string" where
  "b64_encode (a # b # c # rest) =
     b64_char (a div 4) # b64_char (a mod 4 * 16 + b div 16) # b64_char (b mod 16 * 4 + c div 64)
       # b64_char (c mod 64) # b64_encode rest"
| "b64_encode [a, b] = [b64_char (a div 4), b64_char (a mod 4 * 16 + b div 16), b64_char (b mod 16 * 4)]"
| "b64_encode [a] = [b64_char (a div 4), b64_char (a mod 4 * 16)]"
| "b64_encode [] = []"

text \<open>\<open>canonicalBase64url\<close>; \<open>BASE64URL_PATTERN\<close> is a nonempty string of symbols.\<close>

definition canonical_base64url :: "nat \<Rightarrow> nat \<Rightarrow> string \<Rightarrow> bool" where
  "canonical_base64url lo hi s \<longleftrightarrow> s \<noteq> [] \<and> list_all b64_symbol s
     \<and> lo \<le> length (b64_decode s) \<and> length (b64_decode s) \<le> hi \<and> b64_encode (b64_decode s) = s"

section \<open>Properties\<close>

lemma char_between_of: "n < 256 \<Longrightarrow> char_between a b (char_of n) \<longleftrightarrow> of_char a \<le> n \<and> n \<le> (of_char b :: nat)"
  by (simp add: char_between_def)

lemma b64_value_char: "n < 64 \<Longrightarrow> b64_value (b64_char n) = n"
proof -
  assume n: "n < 64"
  consider "n < 26" | "26 \<le> n" "n < 52" | "52 \<le> n" "n < 62" | "n = 62" | "n = 63"
    using n by linarith
  then show ?thesis
  proof cases
    case 3
    then have k: "48 \<le> n - 4" "n - 4 \<le> 57" "n - 4 + 4 = n" by linarith+
    from 3 show ?thesis
      by (simp add: b64_char_def b64_value_def is_upper_def is_lower_def is_digit_def char_between_of)
        (rule conjI [OF k(1,2)])
  qed (simp_all add: b64_char_def b64_value_def is_upper_def is_lower_def is_digit_def
        char_between_of, simp_all add: char_between_def)
qed

lemma b64_symbol_char: "b64_symbol (b64_char n)"
proof -
  consider "n < 26" | "26 \<le> n" "n < 52" | "52 \<le> n" "n < 62" | "62 \<le> n"
    by linarith
  then show ?thesis
  proof cases
    case 3
    then have k: "48 \<le> n - 4" "n - 4 \<le> 57" by linarith+
    from 3 have "char_between CHR ''0'' CHR ''9'' (char_of (n - 4))"
      by (simp add: char_between_of) (rule conjI [OF k])
    then show ?thesis using 3 by (simp add: b64_char_def b64_symbol_def is_digit_def)
  qed (auto simp: b64_char_def b64_symbol_def is_upper_def is_lower_def is_digit_def char_between_of)
qed

lemma b64_value_less: "b64_symbol c \<Longrightarrow> b64_value c < 64"
  by (auto simp: b64_symbol_def b64_value_def is_upper_def is_lower_def is_digit_def char_between_def)

text \<open>Where a byte boundary falls inside a symbol.\<close>

lemma cut4: "(x :: nat) < 4 \<Longrightarrow> (k * 4 + x) div 4 = k \<and> (k * 4 + x) mod 4 = x" by simp
lemma cut16: "(x :: nat) < 16 \<Longrightarrow> (k * 16 + x) div 16 = k \<and> (k * 16 + x) mod 16 = x" by simp

lemma div_below:
  "(b :: nat) < 256 \<Longrightarrow> b div 4 < 64" "b < 256 \<Longrightarrow> b div 16 < 16" "b < 256 \<Longrightarrow> b div 64 < 4"
  "b < 64 \<Longrightarrow> b div 16 < 4" "b < 64 \<Longrightarrow> b div 4 < 16"
  by (simp_all add: less_mult_imp_div_less)

lemma glue_below:
  "(k :: nat) < 4 \<Longrightarrow> x < 16 \<Longrightarrow> k * 16 + x < 64" "k < 16 \<Longrightarrow> x < 4 \<Longrightarrow> k * 4 + x < 64"
  "k < 64 \<Longrightarrow> x < 4 \<Longrightarrow> k * 4 + x < 256" "k < 16 \<Longrightarrow> x < 16 \<Longrightarrow> k * 16 + x < 256"
  "k < 4 \<Longrightarrow> x < 64 \<Longrightarrow> k * 64 + x < 256"
  by simp_all

lemma b64_decode_encode: "list_all (\<lambda>b. b < 256) bs \<Longrightarrow> b64_decode (b64_encode bs) = bs"
proof (induction bs rule: b64_encode.induct)
  case (1 a b c rest)
  have v: "b64_value (b64_char (a div 4)) = a div 4" "b64_value (b64_char (a mod 4 * 16 + b div 16)) = a mod 4 * 16 + b div 16"
    "b64_value (b64_char (b mod 16 * 4 + c div 64)) = b mod 16 * 4 + c div 64" "b64_value (b64_char (c mod 64)) = c mod 64"
    using 1 by (auto intro!: b64_value_char glue_below div_below)
  show ?case
    using 1 cut16 [OF div_below(2) [of b], of "a mod 4"] cut4 [OF div_below(3) [of c], of "b mod 16"]
    by (simp only: b64_encode.simps b64_decode.simps v) simp
next
  case (2 a b)
  have v: "b64_value (b64_char (a div 4)) = a div 4" "b64_value (b64_char (a mod 4 * 16 + b div 16)) = a mod 4 * 16 + b div 16"
    "b64_value (b64_char (b mod 16 * 4)) = b mod 16 * 4"
    using 2 glue_below(2) [of "b mod 16" 0] by (auto intro!: b64_value_char glue_below div_below)
  show ?case
    using 2 cut16 [OF div_below(2) [of b], of "a mod 4"]
    by (simp only: b64_encode.simps b64_decode.simps v) simp
next
  case (3 a)
  have v: "b64_value (b64_char (a div 4)) = a div 4" "b64_value (b64_char (a mod 4 * 16)) = a mod 4 * 16"
    using 3 glue_below(1) [of "a mod 4" 0] by (auto intro!: b64_value_char div_below)
  show ?case using 3 by (simp only: b64_encode.simps b64_decode.simps v) simp
qed simp

lemma b64_encode_symbols: "list_all b64_symbol (b64_encode bs)"
  by (induction bs rule: b64_encode.induct) (simp_all add: b64_symbol_char)

lemma b64_decode_bytes: "list_all b64_symbol s \<Longrightarrow> list_all (\<lambda>b. b < 256) (b64_decode s)"
proof (induction s rule: b64_decode.induct)
  case (1 p q r s rest)
  then have "b64_value p < 64" "b64_value q < 64" "b64_value r < 64" "b64_value s < 64"
    by (simp_all add: b64_value_less)
  then show ?case using 1 by (simp add: glue_below div_below)
next
  case (2 p q r)
  then have "b64_value p < 64" "b64_value q < 64" "b64_value r < 64" by (simp_all add: b64_value_less)
  then show ?case by (simp add: glue_below div_below)
next
  case (3 p q)
  then have "b64_value p < 64" "b64_value q < 64" by (simp_all add: b64_value_less)
  then show ?case by (simp add: glue_below div_below)
qed simp_all

lemma b64_encode_length: "3 * length (b64_encode bs) = 4 * length bs + (if length bs mod 3 = 0 then 0 else 3 - length bs mod 3)"
  by (induction bs rule: b64_encode.induct) auto


end
