(* ===== verification/PrincipalBindings.thy ===== *)
theory PrincipalBindings
  imports LifecycleJournal
begin

text \<open>
  Principal bindings of a Project, \<open>bindProjectPrincipal\<close>, \<open>findProjectPrincipalBinding\<close>,
  \<open>listActiveProjectPrincipalBindings\<close> and \<open>revokeProjectPrincipal\<close> of
  \<open>src/src/coordination/postgres/PostgresPortabilityLifecyclePersistence.ts\<close>, with the check of
  \<open>projectCredentialBinding.ts\<close>. The database holds the bindings, the active members and the
  recovery credentials of the Project. The limit on credentials comes from the protocol package
  and is a parameter; the order of the listing is left open.
\<close>

section \<open>Data\<close>

datatype binding_state = BoundActive | BoundPending | BoundRevoked

record binding =
  bd_principal :: string
  bd_member :: string
  bd_state :: binding_state
  bd_boundAt :: int
  bd_revokedAt :: "int option"

record binding_db =
  bs_bindings :: "binding list"
  bs_active :: "string list"
  bs_credentials :: "(string \<times> string) list"

record binding_input =
  bi_boundAt :: stamp
  bi_member :: string
  bi_principal :: string

section \<open>Operations\<close>

text \<open>The pattern \<open>vault-[a-f0-9]{64}\<close> and the digest it names.\<close>

definition vault_digest :: "string \<Rightarrow> string option" where
  "vault_digest p = (if take 6 p = ''vault-'' \<and> sha256_ok (drop 6 p) then Some (drop 6 p) else None)"

definition verifiers :: "binding_db \<Rightarrow> (string \<times> string) list" where
  "verifiers db = bs_credentials db
     @ List.map_filter (\<lambda>b. map_option (Pair (bd_member b)) (vault_digest (bd_principal b))) (bs_bindings db)"

definition credential_binding_ok :: "nat \<Rightarrow> string \<Rightarrow> string \<Rightarrow> binding_db \<Rightarrow> bool" where
  "credential_binding_ok limit member pid db =
     (case vault_digest pid of
        None \<Rightarrow> True
      | Some d \<Rightarrow> \<not> list_ex (\<lambda>(m, e). e = d \<and> m \<noteq> member) (verifiers db)
          \<and> card (set (d # map snd (filter (\<lambda>(m, e). m = member) (verifiers db)))) \<le> limit)"

definition binding_ok :: "id_checks \<Rightarrow> binding \<Rightarrow> bool" where
  "binding_ok ids b \<longleftrightarrow> ic_member ids (bd_member b) \<and> (bd_state b = BoundActive \<or> bd_state b = BoundRevoked)
     \<and> (bd_state b = BoundActive) = (bd_revokedAt b = None)"

definition find_binding :: "id_checks \<Rightarrow> string \<Rightarrow> binding_db \<Rightarrow> coord_error + binding option" where
  "find_binding ids pid db =
     rbind (require (principal_ok pid)) (\<lambda>_.
       case find (\<lambda>b. bd_principal b = pid) (bs_bindings db) of
         None \<Rightarrow> Inr None
       | Some b \<Rightarrow> if binding_ok ids b then Inr (Some b) else Inl DependencyFailed)"

text \<open>
  The insert does nothing on a conflict: with the primary key, or with the index that gives a
  member at most one active binding.
\<close>

definition insert_binding :: "binding \<Rightarrow> binding_db \<Rightarrow> bool \<times> binding_db" where
  "insert_binding b db =
     (if list_ex (\<lambda>q. bd_principal q = bd_principal b
            \<or> bd_member q = bd_member b \<and> bd_state q = BoundActive \<and> bd_state b = BoundActive) (bs_bindings db)
      then (False, db) else (True, db\<lparr>bs_bindings := bs_bindings db @ [b]\<rparr>))"

definition bind_principal ::
  "id_checks \<Rightarrow> nat \<Rightarrow> binding_input \<Rightarrow> binding_db \<Rightarrow> coord_error + put_result \<times> binding_db" where
  "bind_principal ids limit i db =
     rbind (timestamp (bi_boundAt i)) (\<lambda>bound.
     rbind (require (ic_member ids (bi_member i))) (\<lambda>_.
     rbind (require (principal_ok (bi_principal i))) (\<lambda>_.
     rbind (ensure (bi_member i \<in> set (bs_active db)) StateConflict) (\<lambda>_.
     rbind (ensure (credential_binding_ok limit (bi_member i) (bi_principal i) db) StateConflict) (\<lambda>_.
       let b = \<lparr>bd_principal = bi_principal i, bd_member = bi_member i, bd_state = BoundActive,
                bd_boundAt = bound, bd_revokedAt = None\<rparr>;
           (inserted, db1) = insert_binding b db
       in rbind (find_binding ids (bi_principal i) db1) (\<lambda>stored.
          rbind (ensure (stored = Some b) StateConflict) (\<lambda>_.
            Inr (if inserted then Created else PutReplayed, db1))))))))"

definition list_active_bindings :: "id_checks \<Rightarrow> binding_db \<Rightarrow> coord_error + binding list" where
  "list_active_bindings ids db =
     (let rows = filter (\<lambda>b. bd_state b = BoundActive) (bs_bindings db)
      in if list_all (\<lambda>b. ic_member ids (bd_member b) \<and> bd_revokedAt b = None) rows
         then Inr rows else Inl DependencyFailed)"

text \<open>
  The update of a revocation; a revocation before the binding violates the table's check.
\<close>

definition revoke_principal ::
  "id_checks \<Rightarrow> string \<Rightarrow> string \<Rightarrow> stamp \<Rightarrow> binding_db \<Rightarrow> coord_error + advance_result \<times> binding_db" where
  "revoke_principal ids member pid at db =
     rbind (require (ic_member ids member)) (\<lambda>_.
     rbind (require (principal_ok pid)) (\<lambda>_.
     rbind (timestamp at) (\<lambda>t.
       let hit = (\<lambda>b. bd_principal b = pid \<and> bd_member b = member \<and> bd_state b = BoundActive);
           db1 = db\<lparr>bs_bindings := map (\<lambda>b. if hit b then b\<lparr>bd_state := BoundRevoked, bd_revokedAt := Some t\<rparr> else b)
                     (bs_bindings db)\<rparr>
       in rbind (ensure (list_all (\<lambda>b. hit b \<longrightarrow> bd_boundAt b \<le> t) (bs_bindings db)) DependencyFailed) (\<lambda>_.
          rbind (find_binding ids pid db1) (\<lambda>stored.
          rbind (ensure (case stored of None \<Rightarrow> False
                   | Some b \<Rightarrow> bd_member b = member \<and> bd_state b = BoundRevoked \<and> bd_revokedAt b = Some t)
                 StateConflict) (\<lambda>_.
            Inr (if list_ex hit (bs_bindings db) then Advanced else AdvanceReplayed, db1)))))))"

section \<open>Invariant\<close>

datatype binding_command = Bind binding_input | Revoke string string stamp

fun binding_step :: "id_checks \<Rightarrow> nat \<Rightarrow> binding_db \<Rightarrow> binding_command \<Rightarrow> binding_db" where
  "binding_step ids limit db (Bind i) =
     (case bind_principal ids limit i db of Inl e \<Rightarrow> db | Inr (res, db') \<Rightarrow> db')"
| "binding_step ids limit db (Revoke m p t) =
     (case revoke_principal ids m p t db of Inl e \<Rightarrow> db | Inr (res, db') \<Rightarrow> db')"

definition owners_unique :: "(string \<times> string) list \<Rightarrow> bool" where
  "owners_unique vs \<longleftrightarrow> (\<forall>m m' d. (m, d) \<in> set vs \<longrightarrow> (m', d) \<in> set vs \<longrightarrow> m = m')"

definition bindings_inv :: "id_checks \<Rightarrow> nat \<Rightarrow> binding_db \<Rightarrow> bool" where
  "bindings_inv ids limit db \<longleftrightarrow> distinct (map bd_principal (bs_bindings db))
     \<and> (\<forall>b\<in>set (bs_bindings db). binding_ok ids b \<and> principal_ok (bd_principal b))
     \<and> distinct (map bd_member (filter (\<lambda>b. bd_state b = BoundActive) (bs_bindings db)))
     \<and> owners_unique (verifiers db)
     \<and> (\<forall>m. card (set (map snd (filter (\<lambda>(m', e). m' = m) (verifiers db)))) \<le> limit)"

lemma verifiers_append:
  "verifiers (db\<lparr>bs_bindings := bs_bindings db @ [b]\<rparr>) = verifiers db
     @ (case vault_digest (bd_principal b) of None \<Rightarrow> [] | Some d \<Rightarrow> [(bd_member b, d)])"
  by (simp add: verifiers_def map_filter_def split: option.split)

lemma verifiers_map:
  assumes "\<And>b. bd_principal (f b) = bd_principal b" and "\<And>b. bd_member (f b) = bd_member b"
  shows "verifiers (db\<lparr>bs_bindings := map f (bs_bindings db)\<rparr>) = verifiers db"
proof -
  have "List.map_filter (\<lambda>b. map_option (Pair (bd_member b)) (vault_digest (bd_principal b))) (map f bs)
      = List.map_filter (\<lambda>b. map_option (Pair (bd_member b)) (vault_digest (bd_principal b))) bs" for bs
    by (induction bs) (simp_all add: map_filter_simps assms split: option.split)
  then show ?thesis by (simp add: verifiers_def)
qed

lemma find_mem: "find P xs = Some x \<Longrightarrow> x \<in> set xs \<and> P x"
  by (induction xs) (auto split: if_splits)

lemma bind_principal_cases:
  assumes "bind_principal ids limit i db = Inr (res, db')"
  obtains (created) b t where "res = Created" and "db' = db\<lparr>bs_bindings := bs_bindings db @ [b]\<rparr>"
      and "b = \<lparr>bd_principal = bi_principal i, bd_member = bi_member i, bd_state = BoundActive,
             bd_boundAt = t, bd_revokedAt = None\<rparr>"
      and "ic_member ids (bi_member i)" and "principal_ok (bi_principal i)"
      and "credential_binding_ok limit (bi_member i) (bi_principal i) db"
      and "\<forall>q\<in>set (bs_bindings db). bd_principal q \<noteq> bi_principal i
             \<and> (bd_state q = BoundActive \<longrightarrow> bd_member q \<noteq> bi_member i)"
  | (replayed) t where "res = PutReplayed" and "db' = db"
      and "\<lparr>bd_principal = bi_principal i, bd_member = bi_member i, bd_state = BoundActive,
             bd_boundAt = t, bd_revokedAt = None\<rparr> \<in> set (bs_bindings db)"
proof -
  obtain t where t: "timestamp (bi_boundAt i) = Inr t" "ic_member ids (bi_member i)" "principal_ok (bi_principal i)"
    "credential_binding_ok limit (bi_member i) (bi_principal i) db"
    using assms by (auto simp: bind_principal_def rbind_Inr require_Inr ensure_Inr)
  let ?b = "\<lparr>bd_principal = bi_principal i, bd_member = bi_member i, bd_state = BoundActive,
    bd_boundAt = t, bd_revokedAt = None\<rparr>"
  obtain ins db1 where ins: "insert_binding ?b db = (ins, db1)" by (cases "insert_binding ?b db")
  have r: "find_binding ids (bi_principal i) db1 = Inr (Some ?b)" "db1 = db'"
    "res = (if ins then Created else PutReplayed)"
    using assms t ins
    by (auto simp: bind_principal_def rbind_Inr require_Inr ensure_Inr Let_def)
  show ?thesis
  proof (cases ins)
    case True
    then have "db' = db\<lparr>bs_bindings := bs_bindings db @ [?b]\<rparr>"
      "\<forall>q\<in>set (bs_bindings db). bd_principal q \<noteq> bi_principal i
             \<and> (bd_state q = BoundActive \<longrightarrow> bd_member q \<noteq> bi_member i)"
      using ins r(2) by (auto simp: insert_binding_def list_ex_iff split: if_splits)
    then show ?thesis using created [of ?b t] True r(3) t by simp
  next
    case False
    then have db1: "db1 = db" using ins by (auto simp: insert_binding_def split: if_splits)
    have "?b \<in> set (bs_bindings db)"
      using r(1) db1 by (auto simp: find_binding_def rbind_Inr dest!: find_mem split: option.splits if_splits)
    then show ?thesis using replayed [of t] False r db1 by simp
  qed
qed

lemma bind_inv:
  assumes inv: "bindings_inv ids limit db" and p: "bind_principal ids limit i db = Inr (res, db')"
  shows "bindings_inv ids limit db'"
  using p
proof (cases rule: bind_principal_cases)
  case (created b t)
  note c = created
  have own: "owners_unique (verifiers db')" and card: "\<forall>m. card (set (map snd (filter (\<lambda>(m', e). m' = m) (verifiers db')))) \<le> limit"
  proof -
    show "owners_unique (verifiers db')"
      using inv c(3,6) unfolding c(2) verifiers_append
      by (auto simp: bindings_inv_def owners_unique_def credential_binding_ok_def list_ex_iff split: option.splits)
    have "card (set (map snd (filter (\<lambda>(m', e). m' = m) (verifiers db')))) \<le> limit" for m
      using inv c(3,6) unfolding c(2) verifiers_append
      by (cases "vault_digest (bi_principal i)"; cases "m = bi_member i")
        (simp_all add: bindings_inv_def credential_binding_ok_def)
    then show "\<forall>m. card (set (map snd (filter (\<lambda>(m', e). m' = m) (verifiers db')))) \<le> limit" by blast
  qed
  then show ?thesis
    using inv c by (auto simp: bindings_inv_def binding_ok_def)
qed (use inv in simp)

lemma revoke_inv:
  assumes inv: "bindings_inv ids limit db" and p: "revoke_principal ids m pid at db = Inr (res, db')"
  shows "bindings_inv ids limit db'"
proof -
  obtain t where t: "db' = db\<lparr>bs_bindings := map (\<lambda>b. if bd_principal b = pid \<and> bd_member b = m \<and> bd_state b = BoundActive
      then b\<lparr>bd_state := BoundRevoked, bd_revokedAt := Some t\<rparr> else b) (bs_bindings db)\<rparr>"
    using p by (auto simp: revoke_principal_def rbind_Inr Let_def)
  let ?f = "\<lambda>b. if bd_principal b = pid \<and> bd_member b = m \<and> bd_state b = BoundActive
      then b\<lparr>bd_state := BoundRevoked, bd_revokedAt := Some t\<rparr> else b"
  have rows: "bs_bindings db' = map ?f (bs_bindings db)" by (simp add: t)
  have "map bd_principal (bs_bindings db') = map bd_principal (bs_bindings db)" by (simp add: t)
  then have p1: "distinct (map bd_principal (bs_bindings db'))"
    using inv by (simp add: bindings_inv_def del: map_eq_conv)
  have filtered: "distinct (map bd_member (filter (\<lambda>b. bd_state b = BoundActive) (map ?f bs)))"
    if "distinct (map bd_member (filter (\<lambda>b. bd_state b = BoundActive) bs))" for bs
    using that by (induction bs) (auto split: if_splits)
  have old: "distinct (map bd_member (filter (\<lambda>b. bd_state b = BoundActive) (bs_bindings db)))"
    using inv by (simp add: bindings_inv_def)
  have p2: "distinct (map bd_member (filter (\<lambda>b. bd_state b = BoundActive) (bs_bindings db')))"
    unfolding rows by (rule filtered [OF old])
  have v: "verifiers db' = verifiers db" unfolding t by (rule verifiers_map) auto
  have p3: "\<forall>b\<in>set (bs_bindings db'). binding_ok ids b \<and> principal_ok (bd_principal b)"
    using inv by (auto simp: bindings_inv_def t binding_ok_def)
  show ?thesis using inv p1 p2 p3 unfolding bindings_inv_def v by blast
qed

interpretation bindings: machine start "binding_step ids limit"
    "\<lambda>db. bindings_inv ids limit start \<longrightarrow> bindings_inv ids limit db"
  for start ids limit
proof unfold_locales
  show "bindings_inv ids limit start \<longrightarrow> bindings_inv ids limit (binding_step ids limit s c)"
    if "bindings_inv ids limit start \<longrightarrow> bindings_inv ids limit s" for s c
  proof (cases c)
    case (Bind i)
    then show ?thesis using that bind_inv by (cases "bind_principal ids limit i s") auto
  next
    case (Revoke m pid t)
    then show ?thesis using that revoke_inv by (cases "revoke_principal ids m pid t s") auto
  qed
qed simp

section \<open>Properties\<close>

definition demo_bindings :: binding_db where
  "demo_bindings = \<lparr>bs_bindings = [], bs_active = [''a'', ''b''], bs_credentials = []\<rparr>"

definition demo_vault :: string where
  "demo_vault = ''vault-'' @ replicate 64 CHR ''0''"

definition demo_binding_commands :: "binding_command list" where
  "demo_binding_commands = [Bind \<lparr>bi_boundAt = Stamp 5, bi_member = ''a'', bi_principal = demo_vault\<rparr>,
     Revoke ''a'' demo_vault (Stamp 7),
     Bind \<lparr>bi_boundAt = Stamp 8, bi_member = ''b'', bi_principal = demo_vault\<rparr>]"

lemma demo_bindings_ok: "bindings_inv demo_ids 2 demo_bindings"
  by (simp add: bindings_inv_def demo_bindings_def owners_unique_def verifiers_def map_filter_simps)

text \<open>C29. Credentials are never shared: from a state in which they are not, and after any sequence
  of bindings and revocations, a principal is bound at most once, a member has at most one
  active binding, no recovery credential belongs to two members, whether it is stored as a
  credential or named by a \<open>vault-\<close> principal, and no member has more credentials than the limit.
  So a principal that was revoked can never be bound to somebody else.\<close>

theorem credentials_not_shared:
  assumes ok: "bindings_inv ids limit db0" and db: "db = run (binding_step ids limit) db0 cs"
  shows "(b \<in> set (bs_bindings db) \<longrightarrow> b' \<in> set (bs_bindings db) \<longrightarrow>
        (bd_principal b = bd_principal b' \<longrightarrow> b = b')
        \<and> (bd_state b = BoundActive \<longrightarrow> bd_state b' = BoundActive \<longrightarrow> bd_member b = bd_member b' \<longrightarrow> b = b')
        \<and> (vault_digest (bd_principal b) \<noteq> None \<longrightarrow>
             vault_digest (bd_principal b) = vault_digest (bd_principal b') \<longrightarrow> bd_member b = bd_member b'))
    \<and> (\<forall>m m' d. (m, d) \<in> set (verifiers db) \<longrightarrow> (m', d) \<in> set (verifiers db) \<longrightarrow> m = m')
    \<and> card {d. (m, d) \<in> set (verifiers db)} \<le> limit"
proof -
  have inv: "bindings_inv ids limit db" using bindings.inv_run ok unfolding db by blast
  have own: "owners_unique (verifiers db)" using inv by (simp add: bindings_inv_def)
  have v: "(bd_member b, d) \<in> set (verifiers db)"
    if "b \<in> set (bs_bindings db)" "vault_digest (bd_principal b) = Some d" for b d
    using that by (force simp: verifiers_def map_filter_def)
  have "{d. (m, d) \<in> set (verifiers db)} = set (map snd (filter (\<lambda>(m', e). m' = m) (verifiers db)))"
    by force
  then have "card {d. (m, d) \<in> set (verifiers db)} \<le> limit" using inv by (simp add: bindings_inv_def)
  moreover have "b = b'" if "b \<in> set (bs_bindings db)" "b' \<in> set (bs_bindings db)" "bd_principal b = bd_principal b'"
    using inv that by (simp add: bindings_inv_def distinct_map inj_on_def)
  moreover have "b = b'" if "b \<in> set (bs_bindings db)" "b' \<in> set (bs_bindings db)"
    "bd_state b = BoundActive" "bd_state b' = BoundActive" "bd_member b = bd_member b'"
    using inv that by (simp add: bindings_inv_def distinct_map inj_on_def)
  moreover have "bd_member b = bd_member b'" if "b \<in> set (bs_bindings db)" "b' \<in> set (bs_bindings db)"
    "vault_digest (bd_principal b) = vault_digest (bd_principal b')" "vault_digest (bd_principal b) \<noteq> None"
    using v that own unfolding owners_unique_def by (metis option.exhaust)
  ultimately show ?thesis using own unfolding owners_unique_def by blast
qed

theorem credentials_not_shared_witness:
  "\<exists>db. map bd_member (bs_bindings db) = [''a'']
    \<and> card {d. (''a'', d) \<in> set (verifiers db)} \<le> 2"
proof -
  let ?db = "run (binding_step demo_ids 2) demo_bindings demo_binding_commands"
  have "map bd_member (bs_bindings ?db) = [''a'']" by code_simp
  moreover have "card {d. (''a'', d) \<in> set (verifiers ?db)} \<le> 2"
    using credentials_not_shared [OF demo_bindings_ok, where cs = demo_binding_commands and m = "''a''"] by simp
  ultimately show ?thesis by (intro exI [of _ ?db]) simp
qed

end
