(* ===== verification/MembershipClaims.thy ===== *)
theory MembershipClaims
  imports PrincipalBindings Base64Url
begin

text \<open>
  Transferred membership claims, from
  \<open>src/src/coordination/postgres/PostgresPortabilityLifecyclePersistence.ts\<close>: the claims of an
  authority transfer, in batches whose revision and digest the journal of the transfer records;
  their rotation, revocation, deletion and redemption; the receipt keys; and the receipt of the
  batch's custody. The database holds the journals, the bindings and the tables of these
  operations. Every operation is a transaction.

  The codecs of receipts belong to the protocol package: the record \<open>claim_env\<close> has them as
  predicates, what the decoder accepts it returns, beside the Project, the limit on credentials,
  the order of member identifiers and the digest of the encoding of associated data, \<open>None\<close> when
  the encoder throws. A receipt is kept as the record it denotes, not as text.
\<close>

section \<open>Data\<close>

datatype claim_state = Unclaimed | Redeemed | Revoked

record claim =
  cm_transfer :: string
  cm_member :: string
  cm_batch :: int
  cm_checkpoint :: string
  cm_sha :: string
  cm_state :: claim_state
  cm_principal :: "string option"
  cm_intent :: "string option"
  cm_receipt :: "string option"
  cm_expiresAt :: int
  cm_createdAt :: int
  cm_updatedAt :: int

record claim_input =
  ci_batch :: int
  ci_checkpoint :: string
  ci_sha :: string
  ci_createdAt :: stamp
  ci_expiresAt :: stamp
  ci_member :: string
  ci_transfer :: string

record redemption_receipt =
  rr_project :: string
  rr_transfer :: string
  rr_member :: string
  rr_claimSha :: string
  rr_checkpoint :: string
  rr_intent :: string
  rr_redeemedAt :: stamp
  rr_id :: string
  rr_key :: string
  rr_targetGeneration :: int
  rr_signature :: string

record receipt_row =
  rw_transfer :: string
  rw_member :: string
  rw_receipt :: redemption_receipt
  rw_ack :: "int option"

record custody_receipt =
  cu_project :: string
  cu_transfer :: string
  cu_batch :: int
  cu_batchSha :: string
  cu_checkpoint :: string
  cu_custodyGeneration :: int
  cu_targetGeneration :: int
  cu_id :: string
  cu_rest :: string

record receipt_key =
  rk_transfer :: string
  rk_id :: string
  rk_public :: string
  rk_created :: int

record associated_data =
  ad_project :: string
  ad_transfer :: string
  ad_member :: string
  ad_generation :: int
  ad_checkpoint :: string
  ad_claimSha :: string
  ad_environment :: string
  ad_version :: int

record envelope =
  en_data :: associated_data
  en_dataSha :: string
  en_algorithm :: string
  en_ciphertext :: string
  en_createdAt :: int
  en_expiresAt :: int
  en_keyId :: string
  en_keyVersion :: int
  en_member :: string
  en_nonce :: string
  en_receiptKey :: string
  en_tag :: string
  en_transfer :: string

record claim_env =
  ce_ids :: id_checks
  ce_project :: string
  ce_limit :: nat
  ce_redemption :: "redemption_receipt \<Rightarrow> bool"
  ce_custody :: "custody_receipt \<Rightarrow> bool"
  ce_before :: "string \<Rightarrow> string \<Rightarrow> bool"
  ce_digest :: "associated_data \<Rightarrow> string option"

record claims_db =
  cl_journals :: journal_db
  cl_bindings :: binding_db
  cl_claims :: "claim list"
  cl_receipts :: "receipt_row list"
  cl_keys :: "receipt_key list"
  cl_batches :: "custody_receipt list"
  cl_envelopes :: "envelope list"

section \<open>Rows\<close>

definition claim_row_ok :: "claim \<Rightarrow> bool" where
  "claim_row_ok c \<longleftrightarrow> cm_createdAt c < cm_expiresAt c \<and> cm_createdAt c \<le> cm_updatedAt c
     \<and> (case cm_state c of
          Unclaimed \<Rightarrow> cm_principal c = None \<and> cm_intent c = None \<and> cm_receipt c = None
        | Redeemed \<Rightarrow> cm_principal c \<noteq> None \<and> cm_intent c \<noteq> None \<and> cm_receipt c \<noteq> None
        | Revoked \<Rightarrow> True)"

definition fresh_claim :: "string \<Rightarrow> string \<Rightarrow> int \<Rightarrow> string \<Rightarrow> string \<Rightarrow> int \<Rightarrow> int \<Rightarrow> claim" where
  "fresh_claim transfer member batch checkpoint sha expires created =
     \<lparr>cm_transfer = transfer, cm_member = member, cm_batch = batch, cm_checkpoint = checkpoint,
      cm_sha = sha, cm_state = Unclaimed, cm_principal = None, cm_intent = None, cm_receipt = None,
      cm_expiresAt = expires, cm_createdAt = created, cm_updatedAt = created\<rparr>"

text \<open>An insert that does nothing when the primary key exists.\<close>

definition insert_claim :: "claim \<Rightarrow> claims_db \<Rightarrow> coord_error + bool \<times> claims_db" where
  "insert_claim c db =
     (if list_ex (\<lambda>q. cm_transfer q = cm_transfer c \<and> cm_batch q = cm_batch c \<and> cm_member q = cm_member c)
           (cl_claims db)
      then Inr (False, db)
      else if claim_row_ok c
         \<and> \<not> list_ex (\<lambda>q. cm_transfer q = cm_transfer c \<and> cm_sha q = cm_sha c) (cl_claims db)
      then Inr (True, db\<lparr>cl_claims := cl_claims db @ [c]\<rparr>)
      else Inl DependencyFailed)"

text \<open>An update of the claims that satisfy a condition, with the number of rows it changed.\<close>

definition update_claims ::
  "(claim \<Rightarrow> bool) \<Rightarrow> (claim \<Rightarrow> claim) \<Rightarrow> claims_db \<Rightarrow> coord_error + nat \<times> claims_db" where
  "update_claims P f db =
     (if list_all (\<lambda>c. P c \<longrightarrow> claim_row_ok (f c)) (cl_claims db)
      then Inr (length (filter P (cl_claims db)),
                db\<lparr>cl_claims := map (\<lambda>c. if P c then f c else c) (cl_claims db)\<rparr>)
      else Inl DependencyFailed)"

definition revoke_claim :: "int \<Rightarrow> claim \<Rightarrow> claim" where
  "revoke_claim t c = c\<lparr>cm_state := Revoked, cm_updatedAt := t\<rparr>"

definition decode_claim :: "claim_env \<Rightarrow> claim \<Rightarrow> coord_error + claim" where
  "decode_claim E c = (if ic_member (ce_ids E) (cm_member c) \<and> positive_safe (cm_batch c) then Inr c else Inl DependencyFailed)"

text \<open>\<open>ORDER BY batch_revision DESC LIMIT 1\<close>; a member has at most one claim of a batch.\<close>

fun latest_claim :: "claim list \<Rightarrow> claim option" where
  "latest_claim [] = None"
| "latest_claim (c # cs) =
     (case latest_claim cs of
        None \<Rightarrow> Some c
      | Some q \<Rightarrow> if cm_batch q \<le> cm_batch c then Some c else Some q)"

text \<open>A sort by member, stable as the one of the language.\<close>

fun insert_by :: "('a \<Rightarrow> 'a \<Rightarrow> bool) \<Rightarrow> 'a \<Rightarrow> 'a list \<Rightarrow> 'a list" where
  "insert_by le x [] = [x]"
| "insert_by le x (y # ys) = (if le x y then x # y # ys else y # insert_by le x ys)"

definition sort_members :: "claim_env \<Rightarrow> ('a \<Rightarrow> string) \<Rightarrow> 'a list \<Rightarrow> 'a list" where
  "sort_members E f xs = foldr (insert_by (\<lambda>x y. ce_before E (f x) (f y))) xs []"

fun rmap :: "('a \<Rightarrow> 'e + 'b) \<Rightarrow> 'a list \<Rightarrow> 'e + 'b list" where
  "rmap f [] = Inr []"
| "rmap f (x # xs) = rbind (f x) (\<lambda>y. rbind (rmap f xs) (\<lambda>ys. Inr (y # ys)))"

section \<open>Reading\<close>

definition get_claim :: "claim_env \<Rightarrow> string \<Rightarrow> string \<Rightarrow> claims_db \<Rightarrow> coord_error + claim option" where
  "get_claim E transfer member db =
     rbind (require (ic_opaque (ce_ids E) transfer)) (\<lambda>_.
     rbind (require (ic_member (ce_ids E) member)) (\<lambda>_.
       case latest_claim (filter (\<lambda>c. cm_transfer c = transfer \<and> cm_member c = member) (cl_claims db)) of
         None \<Rightarrow> Inr None
       | Some c \<Rightarrow> rbind (decode_claim E c) (\<lambda>c'. Inr (Some c'))))"

definition find_claim :: "claim_env \<Rightarrow> string \<Rightarrow> string \<Rightarrow> claims_db \<Rightarrow> coord_error + claim option" where
  "find_claim E transfer sha db =
     rbind (require (ic_opaque (ce_ids E) transfer)) (\<lambda>_.
     rbind (require (sha256_ok sha)) (\<lambda>_.
       case filter (\<lambda>c. cm_transfer c = transfer \<and> cm_sha c = sha) (cl_claims db) of
         [] \<Rightarrow> Inr None
       | [c] \<Rightarrow> rbind (decode_claim E c) (\<lambda>c'. Inr (Some c'))
       | _ \<Rightarrow> Inl DependencyFailed))"

definition list_claims :: "claim_env \<Rightarrow> string \<Rightarrow> int \<Rightarrow> claims_db \<Rightarrow> coord_error + claim list" where
  "list_claims E transfer batch db =
     rbind (rmap (decode_claim E)
        (filter (\<lambda>c. cm_transfer c = transfer \<and> cm_batch c = batch) (cl_claims db))) (\<lambda>cs.
       Inr (sort_members E cm_member cs))"

definition get_batch_receipt :: "claim_env \<Rightarrow> string \<Rightarrow> claims_db \<Rightarrow> coord_error + custody_receipt option" where
  "get_batch_receipt E transfer db =
     rbind (require (ic_opaque (ce_ids E) transfer)) (\<lambda>_.
       case find (\<lambda>r. cu_transfer r = transfer) (cl_batches db) of
         None \<Rightarrow> Inr None
       | Some r \<Rightarrow> if ce_custody E r then Inr (Some r) else Inl DependencyFailed)"

definition get_redemption :: "claim_env \<Rightarrow> string \<Rightarrow> string \<Rightarrow> claims_db \<Rightarrow> coord_error + redemption_receipt option" where
  "get_redemption E transfer member db =
     (case find (\<lambda>r. rw_transfer r = transfer \<and> rw_member r = member) (cl_receipts db) of
        None \<Rightarrow> Inr None
      | Some r \<Rightarrow> if ce_redemption E (rw_receipt r) then Inr (Some (rw_receipt r)) else Inl DependencyFailed)"

definition get_key :: "claim_env \<Rightarrow> string \<Rightarrow> string \<Rightarrow> claims_db \<Rightarrow> coord_error + receipt_key option" where
  "get_key E transfer key db =
     rbind (require (ic_opaque (ce_ids E) transfer)) (\<lambda>_.
     rbind (require (ic_opaque (ce_ids E) key)) (\<lambda>_.
       Inr (find (\<lambda>k. rk_transfer k = transfer \<and> rk_id k = key) (cl_keys db))))"

definition list_keys :: "claim_env \<Rightarrow> string \<Rightarrow> claims_db \<Rightarrow> coord_error + receipt_key list" where
  "list_keys E transfer db =
     rbind (require (ic_opaque (ce_ids E) transfer)) (\<lambda>_.
       Inr (filter (\<lambda>k. rk_transfer k = transfer) (cl_keys db)))"

section \<open>Putting claims\<close>

definition canonical_claim :: "claim_env \<Rightarrow> claim_input \<Rightarrow> coord_error + claim" where
  "canonical_claim E i =
     rbind (require (ic_opaque (ce_ids E) (ci_transfer i))) (\<lambda>_.
     rbind (require (ic_member (ce_ids E) (ci_member i))) (\<lambda>_.
     rbind (require (positive_safe (ci_batch i))) (\<lambda>_.
     rbind (require (sha256_ok (ci_checkpoint i))) (\<lambda>_.
     rbind (require (sha256_ok (ci_sha i))) (\<lambda>_.
     rbind (timestamp (ci_createdAt i)) (\<lambda>created.
     rbind (timestamp (ci_expiresAt i)) (\<lambda>expires.
     rbind (require (\<not> expires \<le> created)) (\<lambda>_.
       Inr (fresh_claim (ci_transfer i) (ci_member i) (ci_batch i) (ci_checkpoint i) (ci_sha i)
              expires created)))))))))"

text \<open>The journal of a transfer whose batch and checkpoint are the given ones.\<close>

definition transfer_batch :: "journal option \<Rightarrow> int \<Rightarrow> string \<Rightarrow> string \<Rightarrow> bool" where
  "transfer_batch x batch sha checkpoint \<longleftrightarrow>
     (case x of None \<Rightarrow> False
      | Some j \<Rightarrow> j_kind j = AuthorityTransfer \<and> j_batchRevision j = Some batch
          \<and> j_batchSha j = Some sha \<and> j_checkpointSha j = Some checkpoint)"

definition put_claim :: "claim_env \<Rightarrow> claim_input \<Rightarrow> claims_db \<Rightarrow> coord_error + put_result \<times> claims_db" where
  "put_claim E i db =
     rbind (canonical_claim E i) (\<lambda>c.
     rbind (require (cm_batch c = 1)) (\<lambda>_.
     rbind (get_journal (ce_ids E) (cm_transfer c) (cl_journals db)) (\<lambda>journal.
     rbind (ensure (case journal of None \<Rightarrow> False
              | Some j \<Rightarrow> j_kind j = AuthorityTransfer \<and> j_batchRevision j = Some (cm_batch c)
                  \<and> j_checkpointSha j = Some (cm_checkpoint c) \<and> j_batchSha j \<noteq> None) StateConflict) (\<lambda>_.
     rbind (get_claim E (cm_transfer c) (cm_member c) db) (\<lambda>existing.
       if existing \<noteq> None
       then rbind (ensure (existing = Some c) StateConflict) (\<lambda>_. Inr (PutReplayed, db))
       else rbind (insert_claim c db) (\<lambda>(inserted, db1).
            rbind (get_claim E (cm_transfer c) (cm_member c) db1) (\<lambda>stored.
            rbind (ensure (stored = Some c) StateConflict) (\<lambda>_.
              Inr (if inserted then Created else PutReplayed, db1)))))))))"

section \<open>Rotation, revocation and deletion\<close>

record rotate_input =
  ro_checkpoint :: string
  ro_expectedBatch :: int
  ro_expectedSha :: string
  ro_nextBatch :: int
  ro_nextSha :: string
  ro_replacements :: "(string \<times> stamp \<times> string) list"
  ro_rotatedAt :: stamp
  ro_scheduledAt :: stamp
  ro_transfer :: string

text \<open>A replacement is the digest of the new claim, its expiry and its member.\<close>

definition canonical_replacement ::
  "claim_env \<Rightarrow> string \<times> stamp \<times> string \<Rightarrow> coord_error + string \<times> int \<times> string" where
  "canonical_replacement E r =
     (case r of (sha, expires, member) \<Rightarrow>
        rbind (require (sha256_ok sha)) (\<lambda>_.
        rbind (timestamp expires) (\<lambda>t.
        rbind (require (ic_member (ce_ids E) member)) (\<lambda>_. Inr (sha, t, member)))))"

fun insert_replacements :: "claim list \<Rightarrow> claims_db \<Rightarrow> coord_error + claims_db" where
  "insert_replacements [] db = Inr db"
| "insert_replacements (c # cs) db =
     rbind (insert_claim c db) (\<lambda>(inserted, db1).
     rbind (ensure inserted StateConflict) (\<lambda>_. insert_replacements cs db1))"

text \<open>The update that takes the journal to the next batch.\<close>

definition advance_batch ::
  "rotate_input \<Rightarrow> int \<Rightarrow> int \<Rightarrow> journal_db \<Rightarrow> coord_error + bool \<times> journal_db" where
  "advance_batch i scheduled rotated db =
     (case List.extract (\<lambda>r. j_operation r = ro_transfer i \<and> j_checkpointSha r = Some (ro_checkpoint i)
              \<and> j_batchRevision r = Some (ro_expectedBatch i) \<and> j_batchSha r = Some (ro_expectedSha i)
              \<and> j_kind r = AuthorityTransfer \<and> open_journal r) (db_journals db) of
        None \<Rightarrow> Inr (False, db)
      | Some (ys, r, zs) \<Rightarrow>
          let r' = r\<lparr>j_batchRevision := Some (ro_nextBatch i), j_batchSha := Some (ro_nextSha i),
                     j_scheduledAt := scheduled, j_updatedAt := rotated\<rparr>
          in if constraints_ok (ys @ zs) r'
             then Inr (True, db\<lparr>db_journals := ys @ r' # zs\<rparr>) else Inl DependencyFailed)"

text \<open>The second time the same rotation is asked for.\<close>

definition rotation_done :: "claim_env \<Rightarrow> rotate_input \<Rightarrow> (string \<times> int \<times> string) list \<Rightarrow> int \<Rightarrow> claims_db
    \<Rightarrow> coord_error + unit" where
  "rotation_done E i rs rotated db =
     rbind (list_claims E (ro_transfer i) (ro_nextBatch i) db) (\<lambda>nextClaims.
     rbind (list_claims E (ro_transfer i) (ro_expectedBatch i) db) (\<lambda>previous.
       ensure (nextClaims = map (\<lambda>(sha, expires, member). fresh_claim (ro_transfer i) member (ro_nextBatch i)
                  (ro_checkpoint i) sha expires rotated) rs
          \<and> length previous = length rs
          \<and> list_all (\<lambda>c. cm_state c = Revoked \<and> cm_updatedAt c = rotated) previous) StateConflict))"

definition rotate_body :: "claim_env \<Rightarrow> rotate_input \<Rightarrow> (string \<times> int \<times> string) list \<Rightarrow> int \<Rightarrow> int \<Rightarrow> journal
    \<Rightarrow> claims_db \<Rightarrow> coord_error + claims_db" where
  "rotate_body E i rs rotated scheduled j db =
     rbind (list_claims E (ro_transfer i) (ro_expectedBatch i) db) (\<lambda>current.
     rbind (ensure (map cm_member current = map (\<lambda>(sha, expires, member). member) rs
        \<and> list_all (\<lambda>c. cm_checkpoint c = ro_checkpoint i \<and> cm_state c = Unclaimed) current) StateConflict) (\<lambda>_.
     rbind (update_claims (\<lambda>c. cm_transfer c = ro_transfer i \<and> cm_batch c = ro_expectedBatch i
              \<and> cm_state c = Unclaimed) (revoke_claim rotated) db) (\<lambda>(n, db1).
     rbind (ensure (n = length current) StateConflict) (\<lambda>_.
     rbind (insert_replacements (map (\<lambda>(sha, expires, member). fresh_claim (ro_transfer i) member
              (ro_nextBatch i) (ro_checkpoint i) sha expires rotated) rs) db1) (\<lambda>db2.
     rbind (advance_batch i scheduled rotated (cl_journals db2)) (\<lambda>(advanced, jdb).
     rbind (ensure advanced StateConflict) (\<lambda>_.
     rbind (upsert_candidate AuthorityTransfer (ro_transfer i) scheduled (j_createdAt j) jdb) (\<lambda>jdb1.
       Inr (db2\<lparr>cl_journals := jdb1\<rparr>)))))))))"

definition rotate_claims ::
  "claim_env \<Rightarrow> rotate_input \<Rightarrow> claims_db \<Rightarrow> coord_error + advance_result \<times> claims_db" where
  "rotate_claims E i db =
     rbind (require (ic_opaque (ce_ids E) (ro_transfer i) \<and> positive_safe (ro_expectedBatch i)
        \<and> positive_safe (ro_nextBatch i) \<and> sha256_ok (ro_expectedSha i) \<and> sha256_ok (ro_nextSha i)
        \<and> sha256_ok (ro_checkpoint i))) (\<lambda>_.
     rbind (timestamp (ro_rotatedAt i)) (\<lambda>rotated.
     rbind (timestamp (ro_scheduledAt i)) (\<lambda>scheduled.
     rbind (require (ro_nextBatch i = ro_expectedBatch i + 1)) (\<lambda>_.
     rbind (rmap (canonical_replacement E) (ro_replacements i)) (\<lambda>canonical.
     let rs = sort_members E (\<lambda>(sha, expires, member). member) canonical in
     rbind (require (rs \<noteq> [] \<and> distinct (map (\<lambda>(sha, expires, member). member) rs)
        \<and> distinct (map (\<lambda>(sha, expires, member). sha) rs)
        \<and> list_all (\<lambda>(sha, expires, member). \<not> expires \<le> rotated) rs)) (\<lambda>_.
     rbind (get_journal (ce_ids E) (ro_transfer i) (cl_journals db)) (\<lambda>journal.
       case journal of
         None \<Rightarrow> Inl StateConflict
       | Some j \<Rightarrow>
           if j_kind j \<noteq> AuthorityTransfer then Inl StateConflict
           else if transfer_batch journal (ro_nextBatch i) (ro_nextSha i) (ro_checkpoint i)
           then rbind (rotation_done E i rs rotated db) (\<lambda>_. Inr (AdvanceReplayed, db))
           else rbind (ensure (transfer_batch journal (ro_expectedBatch i) (ro_expectedSha i) (ro_checkpoint i)
                    \<and> open_journal j) StateConflict) (\<lambda>_.
                rbind (get_batch_receipt E (ro_transfer i) db) (\<lambda>custody.
                rbind (ensure (custody = None) StateConflict) (\<lambda>_.
                rbind (rotate_body E i rs rotated scheduled j db) (\<lambda>db1.
                  Inr (Advanced, db1))))))))))))"

definition revoke_claims ::
  "claim_env \<Rightarrow> string \<Rightarrow> int \<Rightarrow> string \<Rightarrow> string \<Rightarrow> stamp \<Rightarrow> claims_db \<Rightarrow> coord_error + advance_result \<times> claims_db" where
  "revoke_claims E transfer batch sha checkpoint revokedAt db =
     rbind (require (ic_opaque (ce_ids E) transfer \<and> positive_safe batch \<and> sha256_ok sha
        \<and> sha256_ok checkpoint)) (\<lambda>_.
     rbind (timestamp revokedAt) (\<lambda>t.
     rbind (get_journal (ce_ids E) transfer (cl_journals db)) (\<lambda>journal.
     rbind (ensure (transfer_batch journal batch sha checkpoint) StateConflict) (\<lambda>_.
     rbind (list_claims E transfer batch db) (\<lambda>claims.
     rbind (ensure (claims \<noteq> []) StateConflict) (\<lambda>_.
     rbind (update_claims (\<lambda>c. cm_transfer c = transfer \<and> cm_batch c = batch \<and> cm_state c = Unclaimed)
              (revoke_claim t) db) (\<lambda>(n, db1).
     rbind (list_claims E transfer batch db1) (\<lambda>stored.
     rbind (ensure (list_all (\<lambda>c. \<not> (cm_state c = Unclaimed
              \<or> cm_state c = Revoked \<and> cm_updatedAt c \<noteq> t)) stored) StateConflict) (\<lambda>_.
       Inr (if n > 0 then Advanced else AdvanceReplayed, db1))))))))))"

definition delete_claims ::
  "claim_env \<Rightarrow> string \<Rightarrow> int \<Rightarrow> string \<Rightarrow> string \<Rightarrow> claims_db \<Rightarrow> coord_error + advance_result \<times> claims_db" where
  "delete_claims E transfer batch sha checkpoint db =
     rbind (require (ic_opaque (ce_ids E) transfer \<and> positive_safe batch \<and> sha256_ok sha
        \<and> sha256_ok checkpoint)) (\<lambda>_.
     rbind (get_journal (ce_ids E) transfer (cl_journals db)) (\<lambda>journal.
     rbind (ensure (transfer_batch journal batch sha checkpoint
        \<and> (case journal of None \<Rightarrow> False
           | Some j \<Rightarrow> j_direction j = Some LanToCloud
               \<and> j_phase j \<in> set [''target-invalidated'', ''target-cleaned'', ''source-reopened'', ''cancelled'']))
        StateConflict) (\<lambda>_.
     rbind (ensure (\<not> list_ex (\<lambda>c. cm_transfer c = transfer \<and> cm_state c = Redeemed) (cl_claims db)) StateConflict) (\<lambda>_.
     let hit = (\<lambda>c. cm_transfer c = transfer \<and> (cm_state c = Unclaimed \<or> cm_state c = Revoked));
         db1 = db\<lparr>cl_claims := filter (\<lambda>c. \<not> hit c) (cl_claims db)\<rparr>
     in rbind (ensure (\<not> list_ex (\<lambda>c. cm_transfer c = transfer) (cl_claims db1)) StateConflict) (\<lambda>_.
          Inr (if list_ex hit (cl_claims db) then Advanced else AdvanceReplayed, db1))))))"

section \<open>Receipt keys\<close>

record key_input =
  ki_createdAt :: stamp
  ki_public :: string
  ki_id :: string
  ki_transfer :: string

definition canonical_key :: "claim_env \<Rightarrow> key_input \<Rightarrow> coord_error + receipt_key" where
  "canonical_key E i =
     rbind (require (ic_opaque (ce_ids E) (ki_transfer i))) (\<lambda>_.
     rbind (require (ic_opaque (ce_ids E) (ki_id i))) (\<lambda>_.
     rbind (timestamp (ki_createdAt i)) (\<lambda>created.
     rbind (require (canonical_base64url 32 64 (ki_public i))) (\<lambda>_.
       Inr \<lparr>rk_transfer = ki_transfer i, rk_id = ki_id i, rk_public = ki_public i, rk_created = created\<rparr>))))"

definition put_key :: "claim_env \<Rightarrow> key_input \<Rightarrow> claims_db \<Rightarrow> coord_error + put_result \<times> claims_db" where
  "put_key E i db =
     rbind (canonical_key E i) (\<lambda>k.
     rbind (get_journal (ce_ids E) (rk_transfer k) (cl_journals db)) (\<lambda>journal.
     rbind (ensure (map_option j_kind journal = Some AuthorityTransfer) StateConflict) (\<lambda>_.
     let exists = list_ex (\<lambda>q. rk_transfer q = rk_transfer k \<and> rk_id q = rk_id k) (cl_keys db);
         db1 = (if exists then db else db\<lparr>cl_keys := cl_keys db @ [k]\<rparr>)
     in rbind (get_key E (rk_transfer k) (rk_id k) db1) (\<lambda>stored.
        rbind (ensure (stored = Some k) StateConflict) (\<lambda>_.
          Inr (if exists then PutReplayed else Created, db1))))))"

text \<open>
  A key that a stored receipt or envelope names cannot be deleted: their foreign keys refuse it.
\<close>

definition delete_key :: "claim_env \<Rightarrow> key_input \<Rightarrow> claims_db \<Rightarrow> coord_error + advance_result \<times> claims_db" where
  "delete_key E i db =
     rbind (canonical_key E i) (\<lambda>k.
     rbind (get_journal (ce_ids E) (rk_transfer k) (cl_journals db)) (\<lambda>journal.
     rbind (ensure (case journal of None \<Rightarrow> False
              | Some j \<Rightarrow> j_kind j = AuthorityTransfer \<and> j_phase j = ''target-invalidated'' \<and> j_state j = Active)
            StateConflict) (\<lambda>_.
       if k \<in> set (cl_keys db)
       then if list_ex (\<lambda>r. rw_transfer r = rk_transfer k \<and> rr_key (rw_receipt r) = rk_id k) (cl_receipts db)
              \<or> list_ex (\<lambda>e. en_transfer e = rk_transfer k \<and> en_receiptKey e = rk_id k) (cl_envelopes db)
            then Inl DependencyFailed
            else Inr (Advanced, db\<lparr>cl_keys := filter (\<lambda>q. q \<noteq> k) (cl_keys db)\<rparr>)
       else rbind (get_key E (rk_transfer k) (rk_id k) db) (\<lambda>stored.
            rbind (ensure (stored = None) StateConflict) (\<lambda>_. Inr (AdvanceReplayed, db))))))"

section \<open>Redemption\<close>

record redeem_input =
  re_sha :: string
  re_member :: string
  re_intent :: string
  re_receipt :: redemption_receipt
  re_principal :: string
  re_transfer :: string
  re_updatedAt :: stamp

text \<open>A receipt is acknowledged after its redemption.\<close>

definition ack_ok :: "receipt_row \<Rightarrow> bool" where
  "ack_ok r \<longleftrightarrow> (case (rw_ack r, rr_redeemedAt (rw_receipt r)) of (Some a, Stamp n) \<Rightarrow> n \<le> a | _ \<Rightarrow> True)"

text \<open>The insert of a receipt does nothing when the member has one; other keys refuse it.\<close>

definition insert_receipt :: "receipt_row \<Rightarrow> claims_db \<Rightarrow> coord_error + bool \<times> claims_db" where
  "insert_receipt r db =
     (if list_ex (\<lambda>q. rw_transfer q = rw_transfer r \<and> rw_member q = rw_member r) (cl_receipts db)
      then Inr (False, db)
      else if list_ex (\<lambda>k. rk_transfer k = rw_transfer r \<and> rk_id k = rr_key (rw_receipt r)) (cl_keys db) \<and> ack_ok r
         \<and> \<not> list_ex (\<lambda>q. rw_transfer q = rw_transfer r \<and> rr_id (rw_receipt q) = rr_id (rw_receipt r)) (cl_receipts db)
      then Inr (True, db\<lparr>cl_receipts := cl_receipts db @ [r]\<rparr>)
      else Inl DependencyFailed)"

definition redeem_bind :: "claim_env \<Rightarrow> redeem_input \<Rightarrow> claims_db \<Rightarrow> coord_error + claims_db" where
  "redeem_bind E i db =
     rbind (bind_principal (ce_ids E) (ce_limit E) \<lparr>bi_boundAt = re_updatedAt i, bi_member = re_member i,
              bi_principal = re_principal i\<rparr> (cl_bindings db)) (\<lambda>(res, bdb).
       Inr (db\<lparr>cl_bindings := bdb\<rparr>))"

definition receipt_row_of :: "redeem_input \<Rightarrow> receipt_row" where
  "receipt_row_of i = \<lparr>rw_transfer = re_transfer i, rw_member = re_member i, rw_receipt = re_receipt i, rw_ack = None\<rparr>"

text \<open>The condition and the assignments of the update, given the latest claim \<open>c\<close> of the member.\<close>

definition redeemable :: "redeem_input \<Rightarrow> int \<Rightarrow> claim \<Rightarrow> claim \<Rightarrow> bool" where
  "redeemable i t c q \<longleftrightarrow> cm_transfer q = re_transfer i \<and> cm_member q = re_member i
     \<and> cm_sha q = re_sha i \<and> cm_batch q = cm_batch c \<and> cm_state q = Unclaimed \<and> t < cm_expiresAt q"

definition redeemed_claim :: "redeem_input \<Rightarrow> int \<Rightarrow> claim \<Rightarrow> claim" where
  "redeemed_claim i t q = q\<lparr>cm_state := Redeemed, cm_principal := Some (re_principal i),
     cm_intent := Some (re_intent i), cm_receipt := Some (rr_id (re_receipt i)), cm_updatedAt := t\<rparr>"

definition redeemed_by :: "redeem_input \<Rightarrow> claim \<Rightarrow> bool" where
  "redeemed_by i c \<longleftrightarrow> cm_state c = Redeemed \<and> cm_sha c = re_sha i
     \<and> cm_principal c = Some (re_principal i) \<and> cm_intent c = Some (re_intent i)
     \<and> cm_receipt c = Some (rr_id (re_receipt i))"

definition redeem_claim ::
  "claim_env \<Rightarrow> redeem_input \<Rightarrow> claims_db \<Rightarrow> coord_error + redemption_receipt \<times> claims_db" where
  "redeem_claim E i db =
     (let receipt = re_receipt i in
      rbind (require (ic_opaque (ce_ids E) (re_transfer i) \<and> ic_member (ce_ids E) (re_member i)
         \<and> sha256_ok (re_sha i) \<and> ic_opaque (ce_ids E) (re_intent i) \<and> principal_ok (re_principal i))) (\<lambda>_.
      rbind (timestamp (re_updatedAt i)) (\<lambda>t.
      rbind (require (ce_redemption E receipt)) (\<lambda>_.
      rbind (require (rr_project receipt = ce_project E \<and> rr_transfer receipt = re_transfer i
         \<and> rr_member receipt = re_member i \<and> rr_claimSha receipt = re_sha i
         \<and> rr_intent receipt = re_intent i \<and> rr_redeemedAt receipt = re_updatedAt i)) (\<lambda>_.
      rbind (get_claim E (re_transfer i) (re_member i) db) (\<lambda>claim.
      rbind (get_journal (ce_ids E) (re_transfer i) (cl_journals db)) (\<lambda>journal.
        case (claim, journal) of
          (Some c, Some j) \<Rightarrow>
            rbind (require (j_kind j = AuthorityTransfer \<and> cm_sha c = re_sha i
               \<and> rr_checkpoint receipt = cm_checkpoint c
               \<and> rr_targetGeneration receipt = j_generation j + 1)) (\<lambda>_.
            rbind (insert_receipt (receipt_row_of i) db) (\<lambda>(inserted, db1).
            rbind (update_claims (redeemable i t c) (redeemed_claim i t) db1) (\<lambda>(n, db2).
              if n = 1 then rbind (redeem_bind E i db2) (\<lambda>db3. Inr (receipt, db3))
              else rbind (get_claim E (re_transfer i) (re_member i) db2) (\<lambda>replay.
                   rbind (get_redemption E (re_transfer i) (re_member i) db2) (\<lambda>stored.
                   rbind (ensure ((case replay of None \<Rightarrow> False | Some q \<Rightarrow> redeemed_by i q)
                      \<and> stored = Some receipt \<and> \<not> inserted) StateConflict) (\<lambda>_.
                   rbind (redeem_bind E i db2) (\<lambda>db3. Inr (receipt, db3))))))))
        | _ \<Rightarrow> Inl InvalidRecord)))))))"

section \<open>Custody of a batch\<close>

definition put_batch_receipt ::
  "claim_env \<Rightarrow> custody_receipt \<Rightarrow> claims_db \<Rightarrow> coord_error + put_result \<times> claims_db" where
  "put_batch_receipt E r db =
     rbind (require (ce_custody E r)) (\<lambda>_.
     rbind (require (cu_project r = ce_project E)) (\<lambda>_.
     rbind (get_journal (ce_ids E) (cu_transfer r) (cl_journals db)) (\<lambda>journal.
     rbind (ensure (transfer_batch journal (cu_batch r) (cu_batchSha r) (cu_checkpoint r)
        \<and> (case journal of None \<Rightarrow> False
           | Some j \<Rightarrow> j_generation j = cu_custodyGeneration r \<and> cu_targetGeneration r = j_generation j + 1))
        StateConflict) (\<lambda>_.
     let exists = list_ex (\<lambda>q. cu_transfer q = cu_transfer r) (cl_batches db);
         db1 = (if exists then db else db\<lparr>cl_batches := cl_batches db @ [r]\<rparr>)
     in rbind (get_batch_receipt E (cu_transfer r) db1) (\<lambda>stored.
        rbind (ensure (stored = Some r) StateConflict) (\<lambda>_.
          Inr (if exists then PutReplayed else Created, db1)))))))"

section \<open>Invariant\<close>

definition claim_key :: "claim \<Rightarrow> string \<times> int \<times> string" where
  "claim_key c = (cm_transfer c, cm_batch c, cm_member c)"

definition claim_secret :: "claim \<Rightarrow> string \<times> string" where
  "claim_secret c = (cm_transfer c, cm_sha c)"

definition claims_keyed :: "claim list \<Rightarrow> bool" where
  "claims_keyed cs \<longleftrightarrow> distinct (map claim_key cs) \<and> distinct (map claim_secret cs)
     \<and> list_all claim_row_ok cs"

text \<open>A claim belongs to a transfer whose journal has a batch; claims of earlier batches are dead.\<close>

definition claim_current :: "journal_db \<Rightarrow> claim \<Rightarrow> bool" where
  "claim_current jdb c \<longleftrightarrow> (case select_journal (cm_transfer c) jdb of
     None \<Rightarrow> False
   | Some j \<Rightarrow> j_kind j = AuthorityTransfer \<and> (case j_batchRevision j of
        None \<Rightarrow> False
      | Some b \<Rightarrow> cm_batch c \<le> b \<and> (cm_batch c < b \<longrightarrow> cm_state c = Revoked)))"

definition receipt_of :: "receipt_row \<Rightarrow> claim \<Rightarrow> bool" where
  "receipt_of r c \<longleftrightarrow> rw_transfer r = cm_transfer c \<and> rw_member r = cm_member c
     \<and> cm_state c = Redeemed \<and> cm_receipt c = Some (rr_id (rw_receipt r))"

definition claims_inv :: "claim_env \<Rightarrow> claims_db \<Rightarrow> bool" where
  "claims_inv E db \<longleftrightarrow> journal_inv (ce_ids E) (cl_journals db) \<and> claims_keyed (cl_claims db)
     \<and> (\<forall>c\<in>set (cl_claims db). claim_current (cl_journals db) c)
     \<and> distinct (map (\<lambda>r. (rw_transfer r, rw_member r)) (cl_receipts db))
     \<and> (\<forall>r\<in>set (cl_receipts db). ce_redemption E (rw_receipt r) \<and> list_ex (receipt_of r) (cl_claims db))
     \<and> (\<forall>c\<in>set (cl_claims db). cm_state c = Redeemed \<longrightarrow> list_ex (\<lambda>r. receipt_of r c) (cl_receipts db))"

lemma claims_invD:
  assumes "claims_inv E db"
  shows "journal_inv (ce_ids E) (cl_journals db)" and "claims_keyed (cl_claims db)"
    and "c \<in> set (cl_claims db) \<Longrightarrow> claim_current (cl_journals db) c"
    and "distinct (map (\<lambda>r. (rw_transfer r, rw_member r)) (cl_receipts db))"
    and "r \<in> set (cl_receipts db) \<Longrightarrow> ce_redemption E (rw_receipt r) \<and> (\<exists>c\<in>set (cl_claims db). receipt_of r c)"
    and "c \<in> set (cl_claims db) \<Longrightarrow> cm_state c = Redeemed \<Longrightarrow> \<exists>r\<in>set (cl_receipts db). receipt_of r c"
  using assms by (auto simp: claims_inv_def list_ex_iff)

lemma insert_claim_cases:
  assumes "insert_claim c db = Inr (ins, db')" and keyed: "claims_keyed (cl_claims db)"
  shows "if ins then db' = db\<lparr>cl_claims := cl_claims db @ [c]\<rparr> \<and> claims_keyed (cl_claims db @ [c])
    else db' = db \<and> (\<exists>q\<in>set (cl_claims db). claim_key q = claim_key c)"
  using assms
  by (auto simp: insert_claim_def claims_keyed_def claim_key_def claim_secret_def list_ex_iff
      split: if_splits)

lemma insert_replacements_rows:
  assumes "insert_replacements cs db = Inr db'" and "claims_keyed (cl_claims db)"
  shows "db' = db\<lparr>cl_claims := cl_claims db @ cs\<rparr> \<and> claims_keyed (cl_claims db @ cs)"
  using assms
proof (induction cs arbitrary: db)
  case (Cons c cs)
  obtain ins db1 where i: "insert_claim c db = Inr (ins, db1)" "ins" "insert_replacements cs db1 = Inr db'"
    using Cons.prems(1) by (auto simp: result_simps)
  have d: "db1 = db\<lparr>cl_claims := cl_claims db @ [c]\<rparr>" "claims_keyed (cl_claims db @ [c])"
    using insert_claim_cases [OF i(1) Cons.prems(2)] i(2) by simp_all
  have "claims_keyed (cl_claims db1)" using d by simp
  from Cons.IH [OF i(3) this] show ?case using d(1) by simp
qed simp

text \<open>Replacing the open journal by one of the same identity, with its candidate.\<close>

lemma swap_open_inv:
  assumes inv: "journal_inv ids db" and s: "db_journals db = ys @ r # zs" and op: "open_journal r" "open_journal r'"
    and same: "j_operation r' = j_operation r" "j_kind r' = j_kind r" "j_actor r' = j_actor r"
      "j_idempotencyKey r' = j_idempotencyKey r" "j_createdAt r' = j_createdAt r"
    and row: "row_ok r'" "typed_row ids r'"
    and up: "upsert_candidate (j_kind r) (j_operation r) (j_scheduledAt r') created
      (db\<lparr>db_journals := ys @ r' # zs\<rparr>) = Inr db'"
  shows "journal_inv ids db' \<and> db_journals db' = ys @ r' # zs"
proof -
  note d = journal_invD [OF inv]
  have no: "list_all (\<lambda>q. \<not> open_journal q) (ys @ zs)" using one_open [of ys r zs] d(4) s op(1) by simp
  have "db_candidates db = (\<lambda>k. if j_kind r = k then Some (candidate_of r) else None)"
    unfolding d(6) s using candidates_split [OF no, of r] op(1) by auto
  then have "db' = \<lparr>db_journals = ys @ r' # zs,
      db_candidates = (\<lambda>k. if j_kind r' = k then Some (candidate_of r') else None)\<rparr>"
    using up same by (auto simp: upsert_candidate_def candidate_of_def ensure_def fun_eq_iff
        intro!: journal_db.equality split: if_splits)
  moreover have "candidates_of (ys @ r' # zs) = (\<lambda>k. if j_kind r' = k then Some (candidate_of r') else None)"
    using candidates_split [OF no, of r'] op(2) by auto
  moreover have "length (filter open_journal (ys @ r' # zs)) \<le> 1"
    using no op(2) by (auto simp: list_all_iff filter_empty_conv)
  ultimately have facts: "db' = \<lparr>db_journals = ys @ r' # zs,
      db_candidates = (\<lambda>k. if j_kind r' = k then Some (candidate_of r') else None)\<rparr>"
    "candidates_of (ys @ r' # zs) = (\<lambda>k. if j_kind r' = k then Some (candidate_of r') else None)"
    "length (filter open_journal (ys @ r' # zs)) \<le> 1" by blast+
  have "same_identity r' q \<longleftrightarrow> same_identity r q" "same_identity q r' \<longleftrightarrow> same_identity q r" for q
    using same by (auto simp: same_identity_def)
  moreover have "r \<notin> set ys" "r \<notin> set zs" using d(1) unfolding s by auto
  then have "\<not> same_identity r y \<and> \<not> same_identity y r" if "y \<in> set ys \<union> set zs" for y
    using d(5) that unfolding s pairwise_def by auto
  ultimately have "pairwise (\<lambda>q q'. \<not> same_identity q q') (set (ys @ r' # zs))"
    using d(5) unfolding s pairwise_def by auto
  then show ?thesis
    using facts d(1-3) s row same(1) unfolding journal_inv_def by auto
qed

lemma insert_by_mset: "mset (insert_by le x xs) = add_mset x (mset xs)"
  by (induction xs) auto

lemma sort_members_mset: "mset (sort_members E f xs) = mset xs"
proof -
  have "mset (foldr (insert_by le) xs []) = mset xs" for le :: "'a \<Rightarrow> 'a \<Rightarrow> bool"
    by (induction xs) (auto simp: insert_by_mset)
  then show ?thesis by (simp add: sort_members_def)
qed

lemma rmap_same: "(\<And>x y. f x = Inr y \<Longrightarrow> y = x) \<Longrightarrow> rmap f xs = Inr ys \<Longrightarrow> ys = xs"
  by (induction xs arbitrary: ys) (auto simp: result_simps)

lemma decode_claim_Inr: "decode_claim E c = Inr c' \<Longrightarrow> c' = c"
  by (simp add: decode_claim_def split: if_splits)

lemma list_claims_rows:
  assumes "list_claims E t b db = Inr cs"
  shows "mset cs = mset (filter (\<lambda>c. cm_transfer c = t \<and> cm_batch c = b) (cl_claims db))"
proof -
  obtain qs where qs: "rmap (decode_claim E) (filter (\<lambda>c. cm_transfer c = t \<and> cm_batch c = b) (cl_claims db)) = Inr qs"
    "cs = sort_members E cm_member qs"
    using assms by (auto simp: list_claims_def rbind_Inr)
  have "qs = filter (\<lambda>c. cm_transfer c = t \<and> cm_batch c = b) (cl_claims db)"
    by (rule rmap_same [OF decode_claim_Inr qs(1)])
  then show ?thesis using qs(2) by (simp add: sort_members_mset)
qed

lemma list_claims_set:
  "list_claims E t b db = Inr cs \<Longrightarrow> set cs = {c \<in> set (cl_claims db). cm_transfer c = t \<and> cm_batch c = b}"
  using list_claims_rows [of E t b db cs] by (metis mset_eq_setD set_filter)

lemma latest_claim_None: "latest_claim cs = None \<longleftrightarrow> cs = []"
  by (cases cs) (auto split: option.split)

lemma latest_claim_mem: "latest_claim cs = Some c \<Longrightarrow> c \<in> set cs \<and> (\<forall>q\<in>set cs. cm_batch q \<le> cm_batch c)"
proof (induction cs arbitrary: c)
  case (Cons q cs)
  show ?case
  proof (cases "latest_claim cs")
    case None
    then have "cs = []" by (simp add: latest_claim_None)
    then show ?thesis using Cons.prems by simp
  next
    case (Some l)
    show ?thesis using Cons.IH [OF Some] Cons.prems Some by (auto split: if_splits)
  qed
qed simp

lemma get_claim_mem:
  assumes "get_claim E t m db = Inr (Some c)"
  shows "c \<in> set (cl_claims db)" and "cm_transfer c = t" and "cm_member c = m"
    and "\<And>q. q \<in> set (cl_claims db) \<Longrightarrow> cm_transfer q = t \<Longrightarrow> cm_member q = m \<Longrightarrow> cm_batch q \<le> cm_batch c"
proof -
  have l: "latest_claim (filter (\<lambda>c. cm_transfer c = t \<and> cm_member c = m) (cl_claims db)) = Some c"
    using assms by (auto simp: get_claim_def result_simps dest: decode_claim_Inr split: option.splits)
  note k = latest_claim_mem [OF l]
  show "c \<in> set (cl_claims db)" "cm_transfer c = t" "cm_member c = m" using k by simp_all
  show "cm_batch q \<le> cm_batch c" if "q \<in> set (cl_claims db)" "cm_transfer q = t" "cm_member q = m" for q
    using k that by simp
qed

lemma get_claim_None:
  "get_claim E t m db = Inr None \<Longrightarrow> q \<in> set (cl_claims db) \<Longrightarrow> \<not> (cm_transfer q = t \<and> cm_member q = m)"
  by (auto simp: get_claim_def result_simps latest_claim_None filter_empty_conv split: option.splits)

lemma update_claims_Inr:
  "update_claims P f db = Inr (n, db') \<longleftrightarrow> (\<forall>c\<in>set (cl_claims db). P c \<longrightarrow> claim_row_ok (f c))
     \<and> n = length (filter P (cl_claims db))
     \<and> db' = db\<lparr>cl_claims := map (\<lambda>c. if P c then f c else c) (cl_claims db)\<rparr>"
  by (auto simp: update_claims_def list_all_iff)

lemma keyed_update:
  assumes k: "claims_keyed cs" and f: "\<And>c. claim_key (f c) = claim_key c" "\<And>c. claim_secret (f c) = claim_secret c"
    and ok: "\<forall>c\<in>set cs. P c \<longrightarrow> claim_row_ok (f c)"
  shows "claims_keyed (map (\<lambda>c. if P c then f c else c) cs)"
proof -
  have "map claim_key (map (\<lambda>c. if P c then f c else c) cs) = map claim_key cs"
    "map claim_secret (map (\<lambda>c. if P c then f c else c) cs) = map claim_secret cs"
    using f by simp_all
  then show ?thesis using k ok unfolding claims_keyed_def by (simp only: list_all_iff) auto
qed

lemma keyed_unique:
  "claims_keyed cs \<Longrightarrow> c \<in> set cs \<Longrightarrow> q \<in> set cs \<Longrightarrow> claim_key c = claim_key q \<Longrightarrow> c = q"
  "claims_keyed cs \<Longrightarrow> c \<in> set cs \<Longrightarrow> q \<in> set cs \<Longrightarrow> claim_secret c = claim_secret q \<Longrightarrow> c = q"
  by (simp_all add: claims_keyed_def distinct_map inj_on_def)

text \<open>A claim of a transfer with the given batch.\<close>

lemma transfer_batch_current:
  assumes inv: "journal_inv ids jdb" and g: "get_journal ids t jdb = Inr (Some j)"
  shows "select_journal t jdb = Some j"
  using get_journal_mem [OF g] select_row [OF journal_invD(1) [OF inv]] by metis

lemma current_evolves:
  assumes inv': "journal_inv ids jdb'" and ev: "\<forall>r\<in>set (db_journals jdb). \<exists>r'\<in>set (db_journals jdb'). evolves r r'"
    and c: "claim_current jdb c"
  shows "claim_current jdb' c"
proof -
  obtain j b where j: "select_journal (cm_transfer c) jdb = Some j" "j_kind j = AuthorityTransfer"
    "j_batchRevision j = Some b" "cm_batch c \<le> b" "cm_batch c < b \<longrightarrow> cm_state c = Revoked"
    using c by (auto simp: claim_current_def split: option.splits)
  note m = select_mem [OF j(1)]
  obtain r' where r': "r' \<in> set (db_journals jdb')" "evolves j r'" using ev m by blast
  have "select_journal (cm_transfer c) jdb' = Some r'"
    using select_row [OF journal_invD(1) [OF inv'] r'(1)] r'(2) m by (simp add: evolves_def)
  then show ?thesis using j r'(2) by (auto simp: claim_current_def evolves_def keeps_def same_identity_def)
qed

section \<open>The operations keep the invariant\<close>

lemma claim_current_iff:
  "claim_current jdb c \<longleftrightarrow> (\<exists>j b. select_journal (cm_transfer c) jdb = Some j \<and> j_kind j = AuthorityTransfer
     \<and> j_batchRevision j = Some b \<and> cm_batch c \<le> b \<and> (cm_batch c < b \<longrightarrow> cm_state c = Revoked))"
  by (auto simp: claim_current_def split: option.splits)

lemma claims_inv_same:
  assumes "claims_inv E db" and "cl_journals db' = cl_journals db" and "cl_claims db' = cl_claims db"
    and "cl_receipts db' = cl_receipts db"
  shows "claims_inv E db'"
  using assms by (simp add: claims_inv_def)

text \<open>What operations never take back: redeemed claims and the receipts of redemptions.\<close>

definition redeemed_kept :: "claims_db \<Rightarrow> claims_db \<Rightarrow> bool" where
  "redeemed_kept db db' \<longleftrightarrow> (\<forall>c\<in>set (cl_claims db). cm_state c = Redeemed \<longrightarrow> c \<in> set (cl_claims db'))
     \<and> set (cl_receipts db) \<subseteq> set (cl_receipts db')"

lemma redeemed_kept_refl [simp]: "cl_claims db' = cl_claims db \<Longrightarrow> cl_receipts db' = cl_receipts db \<Longrightarrow> redeemed_kept db db'"
  by (simp add: redeemed_kept_def)

lemma redeemed_kept_trans: "redeemed_kept a b \<Longrightarrow> redeemed_kept b c \<Longrightarrow> redeemed_kept a c"
  by (auto simp: redeemed_kept_def)

text \<open>Claims of one transfer change, none of them redeemed before or after.\<close>

lemma replace_claims_inv:
  assumes inv: "claims_inv E db" and j: "journal_inv (ce_ids E) jdb" and keyed: "claims_keyed cs"
    and current: "\<And>c. c \<in> set cs \<Longrightarrow> claim_current jdb c"
    and same: "\<And>c. cm_state c = Redeemed \<Longrightarrow> c \<in> set cs \<longleftrightarrow> c \<in> set (cl_claims db)"
  shows "claims_inv E (db\<lparr>cl_claims := cs, cl_journals := jdb\<rparr>) \<and> redeemed_kept db (db\<lparr>cl_claims := cs, cl_journals := jdb\<rparr>)"
proof -
  note d = claims_invD [OF inv]
  have "\<exists>c\<in>set cs. receipt_of r c" if "r \<in> set (cl_receipts db)" for r
    using d(5) [OF that] same by (auto simp: receipt_of_def)
  moreover have "\<exists>r\<in>set (cl_receipts db). receipt_of r c" if "c \<in> set cs" "cm_state c = Redeemed" for c
    using d(6) [of c] same [OF that(2)] that by simp
  ultimately show ?thesis
    using j keyed current d(4,5) same by (auto simp: claims_inv_def list_ex_iff redeemed_kept_def)
qed

lemma put_claim_cases:
  assumes p: "put_claim E i db = Inr (res, db')" and inv: "claims_inv E db"
  obtains (created) c j where "res = Created" and "db' = db\<lparr>cl_claims := cl_claims db @ [c]\<rparr>"
      and "claims_keyed (cl_claims db @ [c])" and "cm_state c = Unclaimed" and "cm_batch c = 1"
      and "get_journal (ce_ids E) (cm_transfer c) (cl_journals db) = Inr (Some j)"
      and "j_kind j = AuthorityTransfer" and "j_batchRevision j = Some 1"
  | (replayed) "res = PutReplayed" and "db' = db"
proof -
  obtain c where c: "canonical_claim E i = Inr c" "cm_batch c = 1"
    using p by (auto simp: put_claim_def result_simps)
  obtain j where j: "get_journal (ce_ids E) (cm_transfer c) (cl_journals db) = Inr (Some j)"
    "j_kind j = AuthorityTransfer" "j_batchRevision j = Some 1"
    using p c by (auto simp: put_claim_def result_simps split: option.splits)
  obtain ex where ex: "get_claim E (cm_transfer c) (cm_member c) db = Inr ex"
    using p c j by (auto simp: put_claim_def result_simps)
  have state: "cm_state c = Unclaimed" using c(1) by (auto simp: canonical_claim_def result_simps fresh_claim_def)
  show ?thesis
  proof (cases ex)
    case None
    then obtain ins db1 where ins: "insert_claim c db = Inr (ins, db1)"
      "res = (if ins then Created else PutReplayed)" "db' = db1"
      using p c j ex by (auto simp: put_claim_def result_simps)
    show ?thesis
      using insert_claim_cases [OF ins(1) claims_invD(2) [OF inv]] ins(2,3) created [of c j] replayed state c j
      by (cases ins) auto
  next
    case (Some q)
    then show ?thesis using p c j ex replayed by (auto simp: put_claim_def result_simps)
  qed
qed

lemma journal_current:
  assumes inv: "journal_inv ids jdb" and g: "get_journal ids (cm_transfer c) jdb = Inr (Some j)"
    and "j_kind j = AuthorityTransfer" and "j_batchRevision j = Some b" and "cm_batch c \<le> b"
    and "cm_batch c < b \<longrightarrow> cm_state c = Revoked"
  shows "claim_current jdb c"
  using assms(3-) transfer_batch_current [OF inv g] by (simp add: claim_current_def)

lemma put_claim_inv:
  assumes inv: "claims_inv E db" and p: "put_claim E i db = Inr (res, db')"
  shows "claims_inv E db' \<and> redeemed_kept db db'"
  using p inv
proof (cases rule: put_claim_cases)
  case (created c j)
  have "claim_current (cl_journals db) c"
    using journal_current [OF claims_invD(1) [OF inv] created(6-8)] created(5) by simp
  then have "claims_inv E (db\<lparr>cl_claims := cl_claims db @ [c], cl_journals := cl_journals db\<rparr>)
      \<and> redeemed_kept db (db\<lparr>cl_claims := cl_claims db @ [c], cl_journals := cl_journals db\<rparr>)"
    by (intro replace_claims_inv [OF inv claims_invD(1) [OF inv] created(3)])
      (use claims_invD(3) [OF inv] created(4) in auto)
  then show ?thesis using created(2) by simp
qed (use inv in simp)

lemma revoke_claims_cases:
  assumes p: "revoke_claims E t b sha cp at db = Inr (res, db')"
  obtains time n where "update_claims (\<lambda>c. cm_transfer c = t \<and> cm_batch c = b \<and> cm_state c = Unclaimed)
      (revoke_claim time) db = Inr (n, db')" and "at = Stamp time"
proof -
  obtain time n db1 where "at = Stamp time" "update_claims (\<lambda>c. cm_transfer c = t \<and> cm_batch c = b \<and> cm_state c = Unclaimed)
      (revoke_claim time) db = Inr (n, db1)" "db' = db1"
    using p by (auto simp: revoke_claims_def result_simps)
  then show ?thesis using that by blast
qed

lemma revoke_claim_simps [simp]:
  "claim_key (revoke_claim t c) = claim_key c" "claim_secret (revoke_claim t c) = claim_secret c"
  "cm_state (revoke_claim t c) = Revoked" "cm_transfer (revoke_claim t c) = cm_transfer c"
  "cm_batch (revoke_claim t c) = cm_batch c" "cm_member (revoke_claim t c) = cm_member c"
  by (simp_all add: revoke_claim_def claim_key_def claim_secret_def)

lemma current_revoked: "claim_current jdb c \<Longrightarrow> claim_current jdb (revoke_claim t c)"
  by (auto simp: claim_current_iff)

lemma revoke_claims_inv:
  assumes inv: "claims_inv E db" and p: "revoke_claims E t b sha cp at db = Inr (res, db')"
  shows "claims_inv E db' \<and> redeemed_kept db db'"
  using p
proof (cases rule: revoke_claims_cases)
  case (1 time n)
  let ?P = "\<lambda>c. cm_transfer c = t \<and> cm_batch c = b \<and> cm_state c = Unclaimed"
  let ?cs = "map (\<lambda>c. if ?P c then revoke_claim time c else c) (cl_claims db)"
  have u: "\<forall>c\<in>set (cl_claims db). ?P c \<longrightarrow> claim_row_ok (revoke_claim time c)"
    "db' = db\<lparr>cl_claims := ?cs\<rparr>" using 1(1) unfolding update_claims_Inr by blast+
  have "claims_inv E (db\<lparr>cl_claims := ?cs, cl_journals := cl_journals db\<rparr>)
      \<and> redeemed_kept db (db\<lparr>cl_claims := ?cs, cl_journals := cl_journals db\<rparr>)"
  proof (rule replace_claims_inv [OF inv claims_invD(1) [OF inv]])
    show "claims_keyed ?cs" by (rule keyed_update [OF claims_invD(2) [OF inv] _ _ u(1)]) simp_all
    show "claim_current (cl_journals db) c" if "c \<in> set ?cs" for c
      using that claims_invD(3) [OF inv] by (auto simp: current_revoked)
    show "c \<in> set ?cs \<longleftrightarrow> c \<in> set (cl_claims db)" if "cm_state c = Redeemed" for c
      using that by force
  qed
  then show ?thesis using u(2) by simp
qed

lemma delete_claims_inv:
  assumes inv: "claims_inv E db" and p: "delete_claims E t b sha cp db = Inr (res, db')"
  shows "claims_inv E db' \<and> redeemed_kept db db'"
proof -
  let ?cs = "filter (\<lambda>c. \<not> (cm_transfer c = t \<and> (cm_state c = Unclaimed \<or> cm_state c = Revoked))) (cl_claims db)"
  have u: "db' = db\<lparr>cl_claims := ?cs\<rparr>"
    using p by (auto simp: delete_claims_def result_simps Let_def)
  have "claims_inv E (db\<lparr>cl_claims := ?cs, cl_journals := cl_journals db\<rparr>)
      \<and> redeemed_kept db (db\<lparr>cl_claims := ?cs, cl_journals := cl_journals db\<rparr>)"
  proof (rule replace_claims_inv [OF inv claims_invD(1) [OF inv]])
    show "claims_keyed ?cs"
      using claims_invD(2) [OF inv] by (auto simp: claims_keyed_def distinct_map_filter list_all_iff)
  qed (use claims_invD(3) [OF inv] in auto)
  then show ?thesis using u by simp
qed

lemma advance_batch_cases:
  assumes p: "advance_batch i scheduled rotated jdb = Inr (True, jdb')"
  obtains ys r zs r' where "db_journals jdb = ys @ r # zs" and "jdb' = jdb\<lparr>db_journals := ys @ r' # zs\<rparr>"
    and "r' = r\<lparr>j_batchRevision := Some (ro_nextBatch i), j_batchSha := Some (ro_nextSha i),
            j_scheduledAt := scheduled, j_updatedAt := rotated\<rparr>"
    and "row_ok r'" and "open_journal r" and "j_operation r = ro_transfer i" and "j_kind r = AuthorityTransfer"
    and "j_batchRevision r = Some (ro_expectedBatch i)"
  using p by (auto simp: advance_batch_def extract_Some_iff constraints_ok_def Let_def
      split: option.splits if_splits)

lemma find_append: "find P (xs @ ys) = (case find P xs of None \<Rightarrow> find P ys | Some x \<Rightarrow> Some x)"
  by (induction xs) auto

lemma rotate_batch_inv:
  assumes inv: "journal_inv ids jdb" and p: "advance_batch i scheduled rotated jdb = Inr (True, jdb1)"
    and batch: "positive_safe (ro_nextBatch i)"
    and up: "upsert_candidate AuthorityTransfer (ro_transfer i) scheduled created jdb1 = Inr jdb'"
  shows "journal_inv ids jdb'
    \<and> (\<exists>r. select_journal (ro_transfer i) jdb = Some r \<and> j_batchRevision r = Some (ro_expectedBatch i))
    \<and> (\<exists>r'. select_journal (ro_transfer i) jdb' = Some r' \<and> j_kind r' = AuthorityTransfer
          \<and> j_batchRevision r' = Some (ro_nextBatch i) \<and> open_journal r')
    \<and> (\<forall>t. t \<noteq> ro_transfer i \<longrightarrow> select_journal t jdb' = select_journal t jdb)"
  using p
proof (cases rule: advance_batch_cases)
  case (1 ys r zs r')
  have t: "typed_row ids r" using journal_invD(3) [OF inv, of r] 1(1) by simp
  have o: "open_journal r'" "j_operation r' = ro_transfer i" "j_kind r' = AuthorityTransfer"
    "j_scheduledAt r' = scheduled" using 1 by (simp_all add: open_journal_def)
  have "journal_inv ids jdb' \<and> db_journals jdb' = ys @ r' # zs"
  proof (rule swap_open_inv [OF inv 1(1) 1(5) o(1)])
    show "typed_row ids r'" using t batch 1(3) by (simp add: typed_row_def option_ok_def)
    show "upsert_candidate (j_kind r) (j_operation r) (j_scheduledAt r') created (jdb\<lparr>db_journals := ys @ r' # zs\<rparr>) = Inr jdb'"
      using up 1(2,6,7) o(4) by simp
  qed (use 1 in simp_all)
  then have inv': "journal_inv ids jdb'" and rows: "db_journals jdb' = ys @ r' # zs" by simp_all
  have "select_journal (ro_transfer i) jdb = Some r"
    using select_row [OF journal_invD(1) [OF inv], of r] 1(1,6) by simp
  moreover have "select_journal (ro_transfer i) jdb' = Some r'"
    using select_row [OF journal_invD(1) [OF inv'], of r'] rows o(2) by simp
  moreover have "select_journal t jdb' = select_journal t jdb" if "t \<noteq> ro_transfer i" for t
    using that 1(1,6) o(2) rows by (simp add: select_journal_def find_append split: option.split)
  ultimately show ?thesis using inv' o 1(3,8) by simp
qed

lemma rotate_body_inv:
  assumes inv: "claims_inv E db" and p: "rotate_body E i rs rotated scheduled j db = Inr db'"
    and nx: "ro_nextBatch i = ro_expectedBatch i + 1" "positive_safe (ro_nextBatch i)"
  shows "claims_inv E db' \<and> redeemed_kept db db'"
proof -
  let ?P = "\<lambda>c. cm_transfer c = ro_transfer i \<and> cm_batch c = ro_expectedBatch i \<and> cm_state c = Unclaimed"
  let ?cs = "map (\<lambda>c. if ?P c then revoke_claim rotated c else c) (cl_claims db)"
  let ?new = "map (\<lambda>(sha, expires, member). fresh_claim (ro_transfer i) member (ro_nextBatch i) (ro_checkpoint i)
    sha expires rotated) rs"
  obtain current n db1 db2 jdb jdb1 where
    l: "list_claims E (ro_transfer i) (ro_expectedBatch i) db = Inr current" "list_all (\<lambda>c. cm_state c = Unclaimed) current"
    and u: "update_claims ?P (revoke_claim rotated) db = Inr (n, db1)"
    and ins: "insert_replacements ?new db1 = Inr db2"
    and a: "advance_batch i scheduled rotated (cl_journals db2) = Inr (True, jdb)"
    and up: "upsert_candidate AuthorityTransfer (ro_transfer i) scheduled (j_createdAt j) jdb = Inr jdb1"
    and db': "db' = db2\<lparr>cl_journals := jdb1\<rparr>"
    using p by (auto simp: rotate_body_def result_simps list_all_iff)
  note ok = u [unfolded update_claims_Inr]
  have db1: "db1 = db\<lparr>cl_claims := ?cs\<rparr>" and rows: "\<forall>c\<in>set (cl_claims db). ?P c \<longrightarrow> claim_row_ok (revoke_claim rotated c)"
    using ok by blast+
  have keyed: "claims_keyed ?cs" by (rule keyed_update [OF claims_invD(2) [OF inv] _ _ rows]) simp_all
  then have "claims_keyed (cl_claims db1)" using db1 by simp
  from insert_replacements_rows [OF ins this] have db2: "db2 = db\<lparr>cl_claims := ?cs @ ?new\<rparr>"
    and keyed': "claims_keyed (?cs @ ?new)" using db1 by simp_all
  have a': "advance_batch i scheduled rotated (cl_journals db) = Inr (True, jdb)" using a db2 by simp
  obtain r r' where j: "journal_inv (ce_ids E) jdb1" "select_journal (ro_transfer i) (cl_journals db) = Some r"
    "j_batchRevision r = Some (ro_expectedBatch i)"
    "select_journal (ro_transfer i) jdb1 = Some r'" "j_kind r' = AuthorityTransfer"
    "j_batchRevision r' = Some (ro_nextBatch i)"
    "\<forall>t. t \<noteq> ro_transfer i \<longrightarrow> select_journal t jdb1 = select_journal t (cl_journals db)"
    using rotate_batch_inv [OF claims_invD(1) [OF inv] a' nx(2) up] by blast
  have old: "cm_batch c \<le> ro_expectedBatch i \<and> (cm_batch c < ro_expectedBatch i \<longrightarrow> cm_state c = Revoked)
      \<and> (cm_batch c = ro_expectedBatch i \<longrightarrow> cm_state c = Unclaimed)"
    if "c \<in> set (cl_claims db)" "cm_transfer c = ro_transfer i" for c
    using claims_invD(3) [OF inv that(1)] that j(2,3) l list_claims_set [OF l(1)]
    by (auto simp: claim_current_iff list_all_iff)
  have state: "cm_state c = Unclaimed" if "c \<in> set ?new" for c using that by (auto simp: fresh_claim_def)
  have "claims_inv E (db\<lparr>cl_claims := ?cs @ ?new, cl_journals := jdb1\<rparr>)
      \<and> redeemed_kept db (db\<lparr>cl_claims := ?cs @ ?new, cl_journals := jdb1\<rparr>)"
  proof (rule replace_claims_inv [OF inv j(1) keyed'])
    show "claim_current jdb1 c" if c: "c \<in> set (?cs @ ?new)" for c
    proof (cases "cm_transfer c = ro_transfer i")
      case True
      have "cm_batch c \<le> ro_nextBatch i \<and> (cm_batch c < ro_nextBatch i \<longrightarrow> cm_state c = Revoked)"
      proof (cases "c \<in> set ?new")
        case True
        then show ?thesis by (auto simp: fresh_claim_def)
      next
        case False
        then obtain q where "q \<in> set (cl_claims db)" "c = (if ?P q then revoke_claim rotated q else q)"
          using c by auto
        then show ?thesis using old [of q] True nx(1) by (cases "?P q") auto
      qed
      then show ?thesis using True j(4-6) by (auto simp: claim_current_iff)
    next
      case False
      then have "c \<in> set (cl_claims db)" using c by (auto simp: fresh_claim_def split: if_splits)
      then show ?thesis using claims_invD(3) [OF inv] j(7) False by (simp add: claim_current_iff)
    qed
    show "c \<in> set (?cs @ ?new) \<longleftrightarrow> c \<in> set (cl_claims db)" if "cm_state c = Redeemed" for c
      using that state [of c] by force
  qed
  then show ?thesis using db' db2 by simp
qed

lemma rotate_claims_inv:
  assumes inv: "claims_inv E db" and p: "rotate_claims E i db = Inr (res, db')"
  shows "claims_inv E db' \<and> redeemed_kept db db'"
proof -
  have "ro_nextBatch i = ro_expectedBatch i + 1" "positive_safe (ro_nextBatch i)"
    using p by (auto simp: rotate_claims_def result_simps)
  moreover have "db' = db \<or> (\<exists>rs rotated scheduled j. rotate_body E i rs rotated scheduled j db = Inr db')"
    using p by (auto simp: rotate_claims_def result_simps Let_def split: option.splits if_splits)
  ultimately show ?thesis using inv rotate_body_inv [OF inv] by auto
qed

section \<open>Redemption\<close>

text \<open>A redeemed claim is the only live one of its member.\<close>

lemma redeemed_is_latest:
  assumes inv: "claims_inv E db" and q: "q \<in> set (cl_claims db)" "cm_state q \<noteq> Revoked"
    and g: "get_claim E (cm_transfer q) (cm_member q) db = Inr (Some c)"
  shows "c = q"
proof -
  note m = get_claim_mem [OF g]
  have "cm_batch c \<le> cm_batch q"
    using claims_invD(3) [OF inv q(1)] claims_invD(3) [OF inv m(1)] m(2) q(2) by (auto simp: claim_current_iff)
  then have "claim_key c = claim_key q" using m(2,3) m(4) [OF q(1)] by (simp add: claim_key_def)
  then show ?thesis using keyed_unique(1) [OF claims_invD(2) [OF inv] m(1) q(1)] by simp
qed

lemma redeem_bind_Inr:
  "redeem_bind E i db = Inr db' \<Longrightarrow> \<exists>res bdb. bind_principal (ce_ids E) (ce_limit E) \<lparr>bi_boundAt = re_updatedAt i,
     bi_member = re_member i, bi_principal = re_principal i\<rparr> (cl_bindings db) = Inr (res, bdb)
     \<and> db' = db\<lparr>cl_bindings := bdb\<rparr>"
  by (auto simp: redeem_bind_def result_simps)

definition receipt_matches :: "claim_env \<Rightarrow> redeem_input \<Rightarrow> claim \<Rightarrow> journal \<Rightarrow> bool" where
  "receipt_matches E i c j \<longleftrightarrow> ce_redemption E (re_receipt i) \<and> rr_project (re_receipt i) = ce_project E
     \<and> rr_transfer (re_receipt i) = re_transfer i \<and> rr_member (re_receipt i) = re_member i
     \<and> rr_claimSha (re_receipt i) = re_sha i \<and> rr_intent (re_receipt i) = re_intent i
     \<and> rr_redeemedAt (re_receipt i) = re_updatedAt i \<and> rr_checkpoint (re_receipt i) = cm_checkpoint c
     \<and> rr_targetGeneration (re_receipt i) = j_generation j + 1"

lemma redeem_steps:
  assumes p: "redeem_claim E i db = Inr (receipt, db')"
  obtains t c j inserted db1 n db2 where "re_updatedAt i = Stamp t" and "receipt = re_receipt i"
    and "principal_ok (re_principal i)"
    and "get_claim E (re_transfer i) (re_member i) db = Inr (Some c)" and "cm_sha c = re_sha i"
    and "get_journal (ce_ids E) (re_transfer i) (cl_journals db) = Inr (Some j)" and "j_kind j = AuthorityTransfer"
    and "receipt_matches E i c j"
    and "insert_receipt (receipt_row_of i) db = Inr (inserted, db1)"
    and "update_claims (redeemable i t c) (redeemed_claim i t) db1 = Inr (n, db2)"
    and "redeem_bind E i db2 = Inr db'"
    and "n \<noteq> 1 \<Longrightarrow> \<not> inserted \<and> (\<exists>q. get_claim E (re_transfer i) (re_member i) db2 = Inr (Some q) \<and> redeemed_by i q)
           \<and> get_redemption E (re_transfer i) (re_member i) db2 = Inr (Some (re_receipt i))"
proof -
  obtain t c j where a: "re_updatedAt i = Stamp t"
    "get_claim E (re_transfer i) (re_member i) db = Inr (Some c)"
    "get_journal (ce_ids E) (re_transfer i) (cl_journals db) = Inr (Some j)"
    using p by (auto simp: redeem_claim_def Let_def result_simps split: option.splits)
  have b: "principal_ok (re_principal i)" "cm_sha c = re_sha i" "j_kind j = AuthorityTransfer" "receipt_matches E i c j"
    using p a by (auto simp: redeem_claim_def Let_def result_simps receipt_matches_def)
  obtain inserted db1 where d: "insert_receipt (receipt_row_of i) db = Inr (inserted, db1)"
    using p a by (auto simp: redeem_claim_def Let_def result_simps)
  obtain n db2 where u: "update_claims (redeemable i t c) (redeemed_claim i t) db1 = Inr (n, db2)"
    using p a d by (auto simp: redeem_claim_def Let_def result_simps)
  note r = p [unfolded redeem_claim_def Let_def]
  show ?thesis
  proof (cases "n = 1")
    case True
    then show ?thesis using r a d u that [of t c j inserted db1 n db2] b
      by (auto simp: result_simps)
  next
    case False
    then obtain q where "get_claim E (re_transfer i) (re_member i) db2 = Inr (Some q)" "redeemed_by i q"
      "get_redemption E (re_transfer i) (re_member i) db2 = Inr (Some (re_receipt i))" "\<not> inserted"
      "redeem_bind E i db2 = Inr db'" "receipt = re_receipt i"
      using r a d u by (auto simp: result_simps split: option.splits)
    then show ?thesis using a b d u that [of t c j inserted db1 n db2] by blast
  qed
qed


lemma insert_receipt_cases:
  assumes "insert_receipt r db = Inr (inserted, db')"
  shows "if inserted then db' = db\<lparr>cl_receipts := cl_receipts db @ [r]\<rparr>
      \<and> (\<forall>q\<in>set (cl_receipts db). \<not> (rw_transfer q = rw_transfer r \<and> rw_member q = rw_member r))
    else db' = db \<and> (\<exists>q\<in>set (cl_receipts db). rw_transfer q = rw_transfer r \<and> rw_member q = rw_member r)"
  using assms by (auto simp: insert_receipt_def list_ex_iff split: if_splits)

lemma get_redemption_mem:
  "get_redemption E t m db = Inr (Some r) \<Longrightarrow> \<exists>q\<in>set (cl_receipts db). rw_transfer q = t \<and> rw_member q = m \<and> rw_receipt q = r"
  by (auto simp: get_redemption_def dest!: find_mem split: option.splits if_splits)

lemma redeemable_only:
  assumes keyed: "claims_keyed (cl_claims db)" and c: "c \<in> set (cl_claims db)" "cm_transfer c = re_transfer i" "cm_member c = re_member i"
    and q: "q \<in> set (cl_claims db)" "redeemable i t c q"
  shows "q = c"
  using keyed_unique(1) [OF keyed q(1) c(1)] q(2) c(2,3) by (simp add: redeemable_def claim_key_def)

text \<open>What a successful redemption did: it redeemed the claim, or it had been redeemed the same way.\<close>

lemma redeem_cases:
  assumes inv: "claims_inv E db" and p: "redeem_claim E i db = Inr (receipt, db')"
  obtains (redeemed) t c j b res where "receipt = re_receipt i" and "c \<in> set (cl_claims db)"
      and "cm_transfer c = re_transfer i" and "cm_member c = re_member i" and "cm_sha c = re_sha i"
      and "cm_state c = Unclaimed" and "re_updatedAt i = Stamp t" and "t < cm_expiresAt c"
      and "claim_row_ok (redeemed_claim i t c)"
      and "\<forall>q\<in>set (cl_receipts db). \<not> (rw_transfer q = re_transfer i \<and> rw_member q = re_member i)"
      and "select_journal (re_transfer i) (cl_journals db) = Some j" and "receipt_matches E i c j"
      and "bind_principal (ce_ids E) (ce_limit E) \<lparr>bi_boundAt = re_updatedAt i, bi_member = re_member i,
             bi_principal = re_principal i\<rparr> (cl_bindings db) = Inr (res, b)"
      and "db' = db\<lparr>cl_receipts := cl_receipts db @ [receipt_row_of i],
             cl_claims := map (\<lambda>q. if q = c then redeemed_claim i t c else q) (cl_claims db), cl_bindings := b\<rparr>"
  | (replayed) c j b res where "receipt = re_receipt i" and "c \<in> set (cl_claims db)"
      and "cm_transfer c = re_transfer i" and "cm_member c = re_member i" and "redeemed_by i c"
      and "select_journal (re_transfer i) (cl_journals db) = Some j" and "receipt_matches E i c j"
      and "\<exists>q\<in>set (cl_receipts db). rw_transfer q = re_transfer i \<and> rw_member q = re_member i
             \<and> rw_receipt q = re_receipt i"
      and "bind_principal (ce_ids E) (ce_limit E) \<lparr>bi_boundAt = re_updatedAt i, bi_member = re_member i,
             bi_principal = re_principal i\<rparr> (cl_bindings db) = Inr (res, b)"
      and "db' = db\<lparr>cl_bindings := b\<rparr>"
  using p
proof (cases rule: redeem_steps)
  case (1 t c j inserted db1 n db2)
  note d = claims_invD [OF inv]
  note m = get_claim_mem [OF 1(4)]
  have j: "select_journal (re_transfer i) (cl_journals db) = Some j"
    by (rule transfer_batch_current [OF d(1) 1(6)])
  obtain res b where b: "bind_principal (ce_ids E) (ce_limit E) \<lparr>bi_boundAt = re_updatedAt i, bi_member = re_member i,
      bi_principal = re_principal i\<rparr> (cl_bindings db2) = Inr (res, b)" "db' = db2\<lparr>cl_bindings := b\<rparr>"
    using redeem_bind_Inr [OF 1(11)] by blast
  have db1: "cl_claims db1 = cl_claims db" "cl_bindings db1 = cl_bindings db"
    using insert_receipt_cases [OF 1(9)] by (auto split: if_splits)
  note u = 1(10) [unfolded update_claims_Inr db1]
  have only: "redeemable i t c q \<longleftrightarrow> q = c \<and> redeemable i t c c" if "q \<in> set (cl_claims db)" for q
    using redeemable_only [OF d(2) m(1-3) that] by blast
  show ?thesis
  proof (cases "redeemable i t c c")
    case True
    then have ok: "cm_state c = Unclaimed" "t < cm_expiresAt c" by (simp_all add: redeemable_def)
    have "filter (redeemable i t c) (cl_claims db) = filter (\<lambda>q. q = c) (cl_claims db)"
      using only True by (intro filter_cong) auto
    moreover have "distinct (cl_claims db)" using d(2) by (simp add: claims_keyed_def distinct_map)
    then have "length (filter (\<lambda>q. q = c) (cl_claims db)) = 1"
      using m(1) by (simp add: distinct_length_filter Int_commute)
    ultimately have n: "n = 1" using u by simp
    have upd: "map (\<lambda>q. if redeemable i t c q then redeemed_claim i t q else q) (cl_claims db)
        = map (\<lambda>q. if q = c then redeemed_claim i t c else q) (cl_claims db)"
      using only True by (intro map_cong) auto
    have none: "\<forall>q\<in>set (cl_receipts db). \<not> (rw_transfer q = re_transfer i \<and> rw_member q = re_member i)"
    proof (rule ballI, rule notI)
      fix q assume q: "q \<in> set (cl_receipts db)" "rw_transfer q = re_transfer i \<and> rw_member q = re_member i"
      then obtain c' where c': "c' \<in> set (cl_claims db)" "receipt_of q c'" using d(5) by blast
      then have "c = c'" using redeemed_is_latest [OF inv c'(1), of c] 1(4) q(2) by (simp add: receipt_of_def)
      then show False using c'(2) ok(1) by (simp add: receipt_of_def)
    qed
    then have ins: "inserted" "db1 = db\<lparr>cl_receipts := cl_receipts db @ [receipt_row_of i]\<rparr>"
      using insert_receipt_cases [OF 1(9)] by (auto simp: receipt_row_of_def split: if_splits)
    have "db2 = db\<lparr>cl_receipts := cl_receipts db @ [receipt_row_of i],
        cl_claims := map (\<lambda>q. if q = c then redeemed_claim i t c else q) (cl_claims db)\<rparr>"
      using u upd ins(2) by simp
    moreover have "claim_row_ok (redeemed_claim i t c)" using u m(1) True by blast
    ultimately show ?thesis
      using redeemed [of c t j res b] 1(1,2,5,8) m(1-3) ok none j b by simp
  next
    case False
    then have no: "\<not> redeemable i t c q" if "q \<in> set (cl_claims db)" for q using only [OF that] by simp
    have n: "n = 0" using u no by (simp add: filter_empty_conv)
    have db2: "db2 = db1" using u no db1(1) by (simp add: map_idI)
    obtain q where q: "get_claim E (re_transfer i) (re_member i) db1 = Inr (Some q)" "redeemed_by i q"
      "get_redemption E (re_transfer i) (re_member i) db1 = Inr (Some (re_receipt i))" "\<not> inserted"
      using 1(12) n db2 by auto
    have same: "db1 = db" using insert_receipt_cases [OF 1(9)] q(4) by simp
    then have "q = c" using q(1) 1(4) by simp
    then show ?thesis using replayed [of c j res b] 1(2,8) m(1-3) q(2) j b db2 same get_redemption_mem [OF q(3)]
      by simp
  qed
qed

lemma redeemed_claim_simps [simp]:
  "claim_key (redeemed_claim i t c) = claim_key c" "claim_secret (redeemed_claim i t c) = claim_secret c"
  "cm_state (redeemed_claim i t c) = Redeemed" "cm_transfer (redeemed_claim i t c) = cm_transfer c"
  "cm_batch (redeemed_claim i t c) = cm_batch c" "cm_member (redeemed_claim i t c) = cm_member c"
  "cm_receipt (redeemed_claim i t c) = Some (rr_id (re_receipt i))" "cm_sha (redeemed_claim i t c) = cm_sha c"
  by (simp_all add: redeemed_claim_def claim_key_def claim_secret_def)

lemma redeem_inv:
  assumes inv: "claims_inv E db" and p: "redeem_claim E i db = Inr (receipt, db')"
  shows "claims_inv E db' \<and> redeemed_kept db db'"
  using inv p
proof (cases rule: redeem_cases)
  case (redeemed t c j b res)
  note r = redeemed and d = claims_invD [OF inv]
  let ?f = "\<lambda>q. if q = c then redeemed_claim i t c else q"
  have rows: "cl_claims db' = map ?f (cl_claims db)" "cl_receipts db' = cl_receipts db @ [receipt_row_of i]"
    "cl_journals db' = cl_journals db" using r(14) by simp_all
  have mine: "receipt_of (receipt_row_of i) (redeemed_claim i t c)"
    using r(3,4) by (simp add: receipt_of_def receipt_row_of_def)
  have keyed: "claims_keyed (map ?f (cl_claims db))"
  proof -
    have "map claim_key (map ?f (cl_claims db)) = map claim_key (cl_claims db)"
      "map claim_secret (map ?f (cl_claims db)) = map claim_secret (cl_claims db)" by simp_all
    then show ?thesis using d(2) r(9) unfolding claims_keyed_def by (simp only: list_all_iff) auto
  qed
  have cur: "claim_current (cl_journals db) q" if "q \<in> set (map ?f (cl_claims db))" for q
  proof -
    have "claim_current (cl_journals db) (redeemed_claim i t c)"
      using d(3) [OF r(2)] r(6) by (auto simp: claim_current_iff)
    then show ?thesis using that d(3) by (auto split: if_splits)
  qed
  have kept: "q \<in> set (map ?f (cl_claims db))" if "q \<in> set (cl_claims db)" "cm_state q = Redeemed" for q
    using that r(6) by force
  have "distinct (map (\<lambda>r. (rw_transfer r, rw_member r)) (cl_receipts db @ [receipt_row_of i]))"
    using d(4) r(10) by (auto simp: receipt_row_of_def)
  moreover have "ce_redemption E (rw_receipt q) \<and> (\<exists>c\<in>set (map ?f (cl_claims db)). receipt_of q c)"
    if "q \<in> set (cl_receipts db @ [receipt_row_of i])" for q
  proof (cases "q \<in> set (cl_receipts db)")
    case True
    then obtain c' where c': "c' \<in> set (cl_claims db)" "receipt_of q c'" "ce_redemption E (rw_receipt q)"
      using d(5) by blast
    then have "c' \<in> set (map ?f (cl_claims db))" using kept [of c'] by (simp add: receipt_of_def)
    then show ?thesis using c' by blast
  next
    case False
    then have "q = receipt_row_of i" using that by simp
    then show ?thesis using mine r(2,12) by (force simp: receipt_matches_def receipt_row_of_def)
  qed
  moreover have "\<exists>q\<in>set (cl_receipts db @ [receipt_row_of i]). receipt_of q c'"
    if c': "c' \<in> set (map ?f (cl_claims db))" "cm_state c' = Redeemed" for c'
    using c' mine d(6) by (auto split: if_splits)
  ultimately have "claims_inv E db'"
    using d(1) keyed cur unfolding claims_inv_def rows list_ex_iff by blast
  then show ?thesis using kept unfolding redeemed_kept_def rows by auto
next
  case (replayed c j b res)
  have "cl_journals db' = cl_journals db" "cl_claims db' = cl_claims db" "cl_receipts db' = cl_receipts db"
    using replayed(10) by simp_all
  then show ?thesis using claims_inv_same [OF inv, of db'] by simp
qed

section \<open>Commands\<close>

datatype claims_command = JournalCommand journal_command | BindingCommand binding_command
  | PutClaim claim_input | RotateClaims rotate_input | RevokeClaims string int string string stamp
  | DeleteClaims string int string string | PutKey key_input | DeleteKey key_input
  | RedeemClaim redeem_input | PutBatchReceipt custody_receipt

text \<open>A command that fails rolls its transaction back.\<close>

definition after :: "claims_db \<Rightarrow> coord_error + 'a \<times> claims_db \<Rightarrow> claims_db" where
  "after db r = (case r of Inl e \<Rightarrow> db | Inr (res, db') \<Rightarrow> db')"

fun claims_step :: "claim_env \<Rightarrow> claims_db \<Rightarrow> claims_command \<Rightarrow> claims_db" where
  "claims_step E db (JournalCommand c) = db\<lparr>cl_journals := journal_step (ce_ids E) (cl_journals db) c\<rparr>"
| "claims_step E db (BindingCommand c) =
     db\<lparr>cl_bindings := binding_step (ce_ids E) (ce_limit E) (cl_bindings db) c\<rparr>"
| "claims_step E db (PutClaim i) = after db (put_claim E i db)"
| "claims_step E db (RotateClaims i) = after db (rotate_claims E i db)"
| "claims_step E db (RevokeClaims t b s cp at) = after db (revoke_claims E t b s cp at db)"
| "claims_step E db (DeleteClaims t b s cp) = after db (delete_claims E t b s cp db)"
| "claims_step E db (PutKey i) = after db (put_key E i db)"
| "claims_step E db (DeleteKey i) = after db (delete_key E i db)"
| "claims_step E db (RedeemClaim i) = after db (redeem_claim E i db)"
| "claims_step E db (PutBatchReceipt r) = after db (put_batch_receipt E r db)"

lemma after_kept:
  assumes "claims_inv E db" and "\<And>res db'. r = Inr (res, db') \<Longrightarrow> claims_inv E db' \<and> redeemed_kept db db'"
  shows "claims_inv E (after db r) \<and> redeemed_kept db (after db r)"
  using assms by (auto simp: after_def split: sum.split)

lemma other_tables_kept:
  "put_key E k db = Inr (res, db') \<Longrightarrow> cl_journals db' = cl_journals db \<and> cl_claims db' = cl_claims db \<and> cl_receipts db' = cl_receipts db"
  "delete_key E k db = Inr (res2, db') \<Longrightarrow> cl_journals db' = cl_journals db \<and> cl_claims db' = cl_claims db \<and> cl_receipts db' = cl_receipts db"
  "put_batch_receipt E c db = Inr (res, db') \<Longrightarrow> cl_journals db' = cl_journals db \<and> cl_claims db' = cl_claims db \<and> cl_receipts db' = cl_receipts db"
  by (auto simp: put_key_def delete_key_def put_batch_receipt_def result_simps Let_def split: if_splits)

lemma journal_command_inv:
  assumes inv: "claims_inv E db"
  shows "claims_inv E (db\<lparr>cl_journals := journal_step (ce_ids E) (cl_journals db) c\<rparr>)"
proof -
  note d = claims_invD [OF inv]
  have j: "journal_inv (ce_ids E) (journal_step (ce_ids E) (cl_journals db) c)" by (rule journal_step_inv [OF d(1)])
  have "claim_current (journal_step (ce_ids E) (cl_journals db) c) q" if "q \<in> set (cl_claims db)" for q
    by (rule current_evolves [OF j _ d(3) [OF that]]) (use journal_step_evolves [OF d(1)] in blast)
  then show ?thesis using inv j unfolding claims_inv_def by simp
qed

lemma claims_step_inv:
  assumes inv: "claims_inv E db"
  shows "claims_inv E (claims_step E db c) \<and> redeemed_kept db (claims_step E db c)"
proof (cases c)
  case (JournalCommand x)
  then show ?thesis using journal_command_inv [OF inv] by simp
next
  case (BindingCommand x)
  then show ?thesis using claims_inv_same [OF inv] by simp
next
  case (PutClaim i)
  then show ?thesis using after_kept [OF inv put_claim_inv [OF inv]] by simp
next
  case (RotateClaims i)
  then show ?thesis using after_kept [OF inv rotate_claims_inv [OF inv]] by simp
next
  case (RevokeClaims t b s cp at)
  then show ?thesis using after_kept [OF inv revoke_claims_inv [OF inv]] by simp
next
  case (DeleteClaims t b s cp)
  then show ?thesis using after_kept [OF inv delete_claims_inv [OF inv]] by simp
next
  case (RedeemClaim i)
  then show ?thesis using after_kept [OF inv redeem_inv [OF inv]] by simp
next
  case (PutKey i)
  have "claims_inv E (after db (put_key E i db)) \<and> redeemed_kept db (after db (put_key E i db))"
    by (rule after_kept [OF inv]) (use other_tables_kept(1) claims_inv_same [OF inv] in auto)
  then show ?thesis using PutKey by simp
next
  case (DeleteKey i)
  have "claims_inv E (after db (delete_key E i db)) \<and> redeemed_kept db (after db (delete_key E i db))"
    by (rule after_kept [OF inv]) (use other_tables_kept(2) claims_inv_same [OF inv] in auto)
  then show ?thesis using DeleteKey by simp
next
  case (PutBatchReceipt i)
  have "claims_inv E (after db (put_batch_receipt E i db)) \<and> redeemed_kept db (after db (put_batch_receipt E i db))"
    by (rule after_kept [OF inv]) (use other_tables_kept(3) claims_inv_same [OF inv] in auto)
  then show ?thesis using PutBatchReceipt by simp
qed

interpretation claims: machine start "claims_step E"
    "\<lambda>db. claims_inv E start \<longrightarrow> claims_inv E db \<and> redeemed_kept start db"
  for start E
proof unfold_locales
  show "claims_inv E start \<longrightarrow> claims_inv E (claims_step E s c) \<and> redeemed_kept start (claims_step E s c)"
    if "claims_inv E start \<longrightarrow> claims_inv E s \<and> redeemed_kept start s" for s c
    using that claims_step_inv [of E s c] redeemed_kept_trans by blast
qed simp

section \<open>Properties\<close>

lemma bind_bound:
  assumes "bind_principal ids limit i db = Inr (res, db')"
  shows "\<exists>b\<in>set (bs_bindings db'). bd_principal b = bi_principal i \<and> bd_member b = bi_member i \<and> bd_state b = BoundActive"
  using assms by (cases rule: bind_principal_cases) force+

lemma bind_replays:
  assumes p: "bind_principal ids limit i db = Inr (res, db')"
  shows "bind_principal ids limit i db' = Inr (PutReplayed, db')"
proof -
  obtain t where t: "timestamp (bi_boundAt i) = Inr t" "ic_member ids (bi_member i)" "principal_ok (bi_principal i)"
    "bi_member i \<in> set (bs_active db)" "credential_binding_ok limit (bi_member i) (bi_principal i) db"
    using p by (auto simp: bind_principal_def result_simps)
  let ?b = "\<lparr>bd_principal = bi_principal i, bd_member = bi_member i, bd_state = BoundActive,
    bd_boundAt = t, bd_revokedAt = None\<rparr>"
  obtain ins db1 where ins: "insert_binding ?b db = (ins, db1)" by (cases "insert_binding ?b db")
  have r: "find_binding ids (bi_principal i) db1 = Inr (Some ?b)" "db1 = db'"
    using p t ins by (auto simp: bind_principal_def result_simps Let_def)
  have rows: "db' = db \<or> db' = db\<lparr>bs_bindings := bs_bindings db @ [?b]\<rparr>"
    using ins r(2) by (auto simp: insert_binding_def split: if_splits)
  have mem: "?b \<in> set (bs_bindings db')"
    using r by (auto simp: find_binding_def result_simps dest!: find_mem split: option.splits if_splits)
  then have again: "insert_binding ?b db' = (False, db')" by (auto simp: insert_binding_def list_ex_iff intro!: bexI [of _ ?b])
  have "bi_member i \<in> set (bs_active db')" using rows t(4) by auto
  moreover have "credential_binding_ok limit (bi_member i) (bi_principal i) db'"
    using rows t(5) by (cases "vault_digest (bi_principal i)")
      (auto simp: credential_binding_ok_def verifiers_append simp del: set_filter set_map)
  ultimately show ?thesis
    using t(1-3) r again by (simp add: bind_principal_def rbind_def require_def ensure_def Let_def)
qed

lemma get_claim_live:
  assumes inv: "claims_inv E db" and q: "q \<in> set (cl_claims db)" "cm_state q \<noteq> Revoked"
    and ok: "ic_opaque (ce_ids E) (cm_transfer q)" "ic_member (ce_ids E) (cm_member q)" "positive_safe (cm_batch q)"
  shows "get_claim E (cm_transfer q) (cm_member q) db = Inr (Some q)"
proof -
  let ?cs = "filter (\<lambda>c. cm_transfer c = cm_transfer q \<and> cm_member c = cm_member q) (cl_claims db)"
  have "?cs \<noteq> []" using q(1) by (auto simp: filter_empty_conv)
  then obtain x where x: "latest_claim ?cs = Some x" using latest_claim_None [of ?cs] by (cases "latest_claim ?cs") auto
  note m = latest_claim_mem [OF x]
  have "cm_batch x \<le> cm_batch q"
    using claims_invD(3) [OF inv q(1)] claims_invD(3) [OF inv, of x] m q(2) by (auto simp: claim_current_iff)
  then have "claim_key x = claim_key q" using m q(1) by (auto simp: claim_key_def)
  then have "x = q" using keyed_unique(1) [OF claims_invD(2) [OF inv] _ q(1)] m by simp
  then show ?thesis using x ok by (simp add: get_claim_def rbind_def require_def ensure_def decode_claim_def)
qed

lemma get_claim_ok:
  "get_claim E t m db = Inr (Some c) \<Longrightarrow> ic_opaque (ce_ids E) t \<and> ic_member (ce_ids E) m \<and> positive_safe (cm_batch c)"
  by (auto simp: get_claim_def result_simps decode_claim_def split: option.splits if_splits)

lemma get_redemption_row:
  assumes inv: "claims_inv E db" and r: "r \<in> set (cl_receipts db)"
  shows "get_redemption E (rw_transfer r) (rw_member r) db = Inr (Some (rw_receipt r))"
proof -
  have "find (\<lambda>q. rw_transfer q = rw_transfer r \<and> rw_member q = rw_member r) (cl_receipts db) = Some r"
    using find_distinct [OF claims_invD(4) [OF inv] r] by simp
  then show ?thesis using claims_invD(5) [OF inv r] by (simp add: get_redemption_def)
qed


lemma redeemed_row:
  assumes inv: "claims_inv E db" and p: "redeem_claim E i db = Inr (receipt, db')"
  obtains c c0 r res where "receipt = re_receipt i" and "c \<in> set (cl_claims db')"
    and "cm_transfer c = re_transfer i" and "cm_member c = re_member i" and "redeemed_by i c"
    and "r \<in> set (cl_receipts db')" and "rw_transfer r = re_transfer i" and "rw_member r = re_member i"
    and "rw_receipt r = re_receipt i"
    and "c0 \<in> set (cl_claims db)" and "cm_state c0 \<noteq> Revoked" and "cm_transfer c0 = re_transfer i"
    and "cm_member c0 = re_member i" and "cm_batch c = cm_batch c0" and "cm_checkpoint c = cm_checkpoint c0"
    and "cl_journals db' = cl_journals db"
    and "bind_principal (ce_ids E) (ce_limit E) \<lparr>bi_boundAt = re_updatedAt i,
      bi_member = re_member i, bi_principal = re_principal i\<rparr> (cl_bindings db) = Inr (res, cl_bindings db')"
  using inv p
proof (cases rule: redeem_cases)
  case (redeemed t c j b res)
  let ?c = "redeemed_claim i t c"
  have "?c \<in> set (cl_claims db')" using redeemed(2,14) by force
  moreover have "redeemed_by i ?c" using redeemed(5) by (simp add: redeemed_by_def redeemed_claim_def)
  moreover have "receipt_row_of i \<in> set (cl_receipts db')" using redeemed(14) by simp
  ultimately show ?thesis
    using redeemed that [of ?c "receipt_row_of i" c res]
    by (simp add: receipt_row_of_def) (simp add: redeemed_claim_def)
next
  case (replayed c j b res)
  then obtain r where "r \<in> set (cl_receipts db)" "rw_transfer r = re_transfer i" "rw_member r = re_member i"
    "rw_receipt r = re_receipt i" by blast
  then show ?thesis
    using replayed that [of c r c res] by (simp add: redeemed_by_def)
qed

text \<open>C31. A redemption succeeds only with the claim of the current batch: in any state reached by
  puts, rotations, revocations, deletions, redemptions and journal commands, it succeeds only
  when the transfer has a journal, the claim with the given secret has the batch revision that
  the journal records, and either the claim is unclaimed and not expired or it was redeemed by
  the same principal with the same intent and receipt. Then the claim is redeemed, every other
  claim and the journals are as before, and the principal is actively bound to the member.
  Claims of superseded batches, revoked and expired claims never redeem.\<close>

theorem redemption_guarded:
  assumes ok: "claims_inv E db0" and db: "db = run (claims_step E) db0 cs"
    and p: "redeem_claim E i db = Inr (receipt, db')"
  shows "\<exists>j c c' t. select_journal (re_transfer i) (cl_journals db) = Some j \<and> j_kind j = AuthorityTransfer
    \<and> c \<in> set (cl_claims db) \<and> cm_transfer c = re_transfer i \<and> cm_member c = re_member i
    \<and> cm_sha c = re_sha i \<and> j_batchRevision j = Some (cm_batch c)
    \<and> receipt = re_receipt i \<and> rr_checkpoint receipt = cm_checkpoint c
    \<and> rr_targetGeneration receipt = j_generation j + 1
    \<and> (cm_state c = Unclaimed \<and> re_updatedAt i = Stamp t \<and> t < cm_expiresAt c \<or> redeemed_by i c \<and> c' = c)
    \<and> cl_claims db' = map (\<lambda>q. if q = c then c' else q) (cl_claims db)
    \<and> redeemed_by i c' \<and> claim_key c' = claim_key c \<and> cl_journals db' = cl_journals db
    \<and> (\<exists>b\<in>set (bs_bindings (cl_bindings db')). bd_principal b = re_principal i
          \<and> bd_member b = re_member i \<and> bd_state b = BoundActive)"
proof -
  have inv: "claims_inv E db" using claims.inv_run ok unfolding db by blast
  have batch: "j_kind j = AuthorityTransfer \<and> j_batchRevision j = Some (cm_batch c)"
    if "select_journal (re_transfer i) (cl_journals db) = Some j" "c \<in> set (cl_claims db)"
      "cm_transfer c = re_transfer i" "cm_state c \<noteq> Revoked" for j c
    using claims_invD(3) [OF inv that(2)] that by (auto simp: claim_current_iff)
  show ?thesis
    using inv p
  proof (cases rule: redeem_cases)
    case (redeemed t c j b res)
    note r = redeemed
    show ?thesis
      using r(1-8,11,14) batch [OF r(11,2,3)] r(12) bind_bound [OF r(13)]
      by (intro exI [of _ j] exI [of _ c] exI [of _ "redeemed_claim i t c"] exI [of _ t])
        (simp add: receipt_matches_def redeemed_by_def, simp add: redeemed_claim_def)
  next
    case (replayed c j b res)
    note r = replayed
    have "cm_state c = Redeemed" "cm_sha c = re_sha i" using r(5) by (simp_all add: redeemed_by_def)
    then show ?thesis
      using r(1-6,10) batch [OF r(6,2,3)] r(7) bind_bound [OF r(9)]
      by (intro exI [of _ j] exI [of _ c] exI [of _ c]) (simp add: receipt_matches_def)
  qed
qed


text \<open>Redemption replays: the redemption that succeeded succeeds again with the same receipt and
  changes nothing.\<close>

theorem redemption_replays:
  assumes ok: "claims_inv E db" and p: "redeem_claim E i db = Inr (receipt, db')"
  shows "redeem_claim E i db' = Inr (receipt, db')"
proof -
  have inv: "claims_inv E db'" using redeem_inv [OF ok p] by simp
  obtain t c1 j where s: "re_updatedAt i = Stamp t" "get_claim E (re_transfer i) (re_member i) db = Inr (Some c1)"
    "cm_sha c1 = re_sha i" "get_journal (ce_ids E) (re_transfer i) (cl_journals db) = Inr (Some j)"
    "j_kind j = AuthorityTransfer" "receipt_matches E i c1 j"
    using p by (cases rule: redeem_steps) blast
  have guards: "ic_opaque (ce_ids E) (re_transfer i)" "ic_member (ce_ids E) (re_member i)" "sha256_ok (re_sha i)"
    "ic_opaque (ce_ids E) (re_intent i)" "principal_ok (re_principal i)"
    using p by (simp_all add: redeem_claim_def Let_def result_simps)
  show ?thesis
    using ok p
  proof (rule redeemed_row)
    fix c c0 r res
    assume receipt: "receipt = re_receipt i" and c: "c \<in> set (cl_claims db')" "cm_transfer c = re_transfer i"
        "cm_member c = re_member i" "redeemed_by i c"
      and r: "r \<in> set (cl_receipts db')" "rw_transfer r = re_transfer i" "rw_member r = re_member i"
        "rw_receipt r = re_receipt i"
      and c0: "c0 \<in> set (cl_claims db)" "cm_state c0 \<noteq> Revoked" "cm_transfer c0 = re_transfer i"
        "cm_member c0 = re_member i" "cm_batch c = cm_batch c0" "cm_checkpoint c = cm_checkpoint c0"
      and j: "cl_journals db' = cl_journals db"
      and b: "bind_principal (ce_ids E) (ce_limit E) \<lparr>bi_boundAt = re_updatedAt i, bi_member = re_member i,
        bi_principal = re_principal i\<rparr> (cl_bindings db) = Inr (res, cl_bindings db')"
    have "c1 = c0" using redeemed_is_latest [OF ok c0(1,2), of c1] s(2) c0(3,4) by simp
    then have g: "get_claim E (re_transfer i) (re_member i) db' = Inr (Some c)"
      using get_claim_live [OF inv c(1)] c(2-4) get_claim_ok [OF s(2)] c0(5) by (simp add: redeemed_by_def)
    have m: "receipt_matches E i c j" "cm_sha c = re_sha i"
      using s(6) \<open>c1 = c0\<close> c0(6) c(4) by (simp_all add: receipt_matches_def redeemed_by_def)
    have again: "insert_receipt (receipt_row_of i) db' = Inr (False, db')"
      using r by (auto simp: insert_receipt_def receipt_row_of_def list_ex_iff)
    have no: "\<not> redeemable i t c q" if "q \<in> set (cl_claims db')" for q
      using redeemable_only [OF claims_invD(2) [OF inv] c(1-3) that] c(4)
      by (auto simp: redeemable_def redeemed_by_def)
    then have u: "update_claims (redeemable i t c) (redeemed_claim i t) db' = Inr (0, db')"
      unfolding update_claims_Inr by (auto simp: filter_empty_conv map_idI)
    have red: "get_redemption E (re_transfer i) (re_member i) db' = Inr (Some (re_receipt i))"
      using get_redemption_row [OF inv r(1)] r(2-4) by simp
    show ?thesis
      using guards s(1,4,5) m g again u red c(4) bind_replays [OF b] j receipt
      by (simp add: redeem_claim_def rbind_def require_def ensure_def receipt_matches_def redeem_bind_def timestamp_def)
  qed
qed

section \<open>A transfer\<close>

definition demo_sha :: "char \<Rightarrow> string" where
  "demo_sha c = replicate 64 c"

definition demo_claim_env :: claim_env where
  "demo_claim_env = \<lparr>ce_ids = demo_ids, ce_project = ''p'', ce_limit = 2, ce_redemption = (\<lambda>_. True),
     ce_custody = (\<lambda>_. True), ce_before = (\<lambda>_ _. True), ce_digest = (\<lambda>_. Some (demo_sha CHR ''d''))\<rparr>"

definition demo_transfer :: "claims_command list" where
  "demo_transfer =
    [JournalCommand (PutJournal ((demo_journal ''t1'' ''k1'')\<lparr>ji_kind := AuthorityTransfer,
       ji_direction := Some LanToCloud\<rparr>)),
     JournalCommand (AdvanceJournal ((demo_advance ''t1'')\<lparr>ai_batchRevision := Some 1,
       ai_batchSha := Some (demo_sha CHR ''b'')\<rparr>)),
     PutKey \<lparr>ki_createdAt = Stamp 12, ki_public = replicate 43 CHR ''A'', ki_id = ''rk'', ki_transfer = ''t1''\<rparr>,
     PutClaim \<lparr>ci_batch = 1, ci_checkpoint = demo_sha CHR ''a'', ci_sha = demo_sha CHR ''c'',
       ci_createdAt = Stamp 12, ci_expiresAt = Stamp 40, ci_member = ''a'', ci_transfer = ''t1''\<rparr>]"

definition empty_claims :: claims_db where
  "empty_claims = \<lparr>cl_journals = empty_journals, cl_bindings = demo_bindings, cl_claims = [], cl_receipts = [],
     cl_keys = [], cl_batches = [], cl_envelopes = []\<rparr>"

lemma empty_claims_inv: "claims_inv demo_claim_env empty_claims"
  by (simp add: claims_inv_def empty_claims_def empty_journals_inv claims_keyed_def demo_claim_env_def)

definition demo_redeem :: "string \<Rightarrow> redeem_input" where
  "demo_redeem pid = \<lparr>re_sha = demo_sha CHR ''c'', re_member = ''a'', re_intent = ''i1'',
     re_receipt = \<lparr>rr_project = ''p'', rr_transfer = ''t1'', rr_member = ''a'', rr_claimSha = demo_sha CHR ''c'',
       rr_checkpoint = demo_sha CHR ''a'', rr_intent = ''i1'', rr_redeemedAt = Stamp 20, rr_id = ''r1'',
       rr_key = ''rk'', rr_targetGeneration = 2, rr_signature = ''s''\<rparr>,
     re_principal = pid, re_transfer = ''t1'', re_updatedAt = Stamp 20\<rparr>"

definition demo_claims :: claims_db where
  "demo_claims = run (claims_step demo_claim_env) empty_claims demo_transfer"

definition demo_redeemed :: claims_db where
  "demo_redeemed = claims_step demo_claim_env demo_claims (RedeemClaim (demo_redeem ''alice''))"

lemma demo_redeem_ok:
  "redeem_claim demo_claim_env (demo_redeem ''alice'') demo_claims
     = Inr (re_receipt (demo_redeem ''alice''), demo_redeemed)"
proof -
  have "map_sum id fst (redeem_claim demo_claim_env (demo_redeem ''alice'') demo_claims)
      = Inr (re_receipt (demo_redeem ''alice''))" by code_simp
  then show ?thesis
    by (cases "redeem_claim demo_claim_env (demo_redeem ''alice'') demo_claims")
      (auto simp: demo_redeemed_def after_def)
qed

lemma demo_claims_inv: "claims_inv demo_claim_env demo_claims"
  unfolding demo_claims_def using claims.inv_run empty_claims_inv by blast

theorem redemption_guarded_witness:
  "\<exists>c\<in>set (cl_claims demo_claims). cm_sha c = demo_sha CHR ''c''
     \<and> (\<exists>b\<in>set (bs_bindings (cl_bindings demo_redeemed)). bd_principal b = ''alice'' \<and> bd_member b = ''a'')"
  using redemption_guarded [OF empty_claims_inv demo_claims_def demo_redeem_ok]
  by (auto simp: demo_redeem_def)


theorem redemption_replays_witness:
  "redeem_claim demo_claim_env (demo_redeem ''alice'') demo_redeemed
     = Inr (re_receipt (demo_redeem ''alice''), demo_redeemed)"
  by (rule redemption_replays [OF demo_claims_inv demo_redeem_ok])

end
