(* ===== verification/ClaimEnvelopes.thy ===== *)
theory ClaimEnvelopes
  imports MembershipClaims
begin

text \<open>
  Protected claim envelopes, from
  \<open>src/src/coordination/postgres/PostgresPortabilityLifecyclePersistence.ts\<close>: the source of a
  transfer keeps the encrypted claims of its members until their redemption is acknowledged,
  then it stores the receipt and scrubs the envelope. The recovery record that the renewal of
  the expiry reads is the argument \<open>recovery\<close>, the expiry it holds.
\<close>

section \<open>Reading and writing\<close>

record envelope_input =
  ei_data :: associated_data
  ei_dataSha :: string
  ei_algorithm :: string
  ei_ciphertext :: string
  ei_createdAt :: stamp
  ei_expiresAt :: stamp
  ei_keyId :: string
  ei_keyVersion :: int
  ei_member :: string
  ei_nonce :: string
  ei_receiptKey :: string
  ei_tag :: string
  ei_transfer :: string

definition canonical_envelope :: "claim_env \<Rightarrow> envelope_input \<Rightarrow> coord_error + envelope" where
  "canonical_envelope E i =
     (let d = ei_data i in
      rbind (require (ic_opaque (ce_ids E) (ei_transfer i) \<and> ic_member (ce_ids E) (ei_member i))) (\<lambda>_.
      rbind (require (ei_algorithm i = ''xchacha20-poly1305'' \<and> ad_project d = ce_project E
         \<and> ad_transfer d = ei_transfer i \<and> ad_member d = ei_member i \<and> ad_version d = 1)) (\<lambda>_.
      rbind (require (sha256_ok (ei_dataSha i) \<and> ce_digest E d = Some (ei_dataSha i))) (\<lambda>_.
      rbind (require (sha256_ok (ad_claimSha d) \<and> sha256_ok (ad_checkpoint d)
         \<and> ic_opaque (ce_ids E) (ei_keyId i) \<and> ic_opaque (ce_ids E) (ei_receiptKey i)
         \<and> positive_safe (ei_keyVersion i) \<and> canonical_base64url 24 24 (ei_nonce i)
         \<and> canonical_base64url 16 16 (ei_tag i) \<and> canonical_base64url 1 4096 (ei_ciphertext i))) (\<lambda>_.
      rbind (timestamp (ei_createdAt i)) (\<lambda>created.
      rbind (timestamp (ei_expiresAt i)) (\<lambda>expires.
      rbind (require (\<not> expires \<le> created)) (\<lambda>_.
        Inr \<lparr>en_data = d, en_dataSha = ei_dataSha i, en_algorithm = ei_algorithm i,
             en_ciphertext = ei_ciphertext i, en_createdAt = created, en_expiresAt = expires,
             en_keyId = ei_keyId i, en_keyVersion = ei_keyVersion i, en_member = ei_member i,
             en_nonce = ei_nonce i, en_receiptKey = ei_receiptKey i, en_tag = ei_tag i,
             en_transfer = ei_transfer i\<rparr>))))))))"

text \<open>A stored envelope is checked again whenever it is read.\<close>

definition input_of :: "envelope \<Rightarrow> envelope_input" where
  "input_of e = \<lparr>ei_data = en_data e, ei_dataSha = en_dataSha e, ei_algorithm = en_algorithm e,
     ei_ciphertext = en_ciphertext e, ei_createdAt = Stamp (en_createdAt e),
     ei_expiresAt = Stamp (en_expiresAt e), ei_keyId = en_keyId e, ei_keyVersion = en_keyVersion e,
     ei_member = en_member e, ei_nonce = en_nonce e, ei_receiptKey = en_receiptKey e,
     ei_tag = en_tag e, ei_transfer = en_transfer e\<rparr>"

definition decode_envelope :: "claim_env \<Rightarrow> envelope \<Rightarrow> coord_error + envelope" where
  "decode_envelope E e = canonical_envelope E (input_of e)"

definition get_envelope :: "claim_env \<Rightarrow> string \<Rightarrow> string \<Rightarrow> claims_db \<Rightarrow> coord_error + envelope option" where
  "get_envelope E transfer member db =
     rbind (require (ic_opaque (ce_ids E) transfer \<and> ic_member (ce_ids E) member)) (\<lambda>_.
       case find (\<lambda>e. en_transfer e = transfer \<and> en_member e = member) (cl_envelopes db) of
         None \<Rightarrow> Inr None
       | Some e \<Rightarrow> rbind (decode_envelope E e) (\<lambda>e'. Inr (Some e')))"

definition list_envelopes :: "claim_env \<Rightarrow> string \<Rightarrow> claims_db \<Rightarrow> coord_error + envelope list" where
  "list_envelopes E transfer db =
     rbind (rmap (decode_envelope E) (filter (\<lambda>e. en_transfer e = transfer) (cl_envelopes db))) (\<lambda>es.
       Inr (sort_members E en_member es))"

text \<open>The keys of the table: transfer and member, transfer and claim, and the receipt key it names.\<close>

definition insert_envelope :: "envelope \<Rightarrow> claims_db \<Rightarrow> coord_error + bool \<times> claims_db" where
  "insert_envelope e db =
     (if list_ex (\<lambda>q. en_transfer q = en_transfer e \<and> en_member q = en_member e) (cl_envelopes db)
      then Inr (False, db)
      else if list_ex (\<lambda>k. rk_transfer k = en_transfer e \<and> rk_id k = en_receiptKey e) (cl_keys db)
         \<and> \<not> list_ex (\<lambda>q. en_transfer q = en_transfer e \<and> ad_claimSha (en_data q) = ad_claimSha (en_data e))
              (cl_envelopes db)
      then Inr (True, db\<lparr>cl_envelopes := cl_envelopes db @ [e]\<rparr>)
      else Inl DependencyFailed)"

definition put_envelope :: "claim_env \<Rightarrow> envelope_input \<Rightarrow> claims_db \<Rightarrow> coord_error + put_result \<times> claims_db" where
  "put_envelope E i db =
     rbind (canonical_envelope E i) (\<lambda>e.
     rbind (get_journal (ce_ids E) (en_transfer e) (cl_journals db)) (\<lambda>journal.
     rbind (ensure (case journal of None \<Rightarrow> False
              | Some j \<Rightarrow> j_kind j = AuthorityTransfer
                  \<and> j_checkpointSha j = Some (ad_checkpoint (en_data e))
                  \<and> j_generation j = ad_generation (en_data e)) StateConflict) (\<lambda>_.
     rbind (insert_envelope e db) (\<lambda>(inserted, db1).
     rbind (get_envelope E (en_transfer e) (en_member e) db1) (\<lambda>stored.
     rbind (ensure (stored = Some e) StateConflict) (\<lambda>_.
       Inr (if inserted then Created else PutReplayed, db1)))))))"

section \<open>Replacement, deletion and renewal\<close>

fun put_envelopes :: "claim_env \<Rightarrow> envelope list \<Rightarrow> claims_db \<Rightarrow> coord_error + claims_db" where
  "put_envelopes E [] db = Inr db"
| "put_envelopes E (e # es) db =
     rbind (put_envelope E (input_of e) db) (\<lambda>(res, db1).
     rbind (ensure (res = Created) StateConflict) (\<lambda>_. put_envelopes E es db1))"

definition canonical_expected :: "claim_env \<Rightarrow> string \<times> string \<Rightarrow> coord_error + string \<times> string" where
  "canonical_expected E x = (case x of (sha, member) \<Rightarrow>
     rbind (require (sha256_ok sha \<and> ic_member (ce_ids E) member)) (\<lambda>_. Inr (sha, member)))"

definition claim_pair :: "envelope \<Rightarrow> string \<times> string" where
  "claim_pair e = (ad_claimSha (en_data e), en_member e)"

definition replace_envelopes ::
  "claim_env \<Rightarrow> string \<Rightarrow> (string \<times> string) list \<Rightarrow> envelope_input list \<Rightarrow> claims_db
     \<Rightarrow> coord_error + advance_result \<times> claims_db" where
  "replace_envelopes E transfer expectedInput replacementInput db =
     rbind (require (ic_opaque (ce_ids E) transfer)) (\<lambda>_.
     rbind (rmap (canonical_expected E) expectedInput) (\<lambda>ex.
     let expected = sort_members E snd ex in
     rbind (rmap (canonical_envelope E) replacementInput) (\<lambda>rp.
     let replacements = sort_members E en_member rp in
     rbind (require (expected \<noteq> [] \<and> map snd expected = map en_member replacements
        \<and> distinct (map snd expected) \<and> distinct (map fst expected)
        \<and> distinct (map (\<lambda>e. ad_claimSha (en_data e)) replacements)
        \<and> list_all (\<lambda>e. en_transfer e = transfer) replacements)) (\<lambda>_.
     rbind (list_envelopes E transfer db) (\<lambda>current.
       if current = replacements then Inr (AdvanceReplayed, db)
       else rbind (ensure (map claim_pair current = expected) StateConflict) (\<lambda>_.
            rbind (get_batch_receipt E transfer db) (\<lambda>custody.
            rbind (ensure (custody = None) StateConflict) (\<lambda>_.
            let db1 = db\<lparr>cl_envelopes := filter (\<lambda>e. en_transfer e \<noteq> transfer) (cl_envelopes db)\<rparr>
            in rbind (put_envelopes E replacements db1) (\<lambda>db2. Inr (Advanced, db2)))))))))) "

definition delete_envelopes ::
  "claim_env \<Rightarrow> string \<Rightarrow> string \<Rightarrow> claims_db \<Rightarrow> coord_error + advance_result \<times> claims_db" where
  "delete_envelopes E transfer checkpoint db =
     rbind (require (ic_opaque (ce_ids E) transfer \<and> sha256_ok checkpoint)) (\<lambda>_.
     rbind (list_envelopes E transfer db) (\<lambda>current.
       if current = [] then Inr (AdvanceReplayed, db)
       else rbind (ensure (list_all (\<lambda>e. ad_checkpoint (en_data e) = checkpoint) current) StateConflict) (\<lambda>_.
         let hit = (\<lambda>e. en_transfer e = transfer \<and> ad_checkpoint (en_data e) = checkpoint)
         in rbind (ensure (length (filter hit (cl_envelopes db)) = length current) StateConflict) (\<lambda>_.
              Inr (Advanced, db\<lparr>cl_envelopes := filter (\<lambda>e. \<not> hit e) (cl_envelopes db)\<rparr>)))))"

definition renew_envelopes ::
  "claim_env \<Rightarrow> int option \<Rightarrow> string \<Rightarrow> stamp \<Rightarrow> claims_db \<Rightarrow> coord_error + advance_result \<times> claims_db" where
  "renew_envelopes E recovery transfer expiresAt db =
     rbind (require (ic_opaque (ce_ids E) transfer)) (\<lambda>_.
     rbind (timestamp expiresAt) (\<lambda>t.
     rbind (get_journal (ce_ids E) transfer (cl_journals db)) (\<lambda>journal.
     rbind (ensure ((case journal of None \<Rightarrow> False
              | Some j \<Rightarrow> j_kind j = AuthorityTransfer \<and> j_direction j = Some CloudToLan
                  \<and> (j_phase j = ''lan-activated'' \<or> j_phase j = ''completed''))
          \<and> recovery = Some t) StateConflict) (\<lambda>_.
     let hit = (\<lambda>e. en_transfer e = transfer \<and> en_expiresAt e < t \<and> en_createdAt e < t);
         db1 = db\<lparr>cl_envelopes := map (\<lambda>e. if hit e then e\<lparr>en_expiresAt := t\<rparr> else e) (cl_envelopes db)\<rparr>
     in rbind (ensure (\<not> list_ex (\<lambda>e. en_transfer e = transfer \<and> en_expiresAt e \<noteq> t) (cl_envelopes db1))
           StateConflict) (\<lambda>_.
          Inr (if list_ex hit (cl_envelopes db) then Advanced else AdvanceReplayed, db1))))))"

section \<open>Scrubbing\<close>

datatype scrub_result = Scrubbed | ScrubReplayed

definition scrub_envelope ::
  "claim_env \<Rightarrow> string \<Rightarrow> string \<Rightarrow> redemption_receipt \<Rightarrow> stamp \<Rightarrow> claims_db
     \<Rightarrow> coord_error + scrub_result \<times> claims_db" where
  "scrub_envelope E transfer member receipt ackAt db =
     rbind (require (ic_opaque (ce_ids E) transfer \<and> ic_member (ce_ids E) member)) (\<lambda>_.
     rbind (timestamp ackAt) (\<lambda>t.
     rbind (require (ce_redemption E receipt)) (\<lambda>_.
     rbind (require (rr_project receipt = ce_project E \<and> rr_transfer receipt = transfer
        \<and> rr_member receipt = member)) (\<lambda>_.
     rbind (get_envelope E transfer member db) (\<lambda>envelope.
     rbind (require (case envelope of None \<Rightarrow> True
        | Some e \<Rightarrow> rr_claimSha receipt = ad_claimSha (en_data e)
            \<and> rr_checkpoint receipt = ad_checkpoint (en_data e)
            \<and> rr_targetGeneration receipt = ad_generation (en_data e) + 1)) (\<lambda>_.
     rbind (get_redemption E transfer member db) (\<lambda>existing.
     rbind (case existing of
              None \<Rightarrow>
                rbind (ensure (envelope \<noteq> None) StateConflict) (\<lambda>_.
                rbind (insert_receipt \<lparr>rw_transfer = transfer, rw_member = member, rw_receipt = receipt,
                         rw_ack = Some t\<rparr> db) (\<lambda>(inserted, db1).
                rbind (ensure inserted DependencyFailed) (\<lambda>_. Inr db1)))
            | Some r \<Rightarrow> rbind (ensure (r = receipt) StateConflict) (\<lambda>_. Inr db)) (\<lambda>db1.
     let hit = (\<lambda>r. rw_transfer r = transfer \<and> rw_member r = member \<and> rr_id (rw_receipt r) = rr_id receipt
           \<and> rr_claimSha (rw_receipt r) = rr_claimSha receipt
           \<and> (rw_ack r = None \<or> rw_ack r = Some t));
         db2 = db1\<lparr>cl_receipts := map (\<lambda>r. if hit r then r\<lparr>rw_ack := Some t\<rparr> else r) (cl_receipts db1)\<rparr>;
         gone = (\<lambda>e. en_transfer e = transfer \<and> en_member e = member \<and> ad_claimSha (en_data e) = rr_claimSha receipt)
     in rbind (ensure (list_all (\<lambda>r. hit r \<longrightarrow> ack_ok (r\<lparr>rw_ack := Some t\<rparr>)) (cl_receipts db1)) DependencyFailed) (\<lambda>_.
        rbind (ensure (length (filter hit (cl_receipts db1)) = 1) StateConflict) (\<lambda>_.
          Inr (if list_ex gone (cl_envelopes db2) then Scrubbed else ScrubReplayed,
               db2\<lparr>cl_envelopes := filter (\<lambda>e. \<not> gone e) (cl_envelopes db2)\<rparr>)))))))))))"

end
