(* ===== verification/RepositoryPublication.thy ===== *)
theory RepositoryPublication
  imports NodePath
begin

text \<open>
  The publication of a staged repository, \<open>src/src/repositories/RepositoryPublication.ts\<close>: a
  repository that was validated in the directory of its attempt is marked, moved to its place
  under the repository root by one rename, and the attempt is cleaned up. The file system holds
  what the paths of one publication name: the directory of the attempt with its marker, the
  staged repository in it, the directory of the Project under the repository root and the
  published repository. A call of the file system can fail: before it had an effect, or after
  it, as a rename whose answer is lost. \<open>pe_fault\<close> says what the n-th call does.

  The digest function, the identifier checks of the protocol package, the verifier of the
  repository's integrity and what the two roots look like at each inspection are parameters.
\<close>

section \<open>Data\<close>

datatype publication_error = AmbiguousState | PublicationClosed | InvalidPublication | MarkerConflict
  | MissingState | RepositoryInvalid | StorageUnavailable | ForeignFault

record git_ref =
  gr_name :: string
  gr_oid :: string

record validated_repository =
  vr_artifactKey :: string
  vr_attempt :: string
  vr_markerSha :: string
  vr_format :: string
  vr_project :: string
  vr_refs :: "git_ref list"

record publication =
  pb_artifactKey :: string
  pb_attempt :: string
  pb_markerSha :: string
  pb_format :: string
  pb_project :: string
  pb_refs :: "git_ref list"
  pb_storageKey :: string
  pb_storageNode :: string
  pb_validationSha :: string
  pb_publicationSha :: string

text \<open>What \<open>lstat\<close> finds at the path of a small file, and at that of a directory.\<close>

datatype file_node = NoFile | RegularFile string | OtherFile

record repository_dir =
  rd_content :: string
  rd_validation :: file_node
  rd_publication :: file_node
  rd_part :: file_node

datatype dir_node = NoDir | Dir repository_dir | OtherDir

record publication_fs =
  pf_attempt :: bool
  pf_attemptMarker :: file_node
  pf_staged :: dir_node
  pf_project :: bool
  pf_published :: dir_node

datatype fault = NoFault | FailsBefore | FailsMidway | FailsAfter

datatype integrity = Intact | NotIntact | IntegrityOther

type_synonym root_identity = "nat \<times> nat"

record publication_env =
  pe_digest :: "string \<Rightarrow> string"
  pe_project :: "string \<Rightarrow> bool"
  pe_opaque :: "string \<Rightarrow> bool"
  pe_oid :: "string \<Rightarrow> bool"
  pe_verify :: "string \<Rightarrow> string \<Rightarrow> git_ref list \<Rightarrow> string \<Rightarrow> integrity"
  pe_roots :: "nat \<Rightarrow> (root_identity \<times> root_identity) option"
  pe_canonical :: "nat \<Rightarrow> bool"
  pe_fault :: "nat \<Rightarrow> fault"
  pe_storageNode :: string

record publication_state =
  ps_fs :: publication_fs
  ps_closed :: bool
  ps_roots :: "(root_identity \<times> root_identity) option"
  ps_calls :: nat

section \<open>The publication and its marker\<close>

definition json_escape :: "char \<Rightarrow> string" where
  "json_escape c =
     (if c = CHR 0x22 then [CHR 0x5C, c] else if c = CHR 0x5C then [c, c]
      else if c = CHR 0x08 then CHR 0x5C # ''b'' else if c = CHR 0x0C then CHR 0x5C # ''f''
      else if c = CHR 0x0A then CHR 0x5C # ''n'' else if c = CHR 0x0D then CHR 0x5C # ''r''
      else if c = CHR 0x09 then CHR 0x5C # ''t''
      else if char_between (CHR 0x00) (CHR 0x1F) c
      then CHR 0x5C # ''u00'' @ [if char_between (CHR 0x00) (CHR 0x0F) c then CHR ''0'' else CHR ''1'',
             ''0123456789abcdef'' ! ((of_char c :: nat) mod 16)]
      else [c])"

definition json_string :: "string \<Rightarrow> string" where
  "json_string s = CHR 0x22 # concat (map json_escape s) @ [CHR 0x22]"

definition json_member :: "string \<Rightarrow> string \<Rightarrow> string" where
  "json_member name v = json_string name @ '':'' @ v"

fun join_comma :: "string list \<Rightarrow> string" where
  "join_comma [] = []"
| "join_comma [s] = s"
| "join_comma (s # t # ss) = s @ '','' @ join_comma (t # ss)"

definition json_object :: "(string \<times> string) list \<Rightarrow> string" where
  "json_object ms = ''{'' @ join_comma (map (\<lambda>(n, v). json_member n v) ms) @ ''}''"

definition json_array :: "string list \<Rightarrow> string" where
  "json_array vs = ''['' @ join_comma vs @ '']''"

definition newline :: string where
  "newline = [CHR 0x0A]"

definition publication_marker_json :: "publication \<Rightarrow> string" where
  "publication_marker_json p = json_object
     [(''artifactKey'', json_string (pb_artifactKey p)), (''attemptId'', json_string (pb_attempt p)),
      (''generation'', ''1''), (''markerSha256'', json_string (pb_markerSha p)),
      (''objectFormat'', json_string (pb_format p)), (''projectId'', json_string (pb_project p)),
      (''refs'', json_array (map (\<lambda>r. json_object [(''name'', json_string (gr_name r)),
         (''oid'', json_string (gr_oid r))]) (pb_refs p))),
      (''repositoryStorageKey'', json_string (pb_storageKey p)), (''schemaVersion'', ''1''),
      (''storageNodeId'', json_string (pb_storageNode p)),
      (''validationMarkerSha256'', json_string (pb_validationSha p))] @ newline"

definition attempt_marker_json :: "publication \<Rightarrow> string" where
  "attempt_marker_json p = json_object
     [(''artifactKey'', json_string (pb_artifactKey p)), (''attemptId'', json_string (pb_attempt p)),
      (''projectId'', json_string (pb_project p)), (''schemaVersion'', ''1'')] @ newline"

definition artifact_key :: "publication_env \<Rightarrow> string \<Rightarrow> string \<Rightarrow> string" where
  "artifact_key E project attempt = pe_digest E (project @ [CHR 0x00] @ attempt)"

text \<open>The patterns \<open>[a-z0-9][a-z0-9_-]{0,127}\<close> and \<open>[0-9a-f]{64}\<close>.\<close>

definition storage_key_pattern :: "string \<Rightarrow> bool" where
  "storage_key_pattern s \<longleftrightarrow> s \<noteq> [] \<and> length s \<le> 128 \<and> (is_lower (hd s) \<or> is_digit (hd s))
     \<and> list_all (\<lambda>c. is_lower c \<or> is_digit c \<or> c \<in> set ''_-'') s"

definition sha_pattern :: "string \<Rightarrow> bool" where
  "sha_pattern s \<longleftrightarrow> length s = 64 \<and> list_all (\<lambda>c. is_digit c \<or> char_between (CHR ''a'') (CHR ''f'') c) s"

definition prepared_publication ::
  "publication_env \<Rightarrow> validated_repository \<Rightarrow> string \<Rightarrow> publication_error + publication" where
  "prepared_publication E r storageKey =
     (if \<not> pe_project E (vr_project r) \<or> \<not> pe_opaque E (vr_attempt r)
         \<or> vr_artifactKey r \<noteq> artifact_key E (vr_project r) (vr_attempt r)
         \<or> \<not> sha_pattern (vr_markerSha r) \<or> length (vr_refs r) \<noteq> 3
         \<or> list_ex (\<lambda>x. \<not> pe_oid E (gr_oid x)) (vr_refs r) \<or> \<not> storage_key_pattern storageKey
      then Inl InvalidPublication
      else let p = \<lparr>pb_artifactKey = vr_artifactKey r, pb_attempt = vr_attempt r, pb_markerSha = vr_markerSha r,
                    pb_format = vr_format r, pb_project = vr_project r, pb_refs = vr_refs r,
                    pb_storageKey = storageKey, pb_storageNode = pe_storageNode E,
                    pb_validationSha = vr_markerSha r, pb_publicationSha = []\<rparr>
           in Inr (p\<lparr>pb_publicationSha := pe_digest E (publication_marker_json p)\<rparr>))"

definition prepared_ok :: "publication_env \<Rightarrow> publication \<Rightarrow> bool" where
  "prepared_ok E p \<longleftrightarrow>
     \<not> (\<not> pe_project E (pb_project p) \<or> \<not> pe_opaque E (pb_attempt p)
        \<or> pb_artifactKey p \<noteq> artifact_key E (pb_project p) (pb_attempt p)
        \<or> \<not> storage_key_pattern (pb_storageKey p) \<or> pb_storageNode p \<noteq> pe_storageNode E
        \<or> \<not> sha_pattern (pb_markerSha p) \<or> pb_markerSha p \<noteq> pb_validationSha p
        \<or> \<not> sha_pattern (pb_publicationSha p) \<or> length (pb_refs p) \<noteq> 3
        \<or> list_ex (\<lambda>x. \<not> pe_oid E (gr_oid x)) (pb_refs p))
     \<and> pe_digest E (publication_marker_json p) = pb_publicationSha p"

section \<open>Steps\<close>

type_synonym 'a act = "publication_state \<Rightarrow> (publication_error + 'a) \<times> publication_state"

definition act_return :: "'a \<Rightarrow> 'a act" where
  "act_return a s = (Inr a, s)"

definition act_fail :: "publication_error \<Rightarrow> 'a act" where
  "act_fail e s = (Inl e, s)"

definition act_bind :: "'a act \<Rightarrow> ('a \<Rightarrow> 'b act) \<Rightarrow> 'b act" where
  "act_bind m f s = (case m s of (Inl e, s') \<Rightarrow> (Inl e, s') | (Inr a, s') \<Rightarrow> f a s')"

definition act_try :: "'a act \<Rightarrow> (publication_error \<Rightarrow> 'a act) \<Rightarrow> 'a act" where
  "act_try m h s = (case m s of (Inl e, s') \<Rightarrow> h e s' | (Inr a, s') \<Rightarrow> (Inr a, s'))"

definition act_check :: "bool \<Rightarrow> publication_error \<Rightarrow> unit act" where
  "act_check b e = (if b then act_return () else act_fail e)"

text \<open>A call of the file system: its fault, and a change that a fault may prevent.\<close>

definition fs_read :: "publication_env \<Rightarrow> publication_error \<Rightarrow> (publication_fs \<Rightarrow> 'a) \<Rightarrow> 'a act" where
  "fs_read E e f s =
     (let s' = s\<lparr>ps_calls := ps_calls s + 1\<rparr>
      in if pe_fault E (ps_calls s) = NoFault then (Inr (f (ps_fs s)), s') else (Inl e, s'))"

definition fs_write :: "publication_env \<Rightarrow> publication_error \<Rightarrow> (publication_fs \<Rightarrow> publication_fs) \<Rightarrow> unit act" where
  "fs_write E e f s =
     (let s' = s\<lparr>ps_calls := ps_calls s + 1\<rparr>
      in case pe_fault E (ps_calls s) of
           NoFault \<Rightarrow> (Inr (), s'\<lparr>ps_fs := f (ps_fs s)\<rparr>)
         | FailsAfter \<Rightarrow> (Inl e, s'\<lparr>ps_fs := f (ps_fs s)\<rparr>)
         | _ \<Rightarrow> (Inl e, s'))"

definition assert_open :: "unit act" where
  "assert_open s = (if ps_closed s then (Inl PublicationClosed, s) else (Inr (), s))"

definition verify_roots :: "publication_env \<Rightarrow> unit act" where
  "verify_roots E s =
     (let s' = s\<lparr>ps_calls := ps_calls s + 1\<rparr>
      in case pe_roots E (ps_calls s) of
           None \<Rightarrow> (Inl StorageUnavailable, s')
         | Some (repositories, staging) \<Rightarrow>
             if fst repositories \<noteq> fst staging then (Inl StorageUnavailable, s')
             else (case ps_roots s of
                     None \<Rightarrow> (Inr (), s'\<lparr>ps_roots := Some (repositories, staging)\<rparr>)
                   | Some known \<Rightarrow>
                       if known \<noteq> (repositories, staging) then (Inl StorageUnavailable, s') else (Inr (), s')))"

definition exists_directory :: "publication_env \<Rightarrow> (publication_fs \<Rightarrow> dir_node) \<Rightarrow> bool act" where
  "exists_directory E f =
     act_bind (fs_read E StorageUnavailable f) (\<lambda>d.
       case d of NoDir \<Rightarrow> act_return False | Dir r \<Rightarrow> act_return True | OtherDir \<Rightarrow> act_fail MarkerConflict)"

definition exists_attempt :: "publication_env \<Rightarrow> bool act" where
  "exists_attempt E = fs_read E StorageUnavailable pf_attempt"

text \<open>The markers of a repository, \<open>None\<close> when its directory is not there.\<close>

definition repository_at :: "dir_node \<Rightarrow> repository_dir" where
  "repository_at d = (case d of Dir r \<Rightarrow> r
     | _ \<Rightarrow> \<lparr>rd_content = [], rd_validation = NoFile, rd_publication = NoFile, rd_part = NoFile\<rparr>)"

definition assert_file_digest ::
  "publication_env \<Rightarrow> (publication_fs \<Rightarrow> file_node) \<Rightarrow> string \<Rightarrow> unit act" where
  "assert_file_digest E f sha =
     act_bind (fs_read E MarkerConflict f) (\<lambda>n.
       case n of
         RegularFile text \<Rightarrow>
           act_bind (act_check (\<not> int (length text) > 1024 * 1024) MarkerConflict) (\<lambda>_.
           act_bind (fs_read E MarkerConflict (\<lambda>_. ())) (\<lambda>_.
             act_check (pe_digest E text = sha) MarkerConflict))
       | _ \<Rightarrow> act_fail MarkerConflict)"

definition assert_attempt_marker :: "publication_env \<Rightarrow> publication \<Rightarrow> unit act" where
  "assert_attempt_marker E p =
     act_bind (fs_read E MarkerConflict pf_attemptMarker) (\<lambda>n.
       case n of
         RegularFile text \<Rightarrow>
           act_bind (act_check (length text = length (attempt_marker_json p)) MarkerConflict) (\<lambda>_.
           act_bind (fs_read E MarkerConflict (\<lambda>_. ())) (\<lambda>_.
             act_check (text = attempt_marker_json p) MarkerConflict))
       | _ \<Rightarrow> act_fail MarkerConflict)"

text \<open>The last read of the marker is outside of every handler: its error is not one of the module.\<close>

definition assert_publication_markers ::
  "publication_env \<Rightarrow> (publication_fs \<Rightarrow> dir_node) \<Rightarrow> publication \<Rightarrow> unit act" where
  "assert_publication_markers E f p =
     act_bind (assert_file_digest E (\<lambda>fs. rd_validation (repository_at (f fs))) (pb_validationSha p)) (\<lambda>_.
     act_bind (assert_file_digest E (\<lambda>fs. rd_publication (repository_at (f fs))) (pb_publicationSha p)) (\<lambda>_.
     act_bind (fs_read E ForeignFault (\<lambda>fs. rd_publication (repository_at (f fs)))) (\<lambda>n.
       act_check (n = RegularFile (publication_marker_json p)) MarkerConflict)))"

definition verify_repository ::
  "publication_env \<Rightarrow> (publication_fs \<Rightarrow> dir_node) \<Rightarrow> publication \<Rightarrow> unit act" where
  "verify_repository E f p s =
     (case pe_verify E (rd_content (repository_at (f (ps_fs s)))) (pb_format p) (pb_refs p) (pb_project p) of
        Intact \<Rightarrow> (Inr (), s) | NotIntact \<Rightarrow> (Inl RepositoryInvalid, s)
      | IntegrityOther \<Rightarrow> (Inl StorageUnavailable, s))"

definition sync_directory :: "publication_env \<Rightarrow> unit act" where
  "sync_directory E = fs_read E StorageUnavailable (\<lambda>_. ())"

definition in_staged :: "(repository_dir \<Rightarrow> repository_dir) \<Rightarrow> publication_fs \<Rightarrow> publication_fs" where
  "in_staged f fs = (case pf_staged fs of Dir r \<Rightarrow> fs\<lparr>pf_staged := Dir (f r)\<rparr> | _ \<Rightarrow> fs)"

definition staged_part :: "publication_fs \<Rightarrow> file_node" where
  "staged_part fs = rd_part (repository_at (pf_staged fs))"

definition remove_owned_part :: "publication_env \<Rightarrow> unit act" where
  "remove_owned_part E =
     act_bind (fs_read E StorageUnavailable staged_part) (\<lambda>n.
       case n of
         NoFile \<Rightarrow> act_return ()
       | OtherFile \<Rightarrow> act_fail MarkerConflict
       | RegularFile text \<Rightarrow> fs_write E StorageUnavailable (in_staged (rd_part_update (\<lambda>_. NoFile))))"

section \<open>Operations\<close>

datatype place = AtStaging | AtRepository

definition place_node :: "place \<Rightarrow> publication_fs \<Rightarrow> dir_node" where
  "place_node x = (case x of AtStaging \<Rightarrow> pf_staged | AtRepository \<Rightarrow> pf_published)"

definition observe :: "publication_env \<Rightarrow> place act" where
  "observe E =
     act_bind (exists_directory E pf_staged) (\<lambda>staged.
     act_bind (exists_directory E pf_published) (\<lambda>published.
     act_bind (act_check (\<not> (staged \<and> published)) AmbiguousState) (\<lambda>_.
     act_bind (act_check (\<not> (\<not> staged \<and> \<not> published)) MissingState) (\<lambda>_.
       act_return (if staged then AtStaging else AtRepository)))))"

definition inspect_publication :: "publication_env \<Rightarrow> publication \<Rightarrow> place act" where
  "inspect_publication E p =
     act_bind assert_open (\<lambda>_.
     act_bind (act_check (prepared_ok E p) InvalidPublication) (\<lambda>_.
     act_bind (verify_roots E) (\<lambda>_.
     act_bind (observe E) (\<lambda>x.
     act_bind (assert_publication_markers E (place_node x) p) (\<lambda>_.
     act_bind (verify_repository E (place_node x) p) (\<lambda>_.
       act_return x))))))"

text \<open>An exclusive open fails when the file exists.\<close>

definition open_part :: "publication_env \<Rightarrow> unit act" where
  "open_part E s =
     (if staged_part (ps_fs s) = NoFile
      then fs_write E StorageUnavailable (in_staged (rd_part_update (\<lambda>_. RegularFile []))) s
      else (Inl StorageUnavailable, s\<lparr>ps_calls := ps_calls s + 1\<rparr>))"

text \<open>The marker is written to a partial file and renamed; a failure removes the partial file.\<close>

definition write_marker :: "publication_env \<Rightarrow> publication \<Rightarrow> unit act" where
  "write_marker E p =
     act_try
       (act_bind (open_part E) (\<lambda>_.
        act_bind (fs_write E StorageUnavailable
            (in_staged (rd_part_update (\<lambda>_. RegularFile (publication_marker_json p))))) (\<lambda>_.
        act_bind (sync_directory E) (\<lambda>_.
        act_bind (fs_write E StorageUnavailable (in_staged (\<lambda>r. r\<lparr>rd_publication := rd_part r, rd_part := NoFile\<rparr>))) (\<lambda>_.
          sync_directory E)))))
       (\<lambda>e. act_bind (act_try (fs_write E StorageUnavailable (in_staged (rd_part_update (\<lambda>_. NoFile))))
                (\<lambda>_. act_return ())) (\<lambda>_. act_fail StorageUnavailable))"

definition prepare_published :: "publication_env \<Rightarrow> publication \<Rightarrow> publication act" where
  "prepare_published E p =
     act_bind (assert_publication_markers E pf_published p) (\<lambda>_.
     act_bind (verify_repository E pf_published p) (\<lambda>_. act_return p))"

definition prepare_staged :: "publication_env \<Rightarrow> publication \<Rightarrow> publication act" where
  "prepare_staged E p =
     act_bind (assert_attempt_marker E p) (\<lambda>_.
     act_bind (assert_file_digest E (\<lambda>fs. rd_validation (repository_at (pf_staged fs))) (pb_validationSha p)) (\<lambda>_.
     act_bind (verify_repository E pf_staged p) (\<lambda>_.
     act_bind (fs_read E MarkerConflict (\<lambda>fs. rd_publication (repository_at (pf_staged fs)))) (\<lambda>n.
       case n of
         OtherFile \<Rightarrow> act_fail MarkerConflict
       | RegularFile text \<Rightarrow>
           act_bind (fs_read E MarkerConflict (\<lambda>_. ())) (\<lambda>_.
           act_bind (act_check (text = publication_marker_json p) MarkerConflict) (\<lambda>_.
           act_bind (remove_owned_part E) (\<lambda>_. act_return p)))
       | NoFile \<Rightarrow>
           act_bind (remove_owned_part E) (\<lambda>_.
           act_bind (write_marker E p) (\<lambda>_. act_return p))))))"

definition prepare_publication ::
  "publication_env \<Rightarrow> validated_repository \<Rightarrow> string \<Rightarrow> publication act" where
  "prepare_publication E r storageKey =
     act_bind assert_open (\<lambda>_.
       case prepared_publication E r storageKey of
         Inl e \<Rightarrow> act_fail e
       | Inr p \<Rightarrow>
           act_bind (verify_roots E) (\<lambda>_.
           act_bind (observe E) (\<lambda>x.
             case x of AtRepository \<Rightarrow> prepare_published E p | AtStaging \<Rightarrow> prepare_staged E p)))"

definition sync_placement :: "publication_env \<Rightarrow> unit act" where
  "sync_placement E =
     act_bind (sync_directory E) (\<lambda>_.
     act_bind (exists_attempt E) (\<lambda>attempt.
     act_bind (if attempt then sync_directory E else act_return ()) (\<lambda>_. sync_directory E)))"

definition inspect_canonical :: "publication_env \<Rightarrow> unit act" where
  "inspect_canonical E s =
     (let s' = s\<lparr>ps_calls := ps_calls s + 1\<rparr>
      in if pe_canonical E (ps_calls s) then (Inr (), s') else (Inl StorageUnavailable, s'))"

text \<open>The rename of the directory, when its target is free and the Project's directory exists.\<close>

definition move_repository :: "publication_fs \<Rightarrow> publication_fs" where
  "move_repository fs = fs\<lparr>pf_published := pf_staged fs, pf_staged := NoDir\<rparr>"

definition rename_repository :: "publication_env \<Rightarrow> unit act" where
  "rename_repository E s =
     (if pf_project (ps_fs s) \<and> pf_staged (ps_fs s) \<noteq> NoDir \<and> pf_published (ps_fs s) = NoDir
      then fs_write E StorageUnavailable move_repository s
      else (Inl StorageUnavailable, s\<lparr>ps_calls := ps_calls s + 1\<rparr>))"

datatype publish_status = Published | PublishReplayed

definition publish_repository :: "publication_env \<Rightarrow> publication \<Rightarrow> publish_status act" where
  "publish_repository E p =
     act_bind (inspect_publication E p) (\<lambda>x.
       case x of
         AtRepository \<Rightarrow> act_bind (sync_placement E) (\<lambda>_. act_return PublishReplayed)
       | AtStaging \<Rightarrow>
           act_bind (fs_write E StorageUnavailable (pf_project_update (\<lambda>_. True))) (\<lambda>_.
           act_bind (sync_directory E) (\<lambda>_.
           act_bind (inspect_canonical E) (\<lambda>_.
           act_bind (act_try (rename_repository E)
              (\<lambda>_. act_bind (act_try (inspect_publication E p) (\<lambda>_. act_fail StorageUnavailable)) (\<lambda>y.
                   act_check (y = AtRepository) StorageUnavailable))) (\<lambda>_.
           act_bind (sync_placement E) (\<lambda>_.
           act_bind (inspect_publication E p) (\<lambda>y.
           act_bind (act_check (y = AtRepository) StorageUnavailable) (\<lambda>_.
             act_return Published))))))))"

datatype cleanup_status = Cleaned | CleanupReplayed

text \<open>A recursive removal that stops midway has removed the marker but not the directory.\<close>

definition remove_attempt :: "publication_env \<Rightarrow> unit act" where
  "remove_attempt E s =
     (let s' = s\<lparr>ps_calls := ps_calls s + 1\<rparr>;
          fs = ps_fs s
      in case pe_fault E (ps_calls s) of
           NoFault \<Rightarrow> (Inr (), s'\<lparr>ps_fs := fs\<lparr>pf_attempt := False, pf_attemptMarker := NoFile, pf_staged := NoDir\<rparr>\<rparr>)
         | FailsBefore \<Rightarrow> (Inl ForeignFault, s')
         | FailsMidway \<Rightarrow> (Inl ForeignFault, s'\<lparr>ps_fs := fs\<lparr>pf_attemptMarker := NoFile, pf_staged := NoDir\<rparr>\<rparr>)
         | FailsAfter \<Rightarrow> (Inl ForeignFault, s'\<lparr>ps_fs := fs\<lparr>pf_attempt := False, pf_attemptMarker := NoFile, pf_staged := NoDir\<rparr>\<rparr>))"

definition cleanup_attempt :: "publication_env \<Rightarrow> publication \<Rightarrow> cleanup_status act" where
  "cleanup_attempt E p =
     act_bind (inspect_publication E p) (\<lambda>x.
     act_bind (act_check (x = AtRepository) AmbiguousState) (\<lambda>_.
     act_bind (act_try (act_bind (assert_attempt_marker E p) (\<lambda>_. act_return True))
        (\<lambda>e. if e = MarkerConflict
             then act_bind (exists_attempt E) (\<lambda>attempt.
                    if attempt then act_fail e else act_return False)
             else act_fail e)) (\<lambda>present.
       if \<not> present then act_return CleanupReplayed
       else act_bind (remove_attempt E) (\<lambda>_.
            act_bind (sync_directory E) (\<lambda>_. act_return Cleaned)))))"

section \<open>Commands\<close>

datatype publication_command = Prepare validated_repository string | Inspect publication
  | Publish publication | Cleanup publication | ClosePublication | RestartPublication

definition close_publication :: "publication_state \<Rightarrow> publication_state" where
  "close_publication s = s\<lparr>ps_closed := True\<rparr>"

text \<open>A new process has an open publication that has not seen the roots.\<close>

definition restart_publication :: "publication_state \<Rightarrow> publication_state" where
  "restart_publication s = s\<lparr>ps_closed := False, ps_roots := None\<rparr>"

fun publication_step :: "publication_env \<Rightarrow> publication_state \<Rightarrow> publication_command \<Rightarrow> publication_state" where
  "publication_step E s (Prepare r k) = snd (prepare_publication E r k s)"
| "publication_step E s (Inspect p) = snd (inspect_publication E p s)"
| "publication_step E s (Publish p) = snd (publish_repository E p s)"
| "publication_step E s (Cleanup p) = snd (cleanup_attempt E p s)"
| "publication_step E s ClosePublication = close_publication s"
| "publication_step E s RestartPublication = restart_publication s"

section \<open>The abstract repository\<close>

text \<open>
  What a publication is about: one repository, with its content and its markers, that is either
  staged or published. A file system in which no repository or two are found has no such view.
\<close>

record abstract_repository =
  ar_place :: place
  ar_content :: string
  ar_validation :: file_node
  ar_marker :: file_node

definition view_of :: "place \<Rightarrow> repository_dir \<Rightarrow> abstract_repository" where
  "view_of x r = \<lparr>ar_place = x, ar_content = rd_content r, ar_validation = rd_validation r,
     ar_marker = rd_publication r\<rparr>"

definition located :: "publication_fs \<Rightarrow> abstract_repository option" where
  "located fs =
     (case (pf_staged fs, pf_published fs) of
        (Dir r, NoDir) \<Rightarrow> Some (view_of AtStaging r)
      | (NoDir, Dir r) \<Rightarrow> Some (view_of AtRepository r)
      | _ \<Rightarrow> None)"

text \<open>A repository that carries the markers of a publication and is intact.\<close>

definition validated :: "publication_env \<Rightarrow> publication \<Rightarrow> abstract_repository \<Rightarrow> bool" where
  "validated E p a \<longleftrightarrow> (\<exists>text. ar_validation a = RegularFile text \<and> pe_digest E text = pb_validationSha p)
     \<and> pe_verify E (ar_content a) (pb_format p) (pb_refs p) (pb_project p) = Intact"

definition sealed :: "publication_env \<Rightarrow> publication \<Rightarrow> abstract_repository \<Rightarrow> bool" where
  "sealed E p a \<longleftrightarrow> ar_marker a = RegularFile (publication_marker_json p) \<and> validated E p a"

inductive abstract_step :: "publication_env \<Rightarrow> abstract_repository \<Rightarrow> publication_command \<Rightarrow> abstract_repository \<Rightarrow> bool"
  for E where
  stays: "abstract_step E a c a"
| seals: "abstract_step E a (Prepare r k) (a\<lparr>ar_marker := RegularFile (publication_marker_json p)\<rparr>)"
    if "prepared_publication E r k = Inr p" and "ar_place a = AtStaging" and "ar_marker a = NoFile" and "validated E p a"
| moves: "abstract_step E a (Publish p) (a\<lparr>ar_place := AtRepository\<rparr>)"
    if "prepared_ok E p" and "ar_place a = AtStaging" and "sealed E p a"

section \<open>Partial correctness\<close>

definition act_spec :: "(publication_fs \<Rightarrow> bool) \<Rightarrow> 'a act \<Rightarrow> ('a \<Rightarrow> publication_fs \<Rightarrow> bool)
    \<Rightarrow> (publication_error \<Rightarrow> publication_fs \<Rightarrow> bool) \<Rightarrow> bool" where
  "act_spec P m Q R \<longleftrightarrow> (\<forall>s. P (ps_fs s) \<longrightarrow>
     (case m s of (Inr a, s') \<Rightarrow> Q a (ps_fs s') | (Inl e, s') \<Rightarrow> R e (ps_fs s')))"

named_theorems act_rules \<open>rules of the specification of actions\<close>

lemma act_specD:
  "act_spec P m Q R \<Longrightarrow> P (ps_fs s) \<Longrightarrow> m s = (Inr a, s') \<Longrightarrow> Q a (ps_fs s')"
  "act_spec P m Q R \<Longrightarrow> P (ps_fs s) \<Longrightarrow> m s = (Inl e, s') \<Longrightarrow> R e (ps_fs s')"
  by (auto simp: act_spec_def split: prod.splits sum.splits)

lemma spec_bind:
  "act_spec P m Q R \<Longrightarrow> (\<And>a. act_spec (Q a) (f a) Q' R) \<Longrightarrow> act_spec P (act_bind m f) Q' R"
  unfolding act_spec_def act_bind_def by (fastforce split: prod.splits sum.splits)

lemma spec_try:
  "act_spec P m Q R' \<Longrightarrow> (\<And>e. act_spec (R' e) (h e) Q R) \<Longrightarrow> act_spec P (act_try m h) Q R"
  unfolding act_spec_def act_try_def by (fastforce split: prod.splits sum.splits)

lemma spec_weaken:
  "act_spec P m Q R \<Longrightarrow> (\<And>fs. P' fs \<Longrightarrow> P fs) \<Longrightarrow> (\<And>a fs. Q a fs \<Longrightarrow> Q' a fs) \<Longrightarrow> (\<And>e fs. R e fs \<Longrightarrow> R' e fs)
    \<Longrightarrow> act_spec P' m Q' R'"
  unfolding act_spec_def by (fastforce split: prod.splits sum.splits)

lemma spec_return: "(\<And>fs. P fs \<Longrightarrow> Q a fs) \<Longrightarrow> act_spec P (act_return a) Q R"
  by (simp add: act_spec_def act_return_def)

lemma spec_fail: "(\<And>fs. P fs \<Longrightarrow> R e fs) \<Longrightarrow> act_spec P (act_fail e) Q R"
  by (simp add: act_spec_def act_fail_def)

lemma spec_check:
  "(\<And>fs. P fs \<Longrightarrow> b \<Longrightarrow> Q () fs) \<Longrightarrow> (\<And>fs. P fs \<Longrightarrow> \<not> b \<Longrightarrow> R e fs) \<Longrightarrow> act_spec P (act_check b e) Q R"
  by (simp add: act_spec_def act_check_def act_return_def act_fail_def)

lemma spec_read:
  "(\<And>fs. P fs \<Longrightarrow> Q (f fs) fs) \<Longrightarrow> (\<And>fs. P fs \<Longrightarrow> R e fs) \<Longrightarrow> act_spec P (fs_read E e f) Q R"
  by (simp add: act_spec_def fs_read_def Let_def)

lemma spec_write:
  "(\<And>fs. P fs \<Longrightarrow> Q () (f fs)) \<Longrightarrow> (\<And>fs. P fs \<Longrightarrow> R e fs \<and> R e (f fs)) \<Longrightarrow> act_spec P (fs_write E e f) Q R"
  by (auto simp: act_spec_def fs_write_def Let_def split: fault.split)

text \<open>Actions that do not change the file system, with what their success tells.\<close>

definition act_reads :: "'a act \<Rightarrow> ('a \<Rightarrow> publication_fs \<Rightarrow> bool) \<Rightarrow> bool" where
  "act_reads m K \<longleftrightarrow> (\<forall>s. ps_fs (snd (m s)) = ps_fs s \<and> (\<forall>a. fst (m s) = Inr a \<longrightarrow> K a (ps_fs s)))"

lemma spec_reads:
  assumes "act_reads m K" and "\<And>a fs. P fs \<Longrightarrow> K a fs \<Longrightarrow> Q a fs" and "\<And>e fs. P fs \<Longrightarrow> R e fs"
  shows "act_spec P m Q R"
  using assms unfolding act_spec_def act_reads_def
  by (auto split: prod.splits sum.splits) (metis fst_conv snd_conv)+

lemma reads_bind:
  assumes "act_reads m K" and "\<And>a. act_reads (f a) (K' a)"
  shows "act_reads (act_bind m f) (\<lambda>b fs. \<exists>a. K a fs \<and> K' a b fs)"
  unfolding act_reads_def
proof
  fix s
  obtain r s1 where m: "m s = (r, s1)" by (cases "m s")
  have r: "ps_fs s1 = ps_fs s" "\<And>a. r = Inr a \<Longrightarrow> K a (ps_fs s)"
    using assms(1) m unfolding act_reads_def by (metis fst_conv snd_conv)+
  show "ps_fs (snd (act_bind m f s)) = ps_fs s
    \<and> (\<forall>b. fst (act_bind m f s) = Inr b \<longrightarrow> (\<exists>a. K a (ps_fs s) \<and> K' a b (ps_fs s)))"
  proof (cases r)
    case (Inr a)
    have "ps_fs (snd (f a s1)) = ps_fs s1" "\<And>b. fst (f a s1) = Inr b \<Longrightarrow> K' a b (ps_fs s1)"
      using assms(2) [of a] unfolding act_reads_def by blast+
    then show ?thesis using m r Inr by (auto simp: act_bind_def)
  qed (use m r in \<open>simp add: act_bind_def\<close>)
qed

lemma reads_return: "act_reads (act_return a) (\<lambda>b fs. b = a)"
  by (simp add: act_reads_def act_return_def)

lemma reads_fail: "act_reads (act_fail e) (\<lambda>b fs. False)"
  by (simp add: act_reads_def act_fail_def)

lemma reads_check: "act_reads (act_check b e) (\<lambda>u fs. b)"
  by (simp add: act_reads_def act_check_def act_return_def act_fail_def)

lemma reads_read: "act_reads (fs_read E e f) (\<lambda>v fs. v = f fs)"
  by (simp add: act_reads_def fs_read_def Let_def)

lemma reads_weaken: "act_reads m K \<Longrightarrow> (\<And>a fs. K a fs \<Longrightarrow> K' a fs) \<Longrightarrow> act_reads m K'"
  unfolding act_reads_def by blast


lemma reads_open: "act_reads assert_open (\<lambda>u fs. True)"
  by (simp add: act_reads_def assert_open_def)

lemma reads_roots: "act_reads (verify_roots E) (\<lambda>u fs. True)"
  by (simp add: act_reads_def verify_roots_def Let_def split: option.split prod.split)

lemma reads_verify:
  "act_reads (verify_repository E f p) (\<lambda>u fs.
     pe_verify E (rd_content (repository_at (f fs))) (pb_format p) (pb_refs p) (pb_project p) = Intact)"
  by (simp add: act_reads_def verify_repository_def split: integrity.split)

lemma reads_canonical: "act_reads (inspect_canonical E) (\<lambda>u fs. True)"
  by (simp add: act_reads_def inspect_canonical_def Let_def)

lemma reads_sync: "act_reads (sync_directory E) (\<lambda>u fs. True)"
  unfolding sync_directory_def by (rule reads_weaken [OF reads_read]) simp

lemma reads_directory: "act_reads (exists_directory E f) (\<lambda>b fs. if b then \<exists>r. f fs = Dir r else f fs = NoDir)"
  unfolding exists_directory_def
  by (rule reads_weaken [OF reads_bind [OF reads_read, where K' = "\<lambda>d b fs. (d = NoDir \<and> \<not> b) \<or> (\<exists>r. d = Dir r) \<and> b"]])
    (auto split: dir_node.split intro: reads_weaken [OF reads_return] reads_weaken [OF reads_fail])

lemma reads_digest:
  "act_reads (assert_file_digest E f sha) (\<lambda>u fs. \<exists>text. f fs = RegularFile text \<and> pe_digest E text = sha)"
  unfolding assert_file_digest_def
  by (rule reads_weaken [OF reads_bind [OF reads_read, where K' = "\<lambda>n u fs. \<exists>text. n = RegularFile text \<and> pe_digest E text = sha"]])
    (auto split: file_node.split intro!: reads_weaken [OF reads_fail]
      reads_weaken [OF reads_bind [OF reads_check reads_bind [OF reads_read reads_check]]])

lemma reads_attempt_marker:
  "act_reads (assert_attempt_marker E p) (\<lambda>u fs. pf_attemptMarker fs = RegularFile (attempt_marker_json p))"
  unfolding assert_attempt_marker_def
  by (rule reads_weaken [OF reads_bind [OF reads_read, where K' = "\<lambda>n u fs. n = RegularFile (attempt_marker_json p)"]])
    (auto split: file_node.split intro!: reads_weaken [OF reads_fail]
      reads_weaken [OF reads_bind [OF reads_check reads_bind [OF reads_read reads_check]]])

lemma reads_markers:
  "act_reads (assert_publication_markers E f p) (\<lambda>u fs.
     (\<exists>text. rd_validation (repository_at (f fs)) = RegularFile text \<and> pe_digest E text = pb_validationSha p)
     \<and> rd_publication (repository_at (f fs)) = RegularFile (publication_marker_json p))"
  unfolding assert_publication_markers_def
  by (rule reads_weaken [OF reads_bind [OF reads_digest reads_bind [OF reads_digest reads_bind [OF reads_read reads_check]]]])
    auto

definition found_at :: "place \<Rightarrow> publication_fs \<Rightarrow> bool" where
  "found_at x fs \<longleftrightarrow> (\<exists>r. place_node x fs = Dir r \<and> located fs = Some (view_of x r))"

lemma reads_observe: "act_reads (observe E) (\<lambda>x fs. found_at x fs)"
  unfolding observe_def
  by (rule reads_weaken [OF reads_bind [OF reads_directory reads_bind [OF reads_directory reads_bind [OF reads_check
        reads_bind [OF reads_check reads_return]]]]])
    (auto simp: found_at_def place_node_def located_def split: if_splits)

lemma reads_inspect:
  "act_reads (inspect_publication E p) (\<lambda>x fs. found_at x fs \<and> prepared_ok E p
     \<and> (\<forall>a. located fs = Some a \<longrightarrow> sealed E p a \<and> ar_place a = x))"
  unfolding inspect_publication_def
  by (rule reads_weaken [OF reads_bind [OF reads_open reads_bind [OF reads_check reads_bind [OF reads_roots
        reads_bind [OF reads_observe reads_bind [OF reads_markers reads_bind [OF reads_verify reads_return]]]]]]])
    (auto simp: found_at_def sealed_def validated_def view_of_def repository_at_def)


section \<open>The operations implement the abstract steps\<close>

lemma located_in_staged:
  "(\<And>r. view_of AtStaging (f r) = view_of AtStaging r) \<Longrightarrow> located (in_staged f fs) = located fs"
  by (cases "pf_staged fs") (simp_all add: located_def in_staged_def split: dir_node.split)

lemma located_part [simp]: "located (in_staged (rd_part_update g) fs) = located fs"
  by (rule located_in_staged) (simp add: view_of_def)

lemma located_project [simp]: "located (pf_project_update g fs) = located fs"
  by (simp add: located_def)

lemma located_staging:
  "located fs = Some a \<Longrightarrow> ar_place a = AtStaging \<Longrightarrow> \<exists>r. pf_staged fs = Dir r \<and> pf_published fs = NoDir \<and> a = view_of AtStaging r"
  by (auto simp: located_def view_of_def split: dir_node.splits)

lemma located_published:
  "located fs = Some a \<Longrightarrow> ar_place a = AtRepository \<Longrightarrow> \<exists>r. pf_staged fs = NoDir \<and> pf_published fs = Dir r \<and> a = view_of AtRepository r"
  by (auto simp: located_def view_of_def split: dir_node.splits)

lemma staged_part_update [simp]:
  "pf_staged fs = Dir r \<Longrightarrow> staged_part (in_staged (rd_part_update g) fs) = g (rd_part r)"
  by (simp add: staged_part_def in_staged_def repository_at_def)

lemma spec_remove_part:
  "act_spec (\<lambda>fs. located fs = Some a) (remove_owned_part E) (\<lambda>u fs. located fs = Some a) (\<lambda>e fs. located fs = Some a)"
  unfolding remove_owned_part_def
  by (rule spec_bind [where Q = "\<lambda>n fs. located fs = Some a"])
    (auto intro!: spec_read spec_return spec_fail spec_write split: file_node.split)

lemma spec_write_marker:
  assumes a: "ar_place a = AtStaging"
  shows "act_spec (\<lambda>fs. located fs = Some a) (write_marker E p)
    (\<lambda>u fs. located fs = Some (a\<lparr>ar_marker := RegularFile (publication_marker_json p)\<rparr>))
    (\<lambda>e fs. located fs = Some a \<or> located fs = Some (a\<lparr>ar_marker := RegularFile (publication_marker_json p)\<rparr>))"
proof -
  let ?b = "a\<lparr>ar_marker := RegularFile (publication_marker_json p)\<rparr>"
  let ?R = "\<lambda>(e::publication_error) fs. located fs = Some a \<or> located fs = Some ?b"
  let ?part = "\<lambda>t fs. located fs = Some a \<and> staged_part fs = RegularFile t"
  have part: "?part t (in_staged (rd_part_update (\<lambda>_. RegularFile t)) fs)" if "located fs = Some a" for t fs
    using that located_staging [OF that a] by auto
  have moved: "located (in_staged (\<lambda>r. r\<lparr>rd_publication := rd_part r, rd_part := NoFile\<rparr>) fs) = Some ?b"
    if l: "?part (publication_marker_json p) fs" for fs
  proof -
    obtain r where "pf_staged fs = Dir r" "pf_published fs = NoDir" "a = view_of AtStaging r"
      using located_staging [OF _ a] l by blast
    then show ?thesis using l by (simp add: located_def in_staged_def view_of_def staged_part_def repository_at_def)
  qed
  have opens: "act_spec (\<lambda>fs. located fs = Some a) (open_part E) (\<lambda>u. ?part []) ?R"
    using part [of _ "[]"] by (auto simp: act_spec_def open_part_def fs_write_def Let_def split: fault.split)
  have body: "act_spec (\<lambda>fs. located fs = Some a)
      (act_bind (open_part E) (\<lambda>_.
        act_bind (fs_write E StorageUnavailable
            (in_staged (rd_part_update (\<lambda>_. RegularFile (publication_marker_json p))))) (\<lambda>_.
        act_bind (sync_directory E) (\<lambda>_.
        act_bind (fs_write E StorageUnavailable (in_staged (\<lambda>r. r\<lparr>rd_publication := rd_part r, rd_part := NoFile\<rparr>))) (\<lambda>_.
          sync_directory E))))) (\<lambda>u fs. located fs = Some ?b) ?R"
    by (rule spec_bind [OF opens], rule spec_bind [where Q = "\<lambda>u. ?part (publication_marker_json p)"],
        rule spec_write, use part in blast, simp,
        rule spec_bind [OF spec_reads [OF reads_sync, where Q = "\<lambda>u. ?part (publication_marker_json p)"]], simp, simp,
        rule spec_bind [where Q = "\<lambda>u fs. located fs = Some ?b"], rule spec_write, use moved in blast, use moved in blast,
        rule spec_reads [OF reads_sync]) simp_all
  show ?thesis
    unfolding write_marker_def
  proof (rule spec_try [OF body])
    fix e
    show "act_spec (?R e)
      (act_bind (act_try (fs_write E StorageUnavailable (in_staged (rd_part_update (\<lambda>_. NoFile)))) (\<lambda>_. act_return ()))
        (\<lambda>_. act_fail StorageUnavailable)) (\<lambda>u fs. located fs = Some ?b) ?R"
      by (rule spec_bind [where Q = "\<lambda>u fs. located fs = Some a \<or> located fs = Some ?b"],
          rule spec_try [where R' = "\<lambda>e fs. located fs = Some a \<or> located fs = Some ?b"])
        (auto intro!: spec_write spec_return spec_fail)
  qed
qed

abbreviation reaches :: "publication_env \<Rightarrow> abstract_repository \<Rightarrow> publication_command \<Rightarrow> publication_fs \<Rightarrow> bool" where
  "reaches E a c fs \<equiv> \<exists>a'. located fs = Some a' \<and> abstract_step E a c a'"

lemma reads_sync_placement: "act_reads (sync_placement E) (\<lambda>u fs. True)"
proof -
  have "act_reads (if b then sync_directory E else act_return ()) (\<lambda>u fs. True)" for b
    by (cases b) (simp_all add: reads_sync reads_weaken [OF reads_return])
  from reads_bind [OF this reads_sync]
  have "act_reads (act_bind (if b then sync_directory E else act_return ()) (\<lambda>_. sync_directory E)) (\<lambda>u fs. True)" for b
    by (rule reads_weaken) simp
  from reads_bind [OF reads_sync reads_bind [OF reads_read this]] show ?thesis
    unfolding sync_placement_def exists_attempt_def by (rule reads_weaken) simp
qed

lemma refine_publish:
  "act_spec (\<lambda>fs. located fs = Some a) (publish_repository E p)
     (\<lambda>st fs. \<exists>a'. located fs = Some a' \<and> abstract_step E a (Publish p) a' \<and> ar_place a' = AtRepository \<and> sealed E p a')
     (\<lambda>e fs. reaches E a (Publish p) fs)"
proof -
  let ?b = "a\<lparr>ar_place := AtRepository\<rparr>"
  let ?R = "\<lambda>(e::publication_error) fs. reaches E a (Publish p) fs"
  let ?Q = "\<lambda>(st::publish_status) fs. \<exists>a'. located fs = Some a' \<and> abstract_step E a (Publish p) a' \<and> ar_place a' = AtRepository \<and> sealed E p a'"
  have first: "act_spec (\<lambda>fs. located fs = Some a) (inspect_publication E p)
      (\<lambda>x fs. located fs = Some a \<and> prepared_ok E p \<and> sealed E p a \<and> ar_place a = x) ?R"
    by (rule spec_reads [OF reads_inspect]) (auto intro: stays)
  have sync: "act_spec P (sync_placement E) (\<lambda>u. P) ?R" if "\<And>fs. P fs \<Longrightarrow> reaches E a (Publish p) fs" for P
    by (rule spec_reads [OF reads_sync_placement]) (use that in auto)
  show ?thesis
    unfolding publish_repository_def
  proof (rule spec_bind [OF first])
    fix x
    show "act_spec (\<lambda>fs. located fs = Some a \<and> prepared_ok E p \<and> sealed E p a \<and> ar_place a = x) (case x of
         AtRepository \<Rightarrow> act_bind (sync_placement E) (\<lambda>_. act_return PublishReplayed)
       | AtStaging \<Rightarrow>
           act_bind (fs_write E StorageUnavailable (pf_project_update (\<lambda>_. True))) (\<lambda>_.
           act_bind (sync_directory E) (\<lambda>_.
           act_bind (inspect_canonical E) (\<lambda>_.
           act_bind (act_try (rename_repository E)
              (\<lambda>_. act_bind (act_try (inspect_publication E p) (\<lambda>_. act_fail StorageUnavailable)) (\<lambda>y.
                   act_check (y = AtRepository) StorageUnavailable))) (\<lambda>_.
           act_bind (sync_placement E) (\<lambda>_.
           act_bind (inspect_publication E p) (\<lambda>y.
           act_bind (act_check (y = AtRepository) StorageUnavailable) (\<lambda>_.
             act_return Published)))))))) ?Q ?R"
    proof (cases x)
      case AtRepository
      then show ?thesis
        by (auto intro!: spec_bind [OF sync] spec_return intro: stays)
    next
      case AtStaging
      let ?P = "\<lambda>fs. located fs = Some a \<and> prepared_ok E p \<and> sealed E p a \<and> ar_place a = AtStaging"
      let ?M = "\<lambda>fs. located fs = Some ?b \<and> prepared_ok E p \<and> sealed E p a \<and> ar_place a = AtStaging"
      let ?PM = "\<lambda>fs. ?P fs \<or> ?M fs"
      have R: "reaches E a (Publish p) fs" if "?PM fs" for fs
        using that by (auto intro: stays moves)
      have sealed_b: "sealed E p ?b" if "sealed E p a" using that by (simp add: sealed_def validated_def)
      have move: "?M (move_repository fs)" if "?P fs" for fs
        using located_staging [of fs a] that by (auto simp: located_def move_repository_def view_of_def)
      have rename: "act_spec ?P (rename_repository E) (\<lambda>u. ?M) (\<lambda>e. ?PM)"
        using move by (auto simp: act_spec_def rename_repository_def fs_write_def Let_def split: fault.split)
      have again: "act_spec ?PM (inspect_publication E p) (\<lambda>y fs. ?PM fs \<and> (y = AtRepository \<longrightarrow> ?M fs)) (\<lambda>e. ?PM)"
        by (rule spec_reads [OF reads_inspect]) auto
      have handler: "act_spec ?PM (act_bind (act_try (inspect_publication E p) (\<lambda>_. act_fail StorageUnavailable)) (\<lambda>y.
                   act_check (y = AtRepository) StorageUnavailable)) (\<lambda>u. ?M) ?R"
        by (rule spec_bind [where Q = "\<lambda>y fs. ?PM fs \<and> (y = AtRepository \<longrightarrow> ?M fs)"], rule spec_try [OF again])
          (use R in \<open>auto intro!: spec_fail spec_check\<close>)
      have last: "act_spec ?M (act_bind (inspect_publication E p) (\<lambda>y.
           act_bind (act_check (y = AtRepository) StorageUnavailable) (\<lambda>_. act_return Published))) ?Q ?R"
      proof (rule spec_bind [where Q = "\<lambda>y. ?M"])
        show "act_spec ?M (inspect_publication E p) (\<lambda>y. ?M) ?R"
          by (rule spec_reads [OF reads_inspect]) (use R in blast)+
        show "act_spec ?M (act_bind (act_check (y = AtRepository) StorageUnavailable) (\<lambda>_. act_return Published)) ?Q ?R" for y
          by (rule spec_bind [where Q = "\<lambda>u. ?M"])
            (auto intro!: spec_check spec_return intro: moves sealed_b stays)
      qed
      have "act_spec ?P (act_bind (fs_write E StorageUnavailable (pf_project_update (\<lambda>_. True))) (\<lambda>_.
           act_bind (sync_directory E) (\<lambda>_.
           act_bind (inspect_canonical E) (\<lambda>_.
           act_bind (act_try (rename_repository E)
              (\<lambda>_. act_bind (act_try (inspect_publication E p) (\<lambda>_. act_fail StorageUnavailable)) (\<lambda>y.
                   act_check (y = AtRepository) StorageUnavailable))) (\<lambda>_.
           act_bind (sync_placement E) (\<lambda>_.
           act_bind (inspect_publication E p) (\<lambda>y.
           act_bind (act_check (y = AtRepository) StorageUnavailable) (\<lambda>_.
             act_return Published)))))))) ?Q ?R"
        by (rule spec_bind [where Q = "\<lambda>u. ?P"], rule spec_write, simp, use R in force,
            rule spec_bind [where Q = "\<lambda>u. ?P"], rule spec_reads [OF reads_sync], simp, use R in blast,
            rule spec_bind [where Q = "\<lambda>u. ?P"], rule spec_reads [OF reads_canonical], simp, use R in blast,
            rule spec_bind [OF spec_try [OF rename handler]],
            rule spec_bind [OF sync], use R in blast, rule last)
      then show ?thesis using AtStaging by simp
    qed
  qed
qed


definition sealed_by :: "publication_env \<Rightarrow> abstract_repository \<Rightarrow> validated_repository \<Rightarrow> string
    \<Rightarrow> publication \<Rightarrow> publication_fs \<Rightarrow> bool" where
  "sealed_by E a r k p fs \<longleftrightarrow> (\<exists>a'. located fs = Some a' \<and> abstract_step E a (Prepare r k) a'
     \<and> prepared_publication E r k = Inr p \<and> sealed E p a')"

lemma refine_prepare_published:
  assumes p: "prepared_publication E r k = Inr p"
  shows "act_spec (\<lambda>fs. located fs = Some a \<and> ar_place a = AtRepository) (prepare_published E p)
    (sealed_by E a r k) (\<lambda>e. reaches E a (Prepare r k))"
  unfolding prepare_published_def
proof (rule spec_reads [OF reads_bind [OF reads_markers reads_bind [OF reads_verify reads_return]]])
  fix q fs
  assume l: "located fs = Some a \<and> ar_place a = AtRepository"
    and k: "\<exists>u. ((\<exists>text. rd_validation (repository_at (pf_published fs)) = RegularFile text \<and> pe_digest E text = pb_validationSha p)
      \<and> rd_publication (repository_at (pf_published fs)) = RegularFile (publication_marker_json p))
      \<and> (\<exists>u. pe_verify E (rd_content (repository_at (pf_published fs))) (pb_format p) (pb_refs p) (pb_project p) = Intact \<and> q = p)"
  obtain d where d: "pf_published fs = Dir d" "a = view_of AtRepository d" using located_published [of fs a] l by blast
  have "sealed E p a" using k d by (auto simp: sealed_def validated_def view_of_def repository_at_def)
  then show "sealed_by E a r k q fs" using l k p unfolding sealed_by_def by (auto intro: stays)
qed (auto intro: stays)

lemma refine_prepare_staged:
  assumes p: "prepared_publication E r k = Inr p" and stg: "ar_place a = AtStaging"
  shows "act_spec (\<lambda>fs. located fs = Some a) (prepare_staged E p) (sealed_by E a r k) (\<lambda>e. reaches E a (Prepare r k))"
proof -
  let ?R = "\<lambda>(e::publication_error). reaches E a (Prepare r k)"
  let ?L = "\<lambda>fs. located fs = Some a"
  let ?D = "\<exists>text. ar_validation a = RegularFile text \<and> pe_digest E text = pb_validationSha p"
  have R: "?R e fs" if "?L fs" for e fs using that stays by blast
  have staged: "pf_staged fs = Dir d \<Longrightarrow> ?L fs \<Longrightarrow> a = view_of AtStaging d" for fs d
    using located_staging [OF _ stg] by fastforce
  have dir: "\<exists>d. pf_staged fs = Dir d" if "?L fs" for fs using located_staging [OF that stg] by blast
  have digest: "act_spec ?L (assert_file_digest E (\<lambda>fs. rd_validation (repository_at (pf_staged fs))) (pb_validationSha p))
      (\<lambda>u fs. ?L fs \<and> ?D) ?R"
    by (rule spec_reads [OF reads_digest])
      (use R dir staged in \<open>fastforce simp: view_of_def repository_at_def\<close>)+
  have verify: "act_spec (\<lambda>fs. ?L fs \<and> ?D) (verify_repository E pf_staged p) (\<lambda>u fs. ?L fs \<and> validated E p a) ?R"
    by (rule spec_reads [OF reads_verify])
      (use R dir staged in \<open>fastforce simp: validated_def view_of_def repository_at_def\<close>)+
  have marker: "act_spec (\<lambda>fs. ?L fs \<and> validated E p a)
      (fs_read E MarkerConflict (\<lambda>fs. rd_publication (repository_at (pf_staged fs))))
      (\<lambda>n fs. ?L fs \<and> validated E p a \<and> ar_marker a = n) ?R"
    by (rule spec_read) (use R dir staged in \<open>fastforce simp: view_of_def repository_at_def\<close>)+
  have part: "act_spec (\<lambda>fs. ?L fs \<and> G) (remove_owned_part E) (\<lambda>u fs. ?L fs \<and> G) ?R" for G
  proof (cases G)
    case True
    then show ?thesis using spec_weaken [OF spec_remove_part [of a E]] R by simp
  qed (simp add: act_spec_def)
  have replayed: "act_spec (\<lambda>fs. ?L fs \<and> validated E p a \<and> ar_marker a = RegularFile t)
      (act_bind (fs_read E MarkerConflict (\<lambda>_. ())) (\<lambda>_.
       act_bind (act_check (t = publication_marker_json p) MarkerConflict) (\<lambda>_.
       act_bind (remove_owned_part E) (\<lambda>_. act_return p)))) (sealed_by E a r k) ?R" for t
    by (rule spec_bind [where Q = "\<lambda>u fs. ?L fs \<and> validated E p a \<and> ar_marker a = RegularFile t"],
        rule spec_read, simp, use R in blast,
        rule spec_bind [where Q = "\<lambda>u fs. ?L fs \<and> sealed E p a"], rule spec_check, simp add: sealed_def, use R in blast,
        rule spec_bind [OF part], rule spec_return)
      (use p stays in \<open>auto simp: sealed_by_def\<close>)
  have written: "act_spec (\<lambda>fs. ?L fs \<and> validated E p a \<and> ar_marker a = NoFile)
      (act_bind (remove_owned_part E) (\<lambda>_. act_bind (write_marker E p) (\<lambda>_. act_return p))) (sealed_by E a r k) ?R"
  proof (cases "validated E p a \<and> ar_marker a = NoFile")
    case True
    let ?b = "a\<lparr>ar_marker := RegularFile (publication_marker_json p)\<rparr>"
    have b: "abstract_step E a (Prepare r k) ?b" "sealed E p ?b"
      using True seals [OF p stg] by (simp_all add: sealed_def validated_def)
    have "act_spec ?L (write_marker E p) (\<lambda>u. sealed_by E a r k p) ?R"
      by (rule spec_weaken [OF spec_write_marker [OF stg, of E p]]) (use b p stays in \<open>auto simp: sealed_by_def\<close>)
    then have "act_spec ?L (act_bind (remove_owned_part E) (\<lambda>_. act_bind (write_marker E p) (\<lambda>_. act_return p)))
        (sealed_by E a r k) ?R"
      by (intro spec_bind [where Q = "\<lambda>u. ?L"] spec_bind [where Q = "\<lambda>u. sealed_by E a r k p"])
        (use part [of True] in \<open>auto intro: spec_return\<close>)
    then show ?thesis by (rule spec_weaken) auto
  next
    case False
    then have none: "\<not> (?L fs \<and> validated E p a \<and> ar_marker a = NoFile)" for fs by blast
    show ?thesis unfolding act_spec_def using none by blast
  qed
  show ?thesis
    unfolding prepare_staged_def
  proof (rule spec_bind [OF spec_reads [OF reads_attempt_marker, where Q = "\<lambda>u. ?L"]],
      goal_cases)
    case 3
    show ?case
    proof (rule spec_bind [OF digest], rule spec_bind [OF verify], rule spec_bind [OF marker])
      fix n
      show "act_spec (\<lambda>fs. ?L fs \<and> validated E p a \<and> ar_marker a = n) (case n of
         OtherFile \<Rightarrow> act_fail MarkerConflict
       | RegularFile text \<Rightarrow>
           act_bind (fs_read E MarkerConflict (\<lambda>_. ())) (\<lambda>_.
           act_bind (act_check (text = publication_marker_json p) MarkerConflict) (\<lambda>_.
           act_bind (remove_owned_part E) (\<lambda>_. act_return p)))
       | NoFile \<Rightarrow>
           act_bind (remove_owned_part E) (\<lambda>_.
           act_bind (write_marker E p) (\<lambda>_. act_return p))) (sealed_by E a r k) ?R"
        using replayed written R by (cases n) (auto intro!: spec_fail)
    qed
  qed (use R in auto)
qed

lemma refine_prepare:
  "act_spec (\<lambda>fs. located fs = Some a) (prepare_publication E r k) (sealed_by E a r k) (\<lambda>e. reaches E a (Prepare r k))"
proof -
  let ?L = "\<lambda>fs. located fs = Some a"
  let ?R = "\<lambda>(e::publication_error). reaches E a (Prepare r k)"
  have R: "?R e fs" if "?L fs" for e fs using that stays by blast
  have body: "act_spec ?L (case prepared_publication E r k of
         Inl e \<Rightarrow> act_fail e
       | Inr p \<Rightarrow>
           act_bind (verify_roots E) (\<lambda>_.
           act_bind (observe E) (\<lambda>x.
             case x of AtRepository \<Rightarrow> prepare_published E p | AtStaging \<Rightarrow> prepare_staged E p))) (sealed_by E a r k) ?R"
  proof (cases "prepared_publication E r k")
    case (Inr p)
    have "act_spec (\<lambda>fs. ?L fs \<and> ar_place a = x) (case x of AtRepository \<Rightarrow> prepare_published E p
        | AtStaging \<Rightarrow> prepare_staged E p) (sealed_by E a r k) ?R" for x
    proof (cases x)
      case AtStaging
      then show ?thesis using refine_prepare_staged [OF Inr, of a]
        by (cases "ar_place a = AtStaging") (simp_all add: act_spec_def)
    qed (use refine_prepare_published [OF Inr, of a] in simp)
    then have "act_spec ?L (act_bind (verify_roots E) (\<lambda>_. act_bind (observe E) (\<lambda>x.
        case x of AtRepository \<Rightarrow> prepare_published E p | AtStaging \<Rightarrow> prepare_staged E p))) (sealed_by E a r k) ?R"
      by (intro spec_bind [OF spec_reads [OF reads_roots, where Q = "\<lambda>u. ?L"]]
          spec_bind [OF spec_reads [OF reads_observe, where Q = "\<lambda>x fs. ?L fs \<and> ar_place a = x"]])
        (use R in \<open>auto simp: found_at_def view_of_def\<close>)
    then show ?thesis using Inr by simp
  next
    case (Inl e)
    then show ?thesis using R by (auto intro!: spec_fail)
  qed
  show ?thesis
    unfolding prepare_publication_def
    by (rule spec_bind [OF spec_reads [OF reads_open, where Q = "\<lambda>u. ?L"] body]) (use R in auto)
qed


lemma refine_inspect:
  "act_spec (\<lambda>fs. located fs = Some a) (inspect_publication E p) (\<lambda>x. reaches E a c) (\<lambda>e. reaches E a c)"
  by (rule spec_reads [OF reads_inspect]) (auto intro: stays)

lemma refine_cleanup:
  "act_spec (\<lambda>fs. located fs = Some a) (cleanup_attempt E p) (\<lambda>x. reaches E a c) (\<lambda>e. reaches E a c)"
proof -
  let ?P = "\<lambda>fs. located fs = Some a \<and> ar_place a = AtRepository"
  let ?R = "\<lambda>(e::publication_error). reaches E a c"
  have R: "reaches E a c fs" if "located fs = Some a" for fs using that stays by blast
  have marker: "act_spec ?P (act_bind (assert_attempt_marker E p) (\<lambda>_. act_return True)) (\<lambda>b. ?P) (\<lambda>e. ?P)"
    by (rule spec_reads [OF reads_bind [OF reads_attempt_marker reads_return]]) auto
  have handler: "act_spec ?P (if e = MarkerConflict
             then act_bind (exists_attempt E) (\<lambda>attempt. if attempt then act_fail e else act_return False)
             else act_fail e) (\<lambda>b. ?P) ?R" for e
    using R by (auto simp: exists_attempt_def intro!: spec_fail spec_return spec_bind [where Q = "\<lambda>b. ?P"] spec_read)
  have remove: "act_spec ?P (remove_attempt E) (\<lambda>u fs. located fs = Some a) ?R"
  proof -
    have "located (fs\<lparr>pf_attempt := b, pf_attemptMarker := m, pf_staged := NoDir\<rparr>) = Some a"
      "located (fs\<lparr>pf_attemptMarker := m, pf_staged := NoDir\<rparr>) = Some a" if "?P fs" for fs b m
      using located_published [of fs a] that by (auto simp: located_def view_of_def)
    then show ?thesis using R by (auto simp: act_spec_def remove_attempt_def Let_def intro: stays split: fault.split)
  qed
  have rest: "act_spec ?P (if \<not> present then act_return CleanupReplayed
       else act_bind (remove_attempt E) (\<lambda>_. act_bind (sync_directory E) (\<lambda>_. act_return Cleaned))) (\<lambda>x. reaches E a c) ?R" for present
  proof (cases present)
    case True
    have "act_spec ?P (act_bind (remove_attempt E) (\<lambda>_. act_bind (sync_directory E) (\<lambda>_. act_return Cleaned))) (\<lambda>x. reaches E a c) ?R"
      by (rule spec_bind [OF remove], rule spec_bind [OF spec_reads [OF reads_sync, where Q = "\<lambda>u fs. located fs = Some a"]])
        (use R in \<open>auto intro!: spec_return\<close>)
    then show ?thesis using True by simp
  next
    case False
    then show ?thesis using R by (auto intro!: spec_return)
  qed
  show ?thesis
    unfolding cleanup_attempt_def
    by (rule spec_bind [OF spec_reads [OF reads_inspect, where Q = "\<lambda>x fs. located fs = Some a \<and> ar_place a = x"]],
        force, use R in blast, rule spec_bind [where Q = "\<lambda>u. ?P"], rule spec_check, simp, use R in blast,
        rule spec_bind [OF spec_try [OF marker handler] rest])
qed

lemma command_refines:
  assumes l: "located (ps_fs s) = Some a"
  shows "reaches E a c (ps_fs (publication_step E s c))"
proof -
  have res: "reaches E a c (ps_fs (snd (m s)))"
    if "act_spec (\<lambda>fs. located fs = Some a) m Q (\<lambda>e. reaches E a c)" "\<And>x fs. Q x fs \<Longrightarrow> reaches E a c fs" for m Q
    using that l unfolding act_spec_def by (cases "m s"; cases "fst (m s)") force+
  show ?thesis
  proof (cases c)
    case (Prepare r k)
    then show ?thesis using res [OF refine_prepare [of a E r k, folded Prepare]] by (auto simp: sealed_by_def)
  next
    case (Inspect p)
    then show ?thesis using res [OF refine_inspect] by simp
  next
    case (Publish p)
    then show ?thesis using res [OF refine_publish [of a E p, folded Publish]] by auto
  next
    case (Cleanup p)
    then show ?thesis using res [OF refine_cleanup] by simp
  qed (use l in \<open>auto simp: close_publication_def restart_publication_def intro: stays\<close>)
qed


section \<open>Total correctness without faults\<close>

definition calm :: "publication_env \<Rightarrow> publication_state \<Rightarrow> bool" where
  "calm E s \<longleftrightarrow> \<not> ps_closed s \<and> (\<exists>r t. fst r = fst t \<and> (ps_roots s = None \<or> ps_roots s = Some (r, t))
     \<and> (\<forall>n\<ge>ps_calls s. pe_fault E n = NoFault \<and> pe_canonical E n \<and> pe_roots E n = Some (r, t)))"

definition act_total :: "publication_env \<Rightarrow> (publication_fs \<Rightarrow> bool) \<Rightarrow> 'a act \<Rightarrow> ('a \<Rightarrow> publication_fs \<Rightarrow> bool) \<Rightarrow> bool" where
  "act_total E P m Q \<longleftrightarrow> (\<forall>s. calm E s \<longrightarrow> P (ps_fs s) \<longrightarrow>
     (\<exists>a s'. m s = (Inr a, s') \<and> calm E s' \<and> Q a (ps_fs s')))"

lemma calm_next: "calm E s \<Longrightarrow> calm E (s\<lparr>ps_calls := ps_calls s + 1\<rparr>)"
  unfolding calm_def by (auto dest: Suc_leD)

lemma calm_fs [simp]: "calm E (s\<lparr>ps_calls := n, ps_fs := fs\<rparr>) = calm E (s\<lparr>ps_calls := n\<rparr>)"
  by (simp add: calm_def)

lemma calmD: "calm E s \<Longrightarrow> pe_fault E (ps_calls s) = NoFault" "calm E s \<Longrightarrow> pe_canonical E (ps_calls s)"
  "calm E s \<Longrightarrow> \<not> ps_closed s"
  unfolding calm_def by auto

lemma total_bind:
  "act_total E P m Q \<Longrightarrow> (\<And>a. act_total E (Q a) (f a) Q') \<Longrightarrow> act_total E P (act_bind m f) Q'"
  unfolding act_total_def act_bind_def by fastforce

lemma total_try: "act_total E P m Q \<Longrightarrow> act_total E P (act_try m h) Q"
  unfolding act_total_def act_try_def by fastforce

lemma total_weaken:
  "act_total E P m Q \<Longrightarrow> (\<And>fs. P' fs \<Longrightarrow> P fs) \<Longrightarrow> (\<And>a fs. Q a fs \<Longrightarrow> Q' a fs) \<Longrightarrow> act_total E P' m Q'"
  unfolding act_total_def by blast

lemma total_return: "(\<And>fs. P fs \<Longrightarrow> Q a fs) \<Longrightarrow> act_total E P (act_return a) Q"
  by (simp add: act_total_def act_return_def)

lemma total_check: "(\<And>fs. P fs \<Longrightarrow> b \<and> Q () fs) \<Longrightarrow> act_total E P (act_check b e) Q"
  by (auto simp: act_total_def act_check_def act_return_def act_fail_def)

lemma total_read: "(\<And>fs. P fs \<Longrightarrow> Q (f fs) fs) \<Longrightarrow> act_total E P (fs_read E e f) Q"
  by (auto simp: act_total_def fs_read_def Let_def calm_next [simplified] calmD)

lemma total_write: "(\<And>fs. P fs \<Longrightarrow> Q () (f fs)) \<Longrightarrow> act_total E P (fs_write E e f) Q"
  by (auto simp: act_total_def fs_write_def Let_def calm_next [simplified] calmD)

lemma total_open: "(\<And>fs. P fs \<Longrightarrow> Q () fs) \<Longrightarrow> act_total E P assert_open Q"
  by (auto simp: act_total_def assert_open_def calmD)

lemma total_canonical: "(\<And>fs. P fs \<Longrightarrow> Q () fs) \<Longrightarrow> act_total E P (inspect_canonical E) Q"
  by (auto simp: act_total_def inspect_canonical_def Let_def calm_next [simplified] calmD)

lemma total_roots: "(\<And>fs. P fs \<Longrightarrow> Q () fs) \<Longrightarrow> act_total E P (verify_roots E) Q"
  unfolding act_total_def
proof (intro allI impI)
  fix s
  assume q: "\<And>fs. P fs \<Longrightarrow> Q () fs" and c: "calm E s" and p: "P (ps_fs s)"
  obtain r t where r: "fst r = fst t" "ps_roots s = None \<or> ps_roots s = Some (r, t)"
    "\<forall>n\<ge>ps_calls s. pe_fault E n = NoFault \<and> pe_canonical E n \<and> pe_roots E n = Some (r, t)"
    using c unfolding calm_def by blast
  have "calm E (s\<lparr>ps_calls := Suc (ps_calls s), ps_roots := Some (r, t)\<rparr>)"
    using c r by (auto simp: calm_def)
  moreover have "calm E (s\<lparr>ps_calls := Suc (ps_calls s)\<rparr>)" using calm_next [OF c] by simp
  ultimately show "\<exists>a s'. verify_roots E s = (Inr a, s') \<and> calm E s' \<and> Q a (ps_fs s')"
    using r q p by (auto simp: verify_roots_def Let_def)
qed

lemma total_verify:
  "(\<And>fs. P fs \<Longrightarrow> pe_verify E (rd_content (repository_at (f fs))) (pb_format p) (pb_refs p) (pb_project p) = Intact \<and> Q () fs)
    \<Longrightarrow> act_total E P (verify_repository E f p) Q"
  by (auto simp: act_total_def verify_repository_def)

lemma total_sync: "(\<And>fs. P fs \<Longrightarrow> Q () fs) \<Longrightarrow> act_total E P (sync_directory E) Q"
  unfolding sync_directory_def by (rule total_read)

lemma total_directory:
  assumes "\<And>fs. P fs \<Longrightarrow> f fs \<noteq> OtherDir \<and> Q (f fs \<noteq> NoDir) fs"
  shows "act_total E P (exists_directory E f) Q"
  unfolding exists_directory_def
proof (rule total_bind [where Q = "\<lambda>d fs. P fs \<and> d = f fs"])
  show "act_total E (\<lambda>fs. P fs \<and> d = f fs) (case d of NoDir \<Rightarrow> act_return False | Dir r \<Rightarrow> act_return True
      | OtherDir \<Rightarrow> act_fail MarkerConflict) Q" for d
  proof (cases d)
    case OtherDir
    have "\<not> (P fs \<and> OtherDir = f fs)" for fs using assms by force
    then show ?thesis unfolding OtherDir act_total_def by blast
  next
    case NoDir
    have "Q False fs" if "P fs \<and> NoDir = f fs" for fs using assms [of fs] that by auto
    then show ?thesis using NoDir by (auto intro!: total_return)
  next
    case (Dir r)
    have "Q True fs" if "P fs \<and> Dir r = f fs" for fs
    proof -
      have "(f fs \<noteq> NoDir) = True" using that by (metis dir_node.distinct(1))
      then show ?thesis using assms [of fs] that by metis
    qed
    then show ?thesis using Dir by (auto intro!: total_return)
  qed
qed (simp add: total_read)

lemma total_digest:
  assumes "\<And>fs. P fs \<Longrightarrow> \<exists>t. f fs = RegularFile t \<and> int (length t) \<le> 1024 * 1024 \<and> pe_digest E t = sha \<and> Q () fs"
  shows "act_total E P (assert_file_digest E f sha) Q"
  unfolding assert_file_digest_def
proof (rule total_bind [where Q = "\<lambda>n fs. P fs \<and> n = f fs"])
  show "act_total E (\<lambda>fs. P fs \<and> n = f fs) (case n of
         RegularFile text \<Rightarrow>
           act_bind (act_check (\<not> int (length text) > 1024 * 1024) MarkerConflict) (\<lambda>_.
           act_bind (fs_read E MarkerConflict (\<lambda>_. ())) (\<lambda>_. act_check (pe_digest E text = sha) MarkerConflict))
       | _ \<Rightarrow> act_fail MarkerConflict) Q" for n
  proof (cases n)
    case (RegularFile t)
    then show ?thesis using assms
      by (auto intro!: total_bind [where Q = "\<lambda>u fs. P fs \<and> n = f fs"] total_check total_read) force+
  qed (use assms in \<open>force simp: act_total_def\<close>)+
qed (simp add: total_read)


lemma total_attempt_marker:
  assumes "\<And>fs. P fs \<Longrightarrow> pf_attemptMarker fs = RegularFile (attempt_marker_json p) \<and> Q () fs"
  shows "act_total E P (assert_attempt_marker E p) Q"
  unfolding assert_attempt_marker_def
proof (rule total_bind [where Q = "\<lambda>n fs. P fs \<and> n = RegularFile (attempt_marker_json p)"])
  show "act_total E P (fs_read E MarkerConflict pf_attemptMarker) (\<lambda>n fs. P fs \<and> n = RegularFile (attempt_marker_json p))"
    using assms by (simp add: total_read)
  show "act_total E (\<lambda>fs. P fs \<and> n = RegularFile (attempt_marker_json p)) (case n of
         RegularFile text \<Rightarrow>
           act_bind (act_check (length text = length (attempt_marker_json p)) MarkerConflict) (\<lambda>_.
           act_bind (fs_read E MarkerConflict (\<lambda>_. ())) (\<lambda>_.
             act_check (text = attempt_marker_json p) MarkerConflict))
       | _ \<Rightarrow> act_fail MarkerConflict) Q" for n
  proof (cases "n = RegularFile (attempt_marker_json p)")
    case True
    then show ?thesis using assms
      by (auto intro!: total_bind [where Q = "\<lambda>u. P"] total_check total_read)
  qed (simp add: act_total_def)
qed

text \<open>A repository that only waits for the publication \<open>p\<close>, whatever has been tried before.\<close>

definition sound :: "publication_env \<Rightarrow> publication \<Rightarrow> publication_fs \<Rightarrow> abstract_repository \<Rightarrow> bool" where
  "sound E p fs a \<longleftrightarrow> located fs = Some a \<and> validated E p a
     \<and> (\<forall>t. ar_validation a = RegularFile t \<longrightarrow> int (length t) \<le> 1024 * 1024)"

definition marked :: "publication_env \<Rightarrow> publication \<Rightarrow> publication_fs \<Rightarrow> place \<Rightarrow> bool" where
  "marked E p fs x \<longleftrightarrow> (\<exists>a. sound E p fs a \<and> ar_place a = x
     \<and> ar_marker a = RegularFile (publication_marker_json p))"

definition awaiting :: "publication_env \<Rightarrow> publication \<Rightarrow> publication_fs \<Rightarrow> bool" where
  "awaiting E p fs \<longleftrightarrow> marked E p fs AtRepository
     \<or> (\<exists>a. sound E p fs a \<and> ar_place a = AtStaging \<and> ar_marker a \<in> {NoFile, RegularFile (publication_marker_json p)}
          \<and> pf_attemptMarker fs = RegularFile (attempt_marker_json p) \<and> staged_part fs \<noteq> OtherFile)"

definition publishable :: "publication_env \<Rightarrow> publication \<Rightarrow> bool" where
  "publishable E p \<longleftrightarrow> prepared_ok E p \<and> int (length (publication_marker_json p)) \<le> 1024 * 1024"

lemma located_nodes:
  assumes "located fs = Some a"
  shows "pf_staged fs \<noteq> OtherDir" and "pf_published fs \<noteq> OtherDir"
    and "pf_staged fs \<noteq> NoDir \<longleftrightarrow> ar_place a = AtStaging" and "pf_published fs \<noteq> NoDir \<longleftrightarrow> ar_place a = AtRepository"
    and "repository_at (place_node (ar_place a) fs) = \<lparr>rd_content = ar_content a, rd_validation = ar_validation a,
      rd_publication = ar_marker a, rd_part = rd_part (repository_at (place_node (ar_place a) fs))\<rparr>"
  using assms by (auto simp: located_def view_of_def place_node_def repository_at_def split: dir_node.splits)

lemma total_observe:
  assumes "\<And>fs. P fs \<Longrightarrow> \<exists>a. located fs = Some a \<and> Q (ar_place a) fs"
  shows "act_total E P (observe E) Q"
  unfolding observe_def
proof (rule total_bind [where Q = "\<lambda>b fs. P fs \<and> b = (pf_staged fs \<noteq> NoDir)"])
  show "act_total E P (exists_directory E pf_staged) (\<lambda>b fs. P fs \<and> b = (pf_staged fs \<noteq> NoDir))"
    by (rule total_directory) (use assms located_nodes in blast)
  fix staged
  let ?S = "\<lambda>fs. P fs \<and> staged = (pf_staged fs \<noteq> NoDir)"
  show "act_total E ?S (act_bind (exists_directory E pf_published) (\<lambda>published.
     act_bind (act_check (\<not> (staged \<and> published)) AmbiguousState) (\<lambda>_.
     act_bind (act_check (\<not> (\<not> staged \<and> \<not> published)) MissingState) (\<lambda>_.
       act_return (if staged then AtStaging else AtRepository))))) Q"
  proof (rule total_bind [where Q = "\<lambda>b fs. ?S fs \<and> b = (pf_published fs \<noteq> NoDir)"])
    show "act_total E ?S (exists_directory E pf_published) (\<lambda>b fs. ?S fs \<and> b = (pf_published fs \<noteq> NoDir))"
      by (rule total_directory) (use assms located_nodes in blast)
    fix published
    let ?B = "\<lambda>fs. ?S fs \<and> published = (pf_published fs \<noteq> NoDir)"
    have one: "staged \<noteq> published \<and> Q (if staged then AtStaging else AtRepository) fs" if b: "?B fs" for fs
    proof -
      obtain a where a: "located fs = Some a" "Q (ar_place a) fs" using assms b by blast
      show ?thesis using located_nodes [OF a(1)] a(2) b by (cases "ar_place a") auto
    qed
    show "act_total E ?B (act_bind (act_check (\<not> (staged \<and> published)) AmbiguousState) (\<lambda>_.
     act_bind (act_check (\<not> (\<not> staged \<and> \<not> published)) MissingState) (\<lambda>_.
       act_return (if staged then AtStaging else AtRepository)))) Q"
      by (rule total_bind [where Q = "\<lambda>u. ?B"], rule total_check, use one in blast,
          rule total_bind [where Q = "\<lambda>u. ?B"], rule total_check, use one in blast,
          rule total_return, use one in blast)
  qed
qed

lemma marked_facts:
  assumes "marked E p fs x"
  shows "(\<exists>t. rd_validation (repository_at (place_node x fs)) = RegularFile t \<and> int (length t) \<le> 1024 * 1024 \<and> pe_digest E t = pb_validationSha p)
    \<and> rd_publication (repository_at (place_node x fs)) = RegularFile (publication_marker_json p)
    \<and> pe_verify E (rd_content (repository_at (place_node x fs))) (pb_format p) (pb_refs p) (pb_project p) = Intact"
proof -
  obtain a where a: "sound E p fs a" "ar_place a = x" "ar_marker a = RegularFile (publication_marker_json p)"
    using assms by (auto simp: marked_def)
  have "located fs = Some a" using a(1) by (simp add: sound_def)
  from located_nodes(5) [OF this] show ?thesis
    using a unfolding sound_def validated_def by (metis repository_dir.select_convs(1-3))
qed

lemma publishableD: "publishable E p \<Longrightarrow> pe_digest E (publication_marker_json p) = pb_publicationSha p
    \<and> int (length (publication_marker_json p)) \<le> 1024 * 1024 \<and> prepared_ok E p"
  by (simp add: publishable_def prepared_ok_def)

lemma total_markers:
  assumes ok: "publishable E p"
  shows "act_total E (\<lambda>fs. marked E p fs x) (assert_publication_markers E (place_node x) p) (\<lambda>u fs. marked E p fs x)"
  unfolding assert_publication_markers_def
  by (rule total_bind [where Q = "\<lambda>u fs. marked E p fs x"], rule total_digest, use marked_facts in blast,
      rule total_bind [where Q = "\<lambda>u fs. marked E p fs x"], rule total_digest,
      use marked_facts publishableD [OF ok] in blast,
      rule total_bind [where Q = "\<lambda>n fs. marked E p fs x \<and> n = RegularFile (publication_marker_json p)"],
      rule total_read, use marked_facts in blast, rule total_check, blast)

lemma total_verify_marked:
  "act_total E (\<lambda>fs. marked E p fs x) (verify_repository E (place_node x) p) (\<lambda>u fs. marked E p fs x)"
  by (rule total_verify) (use marked_facts in blast)

lemma total_vacuous: "\<not> b \<Longrightarrow> act_total E (\<lambda>fs. b \<and> P fs) m Q"
  by (simp add: act_total_def)

lemma total_inspect:
  assumes ok: "publishable E p"
  shows "act_total E (\<lambda>fs. marked E p fs x) (inspect_publication E p) (\<lambda>y fs. y = x \<and> marked E p fs x)"
proof -
  let ?P = "\<lambda>fs. marked E p fs x"
  have tail: "act_total E (\<lambda>fs. y = x \<and> ?P fs) (act_bind (assert_publication_markers E (place_node y) p) (\<lambda>_.
      act_bind (verify_repository E (place_node y) p) (\<lambda>_. act_return y))) (\<lambda>z fs. z = x \<and> ?P fs)" for y
  proof (cases "y = x")
    case True
    have "act_total E ?P (act_bind (assert_publication_markers E (place_node x) p) (\<lambda>_.
      act_bind (verify_repository E (place_node x) p) (\<lambda>_. act_return x))) (\<lambda>z fs. z = x \<and> ?P fs)"
      by (rule total_bind [OF total_markers [OF ok]], rule total_bind [OF total_verify_marked], rule total_return, blast)
    then show ?thesis using True by simp
  qed (rule total_vacuous)
  show ?thesis
    unfolding inspect_publication_def
    by (rule total_bind [where Q = "\<lambda>u. ?P"], rule total_open, assumption,
        rule total_bind [where Q = "\<lambda>u. ?P"], rule total_check, use publishableD [OF ok] in blast,
        rule total_bind [where Q = "\<lambda>u. ?P"], rule total_roots, assumption,
        rule total_bind [where Q = "\<lambda>y fs. y = x \<and> ?P fs"], rule total_observe, force simp: marked_def sound_def,
        rule tail)
qed

lemma total_placement: "act_total E P (sync_placement E) (\<lambda>u. P)"
proof -
  have "act_total E P (if b then sync_directory E else act_return ()) (\<lambda>u. P)" for b
    by (cases b) (simp_all add: total_sync total_return)
  then show ?thesis
    unfolding sync_placement_def exists_attempt_def
    by (intro total_bind [where Q = "\<lambda>u. P"] total_sync total_read) auto
qed

lemma total_publish:
  assumes ok: "publishable E p"
  shows "act_total E (\<lambda>fs. marked E p fs x) (publish_repository E p)
     (\<lambda>st fs. marked E p fs AtRepository \<and> (st = Published \<longleftrightarrow> x = AtStaging))"
proof -
  let ?Q = "\<lambda>st fs. marked E p fs AtRepository \<and> (st = Published \<longleftrightarrow> x = AtStaging)"
  let ?M = "\<lambda>fs. marked E p fs AtRepository"
  have rename: "act_total E (\<lambda>fs. marked E p fs AtStaging \<and> pf_project fs) (rename_repository E) (\<lambda>u. ?M)"
    unfolding act_total_def
  proof (intro allI impI)
    fix s
    assume c: "calm E s" and m: "marked E p (ps_fs s) AtStaging \<and> pf_project (ps_fs s)"
    obtain a where a: "sound E p (ps_fs s) a" "ar_place a = AtStaging" "ar_marker a = RegularFile (publication_marker_json p)"
      using m by (auto simp: marked_def)
    obtain d where d: "pf_staged (ps_fs s) = Dir d" "pf_published (ps_fs s) = NoDir" "a = view_of AtStaging d"
      using located_staging [of "ps_fs s" a] a by (auto simp: sound_def)
    have "marked E p (move_repository (ps_fs s)) AtRepository"
      using a d by (intro marked_def [THEN iffD2] exI [of _ "view_of AtRepository d"])
        (simp add: sound_def located_def move_repository_def view_of_def validated_def)
    then show "\<exists>u s'. rename_repository E s = (Inr u, s') \<and> calm E s' \<and> ?M (ps_fs s')"
      using d(1,2) m calm_next [OF c] calmD(1) [OF c] by (simp add: rename_repository_def fs_write_def Let_def)
  qed
  have last: "act_total E ?M (act_bind (inspect_publication E p) (\<lambda>y.
      act_bind (act_check (y = AtRepository) StorageUnavailable) (\<lambda>_. act_return Published))) (\<lambda>st fs. ?M fs \<and> st = Published)"
    by (rule total_bind [OF total_inspect [OF ok]], rule total_bind [where Q = "\<lambda>u. ?M"], rule total_check, blast,
        rule total_return, blast)
  have moves: "act_total E (\<lambda>fs. marked E p fs AtStaging) (act_bind (fs_write E StorageUnavailable (pf_project_update (\<lambda>_. True))) (\<lambda>_.
           act_bind (sync_directory E) (\<lambda>_.
           act_bind (inspect_canonical E) (\<lambda>_.
           act_bind (act_try (rename_repository E)
              (\<lambda>_. act_bind (act_try (inspect_publication E p) (\<lambda>_. act_fail StorageUnavailable)) (\<lambda>y.
                   act_check (y = AtRepository) StorageUnavailable))) (\<lambda>_.
           act_bind (sync_placement E) (\<lambda>_.
           act_bind (inspect_publication E p) (\<lambda>y.
           act_bind (act_check (y = AtRepository) StorageUnavailable) (\<lambda>_.
             act_return Published)))))))) (\<lambda>st fs. ?M fs \<and> st = Published)"
    by (rule total_bind [where Q = "\<lambda>u fs. marked E p fs AtStaging \<and> pf_project fs"], rule total_write, simp add: marked_def sound_def,
        rule total_bind [where Q = "\<lambda>u fs. marked E p fs AtStaging \<and> pf_project fs"], rule total_sync, assumption,
        rule total_bind [where Q = "\<lambda>u fs. marked E p fs AtStaging \<and> pf_project fs"], rule total_canonical, assumption,
        rule total_bind [OF total_try [OF rename]], rule total_bind [OF total_placement], rule last)
  show ?thesis
    unfolding publish_repository_def
  proof (rule total_bind [OF total_inspect [OF ok]])
    fix y
    show "act_total E (\<lambda>fs. y = x \<and> marked E p fs x) (case y of
         AtRepository \<Rightarrow> act_bind (sync_placement E) (\<lambda>_. act_return PublishReplayed)
       | AtStaging \<Rightarrow>
           act_bind (fs_write E StorageUnavailable (pf_project_update (\<lambda>_. True))) (\<lambda>_.
           act_bind (sync_directory E) (\<lambda>_.
           act_bind (inspect_canonical E) (\<lambda>_.
           act_bind (act_try (rename_repository E)
              (\<lambda>_. act_bind (act_try (inspect_publication E p) (\<lambda>_. act_fail StorageUnavailable)) (\<lambda>y.
                   act_check (y = AtRepository) StorageUnavailable))) (\<lambda>_.
           act_bind (sync_placement E) (\<lambda>_.
           act_bind (inspect_publication E p) (\<lambda>y.
           act_bind (act_check (y = AtRepository) StorageUnavailable) (\<lambda>_.
             act_return Published)))))))) ?Q"
    proof (cases y)
      case AtStaging
      show ?thesis
      proof (cases "x = AtStaging")
        case True
        then show ?thesis using AtStaging total_weaken [OF moves] by simp
      qed (use AtStaging total_vacuous [of "AtStaging = x"] in auto)
    next
      case AtRepository
      show ?thesis
      proof (cases "x = AtRepository")
        case True
        then show ?thesis using AtRepository
          by (auto intro!: total_bind [OF total_placement] total_return)
      qed (use AtRepository total_vacuous [of "AtRepository = x"] in auto)
    qed
  qed
qed


definition unsealed :: "publication_env \<Rightarrow> publication \<Rightarrow> file_node \<Rightarrow> publication_fs \<Rightarrow> bool" where
  "unsealed E p n fs \<longleftrightarrow> (\<exists>a. sound E p fs a \<and> ar_place a = AtStaging \<and> ar_marker a = n) \<and> staged_part fs \<noteq> OtherFile"

lemma unsealed_facts:
  assumes "unsealed E p n fs"
  shows "(\<exists>t. rd_validation (repository_at (pf_staged fs)) = RegularFile t \<and> int (length t) \<le> 1024 * 1024 \<and> pe_digest E t = pb_validationSha p)
    \<and> rd_publication (repository_at (pf_staged fs)) = n
    \<and> pe_verify E (rd_content (repository_at (pf_staged fs))) (pb_format p) (pb_refs p) (pb_project p) = Intact"
proof -
  obtain a where a: "sound E p fs a" "ar_place a = AtStaging" "ar_marker a = n" using assms by (auto simp: unsealed_def)
  obtain d where "pf_staged fs = Dir d" "a = view_of AtStaging d" using located_staging [of fs a] a by (auto simp: sound_def)
  then show ?thesis using a by (auto simp: sound_def validated_def view_of_def repository_at_def)
qed

lemma unsealed_part:
  assumes u: "unsealed E p n fs" and v: "v \<noteq> OtherFile"
  shows "unsealed E p n (in_staged (rd_part_update (\<lambda>_. v)) fs)" and "staged_part (in_staged (rd_part_update (\<lambda>_. v)) fs) = v"
proof -
  obtain a where a: "sound E p fs a" "ar_place a = AtStaging" "ar_marker a = n" using u by (auto simp: unsealed_def)
  then obtain d where d: "pf_staged fs = Dir d" using located_staging [of fs a] by (auto simp: sound_def)
  then show "staged_part (in_staged (rd_part_update (\<lambda>_. v)) fs) = v" by simp
  then show "unsealed E p n (in_staged (rd_part_update (\<lambda>_. v)) fs)"
    using a v by (auto simp: unsealed_def sound_def)
qed

lemma total_remove_part:
  "act_total E (unsealed E p n) (remove_owned_part E) (\<lambda>u fs. unsealed E p n fs \<and> staged_part fs = NoFile)"
  unfolding remove_owned_part_def
proof (rule total_bind [where Q = "\<lambda>m fs. m \<noteq> OtherFile \<and> unsealed E p n fs \<and> staged_part fs = m"])
  show "act_total E (\<lambda>fs. m \<noteq> OtherFile \<and> unsealed E p n fs \<and> staged_part fs = m) (case m of
         NoFile \<Rightarrow> act_return () | OtherFile \<Rightarrow> act_fail MarkerConflict
       | RegularFile text \<Rightarrow> fs_write E StorageUnavailable (in_staged (rd_part_update (\<lambda>_. NoFile))))
       (\<lambda>u fs. unsealed E p n fs \<and> staged_part fs = NoFile)" for m
    using unsealed_part [of E p n _ NoFile]
    by (cases m) (auto intro!: total_return total_write total_vacuous [of False, simplified])
qed (auto intro!: total_read simp: unsealed_def)

lemma total_write_marker:
  "act_total E (\<lambda>fs. unsealed E p NoFile fs \<and> staged_part fs = NoFile) (write_marker E p) (\<lambda>u fs. marked E p fs AtStaging)"
proof -
  let ?json = "publication_marker_json p"
  let ?part = "\<lambda>t fs. unsealed E p NoFile fs \<and> staged_part fs = RegularFile t"
  have part: "?part t (in_staged (rd_part_update (\<lambda>_. RegularFile t)) fs)" if "unsealed E p NoFile fs" for t fs
    using unsealed_part [OF that, of "RegularFile t"] by simp
  have opens: "act_total E (\<lambda>fs. unsealed E p NoFile fs \<and> staged_part fs = NoFile) (open_part E) (\<lambda>u. ?part [])"
    using part [of _ "[]"] by (auto simp: act_total_def open_part_def fs_write_def Let_def calm_next [simplified] calmD)
  have moved: "marked E p (in_staged (\<lambda>r. r\<lparr>rd_publication := rd_part r, rd_part := NoFile\<rparr>) fs) AtStaging"
    if u: "?part ?json fs" for fs
  proof -
    obtain a where a: "sound E p fs a" "ar_place a = AtStaging" using u by (auto simp: unsealed_def)
    then obtain d where d: "pf_staged fs = Dir d" "pf_published fs = NoDir" "a = view_of AtStaging d"
      using located_staging [of fs a] by (auto simp: sound_def)
    have part: "rd_part d = RegularFile ?json" using u d(1) by (simp add: staged_part_def repository_at_def)
    show ?thesis
      using a d part by (intro marked_def [THEN iffD2] exI [of _ "a\<lparr>ar_marker := RegularFile ?json\<rparr>"])
        (simp add: sound_def located_def in_staged_def view_of_def validated_def)
  qed
  show ?thesis
    unfolding write_marker_def
    by (rule total_try, rule total_bind [OF opens], rule total_bind [where Q = "\<lambda>u. ?part ?json"], rule total_write, use part in blast,
        rule total_bind [where Q = "\<lambda>u. ?part ?json"], rule total_sync, assumption,
        rule total_bind [where Q = "\<lambda>u fs. marked E p fs AtStaging"], rule total_write, use moved in blast,
        rule total_sync, assumption)
qed

lemma total_prepare_staged:
  assumes n: "n = NoFile \<or> n = RegularFile (publication_marker_json p)"
  shows "act_total E (\<lambda>fs. unsealed E p n fs \<and> pf_attemptMarker fs = RegularFile (attempt_marker_json p))
    (prepare_staged E p) (\<lambda>q fs. q = p \<and> marked E p fs AtStaging)"
proof -
  let ?U = "unsealed E p n"
  have marked: "marked E p fs AtStaging" if "unsealed E p (RegularFile (publication_marker_json p)) fs" for fs
    using that by (auto simp: unsealed_def marked_def)
  have final: "act_total E (\<lambda>fs. m = n \<and> ?U fs) (case m of
         OtherFile \<Rightarrow> act_fail MarkerConflict
       | RegularFile text \<Rightarrow>
           act_bind (fs_read E MarkerConflict (\<lambda>_. ())) (\<lambda>_.
           act_bind (act_check (text = publication_marker_json p) MarkerConflict) (\<lambda>_.
           act_bind (remove_owned_part E) (\<lambda>_. act_return p)))
       | NoFile \<Rightarrow>
           act_bind (remove_owned_part E) (\<lambda>_.
           act_bind (write_marker E p) (\<lambda>_. act_return p))) (\<lambda>q fs. q = p \<and> marked E p fs AtStaging)" for m
  proof (cases "m = n")
    case True
    from n show ?thesis
    proof
      assume "n = NoFile"
      then show ?thesis using True
        by (auto intro!: total_bind [OF total_remove_part] total_bind [OF total_write_marker] total_return)
    next
      assume j: "n = RegularFile (publication_marker_json p)"
      have "act_total E ?U (act_bind (fs_read E MarkerConflict (\<lambda>_. ())) (\<lambda>_.
           act_bind (act_check (publication_marker_json p = publication_marker_json p) MarkerConflict) (\<lambda>_.
           act_bind (remove_owned_part E) (\<lambda>_. act_return p)))) (\<lambda>q fs. q = p \<and> marked E p fs AtStaging)"
        by (rule total_bind [where Q = "\<lambda>u. ?U"], rule total_read, assumption,
            rule total_bind [where Q = "\<lambda>u. ?U"], rule total_check, simp,
            rule total_bind [OF total_remove_part], rule total_return, use marked j in blast)
      then show ?thesis using True j by simp
    qed
  qed (rule total_vacuous)
  show ?thesis
    unfolding prepare_staged_def
    by (rule total_bind [where Q = "\<lambda>u. ?U"], rule total_attempt_marker, blast,
        rule total_bind [where Q = "\<lambda>u. ?U"], rule total_digest, use unsealed_facts in blast,
        rule total_bind [where Q = "\<lambda>u. ?U"], rule total_verify, use unsealed_facts in blast,
        rule total_bind [where Q = "\<lambda>m fs. m = n \<and> ?U fs"], rule total_read, use unsealed_facts in blast,
        rule final)
qed

lemma total_prepare:
  assumes p: "prepared_publication E r k = Inr p" and ok: "publishable E p"
  shows "act_total E (awaiting E p) (prepare_publication E r k) (\<lambda>q fs. q = p \<and> (\<exists>x. marked E p fs x))"
proof -
  let ?Q = "\<lambda>q fs. q = p \<and> (\<exists>x. marked E p fs x)"
  let ?A = "awaiting E p"
  have placed: "\<exists>a. located fs = Some a" if "?A fs" for fs using that by (auto simp: awaiting_def marked_def sound_def)
  let ?D = "\<lambda>x fs. ?A fs \<and> (\<exists>a. located fs = Some a \<and> ar_place a = x)"
  have published: "act_total E (?D AtRepository) (prepare_published E p) ?Q"
  proof (rule total_weaken)
    show "act_total E (\<lambda>fs. marked E p fs AtRepository) (prepare_published E p) ?Q"
      unfolding prepare_published_def
      by (rule total_bind [OF total_markers [OF ok, of AtRepository, unfolded place_node_def place.case]],
          rule total_bind [OF total_verify_marked [of E p AtRepository, unfolded place_node_def place.case]],
          rule total_return, blast)
  qed (auto simp: awaiting_def sound_def)
  have staged: "act_total E (?D AtStaging) (prepare_staged E p) ?Q"
    unfolding act_total_def
  proof (intro allI impI)
    fix s
    assume c: "calm E s" and d: "?D AtStaging (ps_fs s)"
    then obtain a where a: "sound E p (ps_fs s) a" "ar_place a = AtStaging"
      "ar_marker a \<in> {NoFile, RegularFile (publication_marker_json p)}"
      "pf_attemptMarker (ps_fs s) = RegularFile (attempt_marker_json p)" "staged_part (ps_fs s) \<noteq> OtherFile"
      by (auto simp: awaiting_def marked_def sound_def)
    then have "unsealed E p (ar_marker a) (ps_fs s)" by (auto simp: unsealed_def)
    then show "\<exists>q s'. prepare_staged E p s = (Inr q, s') \<and> calm E s' \<and> ?Q q (ps_fs s')"
      using total_prepare_staged [of "ar_marker a" p E] a(3,4) c unfolding act_total_def by blast
  qed
  have body: "act_total E (?D x) (case x of AtRepository \<Rightarrow> prepare_published E p | AtStaging \<Rightarrow> prepare_staged E p) ?Q" for x
    using published staged by (cases x) simp_all
  have "act_total E ?A (act_bind (verify_roots E) (\<lambda>_. act_bind (observe E) (\<lambda>x.
      case x of AtRepository \<Rightarrow> prepare_published E p | AtStaging \<Rightarrow> prepare_staged E p))) ?Q"
    by (rule total_bind [where Q = "\<lambda>u. ?A"], rule total_roots, assumption,
        rule total_bind [where Q = ?D], rule total_observe, use placed in blast, rule body)
  then show ?thesis
    unfolding prepare_publication_def using p
    by (auto intro!: total_bind [where Q = "\<lambda>u. ?A"] total_open)
qed


section \<open>What failures leave behind\<close>

definition act_keeps :: "(publication_fs \<Rightarrow> bool) \<Rightarrow> 'a act \<Rightarrow> bool" where
  "act_keeps P m \<longleftrightarrow> act_spec P m (\<lambda>a. P) (\<lambda>e. P)"

lemma keeps_bind: "act_keeps P m \<Longrightarrow> (\<And>a. act_keeps P (f a)) \<Longrightarrow> act_keeps P (act_bind m f)"
  unfolding act_keeps_def by (rule spec_bind)

lemma keeps_try: "act_keeps P m \<Longrightarrow> (\<And>e. act_keeps P (h e)) \<Longrightarrow> act_keeps P (act_try m h)"
  unfolding act_keeps_def by (rule spec_try)

lemma keeps_reads: "act_reads m K \<Longrightarrow> act_keeps P m"
  unfolding act_keeps_def by (rule spec_reads)

lemma keeps_write: "(\<And>fs. P fs \<Longrightarrow> P (f fs)) \<Longrightarrow> act_keeps P (fs_write E e f)"
  unfolding act_keeps_def by (rule spec_write) auto

lemmas keeps_reading = keeps_reads [OF reads_return] keeps_reads [OF reads_fail] keeps_reads [OF reads_check]
  keeps_reads [OF reads_read] keeps_reads [OF reads_open] keeps_reads [OF reads_roots] keeps_reads [OF reads_verify]
  keeps_reads [OF reads_canonical] keeps_reads [OF reads_sync] keeps_reads [OF reads_observe]
  keeps_reads [OF reads_markers] keeps_reads [OF reads_digest] keeps_reads [OF reads_attempt_marker]
  keeps_reads [OF reads_inspect] keeps_reads [OF reads_sync_placement]

text \<open>The marker of the attempt, and no foreign partial file.\<close>

definition attempt_intact :: "publication \<Rightarrow> publication_fs \<Rightarrow> bool" where
  "attempt_intact p fs \<longleftrightarrow> pf_attemptMarker fs = RegularFile (attempt_marker_json p) \<and> staged_part fs \<noteq> OtherFile"

lemma intact_updates [simp]:
  "attempt_intact p fs \<Longrightarrow> v \<noteq> OtherFile \<Longrightarrow> attempt_intact p (in_staged (rd_part_update (\<lambda>_. v)) fs)"
  "attempt_intact p fs \<Longrightarrow> attempt_intact p (in_staged (\<lambda>r. r\<lparr>rd_publication := rd_part r, rd_part := NoFile\<rparr>) fs)"
  "attempt_intact p (pf_project_update g fs) = attempt_intact p fs"
  "attempt_intact p fs \<Longrightarrow> attempt_intact p (move_repository fs)"
  by (cases "pf_staged fs"; simp add: attempt_intact_def in_staged_def staged_part_def repository_at_def move_repository_def)+

lemma keeps_operations:
  "act_keeps (attempt_intact q) (prepare_publication E r k)" "act_keeps (attempt_intact q) (publish_repository E p)"
proof -
  have part: "act_keeps (attempt_intact q) (open_part E)"
    by (auto simp: act_keeps_def act_spec_def open_part_def fs_write_def Let_def split: fault.split)
  have wr: "act_keeps (attempt_intact q) (write_marker E p)" for p
    unfolding write_marker_def by (intro keeps_try keeps_bind keeps_reading keeps_write part) simp_all
  have remove: "act_keeps (attempt_intact q) (remove_owned_part E)"
    unfolding remove_owned_part_def
    by (auto intro!: keeps_bind keeps_reading keeps_write split: file_node.split)
  have staged: "act_keeps (attempt_intact q) (prepare_staged E p)" for p
    unfolding prepare_staged_def
    by (auto intro!: keeps_bind keeps_reading remove wr split: file_node.split)
  have published: "act_keeps (attempt_intact q) (prepare_published E p)" for p
    unfolding prepare_published_def by (intro keeps_bind keeps_reading)
  show "act_keeps (attempt_intact q) (prepare_publication E r k)"
    unfolding prepare_publication_def
    by (auto intro!: keeps_bind keeps_reading staged published split: sum.split place.split)
  have rename: "act_keeps (attempt_intact q) (rename_repository E)"
    by (auto simp: act_keeps_def act_spec_def rename_repository_def fs_write_def Let_def split: fault.split)
  show "act_keeps (attempt_intact q) (publish_repository E p)"
    unfolding publish_repository_def
    by (auto intro!: keeps_bind keeps_try keeps_reading keeps_write rename split: place.split)
qed

lemma keepsD: "act_keeps P m \<Longrightarrow> P (ps_fs s) \<Longrightarrow> P (ps_fs (snd (m s)))"
  unfolding act_keeps_def act_spec_def by (cases "m s"; cases "fst (m s)") force+

lemma cleanup_staged:
  assumes l: "located (ps_fs s) = Some a" and a: "ar_place a = AtStaging"
  shows "ps_fs (snd (cleanup_attempt E p s)) = ps_fs s"
proof -
  have "act_spec (\<lambda>fs. fs = ps_fs s) (cleanup_attempt E p) (\<lambda>x fs. fs = ps_fs s) (\<lambda>e fs. fs = ps_fs s)"
    unfolding cleanup_attempt_def
  proof (rule spec_bind [OF spec_reads [OF reads_inspect, where Q = "\<lambda>x fs. x = AtStaging \<and> fs = ps_fs s"]])
    fix x
    show "act_spec (\<lambda>fs. x = AtStaging \<and> fs = ps_fs s) (act_bind (act_check (x = AtRepository) AmbiguousState) (\<lambda>_.
     act_bind (act_try (act_bind (assert_attempt_marker E p) (\<lambda>_. act_return True))
        (\<lambda>e. if e = MarkerConflict
             then act_bind (exists_attempt E) (\<lambda>attempt.
                    if attempt then act_fail e else act_return False)
             else act_fail e)) (\<lambda>present.
       if \<not> present then act_return CleanupReplayed
       else act_bind (remove_attempt E) (\<lambda>_.
            act_bind (sync_directory E) (\<lambda>_. act_return Cleaned))))) (\<lambda>x fs. fs = ps_fs s) (\<lambda>e fs. fs = ps_fs s)"
      by (rule spec_bind [where Q = "\<lambda>u fs. False"], rule spec_check) (auto simp: act_spec_def)
  qed (use l a in auto)
  then show ?thesis unfolding act_spec_def by (cases "cleanup_attempt E p s"; cases "fst (cleanup_attempt E p s)") force+
qed

section \<open>Properties\<close>

definition abstract_run :: "publication_env \<Rightarrow> abstract_repository \<Rightarrow> abstract_repository \<Rightarrow> bool" where
  "abstract_run E = (\<lambda>a b. \<exists>c. abstract_step E a c b)\<^sup>*\<^sup>*"

lemma abstract_step_facts:
  "abstract_step E a c b \<Longrightarrow> ar_content b = ar_content a \<and> ar_validation b = ar_validation a
     \<and> (ar_place a = AtRepository \<longrightarrow> b = a)
     \<and> (ar_place b \<noteq> ar_place a \<longrightarrow> (\<exists>p. c = Publish p \<and> prepared_ok E p \<and> sealed E p b))"
  by (induction rule: abstract_step.induct) (auto simp: sealed_def validated_def)

text \<open>C34. A repository is never lost, doubled or altered: from a state in which it is staged or
  published, and through any commands of any publications, with any failures of the file system
  before, during or after a call, with closings and new processes in between, it is in exactly
  one of the two places, with the same content and the same validation marker. The file system
  follows the abstract repository, whose only moves are to seal a staged repository that is
  validated and to publish a sealed one; so whatever is published is intact and carries the
  marker of its publication, and a published repository no longer changes.\<close>

theorem publication_refines:
  assumes start: "located (ps_fs s0) = Some a0" and s: "s = run (publication_step E) s0 cs"
  shows "\<exists>a. located (ps_fs s) = Some a \<and> abstract_run E a0 a
    \<and> ar_content a = ar_content a0 \<and> ar_validation a = ar_validation a0
    \<and> (ar_place a0 = AtRepository \<longrightarrow> a = a0)
    \<and> (ar_place a \<noteq> ar_place a0 \<longrightarrow> (\<exists>p. Publish p \<in> set cs \<and> prepared_ok E p \<and> sealed E p a))"
  using start unfolding s
proof (induction cs arbitrary: s0 a0)
  case Nil
  then show ?case by (simp add: abstract_run_def)
next
  case (Cons c cs)
  obtain b where b: "located (ps_fs (publication_step E s0 c)) = Some b" "abstract_step E a0 c b"
    using command_refines [OF Cons.prems] by blast
  obtain a where a: "located (ps_fs (run (publication_step E) (publication_step E s0 c) cs)) = Some a"
    "abstract_run E b a" "ar_content a = ar_content b" "ar_validation a = ar_validation b"
    "ar_place b = AtRepository \<longrightarrow> a = b"
    "ar_place a \<noteq> ar_place b \<longrightarrow> (\<exists>p. Publish p \<in> set cs \<and> prepared_ok E p \<and> sealed E p a)"
    using Cons.IH [OF b(1)] by blast
  note f = abstract_step_facts [OF b(2)]
  have "abstract_run E a0 a" using b(2) a(2) unfolding abstract_run_def
    by (auto intro: converse_rtranclp_into_rtranclp)
  moreover have "\<exists>p. Publish p \<in> set (c # cs) \<and> prepared_ok E p \<and> sealed E p a" if "ar_place a \<noteq> ar_place a0"
  proof (cases "ar_place b = ar_place a0")
    case True
    then show ?thesis using a(6) that by auto
  next
    case False
    then have "ar_place b = AtRepository" using f by (cases "ar_place b"; cases "ar_place a0") auto
    then show ?thesis using f False a(5) by auto
  qed
  ultimately show ?case using a f by auto
qed


lemma awaiting_step:
  assumes p: "prepared_publication E r k = Inr p" and w: "awaiting E p (ps_fs s)"
    and c: "c \<in> {Prepare r k, Inspect p, Publish p, Cleanup p, ClosePublication, RestartPublication}"
  shows "awaiting E p (ps_fs (publication_step E s c))"
proof -
  let ?fs = "ps_fs (publication_step E s c)"
  let ?json = "RegularFile (publication_marker_json p)"
  obtain a where a: "sound E p (ps_fs s) a" "ar_marker a \<in> {NoFile, ?json}" "ar_place a = AtRepository \<longrightarrow> ar_marker a = ?json"
    "ar_place a = AtStaging \<longrightarrow> attempt_intact p (ps_fs s)"
    using w by (auto simp: awaiting_def marked_def attempt_intact_def)
  have l: "located (ps_fs s) = Some a" using a(1) by (simp add: sound_def)
  obtain b where b: "located ?fs = Some b" "abstract_step E a c b" using command_refines [OF l] by blast
  have sb: "sound E p ?fs b" using a(1) b abstract_step_facts [OF b(2)] by (auto simp: sound_def validated_def)
  have marker: "ar_marker b \<in> {NoFile, ?json} \<and> (ar_place b = AtRepository \<longrightarrow> ar_marker b = ?json)"
    using b(2)
  proof cases
    case (seals r' k' p')
    then have "p' = p" using c p by auto
    then show ?thesis using seals by simp
  next
    case (moves p')
    then have "p' = p" using c by auto
    then show ?thesis using moves by (simp add: sealed_def)
  qed (use a in auto)
  have "attempt_intact p ?fs" if "ar_place b = AtStaging"
  proof -
    have at: "ar_place a = AtStaging" using abstract_step_facts [OF b(2)] that by (cases "ar_place a") auto
    then have i: "attempt_intact p (ps_fs s)" using a(4) by simp
    show ?thesis
    proof (cases c)
      case (Cleanup q)
      then show ?thesis using cleanup_staged [OF l at] i by simp
    next
      case (Inspect q)
      then show ?thesis using reads_inspect [of E q] i by (simp add: act_reads_def)
    next
      case (Prepare r' k')
      then show ?thesis using keepsD [OF keeps_operations(1) i] by simp
    next
      case (Publish q)
      then show ?thesis using keepsD [OF keeps_operations(2) i] by simp
    qed (use i in \<open>simp_all add: close_publication_def restart_publication_def\<close>)
  qed
  then show ?thesis using sb marker by (cases "ar_place b") (auto simp: awaiting_def marked_def attempt_intact_def)
qed

text \<open>C35. Failures are recovered from: whatever attempts to prepare, publish, inspect or clean up a
  publication have failed before, and wherever they were cut off, one preparation and one
  publication during which the file system works succeed, and then the repository is published,
  with its content and its markers.\<close>

theorem publication_recovers:
  assumes p: "prepared_publication E r k = Inr p" and ok: "publishable E p"
    and start: "sound E p (ps_fs s0) a0" "ar_place a0 = AtStaging" "ar_marker a0 = NoFile" "attempt_intact p (ps_fs s0)"
    and cs: "set cs \<subseteq> {Prepare r k, Inspect p, Publish p, Cleanup p, ClosePublication, RestartPublication}"
    and s: "s = run (publication_step E) s0 cs" and calm: "calm E s"
  shows "\<exists>s1 s2 st a. prepare_publication E r k s = (Inr p, s1) \<and> publish_repository E p s1 = (Inr st, s2)
    \<and> located (ps_fs s2) = Some a \<and> ar_place a = AtRepository \<and> sealed E p a"
proof -
  have "awaiting E p (ps_fs s0)" using start by (auto simp: awaiting_def attempt_intact_def)
  then have "awaiting E p (ps_fs s)" unfolding s using cs
  proof (induction cs arbitrary: s0)
    case (Cons c cs)
    then show ?case using awaiting_step [OF p, of s0 c] by simp
  qed simp
  then obtain s1 x where s1: "prepare_publication E r k s = (Inr p, s1)" "calm E s1" "marked E p (ps_fs s1) x"
    using total_prepare [OF p ok] calm unfolding act_total_def by blast
  then obtain st s2 where s2: "publish_repository E p s1 = (Inr st, s2)" "marked E p (ps_fs s2) AtRepository"
    using total_publish [OF ok, of x] unfolding act_total_def by blast
  then show ?thesis using s1 by (auto simp: marked_def sound_def sealed_def)
qed

text \<open>
  A cleanup is not recovered from: when the recursive removal stops between the marker of the
  attempt and its directory, every later cleanup fails.
\<close>

definition half_removed :: "publication_fs \<Rightarrow> bool" where
  "half_removed fs \<longleftrightarrow> pf_attempt fs \<and> pf_attemptMarker fs = NoFile \<and> (\<exists>a. located fs = Some a \<and> ar_place a = AtRepository)"

lemma cleanup_stuck:
  assumes h: "half_removed (ps_fs s)"
  shows "(\<exists>e. fst (cleanup_attempt E p s) = Inl e) \<and> half_removed (ps_fs (snd (cleanup_attempt E p s)))"
proof -
  have marker: "act_spec half_removed (act_bind (assert_attempt_marker E p) (\<lambda>_. act_return True)) (\<lambda>b fs. False) (\<lambda>e. half_removed)"
    by (rule spec_reads [OF reads_bind [OF reads_attempt_marker reads_return]]) (auto simp: half_removed_def)
  have handler: "act_spec half_removed (if e = MarkerConflict
             then act_bind (exists_attempt E) (\<lambda>attempt. if attempt then act_fail e else act_return False)
             else act_fail e) (\<lambda>b fs. False) (\<lambda>e. half_removed)" for e
    by (auto simp: exists_attempt_def intro!: spec_fail spec_bind [where Q = "\<lambda>b fs. b \<and> half_removed fs"] spec_read)
      (auto simp: half_removed_def act_spec_def act_fail_def)
  have "act_spec half_removed (cleanup_attempt E p) (\<lambda>b fs. False) (\<lambda>e. half_removed)"
    unfolding cleanup_attempt_def
    by (rule spec_bind [OF spec_reads [OF reads_inspect, where Q = "\<lambda>x. half_removed"]], assumption, assumption,
        rule spec_bind [where Q = "\<lambda>u. half_removed"], rule spec_check, assumption, assumption,
        rule spec_bind [OF spec_try [OF marker handler]]) (simp add: act_spec_def)
  then show ?thesis using h unfolding act_spec_def by (cases "cleanup_attempt E p s"; cases "fst (cleanup_attempt E p s)") force+
qed


section \<open>A publication\<close>

definition demo_publication_env :: publication_env where
  "demo_publication_env = \<lparr>pe_digest = (\<lambda>_. replicate 64 CHR ''0''), pe_project = (\<lambda>_. True), pe_opaque = (\<lambda>_. True),
     pe_oid = (\<lambda>_. True), pe_verify = (\<lambda>_ _ _ _. Intact), pe_roots = (\<lambda>_. Some ((1, 2), (1, 3))),
     pe_canonical = (\<lambda>_. True), pe_fault = (\<lambda>n. if n = 10 \<or> n = 11 then FailsAfter else NoFault),
     pe_storageNode = ''node-a''\<rparr>"

definition demo_validated :: validated_repository where
  "demo_validated = \<lparr>vr_artifactKey = replicate 64 CHR ''0'', vr_attempt = ''a1'', vr_markerSha = replicate 64 CHR ''0'',
     vr_format = ''sha1'', vr_project = ''p1'', vr_refs = replicate 3 \<lparr>gr_name = ''refs/heads/main'', gr_oid = ''0''\<rparr>\<rparr>"

definition demo_unsealed_publication :: publication where
  "demo_unsealed_publication = \<lparr>pb_artifactKey = replicate 64 CHR ''0'', pb_attempt = ''a1'', pb_markerSha = replicate 64 CHR ''0'',
     pb_format = ''sha1'', pb_project = ''p1'', pb_refs = vr_refs demo_validated, pb_storageKey = ''main'',
     pb_storageNode = ''node-a'', pb_validationSha = replicate 64 CHR ''0'', pb_publicationSha = []\<rparr>"

definition demo_publication :: publication where
  "demo_publication = demo_unsealed_publication\<lparr>pb_publicationSha := replicate 64 CHR ''0''\<rparr>"

definition demo_staged :: publication_state where
  "demo_staged = \<lparr>ps_fs = \<lparr>pf_attempt = True, pf_attemptMarker = RegularFile (attempt_marker_json demo_publication),
       pf_staged = Dir \<lparr>rd_content = ''objects'', rd_validation = RegularFile ''v'', rd_publication = NoFile, rd_part = NoFile\<rparr>,
       pf_project = False, pf_published = NoDir\<rparr>,
     ps_closed = False, ps_roots = None, ps_calls = 0\<rparr>"

definition demo_publication_commands :: "publication_command list" where
  "demo_publication_commands = [Prepare demo_validated ''main'', Publish demo_publication, RestartPublication]"

definition demo_interrupted :: publication_state where
  "demo_interrupted = run (publication_step demo_publication_env) demo_staged demo_publication_commands"

lemma demo_prepared: "prepared_publication demo_publication_env demo_validated ''main'' = Inr demo_publication"
  by code_simp

lemma demo_publishable: "publishable demo_publication_env demo_publication"
  by code_simp

lemma demo_interrupted_facts: "ps_closed demo_interrupted = False" "ps_roots demo_interrupted = None" "ps_calls demo_interrupted = 18"
proof -
  have "(ps_closed demo_interrupted, ps_roots demo_interrupted, ps_calls demo_interrupted) = (False, None, 18)"
    by code_simp
  then show "ps_closed demo_interrupted = False" "ps_roots demo_interrupted = None" "ps_calls demo_interrupted = 18"
    by simp_all
qed

definition demo_repository :: abstract_repository where
  "demo_repository = \<lparr>ar_place = AtStaging, ar_content = ''objects'', ar_validation = RegularFile ''v'', ar_marker = NoFile\<rparr>"

lemma demo_located: "located (ps_fs demo_staged) = Some demo_repository"
  by code_simp

lemma demo_calm: "calm demo_publication_env demo_interrupted"
  unfolding calm_def demo_interrupted_facts
  by (intro conjI exI [of _ "(1, 2)"] exI [of _ "(1, 3)"]) (simp_all add: demo_publication_env_def)

theorem publication_refines_witness:
  "\<exists>a. located (ps_fs demo_interrupted) = Some a \<and> ar_content a = ''objects''"
  using publication_refines [OF demo_located demo_interrupted_def] by (auto simp: demo_repository_def)

theorem publication_recovers_witness:
  "\<exists>s1 s2 st a. prepare_publication demo_publication_env demo_validated ''main'' demo_interrupted = (Inr demo_publication, s1)
    \<and> publish_repository demo_publication_env demo_publication s1 = (Inr st, s2)
    \<and> located (ps_fs s2) = Some a \<and> ar_place a = AtRepository"
proof -
  have "validated demo_publication_env demo_publication demo_repository"
    by (simp add: validated_def demo_repository_def demo_publication_env_def demo_publication_def demo_unsealed_publication_def)
  then have "sound demo_publication_env demo_publication (ps_fs demo_staged) demo_repository"
    using demo_located by (simp add: sound_def) (simp add: demo_repository_def)
  moreover have "ar_place demo_repository = AtStaging" "ar_marker demo_repository = NoFile" by (simp_all add: demo_repository_def)
  moreover have "attempt_intact demo_publication (ps_fs demo_staged)"
    by (simp add: attempt_intact_def demo_staged_def staged_part_def repository_at_def)
  moreover have "set demo_publication_commands \<subseteq> {Prepare demo_validated ''main'', Inspect demo_publication,
      Publish demo_publication, Cleanup demo_publication, ClosePublication, RestartPublication}"
    by (simp add: demo_publication_commands_def)
  ultimately show ?thesis
    using publication_recovers [OF demo_prepared demo_publishable, of demo_staged demo_repository demo_publication_commands,
        OF _ _ _ _ _ demo_interrupted_def demo_calm] by blast
qed

end
