(* ===== verification/Collaboration.thy ===== *)
theory Collaboration
  imports LifecycleJournal "HOL-Library.Char_ord" "HOL-Library.List_Lexorder" "HOL-Library.Product_Lexorder"
begin

text \<open>
  The change requests, tickets, comments, relations and idempotency results of one Project,
  \<open>src/src/coordination/postgres/PostgresCollaborationPersistence.ts\<close>. Every operation is one
  transaction; the conditions of its statements and the constraints of the tables they can run
  into are written out, and a statement that PostgreSQL refuses is \<open>DependencyFailed\<close>. The
  checks of the tables that repeat the format of an identifier are those of the protocol package.

  A text is its sequence of UTF-16 code units. Identifiers are compared by their characters, as
  the collation \<open>C\<close> and JavaScript do. The snapshot of a Project and the two lists that only it
  reads are not modelled: they order identifiers by a locale.
\<close>

section \<open>Data\<close>

type_synonym utf16 = "nat list"

fun utf8_length :: "utf16 \<Rightarrow> int" where
  "utf8_length [] = 0"
| "utf8_length [u] = (if u < 0x80 then 1 else if u < 0x800 then 2 else 3)"
| "utf8_length (u # v # us) =
     (if u < 0x80 then 1 + utf8_length (v # us)
      else if u < 0x800 then 2 + utf8_length (v # us)
      else if 0xD800 \<le> u \<and> u < 0xDC00 \<and> 0xDC00 \<le> v \<and> v < 0xE000 then 4 + utf8_length us
      else 3 + utf8_length (v # us))"

datatype request_status = Open | Merged | Discarded

datatype relation_kind = References | Resolves

datatype relation_state = Pending | Accepted

datatype ticket_status = TicketOpen | TicketClosed

datatype mention_source = InDescription | InComment

record request_row =
  rq_id :: string
  rq_member :: string
  rq_status :: request_status
  rq_firstBase :: string
  rq_head :: string
  rq_merged :: "string option"
  rq_description :: utf16
  rq_revision :: int
  rq_createdAt :: int
  rq_updatedAt :: int

record relation_row =
  rl_id :: string
  rl_request :: string
  rl_ticket :: string
  rl_commit :: string
  rl_kind :: relation_kind
  rl_state :: relation_state
  rl_creator :: string
  rl_createdAt :: int
  rl_updatedAt :: int
  rl_acceptedAt :: "int option"
  rl_mergeOid :: "string option"

record ticket_row =
  tk_id :: string
  tk_number :: int
  tk_title :: utf16
  tk_body :: utf16
  tk_status :: ticket_status
  tk_author :: string
  tk_revision :: int
  tk_commentCount :: int
  tk_createdAt :: int
  tk_updatedAt :: int
  tk_closedAt :: "int option"
  tk_closedBy :: "string option"

text \<open>A comment of a request or of a ticket: the two tables have the same columns.\<close>

record comment_row =
  cm_id :: string
  cm_subject :: string
  cm_author :: string
  cm_body :: utf16
  cm_createdAt :: int

record mention_row =
  mn_ticket :: string
  mn_member :: string
  mn_kind :: mention_source
  mn_source :: string
  mn_createdAt :: int

text \<open>What the operations return: a request with its relations, and a ticket.\<close>

record relation_view =
  lv_commit :: string
  lv_id :: string
  lv_kind :: relation_kind
  lv_state :: relation_state
  lv_ticket :: string
  lv_ticketNumber :: int
  lv_ticketRevision :: int
  lv_ticketTitle :: utf16

record request_view =
  qv_commentCount :: int
  qv_createdAt :: int
  qv_description :: utf16
  qv_firstBase :: string
  qv_id :: string
  qv_head :: string
  qv_member :: string
  qv_merged :: "string option"
  qv_revision :: int
  qv_status :: request_status
  qv_relations :: "relation_view list"
  qv_updatedAt :: int

record ticket_view =
  tv_acceptedCount :: int
  tv_author :: string
  tv_commentCount :: int
  tv_createdAt :: int
  tv_id :: string
  tv_number :: int
  tv_revision :: int
  tv_status :: ticket_status
  tv_title :: utf16
  tv_updatedAt :: int
  tv_closed :: "(int \<times> string) option"

record accepted_view =
  av_acceptedAt :: int
  av_mergeOid :: string
  av_commit :: string
  av_id :: string
  av_kind :: relation_kind
  av_request :: string

text \<open>A stored response: that of an accepted request, or the serialized one of another operation.\<close>

datatype response = AcceptResponse string string request_view | OtherResponse string

record idempotency_identity =
  ii_key :: string
  ii_member :: string
  ii_operation :: string
  ii_fingerprint :: string

record idempotency_row =
  ir_identity :: idempotency_identity
  ir_response :: response
  ir_createdAt :: int

datatype idempotency_lookup = Missing | Conflict | Replay response

datatype idempotency_stored = StoreConflict | StoreReplay response | Stored response

record collab_db =
  cb_members :: "string list"
  cb_requests :: "request_row list"
  cb_relations :: "relation_row list"
  cb_tickets :: "ticket_row list"
  cb_requestComments :: "comment_row list"
  cb_ticketComments :: "comment_row list"
  cb_mentions :: "mention_row list"
  cb_idempotency :: "idempotency_row list"

text \<open>
  The limits of the protocol package, and what it and the database say of a response: the bytes
  of its JSON text, and whether the column takes it.
\<close>

record collab_env =
  ce_ids :: id_checks
  ce_descriptionBytes :: int
  ce_commentBytes :: int
  ce_requestComments :: int
  ce_requestRelations :: int
  ce_titleUtf16 :: int
  ce_bodyBytes :: int
  ce_ticketCommentBytes :: int
  ce_ticketComments :: int
  ce_jsonBytes :: int
  ce_jsonSize :: "response \<Rightarrow> int"
  ce_storable :: "response \<Rightarrow> bool"

text \<open>Inputs.\<close>

record create_request_input =
  cr_createdAt :: stamp
  cr_description :: utf16
  cr_firstBase :: string
  cr_head :: string
  cr_member :: string
  cr_request :: string

record update_request_input =
  ur_description :: utf16
  ur_expectedRevision :: int
  ur_head :: string
  ur_request :: string
  ur_updatedAt :: stamp

record create_comment_input =
  cc_author :: string
  cc_body :: utf16
  cc_comment :: string
  cc_createdAt :: stamp
  cc_subject :: string

record pending_relation =
  pr_kind :: relation_kind
  pr_relation :: string
  pr_ticket :: string

record replace_relations_input =
  rr_actor :: string
  rr_commit :: string
  rr_relations :: "pending_relation list"
  rr_request :: string
  rr_updatedAt :: stamp

record create_ticket_input =
  ct_author :: string
  ct_body :: utf16
  ct_createdAt :: stamp
  ct_ticket :: string
  ct_title :: utf16

record update_ticket_input =
  ut_body :: utf16
  ut_expectedRevision :: int
  ut_ticket :: string
  ut_title :: utf16
  ut_updatedAt :: stamp

record ticket_status_input =
  ts_actor :: string
  ts_expectedRevision :: int
  ts_status :: ticket_status
  ts_ticket :: string
  ts_updatedAt :: stamp

record replace_mentions_input =
  rm_createdAt :: stamp
  rm_members :: "string list"
  rm_source :: string
  rm_kind :: mention_source
  rm_ticket :: string

section \<open>Validation\<close>

definition opaque_id :: "collab_env \<Rightarrow> string \<Rightarrow> coord_error + unit" where
  "opaque_id E s = require (ic_opaque (ce_ids E) s)"

definition member_id :: "collab_env \<Rightarrow> string \<Rightarrow> coord_error + unit" where
  "member_id E s = require (ic_member (ce_ids E) s)"

definition git_oid :: "collab_env \<Rightarrow> string \<Rightarrow> coord_error + unit" where
  "git_oid E s = require (ic_oid (ce_ids E) s)"

definition positive_input :: "int \<Rightarrow> coord_error + unit" where
  "positive_input n = require (\<not> (\<not> safe_integer n \<or> n < 1))"

definition bounded_text :: "utf16 \<Rightarrow> int \<Rightarrow> bool \<Rightarrow> coord_error + unit" where
  "bounded_text s maximum allowEmpty =
     require (\<not> ((\<not> allowEmpty \<and> length s = 0) \<or> utf8_length s > maximum))"

definition bounded_utf16 :: "utf16 \<Rightarrow> int \<Rightarrow> coord_error + unit" where
  "bounded_utf16 s maximum = require (\<not> (length s = 0 \<or> int (length s) > maximum))"

text \<open>PostgreSQL does not store a text that contains the character zero.\<close>

definition storable_text :: "utf16 \<Rightarrow> bool" where
  "storable_text s \<longleftrightarrow> 0 \<notin> set s"

fun rmap_all :: "('a \<Rightarrow> 'e + 'b) \<Rightarrow> 'a list \<Rightarrow> 'e + 'b list" where
  "rmap_all f [] = Inr []"
| "rmap_all f (x # xs) = rbind (f x) (\<lambda>y. rbind (rmap_all f xs) (\<lambda>ys. Inr (y # ys)))"

text \<open>An \<open>UPDATE\<close> of the rows that satisfy a condition: the new rows, and the table.\<close>

definition update_rows ::
  "('a \<Rightarrow> bool) \<Rightarrow> ('a \<Rightarrow> 'a) \<Rightarrow> ('a \<Rightarrow> bool) \<Rightarrow> 'a list \<Rightarrow> coord_error + 'a list \<times> 'a list" where
  "update_rows P f ok xs =
     (let changed = map f (filter P xs)
      in if list_all ok changed then Inr (changed, map (\<lambda>x. if P x then f x else x) xs)
         else Inl DependencyFailed)"

text \<open>An \<open>INSERT\<close> of a row that the constraints of the table accept.\<close>

definition insert_row :: "bool \<Rightarrow> 'a \<Rightarrow> 'a list \<Rightarrow> coord_error + 'a list" where
  "insert_row ok x xs = (if ok then Inr (xs @ [x]) else Inl DependencyFailed)"

section \<open>Pages\<close>

definition page :: "'a list \<Rightarrow> int \<Rightarrow> ('a \<Rightarrow> 'c) \<Rightarrow> 'a list \<times> 'c option" where
  "page vs limit cursor =
     (let hasMore = int (length vs) > limit;
          items = take (nat limit) vs
      in (items, if hasMore \<and> 0 < length items then Some (cursor (last items)) else None))"

text \<open>\<open>ORDER BY key LIMIT limit + 1\<close> of the rows after a cursor, and their page.\<close>

definition rows_after :: "('a \<Rightarrow> int \<times> string) \<Rightarrow> (int \<times> string) option \<Rightarrow> int \<Rightarrow> 'a list \<Rightarrow> 'a list" where
  "rows_after key after limit xs =
     take (nat limit) (sort_key key (filter (\<lambda>x. case after of None \<Rightarrow> True | Some c \<Rightarrow>
        fst (key x) > fst c \<or> (fst (key x) = fst c \<and> snd (key x) > snd c)) xs))"

definition valid_cursor :: "collab_env \<Rightarrow> (stamp \<times> string) option \<Rightarrow> coord_error + (int \<times> string) option" where
  "valid_cursor E after =
     (case after of None \<Rightarrow> Inr None
      | Some (t, i) \<Rightarrow> rbind (opaque_id E i) (\<lambda>_. rbind (timestamp t) (\<lambda>n. Inr (Some (n, i)))))"

section \<open>Requests\<close>

definition relation_rows :: "string \<Rightarrow> collab_db \<Rightarrow> (relation_row \<times> ticket_row) list" where
  "relation_rows request db =
     sort_key (\<lambda>(r, t). (tk_number t, rl_id r))
       (concat (map (\<lambda>r. map (Pair r) (filter (\<lambda>t. tk_id t = rl_ticket r) (cb_tickets db)))
          (filter (\<lambda>r. rl_request r = request) (cb_relations db))))"

definition request_relation :: "collab_env \<Rightarrow> relation_row \<times> ticket_row \<Rightarrow> coord_error + relation_view" where
  "request_relation E = (\<lambda>(r, t).
     if \<not> ic_opaque (ce_ids E) (rl_id r) \<or> \<not> ic_opaque (ce_ids E) (rl_ticket r) \<or> \<not> ic_oid (ce_ids E) (rl_commit r)
        \<or> length (tk_title t) = 0 \<or> \<not> positive_safe (tk_number t) \<or> \<not> positive_safe (tk_revision t)
     then Inl DependencyFailed
     else Inr \<lparr>lv_commit = rl_commit r, lv_id = rl_id r, lv_kind = rl_kind r, lv_state = rl_state r,
       lv_ticket = rl_ticket r, lv_ticketNumber = tk_number t, lv_ticketRevision = tk_revision t,
       lv_ticketTitle = tk_title t\<rparr>)"

definition list_relations :: "collab_env \<Rightarrow> string \<Rightarrow> collab_db \<Rightarrow> coord_error + relation_view list" where
  "list_relations E request db = rmap_all (request_relation E) (relation_rows request db)"

definition comments_of :: "string \<Rightarrow> comment_row list \<Rightarrow> comment_row list" where
  "comments_of subject cs = filter (\<lambda>c. cm_subject c = subject) cs"

definition decode_request :: "collab_env \<Rightarrow> collab_db \<Rightarrow> request_row \<Rightarrow> coord_error + request_view" where
  "decode_request E db q =
     (if \<not> ic_opaque (ce_ids E) (rq_id q) \<or> \<not> ic_member (ce_ids E) (rq_member q) \<or> \<not> ic_oid (ce_ids E) (rq_firstBase q)
         \<or> \<not> ic_oid (ce_ids E) (rq_head q) \<or> \<not> option_ok (ic_oid (ce_ids E)) (rq_merged q)
      then Inl DependencyFailed
      else rbind (list_relations E (rq_id q) db) (\<lambda>relations.
           rbind (ensure (safe_integer (int (length (comments_of (rq_id q) (cb_requestComments db))))) DependencyFailed) (\<lambda>_.
           rbind (ensure (positive_safe (rq_revision q)) DependencyFailed) (\<lambda>_.
             Inr \<lparr>qv_commentCount = int (length (comments_of (rq_id q) (cb_requestComments db))),
               qv_createdAt = rq_createdAt q, qv_description = rq_description q, qv_firstBase = rq_firstBase q,
               qv_id = rq_id q, qv_head = rq_head q, qv_member = rq_member q, qv_merged = rq_merged q,
               qv_revision = rq_revision q, qv_status = rq_status q, qv_relations = relations,
               qv_updatedAt = rq_updatedAt q\<rparr>))))"

definition select_request :: "(request_row \<Rightarrow> bool) \<Rightarrow> collab_env \<Rightarrow> collab_db \<Rightarrow> coord_error + request_view option" where
  "select_request P E db =
     (case List.find P (cb_requests db) of
        None \<Rightarrow> Inr None
      | Some q \<Rightarrow> rbind (decode_request E db q) (\<lambda>v. Inr (Some v)))"

definition find_request :: "collab_env \<Rightarrow> string \<Rightarrow> collab_db \<Rightarrow> coord_error + request_view option" where
  "find_request E request db =
     rbind (opaque_id E request) (\<lambda>_. select_request (\<lambda>q. rq_id q = request) E db)"

definition find_open_by_member :: "collab_env \<Rightarrow> string \<Rightarrow> collab_db \<Rightarrow> coord_error + request_view option" where
  "find_open_by_member E member db =
     rbind (member_id E member) (\<lambda>_. select_request (\<lambda>q. rq_member q = member \<and> rq_status q = Open) E db)"

text \<open>A row that must be there after a statement.\<close>

definition present :: "coord_error + 'a option \<Rightarrow> coord_error + 'a" where
  "present r = rbind r (\<lambda>x. case x of None \<Rightarrow> Inl DependencyFailed | Some v \<Rightarrow> Inr v)"

text \<open>The checks of the table of requests.\<close>

definition request_row_ok :: "request_row \<Rightarrow> bool" where
  "request_row_ok q \<longleftrightarrow> 1 \<le> rq_revision q \<and> rq_revision q \<le> max_safe_integer
     \<and> (rq_status q = Merged) = (rq_merged q \<noteq> None) \<and> rq_createdAt q \<le> rq_updatedAt q"

definition request_insertable :: "request_row \<Rightarrow> collab_db \<Rightarrow> bool" where
  "request_insertable q db \<longleftrightarrow> request_row_ok q \<and> storable_text (rq_description q)
     \<and> rq_member q \<in> set (cb_members db)
     \<and> \<not> list_ex (\<lambda>x. rq_id x = rq_id q) (cb_requests db)
     \<and> \<not> (rq_status q = Open \<and> list_ex (\<lambda>x. rq_member x = rq_member q \<and> rq_status x = Open) (cb_requests db))"

definition create_request ::
  "collab_env \<Rightarrow> create_request_input \<Rightarrow> collab_db \<Rightarrow> coord_error + request_view \<times> collab_db" where
  "create_request E i db =
     rbind (opaque_id E (cr_request i)) (\<lambda>_.
     rbind (member_id E (cr_member i)) (\<lambda>_.
     rbind (git_oid E (cr_firstBase i)) (\<lambda>_.
     rbind (git_oid E (cr_head i)) (\<lambda>_.
     rbind (bounded_text (cr_description i) (ce_descriptionBytes E) True) (\<lambda>_.
     rbind (timestamp (cr_createdAt i)) (\<lambda>created.
     let q = \<lparr>rq_id = cr_request i, rq_member = cr_member i, rq_status = Open, rq_firstBase = cr_firstBase i,
              rq_head = cr_head i, rq_merged = None, rq_description = cr_description i, rq_revision = 1,
              rq_createdAt = created, rq_updatedAt = created\<rparr>
     in rbind (insert_row (request_insertable q db) q (cb_requests db)) (\<lambda>qs.
     let db' = db\<lparr>cb_requests := qs\<rparr>
     in rbind (present (find_request E (cr_request i) db')) (\<lambda>v. Inr (v, db')))))))))"

definition touch_open ::
  "collab_env \<Rightarrow> string \<Rightarrow> stamp \<Rightarrow> collab_db \<Rightarrow> coord_error + bool \<times> collab_db" where
  "touch_open E request t db =
     rbind (opaque_id E request) (\<lambda>_.
     rbind (timestamp t) (\<lambda>updated.
     rbind (update_rows (\<lambda>q. rq_id q = request \<and> rq_status q = Open) (rq_updatedAt_update (\<lambda>_. updated))
         request_row_ok (cb_requests db)) (\<lambda>(changed, qs).
       Inr (changed \<noteq> [], db\<lparr>cb_requests := qs\<rparr>))))"

definition comment_insertable :: "comment_row \<Rightarrow> comment_row list \<Rightarrow> collab_db \<Rightarrow> bool" where
  "comment_insertable c cs db \<longleftrightarrow> cm_author c \<in> set (cb_members db) \<and> cm_body c \<noteq> [] \<and> storable_text (cm_body c)
     \<and> \<not> list_ex (\<lambda>x. cm_id x = cm_id c) cs"

definition comment_decodable :: "collab_env \<Rightarrow> comment_row \<Rightarrow> coord_error + comment_row" where
  "comment_decodable E c =
     (if \<not> ic_opaque (ce_ids E) (cm_id c) \<or> \<not> ic_opaque (ce_ids E) (cm_subject c) \<or> \<not> ic_member (ce_ids E) (cm_author c)
         \<or> length (cm_body c) = 0
      then Inl DependencyFailed else Inr c)"

definition comment_from :: "create_comment_input \<Rightarrow> int \<Rightarrow> comment_row" where
  "comment_from i created = \<lparr>cm_id = cc_comment i, cm_subject = cc_subject i, cm_author = cc_author i,
     cm_body = cc_body i, cm_createdAt = created\<rparr>"

definition create_request_comment ::
  "collab_env \<Rightarrow> create_comment_input \<Rightarrow> collab_db \<Rightarrow> coord_error + (comment_row \<times> request_view) \<times> collab_db" where
  "create_request_comment E i db =
     rbind (opaque_id E (cc_comment i)) (\<lambda>_.
     rbind (opaque_id E (cc_subject i)) (\<lambda>_.
     rbind (member_id E (cc_author i)) (\<lambda>_.
     rbind (bounded_text (cc_body i) (ce_commentBytes E) False) (\<lambda>_.
     rbind (timestamp (cc_createdAt i)) (\<lambda>created.
     rbind (ensure (list_ex (\<lambda>q. rq_id q = cc_subject i \<and> rq_status q = Open) (cb_requests db)
         \<and> int (length (comments_of (cc_subject i) (cb_requestComments db))) < ce_requestComments E) StateConflict) (\<lambda>_.
     let c = comment_from i created
     in rbind (insert_row (comment_insertable c (cb_requestComments db) db) c (cb_requestComments db)) (\<lambda>cs.
     rbind (touch_open E (cc_subject i) (cc_createdAt i) (db\<lparr>cb_requestComments := cs\<rparr>)) (\<lambda>(touched, db').
     rbind (ensure touched StateConflict) (\<lambda>_.
     rbind (present (find_request E (cc_subject i) db')) (\<lambda>v.
     rbind (comment_decodable E c) (\<lambda>c'. Inr ((c', v), db'))))))))))))"

definition list_request_comments ::
  "collab_env \<Rightarrow> string \<Rightarrow> (stamp \<times> string) option \<Rightarrow> int \<Rightarrow> collab_db
    \<Rightarrow> coord_error + comment_row list \<times> (int \<times> string) option" where
  "list_request_comments E request after limit db =
     rbind (opaque_id E request) (\<lambda>_.
     rbind (positive_input limit) (\<lambda>_.
     rbind (valid_cursor E after) (\<lambda>c.
     rbind (rmap_all (comment_decodable E) (rows_after (\<lambda>x. (cm_createdAt x, cm_id x)) c (limit + 1)
         (comments_of request (cb_requestComments db)))) (\<lambda>vs.
       Inr (page vs limit (\<lambda>x. (cm_createdAt x, cm_id x)))))))"

definition update_open ::
  "collab_env \<Rightarrow> update_request_input \<Rightarrow> collab_db \<Rightarrow> coord_error + request_view option \<times> collab_db" where
  "update_open E i db =
     rbind (opaque_id E (ur_request i)) (\<lambda>_.
     rbind (positive_input (ur_expectedRevision i)) (\<lambda>_.
     rbind (git_oid E (ur_head i)) (\<lambda>_.
     rbind (bounded_text (ur_description i) (ce_descriptionBytes E) True) (\<lambda>_.
     rbind (timestamp (ur_updatedAt i)) (\<lambda>updated.
     rbind (update_rows (\<lambda>q. rq_id q = ur_request i \<and> rq_status q = Open \<and> rq_revision q = ur_expectedRevision i
             \<and> rq_revision q < max_safe_integer)
         (\<lambda>q. q\<lparr>rq_head := ur_head i, rq_description := ur_description i, rq_revision := rq_revision q + 1,
             rq_updatedAt := updated\<rparr>)
         (\<lambda>q. request_row_ok q \<and> storable_text (rq_description q)) (cb_requests db)) (\<lambda>(changed, qs).
     let db' = db\<lparr>cb_requests := qs\<rparr>
     in if changed = [] then Inr (None, db')
        else rbind (find_request E (ur_request i) db') (\<lambda>v. Inr (v, db'))))))))"

section \<open>Relations\<close>

text \<open>\<open>new Map\<close> by ticket, in the order of insertion; a second relation of a ticket is refused.\<close>

fun desired_relations ::
  "collab_env \<Rightarrow> pending_relation list \<Rightarrow> pending_relation list \<Rightarrow> coord_error + pending_relation list" where
  "desired_relations E [] ds = Inr ds"
| "desired_relations E (r # rs) ds =
     rbind (opaque_id E (pr_relation r)) (\<lambda>_.
     rbind (opaque_id E (pr_ticket r)) (\<lambda>_.
     rbind (require (\<not> list_ex (\<lambda>d. pr_ticket d = pr_ticket r) ds)) (\<lambda>_.
       desired_relations E rs (ds @ [r]))))"

definition relation_row_ok :: "relation_row \<Rightarrow> bool" where
  "relation_row_ok r \<longleftrightarrow> rl_createdAt r \<le> rl_updatedAt r
     \<and> (rl_state r = Pending \<longrightarrow> rl_acceptedAt r = None \<and> rl_mergeOid r = None)
     \<and> (rl_state r = Accepted \<longrightarrow> rl_acceptedAt r \<noteq> None \<and> rl_mergeOid r \<noteq> None)
     \<and> option_ok (\<lambda>t. rl_createdAt r \<le> t) (rl_acceptedAt r)"

definition relation_insertable :: "relation_row \<Rightarrow> collab_db \<Rightarrow> bool" where
  "relation_insertable r db \<longleftrightarrow> relation_row_ok r \<and> rl_creator r \<in> set (cb_members db)
     \<and> list_ex (\<lambda>q. rq_id q = rl_request r) (cb_requests db) \<and> list_ex (\<lambda>t. tk_id t = rl_ticket r) (cb_tickets db)
     \<and> \<not> list_ex (\<lambda>x. rl_id x = rl_id r) (cb_relations db)
     \<and> \<not> list_ex (\<lambda>x. rl_request x = rl_request r \<and> rl_ticket x = rl_ticket r) (cb_relations db)"

text \<open>The loop over the existing relations: the ones that stay are updated, the others deleted.\<close>

fun keep_relations ::
  "replace_relations_input \<Rightarrow> int \<Rightarrow> pending_relation list \<Rightarrow> relation_view list \<Rightarrow> collab_db
    \<Rightarrow> coord_error + pending_relation list \<times> collab_db" where
  "keep_relations i updated ds [] db = Inr (ds, db)"
| "keep_relations i updated ds (v # vs) db =
     (case List.extract (\<lambda>d. pr_ticket d = lv_ticket v) ds of
        None \<Rightarrow> keep_relations i updated ds vs
          (db\<lparr>cb_relations := filter (\<lambda>r. \<not> (rl_id r = lv_id v \<and> rl_state r = Pending)) (cb_relations db)\<rparr>)
      | Some (xs, d, ys) \<Rightarrow>
          rbind (update_rows (\<lambda>r. rl_id r = lv_id v \<and> rl_state r = Pending)
              (\<lambda>r. r\<lparr>rl_kind := pr_kind d, rl_commit := rr_commit i, rl_updatedAt := updated\<rparr>)
              relation_row_ok (cb_relations db)) (\<lambda>(_, rs).
            keep_relations i updated (xs @ ys) vs (db\<lparr>cb_relations := rs\<rparr>)))"

fun add_relations ::
  "replace_relations_input \<Rightarrow> int \<Rightarrow> pending_relation list \<Rightarrow> collab_db \<Rightarrow> coord_error + collab_db" where
  "add_relations i updated [] db = Inr db"
| "add_relations i updated (d # ds) db =
     (let r = \<lparr>rl_id = pr_relation d, rl_request = rr_request i, rl_ticket = pr_ticket d, rl_commit = rr_commit i,
               rl_kind = pr_kind d, rl_state = Pending, rl_creator = rr_actor i, rl_createdAt = updated,
               rl_updatedAt = updated, rl_acceptedAt = None, rl_mergeOid = None\<rparr>
      in rbind (insert_row (relation_insertable r db) r (cb_relations db)) (\<lambda>rs.
           add_relations i updated ds (db\<lparr>cb_relations := rs\<rparr>)))"

definition replace_pending_relations ::
  "collab_env \<Rightarrow> replace_relations_input \<Rightarrow> collab_db \<Rightarrow> coord_error + relation_view list \<times> collab_db" where
  "replace_pending_relations E i db =
     rbind (opaque_id E (rr_request i)) (\<lambda>_.
     rbind (member_id E (rr_actor i)) (\<lambda>_.
     rbind (git_oid E (rr_commit i)) (\<lambda>_.
     rbind (timestamp (rr_updatedAt i)) (\<lambda>updated.
     rbind (require (\<not> int (length (rr_relations i)) > ce_requestRelations E)) (\<lambda>_.
     rbind (desired_relations E (rr_relations i) []) (\<lambda>ds.
     rbind (list_relations E (rr_request i) db) (\<lambda>existing.
     rbind (ensure (\<not> list_ex (\<lambda>v. lv_state v = Accepted) existing) StateConflict) (\<lambda>_.
     rbind (keep_relations i updated ds existing db) (\<lambda>(ds', db1).
     rbind (add_relations i updated ds' db1) (\<lambda>db2.
     rbind (list_relations E (rr_request i) db2) (\<lambda>vs. Inr (vs, db2))))))))))))"

section \<open>Tickets\<close>

definition accepted_of :: "string \<Rightarrow> collab_db \<Rightarrow> relation_row list" where
  "accepted_of ticket db = filter (\<lambda>r. rl_ticket r = ticket \<and> rl_state r = Accepted) (cb_relations db)"

definition ticket_summary :: "collab_env \<Rightarrow> collab_db \<Rightarrow> ticket_row \<Rightarrow> coord_error + ticket_view" where
  "ticket_summary E db t =
     (if \<not> ic_opaque (ce_ids E) (tk_id t) \<or> \<not> ic_member (ce_ids E) (tk_author t) \<or> length (tk_title t) = 0
         \<or> \<not> option_ok (ic_member (ce_ids E)) (tk_closedBy t)
         \<or> (tk_status t = TicketOpen \<and> (tk_closedAt t \<noteq> None \<or> tk_closedBy t \<noteq> None))
         \<or> (tk_status t = TicketClosed \<and> (tk_closedAt t = None \<or> tk_closedBy t = None))
         \<or> \<not> safe_integer (int (length (accepted_of (tk_id t) db)))
         \<or> \<not> (safe_integer (tk_commentCount t) \<and> 0 \<le> tk_commentCount t)
         \<or> \<not> positive_safe (tk_number t) \<or> \<not> positive_safe (tk_revision t)
      then Inl DependencyFailed
      else Inr \<lparr>tv_acceptedCount = int (length (accepted_of (tk_id t) db)), tv_author = tk_author t,
        tv_commentCount = tk_commentCount t, tv_createdAt = tk_createdAt t, tv_id = tk_id t,
        tv_number = tk_number t, tv_revision = tk_revision t, tv_status = tk_status t, tv_title = tk_title t,
        tv_updatedAt = tk_updatedAt t,
        tv_closed = (case (tk_closedAt t, tk_closedBy t) of (Some a, Some m) \<Rightarrow> Some (a, m) | _ \<Rightarrow> None)\<rparr>)"

definition select_ticket :: "(ticket_row \<Rightarrow> bool) \<Rightarrow> collab_env \<Rightarrow> collab_db \<Rightarrow> coord_error + ticket_view option" where
  "select_ticket P E db =
     (case List.find P (cb_tickets db) of
        None \<Rightarrow> Inr None
      | Some t \<Rightarrow> rbind (ticket_summary E db t) (\<lambda>v. Inr (Some v)))"

definition find_ticket :: "collab_env \<Rightarrow> string \<Rightarrow> collab_db \<Rightarrow> coord_error + ticket_view option" where
  "find_ticket E ticket db =
     rbind (opaque_id E ticket) (\<lambda>_. select_ticket (\<lambda>t. tk_id t = ticket) E db)"

definition find_ticket_detail ::
  "collab_env \<Rightarrow> string \<Rightarrow> collab_db \<Rightarrow> coord_error + (utf16 \<times> ticket_view) option" where
  "find_ticket_detail E ticket db =
     rbind (find_ticket E ticket db) (\<lambda>v.
       case v of
         None \<Rightarrow> Inr None
       | Some tv \<Rightarrow>
           (case List.find (\<lambda>t. tk_id t = ticket) (cb_tickets db) of
              None \<Rightarrow> Inl DependencyFailed
            | Some t \<Rightarrow> rbind (bounded_text (tk_body t) (ce_bodyBytes E) False) (\<lambda>_. Inr (Some (tk_body t, tv)))))"

definition find_ticket_by_number :: "collab_env \<Rightarrow> int \<Rightarrow> collab_db \<Rightarrow> coord_error + ticket_view option" where
  "find_ticket_by_number E n db =
     rbind (positive_input n) (\<lambda>_. select_ticket (\<lambda>t. tk_number t = n) E db)"

definition find_tickets_by_numbers :: "collab_env \<Rightarrow> int list \<Rightarrow> collab_db \<Rightarrow> coord_error + ticket_view list" where
  "find_tickets_by_numbers E ns db =
     (if ns = [] then Inr []
      else rbind (rmap_all positive_input ns) (\<lambda>_.
        rmap_all (ticket_summary E db) (sort_key tk_number (filter (\<lambda>t. tk_number t \<in> set ns) (cb_tickets db)))))"

definition has_pending_resolve :: "collab_env \<Rightarrow> string \<Rightarrow> collab_db \<Rightarrow> coord_error + bool" where
  "has_pending_resolve E ticket db =
     rbind (opaque_id E ticket) (\<lambda>_.
       Inr (list_ex (\<lambda>r. rl_ticket r = ticket \<and> rl_state r = Pending \<and> rl_kind r = Resolves) (cb_relations db)))"

definition list_tickets ::
  "collab_env \<Rightarrow> (stamp \<times> int) option \<Rightarrow> int \<Rightarrow> ticket_status option \<Rightarrow> collab_db \<Rightarrow> coord_error + ticket_view list" where
  "list_tickets E after limit status db =
     rbind (positive_input limit) (\<lambda>_.
     rbind (case after of None \<Rightarrow> Inr None
            | Some (t, n) \<Rightarrow> rbind (positive_input n) (\<lambda>_. rbind (timestamp t) (\<lambda>a. Inr (Some (a, n))))) (\<lambda>c.
       rmap_all (ticket_summary E db) (take (nat limit) (sort_key (\<lambda>t. (- tk_updatedAt t, - tk_number t))
         (filter (\<lambda>t. (status = None \<or> status = Some (tk_status t))
            \<and> (case c of None \<Rightarrow> True | Some (a, n) \<Rightarrow>
                 tk_updatedAt t < a \<or> (tk_updatedAt t = a \<and> tk_number t < n))) (cb_tickets db))))))"

definition accepted_relation :: "collab_env \<Rightarrow> relation_row \<Rightarrow> coord_error + accepted_view" where
  "accepted_relation E r =
     (case (rl_acceptedAt r, rl_mergeOid r) of
        (Some a, Some m) \<Rightarrow>
          if \<not> ic_opaque (ce_ids E) (rl_id r) \<or> \<not> ic_opaque (ce_ids E) (rl_request r) \<or> \<not> ic_oid (ce_ids E) (rl_commit r)
             \<or> \<not> ic_oid (ce_ids E) m \<or> rl_state r \<noteq> Accepted
          then Inl DependencyFailed
          else Inr \<lparr>av_acceptedAt = a, av_mergeOid = m, av_commit = rl_commit r, av_id = rl_id r, av_kind = rl_kind r,
            av_request = rl_request r\<rparr>
      | _ \<Rightarrow> Inl DependencyFailed)"

definition list_accepted_relations ::
  "collab_env \<Rightarrow> string \<Rightarrow> (stamp \<times> string) option \<Rightarrow> int \<Rightarrow> collab_db
    \<Rightarrow> coord_error + accepted_view list \<times> (int \<times> string) option" where
  "list_accepted_relations E ticket after limit db =
     rbind (opaque_id E ticket) (\<lambda>_.
     rbind (positive_input limit) (\<lambda>_.
     rbind (valid_cursor E after) (\<lambda>c.
     rbind (rmap_all (accepted_relation E) (rows_after (\<lambda>r. (case rl_acceptedAt r of None \<Rightarrow> 0 | Some a \<Rightarrow> a, rl_id r)) c (limit + 1)
         (filter (\<lambda>r. \<exists>t\<in>set (cb_tickets db). tk_id t = rl_ticket r) (accepted_of ticket db)))) (\<lambda>vs.
       Inr (page vs limit (\<lambda>v. (av_acceptedAt v, av_id v)))))))"

definition list_ticket_comments ::
  "collab_env \<Rightarrow> string \<Rightarrow> (stamp \<times> string) option \<Rightarrow> int \<Rightarrow> collab_db
    \<Rightarrow> coord_error + comment_row list \<times> (int \<times> string) option" where
  "list_ticket_comments E ticket after limit db =
     rbind (opaque_id E ticket) (\<lambda>_.
     rbind (positive_input limit) (\<lambda>_.
     rbind (valid_cursor E after) (\<lambda>c.
     rbind (rmap_all (comment_decodable E) (rows_after (\<lambda>x. (cm_createdAt x, cm_id x)) c (limit + 1)
         (comments_of ticket (cb_ticketComments db)))) (\<lambda>vs.
       Inr (page vs limit (\<lambda>x. (cm_createdAt x, cm_id x)))))))"

text \<open>The checks of the table of tickets; its comment counter ends at 500.\<close>

definition ticket_row_ok :: "ticket_row \<Rightarrow> bool" where
  "ticket_row_ok t \<longleftrightarrow> 1 \<le> tk_number t \<and> tk_number t \<le> max_safe_integer
     \<and> 1 \<le> tk_revision t \<and> tk_revision t \<le> max_safe_integer \<and> 0 \<le> tk_commentCount t \<and> tk_commentCount t \<le> 500
     \<and> tk_title t \<noteq> [] \<and> tk_body t \<noteq> []
     \<and> (tk_status t = TicketOpen \<longrightarrow> tk_closedAt t = None \<and> tk_closedBy t = None)
     \<and> (tk_status t = TicketClosed \<longrightarrow> tk_closedAt t \<noteq> None \<and> tk_closedBy t \<noteq> None)
     \<and> tk_createdAt t \<le> tk_updatedAt t \<and> option_ok (\<lambda>a. tk_createdAt t \<le> a) (tk_closedAt t)"

definition ticket_storable :: "ticket_row \<Rightarrow> bool" where
  "ticket_storable t \<longleftrightarrow> storable_text (tk_title t) \<and> length (tk_title t) \<le> 200 \<and> storable_text (tk_body t)"

definition change_ticket_status ::
  "collab_env \<Rightarrow> ticket_status_input \<Rightarrow> collab_db \<Rightarrow> coord_error + ticket_view option \<times> collab_db" where
  "change_ticket_status E i db =
     rbind (opaque_id E (ts_ticket i)) (\<lambda>_.
     rbind (member_id E (ts_actor i)) (\<lambda>_.
     rbind (positive_input (ts_expectedRevision i)) (\<lambda>_.
     rbind (timestamp (ts_updatedAt i)) (\<lambda>updated.
     rbind (update_rows (\<lambda>t. tk_id t = ts_ticket i \<and> tk_revision t = ts_expectedRevision i
             \<and> tk_revision t < max_safe_integer \<and> tk_status t \<noteq> ts_status i)
         (\<lambda>t. t\<lparr>tk_status := ts_status i, tk_revision := tk_revision t + 1, tk_updatedAt := updated,
             tk_closedAt := (if ts_status i = TicketClosed then Some updated else None),
             tk_closedBy := (if ts_status i = TicketClosed then Some (ts_actor i) else None)\<rparr>)
         (\<lambda>t. ticket_row_ok t \<and> option_ok (\<lambda>m. m \<in> set (cb_members db)) (tk_closedBy t)) (cb_tickets db)) (\<lambda>(changed, ts).
     let db' = db\<lparr>cb_tickets := ts\<rparr>
     in if changed = [] then Inr (None, db')
        else rbind (find_ticket E (ts_ticket i) db') (\<lambda>v. Inr (v, db')))))))"

definition next_ticket_number :: "collab_db \<Rightarrow> int" where
  "next_ticket_number db = foldr max (map tk_number (cb_tickets db)) 0 + 1"

definition create_ticket ::
  "collab_env \<Rightarrow> create_ticket_input \<Rightarrow> collab_db \<Rightarrow> coord_error + ticket_view \<times> collab_db" where
  "create_ticket E i db =
     rbind (opaque_id E (ct_ticket i)) (\<lambda>_.
     rbind (member_id E (ct_author i)) (\<lambda>_.
     rbind (bounded_utf16 (ct_title i) (ce_titleUtf16 E)) (\<lambda>_.
     rbind (bounded_text (ct_body i) (ce_bodyBytes E) False) (\<lambda>_.
     rbind (timestamp (ct_createdAt i)) (\<lambda>created.
     let t = \<lparr>tk_id = ct_ticket i, tk_number = next_ticket_number db, tk_title = ct_title i, tk_body = ct_body i,
              tk_status = TicketOpen, tk_author = ct_author i, tk_revision = 1, tk_commentCount = 0,
              tk_createdAt = created, tk_updatedAt = created, tk_closedAt = None, tk_closedBy = None\<rparr>
     in rbind (insert_row (ticket_row_ok t \<and> ticket_storable t \<and> tk_author t \<in> set (cb_members db)
          \<and> \<not> list_ex (\<lambda>x. tk_id x = tk_id t \<or> tk_number x = tk_number t) (cb_tickets db)) t (cb_tickets db)) (\<lambda>ts.
     let db' = db\<lparr>cb_tickets := ts\<rparr>
     in rbind (present (find_ticket E (ct_ticket i) db')) (\<lambda>v. Inr (v, db'))))))))"

definition count_comment :: "int \<Rightarrow> ticket_row \<Rightarrow> ticket_row" where
  "count_comment created t = t\<lparr>tk_commentCount := tk_commentCount t + 1, tk_revision := tk_revision t + 1,
     tk_updatedAt := created\<rparr>"

definition create_ticket_comment ::
  "collab_env \<Rightarrow> create_comment_input \<Rightarrow> collab_db \<Rightarrow> coord_error + (comment_row \<times> ticket_view) \<times> collab_db" where
  "create_ticket_comment E i db =
     rbind (opaque_id E (cc_comment i)) (\<lambda>_.
     rbind (opaque_id E (cc_subject i)) (\<lambda>_.
     rbind (member_id E (cc_author i)) (\<lambda>_.
     rbind (bounded_text (cc_body i) (ce_ticketCommentBytes E) False) (\<lambda>_.
     rbind (timestamp (cc_createdAt i)) (\<lambda>created.
     rbind (ensure (list_ex (\<lambda>t. tk_id t = cc_subject i \<and> tk_commentCount t < ce_ticketComments E) (cb_tickets db)) StateConflict) (\<lambda>_.
     let c = comment_from i created
     in rbind (insert_row (comment_insertable c (cb_ticketComments db) db) c (cb_ticketComments db)) (\<lambda>cs.
     rbind (update_rows (\<lambda>t. tk_id t = cc_subject i \<and> tk_commentCount t < ce_ticketComments E
             \<and> tk_revision t < max_safe_integer)
         (count_comment created) ticket_row_ok (cb_tickets db)) (\<lambda>(changed, ts).
     rbind (ensure (changed \<noteq> []) StateConflict) (\<lambda>_.
     let db' = db\<lparr>cb_ticketComments := cs, cb_tickets := ts\<rparr>
     in rbind (present (find_ticket E (cc_subject i) db')) (\<lambda>v.
     rbind (comment_decodable E c) (\<lambda>c'. Inr ((c', v), db'))))))))))))"

definition update_ticket_content ::
  "collab_env \<Rightarrow> update_ticket_input \<Rightarrow> collab_db \<Rightarrow> coord_error + ticket_view option \<times> collab_db" where
  "update_ticket_content E i db =
     rbind (opaque_id E (ut_ticket i)) (\<lambda>_.
     rbind (positive_input (ut_expectedRevision i)) (\<lambda>_.
     rbind (bounded_utf16 (ut_title i) (ce_titleUtf16 E)) (\<lambda>_.
     rbind (bounded_text (ut_body i) (ce_bodyBytes E) False) (\<lambda>_.
     rbind (timestamp (ut_updatedAt i)) (\<lambda>updated.
     rbind (update_rows (\<lambda>t. tk_id t = ut_ticket i \<and> tk_revision t = ut_expectedRevision i \<and> tk_revision t < max_safe_integer)
         (\<lambda>t. t\<lparr>tk_title := ut_title i, tk_body := ut_body i, tk_revision := tk_revision t + 1, tk_updatedAt := updated\<rparr>)
         (\<lambda>t. ticket_row_ok t \<and> ticket_storable t) (cb_tickets db)) (\<lambda>(changed, ts).
     let db' = db\<lparr>cb_tickets := ts\<rparr>
     in if changed = [] then Inr (None, db')
        else rbind (find_ticket E (ut_ticket i) db') (\<lambda>v. Inr (v, db'))))))))"

fun add_mentions ::
  "replace_mentions_input \<Rightarrow> int \<Rightarrow> string list \<Rightarrow> collab_db \<Rightarrow> coord_error + collab_db" where
  "add_mentions i created [] db = Inr db"
| "add_mentions i created (m # ms) db =
     (let x = \<lparr>mn_ticket = rm_ticket i, mn_member = m, mn_kind = rm_kind i, mn_source = rm_source i, mn_createdAt = created\<rparr>
      in rbind (insert_row (m \<in> set (cb_members db) \<and> list_ex (\<lambda>t. tk_id t = rm_ticket i) (cb_tickets db)
           \<and> \<not> list_ex (\<lambda>y. mn_ticket y = mn_ticket x \<and> mn_kind y = mn_kind x \<and> mn_source y = mn_source x
                \<and> mn_member y = mn_member x) (cb_mentions db)) x (cb_mentions db)) (\<lambda>ms'.
           add_mentions i created ms (db\<lparr>cb_mentions := ms'\<rparr>)))"

definition replace_mentions ::
  "collab_env \<Rightarrow> replace_mentions_input \<Rightarrow> collab_db \<Rightarrow> coord_error + unit \<times> collab_db" where
  "replace_mentions E i db =
     rbind (opaque_id E (rm_ticket i)) (\<lambda>_.
     rbind (opaque_id E (rm_source i)) (\<lambda>_.
     rbind (timestamp (rm_createdAt i)) (\<lambda>created.
     rbind (require (\<not> (rm_kind i = InDescription \<and> rm_source i \<noteq> rm_ticket i))) (\<lambda>_.
     rbind (require (distinct (rm_members i))) (\<lambda>_.
     rbind (rmap_all (member_id E) (rm_members i)) (\<lambda>_.
     rbind (add_mentions i created (rm_members i)
         (db\<lparr>cb_mentions := filter (\<lambda>y. \<not> (mn_ticket y = rm_ticket i \<and> mn_kind y = rm_kind i \<and> mn_source y = rm_source i))
            (cb_mentions db)\<rparr>)) (\<lambda>db'. Inr ((), db'))))))))"

definition count_open_tickets :: "collab_db \<Rightarrow> coord_error + int" where
  "count_open_tickets db =
     (let n = int (length (filter (\<lambda>t. tk_status t = TicketOpen) (cb_tickets db)))
      in rbind (ensure (safe_integer n) DependencyFailed) (\<lambda>_. Inr n))"

section \<open>Idempotency results\<close>

definition idempotent_operations :: "string list" where
  "idempotent_operations = [''acceptRequest'', ''closeTicket'', ''createComment'', ''createTicket'',
     ''createTicketComment'', ''ensureMyRequest'', ''getRequest'', ''getTicket'', ''listRequestComments'',
     ''listTicketAcceptedRelations'', ''listTicketComments'', ''listTickets'', ''reopenTicket'',
     ''updateMyRequestMetadata'', ''updateTicketContent'']"

definition validate_identity :: "collab_env \<Rightarrow> idempotency_identity \<Rightarrow> coord_error + unit" where
  "validate_identity E i =
     rbind (member_id E (ii_member i)) (\<lambda>_.
     rbind (opaque_id E (ii_key i)) (\<lambda>_.
       require (ii_operation i \<in> set idempotent_operations \<and> sha256_ok (ii_fingerprint i))))"

definition same_key :: "idempotency_identity \<Rightarrow> idempotency_identity \<Rightarrow> bool" where
  "same_key i j \<longleftrightarrow> ii_member i = ii_member j \<and> ii_operation i = ii_operation j \<and> ii_key i = ii_key j"

definition find_result :: "collab_env \<Rightarrow> idempotency_identity \<Rightarrow> collab_db \<Rightarrow> coord_error + idempotency_lookup" where
  "find_result E i db =
     rbind (validate_identity E i) (\<lambda>_.
       case List.find (\<lambda>r. same_key i (ir_identity r)) (cb_idempotency db) of
         None \<Rightarrow> Inr Missing
       | Some r \<Rightarrow> if ii_fingerprint (ir_identity r) \<noteq> ii_fingerprint i then Inr Conflict else Inr (Replay (ir_response r)))"

definition store_result ::
  "collab_env \<Rightarrow> idempotency_identity \<Rightarrow> stamp \<Rightarrow> response \<Rightarrow> collab_db \<Rightarrow> coord_error + idempotency_stored \<times> collab_db" where
  "store_result E i t response db =
     rbind (validate_identity E i) (\<lambda>_.
     rbind (timestamp t) (\<lambda>created.
     rbind (require (\<not> ce_jsonSize E response > ce_jsonBytes E)) (\<lambda>_.
       if list_ex (\<lambda>r. same_key i (ir_identity r)) (cb_idempotency db)
       then rbind (find_result E i db) (\<lambda>l.
              case l of
                Missing \<Rightarrow> Inl DependencyFailed
              | Conflict \<Rightarrow> Inr (StoreConflict, db)
              | Replay r \<Rightarrow> Inr (StoreReplay r, db))
       else rbind (insert_row (ii_member i \<in> set (cb_members db) \<and> ce_storable E response)
              \<lparr>ir_identity = i, ir_response = response, ir_createdAt = created\<rparr> (cb_idempotency db)) (\<lambda>rs.
              Inr (Stored response, db\<lparr>cb_idempotency := rs\<rparr>)))))"

section \<open>Well-formed tables\<close>

text \<open>
  What the tables promise together: identifiers are unique, rows pass the checks of their table
  and refer to rows that exist, a member has at most one open request, a request has at most one
  relation to a ticket, tickets are numbered from 1 in the order of their creation, the counter of
  a ticket is the number of its comments, and an idempotency key has one result.
\<close>

definition requests_ok :: "collab_db \<Rightarrow> bool" where
  "requests_ok db \<longleftrightarrow> distinct (map rq_id (cb_requests db))
     \<and> distinct (map rq_member (filter (\<lambda>q. rq_status q = Open) (cb_requests db)))
     \<and> (\<forall>q\<in>set (cb_requests db). request_row_ok q \<and> rq_member q \<in> set (cb_members db))"

definition relations_ok :: "collab_db \<Rightarrow> bool" where
  "relations_ok db \<longleftrightarrow> distinct (map rl_id (cb_relations db))
     \<and> distinct (map (\<lambda>r. (rl_request r, rl_ticket r)) (cb_relations db))
     \<and> (\<forall>r\<in>set (cb_relations db). relation_row_ok r \<and> rl_request r \<in> rq_id ` set (cb_requests db)
          \<and> rl_ticket r \<in> tk_id ` set (cb_tickets db))"

definition tickets_ok :: "collab_db \<Rightarrow> bool" where
  "tickets_ok db \<longleftrightarrow> distinct (map tk_id (cb_tickets db))
     \<and> map tk_number (cb_tickets db) = map int [1..<Suc (length (cb_tickets db))]
     \<and> (\<forall>t\<in>set (cb_tickets db). ticket_row_ok t
          \<and> tk_commentCount t = int (length (comments_of (tk_id t) (cb_ticketComments db))))"

definition comments_ok :: "collab_db \<Rightarrow> bool" where
  "comments_ok db \<longleftrightarrow> distinct (map cm_id (cb_requestComments db)) \<and> distinct (map cm_id (cb_ticketComments db))
     \<and> (\<forall>c\<in>set (cb_requestComments db). cm_subject c \<in> rq_id ` set (cb_requests db))
     \<and> (\<forall>c\<in>set (cb_ticketComments db). cm_subject c \<in> tk_id ` set (cb_tickets db))"

definition result_key :: "idempotency_row \<Rightarrow> string \<times> string \<times> string" where
  "result_key r = (ii_member (ir_identity r), ii_operation (ir_identity r), ii_key (ir_identity r))"

definition results_ok :: "collab_db \<Rightarrow> bool" where
  "results_ok db \<longleftrightarrow> distinct (map result_key (cb_idempotency db))"

definition collab_ok :: "collab_db \<Rightarrow> bool" where
  "collab_ok db \<longleftrightarrow> requests_ok db \<and> relations_ok db \<and> tickets_ok db \<and> comments_ok db \<and> results_ok db"

text \<open>
  What no operation undoes. A request keeps its identity, its revision counts its contents, and
  once merged or discarded it stays as it is; a ticket keeps its identity and number, and its
  revision counts its states; comments, accepted relations and results are never changed.
\<close>

definition request_history :: "request_row \<Rightarrow> request_row \<Rightarrow> bool" where
  "request_history q q' \<longleftrightarrow> rq_id q' = rq_id q \<and> rq_member q' = rq_member q \<and> rq_firstBase q' = rq_firstBase q
     \<and> rq_createdAt q' = rq_createdAt q \<and> rq_revision q \<le> rq_revision q'
     \<and> (rq_revision q' = rq_revision q \<longrightarrow> rq_head q' = rq_head q \<and> rq_description q' = rq_description q)
     \<and> (rq_status q \<noteq> Open \<longrightarrow> q' = q)"

definition ticket_history :: "ticket_row \<Rightarrow> ticket_row \<Rightarrow> bool" where
  "ticket_history t t' \<longleftrightarrow> tk_id t' = tk_id t \<and> tk_number t' = tk_number t \<and> tk_author t' = tk_author t
     \<and> tk_createdAt t' = tk_createdAt t \<and> tk_revision t \<le> tk_revision t'
     \<and> (tk_revision t' = tk_revision t \<longrightarrow> t' = t)"

definition grows :: "collab_db \<Rightarrow> collab_db \<Rightarrow> bool" where
  "grows db db' \<longleftrightarrow>
     (\<forall>q\<in>set (cb_requests db). \<exists>q'\<in>set (cb_requests db'). request_history q q')
     \<and> (\<forall>t\<in>set (cb_tickets db). \<exists>t'\<in>set (cb_tickets db'). ticket_history t t')
     \<and> (\<forall>r\<in>set (cb_relations db). rl_state r = Accepted \<longrightarrow> r \<in> set (cb_relations db'))
     \<and> set (cb_requestComments db) \<subseteq> set (cb_requestComments db')
     \<and> set (cb_ticketComments db) \<subseteq> set (cb_ticketComments db')
     \<and> set (cb_idempotency db) \<subseteq> set (cb_idempotency db') \<and> set (cb_members db) \<subseteq> set (cb_members db')"

definition sound_step :: "collab_db \<Rightarrow> collab_db \<Rightarrow> bool" where
  "sound_step db db' \<longleftrightarrow> (collab_ok db \<longrightarrow> collab_ok db' \<and> grows db db')"

lemma history_refl [simp]: "request_history q q" "ticket_history t t"
  by (simp_all add: request_history_def ticket_history_def)

lemma request_history_trans: "request_history a b \<Longrightarrow> request_history b c \<Longrightarrow> request_history a c"
  by (auto simp: request_history_def)

lemma ticket_history_trans: "ticket_history a b \<Longrightarrow> ticket_history b c \<Longrightarrow> ticket_history a c"
  by (auto simp: ticket_history_def)

lemma grows_refl [simp]: "grows db db"
  by (force simp: grows_def)

lemma grows_trans:
  assumes a: "grows x y" and b: "grows y z"
  shows "grows x z"
  unfolding grows_def
proof (intro conjI ballI impI)
  fix q assume "q \<in> set (cb_requests x)"
  then obtain q' q'' where "request_history q q'" "q'' \<in> set (cb_requests z)" "request_history q' q''"
    using a b unfolding grows_def by meson
  then show "\<exists>q'\<in>set (cb_requests z). request_history q q'" using request_history_trans by blast
next
  fix t assume "t \<in> set (cb_tickets x)"
  then obtain t' t'' where "ticket_history t t'" "t'' \<in> set (cb_tickets z)" "ticket_history t' t''"
    using a b unfolding grows_def by meson
  then show "\<exists>t'\<in>set (cb_tickets z). ticket_history t t'" using ticket_history_trans by blast
qed (use a b in \<open>auto simp: grows_def\<close>)

lemma sound_refl [simp]: "sound_step db db"
  by (simp add: sound_step_def)

lemma sound_trans: "sound_step x y \<Longrightarrow> sound_step y z \<Longrightarrow> sound_step x z"
  by (meson grows_trans sound_step_def)

section \<open>Statements\<close>

lemma update_rows_Inr [result_simps]:
  "update_rows P f ok xs = Inr (cs, ys) \<longleftrightarrow>
     list_all ok cs \<and> cs = map f (filter P xs) \<and> ys = map (\<lambda>x. if P x then f x else x) xs"
  by (auto simp: update_rows_def Let_def)

lemma insert_row_Inr [result_simps]: "insert_row ok x xs = Inr ys \<longleftrightarrow> ok \<and> ys = xs @ [x]"
  by (auto simp: insert_row_def)

lemma present_Inr [result_simps]: "present r = Inr v \<longleftrightarrow> r = Inr (Some v)"
  by (auto simp: present_def result_simps split: option.splits)

lemma map_update_rows:
  "(\<And>x. P x \<Longrightarrow> k (f x) = k x) \<Longrightarrow> map k (map (\<lambda>x. if P x then f x else x) xs) = map k xs"
  by (induction xs) auto

lemma distinct_update_rows:
  assumes f: "\<And>x. P x \<Longrightarrow> k (f x) = k x \<and> (Q (f x) \<longrightarrow> Q x)" and "distinct (map k (filter Q xs))"
  shows "distinct (map k (filter Q (map (\<lambda>x. if P x then f x else x) xs)))"
  using assms(2)
proof (induction xs)
  case (Cons x xs)
  define ys where "ys = filter Q (map (\<lambda>x. if P x then f x else x) xs)"
  have "k ` set ys \<subseteq> k ` set (filter Q xs)"
  proof (rule image_subsetI)
    fix y assume "y \<in> set ys"
    then obtain z where z: "z \<in> set xs" "y = (if P z then f z else z)" "Q y" by (auto simp: ys_def)
    then have "k y = k z \<and> Q z" using f by (cases "P z") auto
    then show "k y \<in> k ` set (filter Q xs)" using z by auto
  qed
  then have new: "k x \<notin> k ` set ys" if "k x \<notin> k ` set (filter Q xs)" using that by blast
  have ys: "filter Q (map (\<lambda>x. if P x then f x else x) (x # xs))
      = (let y = if P x then f x else x in if Q y then y # ys else ys)"
    by (simp add: ys_def Let_def)
  have "distinct (map k ys)" using Cons by (auto simp: ys_def split: if_splits)
  moreover have "Q x \<Longrightarrow> k x \<notin> k ` set (filter Q xs)" using Cons.prems by simp
  ultimately show ?case unfolding ys using new f [of x] by (cases "P x") (auto simp: Let_def)
qed simp

lemma history_update:
  assumes "\<And>x. P x \<Longrightarrow> H x (f x)" and "\<And>x. H x x" and "x \<in> set xs"
  shows "\<exists>y\<in>set (map (\<lambda>x. if P x then f x else x) xs). H x y"
  using assms by (intro bexI [of _ "if P x then f x else x"]) auto

text \<open>An update of requests that keeps who they are and what they are about.\<close>

lemma update_requests_sound:
  assumes u: "update_rows P f ok (cb_requests db) = Inr (cs, qs)"
    and f: "\<And>q. P q \<Longrightarrow> request_history q (f q) \<and> (rq_status (f q) = Open \<longrightarrow> rq_status q = Open)"
    and ok: "\<And>q. ok q \<Longrightarrow> request_row_ok q"
  shows "sound_step db (db\<lparr>cb_requests := qs\<rparr>)"
proof -
  have qs: "qs = map (\<lambda>x. if P x then f x else x) (cb_requests db)" and cs: "list_all ok (map f (filter P (cb_requests db)))"
    using u by (auto simp: result_simps)
  have id: "rq_id (f q) = rq_id q" "rq_member (f q) = rq_member q" "rq_status (f q) = Open \<longrightarrow> rq_status q = Open"
    if "P q" for q using f [OF that] by (auto simp: request_history_def)
  have ids: "map rq_id qs = map rq_id (cb_requests db)" unfolding qs by (rule map_update_rows) (rule id)
  have members: "distinct (map rq_member (filter (\<lambda>q. rq_status q = Open) qs))" if "collab_ok db"
    unfolding qs by (rule distinct_update_rows) (use that in \<open>simp_all add: id collab_ok_def requests_ok_def\<close>)
  have set_ids: "rq_id ` set qs = rq_id ` set (cb_requests db)" using arg_cong [OF ids, of set] by simp
  have rows: "request_row_ok q \<and> rq_member q \<in> set (cb_members db)" if m: "q \<in> set qs" and db: "collab_ok db" for q
  proof -
    obtain x where x: "x \<in> set (cb_requests db)" "q = (if P x then f x else x)" using m unfolding qs set_map by (elim imageE) blast
    then show ?thesis using db cs ok id
      by (cases "P x") (auto simp: collab_ok_def requests_ok_def list_all_iff)
  qed
  have "collab_ok (db\<lparr>cb_requests := qs\<rparr>)" if "collab_ok db"
    using that rows by (simp add: collab_ok_def requests_ok_def relations_ok_def tickets_ok_def comments_ok_def results_ok_def ids members set_ids)
  moreover have "grows db (db\<lparr>cb_requests := qs\<rparr>)"
  proof -
    have "\<exists>q'\<in>set qs. request_history q q'" if "q \<in> set (cb_requests db)" for q
      unfolding qs by (rule history_update [OF _ _ that]) (simp_all add: f)
    then show ?thesis by (force simp: grows_def)
  qed
  ultimately show ?thesis by (simp add: sound_step_def)
qed

lemma update_tickets_sound:
  assumes u: "update_rows P f ok (cb_tickets db) = Inr (cs, ts)"
    and f: "\<And>t. P t \<Longrightarrow> ticket_history t (f t) \<and> tk_commentCount (f t) = tk_commentCount t"
    and ok: "\<And>t. ok t \<Longrightarrow> ticket_row_ok t"
  shows "sound_step db (db\<lparr>cb_tickets := ts\<rparr>)"
proof -
  have ts: "ts = map (\<lambda>x. if P x then f x else x) (cb_tickets db)" and cs: "list_all ok (map f (filter P (cb_tickets db)))"
    using u by (auto simp: result_simps)
  have id: "tk_id (f t) = tk_id t" "tk_number (f t) = tk_number t" "tk_commentCount (f t) = tk_commentCount t" if "P t" for t
    using f [OF that] by (auto simp: ticket_history_def)
  have ids: "map tk_id ts = map tk_id (cb_tickets db)" unfolding ts by (rule map_update_rows) (rule id)
  have numbers: "map tk_number ts = map tk_number (cb_tickets db)" unfolding ts by (rule map_update_rows) (rule id)
  have len: "length ts = length (cb_tickets db)" by (simp add: ts)
  have set_ids: "tk_id ` set ts = tk_id ` set (cb_tickets db)" using arg_cong [OF ids, of set] by simp
  have rows: "ticket_row_ok t \<and> tk_commentCount t = int (length (comments_of (tk_id t) (cb_ticketComments db)))"
    if m: "t \<in> set ts" and db: "collab_ok db" for t
  proof -
    obtain x where x: "x \<in> set (cb_tickets db)" "t = (if P x then f x else x)" using m unfolding ts set_map by (elim imageE) blast
    then show ?thesis using db cs ok id
      by (cases "P x") (auto simp: collab_ok_def tickets_ok_def list_all_iff)
  qed
  have "collab_ok (db\<lparr>cb_tickets := ts\<rparr>)" if "collab_ok db"
    using that rows by (simp add: collab_ok_def requests_ok_def relations_ok_def tickets_ok_def comments_ok_def results_ok_def ids numbers set_ids len)
  moreover have "grows db (db\<lparr>cb_tickets := ts\<rparr>)"
  proof -
    have "\<exists>t'\<in>set ts. ticket_history t t'" if "t \<in> set (cb_tickets db)" for t
      unfolding ts by (rule history_update [OF _ _ that]) (simp_all add: f)
    then show ?thesis by (force simp: grows_def)
  qed
  ultimately show ?thesis by (simp add: sound_step_def)
qed

section \<open>Every operation keeps the tables well formed\<close>

lemma grows_subset:
  assumes "set (cb_requests db) \<subseteq> set (cb_requests db')" and "set (cb_tickets db) \<subseteq> set (cb_tickets db')"
    and "\<And>r. r \<in> set (cb_relations db) \<Longrightarrow> rl_state r = Accepted \<Longrightarrow> r \<in> set (cb_relations db')"
    and "set (cb_requestComments db) \<subseteq> set (cb_requestComments db')"
    and "set (cb_ticketComments db) \<subseteq> set (cb_ticketComments db')"
    and "set (cb_idempotency db) \<subseteq> set (cb_idempotency db')" and "set (cb_members db) \<subseteq> set (cb_members db')"
  shows "grows db db'"
  using assms unfolding grows_def by (meson history_refl subsetD)

lemmas table_defs = collab_ok_def requests_ok_def relations_ok_def tickets_ok_def comments_ok_def results_ok_def

lemma touch_open_sound: "touch_open E r t db = Inr (x, db') \<Longrightarrow> sound_step db db'"
  by (auto simp: touch_open_def result_simps simp del: update_rows_Inr
      intro!: update_requests_sound simp: request_history_def)

lemma update_open_sound: "update_open E i db = Inr (x, db') \<Longrightarrow> sound_step db db'"
  by (auto simp: update_open_def Let_def rbind_Inr split: if_splits
      intro!: update_requests_sound simp: request_history_def)

lemma change_ticket_status_sound: "change_ticket_status E i db = Inr (x, db') \<Longrightarrow> sound_step db db'"
  by (auto simp: change_ticket_status_def Let_def rbind_Inr split: if_splits
      intro!: update_tickets_sound simp: ticket_history_def)

lemma update_ticket_content_sound: "update_ticket_content E i db = Inr (x, db') \<Longrightarrow> sound_step db db'"
  by (auto simp: update_ticket_content_def Let_def rbind_Inr split: if_splits
      intro!: update_tickets_sound simp: ticket_history_def)

lemma create_request_sound: "create_request E i db = Inr (x, db') \<Longrightarrow> sound_step db db'"
proof -
  assume "create_request E i db = Inr (x, db')"
  then obtain q where q: "request_insertable q db" "rq_status q = Open" "db' = db\<lparr>cb_requests := cb_requests db @ [q]\<rparr>"
    by (auto simp: create_request_def Let_def result_simps)
  show ?thesis
    using q by (auto simp: sound_step_def table_defs request_insertable_def list_ex_iff intro!: grows_subset)
qed

lemma create_request_comment_sound: "create_request_comment E i db = Inr (x, db') \<Longrightarrow> sound_step db db'"
proof -
  assume r: "create_request_comment E i db = Inr (x, db')"
  obtain created where c: "list_ex (\<lambda>q. rq_id q = cc_subject i \<and> rq_status q = Open) (cb_requests db)"
    "comment_insertable (comment_from i created) (cb_requestComments db) db"
    "touch_open E (cc_subject i) (cc_createdAt i) (db\<lparr>cb_requestComments := cb_requestComments db @ [comment_from i created]\<rparr>)
      = Inr (True, db')"
    using r unfolding create_request_comment_def Let_def by (auto simp: rbind_Inr ensure_Inr insert_row_Inr)
  have subject: "cc_subject i \<in> rq_id ` set (cb_requests db)" using c(1) by (force simp: list_ex_iff)
  have "sound_step db (db\<lparr>cb_requestComments := cb_requestComments db @ [comment_from i created]\<rparr>)"
    using c(2) subject by (auto simp: sound_step_def table_defs comment_insertable_def comment_from_def list_ex_iff intro!: grows_subset)
  then show ?thesis using touch_open_sound [OF c(3)] by (rule sound_trans)
qed

lemma foldr_max_numbers: "foldr max (map int [1..<Suc n]) 0 = int n"
proof (induction n)
  case (Suc n)
  have "foldr max xs a = max (foldr max xs 0) a" if "a \<ge> 0" for xs and a :: int
    using that by (induction xs) auto
  from this [of "int (Suc n)" "map int [1..<Suc n]"] show ?case using Suc by simp
qed simp

lemma next_number: "tickets_ok db \<Longrightarrow> next_ticket_number db = int (Suc (length (cb_tickets db)))"
  unfolding next_ticket_number_def tickets_ok_def by (simp only: foldr_max_numbers of_nat_Suc add.commute)

lemma no_comments:
  "comments_ok db \<Longrightarrow> \<not> list_ex (\<lambda>x. tk_id x = t) (cb_tickets db) \<Longrightarrow> comments_of t (cb_ticketComments db) = []"
  by (force simp: comments_ok_def comments_of_def list_ex_iff filter_empty_conv image_iff)

lemma create_ticket_sound: "create_ticket E i db = Inr (x, db') \<Longrightarrow> sound_step db db'"
proof -
  assume "create_ticket E i db = Inr (x, db')"
  then obtain t where t: "ticket_row_ok t" "\<not> list_ex (\<lambda>x. tk_id x = tk_id t \<or> tk_number x = tk_number t) (cb_tickets db)"
    "tk_number t = next_ticket_number db" "tk_commentCount t = 0" "db' = db\<lparr>cb_tickets := cb_tickets db @ [t]\<rparr>"
    by (auto simp: create_ticket_def Let_def result_simps)
  have "collab_ok db'" if "collab_ok db"
  proof -
    have ok: "tickets_ok db" "comments_ok db" using that by (simp_all add: collab_ok_def)
    have "comments_of (tk_id t) (cb_ticketComments db) = []"
      by (rule no_comments [OF ok(2)]) (use t(2) in \<open>auto simp: list_ex_iff\<close>)
    then have "tickets_ok db'" using ok t next_number [OF ok(1)]
      by (auto simp: tickets_ok_def list_ex_iff)
    then show ?thesis using that t by (auto simp: collab_ok_def requests_ok_def relations_ok_def comments_ok_def results_ok_def)
  qed
  moreover have "grows db db'" using t(5) by (auto intro!: grows_subset)
  ultimately show ?thesis by (simp add: sound_step_def)
qed

lemma create_ticket_comment_sound: "create_ticket_comment E i db = Inr (x, db') \<Longrightarrow> sound_step db db'"
proof -
  assume r: "create_ticket_comment E i db = Inr (x, db')"
  define P where "P = (\<lambda>t :: ticket_row. tk_id t = cc_subject i \<and> tk_commentCount t < ce_ticketComments E \<and> tk_revision t < max_safe_integer)"
  obtain created where c: "comment_insertable (comment_from i created) (cb_ticketComments db) db"
    "list_all ticket_row_ok (map (count_comment created) (filter P (cb_tickets db)))" "filter P (cb_tickets db) \<noteq> []"
    "db' = db\<lparr>cb_ticketComments := cb_ticketComments db @ [comment_from i created],
      cb_tickets := map (\<lambda>t. if P t then count_comment created t else t) (cb_tickets db)\<rparr>"
    using r unfolding create_ticket_comment_def Let_def P_def
    by (auto simp: rbind_Inr ensure_Inr insert_row_Inr update_rows_Inr)
  let ?f = "count_comment created" and ?c = "comment_from i created"
  let ?ts = "map (\<lambda>t. if P t then ?f t else t) (cb_tickets db)"
  obtain u where u: "u \<in> set (cb_tickets db)" "P u" using c(3) by (auto simp: filter_empty_conv)
  have same: "map tk_id ?ts = map tk_id (cb_tickets db)" "map tk_number ?ts = map tk_number (cb_tickets db)"
    by (rule map_update_rows, simp add: count_comment_def)+
  have set_ids: "tk_id ` set ?ts = tk_id ` set (cb_tickets db)" using arg_cong [OF same(1), of set] by (simp only: set_map)
  have subject: "cm_subject ?c = cc_subject i" by (simp add: comment_from_def)
  have "collab_ok db'" if ok: "collab_ok db"
  proof -
    have row: "ticket_row_ok t' \<and> tk_commentCount t' = int (length (comments_of (tk_id t') (cb_ticketComments db @ [?c])))"
      if m: "t' \<in> set ?ts" for t'
    proof -
      obtain x where x: "x \<in> set (cb_tickets db)" "t' = (if P x then ?f x else x)"
        using m unfolding set_map by (elim imageE) blast
      have "tk_id x = tk_id u \<longrightarrow> x = u"
        using ok x(1) u(1) by (auto simp: collab_ok_def tickets_ok_def distinct_map inj_on_def)
      then have p: "P x \<longleftrightarrow> tk_id x = cc_subject i" using u(2) unfolding P_def by auto
      have o: "ticket_row_ok x" "tk_commentCount x = int (length (comments_of (tk_id x) (cb_ticketComments db)))"
        using ok x(1) by (auto simp: collab_ok_def tickets_ok_def)
      show ?thesis
      proof (cases "P x")
        case True
        then have "ticket_row_ok (?f x)" using c(2) x(1) by (auto simp: list_all_iff)
        then show ?thesis using True o p x(2) subject by (simp add: comments_of_def count_comment_def)
      next
        case False
        then show ?thesis using o p x(2) subject by (auto simp: comments_of_def)
      qed
    qed
    have "cc_subject i \<in> tk_id ` set (cb_tickets db)" using u unfolding P_def by force
    moreover have "tickets_ok db'" using ok row unfolding c(4)
      by (simp add: collab_ok_def tickets_ok_def same del: set_map map_map)
    moreover have "relations_ok db'" using ok unfolding c(4)
      by (simp add: collab_ok_def relations_ok_def set_ids del: set_map)
    moreover have "cm_id ?c \<notin> set (map cm_id (cb_ticketComments db))"
      using c(1) by (auto simp: comment_insertable_def list_ex_iff)
    ultimately show ?thesis using ok unfolding c(4)
      by (auto simp: collab_ok_def requests_ok_def comments_ok_def results_ok_def
          comment_insertable_def list_ex_iff set_ids subject simp del: set_map map_map)
  qed
  moreover have "grows db db'"
  proof -
    have "\<exists>t'\<in>set ?ts. ticket_history t t'" if "t \<in> set (cb_tickets db)" for t
      by (rule history_update [OF _ _ that]) (simp_all add: ticket_history_def count_comment_def)
    then show ?thesis unfolding c(4) by (force simp: grows_def simp del: set_map)
  qed
  ultimately show ?thesis by (simp add: sound_step_def)
qed

lemma distinct_pairs_filter: "distinct (map f xs) \<Longrightarrow> distinct (map f (filter P xs))"
  by (induction xs) auto

lemma delete_relation_sound:
  "sound_step db (db\<lparr>cb_relations := filter (\<lambda>r. \<not> (rl_id r = l \<and> rl_state r = Pending)) (cb_relations db)\<rparr>)"
  by (auto simp: sound_step_def collab_ok_def requests_ok_def relations_ok_def tickets_ok_def comments_ok_def results_ok_def
      intro!: grows_subset distinct_pairs_filter)

lemma update_relations_sound:
  assumes u: "update_rows P f relation_row_ok (cb_relations db) = Inr (cs, rs)"
    and pending: "\<And>r. P r \<Longrightarrow> rl_state r = Pending"
    and f: "\<And>r. rl_id (f r) = rl_id r \<and> rl_request (f r) = rl_request r \<and> rl_ticket (f r) = rl_ticket r"
  shows "sound_step db (db\<lparr>cb_relations := rs\<rparr>)"
proof -
  have rs: "rs = map (\<lambda>r. if P r then f r else r) (cb_relations db)"
    and cs: "list_all relation_row_ok (map f (filter P (cb_relations db)))"
    using u by (auto simp: update_rows_Inr)
  have same: "map rl_id rs = map rl_id (cb_relations db)"
    "map (\<lambda>r. (rl_request r, rl_ticket r)) rs = map (\<lambda>r. (rl_request r, rl_ticket r)) (cb_relations db)"
    unfolding rs by (rule map_update_rows, simp add: f)+
  have row: "\<exists>x\<in>set (cb_relations db). rl_request r = rl_request x \<and> rl_ticket r = rl_ticket x
      \<and> (relation_row_ok x \<longrightarrow> relation_row_ok r)" if m: "r \<in> set rs" for r
  proof -
    obtain x where x: "x \<in> set (cb_relations db)" "r = (if P x then f x else x)"
      using m unfolding rs set_map by (elim imageE) blast
    then show ?thesis using cs by (intro bexI [of _ x]) (auto simp: list_all_iff f)
  qed
  have "collab_ok (db\<lparr>cb_relations := rs\<rparr>)" if ok: "collab_ok db"
  proof -
    have "relation_row_ok r \<and> rl_request r \<in> rq_id ` set (cb_requests db) \<and> rl_ticket r \<in> tk_id ` set (cb_tickets db)"
      if m: "r \<in> set rs" for r
    proof -
      obtain x where "x \<in> set (cb_relations db)" "rl_request r = rl_request x" "rl_ticket r = rl_ticket x"
        "relation_row_ok x \<longrightarrow> relation_row_ok r"
        using row [OF m] by blast
      then show ?thesis using ok by (simp add: collab_ok_def relations_ok_def)
    qed
    then show ?thesis using ok
      by (simp add: collab_ok_def requests_ok_def relations_ok_def tickets_ok_def comments_ok_def results_ok_def same)
  qed
  moreover have "grows db (db\<lparr>cb_relations := rs\<rparr>)"
  proof (rule grows_subset)
    fix r assume r: "r \<in> set (cb_relations db)" "rl_state r = Accepted"
    have "r \<in> set rs" unfolding rs set_map by (rule image_eqI [of _ _ r]) (use r pending [of r] in auto)
    then show "r \<in> set (cb_relations (db\<lparr>cb_relations := rs\<rparr>))" by simp
  qed simp_all
  ultimately show ?thesis by (simp add: sound_step_def)
qed

lemma keep_relations_sound: "keep_relations i updated ds vs db = Inr (ds', db') \<Longrightarrow> sound_step db db'"
proof (induction i updated ds vs db rule: keep_relations.induct)
  case (2 i updated ds v vs db)
  show ?case
  proof (cases "List.extract (\<lambda>d. pr_ticket d = lv_ticket v) ds")
    case None
    then show ?thesis using 2(1) [OF None] 2(3) delete_relation_sound [of db "lv_id v"]
      by (auto intro: sound_trans)
  next
    case (Some p)
    obtain xs d ys where p: "p = (xs, d, ys)" by (cases p)
    obtain cs rs where u: "update_rows (\<lambda>r. rl_id r = lv_id v \<and> rl_state r = Pending)
        (\<lambda>r. r\<lparr>rl_kind := pr_kind d, rl_commit := rr_commit i, rl_updatedAt := updated\<rparr>) relation_row_ok (cb_relations db) = Inr (cs, rs)"
      "keep_relations i updated (xs @ ys) vs (db\<lparr>cb_relations := rs\<rparr>) = Inr (ds', db')"
      using 2(3) Some p by (auto simp: rbind_Inr)
    show ?thesis
      by (rule sound_trans [OF update_relations_sound [OF u(1)]], simp, simp, rule 2(2) [OF Some p [symmetric] refl u(2)])
  qed
qed simp

lemma insert_relation_sound:
  assumes r: "relation_insertable r db"
  shows "sound_step db (db\<lparr>cb_relations := cb_relations db @ [r]\<rparr>)"
proof -
  have new: "rl_id r \<notin> set (map rl_id (cb_relations db))"
    "(rl_request r, rl_ticket r) \<notin> set (map (\<lambda>r. (rl_request r, rl_ticket r)) (cb_relations db))"
    "relation_row_ok r" "rl_request r \<in> rq_id ` set (cb_requests db)" "rl_ticket r \<in> tk_id ` set (cb_tickets db)"
    using r by (auto simp: relation_insertable_def list_ex_iff intro: rev_image_eqI)
  have "collab_ok (db\<lparr>cb_relations := cb_relations db @ [r]\<rparr>)" if "collab_ok db"
    using that new by (simp add: table_defs)
  moreover have "grows db (db\<lparr>cb_relations := cb_relations db @ [r]\<rparr>)" by (rule grows_subset) auto
  ultimately show ?thesis by (simp add: sound_step_def)
qed

lemma add_relations_sound: "add_relations i updated ds db = Inr db' \<Longrightarrow> sound_step db db'"
proof (induction i updated ds db rule: add_relations.induct)
  case (2 i updated d ds db)
  then show ?case by (auto simp: Let_def rbind_Inr insert_row_Inr intro: sound_trans [OF insert_relation_sound])
qed simp

lemma replace_pending_relations_sound: "replace_pending_relations E i db = Inr (x, db') \<Longrightarrow> sound_step db db'"
  by (auto simp: replace_pending_relations_def rbind_Inr intro: sound_trans [OF keep_relations_sound add_relations_sound])

lemma mentions_sound: "sound_step db (db\<lparr>cb_mentions := ms\<rparr>)"
  by (auto simp: sound_step_def table_defs intro!: grows_subset)

lemma add_mentions_sound: "add_mentions i created ms db = Inr db' \<Longrightarrow> sound_step db db'"
proof (induction i created ms db rule: add_mentions.induct)
  case (2 i created m ms db)
  then show ?case by (auto simp: Let_def rbind_Inr insert_row_Inr intro: sound_trans [OF mentions_sound])
qed simp

lemma replace_mentions_sound: "replace_mentions E i db = Inr (x, db') \<Longrightarrow> sound_step db db'"
  by (auto simp: replace_mentions_def rbind_Inr intro: sound_trans [OF mentions_sound add_mentions_sound])

lemma same_key_result: "same_key i (ir_identity r) \<longleftrightarrow> result_key r = (ii_member i, ii_operation i, ii_key i)"
  by (auto simp: same_key_def result_key_def)

lemma insert_result_sound:
  assumes "\<not> list_ex (\<lambda>r. same_key (ir_identity x) (ir_identity r)) (cb_idempotency db)"
  shows "sound_step db (db\<lparr>cb_idempotency := cb_idempotency db @ [x]\<rparr>)"
proof -
  have new: "result_key x \<notin> set (map result_key (cb_idempotency db))"
    using assms by (auto simp: list_ex_iff same_key_result) (auto simp: result_key_def)
  have "collab_ok (db\<lparr>cb_idempotency := cb_idempotency db @ [x]\<rparr>)" if "collab_ok db"
    using that new by (simp add: table_defs)
  moreover have "grows db (db\<lparr>cb_idempotency := cb_idempotency db @ [x]\<rparr>)" by (rule grows_subset) auto
  ultimately show ?thesis by (simp add: sound_step_def)
qed

lemma store_result_sound:
  assumes r: "store_result E i t r db = Inr (x, db')"
  shows "sound_step db db'"
proof (cases "list_ex (\<lambda>r. same_key i (ir_identity r)) (cb_idempotency db)")
  case True
  then obtain l where "(case l of Missing \<Rightarrow> Inl DependencyFailed | Conflict \<Rightarrow> Inr (StoreConflict, db)
      | Replay r \<Rightarrow> Inr (StoreReplay r, db)) = Inr (x, db')"
    using r unfolding store_result_def by (auto simp: rbind_Inr)
  then show ?thesis by (cases l) simp_all
next
  case False
  then show ?thesis using r unfolding store_result_def
    by (auto simp: rbind_Inr insert_row_Inr intro!: insert_result_sound)
qed

section \<open>Histories\<close>

datatype collab_command =
    AddMember string
  | CreateRequest create_request_input | CommentRequest create_comment_input
  | UpdateRequest update_request_input | TouchRequest string stamp
  | ReplaceRelations replace_relations_input
  | CreateTicket create_ticket_input | CommentTicket create_comment_input
  | UpdateTicket update_ticket_input | ChangeStatus ticket_status_input
  | ReplaceMentions replace_mentions_input
  | StoreResult idempotency_identity stamp response

text \<open>A transaction that fails leaves the tables as they were.\<close>

definition committed :: "coord_error + 'a \<times> 'd \<Rightarrow> 'd \<Rightarrow> 'd" where
  "committed r db = (case r of Inl e \<Rightarrow> db | Inr (_, db') \<Rightarrow> db')"

fun collab_step :: "collab_env \<Rightarrow> collab_db \<Rightarrow> collab_command \<Rightarrow> collab_db" where
  "collab_step E db (AddMember m) = db\<lparr>cb_members := m # cb_members db\<rparr>"
| "collab_step E db (CreateRequest i) = committed (create_request E i db) db"
| "collab_step E db (CommentRequest i) = committed (create_request_comment E i db) db"
| "collab_step E db (UpdateRequest i) = committed (update_open E i db) db"
| "collab_step E db (TouchRequest r t) = committed (touch_open E r t db) db"
| "collab_step E db (ReplaceRelations i) = committed (replace_pending_relations E i db) db"
| "collab_step E db (CreateTicket i) = committed (create_ticket E i db) db"
| "collab_step E db (CommentTicket i) = committed (create_ticket_comment E i db) db"
| "collab_step E db (UpdateTicket i) = committed (update_ticket_content E i db) db"
| "collab_step E db (ChangeStatus i) = committed (change_ticket_status E i db) db"
| "collab_step E db (ReplaceMentions i) = committed (replace_mentions E i db) db"
| "collab_step E db (StoreResult i t r) = committed (store_result E i t r db) db"

definition empty_project :: collab_db where
  "empty_project = \<lparr>cb_members = [], cb_requests = [], cb_relations = [], cb_tickets = [], cb_requestComments = [],
     cb_ticketComments = [], cb_mentions = [], cb_idempotency = []\<rparr>"

lemma committed_sound: "(\<And>x db'. r = Inr (x, db') \<Longrightarrow> sound_step db db') \<Longrightarrow> sound_step db (committed r db)"
  by (auto simp: committed_def split: sum.split prod.split)

lemmas operations_sound = create_request_sound create_request_comment_sound update_open_sound touch_open_sound
  replace_pending_relations_sound create_ticket_sound create_ticket_comment_sound update_ticket_content_sound
  change_ticket_status_sound replace_mentions_sound store_result_sound

lemma members_sound: "sound_step db (db\<lparr>cb_members := m # cb_members db\<rparr>)"
  by (auto simp: sound_step_def table_defs intro!: grows_subset)

lemma collab_step_sound: "sound_step db (collab_step E db c)"
  by (cases c) (auto intro!: committed_sound members_sound intro: operations_sound)

interpretation collaboration: machine empty_project "collab_step E" collab_ok for E
proof unfold_locales
  show "collab_ok empty_project" by (simp add: table_defs empty_project_def)
  show "collab_ok db \<Longrightarrow> collab_ok (collab_step E db c)" for db c
    using collab_step_sound [of db E c] by (simp add: sound_step_def)
qed

lemma run_grows: "collab_ok db \<Longrightarrow> grows db (run (collab_step E) db cs)"
proof (induction cs arbitrary: db)
  case (Cons c cs)
  have "collab_ok (collab_step E db c)" "grows db (collab_step E db c)"
    using collab_step_sound [of db E c] Cons.prems by (simp_all add: sound_step_def)
  then show ?case using Cons.IH grows_trans by auto
qed simp

lemma unchanged_rows: "(\<And>x. x \<in> set xs \<Longrightarrow> \<not> P x) \<Longrightarrow> update_rows P f ok xs = Inr ([], xs)"
  by (auto simp: update_rows_def Let_def filter_empty_conv intro!: map_idI)

lemma find_requestD: "find_request E r db = Inr (Some v) \<Longrightarrow> \<exists>q\<in>set (cb_requests db). rq_id q = r"
  by (auto simp: find_request_def select_request_def rbind_Inr find_Some_iff split: option.splits)

lemma changed_row:
  "update_rows P f ok xs = Inr (cs, ys) \<Longrightarrow> cs \<noteq> [] \<Longrightarrow> \<exists>x\<in>set xs. P x \<and> f x \<in> set ys"
  by (force simp: update_rows_Inr filter_empty_conv)

lemma updated_request:
  assumes "update_open E i db = Inr (Some v, db')"
  shows "\<exists>q\<in>set (cb_requests db'). rq_id q = ur_request i \<and> rq_revision q = ur_expectedRevision i + 1"
  using assms by (auto simp: update_open_def Let_def rbind_Inr split: if_splits dest!: changed_row)
    (rule rev_bexI, assumption, simp)+

lemma updated_ticket:
  assumes "update_ticket_content E i db = Inr (Some v, db')"
  shows "\<exists>t\<in>set (cb_tickets db'). tk_id t = ut_ticket i \<and> tk_revision t = ut_expectedRevision i + 1"
  using assms by (auto simp: update_ticket_content_def Let_def rbind_Inr split: if_splits dest!: changed_row)
    (rule rev_bexI, assumption, simp)+

lemma updated_status:
  assumes "change_ticket_status E i db = Inr (Some v, db')"
  shows "\<exists>t\<in>set (cb_tickets db'). tk_id t = ts_ticket i \<and> tk_revision t = ts_expectedRevision i + 1"
  using assms by (auto simp: change_ticket_status_def Let_def rbind_Inr split: if_splits dest!: changed_row)
    (rule rev_bexI, assumption, simp)+

text \<open>A request or a ticket that was at a revision has none before it left.\<close>

lemma request_passed:
  assumes q: "q \<in> set (cb_requests db)" and s: "grows db s" "collab_ok s"
    and x: "x \<in> set (cb_requests s)" "rq_id x = rq_id q"
  shows "rq_revision q \<le> rq_revision x"
proof -
  obtain y where y: "y \<in> set (cb_requests s)" "request_history q y" using q s(1) unfolding grows_def by blast
  have "y = x" using s(2) x y
    by (auto simp: collab_ok_def requests_ok_def distinct_map inj_on_def request_history_def)
  then show ?thesis using y by (simp add: request_history_def)
qed

lemma ticket_passed:
  assumes t: "t \<in> set (cb_tickets db)" and s: "grows db s" "collab_ok s"
    and x: "x \<in> set (cb_tickets s)" "tk_id x = tk_id t"
  shows "tk_revision t \<le> tk_revision x"
proof -
  obtain y where y: "y \<in> set (cb_tickets s)" "ticket_history t y" using t s(1) unfolding grows_def by blast
  have "y = x" using s(2) x y
    by (auto simp: collab_ok_def tickets_ok_def distinct_map inj_on_def ticket_history_def)
  then show ?thesis using y by (simp add: ticket_history_def)
qed

lemma stale_request:
  assumes "\<And>x. x \<in> set (cb_requests s) \<Longrightarrow> rq_id x = ur_request j \<Longrightarrow> ur_expectedRevision j < rq_revision x"
    and "update_open E j s = Inr r"
  shows "r = (None, s)"
proof -
  have "update_rows (\<lambda>q. rq_id q = ur_request j \<and> rq_status q = Open \<and> rq_revision q = ur_expectedRevision j
      \<and> rq_revision q < max_safe_integer) f ok (cb_requests s) = Inr ([], cb_requests s)" for f ok
    by (rule unchanged_rows) (use assms(1) in force)
  then show ?thesis using assms(2) by (auto simp: update_open_def Let_def rbind_Inr)
qed

lemma stale_ticket:
  assumes "\<And>x. x \<in> set (cb_tickets s) \<Longrightarrow> tk_id x = ut_ticket j \<Longrightarrow> ut_expectedRevision j < tk_revision x"
    and "update_ticket_content E j s = Inr r"
  shows "r = (None, s)"
proof -
  have "update_rows (\<lambda>t. tk_id t = ut_ticket j \<and> tk_revision t = ut_expectedRevision j \<and> tk_revision t < max_safe_integer)
      f ok (cb_tickets s) = Inr ([], cb_tickets s)" for f ok
    by (rule unchanged_rows) (use assms(1) in force)
  then show ?thesis using assms(2) by (auto simp: update_ticket_content_def Let_def rbind_Inr)
qed

lemma stale_status:
  assumes "\<And>x. x \<in> set (cb_tickets s) \<Longrightarrow> tk_id x = ts_ticket j \<Longrightarrow> ts_expectedRevision j < tk_revision x"
    and "change_ticket_status E j s = Inr r"
  shows "r = (None, s)"
proof -
  have "update_rows (\<lambda>t. tk_id t = ts_ticket j \<and> tk_revision t = ts_expectedRevision j \<and> tk_revision t < max_safe_integer
      \<and> tk_status t \<noteq> ts_status j) f ok (cb_tickets s) = Inr ([], cb_tickets s)" for f ok
    by (rule unchanged_rows) (use assms(1) in force)
  then show ?thesis using assms(2) by (auto simp: change_ticket_status_def Let_def rbind_Inr)
qed

section \<open>Reading all pages\<close>

text \<open>
  A client reads a listing page by page: it asks for the first page, and for the next one with the
  cursor it was given, until it is given none. The fuel is the number of pages it reads at most.
\<close>

fun read_pages ::
  "('c option \<Rightarrow> 'e + 'a list \<times> 'c option) \<Rightarrow> nat \<Rightarrow> 'c option \<Rightarrow> ('e + 'a list) option" where
  "read_pages f 0 c = None"
| "read_pages f (Suc n) c =
     (case f c of
        Inl e \<Rightarrow> Some (Inl e)
      | Inr (items, None) \<Rightarrow> Some (Inr items)
      | Inr (items, Some c') \<Rightarrow>
          (case read_pages f n (Some c') of
             Some (Inr rest) \<Rightarrow> Some (Inr (items @ rest)) | r \<Rightarrow> r))"

definition after_key :: "(int \<times> string) option \<Rightarrow> int \<times> string \<Rightarrow> bool" where
  "after_key c k \<longleftrightarrow> (case c of None \<Rightarrow> True | Some c' \<Rightarrow> c' < k)"

lemma rows_after_filter:
  "rows_after key c limit xs = take (nat limit) (filter (\<lambda>x. after_key c (key x)) (sort_key key xs))"
proof -
  have "(\<lambda>x. case c of None \<Rightarrow> True | Some c \<Rightarrow> fst (key x) > fst c \<or> (fst (key x) = fst c \<and> snd (key x) > snd c))
    = (\<lambda>x. after_key c (key x))"
    by (auto simp: after_key_def fun_eq_iff less_prod_def' split: option.split)
  then show ?thesis unfolding rows_after_def by (simp only: filter_sort)
qed

lemma sorted_strict:
  assumes "distinct (map key xs)"
  shows "sorted_wrt (\<lambda>x y. key x < key y) (sort_key key xs)"
proof -
  have "distinct (map key (sort_key key xs))"
    using assms by (metis (no_types, opaque_lifting) distinct_map distinct_sort set_sort)
  then have "sorted_wrt (<) (map key (sort_key key xs))"
    using sorted_sort_key [of key xs] by (simp add: strict_sorted_iff)
  then show ?thesis by (simp add: sorted_wrt_map)
qed

lemma filter_after_prefix:
  assumes s: "sorted_wrt (\<lambda>x y. key x < key y) (ys @ zs)" and ne: "ys \<noteq> []"
  shows "filter (\<lambda>x. after_key (Some (key (last ys))) (key x)) (ys @ zs) = zs"
proof -
  have ys: "ys = butlast ys @ [last ys]" using ne by simp
  have "\<not> key (last ys) < key x" if "x \<in> set ys" for x
  proof -
    have "sorted_wrt (\<lambda>x y. key x < key y) (butlast ys @ [last ys])" using s ys by (simp add: sorted_wrt_append)
    then show ?thesis using that by (subst (asm) (2) ys) (force simp: sorted_wrt_append)
  qed
  moreover have "key (last ys) < key x" if "x \<in> set zs" for x
    using s ne that by (auto simp: sorted_wrt_append)
  ultimately show ?thesis by (auto simp: after_key_def filter_empty_conv)
qed

lemma read_rest:
  assumes limit: "0 < limit" and keys: "distinct (map key rows)"
    and fetch: "\<And>c. c \<in> insert None (Some ` key ` set rows) \<Longrightarrow>
      fetch c = Inr (page (rows_after key c (limit + 1) rows) limit key)"
    and "sort_key key rows = ys @ zs" and "c = (if ys = [] then None else Some (key (last ys)))" and "length zs < n"
  shows "read_pages fetch n c = Some (Inr zs)"
  using assms(4-)
proof (induction n arbitrary: ys zs c)
  case (Suc n)
  have st: "sorted_wrt (\<lambda>x y. key x < key y) (ys @ zs)" using sorted_strict [OF keys] Suc.prems(1) by simp
  have "set (ys @ zs) = set rows" using Suc.prems(1) by (metis set_sort)
  then have "ys \<noteq> [] \<longrightarrow> last ys \<in> set rows" using last_in_set [of ys] by auto
  then have c: "c \<in> insert None (Some ` key ` set rows)" using Suc.prems(2) by simp
  have "filter (\<lambda>x. after_key c (key x)) (ys @ zs) = zs"
    using filter_after_prefix [OF st] Suc.prems(2) by (cases "ys = []") (simp_all add: after_key_def)
  then have f: "fetch c = Inr (page (take (nat (limit + 1)) zs) limit key)"
    using fetch [OF c] by (simp add: rows_after_filter Suc.prems(1) del: filter_append)
  show ?case
  proof (cases "int (length zs) \<le> limit")
    case True
    then have "page (take (nat (limit + 1)) zs) limit key = (zs, None)"
      using limit by (simp add: page_def Let_def)
    then show ?thesis using f by simp
  next
    case False
    let ?m = "nat limit"
    have l: "0 < ?m" "?m < length zs" using limit False by auto
    then have items: "take ?m zs \<noteq> []" "length (take ?m zs) = ?m" by auto
    have p: "page (take (nat (limit + 1)) zs) limit key = (take ?m zs, Some (key (last (take ?m zs))))"
      using limit False items by (auto simp: page_def Let_def min_def)
    have "read_pages fetch n (Some (key (last (take ?m zs)))) = Some (Inr (drop ?m zs))"
    proof (rule Suc.IH [of "ys @ take ?m zs"])
      show "sort_key key rows = (ys @ take ?m zs) @ drop ?m zs" using Suc.prems(1) by simp
      show "Some (key (last (take ?m zs))) = (if ys @ take ?m zs = [] then None else Some (key (last (ys @ take ?m zs))))"
        using items by simp
      show "length (drop ?m zs) < n" using l Suc.prems(3) by simp
    qed
    then show ?thesis using f p by simp
  qed
qed simp

text \<open>The comments of a subject: their keys are distinct because their identifiers are.\<close>

lemma comment_pages:
  assumes ids: "distinct (map cm_id cs)" and n: "length (comments_of subject cs) < n"
    and limit: "positive_safe limit" and valid: "\<forall>c\<in>set cs. comment_decodable E c = Inr c"
    and subject: "ic_opaque (ce_ids E) subject"
    and fetch: "\<And>c. fetch c = rbind (opaque_id E subject) (\<lambda>_. rbind (positive_input limit) (\<lambda>_.
      rbind (valid_cursor E (map_option (\<lambda>(t, i). (Stamp t, i)) c)) (\<lambda>c.
      rbind (rmap_all (comment_decodable E) (rows_after (\<lambda>x. (cm_createdAt x, cm_id x)) c (limit + 1) (comments_of subject cs)))
        (\<lambda>vs. Inr (page vs limit (\<lambda>x. (cm_createdAt x, cm_id x)))))))"
  shows "read_pages fetch n None = Some (Inr (sort_key (\<lambda>x. (cm_createdAt x, cm_id x)) (comments_of subject cs)))"
proof (rule read_rest [of limit _ _ _ "[]"])
  let ?key = "\<lambda>x. (cm_createdAt x, cm_id x)"
  show "0 < limit" using limit by (simp add: positive_safe_def)
  show "distinct (map ?key (comments_of subject cs))"
    using ids by (auto simp: comments_of_def distinct_map inj_on_def)
  have decode: "rmap_all (comment_decodable E) xs = Inr xs" if "set xs \<subseteq> set cs" for xs
    using that valid by (induction xs) auto
  have sub: "set (rows_after ?key c l (comments_of subject cs)) \<subseteq> set cs" for c l
    by (auto simp: rows_after_def comments_of_def dest!: in_set_takeD)
  fix c assume "c \<in> insert None (Some ` ?key ` set (comments_of subject cs))"
  then have "valid_cursor E (map_option (\<lambda>(t, i). (Stamp t, i)) c) = Inr c"
    using valid by (auto simp: valid_cursor_def comments_of_def opaque_id_def require_def timestamp_def comment_decodable_def
        split: if_splits)
  then show "fetch c = Inr (page (rows_after ?key c (limit + 1) (comments_of subject cs)) limit ?key)"
    using limit subject decode [OF sub]
    by (simp add: fetch opaque_id_def positive_input_def require_def positive_safe_def)
qed (use n in simp_all)

end
