(* ===== verification/ProjectEvents.thy ===== *)
theory ProjectEvents
  imports LifecycleJournal
begin

text \<open>
  The events of a Project and the stream that delivers them: the append-only log of
  \<open>src/src/coordination/postgres/PostgresCoordination.ts\<close> with its sequence counter and its
  retention (\<open>appendProjectEvent\<close>, \<open>pruneProjectEvents\<close>, \<open>readProjectEvents\<close>), the decision of
  \<open>src/src/project-authority/reads/ProjectReadAuthority.ts\<close> between replaying events and asking for
  a snapshot (\<open>getProjectEvents\<close>), and the loop of a session in
  \<open>src/src/server/events/ProjectEventRoutes.ts\<close> (\<open>#runSession\<close>) that is woken after every commit.

  The decoder of the protocol package, its limits, and who may read are parameters or events of
  the environment. The state of the stream has one component the program does not have: the log of
  all events that were ever appended, against which the deliveries are compared.
\<close>

section \<open>The log\<close>

record project_event =
  px_sequence :: int
  px_kind :: string
  px_payload :: "(string \<times> string) list"
  px_occurredAt :: int

record append_input =
  px_newKind :: string
  px_newPayload :: "(string \<times> string) list"
  px_newOccurredAt :: stamp

record event_store =
  es_counter :: "int option"
  es_events :: "project_event list"

record event_env =
  ee_decodes :: "project_event \<Rightarrow> bool"
  ee_retainedCount :: int
  ee_retentionDays :: int
  ee_maxReplay :: int

definition event_kinds :: "string list" where
  "event_kinds = [''membership.updated'', ''request.updated'', ''request.comment-added'', ''ticket.updated'',
     ''ticket.comment-added'', ''main.updated'', ''authority-transfer.updated'',
     ''authority-transfer.preparation-updated'', ''membership.claimed'', ''project.retired'']"

text \<open>\<open>projectEvent\<close>: a row that the protocol package does not decode is a failed dependency.\<close>

definition project_event_row :: "event_env \<Rightarrow> project_event \<Rightarrow> coord_error + project_event" where
  "project_event_row E e =
     (if \<not> safe_integer (px_sequence e) \<or> px_sequence e < 0 \<or> px_sequence e < 1 \<or> \<not> ee_decodes E e
         \<or> px_kind e = ''snapshot.required''
      then Inl DependencyFailed else Inr e)"

definition validated_event :: "event_env \<Rightarrow> append_input \<Rightarrow> coord_error + project_event" where
  "validated_event E i =
     rbind (timestamp (px_newOccurredAt i)) (\<lambda>occurred.
     let e = \<lparr>px_sequence = 1, px_kind = px_newKind i, px_payload = px_newPayload i, px_occurredAt = occurred\<rparr>
     in if \<not> ee_decodes E e \<or> px_kind e = ''snapshot.required'' then Inl InvalidRecord else Inr e)"

text \<open>The upsert of the counter; \<open>None\<close> when its row is full.\<close>

definition next_sequence :: "event_store \<Rightarrow> int option" where
  "next_sequence s =
     (case es_counter s of
        None \<Rightarrow> Some 1
      | Some n \<Rightarrow> if n < max_safe_integer then Some (n + 1) else None)"

definition prune_events :: "event_env \<Rightarrow> int \<Rightarrow> event_store \<Rightarrow> event_store" where
  "prune_events E now s =
     (case es_counter s of
        None \<Rightarrow> s
      | Some n \<Rightarrow> s\<lparr>es_events := filter (\<lambda>e. \<not> (px_sequence e \<le> n - ee_retainedCount E
          \<and> px_occurredAt e < now - ee_retentionDays E * 86400000)) (es_events s)\<rparr>)"

definition prune_project_events :: "event_env \<Rightarrow> stamp \<Rightarrow> event_store \<Rightarrow> coord_error + int \<times> event_store" where
  "prune_project_events E now s =
     rbind (timestamp now) (\<lambda>n.
     let s' = prune_events E n s
     in Inr (int (length (es_events s)) - int (length (es_events s')), s'))"

definition append_event ::
  "event_env \<Rightarrow> append_input \<Rightarrow> event_store \<Rightarrow> coord_error + project_event \<times> event_store" where
  "append_event E i s =
     rbind (validated_event E i) (\<lambda>v.
     case next_sequence s of
       None \<Rightarrow> Inl StateConflict
     | Some n \<Rightarrow>
         let e = v\<lparr>px_sequence := n\<rparr>
         in rbind (ensure (px_kind e \<in> set event_kinds
              \<and> \<not> list_ex (\<lambda>x. px_sequence x = n) (es_events s)) DependencyFailed) (\<lambda>_.
            rbind (project_event_row E e) (\<lambda>e'.
              Inr (e', prune_events E (px_occurredAt v)
                \<lparr>es_counter = Some n, es_events = es_events s @ [e]\<rparr>))))"

definition latest_sequence :: "event_store \<Rightarrow> int" where
  "latest_sequence s = (case es_counter s of None \<Rightarrow> 0 | Some n \<Rightarrow> n)"

definition retained_from :: "event_store \<Rightarrow> int" where
  "retained_from s =
     (case es_counter s of
        None \<Rightarrow> 1
      | Some n \<Rightarrow> (case sort_key px_sequence (es_events s) of [] \<Rightarrow> n + 1 | e # _ \<Rightarrow> px_sequence e))"

fun decode_rows :: "('a \<Rightarrow> coord_error + 'b) \<Rightarrow> 'a list \<Rightarrow> coord_error + 'b list" where
  "decode_rows f [] = Inr []"
| "decode_rows f (x # xs) = rbind (f x) (\<lambda>y. rbind (decode_rows f xs) (\<lambda>ys. Inr (y # ys)))"

record event_replay =
  er_events :: "project_event list"
  er_latest :: int
  er_retainedFrom :: int

definition read_events :: "event_env \<Rightarrow> int \<Rightarrow> int \<Rightarrow> event_store \<Rightarrow> coord_error + event_replay" where
  "read_events E after limit s =
     (if \<not> safe_integer after \<or> after < 0 \<or> \<not> safe_integer limit \<or> limit < 1 \<or> limit > ee_maxReplay E
      then Inl InvalidRecord
      else rbind (decode_rows (project_event_row E)
             (take (nat limit) (sort_key px_sequence (filter (\<lambda>e. px_sequence e > after) (es_events s))))) (\<lambda>es.
           Inr \<lparr>er_events = es, er_latest = latest_sequence s, er_retainedFrom = retained_from s\<rparr>))"

section \<open>Replay or snapshot\<close>

datatype event_result = Events "project_event list" int | SnapshotNeeded int

text \<open>The loop over the events: whether they are the ones from \<open>expected\<close> on, and the next one.\<close>

fun contiguous :: "int \<Rightarrow> project_event list \<Rightarrow> int option" where
  "contiguous expected [] = Some expected"
| "contiguous expected (e # es) = (if px_sequence e \<noteq> expected then None else contiguous (expected + 1) es)"

definition project_events :: "event_env \<Rightarrow> int \<Rightarrow> event_store \<Rightarrow> coord_error + event_result" where
  "project_events E after s =
     (if \<not> safe_integer after \<or> after < 0 then Inl StateConflict
      else rbind (read_events E after (ee_maxReplay E) s) (\<lambda>r.
        if after > er_latest r \<or> after + 1 < er_retainedFrom r \<or> er_latest r - after > ee_maxReplay E
        then Inr (SnapshotNeeded (er_latest r))
        else (case contiguous (after + 1) (er_events r) of
                None \<Rightarrow> Inr (SnapshotNeeded (er_latest r))
              | Some expected \<Rightarrow>
                  if expected - 1 \<noteq> er_latest r then Inr (SnapshotNeeded (er_latest r))
                  else Inr (Events (er_events r) (er_latest r)))))"

section \<open>The session\<close>

datatype message = EventMessage project_event | SnapshotRequired int

datatype session_mode = Polling | Reading | Sending "project_event list" int | Waiting | Ended

datatype fetch_outcome = Fetched | FetchBusy | FetchFailed

record stream_state =
  st_store :: event_store
  st_log :: "project_event list"
  st_owed :: nat
  st_wake :: nat
  st_observed :: nat
  st_cursor :: int
  st_sent :: "message list"
  st_mode :: session_mode

text \<open>
  What can happen: an event is appended and committed, with a notification that is still to come;
  the notification; a pruning; and the steps of the session: it notes the wake version, reads,
  sends one event (which a slow consumer refuses), decides whether to wait, waits no longer, and is
  closed.
\<close>

datatype stream_event = Append append_input | Notify | Prune stamp
  | Observe | Fetch fetch_outcome | Send bool | Decide | Timeout | CloseSession

definition append_step :: "event_env \<Rightarrow> append_input \<Rightarrow> stream_state \<Rightarrow> stream_state" where
  "append_step E i s =
     (case append_event E i (st_store s) of
        Inl _ \<Rightarrow> s
      | Inr (e, store) \<Rightarrow> s\<lparr>st_store := store, st_log := st_log s @ [e], st_owed := st_owed s + 1\<rparr>)"

definition notify_step :: "stream_state \<Rightarrow> stream_state" where
  "notify_step s =
     (if st_owed s = 0 then s
      else s\<lparr>st_owed := st_owed s - 1, st_wake := st_wake s + 1,
             st_mode := (if st_mode s = Waiting then Polling else st_mode s)\<rparr>)"

definition fetch_step :: "event_env \<Rightarrow> fetch_outcome \<Rightarrow> stream_state \<Rightarrow> stream_state" where
  "fetch_step E f s =
     (case f of
        FetchBusy \<Rightarrow> s\<lparr>st_mode := Polling\<rparr>
      | FetchFailed \<Rightarrow> s\<lparr>st_mode := Ended\<rparr>
      | Fetched \<Rightarrow>
          (case project_events E (st_cursor s) (st_store s) of
             Inl _ \<Rightarrow> s\<lparr>st_mode := Ended\<rparr>
           | Inr (SnapshotNeeded n) \<Rightarrow> s\<lparr>st_sent := st_sent s @ [SnapshotRequired n], st_mode := Ended\<rparr>
           | Inr (Events es n) \<Rightarrow> s\<lparr>st_mode := Sending es n\<rparr>))"

definition decide_step :: "int \<Rightarrow> stream_state \<Rightarrow> stream_state" where
  "decide_step n s =
     s\<lparr>st_cursor := n, st_mode := (if st_wake s \<noteq> st_observed s then Polling else Waiting)\<rparr>"

fun stream_step :: "event_env \<Rightarrow> stream_state \<Rightarrow> stream_event \<Rightarrow> stream_state" where
  "stream_step E s (Append i) = append_step E i s"
| "stream_step E s Notify = notify_step s"
| "stream_step E s (Prune now) =
     (case prune_project_events E now (st_store s) of Inl _ \<Rightarrow> s | Inr (_, store) \<Rightarrow> s\<lparr>st_store := store\<rparr>)"
| "stream_step E s Observe = (if st_mode s = Polling then s\<lparr>st_observed := st_wake s, st_mode := Reading\<rparr> else s)"
| "stream_step E s (Fetch f) = (if st_mode s = Reading then fetch_step E f s else s)"
| "stream_step E s (Send ok) =
     (case st_mode s of
        Sending (e # es) n \<Rightarrow>
          if ok then s\<lparr>st_sent := st_sent s @ [EventMessage e], st_cursor := px_sequence e, st_mode := Sending es n\<rparr>
          else s\<lparr>st_mode := Ended\<rparr>
      | _ \<Rightarrow> s)"
| "stream_step E s Decide = (case st_mode s of Sending [] n \<Rightarrow> decide_step n s | _ \<Rightarrow> s)"
| "stream_step E s Timeout = (if st_mode s = Waiting then s\<lparr>st_mode := Polling\<rparr> else s)"
| "stream_step E s CloseSession = s\<lparr>st_mode := Ended\<rparr>"

definition stream_start :: "int \<Rightarrow> stream_state" where
  "stream_start after = \<lparr>st_store = \<lparr>es_counter = None, es_events = []\<rparr>, st_log = [], st_owed = 0, st_wake = 0,
     st_observed = 0, st_cursor = after, st_sent = [], st_mode = Polling\<rparr>"

section \<open>Invariant\<close>

text \<open>
  The log holds the events 1, 2, 3 up to the counter; the store holds some of them, at least the
  last ones that retention promises; and what was sent are the events between the first cursor and
  the present one.
\<close>

definition store_ok :: "event_env \<Rightarrow> event_store \<Rightarrow> project_event list \<Rightarrow> bool" where
  "store_ok E s log \<longleftrightarrow> map px_sequence log = map int [1..<Suc (length log)]
     \<and> es_counter s = (if log = [] then None else Some (int (length log)))
     \<and> distinct (map px_sequence (es_events s)) \<and> set (es_events s) \<subseteq> set log
     \<and> (\<forall>e\<in>set log. project_event_row E e = Inr e)
     \<and> (\<forall>e\<in>set log. px_sequence e > int (length log) - ee_retainedCount E \<longrightarrow> e \<in> set (es_events s))"

definition after_sequence :: "int \<Rightarrow> project_event list \<Rightarrow> project_event list" where
  "after_sequence n log = filter (\<lambda>e. n < px_sequence e) log"

definition delivered :: "int \<Rightarrow> stream_state \<Rightarrow> project_event list" where
  "delivered start s = filter (\<lambda>e. start < px_sequence e \<and> px_sequence e \<le> st_cursor s) (st_log s)"

lemma sequence_nth: "map px_sequence log = map int [1..<Suc (length log)] \<Longrightarrow> i < length log \<Longrightarrow> px_sequence (log ! i) = int i + 1"
proof -
  assume s: "map px_sequence log = map int [1..<Suc (length log)]" and i: "i < length log"
  have "map px_sequence log ! i = map int [1..<Suc (length log)] ! i" using s by (rule arg_cong)
  then show ?thesis using i by (simp del: upt_Suc)
qed

text \<open>In a log numbered from 1, the events after a number are those after so many places.\<close>

lemma after_drop:
  assumes s: "map px_sequence log = map int [1..<Suc (length log)]" and n: "0 \<le> n"
  shows "after_sequence n log = drop (nat n) log"
proof -
  have "take (nat n) log = filter (\<lambda>e. \<not> n < px_sequence e) (take (nat n) log)"
    using sequence_nth [OF s] n by (intro filter_True [symmetric]) (auto simp: set_conv_nth)
  moreover have "filter (\<lambda>e. n < px_sequence e) (take (nat n) log) = []"
    using sequence_nth [OF s] n by (auto simp: filter_empty_conv set_conv_nth)
  moreover have "filter (\<lambda>e. n < px_sequence e) (drop (nat n) log) = drop (nat n) log"
    using sequence_nth [OF s] n by (intro filter_True) (auto simp: set_conv_nth)
  ultimately show ?thesis unfolding after_sequence_def by (metis append_Nil append_take_drop_id filter_append)
qed

lemma filter_distinct_map: "distinct (map f xs) \<Longrightarrow> distinct (map f (filter P xs))"
  by (induction xs) auto

lemma prune_ok:
  assumes s: "store_ok E s log"
  shows "store_ok E (prune_events E now s) log"
proof (cases "es_counter s")
  case (Some n)
  then have "n = int (length log)" using s by (auto simp: store_ok_def split: if_splits)
  then show ?thesis using s Some
    by (simp add: store_ok_def prune_events_def filter_distinct_map) (auto simp del: upt_Suc)
qed (use s in \<open>simp add: prune_events_def\<close>)

lemma append_event_ok:
  assumes s: "store_ok E s log" and a: "append_event E i s = Inr (e, s')"
  shows "store_ok E s' (log @ [e]) \<and> px_sequence e = int (length log) + 1"
proof -
  obtain v n where v: "next_sequence s = Some n" "e = v\<lparr>px_sequence := n\<rparr>" "project_event_row E e = Inr e"
    "\<not> list_ex (\<lambda>x. px_sequence x = n) (es_events s)"
    "s' = prune_events E (px_occurredAt v) \<lparr>es_counter = Some n, es_events = es_events s @ [e]\<rparr>"
    using a by (auto simp: append_event_def Let_def result_simps project_event_row_def split: option.splits if_splits)
  have counter: "es_counter s = (if log = [] then None else Some (int (length log)))" using s by (simp add: store_ok_def)
  then have n: "n = int (length log) + 1" using v(1) by (auto simp: next_sequence_def split: if_splits)
  have "store_ok E \<lparr>es_counter = Some n, es_events = es_events s @ [e]\<rparr> (log @ [e])"
    using s v n by (auto simp: store_ok_def list_ex_iff)
  from prune_ok [OF this] show ?thesis using v n by simp
qed

lemma prune_step_ok:
  "store_ok E s log \<Longrightarrow> prune_project_events E now s = Inr (k, s') \<Longrightarrow> store_ok E s' log"
  by (auto simp: prune_project_events_def Let_def result_simps prune_ok)

lemma latest_log: "store_ok E s log \<Longrightarrow> latest_sequence s = int (length log)"
  by (auto simp: store_ok_def latest_sequence_def)

text \<open>A run of consecutive events of the log that starts at a number and ends with it is the rest of the log.\<close>

lemma contiguous_sequences:
  "contiguous n es = Some m \<Longrightarrow> map px_sequence es = map (\<lambda>i. n + int i) [0..<length es] \<and> m = n + int (length es)"
proof (induction es arbitrary: n)
  case (Cons e es)
  then have e: "px_sequence e = n" "contiguous (n + 1) es = Some m" by (auto split: if_splits)
  have "map (\<lambda>i. n + int i) [0..<Suc (length es)] = n # map (\<lambda>i. n + 1 + int i) [0..<length es]"
    by (simp add: map_upt_Suc ac_simps del: upt_Suc)
  then show ?case using e Cons.IH [OF e(2)] by (simp del: upt_Suc)
qed simp

lemma sequence_inj:
  assumes s: "map px_sequence log = map int [1..<Suc (length log)]"
    and es: "set es \<subseteq> set log" and fs: "set fs \<subseteq> set log" and eq: "map px_sequence es = map px_sequence fs"
  shows "es = fs"
proof -
  have "distinct (map px_sequence log)" unfolding s by (simp add: distinct_map del: upt_Suc)
  then have "inj_on px_sequence (set log)" by (simp add: distinct_map)
  then have "inj_on px_sequence (set es \<union> set fs)" by (rule inj_on_subset) (use es fs in auto)
  then show ?thesis by (rule map_inj_on [OF eq])
qed

lemma decode_rows_Inr: "decode_rows f xs = Inr ys \<Longrightarrow> (\<And>x y. x \<in> set xs \<Longrightarrow> f x = Inr y \<Longrightarrow> y = x) \<Longrightarrow> ys = xs"
  by (induction xs arbitrary: ys) (auto simp: result_simps)

lemma row_same: "project_event_row E e = Inr y \<Longrightarrow> y = e"
  by (auto simp: project_event_row_def split: if_splits)

lemma read_events_rows:
  "read_events E after limit s = Inr r \<Longrightarrow> er_latest r = latest_sequence s \<and> er_retainedFrom r = retained_from s
    \<and> er_events r = take (nat limit) (sort_key px_sequence (after_sequence after (es_events s)))"
  by (auto simp: read_events_def result_simps after_sequence_def split: if_splits dest!: decode_rows_Inr dest: row_same)

text \<open>What is replayed is exactly what the client has not seen.\<close>

lemma replay_exact:
  assumes s: "store_ok E s log" and p: "project_events E after s = Inr (Events es n)"
  shows "es = after_sequence after log \<and> n = int (length log) \<and> 0 \<le> after \<and> after \<le> n"
proof -
  obtain r expected where r: "read_events E after (ee_maxReplay E) s = Inr r" "er_events r = es" "er_latest r = n"
    "contiguous (after + 1) es = Some expected" "expected - 1 = n" "0 \<le> after" "after \<le> n"
    using p by (auto simp: project_events_def result_simps split: if_splits option.splits)
  note rows = read_events_rows [OF r(1)]
  have n: "n = int (length log)" using rows r(3) latest_log [OF s] by simp
  have seq: "map px_sequence log = map int [1..<Suc (length log)]" using s by (simp add: store_ok_def)
  have len: "length es = length log - nat after" using contiguous_sequences [OF r(4)] r(5-7) n by auto
  have "map px_sequence (after_sequence after log) = map (\<lambda>i. after + 1 + int i) [0..<length es]"
    using after_drop [OF seq r(6)] sequence_nth [OF seq] r(6,7) n len
    by (intro nth_equalityI) (auto simp del: upt_Suc)
  then have eq: "map px_sequence es = map px_sequence (after_sequence after log)"
    using contiguous_sequences [OF r(4)] by simp
  have "set es \<subseteq> set log" using rows r(2) s
    by (auto simp: store_ok_def after_sequence_def dest!: in_set_takeD)
  then have "es = after_sequence after log"
    by (rule sequence_inj [OF seq _ _ eq]) (auto simp: after_sequence_def)
  then show ?thesis using n r by simp
qed

text \<open>A client that is not further behind than what is retained and replayed gets its events.\<close>

lemma replay_complete:
  assumes s: "store_ok E s log" and limits: "0 < ee_maxReplay E" "safe_integer (ee_maxReplay E)"
    and after: "safe_integer after" "0 \<le> after" "after \<le> int (length log)"
    and near: "int (length log) - after \<le> ee_maxReplay E" "int (length log) - after \<le> ee_retainedCount E"
  shows "project_events E after s = Inr (Events (after_sequence after log) (int (length log)))"
proof -
  have seq: "map px_sequence log = map int [1..<Suc (length log)]" using s by (simp add: store_ok_def)
  let ?es = "after_sequence after log"
  have kept: "e \<in> set (es_events s)" if "e \<in> set ?es" for e
    using that s near by (auto simp: store_ok_def after_sequence_def)
  have "sorted (map int [1..<Suc (length log)])" by (simp add: sorted_wrt_map del: upt_Suc)
  then have sorted: "sorted (map px_sequence ?es)"
    using after_drop [OF seq after(2)] seq by (simp add: drop_map [symmetric] sorted_wrt_drop del: upt_Suc)
  have dist: "distinct (map px_sequence ?es)"
    using after_drop [OF seq after(2)] seq by (simp add: drop_map [symmetric] distinct_map inj_on_def del: upt_Suc)
  have ds: "distinct (map px_sequence (es_events s))" and sub: "set (es_events s) \<subseteq> set log" using s by (simp_all add: store_ok_def)
  have same: "sort_key px_sequence (after_sequence after (es_events s)) = ?es"
  proof (rule sequence_inj [OF seq])
    show "set (sort_key px_sequence (after_sequence after (es_events s))) \<subseteq> set log" "set ?es \<subseteq> set log"
      using sub by (auto simp: after_sequence_def)
    have "set (after_sequence after (es_events s)) = set ?es" using kept sub by (auto simp: after_sequence_def)
    moreover have "distinct (map px_sequence (sort_key px_sequence (after_sequence after (es_events s))))"
      using filter_distinct_map [OF ds] by (simp add: after_sequence_def distinct_map)
    ultimately show "map px_sequence (sort_key px_sequence (after_sequence after (es_events s))) = map px_sequence ?es"
      using sorted dist by (intro sorted_distinct_set_unique) simp_all
  qed
  have len: "int (length ?es) = int (length log) - after" using after_drop [OF seq after(2)] after by simp
  have "decode_rows (project_event_row E) xs = Inr xs" if "set xs \<subseteq> set log" for xs
    using that s by (induction xs) (auto simp: store_ok_def)
  then have r: "read_events E after (ee_maxReplay E) s
      = Inr \<lparr>er_events = ?es, er_latest = int (length log), er_retainedFrom = retained_from s\<rparr>"
    using after limits len near same latest_log [OF s]
    by (simp add: read_events_def after_sequence_def [symmetric]) (simp add: after_sequence_def)
  have cont: "contiguous m xs = Some (m + int (length xs))" if "map px_sequence xs = map (\<lambda>i. m + int i) [0..<length xs]" for m xs
    using that
  proof (induction xs arbitrary: m)
    case (Cons x xs)
    have "map (\<lambda>i. m + int i) [0..<length (x # xs)] = m # map (\<lambda>i. m + 1 + int i) [0..<length xs]"
      by (simp add: map_upt_Suc ac_simps del: upt_Suc)
    then have "px_sequence x = m" "map px_sequence xs = map (\<lambda>i. m + 1 + int i) [0..<length xs]" using Cons.prems by simp_all
    then show ?case using Cons.IH by simp
  qed simp
  have "map px_sequence ?es = map (\<lambda>i. after + 1 + int i) [0..<length ?es]"
    using after_drop [OF seq after(2)] sequence_nth [OF seq] after by (intro nth_equalityI) (auto simp del: upt_Suc)
  from cont [OF this] have c: "contiguous (after + 1) ?es = Some (int (length log) + 1)" using len by simp
  have "retained_from s \<le> after + 1"
  proof (cases "?es = []")
    case True
    then have l: "after = int (length log)" using len after by simp
    show ?thesis
    proof (cases "es_counter s")
      case (Some n)
      show ?thesis
      proof (cases "sort_key px_sequence (es_events s)")
        case Nil
        then show ?thesis using Some s l by (auto simp: retained_from_def store_ok_def split: if_splits)
      next
        case (Cons e es)
        then have "e \<in> set log" using sub by (metis list.set_intros(1) set_sort subsetD)
        then have "px_sequence e \<le> int (length log)" using sequence_nth [OF seq] by (auto simp: in_set_conv_nth)
        then show ?thesis using Some Cons l by (simp add: retained_from_def)
      qed
    qed (use after in \<open>simp add: retained_from_def\<close>)
  next
    case False
    then have h: "hd ?es \<in> set (es_events s)" by (intro kept hd_in_set)
    have seq_h: "px_sequence (hd ?es) = after + 1"
      using False after_drop [OF seq after(2)] sequence_nth [OF seq, of "nat after"] after
      by (auto simp: hd_drop_conv_nth)
    have "log \<noteq> []" using False by (auto simp: after_sequence_def)
    then have n: "es_counter s = Some (int (length log))" using s by (simp add: store_ok_def)
    have "length (sort_key px_sequence (es_events s)) \<noteq> 0" unfolding length_sort using h by auto
    then obtain x xs where x: "sort_key px_sequence (es_events s) = x # xs" by (cases "sort_key px_sequence (es_events s)") simp_all
    have "sorted (map px_sequence (x # xs))" using sorted_sort_key [of px_sequence "es_events s"] x by simp
    moreover have "hd ?es \<in> set (x # xs)" using h x by (metis set_sort)
    ultimately have "px_sequence x \<le> after + 1" using seq_h by auto
    then show ?thesis using x n by (simp add: retained_from_def)
  qed
  then show ?thesis using r c after near by (simp add: project_events_def)
qed


definition between :: "int \<Rightarrow> int \<Rightarrow> project_event list \<Rightarrow> project_event list" where
  "between a b log = filter (\<lambda>e. a < px_sequence e \<and> px_sequence e \<le> b) log"

definition stream_inv :: "event_env \<Rightarrow> int \<Rightarrow> stream_state \<Rightarrow> bool" where
  "stream_inv E start s \<longleftrightarrow> store_ok E (st_store s) (st_log s)
     \<and> (\<exists>tail. st_sent s = map EventMessage (between start (st_cursor s) (st_log s)) @ tail
          \<and> (tail = [] \<or> st_mode s = Ended \<and> (\<exists>n. tail = [SnapshotRequired n])))
     \<and> start \<le> st_cursor s \<and> (st_cursor s = start \<or> st_cursor s \<le> int (length (st_log s)))
     \<and> st_observed s \<le> st_wake s
     \<and> (case st_mode s of
          Waiting \<Rightarrow> st_cursor s = int (length (st_log s)) \<or> 0 < st_owed s
        | Sending es n \<Rightarrow> es = between (st_cursor s) n (st_log s) \<and> st_cursor s \<le> n \<and> n \<le> int (length (st_log s))
            \<and> (n = int (length (st_log s)) \<or> 0 < st_owed s \<or> st_observed s < st_wake s)
        | _ \<Rightarrow> True)"

lemma between_append:
  "px_sequence e = int (length log) + 1 \<Longrightarrow> b \<le> int (length log) \<or> b \<le> a \<Longrightarrow> between a b (log @ [e]) = between a b log"
  by (auto simp: between_def)

lemma log_sorted:
  assumes "map px_sequence log = map int [1..<Suc (length log)]"
  shows "sorted_wrt (\<lambda>x y. px_sequence x < px_sequence y) log"
proof -
  have "sorted_wrt (<) (map px_sequence log)" unfolding assms by (simp add: sorted_wrt_map del: upt_Suc)
  then show ?thesis by (simp add: sorted_wrt_map)
qed

lemma between_split:
  assumes log: "sorted_wrt (\<lambda>x y. px_sequence x < px_sequence y) log" and c: "between c n log = e # es"
  shows "between (px_sequence e) n log = es \<and> c < px_sequence e \<and> px_sequence e \<le> n
    \<and> (a \<le> c \<longrightarrow> between a (px_sequence e) log = between a c log @ [e])"
proof -
  obtain us vs where l: "log = us @ e # vs" "\<forall>u\<in>set us. \<not> (c < px_sequence u \<and> px_sequence u \<le> n)"
    "c < px_sequence e" "px_sequence e \<le> n" "es = between c n vs"
    using c by (auto simp: between_def filter_eq_Cons_iff)
  have us: "px_sequence u < px_sequence e \<and> px_sequence u \<le> c" if "u \<in> set us" for u
    using that log l by (force simp: sorted_wrt_append)
  have vs: "px_sequence e < px_sequence v" if "v \<in> set vs" for v
    using that log l by (auto simp: sorted_wrt_append)
  have "between (px_sequence e) n us = []" "between (px_sequence e) n vs = between c n vs"
    using us vs l(3) by (force simp: between_def filter_empty_conv intro!: filter_cong)+
  moreover have "between a (px_sequence e) us = between a c us" "between a (px_sequence e) vs = []" "between a c vs = []" if "a \<le> c"
    using us vs l(3) that by (force simp: between_def filter_empty_conv intro!: filter_cong)+
  ultimately show ?thesis using l by (auto simp: between_def)
qed


lemma append_step_inv: "stream_inv E a s \<Longrightarrow> stream_inv E a (append_step E i s)"
proof (cases "append_event E i (st_store s)")
  case (Inr p)
  assume v: "stream_inv E a s"
  obtain e store where p: "append_event E i (st_store s) = Inr (e, store)" using Inr by (cases p) simp
  have st: "store_ok E store (st_log s @ [e])" "px_sequence e = int (length (st_log s)) + 1"
    using append_event_ok [OF _ p] v by (simp_all add: stream_inv_def)
  have b: "between a (st_cursor s) (st_log s @ [e]) = between a (st_cursor s) (st_log s)"
    using between_append [OF st(2)] v by (auto simp: stream_inv_def)
  have "between (st_cursor s) n (st_log s @ [e]) = between (st_cursor s) n (st_log s)"
    if "n \<le> int (length (st_log s))" for n
    using between_append [OF st(2)] that by auto
  then show ?thesis using v p st b by (auto simp: stream_inv_def append_step_def split: session_mode.splits)
qed (simp add: append_step_def)

lemma notify_step_inv: "stream_inv E a s \<Longrightarrow> stream_inv E a (notify_step s)"
  by (cases "st_mode s") (auto simp: stream_inv_def notify_step_def)

lemma fetch_step_inv:
  assumes v: "stream_inv E a s" and m: "st_mode s = Reading"
  shows "stream_inv E a (fetch_step E f s)"
proof (cases f)
  case Fetched
  show ?thesis
  proof (cases "project_events E (st_cursor s) (st_store s)")
    case (Inr r)
    show ?thesis
    proof (cases r)
      case (Events es n)
      have "store_ok E (st_store s) (st_log s)" using v by (simp add: stream_inv_def)
      note x = replay_exact [OF this Inr [unfolded Events]]
      have "px_sequence e \<le> int (length (st_log s))" if "e \<in> set (st_log s)" for e
        using v that sequence_nth [of "st_log s"] by (auto simp: stream_inv_def store_ok_def in_set_conv_nth)
      then have "after_sequence (st_cursor s) (st_log s) = between (st_cursor s) n (st_log s)"
        using x by (auto simp: after_sequence_def between_def intro!: filter_cong)
      then show ?thesis using v m x Fetched Inr Events by (auto simp: stream_inv_def fetch_step_def)
    qed (use v m Fetched Inr in \<open>auto simp: stream_inv_def fetch_step_def\<close>)
  qed (use v m Fetched in \<open>auto simp: stream_inv_def fetch_step_def\<close>)
qed (use v m in \<open>auto simp: stream_inv_def fetch_step_def\<close>)

lemma send_step_inv:
  assumes v: "stream_inv E a s" and m: "st_mode s = Sending (e # es) n"
  shows "stream_inv E a (s\<lparr>st_sent := st_sent s @ [EventMessage e], st_cursor := px_sequence e, st_mode := Sending es n\<rparr>)"
proof -
  have b: "between (st_cursor s) n (st_log s) = e # es" using v m by (simp add: stream_inv_def)
  have "sorted_wrt (\<lambda>x y. px_sequence x < px_sequence y) (st_log s)"
    using v by (intro log_sorted) (simp add: stream_inv_def store_ok_def)
  note x = between_split [OF this b, of a]
  show ?thesis using v m x by (auto simp: stream_inv_def)
qed

lemma decide_step_inv:
  assumes v: "stream_inv E a s" and m: "st_mode s = Sending [] n"
  shows "stream_inv E a (decide_step n s)"
proof -
  have none: "between (st_cursor s) n (st_log s) = []" "st_cursor s \<le> n" using v m by (simp_all add: stream_inv_def)
  then have "between a n (st_log s) = between a (st_cursor s) (st_log s)"
    by (force simp: between_def filter_empty_conv intro!: filter_cong)
  then show ?thesis using v m none by (auto simp: stream_inv_def decide_step_def)
qed

lemma ended_inv: "stream_inv E a s \<Longrightarrow> stream_inv E a (s\<lparr>st_mode := Ended\<rparr>)"
  by (auto simp: stream_inv_def)

lemma stream_step_inv: "stream_inv E a s \<Longrightarrow> stream_inv E a (stream_step E s e)"
proof (cases e)
  case (Prune now)
  assume "stream_inv E a s"
  then show ?thesis using Prune
    by (cases "st_mode s") (auto simp: stream_inv_def split: sum.split dest: prune_step_ok)
next
  case (Send ok)
  assume v: "stream_inv E a s"
  show ?thesis
  proof (cases "st_mode s")
    case (Sending es n)
    show ?thesis
    proof (cases es)
      case (Cons x xs)
      then show ?thesis using v Send Sending send_step_inv [OF v, of x xs n] ended_inv [OF v] by simp
    qed (use v Send Sending in simp)
  qed (use v Send in simp_all)
next
  case Decide
  assume v: "stream_inv E a s"
  show ?thesis
  proof (cases "st_mode s")
    case (Sending es n)
    then show ?thesis using v Decide decide_step_inv [OF v] by (cases es) simp_all
  qed (use v Decide in simp_all)
qed (auto simp: append_step_inv notify_step_inv fetch_step_inv, auto simp: stream_inv_def split: session_mode.splits)

interpretation stream: machine "stream_start a" "stream_step E" "stream_inv E a" for E a
proof unfold_locales
  show "stream_inv E a (stream_start a)"
    by (simp add: stream_inv_def stream_start_def store_ok_def between_def)
  show "stream_inv E a s \<Longrightarrow> stream_inv E a (stream_step E s e)" for s e by (rule stream_step_inv)
qed

text \<open>C36. Whatever happens between appends, notifications, prunings and the steps of a session,
  its client has been sent exactly the events after the sequence it started from, each once, in order
  and without a gap, up to its cursor; only after the last of them may it have been told, once and as the
  last message, that it needs a snapshot.\<close>

theorem stream_delivers_in_order:
  fixes E :: event_env and es :: "stream_event list" and start :: int
  defines "s \<equiv> run (stream_step E) (stream_start start) es"
  shows "(\<exists>tail. st_sent s = map EventMessage (filter (\<lambda>e. start < px_sequence e \<and> px_sequence e \<le> st_cursor s) (st_log s)) @ tail
      \<and> (tail = [] \<or> st_mode s = Ended \<and> (\<exists>n. tail = [SnapshotRequired n])))
    \<and> map px_sequence (st_log s) = map int [1..<Suc (length (st_log s))]"
proof -
  have "stream_inv E start s" unfolding s_def by (rule stream.inv_run)
  then show ?thesis by (simp only: stream_inv_def store_ok_def between_def)
qed


text \<open>C38. A client that is behind by no more events than are retained and replayed is never sent
  back to a snapshot: it is given all the events it has not seen, whatever was pruned.\<close>

theorem stream_replays_recent:
  assumes s: "s = run (stream_step E) (stream_start start) es"
    and limits: "positive_safe (ee_maxReplay E)"
    and after: "safe_integer after" "0 \<le> after" "after \<le> int (length (st_log s))"
    and near: "int (length (st_log s)) - after \<le> min (ee_maxReplay E) (ee_retainedCount E)"
  shows "project_events E after (st_store s)
    = Inr (Events (filter (\<lambda>e. after < px_sequence e) (st_log s)) (int (length (st_log s))))"
proof -
  have "stream_inv E start s" unfolding s by (rule stream.inv_run)
  then have "store_ok E (st_store s) (st_log s)" by (simp add: stream_inv_def)
  from replay_complete [OF this _ _ after] limits near show ?thesis
    by (simp add: after_sequence_def positive_safe_def)
qed


section \<open>A stream\<close>

definition demo_event_env :: event_env where
  "demo_event_env = \<lparr>ee_decodes = (\<lambda>_. True), ee_retainedCount = 2, ee_retentionDays = 1, ee_maxReplay = 5\<rparr>"

definition demo_append :: append_input where
  "demo_append = \<lparr>px_newKind = ''main.updated'', px_newPayload = [], px_newOccurredAt = Stamp 1000\<rparr>"

definition demo_stream_events :: "stream_event list" where
  "demo_stream_events = [Append demo_append, Append demo_append, Notify, Observe, Fetch Fetched, Send True, Send True,
     Append demo_append, Prune (Stamp 100000000), Decide]"

definition demo_stream :: stream_state where
  "demo_stream = run (stream_step demo_event_env) (stream_start 0) demo_stream_events"

lemma demo_stream_facts:
  "st_mode demo_stream = Waiting" "st_cursor demo_stream = 2" "length (st_log demo_stream) = 3"
  "map px_sequence (es_events (st_store demo_stream)) = [2, 3]"
proof -
  have "(st_mode demo_stream = Waiting, st_cursor demo_stream, length (st_log demo_stream),
      map px_sequence (es_events (st_store demo_stream))) = (True, 2, 3, [2, 3])"
    by code_simp
  then show "st_mode demo_stream = Waiting" "st_cursor demo_stream = 2" "length (st_log demo_stream) = 3"
    "map px_sequence (es_events (st_store demo_stream)) = [2, 3]"
    by simp_all
qed


theorem stream_replays_recent_witness:
  "project_events demo_event_env 2 (st_store demo_stream)
    = Inr (Events (filter (\<lambda>e. 2 < px_sequence e) (st_log demo_stream)) 3)"
  using stream_replays_recent [OF demo_stream_def, of 2] demo_stream_facts
  by (simp add: demo_event_env_def positive_safe_def safe_integer_def max_safe_integer_def)

end
