(* ===== verification/AcceptJournal.thy ===== *)
theory AcceptJournal
  imports Collaboration ProjectEvents
begin

text \<open>
  The journal of the acceptance of a change request,
  \<open>src/src/coordination/postgres/PostgresAcceptPersistence.ts\<close>: the validation of a plan and of a
  row, the operations \<open>get\<close>, \<open>getNonterminal\<close>, \<open>prepare\<close>, \<open>persistResult\<close>, \<open>markMainUpdated\<close>,
  \<open>markRecoveryRequired\<close> and \<open>complete\<close>, and the tables they work on: the journals, the recovery
  candidate of the acceptance, the Project with the commit its main branch is expected at, its
  placement, the collaboration tables and the event log. Every operation is a transaction.

  The relations of a plan (\<open>accept_journal_relations\<close>) are kept with the row of its journal: they
  are inserted with it and never changed. \<open>collabMemberRef\<close> and the decoders of the protocol
  package are parameters; a decoder either refuses a value or returns it unchanged.
\<close>

section \<open>Data\<close>

datatype object_format = Sha1 | Sha256

datatype accept_phase = APrepared | AResultPersisted | AMainUpdated | ACompleted | ARecoveryRequired

record placement =
  pl_generation :: int
  pl_project :: string
  pl_key :: string
  pl_node :: string

record accept_relation =
  ax_commit :: string
  ax_kind :: relation_kind
  ax_relation :: string
  ax_ticket :: string
  ax_ticketRevision :: int

text \<open>The commit of a merge; its time zone and the name of the main branch are constants.\<close>

record merge_commit =
  mc_authorEmail :: string
  mc_authorName :: string
  mc_committerEmail :: string
  mc_committerName :: string
  mc_message :: string
  mc_parents :: "string \<times> string"
  mc_tree :: string

text \<open>
  \<open>PrepareAcceptInput\<close>, over the type of its time stamp: an input has a \<open>stamp\<close>, a validated plan
  the milliseconds. A plan without a commit has the kind \<open>contained\<close>.
\<close>

record 't accept_plan =
  ap_actor :: string
  ap_head :: string
  ap_main :: string
  ap_revision :: int
  ap_key :: string
  ap_format :: object_format
  ap_operation :: string
  ap_personalRef :: string
  ap_placement :: placement
  ap_preparedAt :: 't
  ap_relations :: "accept_relation list"
  ap_fingerprint :: string
  ap_request :: string
  ap_requestMember :: string
  ap_commit :: "merge_commit option"

record accept_journal =
  aj_plan :: "int accept_plan"
  aj_phase :: accept_phase
  aj_recoveryFrom :: "accept_phase option"
  aj_result :: "string option"
  aj_updatedAt :: int

datatype service_state = ServiceActive | ServiceRecoveryRequired | ServiceOther string

record project_row =
  pj_main :: string
  pj_service :: service_state

record accept_db =
  ad_collab :: collab_db
  ad_project :: "project_row option"
  ad_placement :: "placement option"
  ad_catalog :: bool
  ad_journals :: "accept_journal list"
  ad_candidate :: "candidate option"
  ad_events :: event_store

record accept_env =
  ae_collab :: collab_env
  ae_events :: event_env
  ae_project :: string
  ae_isProject :: "string \<Rightarrow> bool"
  ae_memberRef :: "string \<Rightarrow> string"
  ae_decodes :: "response \<Rightarrow> bool"

abbreviation ae_ids :: "accept_env \<Rightarrow> id_checks" where
  "ae_ids E \<equiv> ce_ids (ae_collab E)"

section \<open>Validation\<close>

text \<open>
  \<open>createRepositoryPlacementLease\<close> of an active placement, in
  \<open>src/src/repositories/RepositoryPlacement.ts\<close>, with its two patterns.
\<close>

definition node_id_ok :: "string \<Rightarrow> bool" where
  "node_id_ok s \<longleftrightarrow> s \<noteq> [] \<and> length s \<le> 64
     \<and> (is_lower (hd s) \<or> is_digit (hd s)) \<and> (is_lower (last s) \<or> is_digit (last s))
     \<and> list_all (\<lambda>c. is_lower c \<or> is_digit c \<or> c \<in> set ''._-'') s"

definition placement_key_ok :: "string \<Rightarrow> bool" where
  "placement_key_ok s \<longleftrightarrow> s \<noteq> [] \<and> length s \<le> 128 \<and> (is_lower (hd s) \<or> is_digit (hd s))
     \<and> list_all (\<lambda>c. is_lower c \<or> is_digit c \<or> c \<in> set ''_-'') s"

definition placement_lease_ok :: "(string \<Rightarrow> bool) \<Rightarrow> placement \<Rightarrow> bool" where
  "placement_lease_ok is_project p \<longleftrightarrow> \<not> (\<not> is_project (pl_project p) \<or> \<not> node_id_ok (pl_node p)
     \<or> \<not> placement_key_ok (pl_key p) \<or> \<not> safe_integer (pl_generation p) \<or> pl_generation p \<le> 0)"

definition same_placement :: "placement \<Rightarrow> placement \<Rightarrow> bool" where
  "same_placement p q \<longleftrightarrow> pl_generation p = pl_generation q \<and> pl_project p = pl_project q
     \<and> pl_key p = pl_key q \<and> pl_node p = pl_node q"

definition active_phase :: "accept_phase \<Rightarrow> bool" where
  "active_phase p \<longleftrightarrow> p \<in> {APrepared, AResultPersisted, AMainUpdated}"

definition author_name :: string where "author_name = ''Claudian Collab''"
definition author_email :: string where "author_email = ''collab@claudian.local''"

definition accept_message :: "string \<Rightarrow> string" where
  "accept_message request = ''Accept request '' @ request @ [CHR 0x0A]"

definition oid_for_format :: "accept_env \<Rightarrow> string \<Rightarrow> object_format \<Rightarrow> coord_error + unit" where
  "oid_for_format E oid f =
     require (\<not> (\<not> ic_oid (ae_ids E) oid \<or> length oid \<noteq> (case f of Sha1 \<Rightarrow> 40 | Sha256 \<Rightarrow> 64)))"

definition input_timestamp :: "stamp \<Rightarrow> bool \<Rightarrow> coord_error + int" where
  "input_timestamp t wholeSecond =
     rbind (timestamp t) (\<lambda>n. rbind (require (\<not> (wholeSecond \<and> n mod 1000 \<noteq> 0))) (\<lambda>_. Inr n))"

text \<open>The loop over the relations, with the relations and tickets it has seen.\<close>

fun canonical_relations ::
  "accept_env \<Rightarrow> object_format \<Rightarrow> string list \<Rightarrow> string list \<Rightarrow> accept_relation list \<Rightarrow> coord_error + unit" where
  "canonical_relations E f relationIds ticketIds [] = Inr ()"
| "canonical_relations E f relationIds ticketIds (r # rs) =
     (if \<not> ic_opaque (ae_ids E) (ax_relation r) \<or> \<not> ic_opaque (ae_ids E) (ax_ticket r)
         \<or> \<not> safe_integer (ax_ticketRevision r) \<or> ax_ticketRevision r < 1
         \<or> ax_relation r \<in> set relationIds \<or> ax_ticket r \<in> set ticketIds
      then Inl InvalidRecord
      else rbind (oid_for_format E (ax_commit r) f) (\<lambda>_.
             canonical_relations E f (ax_relation r # relationIds) (ax_ticket r # ticketIds) rs))"

definition commit_ok :: "'t accept_plan \<Rightarrow> merge_commit \<Rightarrow> bool" where
  "commit_ok i c \<longleftrightarrow> \<not> (mc_authorName c \<noteq> author_name \<or> mc_authorEmail c \<noteq> author_email
     \<or> mc_committerName c \<noteq> author_name \<or> mc_committerEmail c \<noteq> author_email
     \<or> mc_message c \<noteq> accept_message (ap_request i)
     \<or> fst (mc_parents c) \<noteq> ap_main i \<or> snd (mc_parents c) \<noteq> ap_head i)"

text \<open>\<open>canonicalPrepare\<close>: the validated plan, its relations in the order of their identifiers.\<close>

definition canonical_plan :: "'t accept_plan \<Rightarrow> int \<Rightarrow> int accept_plan" where
  "canonical_plan i prepared = \<lparr>ap_actor = ap_actor i, ap_head = ap_head i, ap_main = ap_main i,
     ap_revision = ap_revision i, ap_key = ap_key i, ap_format = ap_format i, ap_operation = ap_operation i,
     ap_personalRef = ap_personalRef i, ap_placement = ap_placement i, ap_preparedAt = prepared,
     ap_relations = sort_key ax_relation (ap_relations i), ap_fingerprint = ap_fingerprint i,
     ap_request = ap_request i, ap_requestMember = ap_requestMember i, ap_commit = ap_commit i\<rparr>"

definition canonical_prepare :: "accept_env \<Rightarrow> stamp accept_plan \<Rightarrow> coord_error + int accept_plan" where
  "canonical_prepare E i =
     rbind (require (\<not> (\<not> ic_member (ae_ids E) (ap_actor i) \<or> \<not> ic_member (ae_ids E) (ap_requestMember i)
         \<or> \<not> ic_opaque (ae_ids E) (ap_request i) \<or> \<not> ic_opaque (ae_ids E) (ap_operation i)
         \<or> \<not> ic_opaque (ae_ids E) (ap_key i) \<or> \<not> sha256_ok (ap_fingerprint i)
         \<or> \<not> safe_integer (ap_revision i) \<or> ap_revision i < 1
         \<or> ap_personalRef i \<noteq> ae_memberRef E (ap_requestMember i)))) (\<lambda>_.
     rbind (oid_for_format E (ap_main i) (ap_format i)) (\<lambda>_.
     rbind (oid_for_format E (ap_head i) (ap_format i)) (\<lambda>_.
     rbind (input_timestamp (ap_preparedAt i) True) (\<lambda>prepared.
     rbind (require (placement_lease_ok (ae_isProject E) (ap_placement i))) (\<lambda>_.
     rbind (canonical_relations E (ap_format i) [] [] (ap_relations i)) (\<lambda>_.
     rbind (case ap_commit i of
              None \<Rightarrow> Inr ()
            | Some c \<Rightarrow> rbind (require (commit_ok i c)) (\<lambda>_. oid_for_format E (mc_tree c) (ap_format i))) (\<lambda>_.
       Inr (canonical_plan i prepared))))))))"

section \<open>Reading journals\<close>

text \<open>\<open>decodeJournal\<close>: a row is validated again, and every failure is a failed dependency.\<close>

definition row_input :: "int accept_plan \<Rightarrow> stamp accept_plan" where
  "row_input p = \<lparr>ap_actor = ap_actor p, ap_head = ap_head p, ap_main = ap_main p,
     ap_revision = ap_revision p, ap_key = ap_key p, ap_format = ap_format p, ap_operation = ap_operation p,
     ap_personalRef = ap_personalRef p, ap_placement = ap_placement p, ap_preparedAt = Stamp (ap_preparedAt p),
     ap_relations = ap_relations p, ap_fingerprint = ap_fingerprint p,
     ap_request = ap_request p, ap_requestMember = ap_requestMember p, ap_commit = ap_commit p\<rparr>"

definition as_dependency :: "coord_error + 'a \<Rightarrow> coord_error + 'a" where
  "as_dependency r = (case r of Inl _ \<Rightarrow> Inl DependencyFailed | Inr x \<Rightarrow> Inr x)"

definition decode_accept :: "accept_env \<Rightarrow> accept_journal \<Rightarrow> coord_error + accept_journal" where
  "decode_accept E j =
     (if (aj_phase j = ARecoveryRequired) \<noteq> (aj_recoveryFrom j \<noteq> None)
         \<or> \<not> option_ok active_phase (aj_recoveryFrom j)
      then Inl DependencyFailed
      else rbind (as_dependency (canonical_prepare E (row_input (aj_plan j)))) (\<lambda>p.
           rbind (as_dependency (case aj_result j of None \<Rightarrow> Inr () | Some r \<Rightarrow> oid_for_format E r (ap_format p))) (\<lambda>_.
             Inr (j\<lparr>aj_plan := p\<rparr>))))"

definition has_operation :: "string \<Rightarrow> accept_journal \<Rightarrow> bool" where
  "has_operation operation j \<longleftrightarrow> ap_operation (aj_plan j) = operation"

definition get_accept :: "accept_env \<Rightarrow> string \<Rightarrow> accept_db \<Rightarrow> coord_error + accept_journal option" where
  "get_accept E operation db =
     rbind (require (ic_opaque (ae_ids E) operation)) (\<lambda>_.
       case List.find (has_operation operation) (ad_journals db) of
         None \<Rightarrow> Inr None
       | Some j \<Rightarrow> rbind (decode_accept E j) (\<lambda>d. Inr (Some d)))"

definition open_accepts :: "accept_db \<Rightarrow> accept_journal list" where
  "open_accepts db = filter (\<lambda>j. aj_phase j \<noteq> ACompleted) (ad_journals db)"

definition get_open_accept :: "accept_env \<Rightarrow> accept_db \<Rightarrow> coord_error + accept_journal option" where
  "get_open_accept E db =
     (case open_accepts db of
        [] \<Rightarrow> Inr None
      | [j] \<Rightarrow> get_accept E (ap_operation (aj_plan j)) db
      | _ \<Rightarrow> Inl DependencyFailed)"

section \<open>Recovery candidate\<close>

definition schedule_recovery ::
  "string \<Rightarrow> int \<Rightarrow> int \<Rightarrow> accept_db \<Rightarrow> coord_error + accept_db" where
  "schedule_recovery operation scheduled created db =
     rbind (ensure (created \<le> scheduled) DependencyFailed) (\<lambda>_.
       case ad_candidate db of
         None \<Rightarrow> Inr (db\<lparr>ad_candidate := Some \<lparr>cd_operation = operation, cd_scheduledAt = scheduled, cd_createdAt = created\<rparr>\<rparr>)
       | Some c \<Rightarrow>
           if cd_operation c \<noteq> operation then Inl StateConflict
           else rbind (ensure (cd_createdAt c \<le> scheduled) DependencyFailed) (\<lambda>_.
                  Inr (db\<lparr>ad_candidate := Some (c\<lparr>cd_scheduledAt := scheduled\<rparr>)\<rparr>)))"

definition remove_recovery :: "string \<Rightarrow> accept_db \<Rightarrow> accept_db" where
  "remove_recovery operation db =
     (case ad_candidate db of
        None \<Rightarrow> db
      | Some c \<Rightarrow> if cd_operation c = operation then db\<lparr>ad_candidate := None\<rparr> else db)"

section \<open>Preparation\<close>

text \<open>
  The fences of \<open>prepare\<close> and of \<open>complete\<close>, which are the same: the Project serves, its main
  branch and its placement are the planned ones, and the request is open, at the planned head and
  revision, with exactly the planned relations.
\<close>

definition project_fence :: "'t accept_plan \<Rightarrow> accept_db \<Rightarrow> coord_error + unit" where
  "project_fence p db =
     (case (ad_project db, ad_placement db) of
        (Some pj, Some l) \<Rightarrow>
          if pj_service pj \<noteq> ServiceActive \<or> pj_main pj \<noteq> ap_main p \<or> pl_node l \<noteq> pl_node (ap_placement p)
             \<or> pl_key l \<noteq> pl_key (ap_placement p)
          then Inl StateConflict
          else rbind (ensure (positive_safe (pl_generation l)) DependencyFailed) (\<lambda>_.
                 ensure (pl_generation l = pl_generation (ap_placement p)) StateConflict)
      | _ \<Rightarrow> Inl StateConflict)"

definition relation_matches :: "relation_view \<Rightarrow> accept_relation \<Rightarrow> bool" where
  "relation_matches v r \<longleftrightarrow> lv_id v = ax_relation r \<and> lv_ticket v = ax_ticket r
     \<and> lv_ticketRevision v = ax_ticketRevision r \<and> lv_commit v = ax_commit r \<and> lv_kind v = ax_kind r
     \<and> lv_state v = Pending"

definition live_fences :: "accept_env \<Rightarrow> 't accept_plan \<Rightarrow> accept_db \<Rightarrow> coord_error + unit" where
  "live_fences E p db =
     rbind (project_fence p db) (\<lambda>_.
     rbind (find_request (ae_collab E) (ap_request p) (ad_collab db)) (\<lambda>found.
       case found of
         None \<Rightarrow> Inl StateConflict
       | Some q \<Rightarrow>
           ensure (qv_status q = Open \<and> qv_member q = ap_requestMember p \<and> qv_head q = ap_head p
             \<and> qv_revision q = ap_revision p
             \<and> list_all2 relation_matches (sort_key lv_id (qv_relations q)) (ap_relations p)) StateConflict))"

text \<open>The checks of the table of journals, and what the insertion of one needs besides.\<close>

definition accept_row_ok :: "accept_journal \<Rightarrow> bool" where
  "accept_row_ok j \<longleftrightarrow> (aj_phase j = ARecoveryRequired) = (aj_recoveryFrom j \<noteq> None)
     \<and> option_ok active_phase (aj_recoveryFrom j)
     \<and> (case (if aj_phase j = ARecoveryRequired then the (aj_recoveryFrom j) else aj_phase j) of
          APrepared \<Rightarrow> aj_result j = None
        | _ \<Rightarrow> aj_result j \<noteq> None)
     \<and> (ap_commit (aj_plan j) = None \<longrightarrow> aj_result j = None \<or> aj_result j = Some (ap_main (aj_plan j)))
     \<and> ap_preparedAt (aj_plan j) \<le> aj_updatedAt j"

definition relation_present :: "string \<Rightarrow> accept_relation \<Rightarrow> collab_db \<Rightarrow> bool" where
  "relation_present request r db \<longleftrightarrow>
     list_ex (\<lambda>x. rl_id x = ax_relation r \<and> rl_request x = request \<and> rl_ticket x = ax_ticket r) (cb_relations db)"

definition accept_insertable :: "accept_journal \<Rightarrow> accept_db \<Rightarrow> bool" where
  "accept_insertable j db \<longleftrightarrow> accept_row_ok j
     \<and> \<not> list_ex (has_operation (ap_operation (aj_plan j))) (ad_journals db)
     \<and> \<not> list_ex (\<lambda>x. ap_actor (aj_plan x) = ap_actor (aj_plan j) \<and> ap_key (aj_plan x) = ap_key (aj_plan j)) (ad_journals db)
     \<and> (aj_phase j = ACompleted \<or> open_accepts db = [])
     \<and> ap_actor (aj_plan j) \<in> set (cb_members (ad_collab db))
     \<and> ap_requestMember (aj_plan j) \<in> set (cb_members (ad_collab db))
     \<and> list_ex (\<lambda>q. rq_id q = ap_request (aj_plan j)) (cb_requests (ad_collab db))
     \<and> list_all (\<lambda>r. relation_present (ap_request (aj_plan j)) r (ad_collab db)) (ap_relations (aj_plan j))"

definition prepare_accept :: "accept_env \<Rightarrow> stamp accept_plan \<Rightarrow> accept_db \<Rightarrow> coord_error + put_result \<times> accept_db" where
  "prepare_accept E i db =
     rbind (canonical_prepare E i) (\<lambda>p.
     rbind (require (pl_project (ap_placement p) = ae_project E)) (\<lambda>_.
     rbind (get_accept E (ap_operation p) db) (\<lambda>existing.
       case existing of
         Some j \<Rightarrow>
           rbind (ensure (aj_plan j = p) StateConflict) (\<lambda>_.
             if active_phase (aj_phase j)
             then rbind (schedule_recovery (ap_operation p) (aj_updatedAt j) (ap_preparedAt p) db) (\<lambda>db'. Inr (PutReplayed, db'))
             else Inr (PutReplayed, db))
       | None \<Rightarrow>
           rbind (get_open_accept E db) (\<lambda>open.
           rbind (ensure (open = None) StateConflict) (\<lambda>_.
           rbind (live_fences E p db) (\<lambda>_.
           let j = \<lparr>aj_plan = p, aj_phase = APrepared, aj_recoveryFrom = None, aj_result = None,
                    aj_updatedAt = ap_preparedAt p\<rparr>
           in rbind (insert_row (accept_insertable j db) j (ad_journals db)) (\<lambda>js.
              rbind (schedule_recovery (ap_operation p) (ap_preparedAt p) (ap_preparedAt p) (db\<lparr>ad_journals := js\<rparr>)) (\<lambda>db'.
                Inr (Created, db')))))))))"

section \<open>Advances\<close>

record persist_input =
  pi_operation :: string
  pi_result :: string
  pi_updatedAt :: stamp

definition present_accept :: "coord_error + accept_journal option \<Rightarrow> coord_error + accept_journal" where
  "present_accept r = rbind r (\<lambda>x. case x of None \<Rightarrow> Inl StateConflict | Some j \<Rightarrow> Inr j)"

text \<open>The update of the one row of an operation, and the schedule of its recovery.\<close>

definition update_accept ::
  "string \<Rightarrow> (accept_journal \<Rightarrow> bool) \<Rightarrow> (accept_journal \<Rightarrow> accept_journal) \<Rightarrow> accept_db \<Rightarrow> coord_error + accept_db" where
  "update_accept operation P f db =
     rbind (update_rows (\<lambda>j. has_operation operation j \<and> P j) f accept_row_ok (ad_journals db)) (\<lambda>(changed, js).
     rbind (ensure (length changed = 1) StateConflict) (\<lambda>_. Inr (db\<lparr>ad_journals := js\<rparr>)))"

definition persist_result :: "accept_env \<Rightarrow> persist_input \<Rightarrow> accept_db \<Rightarrow> coord_error + advance_result \<times> accept_db" where
  "persist_result E i db =
     rbind (require (ic_opaque (ae_ids E) (pi_operation i) \<and> ic_oid (ae_ids E) (pi_result i))) (\<lambda>_.
     rbind (input_timestamp (pi_updatedAt i) False) (\<lambda>updated.
     rbind (present_accept (get_accept E (pi_operation i) db)) (\<lambda>j.
     rbind (oid_for_format E (pi_result i) (ap_format (aj_plan j))) (\<lambda>_.
       if ap_commit (aj_plan j) = None \<and> pi_result i \<noteq> ap_main (aj_plan j) then Inl StateConflict
       else if aj_phase j = AResultPersisted \<and> aj_result j = Some (pi_result i) \<and> aj_updatedAt j = updated
       then rbind (schedule_recovery (pi_operation i) updated (ap_preparedAt (aj_plan j)) db) (\<lambda>db'. Inr (AdvanceReplayed, db'))
       else if aj_phase j \<noteq> APrepared \<or> updated < aj_updatedAt j then Inl StateConflict
       else rbind (update_accept (pi_operation i) (\<lambda>r. aj_phase r = APrepared \<and> aj_result r = None)
              (\<lambda>r. r\<lparr>aj_phase := AResultPersisted, aj_result := Some (pi_result i), aj_updatedAt := updated\<rparr>) db) (\<lambda>db1.
            rbind (schedule_recovery (pi_operation i) updated (ap_preparedAt (aj_plan j)) db1) (\<lambda>db'.
              Inr (Advanced, db')))))))"

definition mark_main_updated :: "accept_env \<Rightarrow> string \<Rightarrow> stamp \<Rightarrow> accept_db \<Rightarrow> coord_error + advance_result \<times> accept_db" where
  "mark_main_updated E operation t db =
     rbind (require (ic_opaque (ae_ids E) operation)) (\<lambda>_.
     rbind (input_timestamp t False) (\<lambda>updated.
     rbind (present_accept (get_accept E operation db)) (\<lambda>j.
       if aj_phase j = AMainUpdated \<and> aj_updatedAt j = updated
       then rbind (schedule_recovery operation updated (ap_preparedAt (aj_plan j)) db) (\<lambda>db'. Inr (AdvanceReplayed, db'))
       else if aj_phase j \<noteq> AResultPersisted \<or> aj_result j = None \<or> updated < aj_updatedAt j then Inl StateConflict
       else rbind (update_accept operation (\<lambda>r. aj_phase r = AResultPersisted \<and> aj_result r \<noteq> None)
              (\<lambda>r. r\<lparr>aj_phase := AMainUpdated, aj_updatedAt := updated\<rparr>) db) (\<lambda>db1.
            rbind (schedule_recovery operation updated (ap_preparedAt (aj_plan j)) db1) (\<lambda>db'.
              Inr (Advanced, db'))))))"

definition project_needs_recovery :: "accept_db \<Rightarrow> coord_error + accept_db" where
  "project_needs_recovery db =
     (case ad_project db of
        Some pj \<Rightarrow>
          if pj_service pj \<in> {ServiceActive, ServiceRecoveryRequired}
          then Inr (db\<lparr>ad_project := Some (pj\<lparr>pj_service := ServiceRecoveryRequired\<rparr>)\<rparr>)
          else Inl StateConflict
      | None \<Rightarrow> Inl StateConflict)"

definition mark_recovery_required ::
  "accept_env \<Rightarrow> accept_phase \<Rightarrow> string \<Rightarrow> stamp \<Rightarrow> accept_db \<Rightarrow> coord_error + advance_result \<times> accept_db" where
  "mark_recovery_required E expected operation t db =
     rbind (require (active_phase expected)) (\<lambda>_.
     rbind (require (ic_opaque (ae_ids E) operation)) (\<lambda>_.
     rbind (input_timestamp t False) (\<lambda>updated.
     rbind (present_accept (get_accept E operation db)) (\<lambda>j.
     rbind (if aj_phase j = ARecoveryRequired \<and> aj_recoveryFrom j = Some expected \<and> aj_updatedAt j = updated
            then Inr (AdvanceReplayed, db)
            else if aj_phase j \<noteq> expected \<or> updated < aj_updatedAt j then Inl StateConflict
            else rbind (update_accept operation (\<lambda>r. aj_phase r = expected)
                   (\<lambda>r. r\<lparr>aj_phase := ARecoveryRequired, aj_recoveryFrom := Some expected, aj_updatedAt := updated\<rparr>) db) (\<lambda>db1.
                 Inr (Advanced, db1))) (\<lambda>(result, db1).
     rbind (project_needs_recovery db1) (\<lambda>db2.
       Inr (result, remove_recovery operation (db2\<lparr>ad_catalog := False\<rparr>))))))))"

section \<open>Completion\<close>

definition decode_response :: "accept_env \<Rightarrow> response \<Rightarrow> coord_error + response" where
  "decode_response E r =
     (case r of
        AcceptResponse m c q \<Rightarrow> rbind (ensure (ae_decodes E r) DependencyFailed) (\<lambda>_. Inr r)
      | OtherResponse x \<Rightarrow> Inl DependencyFailed)"

text \<open>The tests of \<open>assertResponseMatchesJournal\<close> on one relation and on the whole response.\<close>

definition relation_answered :: "request_view \<Rightarrow> accept_relation \<Rightarrow> bool" where
  "relation_answered q r \<longleftrightarrow>
     (case List.find (\<lambda>v. lv_id v = ax_relation r) (rev (qv_relations q)) of
        None \<Rightarrow> False
      | Some v \<Rightarrow> lv_ticket v = ax_ticket r
          \<and> lv_ticketRevision v = (if ax_kind r = Resolves then ax_ticketRevision r + 1 else ax_ticketRevision r)
          \<and> lv_commit v = ax_commit r \<and> lv_kind v = ax_kind r \<and> lv_state v = Accepted)"

definition response_matches :: "response \<Rightarrow> accept_journal \<Rightarrow> int \<Rightarrow> bool" where
  "response_matches r j updated \<longleftrightarrow>
     (case r of
        OtherResponse x \<Rightarrow> False
      | AcceptResponse m c q \<Rightarrow>
          aj_result j = Some m \<and> aj_result j = Some c
          \<and> qv_id q = ap_request (aj_plan j) \<and> qv_member q = ap_requestMember (aj_plan j)
          \<and> qv_status q = Merged \<and> qv_merged q = aj_result j \<and> qv_head q = ap_head (aj_plan j)
          \<and> qv_revision q = ap_revision (aj_plan j) \<and> qv_updatedAt q = updated
          \<and> length (qv_relations q) = length (ap_relations (aj_plan j))
          \<and> list_all (relation_answered q) (ap_relations (aj_plan j)))"

definition accept_identity :: "int accept_plan \<Rightarrow> idempotency_identity" where
  "accept_identity p = \<lparr>ii_key = ap_key p, ii_member = ap_actor p, ii_operation = ''acceptRequest'',
     ii_fingerprint = ap_fingerprint p\<rparr>"

definition replay_response :: "accept_env \<Rightarrow> accept_journal \<Rightarrow> accept_db \<Rightarrow> coord_error + response" where
  "replay_response E j db =
     rbind (find_result (ae_collab E) (accept_identity (aj_plan j)) (ad_collab db)) (\<lambda>l.
       case l of
         Replay x \<Rightarrow>
           rbind (decode_response E x) (\<lambda>r.
           rbind (ensure (response_matches r j (aj_updatedAt j)) DependencyFailed) (\<lambda>_. Inr r))
       | _ \<Rightarrow> Inl DependencyFailed)"

text \<open>The statements of \<open>complete\<close> on the tables of relations, tickets and requests.\<close>

definition planned :: "accept_journal \<Rightarrow> relation_row \<Rightarrow> bool" where
  "planned j r \<longleftrightarrow> list_ex (\<lambda>x. rl_id r = ax_relation x \<and> rl_ticket r = ax_ticket x \<and> rl_commit r = ax_commit x
     \<and> rl_kind r = ax_kind x) (ap_relations (aj_plan j)) \<and> rl_request r = ap_request (aj_plan j)"

definition accept_relations :: "accept_journal \<Rightarrow> string \<Rightarrow> int \<Rightarrow> collab_db \<Rightarrow> coord_error + collab_db" where
  "accept_relations j result completed db =
     rbind (update_rows (\<lambda>r. planned j r \<and> rl_state r = Pending)
         (\<lambda>r. r\<lparr>rl_state := Accepted, rl_updatedAt := completed, rl_acceptedAt := Some completed, rl_mergeOid := Some result\<rparr>)
         relation_row_ok (cb_relations db)) (\<lambda>(changed, rs).
     rbind (ensure (length changed = length (ap_relations (aj_plan j))) StateConflict) (\<lambda>_.
       Inr (db\<lparr>cb_relations := rs\<rparr>)))"

definition resolved :: "accept_journal \<Rightarrow> ticket_row \<Rightarrow> bool" where
  "resolved j t \<longleftrightarrow> list_ex (\<lambda>x. ax_kind x = Resolves \<and> tk_id t = ax_ticket x \<and> tk_revision t = ax_ticketRevision x)
     (ap_relations (aj_plan j))"

definition close_tickets :: "accept_journal \<Rightarrow> int \<Rightarrow> collab_db \<Rightarrow> coord_error + collab_db" where
  "close_tickets j completed db =
     rbind (update_rows (\<lambda>t. resolved j t \<and> tk_status t = TicketOpen)
         (\<lambda>t. t\<lparr>tk_status := TicketClosed, tk_revision := tk_revision t + 1, tk_updatedAt := completed,
             tk_closedAt := Some completed, tk_closedBy := Some (ap_actor (aj_plan j))\<rparr>)
         (\<lambda>t. ticket_row_ok t \<and> ap_actor (aj_plan j) \<in> set (cb_members db)) (cb_tickets db)) (\<lambda>(changed, ts).
     rbind (ensure (length changed = length (filter (\<lambda>x. ax_kind x = Resolves) (ap_relations (aj_plan j)))) StateConflict) (\<lambda>_.
       Inr (db\<lparr>cb_tickets := ts\<rparr>)))"

definition merge_request :: "accept_journal \<Rightarrow> string \<Rightarrow> int \<Rightarrow> collab_db \<Rightarrow> coord_error + collab_db" where
  "merge_request j result completed db =
     rbind (update_rows (\<lambda>q. rq_id q = ap_request (aj_plan j) \<and> rq_member q = ap_requestMember (aj_plan j)
             \<and> rq_status q = Open \<and> rq_revision q = ap_revision (aj_plan j) \<and> rq_head q = ap_head (aj_plan j))
         (\<lambda>q. q\<lparr>rq_status := Merged, rq_merged := Some result, rq_updatedAt := completed\<rparr>)
         request_row_ok (cb_requests db)) (\<lambda>(changed, qs).
     rbind (ensure (length changed = 1) StateConflict) (\<lambda>_.
       Inr (db\<lparr>cb_requests := qs\<rparr>)))"

definition move_main :: "accept_journal \<Rightarrow> string \<Rightarrow> accept_db \<Rightarrow> coord_error + accept_db" where
  "move_main j result db =
     (case ad_project db of
        Some pj \<Rightarrow>
          if pj_main pj = ap_main (aj_plan j) \<and> pj_service pj = ServiceActive
          then Inr (db\<lparr>ad_project := Some (pj\<lparr>pj_main := result\<rparr>)\<rparr>)
          else Inl StateConflict
      | None \<Rightarrow> Inl StateConflict)"

text \<open>The response is stored under the identity of the acceptance, or must be the stored one.\<close>

definition store_response ::
  "accept_env \<Rightarrow> accept_journal \<Rightarrow> stamp \<Rightarrow> response \<Rightarrow> collab_db \<Rightarrow> coord_error + collab_db" where
  "store_response E j t response db =
     rbind (store_result (ae_collab E) (accept_identity (aj_plan j)) t response db) (\<lambda>(stored, db').
       case stored of
         StoreConflict \<Rightarrow> Inl StateConflict
       | StoreReplay x \<Rightarrow> rbind (decode_response E x) (\<lambda>r. rbind (ensure (r = response) StateConflict) (\<lambda>_. Inr db'))
       | Stored x \<Rightarrow> rbind (decode_response E x) (\<lambda>r. rbind (ensure (r = response) StateConflict) (\<lambda>_. Inr db')))"

definition main_event :: "accept_journal \<Rightarrow> string \<Rightarrow> stamp \<Rightarrow> append_input" where
  "main_event j result t = \<lparr>px_newKind = ''main.updated'',
     px_newPayload = [(''mainOid'', result), (''requestId'', ap_request (aj_plan j))], px_newOccurredAt = t\<rparr>"

definition settle_completion ::
  "accept_env \<Rightarrow> accept_journal \<Rightarrow> string \<Rightarrow> string \<Rightarrow> stamp \<Rightarrow> int \<Rightarrow> accept_db \<Rightarrow> coord_error + response \<times> accept_db" where
  "settle_completion E j operation result t completed db =
     rbind (accept_relations j result completed (ad_collab db)) (\<lambda>c1.
     rbind (close_tickets j completed c1) (\<lambda>c2.
     rbind (merge_request j result completed c2) (\<lambda>c3.
     rbind (move_main j result (db\<lparr>ad_collab := c3\<rparr>)) (\<lambda>db1.
     rbind (present (find_request (ae_collab E) (ap_request (aj_plan j)) c3)) (\<lambda>q.
     rbind (decode_response E (AcceptResponse result result q)) (\<lambda>response.
     rbind (ensure (response_matches response j completed) DependencyFailed) (\<lambda>_.
     rbind (store_response E j t response c3) (\<lambda>c4.
     rbind (append_event (ae_events E) (main_event j result t) (ad_events db1)) (\<lambda>(_, ev).
     rbind (update_accept operation (\<lambda>r. aj_phase r = AMainUpdated)
         (\<lambda>r. r\<lparr>aj_phase := ACompleted, aj_updatedAt := completed\<rparr>) (db1\<lparr>ad_collab := c4, ad_events := ev\<rparr>)) (\<lambda>db2.
       Inr (response, remove_recovery operation db2)))))))))))"

definition complete_accept :: "accept_env \<Rightarrow> string \<Rightarrow> stamp \<Rightarrow> accept_db \<Rightarrow> coord_error + response \<times> accept_db" where
  "complete_accept E operation t db =
     rbind (require (ic_opaque (ae_ids E) operation)) (\<lambda>_.
     rbind (input_timestamp t False) (\<lambda>completed.
     rbind (present_accept (get_accept E operation db)) (\<lambda>j.
       if aj_phase j = ACompleted then rbind (replay_response E j db) (\<lambda>r. Inr (r, db))
       else case aj_result j of
         None \<Rightarrow> Inl StateConflict
       | Some result \<Rightarrow>
           if aj_phase j \<noteq> AMainUpdated \<or> completed < aj_updatedAt j then Inl StateConflict
           else rbind (live_fences E (aj_plan j) db) (\<lambda>_.
                  settle_completion E j operation result t completed db))))"

section \<open>The tables of a Project\<close>

text \<open>
  An operation on the collaboration tables while journals refer to relations: deleting a relation
  that a journal refers to is refused. The placement and the state of service change by operations
  of other components.
\<close>

definition relations_kept :: "accept_db \<Rightarrow> collab_db \<Rightarrow> bool" where
  "relations_kept db c \<longleftrightarrow>
     list_all (\<lambda>j. list_all (\<lambda>r. relation_present (ap_request (aj_plan j)) r c) (ap_relations (aj_plan j))) (ad_journals db)"

datatype accept_command =
    Collaborate collab_command
  | AppendEvent append_input | PruneEvents stamp
  | PrepareAccept "stamp accept_plan"
  | PersistResult persist_input
  | MarkMainUpdated string stamp
  | MarkRecoveryRequired accept_phase string stamp
  | CompleteAccept string stamp
  | ChangePlacement "placement option"
  | ChangeService service_state

fun accept_step :: "accept_env \<Rightarrow> accept_db \<Rightarrow> accept_command \<Rightarrow> accept_db" where
  "accept_step E db (Collaborate c) =
     (let c' = collab_step (ae_collab E) (ad_collab db) c
      in if relations_kept db c' then db\<lparr>ad_collab := c'\<rparr> else db)"
| "accept_step E db (AppendEvent i) =
     committed (rbind (append_event (ae_events E) i (ad_events db)) (\<lambda>(x, ev). Inr (x, db\<lparr>ad_events := ev\<rparr>))) db"
| "accept_step E db (PruneEvents t) =
     committed (rbind (prune_project_events (ae_events E) t (ad_events db)) (\<lambda>(x, ev). Inr (x, db\<lparr>ad_events := ev\<rparr>))) db"
| "accept_step E db (PrepareAccept i) = committed (prepare_accept E i db) db"
| "accept_step E db (PersistResult i) = committed (persist_result E i db) db"
| "accept_step E db (MarkMainUpdated operation t) = committed (mark_main_updated E operation t db) db"
| "accept_step E db (MarkRecoveryRequired p operation t) = committed (mark_recovery_required E p operation t db) db"
| "accept_step E db (CompleteAccept operation t) = committed (complete_accept E operation t db) db"
| "accept_step E db (ChangePlacement l) = db\<lparr>ad_placement := l\<rparr>"
| "accept_step E db (ChangeService s) =
     (case ad_project db of None \<Rightarrow> db | Some pj \<Rightarrow> db\<lparr>ad_project := Some (pj\<lparr>pj_service := s\<rparr>)\<rparr>)"

definition new_project :: "string \<Rightarrow> placement \<Rightarrow> accept_db" where
  "new_project main l = \<lparr>ad_collab = empty_project, ad_project = Some \<lparr>pj_main = main, pj_service = ServiceActive\<rparr>,
     ad_placement = Some l, ad_catalog = True, ad_journals = [], ad_candidate = None,
     ad_events = \<lparr>es_counter = None, es_events = []\<rparr>\<rparr>"

section \<open>Rows and tables\<close>

lemmas result_intros = rbind_Inr ensure_Inr insert_row_Inr

lemma accept_relations_sound: "accept_relations j r t db = Inr db' \<Longrightarrow> sound_step db db'"
  by (auto simp: accept_relations_def rbind_Inr ensure_Inr simp del: update_rows_Inr intro!: update_relations_sound)

lemma close_tickets_sound: "close_tickets j t db = Inr db' \<Longrightarrow> sound_step db db'"
  by (auto simp: close_tickets_def rbind_Inr ensure_Inr simp del: update_rows_Inr
      intro!: update_tickets_sound simp: ticket_history_def)

lemma merge_request_sound: "merge_request j r t db = Inr db' \<Longrightarrow> sound_step db db'"
  by (auto simp: merge_request_def rbind_Inr ensure_Inr simp del: update_rows_Inr
      intro!: update_requests_sound simp: request_history_def)

lemma store_result_cases:
  assumes "store_result E i t r db = Inr (x, db')"
  shows "(db' = db \<and> (x = StoreConflict \<or> (\<exists>y. x = StoreReplay y \<and> find_result E i db = Inr (Replay y))))
    \<or> (\<exists>n. x = Stored r \<and> \<not> list_ex (\<lambda>r. same_key i (ir_identity r)) (cb_idempotency db)
        \<and> db' = db\<lparr>cb_idempotency := cb_idempotency db @ [\<lparr>ir_identity = i, ir_response = r, ir_createdAt = n\<rparr>]\<rparr>)"
proof (cases "list_ex (\<lambda>r. same_key i (ir_identity r)) (cb_idempotency db)")
  case True
  then obtain l where l: "find_result E i db = Inr l" "(case l of Missing \<Rightarrow> Inl DependencyFailed
      | Conflict \<Rightarrow> Inr (StoreConflict, db) | Replay r \<Rightarrow> Inr (StoreReplay r, db)) = Inr (x, db')"
    using assms unfolding store_result_def by (auto simp: rbind_Inr)
  then show ?thesis by (cases l) auto
next
  case False
  then show ?thesis using assms unfolding store_result_def by (auto simp: rbind_Inr insert_row_Inr)
qed

lemma store_responseD:
  assumes "store_response E j t r db = Inr db'"
  obtains x where "store_result (ae_collab E) (accept_identity (aj_plan j)) t r db = Inr (x, db')"
    "x = Stored r \<or> x = StoreReplay r"
proof -
  obtain x d where x: "store_result (ae_collab E) (accept_identity (aj_plan j)) t r db = Inr (x, d)"
    "(case x of StoreConflict \<Rightarrow> Inl StateConflict
       | StoreReplay x \<Rightarrow> rbind (decode_response E x) (\<lambda>q. rbind (ensure (q = r) StateConflict) (\<lambda>_. Inr d))
       | Stored x \<Rightarrow> rbind (decode_response E x) (\<lambda>q. rbind (ensure (q = r) StateConflict) (\<lambda>_. Inr d))) = Inr db'"
    using assms unfolding store_response_def by (auto simp: rbind_Inr)
  have id: "decode_response E y = Inr q \<Longrightarrow> q = y" for y q
    by (cases y) (auto simp: decode_response_def rbind_Inr)
  have "d = db' \<and> (x = Stored r \<or> x = StoreReplay r)"
    using x(2) by (cases x) (auto simp: rbind_Inr ensure_Inr dest: id)
  then show ?thesis using x(1) that by blast
qed

lemma store_response_sound: "store_response E j t r db = Inr db' \<Longrightarrow> sound_step db db'"
  by (elim store_responseD) (rule store_result_sound)

lemma store_response_tables:
  assumes "store_response E j t r db = Inr db'"
  shows "cb_requests db' = cb_requests db \<and> cb_relations db' = cb_relations db"
  using assms by (elim store_responseD) (auto dest: store_result_cases)

text \<open>The result that is stored is found again.\<close>

lemma store_response_found:
  assumes "store_response E j t r db = Inr db'"
  shows "\<exists>x\<in>set (cb_idempotency db'). same_key (accept_identity (aj_plan j)) (ir_identity x)
    \<and> ii_fingerprint (ir_identity x) = ap_fingerprint (aj_plan j) \<and> ir_response x = r"
proof -
  obtain x where x: "store_result (ae_collab E) (accept_identity (aj_plan j)) t r db = Inr (x, db')"
    "x = Stored r \<or> x = StoreReplay r"
    using assms by (rule store_responseD)
  consider "find_result (ae_collab E) (accept_identity (aj_plan j)) db = Inr (Replay r)" "db' = db"
    | n where "db' = db\<lparr>cb_idempotency := cb_idempotency db
        @ [\<lparr>ir_identity = accept_identity (aj_plan j), ir_response = r, ir_createdAt = n\<rparr>]\<rparr>"
    using store_result_cases [OF x(1)] x(2) by auto
  then show ?thesis
  proof cases
    case 1
    then show ?thesis by (auto simp: find_result_def rbind_Inr find_Some_iff accept_identity_def
        split: option.splits if_splits)
  next
    case 2
    then show ?thesis by (simp add: same_key_def accept_identity_def)
  qed
qed

text \<open>A stored plan is read back as it was validated.\<close>

lemma canonical_relations_mem:
  "canonical_relations E f is ts rs = Inr () \<longleftrightarrow>
     list_all (\<lambda>r. ic_opaque (ae_ids E) (ax_relation r) \<and> ic_opaque (ae_ids E) (ax_ticket r)
        \<and> positive_safe (ax_ticketRevision r) \<and> oid_for_format E (ax_commit r) f = Inr ()) rs
     \<and> distinct (map ax_relation rs) \<and> distinct (map ax_ticket rs)
     \<and> set (map ax_relation rs) \<inter> set is = {} \<and> set (map ax_ticket rs) \<inter> set ts = {}"
  by (induction rs arbitrary: "is" ts) (auto simp: rbind_Inr positive_safe_def)

lemma canonical_relations_mset:
  assumes "mset rs = mset qs" and "canonical_relations E f [] [] rs = Inr ()"
  shows "canonical_relations E f [] [] qs = Inr ()"
proof -
  have "set qs = set rs" using assms(1) by (metis mset_eq_setD)
  moreover have "distinct (map ax_relation qs) = distinct (map ax_relation rs)"
    "distinct (map ax_ticket qs) = distinct (map ax_ticket rs)"
    using assms(1) by (metis mset_eq_imp_distinct_iff mset_map)+
  ultimately show ?thesis using assms(2) by (simp add: canonical_relations_mem list_all_iff)
qed

lemma sort_key_sorted: "sort_key f (sort_key f xs) = sort_key f xs"
  by (rule sort_key_id_if_sorted) simp

lemma canonical_prepare_again:
  assumes "canonical_prepare E i = Inr p"
  shows "canonical_prepare E (row_input p) = Inr p"
proof -
  obtain n where n: "p = canonical_plan i n" "canonical_relations E (ap_format i) [] [] (ap_relations i) = Inr ()"
    "input_timestamp (ap_preparedAt i) True = Inr n"
    using assms unfolding canonical_prepare_def by (auto simp: rbind_Inr)
  have r: "canonical_relations E (ap_format i) [] [] (sort_key ax_relation (ap_relations i)) = Inr ()"
    by (rule canonical_relations_mset [OF _ n(2)]) simp
  have t: "input_timestamp (Stamp n) True = Inr n"
    using n(3) by (auto simp: input_timestamp_def timestamp_def rbind_Inr require_def ensure_Inr split: stamp.splits)
  show ?thesis using assms r t unfolding n(1)
    by (auto simp: canonical_prepare_def rbind_Inr row_input_def canonical_plan_def commit_ok_def sort_key_sorted
        split: option.splits)
qed

section \<open>What the tables promise\<close>

text \<open>
  A stored row decodes to itself. The journals are completed ones in the order of their
  preparation, then at most one that is not; the commits they record form a chain from the first
  main commit of the Project to the present one. What a completed journal says is in the tables: its
  request is merged, its relations are accepted, and its response is stored.
\<close>

definition stored_ok :: "accept_env \<Rightarrow> accept_journal \<Rightarrow> bool" where
  "stored_ok E j \<longleftrightarrow> canonical_prepare E (row_input (aj_plan j)) = Inr (aj_plan j)
     \<and> option_ok (\<lambda>r. oid_for_format E r (ap_format (aj_plan j)) = Inr ()) (aj_result j) \<and> accept_row_ok j"

definition completed_accepts :: "accept_db \<Rightarrow> accept_journal list" where
  "completed_accepts db = filter (\<lambda>j. aj_phase j = ACompleted) (ad_journals db)"

definition journals_shape :: "accept_db \<Rightarrow> bool" where
  "journals_shape db \<longleftrightarrow> ad_journals db = completed_accepts db @ open_accepts db \<and> length (open_accepts db) \<le> 1"

fun main_chain :: "string \<Rightarrow> accept_journal list \<Rightarrow> string \<Rightarrow> bool" where
  "main_chain first [] final \<longleftrightarrow> first = final"
| "main_chain first (j # js) final \<longleftrightarrow> ap_main (aj_plan j) = first
     \<and> (case aj_result j of None \<Rightarrow> False | Some r \<Rightarrow> main_chain r js final)"

definition request_merged :: "collab_db \<Rightarrow> accept_journal \<Rightarrow> bool" where
  "request_merged c j \<longleftrightarrow> (\<exists>q\<in>set (cb_requests c). rq_id q = ap_request (aj_plan j)
     \<and> rq_member q = ap_requestMember (aj_plan j) \<and> rq_status q = Merged \<and> rq_merged q = aj_result j
     \<and> rq_head q = ap_head (aj_plan j) \<and> rq_revision q = ap_revision (aj_plan j))"

definition relation_accepted :: "collab_db \<Rightarrow> accept_journal \<Rightarrow> accept_relation \<Rightarrow> bool" where
  "relation_accepted c j x \<longleftrightarrow> (\<exists>r\<in>set (cb_relations c). rl_id r = ax_relation x \<and> rl_ticket r = ax_ticket x
     \<and> rl_commit r = ax_commit x \<and> rl_kind r = ax_kind x \<and> rl_request r = ap_request (aj_plan j)
     \<and> rl_state r = Accepted \<and> rl_mergeOid r = aj_result j)"

definition answered :: "accept_env \<Rightarrow> collab_db \<Rightarrow> accept_journal \<Rightarrow> response \<Rightarrow> bool" where
  "answered E c j r \<longleftrightarrow> response_matches r j (aj_updatedAt j) \<and> decode_response E r = Inr r
     \<and> (\<exists>x\<in>set (cb_idempotency c). same_key (accept_identity (aj_plan j)) (ir_identity x)
          \<and> ii_fingerprint (ir_identity x) = ap_fingerprint (aj_plan j) \<and> ir_response x = r)"

definition settled :: "accept_env \<Rightarrow> collab_db \<Rightarrow> accept_journal \<Rightarrow> bool" where
  "settled E c j \<longleftrightarrow> request_merged c j \<and> list_all (relation_accepted c j) (ap_relations (aj_plan j))
     \<and> (\<exists>r. answered E c j r)"

text \<open>Everything but the recovery candidate; and the candidate, which an open journal has.\<close>

definition accept_tables_ok :: "accept_env \<Rightarrow> string \<Rightarrow> accept_db \<Rightarrow> bool" where
  "accept_tables_ok E main db \<longleftrightarrow> collab_ok (ad_collab db) \<and> journals_shape db
     \<and> distinct (map (\<lambda>j. ap_operation (aj_plan j)) (ad_journals db))
     \<and> (\<forall>j\<in>set (ad_journals db). stored_ok E j) \<and> (\<forall>j\<in>set (completed_accepts db). settled E (ad_collab db) j)
     \<and> distinct (map (\<lambda>j. ap_request (aj_plan j)) (completed_accepts db))
     \<and> (\<forall>q\<in>set (cb_requests (ad_collab db)). rq_status q = Merged \<longrightarrow>
          (\<exists>j\<in>set (completed_accepts db). ap_request (aj_plan j) = rq_id q))
     \<and> (case ad_project db of None \<Rightarrow> False | Some pj \<Rightarrow> main_chain main (completed_accepts db) (pj_main pj))"

definition accept_candidate_ok :: "accept_db \<Rightarrow> bool" where
  "accept_candidate_ok db \<longleftrightarrow>
     (case ad_candidate db of
        None \<Rightarrow> \<forall>j\<in>set (ad_journals db). \<not> active_phase (aj_phase j)
      | Some c \<Rightarrow> \<exists>j\<in>set (ad_journals db). has_operation (cd_operation c) j \<and> active_phase (aj_phase j))"

definition accept_ok :: "accept_env \<Rightarrow> string \<Rightarrow> accept_db \<Rightarrow> bool" where
  "accept_ok E main db \<longleftrightarrow> accept_tables_ok E main db \<and> accept_candidate_ok db"

definition accept_grows :: "accept_db \<Rightarrow> accept_db \<Rightarrow> bool" where
  "accept_grows db db' \<longleftrightarrow> grows (ad_collab db) (ad_collab db')
     \<and> (\<exists>js. completed_accepts db' = completed_accepts db @ js)"

definition accept_sound :: "accept_env \<Rightarrow> string \<Rightarrow> accept_db \<Rightarrow> accept_db \<Rightarrow> bool" where
  "accept_sound E main db db' \<longleftrightarrow> (accept_ok E main db \<longrightarrow> accept_ok E main db' \<and> accept_grows db db')"

lemma accept_grows_refl [simp]: "accept_grows db db" "accept_sound E m db db"
  by (simp_all add: accept_grows_def accept_sound_def)

lemma accept_grows_trans: "accept_grows x y \<Longrightarrow> accept_grows y z \<Longrightarrow> accept_grows x z"
  by (auto simp: accept_grows_def intro: grows_trans)

lemma settled_grows:
  assumes "settled E c j" and g: "grows c c'"
  shows "settled E c' j"
proof -
  have "request_merged c' j"
    using assms unfolding settled_def request_merged_def grows_def request_history_def
    by (metis request_status.distinct(1))
  moreover have "list_all (relation_accepted c' j) (ap_relations (aj_plan j))"
    using assms unfolding settled_def relation_accepted_def grows_def list_all_iff by meson
  moreover have "\<exists>r. answered E c' j r"
    using assms unfolding settled_def answered_def grows_def by blast
  ultimately show ?thesis by (simp add: settled_def)
qed

lemma main_chain_snoc:
  "main_chain first js final \<Longrightarrow> ap_main (aj_plan j) = final \<Longrightarrow> aj_result j = Some r \<Longrightarrow> main_chain first (js @ [j]) r"
  by (induction js arbitrary: first) (auto split: option.splits)

lemma stored_decodes: "stored_ok E j \<Longrightarrow> decode_accept E j = Inr j"
  by (auto simp: stored_ok_def decode_accept_def accept_row_ok_def as_dependency_def option_ok_def split: option.splits)

lemma get_accept_stored:
  assumes "\<forall>j\<in>set (ad_journals db). stored_ok E j"
  shows "get_accept E operation db
    = rbind (require (ic_opaque (ae_ids E) operation)) (\<lambda>_. Inr (List.find (has_operation operation) (ad_journals db)))"
proof (cases "List.find (has_operation operation) (ad_journals db)")
  case (Some j)
  then have "j \<in> set (ad_journals db)" by (auto simp: find_Some_iff)
  then show ?thesis using Some assms by (simp add: get_accept_def stored_decodes)
qed (simp add: get_accept_def)

lemma get_acceptD:
  assumes "present_accept (get_accept E operation db) = Inr j" and "accept_tables_ok E m db"
  shows "j \<in> set (ad_journals db)" "has_operation operation j" "stored_ok E j"
proof -
  have s: "\<forall>j\<in>set (ad_journals db). stored_ok E j" using assms(2) by (simp add: accept_tables_ok_def)
  have "List.find (has_operation operation) (ad_journals db) = Some j"
    using assms(1) unfolding get_accept_stored [OF s]
    by (auto simp: present_accept_def rbind_Inr split: option.splits)
  then show "j \<in> set (ad_journals db)" "has_operation operation j" "stored_ok E j"
    using s by (auto simp: find_Some_iff)
qed

lemma same_operation:
  assumes "accept_tables_ok E m db" and "j \<in> set (ad_journals db)" and "has_operation operation j"
    and "k \<in> set (ad_journals db)" and "has_operation operation k"
  shows "k = j"
  using assms by (auto simp: accept_tables_ok_def distinct_map inj_on_def has_operation_def)

lemma scheduledD:
  "schedule_recovery operation s c db = Inr db' \<Longrightarrow>
     \<exists>x. cd_operation x = operation \<and> db' = db\<lparr>ad_candidate := Some x\<rparr>"
  by (auto simp: schedule_recovery_def rbind_Inr split: option.splits if_splits) (rule exI, rule conjI [rotated], rule refl, simp)+

text \<open>The row that an update changes is the open one, the last.\<close>

lemma update_acceptD:
  assumes u: "update_accept operation P f db = Inr db'" and shape: "journals_shape db"
    and P: "\<And>j. P j \<Longrightarrow> aj_phase j \<noteq> ACompleted"
  obtains j where "ad_journals db = completed_accepts db @ [j]" "open_accepts db = [j]" "P j" "has_operation operation j"
    "db' = db\<lparr>ad_journals := completed_accepts db @ [f j]\<rparr>" "accept_row_ok (f j)"
proof -
  let ?P = "\<lambda>j. has_operation operation j \<and> P j"
  have d: "db' = db\<lparr>ad_journals := map (\<lambda>j. if ?P j then f j else j) (ad_journals db)\<rparr>"
    and one: "length (filter ?P (ad_journals db)) = 1"
    and ok: "list_all accept_row_ok (map f (filter ?P (ad_journals db)))"
    using u unfolding update_accept_def by (auto simp: rbind_Inr ensure_Inr update_rows_Inr)
  have js: "ad_journals db = completed_accepts db @ open_accepts db" using shape by (simp add: journals_shape_def)
  have none: "\<And>j. j \<in> set (completed_accepts db) \<Longrightarrow> \<not> ?P j" using P by (auto simp: completed_accepts_def)
  then have c: "filter ?P (completed_accepts db) = []" "map (\<lambda>j. if ?P j then f j else j) (completed_accepts db) = completed_accepts db"
    by (auto simp: filter_empty_conv intro!: map_idI)
  have l: "length (open_accepts db) \<le> 1" using shape by (simp add: journals_shape_def)
  have "filter ?P (ad_journals db) = filter ?P (open_accepts db)" by (subst js) (simp add: c)
  then have one': "length (filter ?P (open_accepts db)) = 1" using one by simp
  obtain j where o: "open_accepts db = [j]"
    using l one' by (cases "open_accepts db") (simp_all only: filter.simps list.size, auto)
  then have j: "open_accepts db = [j]" "?P j" using one' by (auto split: if_splits)
  have js': "ad_journals db = completed_accepts db @ [j]" using js j(1) by simp
  have "db' = db\<lparr>ad_journals := completed_accepts db @ [f j]\<rparr>"
    unfolding d js' map_append c(2) by (simp add: j(2))
  moreover have "accept_row_ok (f j)"
    using ok j js' by (simp add: list_all_iff)
  ultimately show ?thesis using j js' that by blast
qed

text \<open>An update of the open journal that leaves it open.\<close>

lemma advanced_tables:
  assumes ok: "accept_tables_ok E m db" and js: "ad_journals db = completed_accepts db @ [j]" "open_accepts db = [j]"
    and j': "aj_plan j' = aj_plan j" "aj_phase j' \<noteq> ACompleted" "stored_ok E j'"
  shows "accept_tables_ok E m (db\<lparr>ad_journals := completed_accepts db @ [j']\<rparr>)"
    and "completed_accepts (db\<lparr>ad_journals := completed_accepts db @ [j']\<rparr>) = completed_accepts db"
proof -
  let ?d = "db\<lparr>ad_journals := completed_accepts db @ [j']\<rparr>"
  show c: "completed_accepts ?d = completed_accepts db" using j'(2) by (simp add: completed_accepts_def)
  have o: "open_accepts ?d = [j']" using j'(2) by (simp add: open_accepts_def completed_accepts_def)
  have s: "\<forall>x\<in>set (ad_journals db). stored_ok E x" using ok by (simp add: accept_tables_ok_def)
  have ops: "map (\<lambda>j. ap_operation (aj_plan j)) (ad_journals ?d) = map (\<lambda>j. ap_operation (aj_plan j)) (ad_journals db)"
    by (subst js(1)) (simp add: j'(1))
  have "journals_shape ?d" unfolding journals_shape_def c o by simp
  moreover have "\<forall>x\<in>set (ad_journals ?d). stored_ok E x" using s j'(3) js(1) by auto
  ultimately show "accept_tables_ok E m ?d"
    using ok unfolding accept_tables_ok_def c ops by simp
qed

lemma advanced_sound:
  assumes ok: "accept_tables_ok E m db" and u: "update_accept operation P f db = Inr db1"
    and P: "\<And>j. P j \<Longrightarrow> aj_phase j \<noteq> ACompleted" and f: "\<And>j. aj_plan (f j) = aj_plan j" "\<And>j. aj_phase (f j) \<noteq> ACompleted"
    and stored: "\<And>j. j \<in> set (ad_journals db) \<Longrightarrow> P j \<Longrightarrow> has_operation operation j \<Longrightarrow> accept_row_ok (f j) \<Longrightarrow> stored_ok E (f j)"
  shows "accept_tables_ok E m db1 \<and> accept_grows db db1
    \<and> (\<exists>j. P j \<and> has_operation operation j \<and> ad_journals db = completed_accepts db @ [j]
        \<and> ad_journals db1 = completed_accepts db @ [f j]
        \<and> ad_project db1 = ad_project db \<and> ad_candidate db1 = ad_candidate db)"
proof -
  have sh: "journals_shape db" using ok by (simp add: accept_tables_ok_def)
  obtain j where j: "ad_journals db = completed_accepts db @ [j]" "open_accepts db = [j]" "P j" "has_operation operation j"
    "db1 = db\<lparr>ad_journals := completed_accepts db @ [f j]\<rparr>" "accept_row_ok (f j)"
    using update_acceptD [OF u sh P] by metis
  have "stored_ok E (f j)" by (rule stored) (use j in simp_all)
  note t = advanced_tables [OF ok j(1,2) f(1) f(2) this]
  show ?thesis using t j by (auto simp: accept_grows_def)
qed

section \<open>Every operation keeps the promise\<close>

lemma candidate_journals [simp]:
  "completed_accepts (db\<lparr>ad_candidate := c\<rparr>) = completed_accepts db" "open_accepts (db\<lparr>ad_candidate := c\<rparr>) = open_accepts db"
  "completed_accepts (db\<lparr>ad_catalog := b\<rparr>) = completed_accepts db" "open_accepts (db\<lparr>ad_catalog := b\<rparr>) = open_accepts db"
  by (simp_all add: completed_accepts_def open_accepts_def)

lemma candidate_tables [simp]:
  "accept_tables_ok E m (db\<lparr>ad_candidate := c\<rparr>) = accept_tables_ok E m db"
  "accept_grows x (db\<lparr>ad_candidate := c\<rparr>) = accept_grows x db"
  "accept_tables_ok E m (db\<lparr>ad_catalog := b\<rparr>) = accept_tables_ok E m db"
  "accept_grows x (db\<lparr>ad_catalog := b\<rparr>) = accept_grows x db"
  by (simp_all add: accept_tables_ok_def journals_shape_def accept_grows_def split: option.split)

lemma scheduled_sound:
  assumes t: "accept_tables_ok E m db1" "accept_grows db db1" and s: "schedule_recovery operation n c db1 = Inr db'"
    and j: "j \<in> set (ad_journals db1)" "has_operation operation j" "active_phase (aj_phase j)"
  shows "accept_ok E m db' \<and> accept_grows db db'"
proof -
  obtain x where x: "cd_operation x = operation" "db' = db1\<lparr>ad_candidate := Some x\<rparr>" using scheduledD [OF s] by blast
  show ?thesis using t j x by (auto simp: accept_ok_def accept_candidate_ok_def)
qed

lemma advance_sound:
  assumes ok: "accept_tables_ok E m db" and u: "update_accept operation P f db = Inr db1"
    and s: "schedule_recovery operation n c db1 = Inr db'"
    and P: "\<And>j. P j \<Longrightarrow> aj_phase j \<noteq> ACompleted" and f: "\<And>j. aj_plan (f j) = aj_plan j" "\<And>j. active_phase (aj_phase (f j))"
    and stored: "\<And>j. j \<in> set (ad_journals db) \<Longrightarrow> P j \<Longrightarrow> has_operation operation j \<Longrightarrow> accept_row_ok (f j) \<Longrightarrow> stored_ok E (f j)"
  shows "accept_ok E m db' \<and> accept_grows db db'"
proof -
  have "aj_phase (f j) \<noteq> ACompleted" for j using f(2) [of j] by (auto simp: active_phase_def)
  from advanced_sound [OF ok u P f(1) this stored] obtain j where
    j: "accept_tables_ok E m db1" "accept_grows db db1" "has_operation operation j" "ad_journals db1 = completed_accepts db @ [f j]"
    by blast
  show ?thesis by (rule scheduled_sound [OF j(1,2) s, of "f j"]) (use j f in \<open>auto simp: has_operation_def\<close>)
qed

lemma persist_result_sound:
  assumes r: "persist_result E i db = Inr (x, db')"
  shows "accept_sound E m db db'"
  unfolding accept_sound_def
proof
  assume ok: "accept_ok E m db"
  then have t: "accept_tables_ok E m db" by (simp add: accept_ok_def)
  obtain n j where n: "present_accept (get_accept E (pi_operation i) db) = Inr j"
    "oid_for_format E (pi_result i) (ap_format (aj_plan j)) = Inr ()"
    and cases: "aj_phase j = AResultPersisted \<and> schedule_recovery (pi_operation i) n (ap_preparedAt (aj_plan j)) db = Inr db'
      \<or> (\<exists>db1. update_accept (pi_operation i) (\<lambda>r. aj_phase r = APrepared \<and> aj_result r = None)
              (\<lambda>r. r\<lparr>aj_phase := AResultPersisted, aj_result := Some (pi_result i), aj_updatedAt := n\<rparr>) db = Inr db1
          \<and> schedule_recovery (pi_operation i) n (ap_preparedAt (aj_plan j)) db1 = Inr db')"
    using r unfolding persist_result_def by (auto simp: rbind_Inr split: if_splits)
  note j = get_acceptD [OF n(1) t]
  from cases show "accept_ok E m db' \<and> accept_grows db db'"
  proof (elim disjE exE conjE)
    assume "aj_phase j = AResultPersisted" "schedule_recovery (pi_operation i) n (ap_preparedAt (aj_plan j)) db = Inr db'"
    then show ?thesis by (intro scheduled_sound [OF t accept_grows_refl(1) _ j(1,2)]) (simp_all add: active_phase_def)
  next
    fix db1
    assume u: "update_accept (pi_operation i) (\<lambda>r. aj_phase r = APrepared \<and> aj_result r = None)
        (\<lambda>r. r\<lparr>aj_phase := AResultPersisted, aj_result := Some (pi_result i), aj_updatedAt := n\<rparr>) db = Inr db1"
      and s: "schedule_recovery (pi_operation i) n (ap_preparedAt (aj_plan j)) db1 = Inr db'"
    show ?thesis
    proof (rule advance_sound [OF t u s])
      fix k :: accept_journal
      let ?k = "k\<lparr>aj_phase := AResultPersisted, aj_result := Some (pi_result i), aj_updatedAt := n\<rparr>"
      assume k: "k \<in> set (ad_journals db)" "has_operation (pi_operation i) k" "accept_row_ok ?k"
      have "k = j" using same_operation [OF t j(1,2) k(1,2)] .
      then show "stored_ok E ?k" using j(3) n(2) k(3) by (simp add: stored_ok_def option_ok_def)
    qed (simp_all add: active_phase_def)
  qed
qed

lemma mark_main_updated_sound:
  assumes r: "mark_main_updated E operation u db = Inr (x, db')"
  shows "accept_sound E m db db'"
  unfolding accept_sound_def
proof
  assume ok: "accept_ok E m db"
  then have t: "accept_tables_ok E m db" by (simp add: accept_ok_def)
  obtain n j where n: "present_accept (get_accept E operation db) = Inr j"
    and cases: "aj_phase j = AMainUpdated \<and> schedule_recovery operation n (ap_preparedAt (aj_plan j)) db = Inr db'
      \<or> (\<exists>db1. update_accept operation (\<lambda>r. aj_phase r = AResultPersisted \<and> aj_result r \<noteq> None)
              (\<lambda>r. r\<lparr>aj_phase := AMainUpdated, aj_updatedAt := n\<rparr>) db = Inr db1
          \<and> schedule_recovery operation n (ap_preparedAt (aj_plan j)) db1 = Inr db')"
    using r unfolding mark_main_updated_def by (auto simp: rbind_Inr split: if_splits)
  note j = get_acceptD [OF n(1) t]
  from cases show "accept_ok E m db' \<and> accept_grows db db'"
  proof (elim disjE exE conjE)
    assume "aj_phase j = AMainUpdated" "schedule_recovery operation n (ap_preparedAt (aj_plan j)) db = Inr db'"
    then show ?thesis by (intro scheduled_sound [OF t accept_grows_refl(1) _ j(1,2)]) (simp_all add: active_phase_def)
  next
    fix db1
    assume u: "update_accept operation (\<lambda>r. aj_phase r = AResultPersisted \<and> aj_result r \<noteq> None)
        (\<lambda>r. r\<lparr>aj_phase := AMainUpdated, aj_updatedAt := n\<rparr>) db = Inr db1"
      and s: "schedule_recovery operation n (ap_preparedAt (aj_plan j)) db1 = Inr db'"
    have "stored_ok E k" if "k \<in> set (ad_journals db)" for k using t that by (simp add: accept_tables_ok_def)
    then show ?thesis
      by (intro advance_sound [OF t u s]) (simp_all add: active_phase_def stored_ok_def)
  qed
qed

lemma mark_recovery_required_sound:
  assumes r: "mark_recovery_required E expected operation u db = Inr (x, db')"
  shows "accept_sound E m db db'"
  unfolding accept_sound_def
proof
  assume ok: "accept_ok E m db"
  then have t: "accept_tables_ok E m db" by (simp add: accept_ok_def)
  obtain n j db1 db2 where n: "present_accept (get_accept E operation db) = Inr j" "active_phase expected"
    "project_needs_recovery db1 = Inr db2" "db' = remove_recovery operation (db2\<lparr>ad_catalog := False\<rparr>)"
    and cases: "aj_phase j = ARecoveryRequired \<and> db1 = db
      \<or> update_accept operation (\<lambda>r. aj_phase r = expected)
              (\<lambda>r. r\<lparr>aj_phase := ARecoveryRequired, aj_recoveryFrom := Some expected, aj_updatedAt := n\<rparr>) db = Inr db1"
    using r unfolding mark_recovery_required_def by (auto simp: rbind_Inr require_def ensure_Inr split: if_splits)
  note j = get_acceptD [OF n(1) t]
  have stored: "\<And>k. k \<in> set (ad_journals db) \<Longrightarrow> stored_ok E k" using t by (simp add: accept_tables_ok_def)
  have shape: "ad_journals db = completed_accepts db @ open_accepts db" "length (open_accepts db) \<le> 1"
    using t by (simp_all add: accept_tables_ok_def journals_shape_def)
  have *: "accept_tables_ok E m db1 \<and> accept_grows db db1 \<and> ad_candidate db1 = ad_candidate db
    \<and> (\<forall>k\<in>set (ad_journals db1). \<not> active_phase (aj_phase k))
    \<and> (\<forall>k\<in>set (ad_journals db). active_phase (aj_phase k) \<longrightarrow> has_operation operation k)"
    using cases
  proof
    assume a: "aj_phase j = ARecoveryRequired \<and> db1 = db"
    then have "j \<in> set (open_accepts db)" using j(1) by (simp add: open_accepts_def)
    then have "open_accepts db = [j]" using shape(2) by (cases "open_accepts db") auto
    then have "set (ad_journals db) = insert j (set (completed_accepts db))" using shape(1) by simp
    moreover have "\<forall>x\<in>set (completed_accepts db). \<not> active_phase (aj_phase x)"
      by (simp add: completed_accepts_def active_phase_def)
    ultimately show ?thesis using a t by (simp add: active_phase_def)
  next
    assume u: "update_accept operation (\<lambda>r. aj_phase r = expected)
        (\<lambda>r. r\<lparr>aj_phase := ARecoveryRequired, aj_recoveryFrom := Some expected, aj_updatedAt := n\<rparr>) db = Inr db1"
    have "aj_phase k = expected \<Longrightarrow> aj_phase k \<noteq> ACompleted" for k using n(2) by (auto simp: active_phase_def)
    from advanced_sound [OF t u this] obtain k where "accept_tables_ok E m db1 \<and> accept_grows db db1"
      "has_operation operation k" "ad_journals db = completed_accepts db @ [k]"
      "ad_journals db1 = completed_accepts db @ [k\<lparr>aj_phase := ARecoveryRequired, aj_recoveryFrom := Some expected, aj_updatedAt := n\<rparr>]"
      "ad_candidate db1 = ad_candidate db"
      using stored by (auto simp: stored_ok_def)
    moreover have "\<forall>x\<in>set (completed_accepts db). \<not> active_phase (aj_phase x)"
      by (simp add: completed_accepts_def active_phase_def)
    ultimately show ?thesis by (simp add: active_phase_def)
  qed
  have p: "accept_tables_ok E m db2" "accept_grows db db2" "ad_journals db2 = ad_journals db1" "ad_candidate db2 = ad_candidate db1"
    using * n(3) unfolding project_needs_recovery_def
    by (auto simp: accept_tables_ok_def accept_grows_def journals_shape_def completed_accepts_def open_accepts_def
        split: option.splits if_splits)
  have "ad_candidate db' = None"
  proof (cases "ad_candidate db")
    case None
    then show ?thesis using n(4) p * by (simp add: remove_recovery_def)
  next
    case (Some c)
    then obtain k where k: "k \<in> set (ad_journals db)" "has_operation (cd_operation c) k" "active_phase (aj_phase k)"
      using ok by (auto simp: accept_ok_def accept_candidate_ok_def)
    have "has_operation operation k" using * k by blast
    then have "cd_operation c = operation" using k(2) by (simp add: has_operation_def)
    then show ?thesis using n(4) p * Some by (simp add: remove_recovery_def)
  qed
  then show "accept_ok E m db' \<and> accept_grows db db'"
    using p * n(4) by (auto simp: accept_ok_def accept_candidate_ok_def remove_recovery_def split: option.splits if_splits)
qed

lemma prepare_accept_sound:
  assumes r: "prepare_accept E i db = Inr (x, db')"
  shows "accept_sound E m db db'"
  unfolding accept_sound_def
proof
  assume ok: "accept_ok E m db"
  then have t: "accept_tables_ok E m db" by (simp add: accept_ok_def)
  have stored: "\<forall>k\<in>set (ad_journals db). stored_ok E k" using t by (simp add: accept_tables_ok_def)
  obtain p existing where p: "canonical_prepare E i = Inr p" "get_accept E (ap_operation p) db = Inr existing"
    and rest: "(case existing of
         Some j \<Rightarrow>
           rbind (ensure (aj_plan j = p) StateConflict) (\<lambda>_.
             if active_phase (aj_phase j)
             then rbind (schedule_recovery (ap_operation p) (aj_updatedAt j) (ap_preparedAt p) db) (\<lambda>db'. Inr (PutReplayed, db'))
             else Inr (PutReplayed, db))
       | None \<Rightarrow>
           rbind (get_open_accept E db) (\<lambda>open.
           rbind (ensure (open = None) StateConflict) (\<lambda>_.
           rbind (live_fences E p db) (\<lambda>_.
           let j = \<lparr>aj_plan = p, aj_phase = APrepared, aj_recoveryFrom = None, aj_result = None,
                    aj_updatedAt = ap_preparedAt p\<rparr>
           in rbind (insert_row (accept_insertable j db) j (ad_journals db)) (\<lambda>js.
              rbind (schedule_recovery (ap_operation p) (ap_preparedAt p) (ap_preparedAt p) (db\<lparr>ad_journals := js\<rparr>)) (\<lambda>db'.
                Inr (Created, db'))))))) = Inr (x, db')"
    using r unfolding prepare_accept_def by (auto simp only: rbind_Inr)
  show "accept_ok E m db' \<and> accept_grows db db'"
  proof (cases existing)
    case (Some j)
    have g: "present_accept (get_accept E (ap_operation p) db) = Inr j" using p(2) Some by (simp add: present_accept_def)
    note j = get_acceptD [OF g t]
    show ?thesis
    proof (cases "active_phase (aj_phase j)")
      case True
      then have "schedule_recovery (ap_operation p) (aj_updatedAt j) (ap_preparedAt p) db = Inr db'"
        using rest Some by (auto simp: rbind_Inr)
      then show ?thesis by (rule scheduled_sound [OF t accept_grows_refl(1) _ j(1,2) True])
    next
      case False
      then show ?thesis using rest Some ok by (auto simp: rbind_Inr)
    qed
  next
    case None
    define j where "j = \<lparr>aj_plan = p, aj_phase = APrepared, aj_recoveryFrom = None, aj_result = None,
                    aj_updatedAt = ap_preparedAt p\<rparr>"
    have i: "accept_insertable j db"
      "schedule_recovery (ap_operation p) (ap_preparedAt p) (ap_preparedAt p) (db\<lparr>ad_journals := ad_journals db @ [j]\<rparr>) = Inr db'"
      using rest None unfolding j_def [symmetric] by (auto simp: rbind_Inr Let_def insert_row_Inr)
    let ?d = "db\<lparr>ad_journals := ad_journals db @ [j]\<rparr>"
    have o: "open_accepts db = []" using i(1) by (simp add: accept_insertable_def j_def)
    have c: "completed_accepts ?d = completed_accepts db" "open_accepts ?d = [j]"
      using o by (simp_all add: completed_accepts_def open_accepts_def j_def)
    have new: "ap_operation (aj_plan j) \<notin> set (map (\<lambda>j. ap_operation (aj_plan j)) (ad_journals db))"
      using i(1) by (auto simp: accept_insertable_def list_ex_iff has_operation_def)
    have "stored_ok E j" using i(1) canonical_prepare_again [OF p(1)]
      by (simp add: stored_ok_def accept_insertable_def j_def option_ok_def)
    moreover have "journals_shape ?d"
      using t o unfolding journals_shape_def c by (simp add: accept_tables_ok_def journals_shape_def)
    ultimately have "accept_tables_ok E m ?d"
      using t new unfolding accept_tables_ok_def c by simp
    moreover have "accept_grows db ?d" by (simp add: accept_grows_def c)
    ultimately show ?thesis
      by (rule scheduled_sound [OF _ _ i(2), of E m db j]) (simp_all add: j_def has_operation_def active_phase_def)
  qed
qed

section \<open>Completion\<close>

lemma completed_relations:
  assumes a: "accept_relations j r n c = Inr c'" and ok: "collab_ok c"
    and d: "distinct (map ax_relation (ap_relations (aj_plan j)))" and res: "aj_result j = Some r"
  shows "list_all (relation_accepted c' j) (ap_relations (aj_plan j))"
  unfolding list_all_iff
proof
  let ?P = "\<lambda>x. planned j x \<and> rl_state x = Pending"
    and ?f = "\<lambda>x. x\<lparr>rl_state := Accepted, rl_updatedAt := n, rl_acceptedAt := Some n, rl_mergeOid := Some r\<rparr>"
  fix x assume x: "x \<in> set (ap_relations (aj_plan j))"
  have c': "cb_relations c' = map (\<lambda>y. if ?P y then ?f y else y) (cb_relations c)"
    and len: "length (filter ?P (cb_relations c)) = length (ap_relations (aj_plan j))"
    using a unfolding accept_relations_def by (auto simp: rbind_Inr ensure_Inr update_rows_Inr)
  have dist: "distinct (map rl_id (filter ?P (cb_relations c)))"
    using ok by (intro distinct_pairs_filter) (simp add: collab_ok_def relations_ok_def)
  have sub: "set (map rl_id (filter ?P (cb_relations c))) \<subseteq> set (map ax_relation (ap_relations (aj_plan j)))"
    by (auto simp: planned_def list_ex_iff)
  have "card (set (map rl_id (filter ?P (cb_relations c)))) = card (set (map ax_relation (ap_relations (aj_plan j))))"
    using distinct_card [OF dist] distinct_card [OF d] len by simp
  then have "set (map rl_id (filter ?P (cb_relations c))) = set (map ax_relation (ap_relations (aj_plan j)))"
    by (intro card_subset_eq sub) simp_all
  then have "ax_relation x \<in> set (map rl_id (filter ?P (cb_relations c)))" using x by simp
  then obtain y where y: "y \<in> set (cb_relations c)" "?P y" "rl_id y = ax_relation x" by auto
  then obtain x' where x': "x' \<in> set (ap_relations (aj_plan j))" "ax_relation x' = ax_relation x" "rl_ticket y = ax_ticket x'"
    "rl_commit y = ax_commit x'" "rl_kind y = ax_kind x'" "rl_request y = ap_request (aj_plan j)"
    by (auto simp: planned_def list_ex_iff)
  have "x' = x" using d x x'(1,2) by (auto simp: distinct_map inj_on_def)
  moreover have "?f y \<in> set (cb_relations c')"
    unfolding c' set_map by (rule image_eqI [OF _ y(1)]) (use y(2) in simp)
  ultimately show "relation_accepted c' j x"
    unfolding relation_accepted_def by (intro bexI [of _ "?f y"]) (use y x' res in simp_all)
qed

lemma completed_request:
  assumes a: "merge_request j r n c = Inr c'" and res: "aj_result j = Some r"
  shows "request_merged c' j"
    and "\<forall>q\<in>set (cb_requests c'). q \<in> set (cb_requests c) \<or> rq_id q = ap_request (aj_plan j)"
proof -
  obtain cs qs where u: "update_rows (\<lambda>q. rq_id q = ap_request (aj_plan j) \<and> rq_member q = ap_requestMember (aj_plan j)
      \<and> rq_status q = Open \<and> rq_revision q = ap_revision (aj_plan j) \<and> rq_head q = ap_head (aj_plan j))
      (\<lambda>q. q\<lparr>rq_status := Merged, rq_merged := Some r, rq_updatedAt := n\<rparr>) request_row_ok (cb_requests c) = Inr (cs, qs)"
    "length cs = 1" "c' = c\<lparr>cb_requests := qs\<rparr>"
    using a unfolding merge_request_def by (auto simp: rbind_Inr ensure_Inr simp del: update_rows_Inr)
  have "\<exists>q\<in>set (cb_requests c). (rq_id q = ap_request (aj_plan j) \<and> rq_member q = ap_requestMember (aj_plan j)
      \<and> rq_status q = Open \<and> rq_revision q = ap_revision (aj_plan j) \<and> rq_head q = ap_head (aj_plan j))
      \<and> q\<lparr>rq_status := Merged, rq_merged := Some r, rq_updatedAt := n\<rparr> \<in> set (cb_requests c')"
    using changed_row [OF u(1)] u(2,3) by force
  then obtain q where "rq_id q = ap_request (aj_plan j)" "rq_member q = ap_requestMember (aj_plan j)"
    "rq_revision q = ap_revision (aj_plan j)" "rq_head q = ap_head (aj_plan j)"
    "q\<lparr>rq_status := Merged, rq_merged := Some r, rq_updatedAt := n\<rparr> \<in> set (cb_requests c')" by blast
  then show "request_merged c' j" unfolding request_merged_def using res by (intro bexI) simp_all
  show "\<forall>q\<in>set (cb_requests c'). q \<in> set (cb_requests c) \<or> rq_id q = ap_request (aj_plan j)"
    using a unfolding merge_request_def by (auto simp: rbind_Inr ensure_Inr update_rows_Inr)
qed

lemma untouched_requests:
  "accept_relations j r n c = Inr c' \<Longrightarrow> cb_requests c' = cb_requests c"
  "close_tickets j n c = Inr c' \<Longrightarrow> cb_requests c' = cb_requests c \<and> cb_relations c' = cb_relations c"
  "merge_request j r n c = Inr c' \<Longrightarrow> cb_relations c' = cb_relations c"
  by (auto simp: accept_relations_def close_tickets_def merge_request_def rbind_Inr)

text \<open>The request whose acceptance passes the fences is open.\<close>

lemma fenced_request:
  assumes "live_fences E p db = Inr u"
  shows "\<exists>q\<in>set (cb_requests (ad_collab db)). rq_id q = ap_request p \<and> rq_status q = Open"
  using assms unfolding live_fences_def
  by (auto simp: rbind_Inr ensure_Inr find_request_def select_request_def decode_request_def find_Some_iff
      split: option.splits if_splits) (metis nth_mem)

lemma move_main_Inr:
  "move_main j r db = Inr db' \<longleftrightarrow> (\<exists>pj. ad_project db = Some pj \<and> pj_main pj = ap_main (aj_plan j)
     \<and> pj_service pj = ServiceActive \<and> db' = db\<lparr>ad_project := Some (pj\<lparr>pj_main := r\<rparr>)\<rparr>)"
  by (auto simp: move_main_def split: option.splits)

lemma decode_response_Inr:
  "decode_response E r = Inr q \<longleftrightarrow> q = r \<and> ae_decodes E r \<and> (\<exists>m c v. r = AcceptResponse m c v)"
  by (cases r) (auto simp: decode_response_def rbind_Inr ensure_Inr)

lemma closed_candidate:
  assumes "accept_ok E m db" and "open_accepts db = [j]" and "has_operation operation j" and "ad_candidate d = ad_candidate db"
  shows "ad_candidate (remove_recovery operation d) = None"
proof (cases "ad_candidate db")
  case (Some c)
  then obtain k where k: "k \<in> set (ad_journals db)" "has_operation (cd_operation c) k" "active_phase (aj_phase k)"
    using assms(1) by (auto simp: accept_ok_def accept_candidate_ok_def)
  then have "k \<in> set (open_accepts db)" by (auto simp: open_accepts_def active_phase_def)
  then show ?thesis using k assms Some by (simp add: remove_recovery_def has_operation_def)
qed (use assms(4) in \<open>simp add: remove_recovery_def\<close>)

lemma settle_completion_sound:
  assumes ok: "accept_ok E m db" and j: "j \<in> set (ad_journals db)" "has_operation operation j" "aj_result j = Some result"
    and fences: "live_fences E (aj_plan j) db = Inr ()"
    and r: "settle_completion E j operation result u n db = Inr (response, db')"
  shows "accept_ok E m db' \<and> accept_grows db db'
    \<and> (\<exists>k\<in>set (completed_accepts db'). has_operation operation k \<and> answered E (ad_collab db') k response)"
proof -
  let ?f = "\<lambda>k. k\<lparr>aj_phase := ACompleted, aj_updatedAt := n\<rparr>"
  have t: "accept_tables_ok E m db" using ok by (simp add: accept_ok_def)
  obtain c1 c2 c3 c4 pj q ev x db2 where s: "accept_relations j result n (ad_collab db) = Inr c1" "close_tickets j n c1 = Inr c2"
    "merge_request j result n c2 = Inr c3" "ad_project db = Some pj" "pj_main pj = ap_main (aj_plan j)"
    "response = AcceptResponse result result q" "decode_response E response = Inr response" "response_matches response j n"
    "store_response E j u response c3 = Inr c4"
    "update_accept operation (\<lambda>r. aj_phase r = AMainUpdated) ?f
       (db\<lparr>ad_project := Some (pj\<lparr>pj_main := result\<rparr>), ad_collab := c4, ad_events := ev\<rparr>) = Inr db2"
    "db' = remove_recovery operation db2"
    using r unfolding settle_completion_def
    by (auto simp: rbind_Inr ensure_Inr present_Inr move_main_Inr decode_response_Inr)
  let ?d = "db\<lparr>ad_project := Some (pj\<lparr>pj_main := result\<rparr>), ad_collab := c4, ad_events := ev\<rparr>"
  have same: "completed_accepts ?d = completed_accepts db" "open_accepts ?d = open_accepts db"
    by (simp_all add: completed_accepts_def open_accepts_def)
  have "journals_shape ?d" using t by (simp add: accept_tables_ok_def journals_shape_def same)
  from update_acceptD [OF s(10) this] obtain k where k: "ad_journals ?d = completed_accepts ?d @ [k]" "open_accepts ?d = [k]"
    "has_operation operation k" "db2 = ?d\<lparr>ad_journals := completed_accepts ?d @ [?f k]\<rparr>" "accept_row_ok (?f k)"
    by auto
  have "k = j" by (rule same_operation [OF t j(1,2)]) (use k in simp_all)
  note k = k [unfolded same this]
  have c: "completed_accepts db' = completed_accepts db @ [?f j]" "open_accepts db' = []"
    "ad_journals db' = completed_accepts db @ [?f j]" "ad_collab db' = c4" "ad_project db' = Some (pj\<lparr>pj_main := result\<rparr>)"
    using k(1,2) unfolding s(11) k(4)
    by (auto simp: completed_accepts_def open_accepts_def remove_recovery_def filter_empty_conv split: option.splits)
  have "sound_step (ad_collab db) c4"
    using accept_relations_sound [OF s(1)] close_tickets_sound [OF s(2)] merge_request_sound [OF s(3)]
      store_response_sound [OF s(9)] by (blast intro: sound_trans)
  then have c4: "collab_ok c4" "grows (ad_collab db) c4" using t by (simp_all add: sound_step_def accept_tables_ok_def)
  have res: "aj_result (?f j) = Some result" using j(3) by simp
  have "stored_ok E j" using t j(1) by (simp add: accept_tables_ok_def)
  then have dist: "distinct (map ax_relation (ap_relations (aj_plan j)))"
    and st: "stored_ok E (?f j)"
    using k(5) canonical_relations_mem by (auto simp: stored_ok_def canonical_prepare_def rbind_Inr row_input_def)
  have "list_all (relation_accepted c1 j) (ap_relations (aj_plan j))"
    by (rule completed_relations [OF s(1) _ dist j(3)]) (use t in \<open>simp add: accept_tables_ok_def\<close>)
  moreover have "request_merged c3 j" using completed_request(1) [OF s(3) j(3)] .
  moreover have "cb_relations c4 = cb_relations c1" "cb_requests c4 = cb_requests c3" "cb_requests c2 = cb_requests (ad_collab db)"
    using untouched_requests(1) [OF s(1)] untouched_requests(2) [OF s(2)] untouched_requests(3) [OF s(3)]
      store_response_tables [OF s(9)] by simp_all
  moreover have "answered E c4 (?f j) response"
    using store_response_found [OF s(9)] s(7,8) by (auto simp: answered_def response_matches_def split: response.splits)
  ultimately have settled: "settled E c4 (?f j)" "answered E c4 (?f j) response"
    by (auto simp: settled_def request_merged_def relation_accepted_def [abs_def])
  have old: "settled E c4 i" if "i \<in> set (completed_accepts db)" for i
    using settled_grows [OF _ c4(2)] t that by (simp add: accept_tables_ok_def)
  have new: "ap_request (aj_plan j) \<notin> set (map (\<lambda>j. ap_request (aj_plan j)) (completed_accepts db))"
  proof
    assume "ap_request (aj_plan j) \<in> set (map (\<lambda>j. ap_request (aj_plan j)) (completed_accepts db))"
    then obtain i where i: "i \<in> set (completed_accepts db)" "ap_request (aj_plan i) = ap_request (aj_plan j)" by auto
    then have "request_merged (ad_collab db) i" using t by (simp add: accept_tables_ok_def settled_def)
    moreover obtain p where "p \<in> set (cb_requests (ad_collab db))" "rq_id p = ap_request (aj_plan j)" "rq_status p = Open"
      using fenced_request [OF fences] by blast
    ultimately show False using t i(2)
      by (auto simp: request_merged_def accept_tables_ok_def collab_ok_def requests_ok_def distinct_map inj_on_def)
  qed
  have merged: "\<exists>i\<in>set (completed_accepts db'). ap_request (aj_plan i) = rq_id p"
    if "p \<in> set (cb_requests c4)" "rq_status p = Merged" for p
  proof -
    have "p \<in> set (cb_requests (ad_collab db)) \<or> rq_id p = ap_request (aj_plan j)"
      using completed_request(2) [OF s(3) j(3)] that(1) store_response_tables [OF s(9)]
        untouched_requests(1) [OF s(1)] untouched_requests(2) [OF s(2)] by auto
    then show ?thesis using t that(2) c(1) by (auto simp: accept_tables_ok_def)
  qed
  have chain: "main_chain m (completed_accepts db') result"
    unfolding c(1) by (rule main_chain_snoc) (use t s(4,5) res in \<open>simp_all add: accept_tables_ok_def\<close>)
  have ops: "map (\<lambda>j. ap_operation (aj_plan j)) (ad_journals db') = map (\<lambda>j. ap_operation (aj_plan j)) (ad_journals db)"
    unfolding c(3) using k(1) by simp
  have "\<forall>i\<in>set (ad_journals db'). stored_ok E i" using t st k(1) unfolding c(3) by (auto simp: accept_tables_ok_def)
  moreover have "\<forall>i\<in>set (completed_accepts db'). settled E c4 i" using old settled(1) unfolding c(1) by auto
  moreover have "journals_shape db'" unfolding journals_shape_def using c by simp
  moreover have "distinct (map (\<lambda>j. ap_request (aj_plan j)) (completed_accepts db'))"
    using t new unfolding c(1) by (simp add: accept_tables_ok_def)
  ultimately have "accept_tables_ok E m db'"
    using t c4(1) merged chain unfolding accept_tables_ok_def c(4,5) ops by simp
  moreover have "accept_candidate_ok db'"
    using closed_candidate [OF ok k(2) j(2)] c unfolding s(11) k(4) accept_candidate_ok_def
    by (auto simp: completed_accepts_def active_phase_def)
  moreover have "accept_grows db db'" using c4(2) c(1,4) by (simp add: accept_grows_def)
  moreover have "has_operation operation (?f j)" using j(2) by (simp add: has_operation_def)
  ultimately show ?thesis using settled(2) c(1,4) by (auto simp: accept_ok_def)
qed

lemma found_result:
  assumes "find_result E i db = Inr (Replay r)"
  shows "\<exists>x\<in>set (cb_idempotency db). same_key i (ir_identity x) \<and> ii_fingerprint (ir_identity x) = ii_fingerprint i
    \<and> ir_response x = r"
  using assms by (auto simp: find_result_def rbind_Inr find_Some_iff split: option.splits if_splits)

lemma replay_responseD:
  assumes "replay_response E j db = Inr r"
  shows "find_result (ae_collab E) (accept_identity (aj_plan j)) (ad_collab db) = Inr (Replay r)"
    "decode_response E r = Inr r" "response_matches r j (aj_updatedAt j)"
proof -
  obtain l where l: "find_result (ae_collab E) (accept_identity (aj_plan j)) (ad_collab db) = Inr l"
    "(case l of
         Replay x \<Rightarrow>
           rbind (decode_response E x) (\<lambda>r.
           rbind (ensure (response_matches r j (aj_updatedAt j)) DependencyFailed) (\<lambda>_. Inr r))
       | _ \<Rightarrow> Inl DependencyFailed) = Inr r"
    using assms unfolding replay_response_def by (auto simp only: rbind_Inr)
  then have "l = Replay r \<and> decode_response E r = Inr r \<and> response_matches r j (aj_updatedAt j)"
    by (cases l) (auto simp: rbind_Inr ensure_Inr decode_response_Inr)
  then show "find_result (ae_collab E) (accept_identity (aj_plan j)) (ad_collab db) = Inr (Replay r)"
    "decode_response E r = Inr r" "response_matches r j (aj_updatedAt j)" using l(1) by auto
qed

lemma complete_accept_sound:
  assumes r: "complete_accept E operation u db = Inr (response, db')"
  shows "accept_sound E m db db'"
    and "accept_ok E m db \<Longrightarrow>
      \<exists>k\<in>set (completed_accepts db'). has_operation operation k \<and> answered E (ad_collab db') k response"
proof -
  obtain n j where n: "present_accept (get_accept E operation db) = Inr j"
    and rest: "(if aj_phase j = ACompleted then rbind (replay_response E j db) (\<lambda>r. Inr (r, db))
       else case aj_result j of
         None \<Rightarrow> Inl StateConflict
       | Some result \<Rightarrow>
           if aj_phase j \<noteq> AMainUpdated \<or> n < aj_updatedAt j then Inl StateConflict
           else rbind (live_fences E (aj_plan j) db) (\<lambda>_.
                  settle_completion E j operation result u n db)) = Inr (response, db')"
    using r unfolding complete_accept_def by (auto simp only: rbind_Inr)
  have *: "accept_ok E m db' \<and> accept_grows db db'
      \<and> (\<exists>k\<in>set (completed_accepts db'). has_operation operation k \<and> answered E (ad_collab db') k response)"
    if ok: "accept_ok E m db"
  proof -
    have t: "accept_tables_ok E m db" using ok by (simp add: accept_ok_def)
    note j = get_acceptD [OF n t]
    show ?thesis
    proof (cases "aj_phase j = ACompleted")
      case True
      then have d: "replay_response E j db = Inr response" "db' = db" using rest by (auto simp: rbind_Inr)
      have "answered E (ad_collab db) j response"
        using replay_responseD [OF d(1)] found_result by (fastforce simp: answered_def accept_identity_def)
      then show ?thesis using ok d(2) j True by (auto simp: completed_accepts_def)
    next
      case False
      then obtain result where "aj_result j = Some result" "live_fences E (aj_plan j) db = Inr ()"
        "settle_completion E j operation result u n db = Inr (response, db')"
        using rest by (auto simp: rbind_Inr split: option.splits if_splits)
      then show ?thesis using settle_completion_sound [OF ok j(1,2)] by blast
    qed
  qed
  show "accept_sound E m db db'" using * by (simp add: accept_sound_def)
  show "accept_ok E m db \<Longrightarrow>
      \<exists>k\<in>set (completed_accepts db'). has_operation operation k \<and> answered E (ad_collab db') k response"
    using * by blast
qed

section \<open>The machine\<close>

text \<open>The operations on the collaboration tables merge no request.\<close>

lemma merges_nothing:
  "keep_relations i u ds vs db = Inr (ds', db') \<Longrightarrow> cb_requests db' = cb_requests db"
  "add_relations i u ds db = Inr db' \<Longrightarrow> cb_requests db' = cb_requests db"
  "add_mentions j u ms db = Inr db' \<Longrightarrow> cb_requests db' = cb_requests db"
  "store_result E k t r db = Inr (x, db') \<Longrightarrow> cb_requests db' = cb_requests db"
proof -
  show "keep_relations i u ds vs db = Inr (ds', db') \<Longrightarrow> cb_requests db' = cb_requests db"
    by (induction i u ds vs db rule: keep_relations.induct)
      (auto simp: rbind_Inr simp del: update_rows_Inr split: option.splits prod.splits)
  show "add_relations i u ds db = Inr db' \<Longrightarrow> cb_requests db' = cb_requests db"
    by (induction i u ds db rule: add_relations.induct) (auto simp: rbind_Inr Let_def)
  show "add_mentions j u ms db = Inr db' \<Longrightarrow> cb_requests db' = cb_requests db"
    by (induction j u ms db rule: add_mentions.induct) (auto simp: rbind_Inr Let_def)
  show "store_result E k t r db = Inr (x, db') \<Longrightarrow> cb_requests db' = cb_requests db"
    by (drule store_result_cases) auto
qed

lemma touched_requests:
  "touch_open E r t db = Inr (x, db') \<Longrightarrow> q \<in> set (cb_requests db') \<Longrightarrow> rq_status q = Merged \<Longrightarrow> q \<in> set (cb_requests db)"
  by (auto simp: touch_open_def rbind_Inr update_rows_Inr split: if_splits)

lemma committed_merges:
  assumes "\<And>x db'. r = Inr (x, db') \<Longrightarrow> q \<in> set (cb_requests db') \<Longrightarrow> q \<in> set (cb_requests db)"
    and "q \<in> set (cb_requests (committed r db))"
  shows "q \<in> set (cb_requests db)"
  using assms by (cases r) (auto simp: committed_def)

lemma collab_merges_nothing:
  assumes q: "q \<in> set (cb_requests (collab_step E db c))" and s: "rq_status q = Merged"
  shows "q \<in> set (cb_requests db)"
proof (cases c)
  case (CreateRequest i)
  show ?thesis using q s unfolding CreateRequest collab_step.simps
    by (elim committed_merges [rotated]) (auto simp: create_request_def Let_def rbind_Inr insert_row_Inr)
next
  case (CommentRequest i)
  show ?thesis using q s unfolding CommentRequest collab_step.simps
    by (elim committed_merges [rotated]) (auto simp: create_request_comment_def Let_def rbind_Inr insert_row_Inr dest!: touched_requests)
next
  case (UpdateRequest i)
  show ?thesis using q s unfolding UpdateRequest collab_step.simps
    by (elim committed_merges [rotated]) (auto simp: update_open_def Let_def rbind_Inr update_rows_Inr split: if_splits)
next
  case (TouchRequest r t)
  show ?thesis using q s unfolding TouchRequest collab_step.simps
    by (elim committed_merges [rotated]) (rule touched_requests)
next
  case (ReplaceRelations i)
  show ?thesis using q s unfolding ReplaceRelations collab_step.simps
    by (elim committed_merges [rotated]) (auto simp: replace_pending_relations_def rbind_Inr dest!: merges_nothing)
next
  case (CreateTicket i)
  show ?thesis using q s unfolding CreateTicket collab_step.simps
    by (elim committed_merges [rotated]) (auto simp: create_ticket_def Let_def rbind_Inr)
next
  case (CommentTicket i)
  show ?thesis using q s unfolding CommentTicket collab_step.simps
    by (elim committed_merges [rotated]) (auto simp: create_ticket_comment_def Let_def rbind_Inr simp del: update_rows_Inr)
next
  case (UpdateTicket i)
  show ?thesis using q s unfolding UpdateTicket collab_step.simps
    by (elim committed_merges [rotated]) (auto simp: update_ticket_content_def Let_def rbind_Inr simp del: update_rows_Inr split: if_splits)
next
  case (ChangeStatus i)
  show ?thesis using q s unfolding ChangeStatus collab_step.simps
    by (elim committed_merges [rotated]) (auto simp: change_ticket_status_def Let_def rbind_Inr simp del: update_rows_Inr split: if_splits)
next
  case (ReplaceMentions i)
  show ?thesis using q s unfolding ReplaceMentions collab_step.simps
    by (elim committed_merges [rotated]) (auto simp: replace_mentions_def rbind_Inr dest!: merges_nothing)
next
  case (StoreResult i t r)
  show ?thesis using q s unfolding StoreResult collab_step.simps
    by (elim committed_merges [rotated]) (auto dest!: merges_nothing)
qed (use q in simp)

lemma collab_sound:
  assumes c: "sound_step (ad_collab db) c"
    and merges: "\<And>q. q \<in> set (cb_requests c) \<Longrightarrow> rq_status q = Merged \<Longrightarrow> q \<in> set (cb_requests (ad_collab db))"
  shows "accept_sound E m db (db\<lparr>ad_collab := c\<rparr>)"
  unfolding accept_sound_def
proof
  let ?d = "db\<lparr>ad_collab := c\<rparr>"
  assume ok: "accept_ok E m db"
  then have t: "accept_tables_ok E m db" by (simp add: accept_ok_def)
  have same: "completed_accepts ?d = completed_accepts db" "open_accepts ?d = open_accepts db"
    by (simp_all add: completed_accepts_def open_accepts_def)
  have shape: "journals_shape ?d = journals_shape db" by (simp add: journals_shape_def same)
  have g: "collab_ok c" "grows (ad_collab db) c" using c t by (simp_all add: sound_step_def accept_tables_ok_def)
  have "\<forall>i\<in>set (completed_accepts db). settled E c i" using t settled_grows [OF _ g(2)] by (simp add: accept_tables_ok_def)
  moreover have "\<forall>q\<in>set (cb_requests c). rq_status q = Merged \<longrightarrow> (\<exists>j\<in>set (completed_accepts db). ap_request (aj_plan j) = rq_id q)"
    using t merges by (simp add: accept_tables_ok_def)
  ultimately have "accept_tables_ok E m ?d"
    using t g(1) shape by (simp add: accept_tables_ok_def same split: option.splits)
  then show "accept_ok E m ?d \<and> accept_grows db ?d"
    using ok g(2) by (simp add: accept_ok_def accept_candidate_ok_def accept_grows_def same split: option.splits)
qed

lemma event_irrelevant: "accept_sound E m db (db\<lparr>ad_events := ev\<rparr>)" "accept_sound E m db (db\<lparr>ad_placement := l\<rparr>)"
  "ad_project db = Some pj \<Longrightarrow> accept_sound E m db (db\<lparr>ad_project := Some (pj\<lparr>pj_service := s\<rparr>)\<rparr>)"
  by (auto simp: accept_sound_def accept_ok_def accept_tables_ok_def accept_candidate_ok_def accept_grows_def journals_shape_def
      completed_accepts_def open_accepts_def split: option.splits)

lemma committed_accept: "(\<And>x db'. r = Inr (x, db') \<Longrightarrow> accept_sound E m db db') \<Longrightarrow> accept_sound E m db (committed r db)"
  by (auto simp: committed_def split: sum.split prod.split)

lemma accept_step_sound: "accept_sound E m db (accept_step E db c)"
proof (cases c)
  case (Collaborate k)
  then show ?thesis using collab_sound [OF collab_step_sound collab_merges_nothing] by (simp add: Let_def)
qed (auto intro!: committed_accept event_irrelevant simp: rbind_Inr split: option.split
    intro: prepare_accept_sound persist_result_sound mark_main_updated_sound mark_recovery_required_sound complete_accept_sound(1))

interpretation acceptance: machine "new_project main l" "accept_step E" "accept_ok E main" for E main l
proof unfold_locales
  show "accept_ok E main (new_project main l)"
    by (simp add: accept_ok_def accept_tables_ok_def accept_candidate_ok_def new_project_def table_defs empty_project_def
        journals_shape_def completed_accepts_def open_accepts_def)
  show "accept_ok E main db \<Longrightarrow> accept_ok E main (accept_step E db c)" for db c
    using accept_step_sound [of E main db c] by (simp add: accept_sound_def)
qed

lemma run_accept_grows: "accept_ok E m db \<Longrightarrow> accept_grows db (run (accept_step E) db cs)"
proof (induction cs arbitrary: db)
  case (Cons c cs)
  have "accept_ok E m (accept_step E db c)" "accept_grows db (accept_step E db c)"
    using accept_step_sound [of E m db c] Cons.prems by (simp_all add: accept_sound_def)
  then show ?case using Cons.IH accept_grows_trans by auto
qed simp

section \<open>A completed acceptance is answered again\<close>

lemma result_again:
  assumes "results_ok c" and "x \<in> set (cb_idempotency c)" and "same_key i (ir_identity x)"
    and "ii_fingerprint (ir_identity x) = ii_fingerprint i" and "validate_identity E i = Inr ()"
  shows "find_result E i c = Inr (Replay (ir_response x))"
proof (cases "List.find (\<lambda>r. same_key i (ir_identity r)) (cb_idempotency c)")
  case None
  then show ?thesis using assms(2,3) by (auto simp: find_None_iff)
next
  case (Some y)
  then have y: "y \<in> set (cb_idempotency c)" "same_key i (ir_identity y)" by (auto simp: find_Some_iff)
  then have "y = x" using assms(1-3) by (auto simp: results_ok_def distinct_map inj_on_def same_key_result)
  then show ?thesis using Some assms(4,5) by (simp add: find_result_def)
qed

lemma completed_again:
  assumes ok: "accept_ok E m db" and k: "k \<in> set (completed_accepts db)" "has_operation operation k"
    and a: "answered E (ad_collab db) k response" and operation: "ic_opaque (ae_ids E) operation"
  shows "complete_accept E operation (Stamp n) db = Inr (response, db)"
proof -
  have t: "accept_tables_ok E m db" using ok by (simp add: accept_ok_def)
  have mem: "k \<in> set (ad_journals db)" "aj_phase k = ACompleted" using k(1) by (simp_all add: completed_accepts_def)
  have stored: "\<forall>j\<in>set (ad_journals db). stored_ok E j" using t by (simp add: accept_tables_ok_def)
  obtain j where j: "List.find (has_operation operation) (ad_journals db) = Some j"
    using mem k(2) by (cases "List.find (has_operation operation) (ad_journals db)") (auto simp: find_None_iff)
  then have "j \<in> set (ad_journals db)" "has_operation operation j" by (auto simp: find_Some_iff)
  then have "j = k" using same_operation [OF t mem(1) k(2)] by blast
  then have g: "present_accept (get_accept E operation db) = Inr k"
    using j operation unfolding get_accept_stored [OF stored] by (simp add: present_accept_def require_def)
  have "stored_ok E k" using stored mem(1) by blast
  then have v: "validate_identity (ae_collab E) (accept_identity (aj_plan k)) = Inr ()"
    by (auto simp: stored_ok_def canonical_prepare_def rbind_Inr require_def ensure_Inr validate_identity_def
        accept_identity_def row_input_def member_id_def opaque_id_def idempotent_operations_def)
  obtain x where x: "x \<in> set (cb_idempotency (ad_collab db))" "same_key (accept_identity (aj_plan k)) (ir_identity x)"
    "ii_fingerprint (ir_identity x) = ap_fingerprint (aj_plan k)" "ir_response x = response"
    using a by (auto simp: answered_def)
  have "find_result (ae_collab E) (accept_identity (aj_plan k)) (ad_collab db) = Inr (Replay response)"
    using result_again [OF _ x(1,2) _ v] x(3,4) t by (simp add: accept_tables_ok_def collab_ok_def accept_identity_def)
  then have "replay_response E k db = Inr response"
    using a by (simp add: replay_response_def answered_def)
  then show ?thesis using g operation mem(2)
    by (simp add: complete_accept_def require_def input_timestamp_def timestamp_def)
qed

section \<open>A Project\<close>

definition demo_oid :: "char \<Rightarrow> string" where
  "demo_oid c = replicate 40 c"

definition demo_accept_env :: accept_env where
  "demo_accept_env = \<lparr>ae_collab = \<lparr>ce_ids = \<lparr>ic_opaque = (\<lambda>s. s \<noteq> []), ic_member = (\<lambda>s. s \<noteq> []), ic_oid = (\<lambda>s. length s = 40)\<rparr>,
       ce_descriptionBytes = 9, ce_commentBytes = 9, ce_requestComments = 9, ce_requestRelations = 9, ce_titleUtf16 = 9,
       ce_bodyBytes = 9, ce_ticketCommentBytes = 9, ce_ticketComments = 9, ce_jsonBytes = 9, ce_jsonSize = (\<lambda>_. 1),
       ce_storable = (\<lambda>_. True)\<rparr>,
     ae_events = demo_event_env, ae_project = ''p'', ae_isProject = (\<lambda>s. s \<noteq> []), ae_memberRef = (\<lambda>m. ''refs/'' @ m),
     ae_decodes = (\<lambda>_. True)\<rparr>"

definition demo_placement :: placement where
  "demo_placement = \<lparr>pl_generation = 1, pl_project = ''p'', pl_key = ''k'', pl_node = ''n''\<rparr>"

definition demo_plan :: "int \<Rightarrow> stamp accept_plan" where
  "demo_plan revision = \<lparr>ap_actor = ''m'', ap_head = demo_oid (CHR ''b''), ap_main = demo_oid (CHR ''a''), ap_revision = 1, ap_key = ''k'',
     ap_format = Sha1, ap_operation = ''o'', ap_personalRef = ''refs/m'', ap_placement = demo_placement,
     ap_preparedAt = Stamp 5000, ap_relations = [\<lparr>ax_commit = demo_oid (CHR ''b''), ax_kind = Resolves, ax_relation = ''l'',
       ax_ticket = ''t'', ax_ticketRevision = revision\<rparr>],
     ap_fingerprint = replicate 64 (CHR ''0''), ap_request = ''r'', ap_requestMember = ''m'',
     ap_commit = Some \<lparr>mc_authorEmail = author_email, mc_authorName = author_name, mc_committerEmail = author_email,
       mc_committerName = author_name, mc_message = accept_message ''r'',
       mc_parents = (demo_oid (CHR ''a''), demo_oid (CHR ''b'')), mc_tree = demo_oid (CHR ''c'')\<rparr>\<rparr>"

definition demo_collaboration :: "accept_command list" where
  "demo_collaboration =
     [Collaborate (AddMember ''m''),
      Collaborate (CreateTicket \<lparr>ct_author = ''m'', ct_body = [65], ct_createdAt = Stamp 1000, ct_ticket = ''t'', ct_title = [65]\<rparr>),
      Collaborate (CreateRequest \<lparr>cr_createdAt = Stamp 2000, cr_description = [65], cr_firstBase = demo_oid (CHR ''a''),
        cr_head = demo_oid (CHR ''b''), cr_member = ''m'', cr_request = ''r''\<rparr>),
      Collaborate (ReplaceRelations \<lparr>rr_actor = ''m'', rr_commit = demo_oid (CHR ''b''),
        rr_relations = [\<lparr>pr_kind = Resolves, pr_relation = ''l'', pr_ticket = ''t''\<rparr>], rr_request = ''r'', rr_updatedAt = Stamp 3000\<rparr>)]"

definition demo_acceptance :: "int \<Rightarrow> accept_command list" where
  "demo_acceptance revision = [PrepareAccept (demo_plan revision),
     PersistResult \<lparr>pi_operation = ''o'', pi_result = demo_oid (CHR ''d''), pi_updatedAt = Stamp 6000\<rparr>,
     MarkMainUpdated ''o'' (Stamp 7000)]"

definition demo_project :: accept_db where
  "demo_project = run (accept_step demo_accept_env) (new_project (demo_oid (CHR ''a'')) demo_placement) demo_collaboration"

definition demo_ready :: accept_db where
  "demo_ready = run (accept_step demo_accept_env) demo_project (demo_acceptance 1)"

lemma demo_ready_phase: "map aj_phase (ad_journals demo_ready) = [AMainUpdated]"
  by code_simp

lemma demo_completes: "\<exists>r d. complete_accept demo_accept_env ''o'' (Stamp 8000) demo_ready = Inr (r, d)"
proof -
  have "\<not> isl (complete_accept demo_accept_env ''o'' (Stamp 8000) demo_ready)" by code_simp
  then show ?thesis by (cases "complete_accept demo_accept_env ''o'' (Stamp 8000) demo_ready") auto
qed

section \<open>Properties\<close>

text \<open>C5. Acceptance is exact. Whatever sequence of operations a Project has seen, on its collaboration
  tables, its events and the journals of acceptances, failed and repeated ones included: the merges
  that were completed form one chain from the first commit of the main branch to the commit the
  Project expects it at, at most one acceptance is open, no request was accepted twice, the requests
  that are merged are exactly those of completed acceptances, and what each of them records is in
  the tables: the request merged at the recorded result, every relation accepted, the response stored.\<close>

theorem acceptance_exact:
  fixes E :: accept_env and main :: string and l :: placement and cs :: "accept_command list"
  defines "db \<equiv> run (accept_step E) (new_project main l) cs"
  shows "(\<exists>pj. ad_project db = Some pj \<and> main_chain main (completed_accepts db) (pj_main pj))
    \<and> ad_journals db = completed_accepts db @ open_accepts db \<and> length (open_accepts db) \<le> 1
    \<and> distinct (map (\<lambda>j. ap_request (aj_plan j)) (completed_accepts db))
    \<and> rq_id ` set (filter (\<lambda>q. rq_status q = Merged) (cb_requests (ad_collab db)))
      = (\<lambda>j. ap_request (aj_plan j)) ` set (completed_accepts db)
    \<and> list_all (settled E (ad_collab db)) (completed_accepts db)"
proof -
  have t: "accept_tables_ok E main db" using acceptance.inv_run [of E main l cs] by (simp add: db_def accept_ok_def)
  then have s: "\<forall>j\<in>set (completed_accepts db). settled E (ad_collab db) j" by (simp add: accept_tables_ok_def)
  then have "\<forall>j\<in>set (completed_accepts db). \<exists>q\<in>set (cb_requests (ad_collab db)). rq_id q = ap_request (aj_plan j) \<and> rq_status q = Merged"
    by (auto simp: settled_def request_merged_def)
  then have "rq_id ` set (filter (\<lambda>q. rq_status q = Merged) (cb_requests (ad_collab db)))
      = (\<lambda>j. ap_request (aj_plan j)) ` set (completed_accepts db)"
    using t by (force simp: accept_tables_ok_def)
  moreover have "list_all (settled E (ad_collab db)) (completed_accepts db)" using s by (simp add: list_all_iff)
  moreover have "\<exists>pj. ad_project db = Some pj \<and> main_chain main (completed_accepts db) (pj_main pj)"
    using t by (cases "ad_project db") (auto simp: accept_tables_ok_def)
  ultimately show ?thesis using t unfolding accept_tables_ok_def journals_shape_def by blast
qed

text \<open>C6. A completed acceptance has one answer for ever: once \<open>complete\<close> has returned a response, it
  returns this response again whenever it is called for the same operation, whatever happened in
  between, and changes nothing.\<close>

theorem acceptance_replays:
  assumes db: "db = run (accept_step E) (new_project main l) cs"
    and first: "complete_accept E operation u db = Inr (response, db')"
    and later: "s = run (accept_step E) db' ds"
  shows "complete_accept E operation (Stamp n) s = Inr (response, s)"
proof -
  have ok: "accept_ok E main db" unfolding db by (rule acceptance.inv_run)
  then have ok': "accept_ok E main db'" using complete_accept_sound(1) [OF first] by (simp add: accept_sound_def)
  obtain k where k: "k \<in> set (completed_accepts db')" "has_operation operation k" "answered E (ad_collab db') k response"
    using complete_accept_sound(2) [OF first ok] by blast
  have g: "accept_grows db' s" "accept_ok E main s" unfolding later
    using run_accept_grows [OF ok'] acceptance.inv_run_from [OF ok'] by auto
  then have "k \<in> set (completed_accepts s)" "answered E (ad_collab s) k response"
    using k unfolding accept_grows_def answered_def grows_def by auto
  from completed_again [OF g(2) this(1) k(2) this(2)] show ?thesis
    using first by (auto simp: complete_accept_def rbind_Inr require_def ensure_Inr)
qed

lemma demo_ready_reached:
  "demo_ready = run (accept_step demo_accept_env) (new_project (demo_oid (CHR ''a'')) demo_placement) (demo_collaboration @ demo_acceptance 1)"
  by (simp add: demo_ready_def demo_project_def run_append)

theorem acceptance_replays_witness:
  "\<exists>r d. complete_accept demo_accept_env ''o'' (Stamp 8000) demo_ready = Inr (r, d)
    \<and> complete_accept demo_accept_env ''o'' (Stamp 9000) (accept_step demo_accept_env d (Collaborate (AddMember ''x'')))
      = Inr (r, accept_step demo_accept_env d (Collaborate (AddMember ''x'')))"
proof -
  obtain r d where c: "complete_accept demo_accept_env ''o'' (Stamp 8000) demo_ready = Inr (r, d)"
    using demo_completes by blast
  show ?thesis
    using acceptance_replays [OF demo_ready_reached c, of _ "[Collaborate (AddMember ''x'')]" 9000] c
    by (simp del: accept_step.simps)
qed

text \<open>C39. The tables of a Project stay consistent through all of this: a member has at most one open
  request, tickets are numbered 1, 2, 3 without a gap in the order of their creation, the comment
  counter of every ticket is the number of its comments and at most 500, a ticket is closed exactly
  if someone closed it, a request has at most one relation to a ticket, every relation refers to a
  request and a ticket that exist, and an idempotency key has one result.\<close>

theorem collaboration_consistent:
  fixes E :: accept_env and main :: string and l :: placement and cs :: "accept_command list"
  defines "db \<equiv> ad_collab (run (accept_step E) (new_project main l) cs)"
  shows "distinct (map rq_id (cb_requests db))
    \<and> distinct (map rq_member (filter (\<lambda>q. rq_status q = Open) (cb_requests db)))
    \<and> rq_member ` set (cb_requests db) \<subseteq> set (cb_members db)
    \<and> map tk_number (cb_tickets db) = map int [1..<Suc (length (cb_tickets db))]
    \<and> map tk_commentCount (cb_tickets db)
      = map (\<lambda>t. int (length (comments_of (tk_id t) (cb_ticketComments db)))) (cb_tickets db)
    \<and> list_all (\<lambda>t. tk_commentCount t \<le> 500 \<and> (tk_status t = TicketClosed) = (tk_closedBy t \<noteq> None)) (cb_tickets db)
    \<and> distinct (map (\<lambda>r. (rl_request r, rl_ticket r)) (cb_relations db))
    \<and> rl_request ` set (cb_relations db) \<subseteq> rq_id ` set (cb_requests db)
    \<and> rl_ticket ` set (cb_relations db) \<subseteq> tk_id ` set (cb_tickets db)
    \<and> distinct (map result_key (cb_idempotency db))"
proof -
  have "collab_ok db"
    using acceptance.inv_run [of E main l cs] by (simp add: db_def accept_ok_def accept_tables_ok_def)
  then have *: "requests_ok db" "relations_ok db" "tickets_ok db" "results_ok db" by (simp_all add: collab_ok_def)
  have closed: "tk_commentCount t \<le> 500 \<and> (tk_status t = TicketClosed \<longleftrightarrow> tk_closedBy t \<noteq> None)" if "ticket_row_ok t" for t
    using that by (cases "tk_status t") (simp_all add: ticket_row_ok_def)
  have rows: "ticket_row_ok t \<and> tk_commentCount t = int (length (comments_of (tk_id t) (cb_ticketComments db)))"
    if "t \<in> set (cb_tickets db)" for t
    using *(3) that by (simp add: tickets_ok_def)
  have "list_all (\<lambda>t. tk_commentCount t \<le> 500 \<and> (tk_status t = TicketClosed) = (tk_closedBy t \<noteq> None)) (cb_tickets db)"
    unfolding list_all_iff using closed rows by blast
  moreover have "map tk_commentCount (cb_tickets db) = map (\<lambda>t. int (length (comments_of (tk_id t) (cb_ticketComments db)))) (cb_tickets db)"
    using rows by simp
  ultimately show ?thesis using * unfolding requests_ok_def relations_ok_def tickets_ok_def results_ok_def by blast
qed


text \<open>
  An edit is an update of a request, of a ticket or of the status of a ticket; it names the revision
  it expects. The answer is whether it changed something.
\<close>

datatype edit = EditRequest update_request_input | EditTicket update_ticket_input | EditStatus ticket_status_input

fun run_edit :: "collab_env \<Rightarrow> edit \<Rightarrow> collab_db \<Rightarrow> coord_error + bool \<times> collab_db" where
  "run_edit E (EditRequest i) db = rbind (update_open E i db) (\<lambda>(v, db'). Inr (v \<noteq> None, db'))"
| "run_edit E (EditTicket i) db = rbind (update_ticket_content E i db) (\<lambda>(v, db'). Inr (v \<noteq> None, db'))"
| "run_edit E (EditStatus i) db = rbind (change_ticket_status E i db) (\<lambda>(v, db'). Inr (v \<noteq> None, db'))"

fun edit_of_request :: "edit \<Rightarrow> bool" where
  "edit_of_request (EditRequest i) = True" | "edit_of_request (EditTicket i) = False" | "edit_of_request (EditStatus i) = False"

fun edit_subject :: "edit \<Rightarrow> string" where
  "edit_subject (EditRequest i) = ur_request i" | "edit_subject (EditTicket i) = ut_ticket i" | "edit_subject (EditStatus i) = ts_ticket i"

fun edit_expected :: "edit \<Rightarrow> int" where
  "edit_expected (EditRequest i) = ur_expectedRevision i" | "edit_expected (EditTicket i) = ut_expectedRevision i"
| "edit_expected (EditStatus i) = ts_expectedRevision i"

lemma run_edit_sound: "run_edit E e db = Inr (b, db') \<Longrightarrow> sound_step db db'"
  by (cases e) (auto simp: rbind_Inr intro: operations_sound)

lemma run_edit_merges_nothing:
  "run_edit E e db = Inr (b, db') \<Longrightarrow> q \<in> set (cb_requests db') \<Longrightarrow> rq_status q = Merged \<Longrightarrow> q \<in> set (cb_requests db)"
  by (cases e) (auto simp: rbind_Inr update_open_def update_ticket_content_def change_ticket_status_def Let_def
      update_rows_def split: if_splits)

text \<open>A successful edit leaves its subject at the next revision; one that expects less is stale.\<close>

lemma edited:
  assumes "run_edit E e db = Inr (True, db')"
  shows "if edit_of_request e
    then \<exists>q\<in>set (cb_requests db'). rq_id q = edit_subject e \<and> rq_revision q = edit_expected e + 1
    else \<exists>t\<in>set (cb_tickets db'). tk_id t = edit_subject e \<and> tk_revision t = edit_expected e + 1"
  using assms by (cases e) (auto simp: rbind_Inr dest!: updated_request updated_ticket updated_status)

lemma stale_edit:
  assumes "if edit_of_request e
    then \<forall>q\<in>set (cb_requests s). rq_id q = edit_subject e \<longrightarrow> edit_expected e < rq_revision q
    else \<forall>t\<in>set (cb_tickets s). tk_id t = edit_subject e \<longrightarrow> edit_expected e < tk_revision t"
    and "run_edit E e s = Inr (b, s')"
  shows "\<not> b \<and> s' = s"
  using assms by (cases e) (auto simp: rbind_Inr dest!: stale_request [rotated] stale_ticket [rotated] stale_status [rotated])

text \<open>No edit is lost: once an edit has succeeded at an expected revision, every later edit of the
  same request or ticket that expects this revision or an earlier one changes nothing and says so,
  or fails, whatever happened in between, other edits and acceptances included.\<close>

theorem stale_edits_refused:
  assumes db: "db = run (accept_step E) (new_project main l) cs"
    and first: "run_edit (ae_collab E) e (ad_collab db) = Inr (True, c)"
    and later: "s = ad_collab (run (accept_step E) (db\<lparr>ad_collab := c\<rparr>) ds)"
    and f: "edit_of_request f = edit_of_request e" "edit_subject f = edit_subject e" "edit_expected f \<le> edit_expected e"
    and second: "run_edit (ae_collab E) f s = Inr (changed, s')"
  shows "\<not> changed \<and> s' = s"
proof (rule stale_edit [OF _ second])
  have "accept_ok E main db" unfolding db by (rule acceptance.inv_run)
  then have ok: "accept_ok E main (db\<lparr>ad_collab := c\<rparr>)"
    using collab_sound [OF run_edit_sound [OF first] run_edit_merges_nothing [OF first]] by (simp add: accept_sound_def)
  have g: "grows c s" "collab_ok s" unfolding later
    using run_accept_grows [OF ok, of ds] acceptance.inv_run_from [OF ok, of ds]
    by (simp_all add: accept_grows_def accept_ok_def accept_tables_ok_def)
  show "if edit_of_request f
    then \<forall>q\<in>set (cb_requests s). rq_id q = edit_subject f \<longrightarrow> edit_expected f < rq_revision q
    else \<forall>t\<in>set (cb_tickets s). tk_id t = edit_subject f \<longrightarrow> edit_expected f < tk_revision t"
  proof (cases "edit_of_request e")
    case True
    then obtain q where q: "q \<in> set (cb_requests c)" "rq_id q = edit_subject e" "rq_revision q = edit_expected e + 1"
      using edited [OF first] by auto
    show ?thesis using True f request_passed [OF q(1) g] q by fastforce
  next
    case False
    then obtain t where t: "t \<in> set (cb_tickets c)" "tk_id t = edit_subject e" "tk_revision t = edit_expected e + 1"
      using edited [OF first] by auto
    show ?thesis using False f ticket_passed [OF t(1) g] t by fastforce
  qed
qed

definition demo_accepted :: accept_db where
  "demo_accepted = run (accept_step demo_accept_env) (new_project (demo_oid (CHR ''a'')) demo_placement)
     (demo_collaboration @ demo_acceptance 1 @ [CompleteAccept ''o'' (Stamp 8000)])"

lemma demo_accepted_rows:
  "map rq_status (cb_requests (ad_collab demo_accepted)) = [Merged]" "map rl_state (cb_relations (ad_collab demo_accepted)) = [Accepted]"
  "map tk_revision (cb_tickets (ad_collab demo_accepted)) = [2]"
  by code_simp+

definition demo_reopen :: "accept_command list" where
  "demo_reopen = [Collaborate (ChangeStatus \<lparr>ts_actor = ''m'', ts_expectedRevision = 2, ts_status = TicketOpen,
     ts_ticket = ''t'', ts_updatedAt = Stamp 9000\<rparr>)]"


definition demo_close :: edit where
  "demo_close = EditStatus \<lparr>ts_actor = ''m'', ts_expectedRevision = 1, ts_status = TicketClosed, ts_ticket = ''t'', ts_updatedAt = Stamp 4000\<rparr>"

definition demo_retitle :: edit where
  "demo_retitle = EditTicket \<lparr>ut_body = [66], ut_expectedRevision = 1, ut_ticket = ''t'', ut_title = [66], ut_updatedAt = Stamp 5000\<rparr>"

definition edit_committed :: "coord_error + bool \<times> collab_db \<Rightarrow> bool" where
  "edit_committed r = (case r of Inl e \<Rightarrow> False | Inr (b, db) \<Rightarrow> b)"

lemma edit_committedD: "edit_committed r \<Longrightarrow> \<exists>db. r = Inr (True, db)"
  by (auto simp: edit_committed_def split: sum.splits)

theorem stale_edits_refused_witness:
  "\<exists>c changed s. run_edit (ae_collab demo_accept_env) demo_close (ad_collab demo_project) = Inr (True, c)
    \<and> run_edit (ae_collab demo_accept_env) demo_retitle c = Inr (changed, s) \<and> \<not> changed \<and> s = c"
proof -
  let ?E = "ae_collab demo_accept_env"
  have "edit_committed (run_edit ?E demo_close (ad_collab demo_project))" by code_simp
  then obtain c where c: "run_edit ?E demo_close (ad_collab demo_project) = Inr (True, c)" using edit_committedD by blast
  have "\<not> isl (run_edit ?E demo_retitle (snd (projr (run_edit ?E demo_close (ad_collab demo_project)))))" by code_simp
  then obtain changed s where s: "run_edit ?E demo_retitle c = Inr (changed, s)"
    unfolding c by (cases "run_edit ?E demo_retitle c") auto
  have f: "edit_of_request demo_retitle = edit_of_request demo_close" "edit_subject demo_retitle = edit_subject demo_close"
    "edit_expected demo_retitle \<le> edit_expected demo_close"
    by (simp_all add: demo_retitle_def demo_close_def)
  have "c = ad_collab (run (accept_step demo_accept_env) (demo_project\<lparr>ad_collab := c\<rparr>) [])" by simp
  from stale_edits_refused [OF demo_project_def c this f s] show ?thesis using c s by blast
qed

end
