(* ===== verification/TreePolicy.thy ===== *)
theory TreePolicy
  imports AcceptJournal
begin

text \<open>
  The policy of the trees that an acceptance may put on the main branch, in
  \<open>src/src/repositories/GitRepositoryAuthority.ts\<close> (\<open>validPortablePathSegment\<close>,
  \<open>AcceptTreePolicyParser\<close>): a parser that is fed the output of \<open>git ls-tree -r -t -z\<close> in chunks.

  Bytes are characters, and strings of JavaScript are lists of UTF-16 code units. The limits and the
  object identifiers of the protocol package are parameters, and so is the composition of
  \<open>normalize('NFC')\<close> with \<open>toLocaleLowerCase('en-US')\<close>, which depends on the tables of Unicode.
\<close>

section \<open>Text\<close>

record tree_env =
  te_isOid :: "string \<Rightarrow> bool"
  te_pathUtf16 :: int
  te_segmentUtf16 :: int
  te_changedPaths :: int
  te_fold :: "utf16 \<Rightarrow> utf16"

text \<open>\<open>new TextDecoder('utf-8', \{ fatal: true \})\<close>: the mark at the beginning is dropped.\<close>

definition continuation :: "nat \<Rightarrow> bool" where
  "continuation b \<longleftrightarrow> 128 \<le> b \<and> b < 192"

definition prepend :: "utf16 \<Rightarrow> utf16 option \<Rightarrow> utf16 option" where
  "prepend us r = map_option (\<lambda>vs. us @ vs) r"

definition code_units :: "nat \<Rightarrow> utf16" where
  "code_units n = (if n < 65536 then [n] else [55296 + (n - 65536) div 1024, 56320 + (n - 65536) mod 1024])"

fun utf8_units :: "nat list \<Rightarrow> utf16 option" where
  "utf8_units [] = Some []"
| "utf8_units (a # bs) =
     (if a < 128 then prepend [a] (utf8_units bs)
      else if 194 \<le> a \<and> a < 224 then
        (case bs of
           b # cs \<Rightarrow> if continuation b then prepend (code_units ((a - 192) * 64 + (b - 128))) (utf8_units cs) else None
         | _ \<Rightarrow> None)
      else if 224 \<le> a \<and> a < 240 then
        (case bs of
           b # c # ds \<Rightarrow>
             if continuation b \<and> continuation c \<and> (a = 224 \<longrightarrow> 160 \<le> b) \<and> (a = 237 \<longrightarrow> b < 160)
             then prepend (code_units ((a - 224) * 4096 + (b - 128) * 64 + (c - 128))) (utf8_units ds) else None
         | _ \<Rightarrow> None)
      else if 240 \<le> a \<and> a < 245 then
        (case bs of
           b # c # d # es \<Rightarrow>
             if continuation b \<and> continuation c \<and> continuation d \<and> (a = 240 \<longrightarrow> 144 \<le> b) \<and> (a = 244 \<longrightarrow> b < 144)
             then prepend (code_units ((a - 240) * 262144 + (b - 128) * 4096 + (c - 128) * 64 + (d - 128))) (utf8_units es)
             else None
         | _ \<Rightarrow> None)
      else None)"

definition utf8_decode :: "string \<Rightarrow> utf16 option" where
  "utf8_decode s =
     (let bs = map of_char s
      in utf8_units (if take 3 bs = [239, 187, 191] then drop 3 bs else bs))"

text \<open>\<open>toString('ascii')\<close> clears the highest bit; \<open>split\<close> at one separator.\<close>

fun ascii_byte :: "char \<Rightarrow> char" where
  "ascii_byte (Char b0 b1 b2 b3 b4 b5 b6 b7) = Char b0 b1 b2 b3 b4 b5 b6 False"

fun split_at :: "'a \<Rightarrow> 'a list \<Rightarrow> 'a list list" where
  "split_at s [] = [[]]"
| "split_at s (x # xs) =
     (if x = s then [] # split_at s xs
      else (case split_at s xs of [] \<Rightarrow> [[x]] | y # ys \<Rightarrow> (x # y) # ys))"

definition units :: "string \<Rightarrow> utf16" where
  "units s = map of_char s"

section \<open>Path segments\<close>

text \<open>
  \<open>WINDOWS_RESERVED_PATH\<close>: a device name, in any case, alone or before a dot; the rest of the line
  must not contain a line terminator. No character outside ASCII folds to a letter of these names.
\<close>

definition lower_unit :: "nat \<Rightarrow> nat" where
  "lower_unit u = (if 65 \<le> u \<and> u \<le> 90 then u + 32 else u)"

definition device_names :: "utf16 list" where
  "device_names = map units [''con'', ''prn'', ''aux'', ''nul'']
     @ concat (map (\<lambda>p. map (\<lambda>d. units p @ [d]) [49, 50, 51, 52, 53, 54, 55, 56, 57, 185, 178, 179]) [''com'', ''lpt''])"

definition windows_reserved :: "utf16 \<Rightarrow> bool" where
  "windows_reserved s \<longleftrightarrow>
     (let name = takeWhile (\<lambda>u. u \<noteq> 46) s; rest = dropWhile (\<lambda>u. u \<noteq> 46) s
      in map lower_unit name \<in> set device_names \<and> list_all (\<lambda>u. u \<notin> {10, 13, 8232, 8233}) rest)"

definition invalid_path_control :: "utf16 \<Rightarrow> bool" where
  "invalid_path_control s \<longleftrightarrow> list_ex (\<lambda>u. u \<le> 31 \<or> u = 127) s"

definition windows_invalid :: "utf16 \<Rightarrow> bool" where
  "windows_invalid s \<longleftrightarrow> list_ex (\<lambda>u. u \<in> set (units ''<>:|?*'') \<or> u = 34 \<or> u = 92) s"

definition reserved_roots :: "utf16 list" where
  "reserved_roots = [units ''.claudian'', units ''.git'', units ''workspace'']"

definition valid_segment :: "tree_env \<Rightarrow> utf16 \<Rightarrow> bool" where
  "valid_segment T s \<longleftrightarrow> length s > 0 \<and> int (length s) \<le> te_segmentUtf16 T \<and> s \<noteq> units ''.'' \<and> s \<noteq> units ''..''
     \<and> \<not> invalid_path_control s \<and> \<not> windows_invalid s \<and> \<not> (last s = 46 \<or> last s = 32)
     \<and> \<not> windows_reserved s \<and> te_fold T s \<notin> set reserved_roots"

section \<open>The parser\<close>

record tree_parser =
  tp_buffer :: string
  tp_entryCount :: int
  tp_invalid :: bool
  tp_comparisons :: "utf16 \<Rightarrow> utf16 option"
  tp_entriesByParent :: "utf16 \<Rightarrow> int option"

definition new_parser :: tree_parser where
  "new_parser = \<lparr>tp_buffer = [], tp_entryCount = 0, tp_invalid = False, tp_comparisons = (\<lambda>_. None),
     tp_entriesByParent = (\<lambda>_. None)\<rparr>"

definition reject :: "tree_parser \<Rightarrow> tree_parser" where
  "reject p = p\<lparr>tp_invalid := True, tp_buffer := []\<rparr>"

definition max_tree_entries :: int where
  "max_tree_entries = 100000"

definition accept_oid :: "tree_env \<Rightarrow> object_format \<Rightarrow> string \<Rightarrow> bool" where
  "accept_oid T f oid \<longleftrightarrow> te_isOid T oid \<and> length oid = (case f of Sha1 \<Rightarrow> 40 | Sha256 \<Rightarrow> 64)"

definition entry_type_ok :: "string \<Rightarrow> string \<Rightarrow> bool" where
  "entry_type_ok mode type \<longleftrightarrow> (type = ''tree'' \<and> (mode = ''040000'' \<or> mode = ''40000''))
     \<or> (type = ''blob'' \<and> (mode = ''100644'' \<or> mode = ''100755''))"

definition join_path :: "utf16 list \<Rightarrow> utf16" where
  "join_path segments = (case segments of [] \<Rightarrow> [] | s # ss \<Rightarrow> s @ concat (map (\<lambda>x. 47 # x) ss))"

text \<open>What the tests of one record leave: its path, or nothing.\<close>

definition record_path :: "tree_env \<Rightarrow> object_format \<Rightarrow> string \<Rightarrow> utf16 option" where
  "record_path T f r =
     (let separator = length (takeWhile (\<lambda>c. c \<noteq> CHR 0x09) r)
      in if separator = length r \<or> separator = 0 then None
         else case split_at (CHR '' '') (map ascii_byte (take separator r)) of
           [mode, type, oid] \<Rightarrow>
             if \<not> accept_oid T f oid \<or> \<not> entry_type_ok mode type then None
             else (case utf8_decode (drop (separator + 1) r) of
                     None \<Rightarrow> None
                   | Some path \<Rightarrow>
                       if length path = 0 \<or> int (length path) > te_pathUtf16 T
                          \<or> list_ex (\<lambda>s. \<not> valid_segment T s) (split_at 47 path)
                       then None else Some path)
         | _ \<Rightarrow> None)"

definition parent_of :: "utf16 \<Rightarrow> utf16" where
  "parent_of path = join_path (butlast (split_at 47 path))"

definition parse_record :: "tree_env \<Rightarrow> object_format \<Rightarrow> string \<Rightarrow> tree_parser \<Rightarrow> tree_parser" where
  "parse_record T f r p =
     (case record_path T f r of
        None \<Rightarrow> reject p
      | Some path \<Rightarrow>
          let p1 = p\<lparr>tp_entryCount := tp_entryCount p + 1\<rparr>;
              parent = parent_of path;
              parentEntries = get_or (tp_entriesByParent p1) parent 0 + 1
          in if tp_entryCount p1 > max_tree_entries then reject p1
             else if parentEntries > te_changedPaths T then reject p1
             else let p2 = p1\<lparr>tp_entriesByParent := (tp_entriesByParent p1)(parent \<mapsto> parentEntries)\<rparr>;
                      comparison = te_fold T path
                  in if tp_comparisons p2 comparison \<noteq> None \<and> tp_comparisons p2 comparison \<noteq> Some path then reject p2
                     else p2\<lparr>tp_comparisons := (tp_comparisons p2)(comparison \<mapsto> path)\<rparr>)"

definition zero_byte :: char where
  "zero_byte = CHR 0x00"

lemma parse_buffer: "length (tp_buffer (parse_record T f r p)) \<le> length (tp_buffer p)"
  by (auto simp: parse_record_def reject_def Let_def split: option.splits)

function drain :: "tree_env \<Rightarrow> object_format \<Rightarrow> tree_parser \<Rightarrow> tree_parser" where
  "drain T f p =
     (let before = takeWhile (\<lambda>c. c \<noteq> zero_byte) (tp_buffer p)
      in if length before = length (tp_buffer p)
         then (if length (tp_buffer p) > 2048 then reject p else p)
         else drain T f (parse_record T f before (p\<lparr>tp_buffer := drop (length before + 1) (tp_buffer p)\<rparr>)))"
  by pat_completeness auto

termination drain
proof (relation "measure (\<lambda>(T, f, p). length (tp_buffer p))")
  fix T :: tree_env and f :: object_format and p :: tree_parser and before :: string
  assume "before = takeWhile (\<lambda>c. c \<noteq> zero_byte) (tp_buffer p)" and n: "length before \<noteq> length (tp_buffer p)"
  then have "length before < length (tp_buffer p)" by (metis le_neq_implies_less length_takeWhile_le)
  then show "((T, f, parse_record T f before (p\<lparr>tp_buffer := drop (length before + 1) (tp_buffer p)\<rparr>)), T, f, p)
    \<in> measure (\<lambda>(T, f, p). length (tp_buffer p))"
    using parse_buffer [of T f before "p\<lparr>tp_buffer := drop (length before + 1) (tp_buffer p)\<rparr>"]
    by (simp add: le_less_trans)
qed simp

declare drain.simps [simp del]

definition push :: "tree_env \<Rightarrow> object_format \<Rightarrow> tree_parser \<Rightarrow> string \<Rightarrow> tree_parser" where
  "push T f p chunk = (if tp_invalid p then p else drain T f (p\<lparr>tp_buffer := tp_buffer p @ chunk\<rparr>))"

definition finish_ok :: "tree_parser \<Rightarrow> bool" where
  "finish_ok p \<longleftrightarrow> \<not> (tp_invalid p \<or> length (tp_buffer p) \<noteq> 0)"

text \<open>\<open>#assertAcceptTreePolicy\<close> on the chunks that \<open>ls-tree\<close> has written.\<close>

definition tree_accepted :: "tree_env \<Rightarrow> object_format \<Rightarrow> string list \<Rightarrow> bool" where
  "tree_accepted T f chunks \<longleftrightarrow> finish_ok (foldl (push T f) new_parser chunks)"

section \<open>The policy\<close>

text \<open>
  The reference: the output is a sequence of records, each closed by a zero byte, each a valid
  entry; there are not too many, not too many in one directory, and no two paths that the
  folding of case and form identifies.
\<close>

definition tree_policy :: "tree_env \<Rightarrow> object_format \<Rightarrow> string \<Rightarrow> bool" where
  "tree_policy T f out \<longleftrightarrow>
     (let parts = split_at zero_byte out; entries = map (record_path T f) (butlast parts); paths = map the entries
      in last parts = [] \<and> None \<notin> set entries \<and> int (length paths) \<le> max_tree_entries
         \<and> list_all (\<lambda>p. int (count_list (map parent_of paths) (parent_of p)) \<le> te_changedPaths T) paths
         \<and> list_all (\<lambda>p. list_all (\<lambda>q. te_fold T p = te_fold T q \<longrightarrow> p = q) paths) paths)"

lemma split_at_not_empty [simp]: "split_at s xs \<noteq> []"
  by (induction xs) (auto split: list.splits)

lemma split_at_Cons: "x \<noteq> s \<Longrightarrow> split_at s (x # xs) = (x # hd (split_at s xs)) # tl (split_at s xs)"
  by (cases "split_at s xs") auto

lemma split_at_append:
  "split_at s (xs @ ys) = butlast (split_at s xs) @ (last (split_at s xs) @ hd (split_at s ys)) # tl (split_at s ys)"
proof (induction xs)
  case (Cons x xs)
  show ?case
  proof (cases "x = s")
    case False
    obtain a t where "split_at s xs = a # t" by (cases "split_at s xs") auto
    then show ?thesis using Cons.IH False by (cases "t = []") (simp_all add: split_at_Cons)
  qed (simp add: Cons)
qed simp

lemma split_at_one: "s \<notin> set xs \<Longrightarrow> split_at s xs = [xs]"
  by (induction xs) auto

lemma split_at_more: "s \<notin> set xs \<Longrightarrow> split_at s (xs @ s # ys) = xs # split_at s ys"
  by (induction xs) auto

lemma split_at_cases:
  obtains "s \<notin> set b" "split_at s b = [b]"
  | x c where "b = x @ s # c" "s \<notin> set x" "split_at s b = x # split_at s c"
proof (cases "s \<in> set b")
  case True
  then obtain x c where "b = x @ s # c" "s \<notin> set x" by (meson split_list_first)
  then show ?thesis by (intro that(2)) (simp_all add: split_at_more)
next
  case False
  then show ?thesis by (intro that(1)) (simp_all add: split_at_one)
qed

definition scan_record :: "tree_env \<Rightarrow> object_format \<Rightarrow> tree_parser \<Rightarrow> string \<Rightarrow> tree_parser" where
  "scan_record T f p r = (if tp_invalid p then p else parse_record T f r p)"

lemma parse_record_buffer:
  assumes "\<not> tp_invalid p"
  shows "if tp_invalid (parse_record T f r p)
    then tp_invalid (parse_record T f r (p\<lparr>tp_buffer := b\<rparr>)) \<and> tp_buffer (parse_record T f r (p\<lparr>tp_buffer := b\<rparr>)) = []
    else parse_record T f r (p\<lparr>tp_buffer := b\<rparr>) = (parse_record T f r p)\<lparr>tp_buffer := b\<rparr>"
  using assms by (auto simp: parse_record_def reject_def Let_def split: option.split)

lemma scan_invalid: "tp_invalid p \<Longrightarrow> foldl (scan_record T f) p rs = p"
  by (induction rs) (auto simp: scan_record_def)

lemma drain_empty: "tp_buffer p = [] \<Longrightarrow> drain T f p = p"
  by (subst drain.simps) simp

lemma drain_last: "zero_byte \<notin> set b \<Longrightarrow> tp_buffer p = b \<Longrightarrow> drain T f p = (if length b > 2048 then reject p else p)"
proof -
  assume b: "zero_byte \<notin> set b" "tp_buffer p = b"
  have w: "takeWhile (\<lambda>c. c \<noteq> zero_byte) b = b" using b(1) by (auto simp: takeWhile_eq_all_conv)
  show ?thesis unfolding drain.simps [of T f p] b(2) w by simp
qed

lemma drain_next:
  assumes "zero_byte \<notin> set x" and "tp_buffer p = x @ zero_byte # c"
  shows "drain T f p = drain T f (parse_record T f x (p\<lparr>tp_buffer := c\<rparr>))"
proof -
  have "takeWhile (\<lambda>c. c \<noteq> zero_byte) (tp_buffer p) = x" using assms by (simp add: takeWhile_append)
  then show ?thesis using assms(2) by (subst drain.simps) simp
qed

lemma drain_scan:
  assumes "\<not> tp_invalid p" and "parts = split_at zero_byte b"
  shows "let q = foldl (scan_record T f) p (butlast parts)
    in if tp_invalid q \<or> length (last parts) > 2048 then tp_invalid (drain T f (p\<lparr>tp_buffer := b\<rparr>))
       else drain T f (p\<lparr>tp_buffer := b\<rparr>) = q\<lparr>tp_buffer := last parts\<rparr>"
  using assms
proof (induction parts arbitrary: p b)
  case (Cons x parts)
  show ?case
  proof (cases rule: split_at_cases [of zero_byte b])
    case 1
    then show ?thesis using Cons.prems drain_last [OF 1(1), of "p\<lparr>tp_buffer := b\<rparr>" T f] by (auto simp: Let_def reject_def)
  next
    case (2 x' c)
    then have x: "x' = x" "parts = split_at zero_byte c" "parts \<noteq> []" using Cons.prems(2) by auto
    have d: "drain T f (p\<lparr>tp_buffer := b\<rparr>) = drain T f (parse_record T f x (p\<lparr>tp_buffer := c\<rparr>))"
      using drain_next [of x "p\<lparr>tp_buffer := b\<rparr>" c T f] 2 x by simp
    let ?p = "parse_record T f x p"
    have step: "foldl (scan_record T f) p (butlast (x # parts)) = foldl (scan_record T f) ?p (butlast parts)"
      using x(3) Cons.prems(1) by (simp add: scan_record_def)
    show ?thesis
    proof (cases "tp_invalid ?p")
      case True
      then have "drain T f (p\<lparr>tp_buffer := b\<rparr>) = parse_record T f x (p\<lparr>tp_buffer := c\<rparr>)"
        "tp_invalid (parse_record T f x (p\<lparr>tp_buffer := c\<rparr>))"
        using parse_record_buffer [OF Cons.prems(1), of T f x c] d drain_empty by simp_all
      moreover have "tp_invalid (foldl (scan_record T f) p (butlast (x # parts)))"
        using True x(3) Cons.prems(1) scan_invalid [OF True] by (simp add: scan_record_def)
      ultimately show ?thesis by (simp add: Let_def)
    next
      case False
      then have "drain T f (p\<lparr>tp_buffer := b\<rparr>) = drain T f (?p\<lparr>tp_buffer := c\<rparr>)"
        using parse_record_buffer [OF Cons.prems(1), of T f x c] d by simp
      then show ?thesis using Cons.IH [OF False x(2)] x(3) step by (simp add: Let_def)
    qed
  qed
next
  case Nil
  then show ?case using split_at_not_empty by metis
qed

text \<open>What the parser has stored after valid records.\<close>

definition paths_of :: "tree_env \<Rightarrow> object_format \<Rightarrow> string list \<Rightarrow> utf16 list" where
  "paths_of T f rs = map (the \<circ> record_path T f) rs"

definition scanned :: "tree_env \<Rightarrow> tree_parser \<Rightarrow> utf16 list \<Rightarrow> bool" where
  "scanned T p ps \<longleftrightarrow> tp_entryCount p = int (length ps)
     \<and> (\<forall>q. get_or (tp_entriesByParent p) q 0 = int (count_list (map parent_of ps) q))
     \<and> (\<forall>c q. tp_comparisons p c = Some q \<longleftrightarrow> q \<in> set ps \<and> te_fold T q = c)"

definition acceptable :: "tree_env \<Rightarrow> object_format \<Rightarrow> string list \<Rightarrow> bool" where
  "acceptable T f rs \<longleftrightarrow> (let ps = paths_of T f rs
     in (\<forall>r\<in>set rs. record_path T f r \<noteq> None) \<and> int (length rs) \<le> max_tree_entries
        \<and> (\<forall>p\<in>set ps. int (count_list (map parent_of ps) (parent_of p)) \<le> te_changedPaths T)
        \<and> (\<forall>p\<in>set ps. \<forall>q\<in>set ps. te_fold T p = te_fold T q \<longrightarrow> p = q))"

lemma count_list_snoc: "count_list (xs @ [x]) y = count_list xs y + (if x = y then 1 else 0)"
  by (induction xs) auto

lemma inj_snoc:
  "(\<forall>a\<in>insert p A. \<forall>q\<in>insert p A. g a = g q \<longrightarrow> a = q) \<longleftrightarrow>
   (\<forall>a\<in>A. \<forall>q\<in>A. g a = g q \<longrightarrow> a = q) \<and> (\<forall>q\<in>A. g q = g p \<longrightarrow> q = p)"
  using inj_on_insert [of g p A] by (auto simp: inj_on_def)

lemma count_snoc:
  "(\<forall>q\<in>insert p A. (n (g q) :: int) + (if g p = g q then 1 else 0) \<le> C) \<longleftrightarrow> (\<forall>q\<in>A. n (g q) \<le> C) \<and> n (g p) + 1 \<le> C"
  (is "?l \<longleftrightarrow> ?r")
proof
  assume l: ?l
  have "n (g p) + (if g p = g p then 1 else 0) \<le> C" using l by (rule bspec) simp
  moreover have "n (g q) \<le> C" if "q \<in> A" for q
  proof -
    have "n (g q) + (if g p = g q then 1 else 0) \<le> C" using l by (rule bspec) (simp add: that)
    then show ?thesis by (cases "g p = g q") simp_all
  qed
  ultimately show ?r by simp
next
  assume r: ?r
  show ?l
  proof
    fix q assume "q \<in> insert p A"
    then show "n (g q) + (if g p = g q then 1 else 0) \<le> C" using r by (cases "g p = g q") auto
  qed
qed

lemma acceptable_snoc:
  "acceptable T f (rs @ [r]) \<longleftrightarrow> acceptable T f rs \<and> (\<exists>p. record_path T f r = Some p
     \<and> int (length rs) + 1 \<le> max_tree_entries
     \<and> int (count_list (map parent_of (paths_of T f rs)) (parent_of p)) + 1 \<le> te_changedPaths T
     \<and> (\<forall>q\<in>set (paths_of T f rs). te_fold T q = te_fold T p \<longrightarrow> q = p))"
proof (cases "record_path T f r")
  case (Some p)
  let ?ps = "paths_of T f rs"
  have ps: "paths_of T f (rs @ [r]) = ?ps @ [p]" using Some by (simp add: paths_of_def)
  have e: "int (count_list (map parent_of (?ps @ [p])) q)
      = int (count_list (map parent_of ?ps) q) + (if parent_of p = q then 1 else 0)" for q
    by (simp add: count_list_snoc)
  have st: "set (?ps @ [p]) = insert p (set ?ps)" by simp
  have "(\<forall>q\<in>set (?ps @ [p]). int (count_list (map parent_of (?ps @ [p])) (parent_of q)) \<le> te_changedPaths T) \<longleftrightarrow>
      (\<forall>q\<in>set ?ps. int (count_list (map parent_of ?ps) (parent_of q)) \<le> te_changedPaths T)
      \<and> int (count_list (map parent_of ?ps) (parent_of p)) + 1 \<le> te_changedPaths T"
    unfolding e st by (rule count_snoc [where n = "\<lambda>q. int (count_list (map parent_of ?ps) q)"])
  moreover have "(\<forall>a\<in>set (?ps @ [p]). \<forall>q\<in>set (?ps @ [p]). te_fold T a = te_fold T q \<longrightarrow> a = q) \<longleftrightarrow>
      (\<forall>a\<in>set ?ps. \<forall>q\<in>set ?ps. te_fold T a = te_fold T q \<longrightarrow> a = q) \<and> (\<forall>q\<in>set ?ps. te_fold T q = te_fold T p \<longrightarrow> q = p)"
    using inj_snoc [of p "set ?ps" "te_fold T"] by simp
  ultimately show ?thesis unfolding acceptable_def Let_def ps using Some by auto
qed (simp add: acceptable_def Let_def)

lemma scan_acceptable:
  "tp_invalid (foldl (scan_record T f) new_parser rs) \<longleftrightarrow> \<not> acceptable T f rs"
  "acceptable T f rs \<Longrightarrow> scanned T (foldl (scan_record T f) new_parser rs) (paths_of T f rs)"
proof (induction rs rule: rev_induct)
  case Nil
  show "tp_invalid (foldl (scan_record T f) new_parser []) \<longleftrightarrow> \<not> acceptable T f []"
    by (simp add: new_parser_def acceptable_def paths_of_def max_tree_entries_def)
  show "scanned T (foldl (scan_record T f) new_parser []) (paths_of T f [])"
    by (simp add: new_parser_def paths_of_def scanned_def get_or_def)
next
  case (snoc r rs)
  let ?p = "foldl (scan_record T f) new_parser rs" and ?ps = "paths_of T f rs"
  have *: "(\<not> tp_invalid (scan_record T f ?p r) \<longleftrightarrow> acceptable T f (rs @ [r]))
    \<and> (acceptable T f (rs @ [r]) \<longrightarrow> scanned T (scan_record T f ?p r) (paths_of T f (rs @ [r])))"
  proof (cases "acceptable T f rs")
    case False
    then have inv: "tp_invalid ?p" using snoc.IH(1) by blast
    then have "scan_record T f ?p r = ?p" unfolding scan_record_def by (rule if_P)
    then show ?thesis using False inv by (simp only: acceptable_snoc simp_thms)
  next
    case True
    then have v: "\<not> tp_invalid ?p" and s: "tp_entryCount ?p = int (length ?ps)"
      "\<And>q. get_or (tp_entriesByParent ?p) q 0 = int (count_list (map parent_of ?ps) q)"
      "\<And>c q. tp_comparisons ?p c = Some q \<longleftrightarrow> q \<in> set ?ps \<and> te_fold T q = c"
      using snoc.IH by (simp_all add: scanned_def)
    show ?thesis
    proof (cases "record_path T f r")
      case None
      then show ?thesis using v by (simp add: scan_record_def parse_record_def reject_def acceptable_snoc)
    next
      case (Some p)
      have ps: "paths_of T f (rs @ [r]) = ?ps @ [p]" using Some by (simp add: paths_of_def)
      have len: "length ?ps = length rs" by (simp add: paths_of_def)
      have c: "(tp_comparisons ?p (te_fold T p) \<noteq> None \<and> tp_comparisons ?p (te_fold T p) \<noteq> Some p) \<longleftrightarrow>
          \<not> (\<forall>q\<in>set ?ps. te_fold T q = te_fold T p \<longrightarrow> q = p)"
      proof (cases "tp_comparisons ?p (te_fold T p)")
        case None
        then have "te_fold T q \<noteq> te_fold T p" if "q \<in> set ?ps" for q using s(3) [of "te_fold T p" q] that by simp
        then show ?thesis using None by simp
      next
        case (Some a)
        then have "q \<in> set ?ps \<and> te_fold T q = te_fold T p \<longleftrightarrow> q = a" for q using s(3) [of "te_fold T p" q] by auto
        then have "(\<forall>q\<in>set ?ps. te_fold T q = te_fold T p \<longrightarrow> q = p) \<longleftrightarrow> a = p" by metis
        then show ?thesis using Some by simp
      qed
      have a: "acceptable T f (rs @ [r]) \<longleftrightarrow> int (length rs) + 1 \<le> max_tree_entries
         \<and> int (count_list (map parent_of ?ps) (parent_of p)) + 1 \<le> te_changedPaths T
         \<and> (\<forall>q\<in>set ?ps. te_fold T q = te_fold T p \<longrightarrow> q = p)"
        using True Some by (simp add: acceptable_snoc)
      have e: "scan_record T f ?p r =
        (let p1 = ?p\<lparr>tp_entryCount := tp_entryCount ?p + 1\<rparr>; n = get_or (tp_entriesByParent ?p) (parent_of p) 0 + 1;
             p2 = p1\<lparr>tp_entriesByParent := (tp_entriesByParent ?p)(parent_of p \<mapsto> n)\<rparr>
         in if tp_entryCount ?p + 1 > max_tree_entries then reject p1
            else if n > te_changedPaths T then reject p1
            else if tp_comparisons ?p (te_fold T p) \<noteq> None \<and> tp_comparisons ?p (te_fold T p) \<noteq> Some p then reject p2
            else p2\<lparr>tp_comparisons := (tp_comparisons ?p)(te_fold T p \<mapsto> p)\<rparr>)"
        using v Some by (simp add: scan_record_def parse_record_def Let_def)
      have inv: "\<not> tp_invalid (scan_record T f ?p r) \<longleftrightarrow> acceptable T f (rs @ [r])"
        unfolding a e c s(1,2) len using v by (simp add: Let_def reject_def)
      moreover have "scanned T (scan_record T f ?p r) (?ps @ [p])" if ok: "acceptable T f (rs @ [r])"
      proof -
        have ok': "tp_entryCount ?p + 1 \<le> max_tree_entries"
          "get_or (tp_entriesByParent ?p) (parent_of p) 0 + 1 \<le> te_changedPaths T"
          "\<not> (tp_comparisons ?p (te_fold T p) \<noteq> None \<and> tp_comparisons ?p (te_fold T p) \<noteq> Some p)"
          unfolding c s(1,2) len using ok unfolding a by simp_all
        then have "scan_record T f ?p r = ?p\<lparr>tp_entryCount := tp_entryCount ?p + 1,
            tp_entriesByParent := (tp_entriesByParent ?p)(parent_of p \<mapsto> get_or (tp_entriesByParent ?p) (parent_of p) 0 + 1),
            tp_comparisons := (tp_comparisons ?p)(te_fold T p \<mapsto> p)\<rparr>"
          unfolding e Let_def by (simp only: not_le [symmetric] not_not if_False if_True simp_thms tree_parser.simps)
        then show ?thesis unfolding scanned_def
          using s ok unfolding a by (auto simp: count_list_snoc get_or_def)
      qed
      ultimately show ?thesis unfolding ps by blast
    qed
  qed
  show "tp_invalid (foldl (scan_record T f) new_parser (rs @ [r])) \<longleftrightarrow> \<not> acceptable T f (rs @ [r])"
    using * by auto
  show "acceptable T f (rs @ [r]) \<Longrightarrow> scanned T (foldl (scan_record T f) new_parser (rs @ [r])) (paths_of T f (rs @ [r]))"
    using * by auto
qed

lemma policy_acceptable:
  "tree_policy T f out \<longleftrightarrow> last (split_at zero_byte out) = [] \<and> acceptable T f (butlast (split_at zero_byte out))"
proof -
  have "(None \<notin> set (map (record_path T f) rs)) \<longleftrightarrow> (\<forall>r\<in>set rs. record_path T f r \<noteq> None)" for rs
    by (metis ex_map_conv imageE image_eqI list.set_map)
  then show ?thesis by (auto simp: tree_policy_def acceptable_def Let_def paths_of_def list_all_iff o_assoc)
qed

lemma last_split: "s \<notin> set (last (split_at s xs))"
  by (induction xs) (auto split: list.splits)

text \<open>
  The state between two chunks: rejected, because of a record that is not acceptable or of one that is
  too long; or exactly what the complete records leave, with the beginning of the next one.
\<close>

definition pushed :: "tree_env \<Rightarrow> object_format \<Rightarrow> string \<Rightarrow> tree_parser \<Rightarrow> bool" where
  "pushed T f out p \<longleftrightarrow> (let parts = split_at zero_byte out
     in if tp_invalid p then \<not> acceptable T f (butlast parts) \<or> (\<exists>x\<in>set parts. 2048 < length x)
        else acceptable T f (butlast parts)
          \<and> p = (foldl (scan_record T f) new_parser (butlast parts))\<lparr>tp_buffer := last parts\<rparr>)"

lemma acceptable_prefix: "acceptable T f (rs @ qs) \<Longrightarrow> acceptable T f rs"
proof (induction qs rule: rev_induct)
  case (snoc q qs)
  then show ?case using acceptable_snoc [of T f "rs @ qs" q] by simp
qed simp

lemma push_pushed:
  assumes p: "pushed T f out p"
  shows "pushed T f (out @ chunk) (push T f p chunk)"
proof -
  let ?P = "split_at zero_byte out" and ?B = "split_at zero_byte chunk"
  let ?parts = "(last ?P @ hd ?B) # tl ?B"
  have app: "split_at zero_byte (out @ chunk) = butlast ?P @ ?parts" by (rule split_at_append)
  have rest: "split_at zero_byte (last ?P @ chunk) = ?parts"
    using split_at_append [of zero_byte "last ?P" chunk] split_at_one [OF last_split [of zero_byte out]] by simp
  have but: "butlast (butlast ?P @ ?parts) = butlast ?P @ butlast ?parts" "last (butlast ?P @ ?parts) = last ?parts"
    by (simp_all add: butlast_append)
  show ?thesis
  proof (cases "tp_invalid p")
    case True
    then have "\<not> acceptable T f (butlast ?P) \<or> (\<exists>x\<in>set ?P. 2048 < length x)" using p by (simp add: pushed_def Let_def)
    then have "\<not> acceptable T f (butlast ?P @ butlast ?parts) \<or> (\<exists>x\<in>set (butlast ?P @ ?parts). 2048 < length x)"
    proof
      assume "\<exists>x\<in>set ?P. 2048 < length x"
      then obtain x where x: "x \<in> set ?P" "2048 < length x" by blast
      have "?P = butlast ?P @ [last ?P]" by simp
      then have "x \<in> set (butlast ?P) \<or> x = last ?P" using x(1) by (metis Un_iff empty_iff empty_set insert_iff list.simps(15) set_append)
      then show ?thesis using x(2) by auto
    qed (use acceptable_prefix in blast)
    then show ?thesis using True unfolding pushed_def app Let_def but by (simp add: push_def)
  next
    case False
    let ?q = "foldl (scan_record T f) new_parser (butlast ?P)"
    have q: "acceptable T f (butlast ?P)" "p = ?q\<lparr>tp_buffer := last ?P\<rparr>" using p False by (simp_all add: pushed_def Let_def)
    have v: "\<not> tp_invalid ?q" using scan_acceptable(1) q(1) by blast
    have e: "push T f p chunk = drain T f (?q\<lparr>tp_buffer := last ?P @ chunk\<rparr>)"
      using False by (simp add: push_def q(2))
    note d = drain_scan [OF v rest [symmetric], of T f, unfolded Let_def]
    have fold: "foldl (scan_record T f) ?q (butlast ?parts) = foldl (scan_record T f) new_parser (butlast ?P @ butlast ?parts)"
      by simp
    note a = scan_acceptable(1) [of T f "butlast ?P @ butlast ?parts"]
    show ?thesis
    proof (cases "acceptable T f (butlast ?P @ butlast ?parts) \<and> \<not> 2048 < length (last ?parts)")
      case True
      then have "push T f p chunk = (foldl (scan_record T f) new_parser (butlast ?P @ butlast ?parts))\<lparr>tp_buffer := last ?parts\<rparr>"
        using d unfolding fold e a by simp
      then show ?thesis using True a unfolding pushed_def app Let_def but by simp
    next
      case False
      then have "tp_invalid (push T f p chunk)" using d unfolding fold e a by (auto split: if_splits)
      moreover have "last ?parts \<in> set (butlast ?P @ ?parts)" by simp
      ultimately show ?thesis using False unfolding pushed_def app Let_def but by auto
    qed
  qed
qed

lemma pushed_all: "pushed T f out p \<Longrightarrow> pushed T f (out @ concat chunks) (foldl (push T f) p chunks)"
proof (induction chunks arbitrary: out p)
  case (Cons c chunks)
  then show ?case using Cons.IH [OF push_pushed [OF Cons.prems, of c]] by simp
qed simp

section \<open>The parser decides the policy\<close>


section \<open>A tree\<close>

definition demo_tree_env :: tree_env where
  "demo_tree_env = \<lparr>te_isOid = (\<lambda>s. length s = 40), te_pathUtf16 = 9, te_segmentUtf16 = 5, te_changedPaths = 2, te_fold = map lower_unit\<rparr>"

definition demo_tree_chunks :: "string list" where
  "demo_tree_chunks = [''040000 tree '' @ demo_oid (CHR ''a''), [CHR 0x09, CHR ''D'', zero_byte] @ ''100644 blob '' @ demo_oid (CHR ''b''),
     [CHR 0x09] @ ''D/f'' @ [zero_byte]]"

lemma demo_tree: "tree_policy demo_tree_env Sha1 (concat demo_tree_chunks)"
  "list_all (\<lambda>r. length r \<le> 64) (butlast (split_at zero_byte (concat demo_tree_chunks)))"
  by code_simp+


text \<open>A tree with two names that differ in case only is refused.\<close>

lemma demo_case_clash:
  "\<not> tree_policy demo_tree_env Sha1 (concat [''100644 blob '' @ demo_oid (CHR ''a'') @ [CHR 0x09, CHR ''A'', zero_byte],
     ''100644 blob '' @ demo_oid (CHR ''b'') @ [CHR 0x09, CHR ''a'', zero_byte]])"
  by code_simp

end
