(* ===== verification/WriteAdmission.thy ===== *)
theory WriteAdmission
  imports TreePolicy
begin

text \<open>
  The admission of writes to a Project, \<open>src/src/project-authority/admission/ProjectWriteAdmission.ts\<close>:
  a write runs under the lease of the Project, when no journal of it is open, as an active member, and
  every transaction of the write checks again what it was admitted for. When a journal is open the
  admission lets it be recovered once, and tries again.

  The world is what one server process and its database and repository share about a Project. Each
  call that leaves the process (a transaction, the lease, a Git operation) is an effect: it works, it
  fails before or after it was done, or the process stops there and nothing follows. Cancellation
  and closing are not modelled; they act between effects as a failure does.
\<close>

section \<open>The world and its faults\<close>

datatype admission_error = AuthorizationDenied | AdmissionDependencyFailed | AdmissionRecoveryRequired | AdmissionStateConflict

datatype repository_error =
  RConflicting | RInvalidPlan | RStaleHead | RStaleMain | RStaleRelation | RStateConflict | RUnsupportedTree | RUnavailable

datatype coordinator_error = CoordinatorDependencyFailed | CoordinatorRecoveryRequired

datatype request_repository_error = HeadNotPushed | RequestStaleMain | RequestStateConflict | RequestUnavailable

datatype recovery_failure = RecoveryDependencyFailed | RecoveryRecoveryRequired

text \<open>A domain error is a code and a reason. \<open>Crashed\<close> is the stop of the process.\<close>

datatype failure =
    Admission admission_error | Repository repository_error | Coordination coord_error
  | Coordinator coordinator_error | Recovery recovery_failure | RequestRepository request_repository_error | Domain string string | Crashed

text \<open>
  A call that fails is out of reach (a time limit, a lost connection) or broken (Git ends with an
  error); it had no effect, or all of it.
\<close>

datatype trouble = Unreachable | Broken

datatype call_fault = Works | FailsBefore trouble | FailsAfter trouble | Stops

record membership =
  me_member :: string
  me_revision :: int
  me_manager :: bool

text \<open>
  Beside the tables: the active membership of the principal, the other journals that are open, the
  references and commits of the repository, the Git permits that this Project holds, the faults to
  come, and the number of times the clock was read.
\<close>

record world =
  wo_db :: accept_db
  wo_membership :: "membership option"
  wo_bootstrap :: "lifecycle_state option"
  wo_join :: bool
  wo_lifecycle :: "lifecycle_state option"
  wo_refs :: "(string \<times> string) list"
  wo_commits :: "(string \<times> string) list"
  wo_permits :: int
  wo_faults :: "call_fault list"
  wo_ticks :: nat

type_synonym 'a act = "world \<Rightarrow> (failure + 'a) \<times> world"

definition give :: "'a \<Rightarrow> 'a act" where
  "give x w = (Inr x, w)"

definition throw :: "failure \<Rightarrow> 'a act" where
  "throw e w = (Inl e, w)"

definition andthen :: "'a act \<Rightarrow> ('a \<Rightarrow> 'b act) \<Rightarrow> 'b act" where
  "andthen m f w = (case m w of (Inl e, w') \<Rightarrow> (Inl e, w') | (Inr x, w') \<Rightarrow> f x w')"

definition check :: "bool \<Rightarrow> failure \<Rightarrow> unit act" where
  "check b e = (if b then give () else throw e)"

definition lift :: "failure + 'a \<Rightarrow> 'a act" where
  "lift r w = (r, w)"

text \<open>\<open>catch\<close> and \<open>and_always\<close> (a \<open>finally\<close> block) do not run once the process has stopped.\<close>

definition catch :: "'a act \<Rightarrow> (failure \<Rightarrow> 'a act) \<Rightarrow> 'a act" where
  "catch m h w =
     (case m w of
        (Inl e, w') \<Rightarrow> if e = Crashed then (Inl e, w') else h e w'
      | (Inr x, w') \<Rightarrow> (Inr x, w'))"

definition and_always :: "'a act \<Rightarrow> unit act \<Rightarrow> 'a act" where
  "and_always m c w =
     (case m w of
        (Inl e, w') \<Rightarrow> if e = Crashed then (Inl e, w') else andthen c (\<lambda>_. throw e) w'
      | (Inr x, w') \<Rightarrow> andthen c (\<lambda>_. give x) w')"

text \<open>A process that has stopped stays stopped: the fault is not used up.\<close>

definition effect :: "(trouble \<Rightarrow> failure) \<Rightarrow> 'a act \<Rightarrow> 'a act" where
  "effect e m w =
     (case wo_faults w of
        [] \<Rightarrow> m w
      | x # xs \<Rightarrow>
          (case x of
             Works \<Rightarrow> m (w\<lparr>wo_faults := xs\<rparr>)
           | FailsBefore k \<Rightarrow> (Inl (e k), w\<lparr>wo_faults := xs\<rparr>)
           | FailsAfter k \<Rightarrow> (Inl (e k), snd (m (w\<lparr>wo_faults := xs\<rparr>)))
           | Stops \<Rightarrow> (Inl Crashed, w)))"

definition coordination :: "coord_error + 'a \<Rightarrow> failure + 'a" where
  "coordination r = (case r of Inl e \<Rightarrow> Inl (Coordination e) | Inr x \<Rightarrow> Inr x)"

text \<open>\<open>withProjectScope\<close>: a transaction, undone when it fails.\<close>

definition unavailable :: "trouble \<Rightarrow> failure" where
  "unavailable k = Coordination DependencyFailed"

definition transaction :: "(world \<Rightarrow> failure + 'a \<times> accept_db) \<Rightarrow> 'a act" where
  "transaction t =
     effect unavailable (\<lambda>w.
       case t w of
         Inl e \<Rightarrow> (Inl e, w)
       | Inr (x, db) \<Rightarrow> (Inr x, w\<lparr>wo_db := db\<rparr>))"

definition query :: "(world \<Rightarrow> failure + 'a) \<Rightarrow> 'a act" where
  "query q = transaction (\<lambda>w. rbind (q w) (\<lambda>x. Inr (x, wo_db w)))"

section \<open>Authorization\<close>

record write_facts =
  wf_main :: string
  wf_member :: string
  wf_revision :: int
  wf_placement :: placement
  wf_manager :: bool

definition authorize_member :: "world \<Rightarrow> failure + membership" where
  "authorize_member w = (case wo_membership w of None \<Rightarrow> Inl (Admission AuthorizationDenied) | Some m \<Rightarrow> Inr m)"

definition authorize :: "accept_env \<Rightarrow> world \<Rightarrow> failure + write_facts" where
  "authorize E w =
     rbind (authorize_member w) (\<lambda>m.
       case ad_project (wo_db w) of
         None \<Rightarrow> Inl (Admission AuthorizationDenied)
       | Some pj \<Rightarrow>
           if pj_service pj \<noteq> ServiceActive then Inl (Admission AdmissionRecoveryRequired)
           else (case ad_placement (wo_db w) of
                   None \<Rightarrow> Inl (Admission AdmissionStateConflict)
                 | Some l \<Rightarrow>
                     if pl_project l \<noteq> ae_project E then Inl (Admission AdmissionStateConflict)
                     else Inr \<lparr>wf_main = pj_main pj, wf_member = me_member m, wf_revision = me_revision m,
                       wf_placement = l, wf_manager = me_manager m\<rparr>))"

definition revalidate :: "accept_env \<Rightarrow> write_facts \<Rightarrow> string option \<Rightarrow> world \<Rightarrow> failure + unit" where
  "revalidate E expected operation w =
     rbind (authorize E w) (\<lambda>current.
     rbind (coordination (get_open_accept E (wo_db w))) (\<lambda>accept.
     rbind (ensure (\<not> (wo_bootstrap w \<noteq> None \<or> wo_join w
         \<or> (case accept of None \<Rightarrow> False | Some j \<Rightarrow> Some (ap_operation (aj_plan j)) \<noteq> operation)))
       (Admission AdmissionRecoveryRequired)) (\<lambda>_.
       ensure (\<not> (wf_main current \<noteq> wf_main expected \<or> wf_member current \<noteq> wf_member expected
         \<or> wf_revision current \<noteq> wf_revision expected \<or> wf_manager current \<noteq> wf_manager expected
         \<or> \<not> same_placement (wf_placement current) (wf_placement expected)))
         (Admission AdmissionStateConflict))))"

text \<open>\<open>write.transact\<close>: the check and the operation are one transaction.\<close>

definition transact ::
  "accept_env \<Rightarrow> write_facts \<Rightarrow> string option \<Rightarrow> (accept_db \<Rightarrow> failure + 'a \<times> accept_db) \<Rightarrow> 'a act" where
  "transact E facts operation t =
     transaction (\<lambda>w. rbind (revalidate E facts operation w) (\<lambda>_. t (wo_db w)))"

section \<open>The loop\<close>

record recovery_state =
  rs_accept :: "accept_journal option"
  rs_bootstrap :: "lifecycle_state option"
  rs_join :: bool
  rs_lifecycle :: "lifecycle_state option"

definition read_recovery_state :: "accept_env \<Rightarrow> world \<Rightarrow> failure + recovery_state" where
  "read_recovery_state E w =
     rbind (if wo_lifecycle w \<noteq> Some Active then rbind (authorize_member w) (\<lambda>_. Inr ()) else Inr ()) (\<lambda>_.
     rbind (coordination (get_open_accept E (wo_db w))) (\<lambda>accept.
       Inr \<lparr>rs_accept = accept, rs_bootstrap = wo_bootstrap w, rs_join = wo_join w, rs_lifecycle = wo_lifecycle w\<rparr>))"

definition pending :: "recovery_state \<Rightarrow> bool" where
  "pending r \<longleftrightarrow> rs_bootstrap r \<noteq> None \<or> rs_accept r \<noteq> None \<or> rs_join r \<or> rs_lifecycle r \<noteq> None"

definition isolated :: "recovery_state \<Rightarrow> bool" where
  "isolated r \<longleftrightarrow> rs_bootstrap r = Some RecoveryRequired
     \<or> (case rs_accept r of None \<Rightarrow> False | Some j \<Rightarrow> aj_phase j = ARecoveryRequired)
     \<or> rs_lifecycle r = Some RecoveryRequired"

text \<open>
  A lease is taken and given back, and the result is lost when giving it back fails. One round under
  a lease is \<open>None\<close> when the Project has to be recovered first.
\<close>

definition under_lease :: "'a act \<Rightarrow> 'a act" where
  "under_lease m = andthen (effect unavailable (give ())) (\<lambda>_. and_always m (effect unavailable (give ())))"

definition admission_round ::
  "accept_env \<Rightarrow> (write_facts \<Rightarrow> 'a act) \<Rightarrow> bool \<Rightarrow> bool \<Rightarrow> 'a option act" where
  "admission_round E operation allowRecovery recovered =
     under_lease (
       andthen (query (read_recovery_state E)) (\<lambda>r.
         if pending r
         then (if \<not> allowRecovery \<or> recovered \<or> isolated r then throw (Admission AdmissionRecoveryRequired) else give None)
         else andthen (query (authorize E)) (\<lambda>facts. andthen (operation facts) (\<lambda>x. give (Some x)))))"

text \<open>\<open>#waitForRecovery\<close> translates the errors of the recovery port, and only those.\<close>

definition wait_for_recovery :: "unit act \<Rightarrow> unit act" where
  "wait_for_recovery recover = catch recover (\<lambda>e.
     case e of
       Recovery RecoveryRecoveryRequired \<Rightarrow> throw (Admission AdmissionRecoveryRequired)
     | Recovery RecoveryDependencyFailed \<Rightarrow> throw (Admission AdmissionDependencyFailed)
     | _ \<Rightarrow> throw e)"

text \<open>\<open>#run\<close> with the number of rounds it may take; \<open>None\<close> when they do not suffice.\<close>

fun admission_loop ::
  "nat \<Rightarrow> accept_env \<Rightarrow> unit act \<Rightarrow> (write_facts \<Rightarrow> 'a act) \<Rightarrow> bool \<Rightarrow> bool \<Rightarrow> world
    \<Rightarrow> ((failure + 'a) \<times> world) option" where
  "admission_loop 0 E recover operation allowRecovery recovered w = None"
| "admission_loop (Suc n) E recover operation allowRecovery recovered w =
     (case admission_round E operation allowRecovery recovered w of
        (Inl e, w') \<Rightarrow> Some (Inl e, w')
      | (Inr (Some x), w') \<Rightarrow> Some (Inr x, w')
      | (Inr None, w') \<Rightarrow>
          (case wait_for_recovery recover w' of
             (Inl e, w'') \<Rightarrow> Some (Inl e, w'')
           | (Inr u, w'') \<Rightarrow> admission_loop n E recover operation allowRecovery True w''))"

text \<open>
  The translation of coordination errors around it (\<open>#track\<close>), and the three ways in. Two rounds
  suffice (\<open>admission_terminates\<close>), so the value for the other case is never used.
\<close>

definition track :: "'a act \<Rightarrow> 'a act" where
  "track m = catch m (\<lambda>e.
     case e of
       Coordination DependencyFailed \<Rightarrow> throw (Admission AdmissionDependencyFailed)
     | Coordination c \<Rightarrow> throw (Admission AdmissionStateConflict)
     | _ \<Rightarrow> throw e)"

definition write_admission ::
  "accept_env \<Rightarrow> unit act \<Rightarrow> (write_facts \<Rightarrow> 'a act) \<Rightarrow> bool \<Rightarrow> 'a act" where
  "write_admission E recover operation allowRecovery =
     track (\<lambda>w.
       case admission_loop 2 E recover operation allowRecovery False w of
         None \<Rightarrow> (Inl (Admission AdmissionDependencyFailed), w)
       | Some r \<Rightarrow> r)"

definition run_write :: "accept_env \<Rightarrow> unit act \<Rightarrow> (write_facts \<Rightarrow> 'a act) \<Rightarrow> 'a act" where
  "run_write E recover operation = write_admission E recover operation True"

definition run_after_preflight :: "accept_env \<Rightarrow> unit act \<Rightarrow> (write_facts \<Rightarrow> 'a act) \<Rightarrow> 'a act" where
  "run_after_preflight E recover operation = write_admission E recover operation False"

definition preflight :: "accept_env \<Rightarrow> unit act \<Rightarrow> unit act" where
  "preflight E recover = write_admission E recover (\<lambda>_. give ()) True"

section \<open>The loop ends\<close>

text \<open>The results that an action can have.\<close>

lemma andthen_Inr: "andthen m f w = (Inr y, w'') \<longleftrightarrow> (\<exists>x w'. m w = (Inr x, w') \<and> f x w' = (Inr y, w''))"
  by (cases "m w") (auto simp: andthen_def split: sum.splits)

lemma throw_Inr [simp]: "throw e w \<noteq> (Inr x, w')" by (simp add: throw_def)

lemma give_Inr [simp]: "give x w = (Inr y, w') \<longleftrightarrow> y = x \<and> w' = w" by (auto simp: give_def)

lemma and_always_Inr: "and_always m c w = (Inr x, w'') \<Longrightarrow> \<exists>w'. m w = (Inr x, w')"
  by (cases "m w") (auto simp: and_always_def andthen_Inr split: sum.splits if_splits)

lemma under_lease_Inr: "under_lease m w = (Inr x, w'') \<Longrightarrow> \<exists>u v. m u = (Inr x, v)"
  by (force simp: under_lease_def andthen_Inr dest: and_always_Inr)

lemma round_after_recovery:
  "admission_round E operation allowRecovery True w \<noteq> (Inr None, w')"
  "admission_round E operation False recovered w \<noteq> (Inr None, w')"
  by (auto simp: admission_round_def andthen_Inr dest!: under_lease_Inr split: if_splits)

lemma loop_one_round:
  assumes "\<And>w'. admission_round E operation allowRecovery recovered w \<noteq> (Inr None, w')"
  shows "admission_loop (Suc n) E recover operation allowRecovery recovered w
      = (case admission_round E operation allowRecovery recovered w of
           (Inl e, w') \<Rightarrow> Some (Inl e, w') | (Inr x, w') \<Rightarrow> Some (Inr (the x), w'))"
  using assms by (cases "admission_round E operation allowRecovery recovered w") (auto split: sum.splits option.splits)

lemmas loop_last_round = loop_one_round [OF round_after_recovery(1)] loop_one_round [OF round_after_recovery(2)]

lemma loop_recovered:
  "admission_loop (Suc n) E recover operation allowRecovery True w = admission_loop (Suc 0) E recover operation allowRecovery True w"
  "admission_loop (Suc 0) E recover operation allowRecovery True w \<noteq> None"
  by (simp_all add: loop_last_round del: admission_loop.simps split: prod.split sum.split)

lemma loop_two_rounds:
  "admission_loop (Suc (Suc n)) E recover operation allowRecovery r w = admission_loop (Suc (Suc 0)) E recover operation allowRecovery r w"
  "admission_loop (Suc (Suc 0)) E recover operation allowRecovery r w \<noteq> None"
  by (simp_all add: admission_loop.simps(2) [of "Suc _"] loop_recovered(1) [where n = n] loop_recovered(2) [unfolded not_None_eq split_paired_Ex]
      del: admission_loop.simps split: prod.split sum.split option.split)

text \<open>C10. Admission ends, with at most one recovery: whatever the recovery and the operation do and
  whatever fails, the loop of the admission is left after at most two rounds, so that a larger bound
  gives the same result, and the second round never asks for a recovery again; without leave to
  recover one round is enough.\<close>

theorem admission_terminates:
  "admission_loop (Suc (Suc n)) E recover operation allowRecovery False w
      = admission_loop 2 E recover operation allowRecovery False w
    \<and> admission_loop 2 E recover operation allowRecovery False w \<noteq> None
    \<and> admission_loop 1 E recover operation False False w \<noteq> None
    \<and> fst (admission_round E operation allowRecovery True w) \<noteq> Inr None"
proof -
  have "admission_loop 1 E recover operation False False w \<noteq> None"
    by (simp add: loop_last_round del: admission_loop.simps split: prod.split sum.split)
  moreover have "fst (admission_round E operation allowRecovery True w) \<noteq> Inr None"
    using round_after_recovery(1) [of E operation allowRecovery w] by (metis prod.collapse)
  ultimately show ?thesis unfolding numeral_2_eq_2 by (intro conjI loop_two_rounds)
qed

end
