(* ===== verification/Triples.thy ===== *)
theory Triples
  imports WriteAdmission
begin

text \<open>
  Rules for reasoning about actions of the world: what an action does from a state with the property
  \<open>P\<close>, in terms of what holds after it has returned (\<open>Q\<close>) and after it has failed (\<open>S\<close>), under an
  assumption on the faults that may happen. In a storm anything may fail in any way; in mild weather
  a call may be out of reach and the process may stop, but nothing is broken; under a clear sky
  nothing fails.
\<close>

section \<open>Weather\<close>

datatype weather = Stormy | Mild | Clear

definition mild_faults :: "call_fault set" where
  "mild_faults = {Works, FailsBefore Unreachable, FailsAfter Unreachable, Stops}"

definition mild_failures :: "failure set" where
  "mild_failures = {Repository RUnavailable, Coordination DependencyFailed, Admission AdmissionDependencyFailed,
     Coordinator CoordinatorDependencyFailed, Crashed}"

fun faults_in :: "weather \<Rightarrow> call_fault list \<Rightarrow> bool" where
  "faults_in Stormy fs = True"
| "faults_in Mild fs = (set fs \<subseteq> mild_faults)"
| "faults_in Clear fs = (fs = [])"

fun allowed :: "weather \<Rightarrow> failure \<Rightarrow> bool" where
  "allowed Stormy e = True"
| "allowed Mild e = (e \<in> mild_failures)"
| "allowed Clear e = False"

lemma faults_in_tl [simp]: "faults_in c (x # xs) \<Longrightarrow> faults_in c xs"
  by (cases c) auto

definition triple ::
  "weather \<Rightarrow> (world \<Rightarrow> bool) \<Rightarrow> 'a act \<Rightarrow> ('a \<Rightarrow> world \<Rightarrow> bool) \<Rightarrow> (world \<Rightarrow> bool) \<Rightarrow> bool" where
  "triple c P m Q S \<longleftrightarrow> (\<forall>w r w'. faults_in c (wo_faults w) \<and> P w \<and> m w = (r, w') \<longrightarrow>
     faults_in c (wo_faults w') \<and> (case r of Inl e \<Rightarrow> allowed c e \<and> S w' | Inr x \<Rightarrow> Q x w'))"

text \<open>What an action needs to know does not depend on the faults to come.\<close>

definition detached :: "(world \<Rightarrow> bool) \<Rightarrow> bool" where
  "detached P \<longleftrightarrow> (\<forall>w fs. P (w\<lparr>wo_faults := fs\<rparr>) = P w)"

section \<open>Rules\<close>

lemma tripleI:
  assumes "\<And>w r w'. faults_in c (wo_faults w) \<Longrightarrow> P w \<Longrightarrow> m w = (r, w') \<Longrightarrow>
    faults_in c (wo_faults w') \<and> (case r of Inl e \<Rightarrow> allowed c e \<and> S w' | Inr x \<Rightarrow> Q x w')"
  shows "triple c P m Q S"
  using assms unfolding triple_def by blast

lemma triple_result:
  assumes "triple c P m Q S" "m w = (r, w')" "faults_in c (wo_faults w)" "P w"
  shows "faults_in c (wo_faults w')" "r = Inr x \<Longrightarrow> Q x w'" "r = Inl e \<Longrightarrow> allowed c e \<and> S w'"
  using assms unfolding triple_def by (fastforce split: sum.splits)+

lemma triple_conseq:
  assumes "triple c P m Q S" "\<And>w. P' w \<Longrightarrow> P w" "\<And>x w. Q x w \<Longrightarrow> Q' x w" "\<And>w. S w \<Longrightarrow> S' w"
  shows "triple c P' m Q' S'"
proof (rule tripleI)
  fix w r w' assume a: "faults_in c (wo_faults w)" "P' w" "m w = (r, w')"
  note 1 = triple_result [OF assms(1) a(3,1) assms(2) [OF a(2)]]
  show "faults_in c (wo_faults w') \<and> (case r of Inl e \<Rightarrow> allowed c e \<and> S' w' | Inr x \<Rightarrow> Q' x w')"
    using 1 assms(3,4) by (cases r) simp_all
qed

lemma triple_give: "(\<And>w. P w \<Longrightarrow> Q x w) \<Longrightarrow> triple c P (give x) Q S"
  by (rule tripleI) (auto simp: give_def)

lemma triple_throw: "(\<And>w. P w \<Longrightarrow> allowed c e \<and> S w) \<Longrightarrow> triple c P (throw e) Q S"
  by (rule tripleI) (auto simp: throw_def)

lemma triple_check: "(\<And>w. P w \<Longrightarrow> \<not> b \<Longrightarrow> allowed c e \<and> S w) \<Longrightarrow> triple c P (check b e) (\<lambda>_ w. P w \<and> b) S"
  by (rule tripleI) (auto simp: check_def give_def throw_def split: if_splits)

lemma triple_andthen:
  assumes "triple c P m R S" "\<And>x. triple c (R x) (f x) Q S"
  shows "triple c P (andthen m f) Q S"
proof (rule tripleI)
  fix w r w'' assume a: "faults_in c (wo_faults w)" "P w" "andthen m f w = (r, w'')"
  obtain r1 w' where m: "m w = (r1, w')" by (cases "m w")
  note 1 = triple_result [OF assms(1) m a(1,2)]
  show "faults_in c (wo_faults w'') \<and> (case r of Inl e \<Rightarrow> allowed c e \<and> S w'' | Inr x \<Rightarrow> Q x w'')"
  proof (cases r1)
    case (Inl e)
    then show ?thesis using 1 a m by (auto simp: andthen_def)
  next
    case (Inr x)
    then have "f x w' = (r, w'')" using a m by (simp add: andthen_def)
    from triple_result [OF assms(2) this 1(1) 1(2) [OF Inr]] show ?thesis by (cases r) simp_all
  qed
qed

lemma triple_catch:
  assumes "triple c P m Q S" "\<And>e. e \<noteq> Crashed \<Longrightarrow> allowed c e \<Longrightarrow> triple c S (h e) Q S'" "\<And>w. S w \<Longrightarrow> S' w"
  shows "triple c P (catch m h) Q S'"
proof (rule tripleI)
  fix w r w'' assume a: "faults_in c (wo_faults w)" "P w" "catch m h w = (r, w'')"
  obtain r1 w' where m: "m w = (r1, w')" by (cases "m w")
  note 1 = triple_result [OF assms(1) m a(1,2)]
  show "faults_in c (wo_faults w'') \<and> (case r of Inl e \<Rightarrow> allowed c e \<and> S' w'' | Inr x \<Rightarrow> Q x w'')"
  proof (cases r1)
    case (Inr x)
    then show ?thesis using 1 a m by (auto simp: catch_def)
  next
    case (Inl e)
    show ?thesis
    proof (cases "e = Crashed")
      case True
      then show ?thesis using 1 a m Inl assms(3) by (auto simp: catch_def)
    next
      case False
      then have "h e w' = (r, w'')" using a m Inl by (simp add: catch_def)
      moreover have "faults_in c (wo_faults w')" "allowed c e" "S w'" using 1 a Inl by auto
      ultimately show ?thesis using assms(2) [OF False] unfolding triple_def by blast
    qed
  qed
qed

lemma triple_and_always:
  assumes "triple c P m Q' S'" "\<And>x. triple c (Q' x) d (\<lambda>_. Q x) S" "triple c S' d (\<lambda>_. S) S" "\<And>w. S' w \<Longrightarrow> S w"
  shows "triple c P (and_always m d) Q S"
proof (rule tripleI)
  fix w r w'' assume a: "faults_in c (wo_faults w)" "P w" "and_always m d w = (r, w'')"
  obtain r1 w' where m: "m w = (r1, w')" by (cases "m w")
  note 1 = triple_result [OF assms(1) m a(1,2)]
  show "faults_in c (wo_faults w'') \<and> (case r of Inl e \<Rightarrow> allowed c e \<and> S w'' | Inr x \<Rightarrow> Q x w'')"
  proof (cases r1)
    case (Inr x)
    have "triple c (Q' x) (andthen d (\<lambda>_. give x)) Q S"
      by (rule triple_andthen [OF assms(2)]) (rule triple_give)
    moreover have "andthen d (\<lambda>_. give x) w' = (r, w'')" "faults_in c (wo_faults w')" "Q' x w'"
      using a m 1 Inr by (auto simp: and_always_def)
    ultimately show ?thesis unfolding triple_def by blast
  next
    case (Inl e)
    then have s: "faults_in c (wo_faults w')" "allowed c e" "S' w'" using a 1 by auto
    show ?thesis
    proof (cases "e = Crashed")
      case True
      then show ?thesis using s a m Inl assms(4) by (auto simp: and_always_def)
    next
      case False
      have "triple c S' (andthen d (\<lambda>_. throw e)) Q S"
        by (rule triple_andthen [OF assms(3)]) (rule triple_throw, use s in simp)
      moreover have "andthen d (\<lambda>_. throw e) w' = (r, w'')" using a m Inl False by (simp add: and_always_def)
      ultimately show ?thesis using s unfolding triple_def by blast
    qed
  qed
qed

lemma triple_effect:
  assumes m: "triple c P m Q S" and P: "detached P" "\<And>w. P w \<Longrightarrow> S w" and Q: "\<And>x w. Q x w \<Longrightarrow> S w"
    and f: "\<And>k. c = Stormy \<or> (c = Mild \<and> k = Unreachable) \<Longrightarrow> allowed c (f k)"
  shows "triple c P (effect f m) Q S"
proof (rule tripleI)
  fix w r w'' assume a: "faults_in c (wo_faults w)" "P w" "effect f m w = (r, w'')"
  show "faults_in c (wo_faults w'') \<and> (case r of Inl e \<Rightarrow> allowed c e \<and> S w'' | Inr x \<Rightarrow> Q x w'')"
  proof (cases "wo_faults w")
    case Nil
    then have "m w = (r, w'')" using a by (simp add: effect_def)
    from triple_result [OF m this a(1,2)] show ?thesis by (cases r) simp_all
  next
    case (Cons x xs)
    then have xs: "faults_in c xs" and c: "c = Stormy \<or> c = Mild \<and> x \<in> mild_faults" and "faults_in c (x # xs)"
      using a by (cases c; auto)+
    let ?v = "w\<lparr>wo_faults := xs\<rparr>"
    have v: "faults_in c (wo_faults ?v)" "P ?v" using xs a P(1) by (auto simp: detached_def)
    obtain r1 w1 where r1: "m ?v = (r1, w1)" by (cases "m ?v")
    note 1 = triple_result [OF m r1 v]
    have ok: "allowed c (f k)" if "x = FailsBefore k \<or> x = FailsAfter k" for k
      using c that by (intro f) (auto simp: mild_faults_def)
    have "S w1" by (cases r1) (use 1 Q in auto)
    moreover have "allowed c Crashed" using c by (auto simp: mild_failures_def)
    moreover have "S ?v" "S w" using v P(2) a by auto
    moreover have "effect f m w = (case x of Works \<Rightarrow> (r1, w1) | FailsBefore k \<Rightarrow> (Inl (f k), ?v)
        | FailsAfter k \<Rightarrow> (Inl (f k), w1) | Stops \<Rightarrow> (Inl Crashed, w))"
      using Cons r1 by (simp add: effect_def split: call_fault.split)
    moreover have "case r1 of Inl e \<Rightarrow> allowed c e \<and> S w1 | Inr y \<Rightarrow> Q y w1" by (cases r1) (use 1 in auto)
    ultimately show ?thesis using a 1(1) v(1) ok by (cases x) auto
  qed
qed

section \<open>What lasts\<close>

text \<open>
  The part of the world that only transactions and the moves of references change. An action that
  leaves it alone keeps every property of it.
\<close>

definition core :: "world \<Rightarrow> accept_db \<times> (string \<times> string) list \<times> membership option \<times> lifecycle_state option \<times> bool
    \<times> lifecycle_state option" where
  "core w = (wo_db w, wo_refs w, wo_membership w, wo_bootstrap w, wo_join w, wo_lifecycle w)"

definition lasting :: "(world \<Rightarrow> bool) \<Rightarrow> bool" where
  "lasting P \<longleftrightarrow> (\<forall>w w'. core w = core w' \<longrightarrow> P w = P w')"

definition stays :: "'a act \<Rightarrow> bool" where
  "stays m \<longleftrightarrow> (\<forall>w r w'. m w = (r, w') \<longrightarrow> core w' = core w)"

lemma core_parts [simp]:
  "core (w\<lparr>wo_faults := fs\<rparr>) = core w" "core (w\<lparr>wo_commits := cs\<rparr>) = core w"
  "core (w\<lparr>wo_permits := n\<rparr>) = core w" "core (w\<lparr>wo_ticks := k\<rparr>) = core w"
  by (simp_all add: core_def)

lemma staysI: "(\<And>w r w'. m w = (r, w') \<Longrightarrow> core w' = core w) \<Longrightarrow> stays m" by (simp add: stays_def)

lemma staysD: "stays m \<Longrightarrow> m w = (r, w') \<Longrightarrow> core w' = core w" by (simp add: stays_def)

named_theorems stay \<open>actions that leave the core of the world alone\<close>

lemma stays_basic [stay]: "stays (give x)" "stays (throw e)" "stays (check b e)" "stays (lift r)"
  by (simp_all add: stays_def give_def throw_def check_def lift_def)

lemma stays_andthen [stay]:
  assumes "stays m" "\<And>x. stays (f x)"
  shows "stays (andthen m f)"
proof (rule staysI)
  fix w r w'' assume a: "andthen m f w = (r, w'')"
  obtain r1 w' where m: "m w = (r1, w')" by (cases "m w")
  show "core w'' = core w"
    using a m staysD [OF assms(1) m] staysD [OF assms(2)] by (cases r1) (auto simp: andthen_def)
qed

lemma stays_if [stay]: "(b \<Longrightarrow> stays m) \<Longrightarrow> (\<not> b \<Longrightarrow> stays n) \<Longrightarrow> stays (if b then m else n)"
  by simp

lemma stays_option [stay]: "(x = None \<Longrightarrow> stays m) \<Longrightarrow> (\<And>y. x = Some y \<Longrightarrow> stays (f y)) \<Longrightarrow> stays (case x of None \<Rightarrow> m | Some y \<Rightarrow> f y)"
  by (cases x) simp_all

lemma stays_effect [stay]:
  assumes "stays m"
  shows "stays (effect f m)"
proof (rule staysI)
  fix w r w' assume a: "effect f m w = (r, w')"
  show "core w' = core w"
  proof (cases "wo_faults w")
    case Nil
    then show ?thesis using a staysD [OF assms] by (simp add: effect_def)
  next
    case (Cons x xs)
    obtain r1 w1 where "m (w\<lparr>wo_faults := xs\<rparr>) = (r1, w1)" by (cases "m (w\<lparr>wo_faults := xs\<rparr>)")
    then show ?thesis using a Cons staysD [OF assms] by (cases x) (auto simp: effect_def)
  qed
qed

lemma stays_catch [stay]:
  assumes "stays m" "\<And>e. stays (h e)"
  shows "stays (catch m h)"
proof (rule staysI)
  fix w r w'' assume a: "catch m h w = (r, w'')"
  obtain r1 w' where m: "m w = (r1, w')" by (cases "m w")
  show "core w'' = core w"
    using a m staysD [OF assms(1) m] staysD [OF assms(2)] by (cases r1) (auto simp: catch_def split: if_splits)
qed

lemma stays_and_always [stay]:
  fixes m :: "'a act"
  assumes "stays m" "stays d"
  shows "stays (and_always m d)"
proof (rule staysI)
  fix w r w'' assume a: "and_always m d w = (r, w'')"
  obtain r1 w' where m: "m w = (r1, w')" by (cases "m w")
  have *: "stays (andthen d (\<lambda>_. throw e :: 'a act))" "stays (andthen d (\<lambda>_. give x))" for e and x :: 'a
    by (intro stay assms)+
  show "core w'' = core w"
    using a m staysD [OF assms(1) m] staysD [OF *(1)] staysD [OF *(2)]
    by (cases r1) (auto simp: and_always_def split: if_splits)
qed

lemma stays_under_lease [stay]: "stays m \<Longrightarrow> stays (under_lease m)"
  unfolding under_lease_def by (intro stay)

lemma query_state: "(case rbind (q w) (\<lambda>x. Inr (x, wo_db w)) of Inl e \<Rightarrow> (Inl e, w) | Inr (x, db) \<Rightarrow> (Inr x, w\<lparr>wo_db := db\<rparr>)) = (q w, w)"
  by (cases "q w") (simp_all add: rbind_def)

lemma query_effect: "query q = effect unavailable (\<lambda>w. (q w, w))"
  unfolding query_def transaction_def query_state ..

lemma stays_query [stay]: "stays (query q)"
  unfolding query_effect by (intro stay) (simp add: stays_def)

lemma lastingD:
  assumes "lasting P" "core w' = core w"
  shows "P w' = P w"
  by (rule assms(1) [unfolded lasting_def, rule_format, OF assms(2)])

lemma triple_stays:
  assumes "stays m" "lasting P"
  shows "triple Stormy P m (\<lambda>_. P) P"
proof (rule tripleI)
  fix w r w' assume p: "P w" and m: "m w = (r, w')"
  have "P w'" unfolding lastingD [OF assms(2) staysD [OF assms(1) m]] by (rule p)
  then show "faults_in Stormy (wo_faults w') \<and> (case r of Inl e \<Rightarrow> allowed Stormy e \<and> P w' | Inr x \<Rightarrow> P w')"
    by (cases r) simp_all
qed

lemma lasting_detached: "lasting P \<Longrightarrow> detached P"
  unfolding detached_def by (intro allI) (rule lastingD, simp_all)

text \<open>A read, and a transaction.\<close>

lemma triple_query:
  assumes "detached P" "\<And>w e. P w \<Longrightarrow> q w = Inl e \<Longrightarrow> allowed c e"
  shows "triple c P (query q) (\<lambda>x w. P w \<and> (\<exists>w0. core w0 = core w \<and> q w0 = Inr x)) P"
  unfolding query_effect
proof (rule triple_effect)
  show "triple c P (\<lambda>w. (q w, w)) (\<lambda>x w. P w \<and> (\<exists>w0. core w0 = core w \<and> q w0 = Inr x)) P"
    by (rule tripleI) (use assms(2) in \<open>auto split: sum.split\<close>)
  show "allowed c (unavailable k)" if "c = Stormy \<or> c = Mild \<and> k = Unreachable" for k
    using that by (auto simp: unavailable_def mild_failures_def)
qed (use assms(1) in auto)

lemma triple_transaction:
  assumes "detached P" "\<And>w. P w \<Longrightarrow> S w" "\<And>x w. Q x w \<Longrightarrow> S w"
    and "\<And>w e. P w \<Longrightarrow> t w = Inl e \<Longrightarrow> allowed c e"
    and "\<And>w x db. P w \<Longrightarrow> t w = Inr (x, db) \<Longrightarrow> Q x (w\<lparr>wo_db := db\<rparr>)"
  shows "triple c P (transaction t) Q S"
  unfolding transaction_def
proof (rule triple_effect)
  show "triple c P (\<lambda>w. case t w of Inl e \<Rightarrow> (Inl e, w) | Inr (x, db) \<Rightarrow> (Inr x, w\<lparr>wo_db := db\<rparr>)) Q S"
    by (rule tripleI) (use assms(2,4,5) in \<open>auto split: sum.splits\<close>)
  show "allowed c (unavailable k)" if "c = Stormy \<or> c = Mild \<and> k = Unreachable" for k
    using that by (auto simp: unavailable_def mild_failures_def)
qed (use assms(1) assms(2,3) in auto)

lemma triple_under_lease:
  assumes "triple c P m Q S" "detached P" "\<And>w. P w \<Longrightarrow> S w" "detached S" "\<And>x. detached (Q x)" "\<And>x w. Q x w \<Longrightarrow> S w"
  shows "triple c P (under_lease m) Q S"
proof -
  have e: "triple c R (effect unavailable (give ())) (\<lambda>_. R) S" if "detached R" "\<And>w. R w \<Longrightarrow> S w" for R
    by (rule triple_effect [OF triple_give]) (use that in \<open>auto simp: unavailable_def mild_failures_def\<close>)
  show ?thesis unfolding under_lease_def
    by (rule triple_andthen [OF e], use assms in simp, use assms in simp, rule triple_and_always [OF assms(1)])
      (use assms e in auto)
qed

text \<open>When nothing fails.\<close>

lemma effect_clear: "wo_faults w = [] \<Longrightarrow> effect f m w = m w"
  by (simp add: effect_def)

lemma query_clear: "wo_faults w = [] \<Longrightarrow> query q w = (q w, w)"
  by (simp add: query_effect effect_clear)

end
