(* ===== verification/AcceptRepository.thy ===== *)
theory AcceptRepository
  imports Triples
begin

text \<open>
  The repository side of an acceptance: \<open>inspectAccept\<close>, \<open>materializeAcceptResult\<close> and
  \<open>settleAcceptMain\<close> of \<open>src/src/repositories/GitRepositoryAuthority.ts\<close>, on the references and the
  written commits of the world. What Git computes from its objects, which never change, is a
  parameter: the bases of a merge, the tree of a merge, the listing of a tree, the hash of a commit.
  Every command and every look at the placement is an effect.
\<close>

section \<open>Git\<close>

record git_env =
  gi_format :: string
  gi_hash :: "string \<Rightarrow> string"
  gi_bases :: "string \<Rightarrow> string \<Rightarrow> string list"
  gi_commit :: "string \<Rightarrow> string option"
  gi_tree :: "string \<Rightarrow> bool"
  gi_listing :: "string \<Rightarrow> string list option"
  gi_merge :: "string \<Rightarrow> string \<Rightarrow> string list"
  gi_trees :: tree_env
  gi_located :: "placement \<Rightarrow> bool"
  gi_node :: string
  gi_permits :: int
  gi_memberPrefix :: string

definition main_ref :: string where
  "main_ref = ''refs/heads/main''"

text \<open>How \<open>#runAcceptOperation\<close> reports the failure of a command.\<close>

definition process_failure :: "trouble \<Rightarrow> failure" where
  "process_failure k = Repository (if k = Unreachable then RUnavailable else RStateConflict)"

definition git_call :: "'a act \<Rightarrow> 'a act" where
  "git_call m = effect process_failure m"

definition git_read :: "(world \<Rightarrow> repository_error + 'a) \<Rightarrow> 'a act" where
  "git_read q = git_call (\<lambda>w. case q w of Inl e \<Rightarrow> (Inl (Repository e), w) | Inr x \<Rightarrow> (Inr x, w))"

definition require_git :: "bool \<Rightarrow> repository_error \<Rightarrow> unit act" where
  "require_git b e = check b (Repository e)"

definition read_refs :: "accept_env \<Rightarrow> (string \<times> string) list act" where
  "read_refs E = git_read (\<lambda>w. if list_all (\<lambda>(name, oid). ic_oid (ae_ids E) oid) (wo_refs w) then Inr (wo_refs w) else Inl RUnavailable)"

definition same_refs :: "(string \<times> string) list \<Rightarrow> (string \<times> string) list \<Rightarrow> bool" where
  "same_refs l r \<longleftrightarrow> length l = length r \<and> list_all (\<lambda>(name, oid). map_of r name = Some oid) l"

definition set_ref :: "string \<Rightarrow> string \<Rightarrow> (string \<times> string) list \<Rightarrow> (string \<times> string) list" where
  "set_ref name oid refs = map (\<lambda>(n, x). if n = name then (n, oid) else (n, x)) refs"

text \<open>\<open>update-ref\<close> compares with the old value and writes the new one, or fails.\<close>

definition update_ref :: "string \<Rightarrow> string \<Rightarrow> string \<Rightarrow> unit act" where
  "update_ref name new old =
     git_call (\<lambda>w. if map_of (wo_refs w) name = Some old
               then (Inr (), w\<lparr>wo_refs := set_ref name new (wo_refs w)\<rparr>)
               else (Inl (Repository RStateConflict), w))"

definition commit_bytes :: "git_env \<Rightarrow> string \<Rightarrow> world \<Rightarrow> string option" where
  "commit_bytes G oid w = (case map_of (wo_commits w) oid of Some b \<Rightarrow> Some b | None \<Rightarrow> gi_commit G oid)"

definition assert_commit :: "git_env \<Rightarrow> string \<Rightarrow> unit act" where
  "assert_commit G oid = git_read (\<lambda>w. if commit_bytes G oid w \<noteq> None then Inr () else Inl RStateConflict)"

definition assert_tree :: "git_env \<Rightarrow> string \<Rightarrow> unit act" where
  "assert_tree G oid = git_read (\<lambda>w. if gi_tree G oid then Inr () else Inl RStateConflict)"

definition write_commit :: "git_env \<Rightarrow> string \<Rightarrow> string act" where
  "write_commit G bytes =
     git_call (\<lambda>w. (Inr (gi_hash G bytes), w\<lparr>wo_commits := (gi_hash G bytes, bytes) # wo_commits w\<rparr>))"

definition read_commit :: "git_env \<Rightarrow> string \<Rightarrow> string act" where
  "read_commit G oid = git_read (\<lambda>w. case commit_bytes G oid w of None \<Rightarrow> Inl RStateConflict | Some b \<Rightarrow> Inr b)"

definition assert_accept_tree_policy :: "git_env \<Rightarrow> string \<Rightarrow> object_format \<Rightarrow> unit act" where
  "assert_accept_tree_policy G treeish f =
     git_read (\<lambda>w. case gi_listing G treeish of
         None \<Rightarrow> Inl RStateConflict
       | Some chunks \<Rightarrow> if tree_accepted (gi_trees G) f chunks then Inr () else Inl RUnsupportedTree)"

definition is_ancestor :: "accept_env \<Rightarrow> git_env \<Rightarrow> string \<Rightarrow> string \<Rightarrow> bool act" where
  "is_ancestor E G ancestor descendant =
     git_read (\<lambda>w. if list_ex (\<lambda>base. \<not> ic_oid (ae_ids E) base) (gi_bases G ancestor descendant) then Inl RStateConflict
       else Inr (ancestor \<in> set (gi_bases G ancestor descendant)))"

definition read_object_format :: "git_env \<Rightarrow> object_format act" where
  "read_object_format G =
     git_read (\<lambda>w. if gi_format G = ''sha1'' then Inr Sha1 else if gi_format G = ''sha256'' then Inr Sha256 else Inl RStateConflict)"

section \<open>Reservations and placements\<close>

text \<open>
  \<open>reserveAccept\<close> waits for a permit of the Project; when all of them are taken it waits until the
  time limit of the queue and fails. \<open>close\<close> gives the permit back.
\<close>

definition reserve_accept :: "git_env \<Rightarrow> unit act" where
  "reserve_accept G w =
     (if wo_permits w < gi_permits G then (Inr (), w\<lparr>wo_permits := wo_permits w + 1\<rparr>) else (Inl (Repository RUnavailable), w))"

definition close_reservation :: "unit act" where
  "close_reservation w = (Inr (), w\<lparr>wo_permits := wo_permits w - 1\<rparr>)"

text \<open>\<open>revalidate\<close> of \<open>RepositoryPathPolicy\<close>, with \<open>isCurrent\<close>, and \<open>resolveExisting\<close>.\<close>

definition revalidate_placement :: "accept_env \<Rightarrow> git_env \<Rightarrow> placement \<Rightarrow> unit act" where
  "revalidate_placement E G p =
     andthen (require_git (placement_lease_ok (ae_isProject E) p \<and> pl_node p = gi_node G) RStateConflict) (\<lambda>_.
       effect (\<lambda>_. Repository RUnavailable) (\<lambda>w.
         if (case ad_placement (wo_db w) of None \<Rightarrow> False | Some l \<Rightarrow> same_placement l p)
         then (Inr (), w) else (Inl (Repository RStateConflict), w)))"

definition resolve_existing :: "accept_env \<Rightarrow> git_env \<Rightarrow> placement \<Rightarrow> unit act" where
  "resolve_existing E G p =
     andthen (revalidate_placement E G p) (\<lambda>_.
       effect (\<lambda>_. Repository RUnavailable) (require_git (gi_located G p) RStateConflict))"

text \<open>
  The failures of Git and of the placement are reported above as \<open>#runAcceptOperation\<close> does; any other
  failure of the operation, such as a refused revalidation, is reported as \<open>unavailable\<close>.
\<close>

definition repository_errors :: "'a act \<Rightarrow> 'a act" where
  "repository_errors m = catch m (\<lambda>e. case e of Repository _ \<Rightarrow> throw e | _ \<Rightarrow> throw (Repository RUnavailable))"

definition run_accept_operation :: "accept_env \<Rightarrow> git_env \<Rightarrow> placement \<Rightarrow> 'a act \<Rightarrow> 'a act" where
  "run_accept_operation E G p operation =
     andthen (require_git (pl_project p = ae_project E) RInvalidPlan) (\<lambda>_.
     andthen (require_git (placement_lease_ok (ae_isProject E) p) RInvalidPlan) (\<lambda>_.
     repository_errors (
       andthen (resolve_existing E G p) (\<lambda>_.
       andthen (revalidate_placement E G p) (\<lambda>_. operation)))))"

section \<open>Plans\<close>

fun decimal :: "nat \<Rightarrow> string" where
  "decimal n = (if n < 10 then [char_of (48 + n)] else decimal (n div 10) @ [char_of (48 + n mod 10)])"

declare decimal.simps [simp del]

definition decimal_int :: "int \<Rightarrow> string" where
  "decimal_int i = (if i < 0 then CHR ''-'' # decimal (nat (- i)) else decimal (nat i))"

definition line_feed :: string where
  "line_feed = [CHR 0x0A]"

definition accept_commit_bytes :: "int accept_plan \<Rightarrow> merge_commit \<Rightarrow> repository_error + string" where
  "accept_commit_bytes p c =
     (if ap_preparedAt p mod 1000 \<noteq> 0 \<or> mc_authorName c \<noteq> author_name \<or> mc_authorEmail c \<noteq> author_email
         \<or> mc_committerName c \<noteq> author_name \<or> mc_committerEmail c \<noteq> author_email
         \<or> fst (mc_parents c) \<noteq> ap_main p \<or> snd (mc_parents c) \<noteq> ap_head p
         \<or> mc_message c \<noteq> accept_message (ap_request p)
      then Inl RInvalidPlan
      else let epoch = decimal_int (ap_preparedAt p div 1000)
        in Inr (''tree '' @ mc_tree c @ line_feed
             @ ''parent '' @ fst (mc_parents c) @ line_feed
             @ ''parent '' @ snd (mc_parents c) @ line_feed
             @ ''author '' @ mc_authorName c @ '' <'' @ mc_authorEmail c @ ''> '' @ epoch @ '' +0000'' @ line_feed
             @ ''committer '' @ mc_committerName c @ '' <'' @ mc_committerEmail c @ ''> '' @ epoch @ '' +0000'' @ line_feed
             @ line_feed @ mc_message c))"

definition valid_accept_oid :: "accept_env \<Rightarrow> string \<Rightarrow> object_format \<Rightarrow> bool" where
  "valid_accept_oid E oid f \<longleftrightarrow> ic_oid (ae_ids E) oid \<and> length oid = (case f of Sha1 \<Rightarrow> 40 | Sha256 \<Rightarrow> 64)"

definition valid_accept_personal_ref :: "accept_env \<Rightarrow> git_env \<Rightarrow> string \<Rightarrow> bool" where
  "valid_accept_personal_ref E G ref \<longleftrightarrow> take (length (gi_memberPrefix G)) ref = gi_memberPrefix G
     \<and> (let member = drop (length (gi_memberPrefix G)) ref
         in ic_member (ae_ids E) member \<and> ae_memberRef E member = ref)"

definition accept_plan_ok :: "accept_env \<Rightarrow> int accept_plan \<Rightarrow> string option \<Rightarrow> bool" where
  "accept_plan_ok E p result \<longleftrightarrow> \<not> (ap_personalRef p \<noteq> ae_memberRef E (ap_requestMember p)
     \<or> \<not> valid_accept_oid E (ap_main p) (ap_format p) \<or> \<not> valid_accept_oid E (ap_head p) (ap_format p)
     \<or> list_ex (\<lambda>r. \<not> valid_accept_oid E (ax_commit r) (ap_format p)) (ap_relations p)
     \<or> \<not> option_ok (\<lambda>oid. valid_accept_oid E oid (ap_format p)) result
     \<or> \<not> option_ok (\<lambda>c. valid_accept_oid E (mc_tree c) (ap_format p)) (ap_commit p))"

section \<open>The three operations\<close>

datatype inspection = InspectedContained object_format | InspectedMerge object_format string

record inspect_input =
  ni_head :: string
  ni_main :: string
  ni_personalRef :: string
  ni_placement :: placement
  ni_relationCommits :: "string list"

fun all_ancestors :: "accept_env \<Rightarrow> git_env \<Rightarrow> string list \<Rightarrow> string \<Rightarrow> unit act" where
  "all_ancestors E G [] head = give ()"
| "all_ancestors E G (oid # oids) head =
     andthen (is_ancestor E G oid head) (\<lambda>b.
     andthen (require_git b RStaleRelation) (\<lambda>_. all_ancestors E G oids head))"

definition assert_accept_refs :: "(string \<times> string) list \<Rightarrow> string \<Rightarrow> string \<Rightarrow> string \<Rightarrow> unit act" where
  "assert_accept_refs refs main head personalRef =
     andthen (require_git (map_of refs main_ref = Some main) RStaleMain) (\<lambda>_.
       require_git (map_of refs personalRef = Some head) RStaleHead)"

definition inspect_merge :: "accept_env \<Rightarrow> git_env \<Rightarrow> inspect_input \<Rightarrow> object_format \<Rightarrow> inspection act" where
  "inspect_merge E G i f =
     andthen (git_read (\<lambda>w. Inr (gi_merge G (ni_main i) (ni_head i)))) (\<lambda>ls.
       let tree = (case ls of [] \<Rightarrow> [] | l # _ \<Rightarrow> l)
       in andthen (require_git (ic_oid (ae_ids E) tree) RStateConflict) (\<lambda>_.
          andthen (require_git (length ls = 1) RConflicting) (\<lambda>_.
          andthen (assert_tree G tree) (\<lambda>_.
          andthen (assert_accept_tree_policy G tree f) (\<lambda>_.
            give (InspectedMerge f tree))))))"

definition inspect_accept :: "accept_env \<Rightarrow> git_env \<Rightarrow> unit act \<Rightarrow> inspect_input \<Rightarrow> inspection act" where
  "inspect_accept E G revalidateAuthority i =
     andthen (require_git (pl_project (ni_placement i) = ae_project E
       \<and> valid_accept_personal_ref E G (ni_personalRef i)) RInvalidPlan) (\<lambda>_.
     run_accept_operation E G (ni_placement i) (
       andthen (read_object_format G) (\<lambda>f.
       andthen (require_git (valid_accept_oid E (ni_main i) f \<and> valid_accept_oid E (ni_head i) f
         \<and> list_all (\<lambda>oid. valid_accept_oid E oid f) (ni_relationCommits i)) RInvalidPlan) (\<lambda>_.
       andthen (read_refs E) (\<lambda>before.
       andthen (assert_accept_refs before (ni_main i) (ni_head i) (ni_personalRef i)) (\<lambda>_.
       andthen (assert_commit G (ni_main i)) (\<lambda>_.
       andthen (assert_commit G (ni_head i)) (\<lambda>_.
       andthen (all_ancestors E G (ni_relationCommits i) (ni_head i)) (\<lambda>_.
       andthen (is_ancestor E G (ni_head i) (ni_main i)) (\<lambda>contained.
       andthen (if contained
           then andthen (assert_accept_tree_policy G (ni_main i) f) (\<lambda>_. give (InspectedContained f))
           else inspect_merge E G i f) (\<lambda>result.
       andthen (revalidate_placement E G (ni_placement i)) (\<lambda>_.
       andthen revalidateAuthority (\<lambda>_.
       andthen (read_refs E) (\<lambda>after.
       andthen (require_git (same_refs before after) RStateConflict) (\<lambda>_.
         give result)))))))))))))))"

text \<open>\<open>materializeAcceptResult\<close>: the branches of a contained and of a merged request.\<close>

definition materialize_contained ::
  "accept_env \<Rightarrow> git_env \<Rightarrow> int accept_plan \<Rightarrow> string option \<Rightarrow> object_format \<Rightarrow> (string \<times> string) list \<Rightarrow> string act" where
  "materialize_contained E G p result f refs =
     andthen (require_git (map_of refs main_ref = Some (ap_main p)) RStaleMain) (\<lambda>_.
     andthen (require_git (option_ok (\<lambda>r. r = ap_main p) result) RInvalidPlan) (\<lambda>_.
     andthen (is_ancestor E G (ap_head p) (ap_main p)) (\<lambda>b.
     andthen (require_git b RStateConflict) (\<lambda>_.
     andthen (assert_accept_tree_policy G (ap_main p) f) (\<lambda>_.
       give (ap_main p))))))"

definition given_bytes :: "int accept_plan \<Rightarrow> merge_commit \<Rightarrow> string act" where
  "given_bytes p c = (case accept_commit_bytes p c of Inl e \<Rightarrow> throw (Repository e) | Inr b \<Rightarrow> give b)"

definition materialize_merge ::
  "accept_env \<Rightarrow> git_env \<Rightarrow> int accept_plan \<Rightarrow> merge_commit \<Rightarrow> string option \<Rightarrow> object_format \<Rightarrow> (string \<times> string) list
    \<Rightarrow> string act" where
  "materialize_merge E G p c result f refs =
     andthen (given_bytes p c) (\<lambda>bytes.
     andthen (assert_tree G (mc_tree c)) (\<lambda>_.
     andthen (assert_accept_tree_policy G (mc_tree c) f) (\<lambda>_.
     andthen (revalidate_placement E G (ap_placement p)) (\<lambda>_.
     andthen (write_commit G bytes) (\<lambda>oid.
     andthen (require_git (valid_accept_oid E oid f \<and> option_ok (\<lambda>r. oid = r) result) RStateConflict) (\<lambda>_.
     andthen (read_commit G oid) (\<lambda>persisted.
     andthen (require_git (persisted = bytes) RStateConflict) (\<lambda>_.
     andthen (require_git (map_of refs main_ref = Some (ap_main p) \<or> map_of refs main_ref = Some oid) RStaleMain) (\<lambda>_.
       give oid)))))))))"

definition materialize_accept_result :: "accept_env \<Rightarrow> git_env \<Rightarrow> int accept_plan \<Rightarrow> string option \<Rightarrow> string act" where
  "materialize_accept_result E G p result =
     andthen (require_git (placement_lease_ok (ae_isProject E) (ap_placement p)) RInvalidPlan) (\<lambda>_.
     andthen (require_git (accept_plan_ok E p result) RInvalidPlan) (\<lambda>_.
     run_accept_operation E G (ap_placement p) (
       andthen (read_object_format G) (\<lambda>f.
       andthen (require_git (f = ap_format p) RStateConflict) (\<lambda>_.
       andthen (read_refs E) (\<lambda>refs.
       andthen (require_git (map_of refs (ap_personalRef p) = Some (ap_head p)) RStaleHead) (\<lambda>_.
       andthen (all_ancestors E G (map ax_commit (ap_relations p)) (ap_head p)) (\<lambda>_.
         case ap_commit p of
           None \<Rightarrow> materialize_contained E G p result f refs
         | Some c \<Rightarrow> materialize_merge E G p c result f refs))))))))"

definition result_in_repository ::
  "git_env \<Rightarrow> int accept_plan \<Rightarrow> string \<Rightarrow> object_format \<Rightarrow> unit act" where
  "result_in_repository G p result f =
     (case ap_commit p of
        None \<Rightarrow>
          andthen (require_git (result = ap_main p) RInvalidPlan) (\<lambda>_.
          andthen (assert_commit G result) (\<lambda>_.
            assert_accept_tree_policy G result f))
      | Some c \<Rightarrow>
          andthen (given_bytes p c) (\<lambda>bytes.
          andthen (assert_tree G (mc_tree c)) (\<lambda>_.
          andthen (assert_accept_tree_policy G (mc_tree c) f) (\<lambda>_.
          andthen (read_commit G result) (\<lambda>persisted.
            require_git (persisted = bytes) RStateConflict)))))"

text \<open>The move of the main branch, which may find that it is done already.\<close>

definition advance_main :: "accept_env \<Rightarrow> int accept_plan \<Rightarrow> string \<Rightarrow> (string \<times> string) list \<Rightarrow> advance_result act" where
  "advance_main E p result before =
     andthen (catch (andthen (update_ref main_ref result (ap_main p)) (\<lambda>_. give True)) (\<lambda>_. give False)) (\<lambda>moved.
     andthen (read_refs E) (\<lambda>after.
       if \<not> moved
       then (if map_of after main_ref = Some result then give AdvanceReplayed else throw (Repository RStateConflict))
       else if map_of after main_ref \<noteq> Some result \<or> length after \<noteq> length before
         \<or> list_ex (\<lambda>(name, oid). if name = main_ref then map_of after name \<noteq> Some result else map_of after name \<noteq> Some oid) before
       then throw (Repository RStateConflict)
       else give Advanced))"

definition settle_accept_main :: "accept_env \<Rightarrow> git_env \<Rightarrow> int accept_plan \<Rightarrow> string \<Rightarrow> advance_result act" where
  "settle_accept_main E G p result =
     andthen (require_git (placement_lease_ok (ae_isProject E) (ap_placement p)) RInvalidPlan) (\<lambda>_.
     andthen (require_git (ic_oid (ae_ids E) result \<and> accept_plan_ok E p (Some result)) RInvalidPlan) (\<lambda>_.
     run_accept_operation E G (ap_placement p) (
       andthen (read_object_format G) (\<lambda>f.
       andthen (require_git (f = ap_format p \<and> length result = (case f of Sha1 \<Rightarrow> 40 | Sha256 \<Rightarrow> 64)) RStateConflict) (\<lambda>_.
       andthen (result_in_repository G p result f) (\<lambda>_.
       andthen (read_refs E) (\<lambda>before.
       andthen (require_git (map_of before (ap_personalRef p) = Some (ap_head p)) RStaleHead) (\<lambda>_.
         if map_of before main_ref = Some result then give AdvanceReplayed
         else if map_of before main_ref \<noteq> Some (ap_main p) \<or> ap_commit p = None then throw (Repository RStaleMain)
         else andthen (revalidate_placement E G (ap_placement p)) (\<lambda>_.
                advance_main E p result before)))))))))"

section \<open>What the operations leave alone\<close>

lemma stays_git [stay]: "stays m \<Longrightarrow> stays (git_call m)"
  unfolding git_call_def by (intro stay)

lemma stays_git_read [stay]: "stays (git_read q)"
  unfolding git_read_def by (intro stay staysI) (auto split: sum.splits)

lemma stays_require_git [stay]: "stays (require_git b e)"
  unfolding require_git_def by (intro stay)

lemma stays_reads [stay]:
  "stays (read_refs E)" "stays (assert_commit G oid)" "stays (assert_tree G oid)" "stays (read_commit G oid)"
  "stays (assert_accept_tree_policy G oid f)" "stays (is_ancestor E G a d)" "stays (read_object_format G)"
  unfolding read_refs_def assert_commit_def assert_tree_def read_commit_def assert_accept_tree_policy_def
    is_ancestor_def read_object_format_def
  by (intro stay)+

lemma stays_write_commit [stay]: "stays (write_commit G b)"
  unfolding write_commit_def by (intro stay staysI) auto

lemma stays_permits [stay]: "stays (reserve_accept G)" "stays close_reservation"
  by (rule staysI, auto simp: reserve_accept_def close_reservation_def split: if_splits)+

lemma stays_revalidate_placement [stay]: "stays (revalidate_placement E G p)"
  unfolding revalidate_placement_def by (intro stay staysI) (auto split: if_splits)

lemma stays_repository_errors [stay]: "stays m \<Longrightarrow> stays (repository_errors m)"
  unfolding repository_errors_def by (intro stay) (auto intro: stay split: failure.split)

lemma stays_run_accept_operation [stay]: "stays m \<Longrightarrow> stays (run_accept_operation E G p m)"
  unfolding run_accept_operation_def resolve_existing_def by (intro stay)

lemma triple_repository_errors: "triple Stormy P m Q S \<Longrightarrow> triple Stormy P (repository_errors m) Q S"
  unfolding repository_errors_def by (rule triple_catch) (auto intro: triple_throw split: failure.split)

lemma stays_all_ancestors [stay]: "stays (all_ancestors E G oids head)"
  by (induction oids) (auto intro!: stay)

lemma stays_given_bytes [stay]: "stays (given_bytes p c)"
  by (simp add: given_bytes_def stay split: sum.split)

lemma stays_result_in_repository [stay]: "stays (result_in_repository G p r f)"
  unfolding result_in_repository_def by (intro stay)

lemma stays_materialize [stay]: "stays (materialize_accept_result E G p r)"
  unfolding materialize_accept_result_def materialize_contained_def materialize_merge_def by (intro stay)

lemma stays_inspect [stay]: "stays m \<Longrightarrow> stays (inspect_accept E G m i)"
  unfolding inspect_accept_def assert_accept_refs_def inspect_merge_def Let_def by (intro stay)

section \<open>The main branch\<close>

lemma map_of_set_ref: "map_of (set_ref name oid refs) n = (if n = name \<and> map_of refs n \<noteq> None then Some oid else map_of refs n)"
  by (induction refs) (auto simp: set_ref_def)

lemma length_set_ref [simp]: "length (set_ref name oid refs) = length refs"
  by (simp add: set_ref_def)

lemma triple_read_refs:
  assumes "lasting P"
  shows "triple Stormy P (read_refs E) (\<lambda>x w. P w \<and> x = wo_refs w) P"
  unfolding read_refs_def git_read_def git_call_def
proof (rule triple_effect)
  show "triple Stormy P (\<lambda>w. case if list_all (\<lambda>(name, oid). ic_oid (ae_ids E) oid) (wo_refs w) then Inr (wo_refs w) else Inl RUnavailable of
      Inl e \<Rightarrow> (Inl (Repository e), w) | Inr x \<Rightarrow> (Inr x, w)) (\<lambda>x w. P w \<and> x = wo_refs w) P"
    by (rule tripleI) (auto split: if_splits sum.splits)
qed (use lasting_detached [OF assms] in auto)

text \<open>
  Settling moves the main branch from the planned commit to the result, and nothing else; when it
  returns, the main branch is at the result.
\<close>

lemma triple_update_ref:
  assumes "lasting J" "\<And>w. J w \<Longrightarrow> map_of (wo_refs w) name = Some old \<Longrightarrow> J (w\<lparr>wo_refs := set_ref name new (wo_refs w)\<rparr>)"
  shows "triple Stormy J (update_ref name new old) (\<lambda>_. J) J"
  unfolding update_ref_def git_call_def
proof (rule triple_effect)
  show "triple Stormy J (\<lambda>w. if map_of (wo_refs w) name = Some old then (Inr (), w\<lparr>wo_refs := set_ref name new (wo_refs w)\<rparr>)
      else (Inl (Repository RStateConflict), w)) (\<lambda>_. J) J"
    by (rule tripleI) (use assms(2) in \<open>auto split: if_splits sum.splits\<close>)
qed (use lasting_detached [OF assms(1)] in auto)

lemma triple_advance_main:
  assumes J: "lasting J"
    and move: "\<And>w. J w \<Longrightarrow> map_of (wo_refs w) main_ref = Some (ap_main p) \<Longrightarrow> J (w\<lparr>wo_refs := set_ref main_ref result (wo_refs w)\<rparr>)"
  shows "triple Stormy J (advance_main E p result before) (\<lambda>_ w. J w \<and> map_of (wo_refs w) main_ref = Some result) J"
proof -
  have "triple Stormy J (catch (andthen (update_ref main_ref result (ap_main p)) (\<lambda>_. give True)) (\<lambda>_. give False)) (\<lambda>_. J) J"
    by (rule triple_catch, rule triple_andthen, rule triple_update_ref [OF J move]) (auto intro: triple_give)
  moreover have "triple Stormy J (andthen (read_refs E) (\<lambda>after.
       if \<not> moved
       then (if map_of after main_ref = Some result then give AdvanceReplayed else throw (Repository RStateConflict))
       else if map_of after main_ref \<noteq> Some result \<or> length after \<noteq> length before
         \<or> list_ex (\<lambda>(name, oid). if name = main_ref then map_of after name \<noteq> Some result else map_of after name \<noteq> Some oid) before
       then throw (Repository RStateConflict)
       else give Advanced)) (\<lambda>_ w. J w \<and> map_of (wo_refs w) main_ref = Some result) J" for moved
    by (rule triple_andthen [OF triple_read_refs [OF J]]) (auto intro!: triple_give triple_throw)
  ultimately show ?thesis unfolding advance_main_def by (rule triple_andthen)
qed

lemma triple_settle:
  assumes J: "lasting J"
    and move: "\<And>w. J w \<Longrightarrow> map_of (wo_refs w) main_ref = Some (ap_main p) \<Longrightarrow> J (w\<lparr>wo_refs := set_ref main_ref result (wo_refs w)\<rparr>)"
  shows "triple Stormy J (settle_accept_main E G p result) (\<lambda>_ w. J w \<and> map_of (wo_refs w) main_ref = Some result) J"
proof -
  let ?Q = "\<lambda>_ w. J w \<and> map_of (wo_refs w) main_ref = Some result"
  have s: "triple Stormy J m (\<lambda>_. J) J" if "stays m" for m :: "'x act" using that J by (rule triple_stays)
  have found: "triple Stormy (\<lambda>w. J w \<and> before = wo_refs w)
      (andthen (require_git (map_of before (ap_personalRef p) = Some (ap_head p)) RStaleHead) (\<lambda>_.
         if map_of before main_ref = Some result then give AdvanceReplayed
         else if map_of before main_ref \<noteq> Some (ap_main p) \<or> ap_commit p = None then throw (Repository RStaleMain)
         else andthen (revalidate_placement E G (ap_placement p)) (\<lambda>_. advance_main E p result before))) ?Q J" for before
  proof (rule triple_andthen)
    show "triple Stormy (\<lambda>w. J w \<and> before = wo_refs w) (require_git b e) (\<lambda>_ w. J w \<and> before = wo_refs w) J" for b e
      unfolding require_git_def by (rule triple_conseq [OF triple_check [where P = "\<lambda>w. J w \<and> before = wo_refs w"]]) auto
    have "triple Stormy J (andthen (revalidate_placement E G (ap_placement p)) (\<lambda>_. advance_main E p result before)) ?Q J"
      by (rule triple_andthen [OF s triple_advance_main [OF J move]]) (auto intro: stay)
    then have a: "triple Stormy (\<lambda>w. J w \<and> before = wo_refs w)
        (andthen (revalidate_placement E G (ap_placement p)) (\<lambda>_. advance_main E p result before)) ?Q J"
      by (rule triple_conseq) auto
    show "triple Stormy (\<lambda>w. J w \<and> before = wo_refs w)
        (if map_of before main_ref = Some result then give AdvanceReplayed
         else if map_of before main_ref \<noteq> Some (ap_main p) \<or> ap_commit p = None then throw (Repository RStaleMain)
         else andthen (revalidate_placement E G (ap_placement p)) (\<lambda>_. advance_main E p result before)) ?Q J"
      by (auto intro: triple_give triple_throw a)
  qed
  show ?thesis
    unfolding settle_accept_main_def run_accept_operation_def resolve_existing_def
    by (intro triple_andthen [OF s] triple_repository_errors triple_andthen [OF triple_read_refs [OF J] found]) (intro stay)+
qed

end
