(* ===== verification/AcceptCoordinator.thy ===== *)
theory AcceptCoordinator
  imports AcceptRepository
begin

text \<open>
  The coordinator of acceptances, \<open>src/src/project-authority/acceptance/ProjectAcceptCoordinator.ts\<close>:
  \<open>accept\<close> and \<open>recoverProject\<close>, over the admission of writes, the journals of acceptances and the
  repository.
\<close>

section \<open>Requests\<close>

record accept_request =
  ar_head :: string
  ar_main :: string
  ar_revision :: int
  ar_tickets :: "(int \<times> string) list"
  ar_key :: string
  ar_request :: string

text \<open>
  What the process supplies: the digest of the fields of a request, the clock in milliseconds and the
  operation identifiers, by the number of earlier uses.
\<close>

record process_env =
  pe_digest :: "accept_request \<Rightarrow> string"
  pe_clock :: "nat \<Rightarrow> int"
  pe_operation :: "nat \<Rightarrow> string"

definition canonical_tickets :: "(int \<times> string) list \<Rightarrow> (int \<times> string) list" where
  "canonical_tickets ts = sort_key snd ts"

text \<open>The digest is of the fields without the key; the Project is that of the coordinator.\<close>

definition accept_fingerprint :: "process_env \<Rightarrow> accept_request \<Rightarrow> string" where
  "accept_fingerprint P r = pe_digest P (r\<lparr>ar_tickets := canonical_tickets (ar_tickets r), ar_key := []\<rparr>)"

definition operation_time :: "process_env \<Rightarrow> bool \<Rightarrow> int act" where
  "operation_time P wholeSecond w =
     (let now = pe_clock P (wo_ticks w)
      in (Inr (if wholeSecond then now - now mod 1000 else now), w\<lparr>wo_ticks := wo_ticks w + 1\<rparr>))"

definition domain_error :: "string \<Rightarrow> string \<Rightarrow> 'a act" where
  "domain_error code reason = throw (Domain code reason)"

definition resolving_tickets :: "request_view \<Rightarrow> (int \<times> string) list" where
  "resolving_tickets q =
     sort_key snd (map (\<lambda>v. (lv_ticketRevision v, lv_ticket v)) (filter (\<lambda>v. lv_kind v = Resolves) (qv_relations q)))"

definition validate_request :: "accept_request \<Rightarrow> request_view option \<Rightarrow> failure + request_view" where
  "validate_request r found =
     (case found of
        None \<Rightarrow> Inl (Domain ''request-not-open'' ''accept-request-not-open'')
      | Some q \<Rightarrow>
          if qv_status q \<noteq> Open then Inl (Domain ''request-not-open'' ''accept-request-not-open'')
          else if qv_head q \<noteq> ar_head r then Inl (Domain ''stale-request-head'' ''accept-request-head-mismatch'')
          else if qv_revision q \<noteq> ar_revision r
          then Inl (Domain ''stale-request-metadata'' ''accept-request-revision-mismatch'')
          else if resolving_tickets q \<noteq> canonical_tickets (ar_tickets r)
          then Inl (Domain ''stale-ticket'' ''accept-resolving-ticket-mismatch'')
          else if list_ex (\<lambda>v. lv_state v \<noteq> Pending) (qv_relations q)
          then Inl (Domain ''stale-request-metadata'' ''accept-relation-state-mismatch'')
          else Inr q)"

definition planned_relation :: "relation_view \<Rightarrow> accept_relation" where
  "planned_relation v = \<lparr>ax_commit = lv_commit v, ax_kind = lv_kind v, ax_relation = lv_id v,
     ax_ticket = lv_ticket v, ax_ticketRevision = lv_ticketRevision v\<rparr>"

definition prepare_plan ::
  "accept_env \<Rightarrow> write_facts \<Rightarrow> string \<Rightarrow> inspection \<Rightarrow> string \<Rightarrow> int \<Rightarrow> accept_request \<Rightarrow> request_view \<Rightarrow> int accept_plan" where
  "prepare_plan E facts fingerprint inspected operation prepared r q =
     \<lparr>ap_actor = wf_member facts, ap_head = ar_head r, ap_main = ar_main r, ap_revision = ar_revision r,
      ap_key = ar_key r, ap_format = (case inspected of InspectedContained f \<Rightarrow> f | InspectedMerge f _ \<Rightarrow> f),
      ap_operation = operation, ap_personalRef = ae_memberRef E (qv_member q), ap_placement = wf_placement facts,
      ap_preparedAt = prepared, ap_relations = sort_key ax_relation (map planned_relation (qv_relations q)),
      ap_fingerprint = fingerprint, ap_request = ar_request r, ap_requestMember = qv_member q,
      ap_commit = (case inspected of
          InspectedContained _ \<Rightarrow> None
        | InspectedMerge _ tree \<Rightarrow>
            Some \<lparr>mc_authorEmail = author_email, mc_authorName = author_name, mc_committerEmail = author_email,
              mc_committerName = author_name, mc_message = accept_message (ar_request r),
              mc_parents = (ar_main r, ar_head r), mc_tree = tree\<rparr>)\<rparr>"

definition classifiable :: "failure \<Rightarrow> bool" where
  "classifiable e \<longleftrightarrow> (case e of
       Repository x \<Rightarrow> x \<noteq> RUnavailable
     | Coordination x \<Rightarrow> x = InvalidRecord \<or> x = StateConflict
     | _ \<Rightarrow> False)"

section \<open>Errors\<close>

text \<open>\<open>mapPublicError\<close>: every failure of \<open>accept\<close> becomes a code and a reason.\<close>

fun public_error :: "failure \<Rightarrow> string \<times> string" where
  "public_error (Domain code reason) = (code, reason)"
| "public_error (Repository e) =
     (case e of
        RConflicting \<Rightarrow> (''content-conflict'', ''accept-merge-conflicting'')
      | RStaleMain \<Rightarrow> (''stale-main'', ''accept-main-mismatch'')
      | RStaleHead \<Rightarrow> (''stale-request-head'', ''accept-personal-ref-mismatch'')
      | RStaleRelation \<Rightarrow> (''stale-request-metadata'', ''accept-relation-commit-not-contained'')
      | RUnsupportedTree \<Rightarrow> (''operation-failed'', ''accept-merge-tree-unsupported'')
      | RInvalidPlan \<Rightarrow> (''authority-not-synchronized'', ''accept-repository-state-conflict'')
      | RStateConflict \<Rightarrow> (''authority-not-synchronized'', ''accept-repository-state-conflict'')
      | RUnavailable \<Rightarrow> (''operation-failed'', ''accept-repository-unavailable''))"
| "public_error (Admission e) =
     (case e of
        AuthorizationDenied \<Rightarrow> (''authorization-denied'', ''accept-member-not-authorized'')
      | AdmissionRecoveryRequired \<Rightarrow> (''acceptance-recovery-required'', ''accept-project-recovery-required'')
      | AdmissionStateConflict \<Rightarrow> (''authority-not-synchronized'', ''accept-authority-stale'')
      | AdmissionDependencyFailed \<Rightarrow> (''operation-failed'', ''accept-admission-unavailable''))"
| "public_error (Coordination e) =
     (case e of
        StateConflict \<Rightarrow> (''authority-not-synchronized'', ''accept-state-conflict'')
      | InvalidRecord \<Rightarrow> (''authority-integrity-error'', ''accept-persistence-invalid'')
      | _ \<Rightarrow> (''operation-failed'', ''accept-persistence-unavailable''))"
| "public_error (Coordinator e) =
     (case e of
        CoordinatorRecoveryRequired \<Rightarrow> (''acceptance-recovery-required'', ''accept-project-recovery-required'')
      | CoordinatorDependencyFailed \<Rightarrow> (''operation-failed'', ''accept-operation-failed''))"
| "public_error (Recovery e) = (''operation-failed'', ''accept-operation-failed'')"
| "public_error (RequestRepository e) = (''operation-failed'', ''accept-operation-failed'')"
| "public_error Crashed = (''operation-failed'', ''accept-operation-failed'')"

definition map_public_error :: "failure \<Rightarrow> 'a act" where
  "map_public_error e = throw (Domain (fst (public_error e)) (snd (public_error e)))"

section \<open>Recovery\<close>

text \<open>Transactions under the lease of a recovery, which nothing revalidates.\<close>

definition persist :: "(accept_db \<Rightarrow> coord_error + 'a \<times> accept_db) \<Rightarrow> 'a act" where
  "persist t = transaction (\<lambda>w. coordination (t (wo_db w)))"

definition read_record :: "accept_env \<Rightarrow> string \<Rightarrow> accept_journal act" where
  "read_record E operation =
     andthen (query (\<lambda>w. coordination (get_accept E operation (wo_db w)))) (\<lambda>x.
       case x of None \<Rightarrow> throw (Coordinator CoordinatorRecoveryRequired) | Some j \<Rightarrow> give j)"

definition required_result :: "accept_journal \<Rightarrow> string act" where
  "required_result j = (case aj_result j of None \<Rightarrow> throw (Coordinator CoordinatorRecoveryRequired) | Some r \<Rightarrow> give r)"

text \<open>\<open>#classify\<close>, for a record in one of the three open phases.\<close>

definition classify :: "accept_env \<Rightarrow> process_env \<Rightarrow> accept_journal \<Rightarrow> unit act" where
  "classify E P record =
     (if \<not> active_phase (aj_phase record) then throw (Coordinator CoordinatorRecoveryRequired)
      else andthen (operation_time P False) (\<lambda>t.
           andthen (persist (mark_recovery_required E (aj_phase record) (ap_operation (aj_plan record)) (Stamp t))) (\<lambda>_.
             give ())))"

definition recovering :: "accept_env \<Rightarrow> process_env \<Rightarrow> accept_journal \<Rightarrow> 'a act \<Rightarrow> 'a act" where
  "recovering E P record m = catch m (\<lambda>e.
     if \<not> classifiable e then throw e
     else andthen (classify E P record) (\<lambda>_. throw (Coordinator CoordinatorRecoveryRequired)))"

text \<open>The steps of the body of \<open>#recoverProject\<close>; the record they leave is the one of the next step.\<close>

definition recover_prepared :: "accept_env \<Rightarrow> git_env \<Rightarrow> process_env \<Rightarrow> accept_journal \<Rightarrow> accept_journal act" where
  "recover_prepared E G P record =
     (if aj_phase record \<noteq> APrepared then give record
      else andthen (materialize_accept_result E G (aj_plan record) (aj_result record)) (\<lambda>result.
           andthen (operation_time P False) (\<lambda>t.
           andthen (persist (persist_result E \<lparr>pi_operation = ap_operation (aj_plan record), pi_result = result, pi_updatedAt = Stamp t\<rparr>)) (\<lambda>_.
             read_record E (ap_operation (aj_plan record))))))"

definition recover_persisted :: "accept_env \<Rightarrow> git_env \<Rightarrow> process_env \<Rightarrow> accept_journal \<Rightarrow> accept_journal act" where
  "recover_persisted E G P record =
     (if aj_phase record \<noteq> AResultPersisted then give record
      else andthen (required_result record) (\<lambda>result.
           andthen (materialize_accept_result E G (aj_plan record) (Some result)) (\<lambda>_.
           andthen (settle_accept_main E G (aj_plan record) result) (\<lambda>_.
           andthen (operation_time P False) (\<lambda>t.
           andthen (persist (mark_main_updated E (ap_operation (aj_plan record)) (Stamp t))) (\<lambda>_.
             read_record E (ap_operation (aj_plan record))))))))"

definition recover_updated :: "accept_env \<Rightarrow> git_env \<Rightarrow> process_env \<Rightarrow> accept_journal \<Rightarrow> unit act" where
  "recover_updated E G P record =
     (if aj_phase record \<noteq> AMainUpdated then give ()
      else andthen (required_result record) (\<lambda>result.
           andthen (settle_accept_main E G (aj_plan record) result) (\<lambda>_.
           andthen (operation_time P False) (\<lambda>t.
           andthen (persist (complete_accept E (ap_operation (aj_plan record)) (Stamp t))) (\<lambda>_.
             give ())))))"

text \<open>Each step classifies its failures with the record that it has read last.\<close>

definition recover_record :: "accept_env \<Rightarrow> git_env \<Rightarrow> process_env \<Rightarrow> accept_journal \<Rightarrow> unit act" where
  "recover_record E G P record =
     andthen (recovering E P record (recover_prepared E G P record)) (\<lambda>record1.
     andthen (recovering E P record1 (recover_persisted E G P record1)) (\<lambda>record2.
       recovering E P record2 (recover_updated E G P record2)))"

definition with_reservation :: "git_env \<Rightarrow> 'a act \<Rightarrow> 'a act" where
  "with_reservation G m = andthen (reserve_accept G) (\<lambda>_. and_always m close_reservation)"

text \<open>Errors other than the three that callers know become a failed dependency.\<close>

definition known_errors :: "'a act \<Rightarrow> 'a act" where
  "known_errors m = catch m (\<lambda>e.
     case e of
       Coordinator _ \<Rightarrow> throw e
     | Coordination _ \<Rightarrow> throw e
     | Repository _ \<Rightarrow> throw e
     | _ \<Rightarrow> throw (Coordinator CoordinatorDependencyFailed))"

definition recover_accept :: "accept_env \<Rightarrow> git_env \<Rightarrow> process_env \<Rightarrow> unit act" where
  "recover_accept E G P =
     with_reservation G (under_lease (known_errors (
       andthen (query (\<lambda>w. coordination (get_open_accept E (wo_db w)))) (\<lambda>found.
         case found of
           None \<Rightarrow> give ()
         | Some record \<Rightarrow>
             if aj_phase record = ARecoveryRequired then throw (Coordinator CoordinatorRecoveryRequired)
             else recover_record E G P record))))"

section \<open>Acceptance\<close>

definition within :: "accept_env \<Rightarrow> write_facts \<Rightarrow> string option \<Rightarrow> (accept_db \<Rightarrow> coord_error + 'a \<times> accept_db) \<Rightarrow> 'a act" where
  "within E facts operation t = transact E facts operation (\<lambda>db. coordination (t db))"

definition looking :: "(accept_db \<Rightarrow> coord_error + 'a) \<Rightarrow> accept_db \<Rightarrow> coord_error + 'a \<times> accept_db" where
  "looking q db = rbind (q db) (\<lambda>x. Inr (x, db))"

text \<open>The transaction that prepares the plan validates the request again.\<close>

definition prepare_validated :: "accept_env \<Rightarrow> accept_request \<Rightarrow> int accept_plan \<Rightarrow> accept_db \<Rightarrow> failure + unit \<times> accept_db" where
  "prepare_validated E r p db =
     rbind (coordination (find_request (ae_collab E) (ar_request r) (ad_collab db))) (\<lambda>found.
     rbind (validate_request r found) (\<lambda>_.
     rbind (coordination (prepare_accept E (row_input p) db)) (\<lambda>(_, db').
       Inr ((), db'))))"

definition decoded_response :: "accept_env \<Rightarrow> response \<Rightarrow> response act" where
  "decoded_response E x =
     (case decode_response E x of
        Inl _ \<Rightarrow> domain_error ''authority-integrity-error'' ''accept-idempotency-response-invalid''
      | Inr r \<Rightarrow> give r)"

text \<open>From the prepared plan to the response.\<close>

definition execute_plan :: "accept_env \<Rightarrow> git_env \<Rightarrow> process_env \<Rightarrow> write_facts \<Rightarrow> int accept_plan \<Rightarrow> response act" where
  "execute_plan E G P facts p =
     andthen (materialize_accept_result E G p None) (\<lambda>result.
     andthen (operation_time P False) (\<lambda>t1.
     andthen (within E facts (Some (ap_operation p))
       (persist_result E \<lparr>pi_operation = ap_operation p, pi_result = result, pi_updatedAt = Stamp t1\<rparr>)) (\<lambda>_.
     andthen (settle_accept_main E G p result) (\<lambda>_.
     andthen (operation_time P False) (\<lambda>t2.
     andthen (within E facts (Some (ap_operation p)) (mark_main_updated E (ap_operation p) (Stamp t2))) (\<lambda>_.
     andthen (operation_time P False) (\<lambda>t3.
       within E facts (Some (ap_operation p)) (complete_accept E (ap_operation p) (Stamp t3)))))))))"

definition accept_new ::
  "accept_env \<Rightarrow> git_env \<Rightarrow> process_env \<Rightarrow> accept_request \<Rightarrow> write_facts \<Rightarrow> response act" where
  "accept_new E G P r facts =
     andthen (check (wf_manager facts) (Domain ''authorization-denied'' ''accept-manager-required'')) (\<lambda>_.
     andthen (within E facts None (looking (\<lambda>db. find_request (ae_collab E) (ar_request r) (ad_collab db)))) (\<lambda>found.
     andthen (lift (validate_request r found)) (\<lambda>q.
     andthen (check (wf_main facts = ar_main r) (Domain ''stale-main'' ''accept-expected-main-mismatch'')) (\<lambda>_.
     andthen (inspect_accept E G (transaction (\<lambda>w. rbind (revalidate E facts None w) (\<lambda>_. Inr ((), wo_db w))))
       \<lparr>ni_head = ar_head r, ni_main = ar_main r, ni_personalRef = ae_memberRef E (qv_member q),
        ni_placement = wf_placement facts, ni_relationCommits = map lv_commit (qv_relations q)\<rparr>) (\<lambda>inspected.
     andthen (\<lambda>w. (Inr (pe_operation P (wo_ticks w)), w)) (\<lambda>operation.
     andthen (check (ic_opaque (ae_ids E) operation) (Coordinator CoordinatorDependencyFailed)) (\<lambda>_.
     andthen (operation_time P True) (\<lambda>prepared.
       let p = prepare_plan E facts (accept_fingerprint P r) inspected operation prepared r q
       in andthen (transact E facts None (prepare_validated E r p)) (\<lambda>_.
            execute_plan E G P facts p)))))))))"

definition accept_write ::
  "accept_env \<Rightarrow> git_env \<Rightarrow> process_env \<Rightarrow> accept_request \<Rightarrow> write_facts \<Rightarrow> response act" where
  "accept_write E G P r facts =
     andthen (within E facts None (looking (\<lambda>db. find_result (ae_collab E)
       \<lparr>ii_key = ar_key r, ii_member = wf_member facts, ii_operation = ''acceptRequest'',
        ii_fingerprint = accept_fingerprint P r\<rparr> (ad_collab db)))) (\<lambda>found.
       case found of
         Conflict \<Rightarrow> domain_error ''idempotency-conflict'' ''accept-idempotency-conflict''
       | Replay x \<Rightarrow> decoded_response E x
       | Missing \<Rightarrow> accept_new E G P r facts)"

definition accept :: "accept_env \<Rightarrow> git_env \<Rightarrow> process_env \<Rightarrow> accept_request \<Rightarrow> response act" where
  "accept E G P r =
     catch (with_reservation G (run_write E (recover_accept E G P) (accept_write E G P r))) map_public_error"

end
