(* ===== verification/AcceptSafety.thy ===== *)
theory AcceptSafety
  imports AcceptCoordinator
begin

text \<open>
  The acceptances of a Project over time: the main branch of the repository and the journals of the
  database agree, whatever fails. Every action of the coordinator, of the admission and of the
  repository keeps the agreement (the triples of theory \<open>Triples\<close>); theory \<open>ProjectServer\<close> draws
  the conclusion for every history of a server.
\<close>

section \<open>The main branch and the journals\<close>

text \<open>The phase an open journal has reached, also when it needs attention.\<close>

definition open_phase :: "accept_journal \<Rightarrow> accept_phase" where
  "open_phase j = (case aj_recoveryFrom j of None \<Rightarrow> aj_phase j | Some p \<Rightarrow> p)"

definition main_agrees :: "accept_db \<Rightarrow> (string \<times> string) list \<Rightarrow> bool" where
  "main_agrees db refs \<longleftrightarrow>
     (case ad_project db of
        None \<Rightarrow> False
      | Some pj \<Rightarrow>
          (case open_accepts db of
             [] \<Rightarrow> map_of refs main_ref = Some (pj_main pj)
           | j # _ \<Rightarrow> pj_main pj = ap_main (aj_plan j)
               \<and> (open_phase j \<noteq> AMainUpdated \<and> map_of refs main_ref = Some (ap_main (aj_plan j))
                 \<or> open_phase j \<noteq> APrepared \<and> aj_result j \<noteq> None \<and> map_of refs main_ref = aj_result j)))"

definition accept_inv :: "accept_env \<Rightarrow> string \<Rightarrow> accept_db \<Rightarrow> world \<Rightarrow> bool" where
  "accept_inv E m d w \<longleftrightarrow> accept_ok E m (wo_db w) \<and> accept_grows d (wo_db w) \<and> main_agrees (wo_db w) (wo_refs w)"

lemma inv_step:
  "accept_inv E m d w \<Longrightarrow> accept_sound E m (wo_db w) db \<Longrightarrow> main_agrees db (wo_refs w) \<Longrightarrow> accept_inv E m d (w\<lparr>wo_db := db\<rparr>)"
  using accept_grows_trans by (auto simp: accept_inv_def accept_sound_def)

text \<open>What the operations do with the open journal.\<close>

lemma schedule_open:
  "schedule_recovery operation s c db = Inr db' \<Longrightarrow>
     open_accepts db' = open_accepts db \<and> ad_project db' = ad_project db \<and> ad_journals db' = ad_journals db"
  using scheduledD by (fastforce simp: open_accepts_def)

lemma open_last: "open_accepts (db\<lparr>ad_journals := completed_accepts d @ [j]\<rparr>) = (if aj_phase j = ACompleted then [] else [j])"
  by (auto simp: open_accepts_def completed_accepts_def filter_empty_conv)

lemma ok_shape: "accept_ok E m db \<Longrightarrow> journals_shape db" "accept_ok E m db \<Longrightarrow> accept_tables_ok E m db"
  by (simp_all add: accept_ok_def accept_tables_ok_def)

lemma prepare_open:
  assumes r: "prepare_accept E i db = Inr (x, db')" and ok: "accept_ok E m db"
  obtains (again) p where "canonical_prepare E i = Inr p" "open_accepts db' = open_accepts db" "ad_project db' = ad_project db"
      "ad_journals db' = ad_journals db" "\<exists>j\<in>set (ad_journals db). aj_plan j = p"
  | (made) p pj where "canonical_prepare E i = Inr p" "open_accepts db = []" "ad_project db = Some pj" "ad_project db' = Some pj"
      "pj_main pj = ap_main p" "open_accepts db' = [\<lparr>aj_plan = p, aj_phase = APrepared, aj_recoveryFrom = None, aj_result = None,
        aj_updatedAt = ap_preparedAt p\<rparr>]"
      "ad_journals db' = ad_journals db @ open_accepts db'"
proof -
  obtain p existing where p: "canonical_prepare E i = Inr p" "get_accept E (ap_operation p) db = Inr existing"
    and rest: "(case existing of
         Some j \<Rightarrow>
           rbind (ensure (aj_plan j = p) StateConflict) (\<lambda>_.
             if active_phase (aj_phase j)
             then rbind (schedule_recovery (ap_operation p) (aj_updatedAt j) (ap_preparedAt p) db) (\<lambda>db'. Inr (PutReplayed, db'))
             else Inr (PutReplayed, db))
       | None \<Rightarrow>
           rbind (get_open_accept E db) (\<lambda>open.
           rbind (ensure (open = None) StateConflict) (\<lambda>_.
           rbind (live_fences E p db) (\<lambda>_.
           let j = \<lparr>aj_plan = p, aj_phase = APrepared, aj_recoveryFrom = None, aj_result = None,
                    aj_updatedAt = ap_preparedAt p\<rparr>
           in rbind (insert_row (accept_insertable j db) j (ad_journals db)) (\<lambda>js.
              rbind (schedule_recovery (ap_operation p) (ap_preparedAt p) (ap_preparedAt p) (db\<lparr>ad_journals := js\<rparr>)) (\<lambda>db'.
                Inr (Created, db'))))))) = Inr (x, db')"
    using r unfolding prepare_accept_def by (auto simp only: rbind_Inr)
  show thesis
  proof (cases existing)
    case (Some j)
    have "present_accept (get_accept E (ap_operation p) db) = Inr j" using p(2) Some by (simp add: present_accept_def)
    note j = get_acceptD [OF this ok_shape(2) [OF ok]]
    have "aj_plan j = p" and "db' = db \<or> schedule_recovery (ap_operation p) (aj_updatedAt j) (ap_preparedAt p) db = Inr db'"
      using rest Some by (auto simp: rbind_Inr ensure_Inr split: if_splits)
    then show thesis using schedule_open j(1) p(1) by (intro again [of p]) auto
  next
    case None
    define j where "j = \<lparr>aj_plan = p, aj_phase = APrepared, aj_recoveryFrom = None, aj_result = None,
                    aj_updatedAt = ap_preparedAt p\<rparr>"
    have i: "accept_insertable j db" "live_fences E p db = Inr ()"
      "schedule_recovery (ap_operation p) (ap_preparedAt p) (ap_preparedAt p) (db\<lparr>ad_journals := ad_journals db @ [j]\<rparr>) = Inr db'"
      using rest None unfolding j_def [symmetric] by (auto simp: rbind_Inr Let_def insert_row_Inr)
    have o: "open_accepts db = []" using i(1) by (simp add: accept_insertable_def j_def)
    obtain pj where pj: "ad_project db = Some pj" "pj_main pj = ap_main p"
      using i(2) by (auto simp: live_fences_def project_fence_def rbind_Inr split: option.splits if_splits)
    have "open_accepts (db\<lparr>ad_journals := ad_journals db @ [j]\<rparr>) = [j]" using o by (simp add: open_accepts_def j_def)
    then show thesis using made [OF p(1) o pj(1) _ pj(2)] schedule_open [OF i(3)] pj(1) unfolding j_def by simp
  qed
qed

lemma prepare_agrees:
  assumes r: "prepare_accept E i db = Inr (x, db')" and ok: "accept_ok E m db" and a: "main_agrees db refs"
  shows "main_agrees db' refs"
  by (rule prepare_open [OF r ok]) (use a in \<open>auto simp: main_agrees_def open_phase_def split: option.splits\<close>)

text \<open>An advance changes the open journal and not its plan; the Project stays as it is.\<close>

lemma advance_open:
  assumes u: "update_accept operation P f db = Inr db1" and ok: "accept_ok E m db"
    and P: "\<And>j. P j \<Longrightarrow> aj_phase j \<noteq> ACompleted" "\<And>j. aj_phase (f j) \<noteq> ACompleted"
  obtains j where "open_accepts db = [j]" "P j" "has_operation operation j" "accept_row_ok j"
    "open_accepts db1 = [f j]" "ad_project db1 = ad_project db"
proof -
  obtain j where j: "ad_journals db = completed_accepts db @ [j]" "open_accepts db = [j]" "P j" "has_operation operation j"
    "db1 = db\<lparr>ad_journals := completed_accepts db @ [f j]\<rparr>"
    using update_acceptD [OF u ok_shape(1) [OF ok] P(1)] by metis
  have "accept_row_ok j" using ok_shape(2) [OF ok] j(1) by (auto simp: accept_tables_ok_def stored_ok_def)
  then show thesis using that j P(2) by (simp add: open_last)
qed

lemma agrees_cong:
  "open_accepts db' = open_accepts db \<Longrightarrow> ad_project db' = ad_project db \<Longrightarrow> main_agrees db' refs = main_agrees db refs"
  by (auto simp: main_agrees_def split: option.splits)

lemma prepared_row: "accept_row_ok j \<Longrightarrow> aj_phase j = APrepared \<Longrightarrow> open_phase j = APrepared"
  "accept_row_ok j \<Longrightarrow> active_phase (aj_phase j) \<Longrightarrow> aj_recoveryFrom j = None"
  by (auto simp: accept_row_ok_def open_phase_def active_phase_def split: option.splits)

lemma persist_agrees:
  assumes r: "persist_result E i db = Inr (x, db')" and ok: "accept_ok E m db" and a: "main_agrees db refs"
  shows "main_agrees db' refs"
    and "\<exists>j. open_accepts db' = [j] \<and> has_operation (pi_operation i) j \<and> aj_phase j = AResultPersisted
      \<and> aj_result j = Some (pi_result i) \<and> (\<exists>k\<in>set (ad_journals db). aj_plan k = aj_plan j)"
proof -
  obtain n j where n: "present_accept (get_accept E (pi_operation i) db) = Inr j"
    and cases: "aj_phase j = AResultPersisted \<and> aj_result j = Some (pi_result i)
          \<and> schedule_recovery (pi_operation i) n (ap_preparedAt (aj_plan j)) db = Inr db'
      \<or> (\<exists>db1. update_accept (pi_operation i) (\<lambda>r. aj_phase r = APrepared \<and> aj_result r = None)
              (\<lambda>r. r\<lparr>aj_phase := AResultPersisted, aj_result := Some (pi_result i), aj_updatedAt := n\<rparr>) db = Inr db1
          \<and> schedule_recovery (pi_operation i) n (ap_preparedAt (aj_plan j)) db1 = Inr db')"
    using r unfolding persist_result_def by (auto simp: rbind_Inr split: if_splits)
  note j = get_acceptD [OF n ok_shape(2) [OF ok]]
  have l: "length (open_accepts db) \<le> 1" using ok_shape(1) [OF ok] by (simp add: journals_shape_def)
  have "main_agrees db' refs \<and> (\<exists>j. open_accepts db' = [j] \<and> has_operation (pi_operation i) j \<and> aj_phase j = AResultPersisted
      \<and> aj_result j = Some (pi_result i) \<and> (\<exists>k\<in>set (ad_journals db). aj_plan k = aj_plan j))"
    using cases
  proof (elim disjE exE conjE)
    assume s: "aj_phase j = AResultPersisted" "aj_result j = Some (pi_result i)"
      "schedule_recovery (pi_operation i) n (ap_preparedAt (aj_plan j)) db = Inr db'"
    have "j \<in> set (open_accepts db)" using j(1) s(1) by (simp add: open_accepts_def)
    then have "open_accepts db = [j]" using l by (cases "open_accepts db") auto
    then show ?thesis using s j a schedule_open [OF s(3)] agrees_cong [of db' db refs] by auto
  next
    fix db1
    assume u: "update_accept (pi_operation i) (\<lambda>r. aj_phase r = APrepared \<and> aj_result r = None)
        (\<lambda>r. r\<lparr>aj_phase := AResultPersisted, aj_result := Some (pi_result i), aj_updatedAt := n\<rparr>) db = Inr db1"
      and s: "schedule_recovery (pi_operation i) n (ap_preparedAt (aj_plan j)) db1 = Inr db'"
    obtain k :: accept_journal where k: "open_accepts db = [k]" "aj_phase k = APrepared \<and> aj_result k = None"
      "has_operation (pi_operation i) k" "accept_row_ok k"
      "open_accepts db1 = [k\<lparr>aj_phase := AResultPersisted, aj_result := Some (pi_result i), aj_updatedAt := n\<rparr>]"
      "ad_project db1 = ad_project db"
      by (rule advance_open [OF u ok]) auto
    have "k \<in> set (ad_journals db)" using arg_cong [OF k(1), of set] by (auto simp: open_accepts_def)
    moreover have "open_phase k = APrepared" "aj_recoveryFrom k = None" using prepared_row k by (auto simp: active_phase_def)
    ultimately show ?thesis using k a schedule_open [OF s]
      by (auto simp: main_agrees_def has_operation_def open_phase_def split: option.splits)
  qed
  then show "main_agrees db' refs"
    "\<exists>j. open_accepts db' = [j] \<and> has_operation (pi_operation i) j \<and> aj_phase j = AResultPersisted
      \<and> aj_result j = Some (pi_result i) \<and> (\<exists>k\<in>set (ad_journals db). aj_plan k = aj_plan j)" by auto
qed

lemma mark_main_agrees:
  assumes r: "mark_main_updated E operation u db = Inr (x, db')" and ok: "accept_ok E m db" and a: "main_agrees db refs"
    and main: "\<And>j. open_accepts db = [j] \<Longrightarrow> has_operation operation j \<Longrightarrow> map_of refs main_ref = aj_result j"
  shows "main_agrees db' refs"
proof -
  obtain n j where n: "present_accept (get_accept E operation db) = Inr j"
    and cases: "aj_phase j = AMainUpdated \<and> schedule_recovery operation n (ap_preparedAt (aj_plan j)) db = Inr db'
      \<or> (\<exists>db1. update_accept operation (\<lambda>r. aj_phase r = AResultPersisted \<and> aj_result r \<noteq> None)
              (\<lambda>r. r\<lparr>aj_phase := AMainUpdated, aj_updatedAt := n\<rparr>) db = Inr db1
          \<and> schedule_recovery operation n (ap_preparedAt (aj_plan j)) db1 = Inr db')"
    using r unfolding mark_main_updated_def by (auto simp: rbind_Inr split: if_splits)
  from cases show ?thesis
  proof (elim disjE exE conjE)
    assume "schedule_recovery operation n (ap_preparedAt (aj_plan j)) db = Inr db'"
    then show ?thesis using a schedule_open agrees_cong by metis
  next
    fix db1
    assume u: "update_accept operation (\<lambda>r. aj_phase r = AResultPersisted \<and> aj_result r \<noteq> None)
        (\<lambda>r. r\<lparr>aj_phase := AMainUpdated, aj_updatedAt := n\<rparr>) db = Inr db1"
      and s: "schedule_recovery operation n (ap_preparedAt (aj_plan j)) db1 = Inr db'"
    obtain k :: accept_journal where k: "open_accepts db = [k]" "aj_phase k = AResultPersisted \<and> aj_result k \<noteq> None"
      "has_operation operation k" "accept_row_ok k" "open_accepts db1 = [k\<lparr>aj_phase := AMainUpdated, aj_updatedAt := n\<rparr>]"
      "ad_project db1 = ad_project db"
      by (rule advance_open [OF u ok]) auto
    moreover have "aj_recoveryFrom k = None" using prepared_row k by (auto simp: active_phase_def)
    ultimately show ?thesis using a main schedule_open [OF s]
      by (auto simp: main_agrees_def open_phase_def split: option.splits)
  qed
qed

lemma mark_recovery_agrees:
  assumes r: "mark_recovery_required E expected operation u db = Inr (x, db')" and ok: "accept_ok E m db" and a: "main_agrees db refs"
  shows "main_agrees db' refs"
proof -
  obtain n db1 db2 where n: "active_phase expected"
    "project_needs_recovery db1 = Inr db2" "db' = remove_recovery operation (db2\<lparr>ad_catalog := False\<rparr>)"
    and cases: "db1 = db
      \<or> update_accept operation (\<lambda>r. aj_phase r = expected)
              (\<lambda>r. r\<lparr>aj_phase := ARecoveryRequired, aj_recoveryFrom := Some expected, aj_updatedAt := n\<rparr>) db = Inr db1"
    using r unfolding mark_recovery_required_def by (auto simp: rbind_Inr require_def ensure_Inr split: if_splits)
  have 1: "main_agrees db1 refs"
    using cases
  proof
    assume u: "update_accept operation (\<lambda>r. aj_phase r = expected)
              (\<lambda>r. r\<lparr>aj_phase := ARecoveryRequired, aj_recoveryFrom := Some expected, aj_updatedAt := n\<rparr>) db = Inr db1"
    obtain k :: accept_journal where k: "open_accepts db = [k]" "aj_phase k = expected" "accept_row_ok k"
      "open_accepts db1 = [k\<lparr>aj_phase := ARecoveryRequired, aj_recoveryFrom := Some expected, aj_updatedAt := n\<rparr>]"
      "ad_project db1 = ad_project db"
      by (rule advance_open [OF u ok]) (use n(1) in \<open>auto simp: active_phase_def\<close>)
    moreover have "open_phase k = expected" using prepared_row(2) [OF k(3)] k(2) n(1) by (simp add: open_phase_def)
    ultimately show ?thesis using a by (auto simp: main_agrees_def open_phase_def split: option.splits)
  qed (use a in simp)
  obtain pj where pj: "ad_project db1 = Some pj" "db2 = db1\<lparr>ad_project := Some (pj\<lparr>pj_service := ServiceRecoveryRequired\<rparr>)\<rparr>"
    using n(2) unfolding project_needs_recovery_def by (auto split: option.splits if_splits)
  have "open_accepts db' = open_accepts db1" "ad_project db' = Some (pj\<lparr>pj_service := ServiceRecoveryRequired\<rparr>)"
    unfolding n(3) pj(2) by (auto simp: open_accepts_def remove_recovery_def split: option.split)
  then show ?thesis using 1 pj(1) by (auto simp: main_agrees_def split: list.splits)
qed

lemma complete_open:
  assumes r: "complete_accept E operation u db = Inr (response, db')" and ok: "accept_ok E m db"
  obtains (replayed) "db' = db"
  | (closed) j pj result where "open_accepts db = [j]" "has_operation operation j" "aj_phase j = AMainUpdated" "aj_result j = Some result"
      "accept_row_ok j" "ad_project db = Some pj" "pj_main pj = ap_main (aj_plan j)"
      "open_accepts db' = []" "ad_project db' = Some (pj\<lparr>pj_main := result\<rparr>)"
proof -
  have t: "accept_tables_ok E m db" by (rule ok_shape(2) [OF ok])
  obtain n j where n: "present_accept (get_accept E operation db) = Inr j"
    and rest: "(if aj_phase j = ACompleted then rbind (replay_response E j db) (\<lambda>r. Inr (r, db))
       else case aj_result j of
         None \<Rightarrow> Inl StateConflict
       | Some result \<Rightarrow>
           if aj_phase j \<noteq> AMainUpdated \<or> n < aj_updatedAt j then Inl StateConflict
           else rbind (live_fences E (aj_plan j) db) (\<lambda>_.
                  settle_completion E j operation result u n db)) = Inr (response, db')"
    using r unfolding complete_accept_def by (auto simp only: rbind_Inr)
  note j = get_acceptD [OF n t]
  show thesis
  proof (cases "aj_phase j = ACompleted")
    case True
    then show thesis using rest replayed by (auto simp: rbind_Inr)
  next
    case False
    let ?f = "\<lambda>k. k\<lparr>aj_phase := ACompleted, aj_updatedAt := n\<rparr>"
    obtain result where j': "aj_result j = Some result" "aj_phase j = AMainUpdated"
      and settle: "settle_completion E j operation result u n db = Inr (response, db')"
      using rest False by (auto simp: rbind_Inr split: option.splits if_splits)
    obtain c4 ev pj db2 where s: "ad_project db = Some pj" "pj_main pj = ap_main (aj_plan j)"
      "update_accept operation (\<lambda>r. aj_phase r = AMainUpdated) ?f
         (db\<lparr>ad_project := Some (pj\<lparr>pj_main := result\<rparr>), ad_collab := c4, ad_events := ev\<rparr>) = Inr db2"
      "db' = remove_recovery operation db2"
      using settle unfolding settle_completion_def by (auto simp: rbind_Inr ensure_Inr move_main_Inr)
    let ?d = "db\<lparr>ad_project := Some (pj\<lparr>pj_main := result\<rparr>), ad_collab := c4, ad_events := ev\<rparr>"
    have same: "completed_accepts ?d = completed_accepts db" "open_accepts ?d = open_accepts db"
      by (simp_all add: completed_accepts_def open_accepts_def)
    have "journals_shape ?d" using ok_shape(1) [OF ok] by (simp add: journals_shape_def same)
    from update_acceptD [OF s(3) this] obtain k where k: "ad_journals ?d = completed_accepts ?d @ [k]" "open_accepts ?d = [k]"
      "has_operation operation k" "db2 = ?d\<lparr>ad_journals := completed_accepts ?d @ [?f k]\<rparr>"
      by auto
    have kj: "k = j" by (rule same_operation [OF t j(1,2)]) (use k in simp_all)
    have "open_accepts db' = []" "ad_project db' = Some (pj\<lparr>pj_main := result\<rparr>)"
      unfolding s(4) k(4) by (auto simp: open_last remove_recovery_def split: option.split)
    then show thesis using closed [of j result pj] k kj same j j' s by (simp add: stored_ok_def)
  qed
qed

lemma complete_agrees:
  assumes r: "complete_accept E operation u db = Inr (response, db')" and ok: "accept_ok E m db" and a: "main_agrees db refs"
  shows "main_agrees db' refs"
proof (rule complete_open [OF r ok])
  fix j pj result
  assume j: "open_accepts db = [j]" "aj_phase j = AMainUpdated" "aj_result j = Some result" "accept_row_ok j"
    "ad_project db = Some pj" "open_accepts db' = []" "ad_project db' = Some (pj\<lparr>pj_main := result\<rparr>)"
  have "open_phase j = AMainUpdated" using prepared_row(2) [OF j(4)] j(2) by (simp add: open_phase_def active_phase_def)
  then show ?thesis using a j by (simp add: main_agrees_def)
qed (use a in simp)

section \<open>Every action keeps the agreement\<close>

lemma lasting_core: "(\<And>w. P w = p (core w)) \<Longrightarrow> lasting P"
  by (simp add: lasting_def)

lemma lasting_db: "lasting (\<lambda>w. p (wo_db w) (wo_refs w))"
  by (auto simp: lasting_def core_def)

lemma lasting_inv: "lasting (accept_inv E m d)"
  unfolding accept_inv_def by (rule lasting_db)

text \<open>A transaction that keeps both invariants of the database, and one that needs to know more.\<close>

lemma triple_write:
  assumes "lasting P" "\<And>w. P w \<Longrightarrow> accept_inv E m d w"
    and "\<And>w x db. P w \<Longrightarrow> t w = Inr (x, db) \<Longrightarrow> accept_sound E m (wo_db w) db \<and> main_agrees db (wo_refs w) \<and> Q x (w\<lparr>wo_db := db\<rparr>)"
  shows "triple Stormy P (transaction t) (\<lambda>x w. accept_inv E m d w \<and> Q x w) (accept_inv E m d)"
proof (rule triple_transaction)
  fix w x db assume a: "P w" "t w = Inr (x, db)"
  then show "accept_inv E m d (w\<lparr>wo_db := db\<rparr>) \<and> Q x (w\<lparr>wo_db := db\<rparr>)"
    using inv_step [OF assms(2) [OF a(1)]] assms(3) [OF a] by simp
qed (use assms lasting_detached in auto)

lemma coordination_Inr [simp]: "coordination r = Inr x \<longleftrightarrow> r = Inr x"
  by (simp add: coordination_def split: sum.split)

lemma stays_operation_time [stay]: "stays (operation_time P b)"
  by (rule staysI) (auto simp: operation_time_def Let_def)

lemma stays_read_record [stay]: "stays (read_record E operation)"
  unfolding read_record_def by (intro stay)

lemma stays_required_result [stay]: "stays (required_result j)"
  unfolding required_result_def by (intro stay)

lemma triple_weaken: "triple c P m Q S \<Longrightarrow> (\<And>x w. Q x w \<Longrightarrow> Q' x w) \<Longrightarrow> triple c P m Q' S"
  by (erule triple_conseq) auto

lemma triple_classify: "triple Stormy (accept_inv E m d) (classify E P record) (\<lambda>_. accept_inv E m d) (accept_inv E m d)"
proof -
  let ?I = "accept_inv E m d"
  have "triple Stormy ?I (persist (mark_recovery_required E ph op t)) (\<lambda>_. ?I) ?I" for ph op t
    unfolding persist_def
    by (rule triple_weaken, rule triple_write [where Q = "\<lambda>_ _. True" and E = E and m = m and d = d, OF lasting_inv])
      (auto simp: accept_inv_def intro: mark_recovery_required_sound mark_recovery_agrees)
  then have "triple Stormy ?I (andthen (operation_time P False) (\<lambda>t.
           andthen (persist (mark_recovery_required E (aj_phase record) (ap_operation (aj_plan record)) (Stamp t))) (\<lambda>_.
             give ()))) (\<lambda>_. ?I) ?I"
    by (intro triple_andthen [OF triple_stays [OF stays_operation_time lasting_inv]]) (rule triple_andthen, assumption, rule triple_give)
  then show ?thesis unfolding classify_def by (auto intro: triple_throw)
qed

lemma triple_recovering:
  assumes "triple Stormy P m Q (accept_inv E k d)"
  shows "triple Stormy P (recovering E V record m) Q (accept_inv E k d)"
  unfolding recovering_def
proof (rule triple_catch [OF assms])
  fix e
  have "triple Stormy (accept_inv E k d) (andthen (classify E V record) (\<lambda>_. throw (Coordinator CoordinatorRecoveryRequired))) Q (accept_inv E k d)"
    by (rule triple_andthen [OF triple_classify]) (rule triple_throw, simp)
  then show "triple Stormy (accept_inv E k d) (if \<not> classifiable e then throw e
      else andthen (classify E V record) (\<lambda>_. throw (Coordinator CoordinatorRecoveryRequired))) Q (accept_inv E k d)"
    by (auto intro: triple_throw)
qed

text \<open>The journal a recovery works on.\<close>

definition at_record :: "accept_env \<Rightarrow> string \<Rightarrow> accept_db \<Rightarrow> accept_journal \<Rightarrow> world \<Rightarrow> bool" where
  "at_record E m d record w \<longleftrightarrow> accept_inv E m d w \<and> record \<in> set (ad_journals (wo_db w))"

lemma lasting_at_record: "lasting (at_record E m d record)"
  unfolding at_record_def accept_inv_def by (rule lasting_db)

lemma at_recordD: "at_record E m d record w \<Longrightarrow> accept_inv E m d w" by (simp add: at_record_def)

lemma get_accept_mem: "get_accept E operation db = Inr (Some j) \<Longrightarrow> accept_ok E m db \<Longrightarrow> j \<in> set (ad_journals db)"
  using get_acceptD(1) [of E operation db j m] ok_shape(2) by (simp add: present_accept_def)

lemma triple_read_record: "triple Stormy (accept_inv E m d) (read_record E operation) (at_record E m d) (accept_inv E m d)"
  unfolding read_record_def
proof (rule triple_andthen)
  let ?q = "\<lambda>w. coordination (get_accept E operation (wo_db w))"
  show "triple Stormy (accept_inv E m d) (query ?q)
      (\<lambda>x w. accept_inv E m d w \<and> (\<exists>w0. core w0 = core w \<and> ?q w0 = Inr x)) (accept_inv E m d)"
    by (rule triple_query) (simp_all add: lasting_detached lasting_inv)
  fix x
  have "at_record E m d j w" if "accept_inv E m d w" "get_accept E operation (wo_db w) = Inr (Some j)" for j w
    using get_acceptD(1) [of E operation "wo_db w" j m] that ok_shape(2)
    by (simp add: at_record_def accept_inv_def present_accept_def)
  then show "triple Stormy (\<lambda>w. accept_inv E m d w \<and> (\<exists>w0. core w0 = core w \<and> ?q w0 = Inr x))
      (case x of None \<Rightarrow> throw (Coordinator CoordinatorRecoveryRequired) | Some j \<Rightarrow> give j) (at_record E m d) (accept_inv E m d)"
    by (cases x) (auto intro!: triple_throw triple_give simp: core_def)
qed

lemma in_open:
  assumes "accept_ok E m db" "j \<in> set (ad_journals db)" "aj_phase j \<noteq> ACompleted"
  shows "open_accepts db = [j]"
proof -
  have "j \<in> set (open_accepts db)" using assms(2,3) by (simp add: open_accepts_def)
  moreover have "length (open_accepts db) \<le> 1" using ok_shape(1) [OF assms(1)] by (simp add: journals_shape_def)
  ultimately show ?thesis by (cases "open_accepts db") auto
qed

lemma triple_recover_prepared:
  "triple Stormy (at_record E m d record) (recover_prepared E G P record) (at_record E m d) (accept_inv E m d)"
proof (cases "aj_phase record = APrepared")
  case False
  then show ?thesis by (auto simp: recover_prepared_def intro: triple_give)
next
  case True
  let ?R = "at_record E m d record"
  have s: "triple Stormy ?R n (\<lambda>_. ?R) (accept_inv E m d)" if "stays n" for n :: "'x act"
    by (rule triple_conseq [OF triple_stays [OF that lasting_at_record]]) (auto dest: at_recordD)
  have p: "triple Stormy ?R (persist (persist_result E i)) (\<lambda>_. accept_inv E m d) (accept_inv E m d)" for i
    unfolding persist_def
    by (rule triple_weaken, rule triple_write [where Q = "\<lambda>_ _. True" and E = E and m = m and d = d, OF lasting_at_record])
      (auto simp: at_record_def accept_inv_def intro: persist_result_sound persist_agrees(1))
  show ?thesis using True unfolding recover_prepared_def
    by simp (intro triple_andthen [OF s] triple_andthen [OF p triple_read_record] stay)
qed

text \<open>A journal whose result is known, and whose main branch may be moved to it.\<close>

definition movable :: "accept_env \<Rightarrow> string \<Rightarrow> accept_db \<Rightarrow> string \<Rightarrow> string \<Rightarrow> string \<Rightarrow> world \<Rightarrow> bool" where
  "movable E m d operation main result w \<longleftrightarrow> accept_inv E m d w \<and>
     (\<exists>j. open_accepts (wo_db w) = [j] \<and> has_operation operation j \<and> ap_main (aj_plan j) = main \<and> aj_result j = Some result
        \<and> open_phase j \<noteq> APrepared)"

lemma lasting_movable: "lasting (movable E m d operation main result)"
  unfolding movable_def accept_inv_def by (rule lasting_db)

lemma movable_moves:
  assumes "movable E m d operation main result w" "map_of (wo_refs w) main_ref = Some main"
  shows "movable E m d operation main result (w\<lparr>wo_refs := set_ref main_ref result (wo_refs w)\<rparr>)"
  using assms by (auto simp: movable_def accept_inv_def main_agrees_def map_of_set_ref split: option.splits)

lemma triple_settle_movable:
  assumes "ap_main p = main"
  shows "triple Stormy (movable E m d operation main result) (settle_accept_main E G p result)
     (\<lambda>_ w. movable E m d operation main result w \<and> map_of (wo_refs w) main_ref = Some result) (movable E m d operation main result)"
  by (rule triple_settle [OF lasting_movable]) (use assms movable_moves in auto)

lemma marked_main:
  assumes "movable E m d operation main result w" "map_of (wo_refs w) main_ref = Some result"
    and "mark_main_updated E operation t (wo_db w) = Inr (x, db)"
  shows "accept_sound E m (wo_db w) db \<and> main_agrees db (wo_refs w)"
  using assms mark_main_updated_sound [OF assms(3)]
  by (auto simp: movable_def accept_inv_def intro!: mark_main_agrees [OF assms(3)])

lemma lasting_moved: "lasting (\<lambda>w. movable E m d operation main result w \<and> map_of (wo_refs w) main_ref = Some result)"
  unfolding movable_def accept_inv_def by (rule lasting_db)

lemma open_phase_active: "accept_row_ok j \<Longrightarrow> active_phase (aj_phase j) \<Longrightarrow> open_phase j = aj_phase j"
  using prepared_row(2) by (simp add: open_phase_def)

lemma record_movable:
  assumes "at_record E m d record w" "aj_phase record \<in> {AResultPersisted, AMainUpdated}" "aj_result record = Some result"
  shows "movable E m d (ap_operation (aj_plan record)) (ap_main (aj_plan record)) result w"
proof -
  have ok: "accept_ok E m (wo_db w)" "record \<in> set (ad_journals (wo_db w))" using assms(1) by (simp_all add: at_record_def accept_inv_def)
  have "accept_row_ok record" using ok_shape(2) [OF ok(1)] ok(2) by (simp add: accept_tables_ok_def stored_ok_def)
  then have "open_phase record = aj_phase record" using assms(2) by (intro open_phase_active) (auto simp: active_phase_def)
  moreover have "open_accepts (wo_db w) = [record]" using in_open [OF ok] assms(2) by auto
  ultimately show ?thesis using assms by (auto simp: movable_def at_record_def has_operation_def)
qed

lemma andthen_give: "andthen (give x) f = f x"
  by (simp add: fun_eq_iff andthen_def give_def)

lemma triple_recover_persisted:
  "triple Stormy (at_record E m d record) (recover_persisted E G P record) (at_record E m d) (accept_inv E m d)"
proof (cases "aj_phase record = AResultPersisted \<and> aj_result record \<noteq> None")
  case False
  have "triple Stormy (at_record E m d record) (andthen (throw e :: 'x act) f) (at_record E m d) (accept_inv E m d)" for e and f :: "'x \<Rightarrow> _"
    by (rule triple_andthen [OF triple_throw]) (auto dest: at_recordD intro: tripleI)
  then show ?thesis using False by (auto simp: recover_persisted_def required_result_def intro: triple_give)
next
  case True
  then obtain result where r: "aj_result record = Some result" by auto
  let ?op = "ap_operation (aj_plan record)"
  let ?J = "movable E m d ?op (ap_main (aj_plan record)) result"
  let ?M = "\<lambda>w. ?J w \<and> map_of (wo_refs w) main_ref = Some result"
  let ?I = "accept_inv E m d"
  have J: "?J w \<Longrightarrow> ?I w" for w by (simp add: movable_def)
  have s: "triple Stormy ?J n (\<lambda>_. ?J) ?I" if "stays n" for n :: "'x act"
    by (rule triple_conseq [OF triple_stays [OF that lasting_movable]]) (auto dest: J)
  have settle: "triple Stormy ?J (settle_accept_main E G (aj_plan record) result) (\<lambda>_. ?M) ?I"
    by (rule triple_conseq [OF triple_settle_movable [OF refl]]) (auto dest: J)
  have time: "triple Stormy ?M (operation_time P False) (\<lambda>_. ?M) ?I"
    by (rule triple_conseq [OF triple_stays [OF stays_operation_time lasting_moved]]) (auto dest: J)
  have mark: "triple Stormy ?M (persist (mark_main_updated E ?op t)) (\<lambda>_. ?I) ?I" for t
    unfolding persist_def
    by (rule triple_weaken, rule triple_write [where Q = "\<lambda>_ _. True" and E = E and m = m and d = d, OF lasting_moved])
      (use J marked_main in auto)
  have "triple Stormy ?J (recover_persisted E G P record) (at_record E m d) ?I"
    using True r
    by (simp add: recover_persisted_def required_result_def andthen_give)
      (rule triple_andthen [OF s [OF stays_materialize]], rule triple_andthen [OF settle], rule triple_andthen [OF time],
        rule triple_andthen [OF mark triple_read_record])
  then show ?thesis by (rule triple_conseq) (use record_movable True r in auto)
qed

lemma triple_complete:
  assumes "lasting P" "\<And>w. P w \<Longrightarrow> accept_inv E m d w"
  shows "triple Stormy P (persist (complete_accept E operation t)) (\<lambda>_. accept_inv E m d) (accept_inv E m d)"
  unfolding persist_def
  by (rule triple_weaken, rule triple_write [where Q = "\<lambda>_ _. True" and E = E and m = m and d = d, OF assms])
    (use assms(2) in \<open>auto simp: accept_inv_def intro: complete_accept_sound(1) complete_agrees\<close>)

lemma triple_recover_updated:
  "triple Stormy (at_record E m d record) (recover_updated E G P record) (\<lambda>_. accept_inv E m d) (accept_inv E m d)"
proof (cases "aj_phase record = AMainUpdated \<and> aj_result record \<noteq> None")
  case False
  have "triple Stormy (at_record E m d record) (andthen (throw e :: 'x act) f) (\<lambda>_. accept_inv E m d) (accept_inv E m d)" for e and f :: "'x \<Rightarrow> _"
    by (rule triple_andthen [OF triple_throw]) (auto dest: at_recordD intro: tripleI)
  then show ?thesis using False by (auto simp: recover_updated_def required_result_def intro: triple_give dest: at_recordD)
next
  case True
  then obtain result where r: "aj_result record = Some result" by auto
  let ?op = "ap_operation (aj_plan record)"
  let ?J = "movable E m d ?op (ap_main (aj_plan record)) result"
  let ?I = "accept_inv E m d"
  have J: "?J w \<Longrightarrow> ?I w" for w by (simp add: movable_def)
  have settle: "triple Stormy ?J (settle_accept_main E G (aj_plan record) result) (\<lambda>_. ?I) ?I"
    by (rule triple_conseq [OF triple_settle_movable [OF refl]]) (auto dest: J)
  have "triple Stormy ?J (recover_updated E G P record) (\<lambda>_. ?I) ?I"
    using True r
    by (simp add: recover_updated_def required_result_def andthen_give)
      (rule triple_andthen [OF settle], rule triple_andthen [OF triple_stays [OF stays_operation_time lasting_inv]],
        rule triple_andthen [OF triple_complete [OF lasting_inv]], simp, rule triple_give)
  then show ?thesis by (rule triple_conseq) (use record_movable True r in auto)
qed

lemma triple_known_errors: "triple Stormy P m Q S \<Longrightarrow> triple Stormy P (known_errors m) Q S"
  unfolding known_errors_def by (rule triple_catch) (auto intro: triple_throw split: failure.split)

lemma triple_with_reservation:
  assumes "triple Stormy P m Q S" "lasting P" "\<And>w. P w \<Longrightarrow> S w" "lasting S" "\<And>x. lasting (Q x)" "\<And>x w. Q x w \<Longrightarrow> S w"
  shows "triple Stormy P (with_reservation G m) Q S"
proof -
  have s: "triple Stormy R n (\<lambda>_. R) S" if "stays n" "lasting R" "\<And>w. R w \<Longrightarrow> S w" for R and n :: "'x act"
    by (rule triple_conseq [OF triple_stays [OF that(1,2)]]) (use that in auto)
  show ?thesis unfolding with_reservation_def
    by (rule triple_andthen [OF s], rule stay, rule assms, rule assms, assumption, rule triple_and_always [OF assms(1)])
      (rule s, rule stay, (use assms in auto)[2], rule s, rule stay, (use assms in auto)[3])
qed

lemma triple_recover_accept: "triple Stormy (accept_inv E m d) (recover_accept E G P) (\<lambda>_. accept_inv E m d) (accept_inv E m d)"
proof -
  let ?I = "accept_inv E m d" and ?q = "\<lambda>w. coordination (get_open_accept E (wo_db w))"
  have rec: "triple Stormy (at_record E m d record) (recover_record E G P record) (\<lambda>_. ?I) ?I" for "record"
    unfolding recover_record_def
    by (rule triple_andthen [OF triple_recovering [OF triple_recover_prepared]],
        rule triple_andthen [OF triple_recovering [OF triple_recover_persisted]], rule triple_recovering [OF triple_recover_updated])
  have start: "at_record E m d j w" if "?I w" "get_open_accept E (wo_db w) = Inr (Some j)" for j w
    using that by (auto simp: at_record_def accept_inv_def get_open_accept_def intro: get_accept_mem split: list.splits)
  have "triple Stormy ?I (andthen (query ?q) (\<lambda>found.
         case found of
           None \<Rightarrow> give ()
         | Some record \<Rightarrow>
             if aj_phase record = ARecoveryRequired then throw (Coordinator CoordinatorRecoveryRequired)
             else recover_record E G P record)) (\<lambda>_. ?I) ?I"
  proof (rule triple_andthen)
    show "triple Stormy ?I (query ?q) (\<lambda>x w. ?I w \<and> (\<exists>w0. core w0 = core w \<and> ?q w0 = Inr x)) ?I"
      by (rule triple_query) (simp_all add: lasting_detached lasting_inv)
    fix x
    have "triple Stormy (\<lambda>w. ?I w \<and> (\<exists>w0. core w0 = core w \<and> ?q w0 = Inr (Some j))) (recover_record E G P j) (\<lambda>_. ?I) ?I" for j
      by (rule triple_conseq [OF rec]) (auto simp: core_def intro: start)
    then show "triple Stormy (\<lambda>w. ?I w \<and> (\<exists>w0. core w0 = core w \<and> ?q w0 = Inr x))
        (case x of None \<Rightarrow> give () | Some record \<Rightarrow>
             if aj_phase record = ARecoveryRequired then throw (Coordinator CoordinatorRecoveryRequired)
             else recover_record E G P record) (\<lambda>_. ?I) ?I"
      by (cases x) (auto intro: triple_give triple_throw)
  qed
  then show ?thesis unfolding recover_accept_def
    by (intro triple_with_reservation triple_under_lease triple_known_errors) (simp_all add: lasting_inv lasting_detached)
qed

section \<open>Admitted writes\<close>

text \<open>A Project is quiet when an admission goes on without a recovery.\<close>

definition quiet :: "accept_env \<Rightarrow> world \<Rightarrow> bool" where
  "quiet E w \<longleftrightarrow> (case read_recovery_state E w of Inl e \<Rightarrow> False | Inr r \<Rightarrow> \<not> pending r)"

lemma recovery_state_of_core:
  "read_recovery_state E w = (case core w of (db, refs, m, b, j, l) \<Rightarrow>
     rbind (if l \<noteq> Some Active then (case m of None \<Rightarrow> Inl (Admission AuthorizationDenied) | Some x \<Rightarrow> Inr ()) else Inr ()) (\<lambda>_.
     rbind (coordination (get_open_accept E db)) (\<lambda>accept.
       Inr \<lparr>rs_accept = accept, rs_bootstrap = b, rs_join = j, rs_lifecycle = l\<rparr>)))"
  by (cases "wo_membership w") (simp_all add: read_recovery_state_def authorize_member_def core_def rbind_def)

lemma recovery_state_core: "core w = core w' \<Longrightarrow> read_recovery_state E w = read_recovery_state E w'"
  by (simp only: recovery_state_of_core)

lemma quiet_core: "core w = core w' \<Longrightarrow> quiet E w = quiet E w'"
  unfolding quiet_def by (drule recovery_state_core [where E = E]) simp

text \<open>
  Admission keeps what its operation keeps, and its recovery when there is something to recover; its result
  is as the operation leaves it.
\<close>

lemma triple_admission_round:
  assumes I: "lasting I" and operation: "\<And>facts. triple Stormy I (operation facts) Q I"
    and Q: "\<And>x. lasting (Q x)" "\<And>x w. Q x w \<Longrightarrow> I w"
  shows "triple Stormy I (admission_round E operation allowRecovery recovered)
    (\<lambda>r w. case r of None \<Rightarrow> I w \<and> \<not> quiet E w | Some x \<Rightarrow> Q x w) I"
proof -
  let ?R = "\<lambda>r w. case r of None \<Rightarrow> I w \<and> \<not> quiet E w | Some x \<Rightarrow> Q x w"
  let ?read = "\<lambda>r w. I w \<and> (\<exists>w0. core w0 = core w \<and> read_recovery_state E w0 = Inr r)"
  have d: "detached I" by (rule lasting_detached [OF I])
  have read: "triple Stormy I (query (read_recovery_state E)) ?read I"
    by (rule triple_query [OF d]) simp
  have q: "triple Stormy I (query q) (\<lambda>_. I) I" for q :: "world \<Rightarrow> failure + 'x"
    by (rule triple_stays [OF stays_query I])
  have op: "triple Stormy I (andthen (operation facts) (\<lambda>x. give (Some x))) ?R I" for facts
    by (rule triple_andthen [OF operation]) (rule triple_give, simp)
  have busy: "I w \<and> \<not> quiet E w" if p: "pending r" and rd: "?read r w" for r w
  proof -
    obtain w0 where w0: "core w0 = core w" "read_recovery_state E w0 = Inr r" using rd by (elim conjE exE)
    then have "read_recovery_state E w = Inr r" using recovery_state_core [OF w0(1), of E] by simp
    then show ?thesis using p rd by (simp add: quiet_def)
  qed
  have "triple Stormy (?read r) (if pending r
         then (if \<not> allowRecovery \<or> recovered \<or> isolated r then throw (Admission AdmissionRecoveryRequired) else give None)
         else andthen (query (authorize E)) (\<lambda>facts. andthen (operation facts) (\<lambda>x. give (Some x)))) ?R I" for r
  proof (cases "pending r")
    case True
    then show ?thesis by (auto intro!: triple_throw triple_give dest: busy)
  next
    case False
    have "triple Stormy I (andthen (query (authorize E)) (\<lambda>facts. andthen (operation facts) (\<lambda>x. give (Some x)))) ?R I"
      by (rule triple_andthen [OF q op])
    then have "triple Stormy (?read r) (andthen (query (authorize E)) (\<lambda>facts. andthen (operation facts) (\<lambda>x. give (Some x)))) ?R I"
      by (rule triple_conseq) simp_all
    then show ?thesis using False by simp
  qed
  then have body: "triple Stormy I (andthen (query (read_recovery_state E)) (\<lambda>r. if pending r
         then (if \<not> allowRecovery \<or> recovered \<or> isolated r then throw (Admission AdmissionRecoveryRequired) else give None)
         else andthen (query (authorize E)) (\<lambda>facts. andthen (operation facts) (\<lambda>x. give (Some x))))) ?R I"
    by (rule triple_andthen [OF read])
  have "lasting (?R r)" for r
  proof (cases r)
    case None
    have "I w = I w' \<and> quiet E w = quiet E w'" if "core w = core w'" for w w'
      using lastingD [OF I that] quiet_core [OF that] by simp
    then have "lasting (\<lambda>w. I w \<and> \<not> quiet E w)" unfolding lasting_def by blast
    then show ?thesis using None by simp
  qed (simp add: Q(1))
  then have R: "detached (?R r)" for r by (rule lasting_detached)
  show ?thesis unfolding admission_round_def
    by (rule triple_under_lease [OF body d _ d R]) (use Q(2) in \<open>auto split: option.splits\<close>)
qed

lemma triple_wait_for_recovery:
  "triple Stormy J recover (\<lambda>_. I) I \<Longrightarrow> (\<And>w. J w \<Longrightarrow> I w) \<Longrightarrow> triple Stormy J (wait_for_recovery recover) (\<lambda>_. I) I"
  unfolding wait_for_recovery_def
  by (rule triple_catch) (auto intro: triple_throw split: failure.split recovery_failure.split)

lemma loop_keeps:
  assumes I: "lasting I" and operation: "\<And>facts. triple Stormy I (operation facts) Q I"
    and Q: "\<And>x. lasting (Q x)" "\<And>x w. Q x w \<Longrightarrow> I w"
    and recover: "triple Stormy (\<lambda>w. I w \<and> \<not> quiet E w) recover (\<lambda>_. I) I"
  shows "I w \<Longrightarrow> admission_loop n E recover operation allowRecovery recovered w = Some (r, w') \<Longrightarrow>
    (case r of Inl e \<Rightarrow> I w' | Inr x \<Rightarrow> Q x w')"
proof (induction n arbitrary: recovered w)
  case (Suc n)
  obtain r1 w1 where round: "admission_round E operation allowRecovery recovered w = (r1, w1)" by (cases "admission_round E operation allowRecovery recovered w")
  have t: "triple Stormy I (admission_round E operation allowRecovery recovered)
    (\<lambda>r w. case r of None \<Rightarrow> I w \<and> \<not> quiet E w | Some x \<Rightarrow> Q x w) I"
    by (rule triple_admission_round [OF I operation Q(1)]) (rule Q(2))
  note 1 = triple_result [OF t round _ Suc.prems(1)]
  show ?case
  proof (cases "r1 = Inr None")
    case False
    then show ?thesis using Suc.prems(2) round 1 by (cases r1) (auto split: option.splits sum.splits)
  next
    case True
    then have w1: "I w1 \<and> \<not> quiet E w1" using 1 by auto
    obtain r2 w2 where rec: "wait_for_recovery recover w1 = (r2, w2)" by (cases "wait_for_recovery recover w1")
    have t2: "triple Stormy (\<lambda>w. I w \<and> \<not> quiet E w) (wait_for_recovery recover) (\<lambda>_. I) I"
      by (rule triple_wait_for_recovery [OF recover]) simp
    have w2: "I w2" using triple_result [OF t2 rec _ w1] by (cases r2) auto
    show ?thesis using Suc.IH [OF w2] Suc.prems(2) round True rec w2 by (auto split: sum.splits)
  qed
qed simp

lemma triple_write_admission:
  assumes I: "lasting I" and operation: "\<And>facts. triple Stormy I (operation facts) Q I"
    and Q: "\<And>x. lasting (Q x)" "\<And>x w. Q x w \<Longrightarrow> I w"
    and recover: "triple Stormy (\<lambda>w. I w \<and> \<not> quiet E w) recover (\<lambda>_. I) I"
  shows "triple Stormy I (write_admission E recover operation allowRecovery) Q I"
  unfolding write_admission_def track_def
proof (rule triple_catch)
  show "triple Stormy I (\<lambda>w. case admission_loop 2 E recover operation allowRecovery False w of
       None \<Rightarrow> (Inl (Admission AdmissionDependencyFailed), w) | Some r \<Rightarrow> r) Q I"
  proof (rule tripleI)
    fix w r w' assume i: "I w" and r: "(case admission_loop 2 E recover operation allowRecovery False w of
       None \<Rightarrow> (Inl (Admission AdmissionDependencyFailed), w) | Some r \<Rightarrow> r) = (r, w')"
    have "case r of Inl e \<Rightarrow> I w' | Inr x \<Rightarrow> Q x w'"
    proof (cases "admission_loop 2 E recover operation allowRecovery False w")
      case (Some p)
      then show ?thesis using r by (intro loop_keeps [OF I operation Q(1) Q(2) recover i]) simp_all
    qed (use i r in auto)
    then show "faults_in Stormy (wo_faults w') \<and> (case r of Inl e \<Rightarrow> allowed Stormy e \<and> I w' | Inr x \<Rightarrow> Q x w')"
      by (simp split: sum.splits)
  qed
qed (auto intro: triple_throw split: failure.split coord_error.split)

text \<open>An operation and a recovery that keep the same.\<close>

lemma triple_admission:
  assumes "lasting I" "\<And>facts. triple Stormy I (operation facts) (\<lambda>_. I) I" "triple Stormy I recover (\<lambda>_. I) I"
  shows "triple Stormy I (write_admission E recover operation allowRecovery) (\<lambda>_. I) I"
  by (rule triple_write_admission) (use assms in \<open>auto elim: triple_conseq\<close>)

section \<open>Acceptance keeps the agreement\<close>

lemma triple_transact:
  assumes "lasting P" "\<And>w. P w \<Longrightarrow> accept_inv E m d w"
    and "\<And>w x db. P w \<Longrightarrow> t (wo_db w) = Inr (x, db) \<Longrightarrow>
      accept_sound E m (wo_db w) db \<and> main_agrees db (wo_refs w) \<and> Q x (w\<lparr>wo_db := db\<rparr>)"
  shows "triple Stormy P (transact E facts operation t) (\<lambda>x w. accept_inv E m d w \<and> Q x w) (accept_inv E m d)"
  unfolding transact_def by (rule triple_write [OF assms(1,2)]) (auto simp: rbind_Inr intro!: assms(3))

lemma stays_looking [stay]: "stays (within E facts operation (looking q))"
  unfolding within_def transact_def transaction_def
  by (intro stay staysI) (auto simp: looking_def rbind_def coordination_def core_def split: sum.splits)

text \<open>The plan of an operation stays in the journals.\<close>

definition planning :: "accept_env \<Rightarrow> string \<Rightarrow> accept_db \<Rightarrow> string \<Rightarrow> string \<Rightarrow> world \<Rightarrow> bool" where
  "planning E m d operation main w \<longleftrightarrow> accept_inv E m d w
     \<and> (\<exists>j\<in>set (ad_journals (wo_db w)). has_operation operation j \<and> ap_main (aj_plan j) = main)"

lemma lasting_planning: "lasting (planning E m d operation main)"
  unfolding planning_def accept_inv_def by (rule lasting_db)

lemma persisted_movable:
  assumes p: "planning E m d operation main w" and r: "persist_result E \<lparr>pi_operation = operation, pi_result = result, pi_updatedAt = t\<rparr> (wo_db w) = Inr (x, db)"
  shows "accept_sound E m (wo_db w) db \<and> main_agrees db (wo_refs w) \<and> movable E m d operation main result (w\<lparr>wo_db := db\<rparr>)"
proof -
  have ok: "accept_ok E m (wo_db w)" "main_agrees (wo_db w) (wo_refs w)" using p by (simp_all add: planning_def accept_inv_def)
  have s: "accept_sound E m (wo_db w) db" by (rule persist_result_sound [OF r])
  then have ok': "accept_ok E m db" using ok(1) by (simp add: accept_sound_def)
  obtain j k where j: "open_accepts db = [j]" "has_operation operation j" "aj_phase j = AResultPersisted" "aj_result j = Some result"
    "k \<in> set (ad_journals (wo_db w))" "aj_plan k = aj_plan j"
    using persist_agrees(2) [OF r ok] by auto
  have "j \<in> set (ad_journals db)" using arg_cong [OF j(1), of set] by (auto simp: open_accepts_def)
  then have "accept_row_ok j" using ok_shape(2) [OF ok'] by (simp add: accept_tables_ok_def stored_ok_def)
  then have "open_phase j = AResultPersisted" using j(3) by (subst open_phase_active) (auto simp: active_phase_def)
  moreover have "ap_main (aj_plan j) = main"
  proof -
    obtain i where i: "i \<in> set (ad_journals (wo_db w))" "has_operation operation i" "ap_main (aj_plan i) = main"
      using p by (auto simp: planning_def)
    have "has_operation operation k" using j(2,6) by (simp add: has_operation_def)
    from same_operation [OF ok_shape(2) [OF ok(1)] i(1,2) j(5) this] show ?thesis using i(3) j(6) by simp
  qed
  moreover have "accept_inv E m d w" using p by (simp add: planning_def)
  ultimately show ?thesis using inv_step [OF _ s persist_agrees(1) [OF r ok]] s j persist_agrees(1) [OF r ok] by (simp add: movable_def)
qed

lemma triple_execute_plan:
  assumes "ap_main p = main" "ap_operation p = operation"
  shows "triple Stormy (planning E m d operation main) (execute_plan E G P facts p) (\<lambda>_. accept_inv E m d) (accept_inv E m d)"
proof -
  let ?P = "planning E m d operation main" and ?I = "accept_inv E m d" and ?J = "movable E m d operation main"
  let ?M = "\<lambda>r w. ?J r w \<and> map_of (wo_refs w) main_ref = Some r"
  have J: "?J r w \<Longrightarrow> ?I w" for r w by (simp add: movable_def)
  have s: "triple Stormy ?P n (\<lambda>_. ?P) ?I" if "stays n" for n :: "'x act"
    by (rule triple_conseq [OF triple_stays [OF that lasting_planning]]) (auto simp: planning_def)
  have persist: "triple Stormy ?P (within E facts (Some operation)
       (persist_result E \<lparr>pi_operation = operation, pi_result = r, pi_updatedAt = t\<rparr>)) (\<lambda>_. ?J r) ?I" for r t
    unfolding within_def
    by (rule triple_weaken, rule triple_transact [where Q = "\<lambda>_. ?J r" and E = E and m = m and d = d, OF lasting_planning])
      (simp add: planning_def, rule persisted_movable, assumption, simp_all)
  have settle: "triple Stormy (?J r) (settle_accept_main E G p r) (\<lambda>_. ?M r) ?I" for r
    by (rule triple_conseq [OF triple_settle_movable [OF assms(1)]]) (auto dest: J)
  have time: "triple Stormy (?M r) (operation_time P False) (\<lambda>_. ?M r) ?I" for r
    by (rule triple_conseq [OF triple_stays [OF stays_operation_time lasting_moved]]) (auto dest: J)
  have mark: "triple Stormy (?M r) (within E facts (Some operation) (mark_main_updated E operation t)) (\<lambda>_. ?I) ?I" for r t
    unfolding within_def
    by (rule triple_weaken, rule triple_transact [where Q = "\<lambda>_ _. True" and E = E and m = m and d = d, OF lasting_moved])
      (use J marked_main in auto)
  have complete: "triple Stormy ?I (within E facts (Some operation) (complete_accept E operation t)) (\<lambda>_. ?I) ?I" for t
    unfolding within_def
    by (rule triple_weaken, rule triple_transact [where Q = "\<lambda>_ _. True" and E = E and m = m and d = d, OF lasting_inv])
      (auto simp: accept_inv_def intro: complete_accept_sound(1) complete_agrees)
  show ?thesis unfolding execute_plan_def assms(2)
    by (rule triple_andthen [OF s [OF stays_materialize]], rule triple_andthen [OF s [OF stays_operation_time]],
        rule triple_andthen [OF persist], rule triple_andthen [OF settle], rule triple_andthen [OF time],
        rule triple_andthen [OF mark], rule triple_andthen [OF triple_stays [OF stays_operation_time lasting_inv]], rule complete)
qed

lemma prepared_planning:
  assumes i: "accept_inv E m d w" and r: "prepare_accept E (row_input p) (wo_db w) = Inr (x, db)"
  shows "accept_sound E m (wo_db w) db \<and> main_agrees db (wo_refs w) \<and> planning E m d (ap_operation p) (ap_main p) (w\<lparr>wo_db := db\<rparr>)"
proof -
  have ok: "accept_ok E m (wo_db w)" "main_agrees (wo_db w) (wo_refs w)" using i by (simp_all add: accept_inv_def)
  have plan: "ap_operation q = ap_operation p \<and> ap_main q = ap_main p" if "canonical_prepare E (row_input p) = Inr q" for q
    using that by (auto simp: canonical_prepare_def rbind_Inr canonical_plan_def row_input_def)
  have "\<exists>j\<in>set (ad_journals db). has_operation (ap_operation p) j \<and> ap_main (aj_plan j) = ap_main p"
    by (rule prepare_open [OF r ok(1)]) (auto simp: has_operation_def dest: plan)
  then show ?thesis using prepare_accept_sound [OF r] prepare_agrees [OF r ok] inv_step [OF i]
    by (simp add: planning_def)
qed

lemma stays_revalidation [stay]: "stays (transaction (\<lambda>w. rbind (revalidate E facts operation w) (\<lambda>_. Inr ((), wo_db w))))"
  unfolding transaction_def by (intro stay staysI) (auto simp: rbind_def core_def split: sum.splits)

lemma triple_accept_write: "triple Stormy (accept_inv E m d) (accept_write E G P r facts) (\<lambda>_. accept_inv E m d) (accept_inv E m d)"
proof -
  let ?I = "accept_inv E m d"
  have s: "triple Stormy ?I n (\<lambda>_. ?I) ?I" if "stays n" for n :: "'x act"
    by (rule triple_stays [OF that lasting_inv])
  have op: "stays (\<lambda>w. (Inr (pe_operation P (wo_ticks w)), w))" by (rule staysI) simp
  have prepare: "triple Stormy ?I (transact E facts None (prepare_validated E r p))
      (\<lambda>_. planning E m d (ap_operation p) (ap_main p)) ?I" for p
    by (rule triple_weaken, rule triple_transact [where Q = "\<lambda>_. planning E m d (ap_operation p) (ap_main p)" and E = E and m = m and d = d, OF lasting_inv])
      (auto simp: prepare_validated_def rbind_Inr dest: prepared_planning)
  have plan: "triple Stormy ?I (andthen (transact E facts None (prepare_validated E r p)) (\<lambda>_. execute_plan E G P facts p)) (\<lambda>_. ?I) ?I" for p
    by (rule triple_andthen [OF prepare triple_execute_plan]) simp_all
  have new: "triple Stormy ?I (accept_new E G P r facts) (\<lambda>_. ?I) ?I"
    unfolding accept_new_def Let_def
    by (rule triple_andthen [OF s [OF stays_basic(3)]], rule triple_andthen [OF s [OF stays_looking]],
        rule triple_andthen [OF s [OF stays_basic(4)]], rule triple_andthen [OF s [OF stays_basic(3)]],
        rule triple_andthen [OF s [OF stays_inspect [OF stays_revalidation]]], rule triple_andthen [OF s [OF op]],
        rule triple_andthen [OF s [OF stays_basic(3)]], rule triple_andthen [OF s [OF stays_operation_time]], rule plan)
  have answer: "triple Stormy ?I (decoded_response E x) (\<lambda>_. ?I) ?I" for x
    by (auto simp: decoded_response_def domain_error_def intro: triple_throw triple_give split: sum.split)
  show ?thesis unfolding accept_write_def
    by (rule triple_andthen [OF s [OF stays_looking]])
      (auto simp: domain_error_def intro: triple_throw answer new split: idempotency_lookup.split)
qed

lemma triple_accept: "triple Stormy (accept_inv E m d) (accept E G P r) (\<lambda>_. accept_inv E m d) (accept_inv E m d)"
  unfolding accept_def run_write_def
proof (rule triple_catch)
  show "triple Stormy (accept_inv E m d) (with_reservation G (write_admission E (recover_accept E G P) (accept_write E G P r) True))
      (\<lambda>_. accept_inv E m d) (accept_inv E m d)"
    by (intro triple_with_reservation triple_admission triple_accept_write triple_recover_accept lasting_inv) simp_all
qed (auto simp: map_public_error_def intro: triple_throw)

end
