(* ===== verification/AcceptOutcomes.thy ===== *)
theory AcceptOutcomes
  imports AcceptSafety
begin

text \<open>
  The outcomes of acceptances: when a completion succeeds and when it cannot.
\<close>

section \<open>A ticket that is closed already\<close>

text \<open>The tickets that a completion closes are open ones that the plan resolves, one for each relation.\<close>

definition resolving :: "accept_journal \<Rightarrow> accept_relation list" where
  "resolving j = filter (\<lambda>x. ax_kind x = Resolves) (ap_relations (aj_plan j))"

lemma stored_tickets: "stored_ok E j \<Longrightarrow> distinct (map ax_ticket (ap_relations (aj_plan j)))"
  by (auto simp: stored_ok_def canonical_prepare_def rbind_Inr row_input_def canonical_relations_mem)

lemma closes_open:
  assumes r: "close_tickets j n c = Inr c'" and t: "distinct (map tk_id (cb_tickets c))" and d: "distinct (map ax_ticket (ap_relations (aj_plan j)))"
    and x: "x \<in> set (resolving j)"
  shows "\<exists>t\<in>set (cb_tickets c). tk_id t = ax_ticket x \<and> tk_status t = TicketOpen"
proof -
  let ?P = "\<lambda>t. resolved j t \<and> tk_status t = TicketOpen"
  let ?ts = "filter ?P (cb_tickets c)"
  have len: "length ?ts = length (resolving j)"
    using r by (auto simp: close_tickets_def rbind_Inr ensure_Inr resolving_def update_rows_Inr)
  have dt: "distinct (map tk_id ?ts)" using t by (rule distinct_map_filter)
  have sub: "tk_id ` set ?ts \<subseteq> ax_ticket ` set (resolving j)"
    by (auto simp: resolved_def list_ex_iff resolving_def)
  have "card (tk_id ` set ?ts) = length ?ts" using distinct_card [OF dt] by simp
  moreover have "card (ax_ticket ` set (resolving j)) \<le> length (resolving j)" using card_length [of "map ax_ticket (resolving j)"] by simp
  ultimately have "tk_id ` set ?ts = ax_ticket ` set (resolving j)"
    using len by (intro card_seteq [OF _ sub]) auto
  then have "ax_ticket x \<in> tk_id ` set ?ts" using x by blast
  then show ?thesis by auto
qed

lemma untouched_tickets: "accept_relations j r n c = Inr c' \<Longrightarrow> cb_tickets c' = cb_tickets c"
  by (auto simp: accept_relations_def rbind_Inr)

lemma completion_closes_open:
  assumes ok: "accept_ok E m db" and j: "open_accepts db = [j]" "has_operation operation j"
    and r: "complete_accept E operation u db = Inr (response, db')" and x: "x \<in> set (resolving j)"
  shows "\<exists>t\<in>set (cb_tickets (ad_collab db)). tk_id t = ax_ticket x \<and> tk_status t = TicketOpen"
proof -
  have t: "accept_tables_ok E m db" by (rule ok_shape(2) [OF ok])
  have mem: "j \<in> set (ad_journals db)" "aj_phase j \<noteq> ACompleted"
    using arg_cong [OF j(1), of set] by (auto simp: open_accepts_def)
  obtain n k where n: "present_accept (get_accept E operation db) = Inr k"
    and rest: "(if aj_phase k = ACompleted then rbind (replay_response E k db) (\<lambda>r. Inr (r, db))
       else case aj_result k of
         None \<Rightarrow> Inl StateConflict
       | Some result \<Rightarrow>
           if aj_phase k \<noteq> AMainUpdated \<or> n < aj_updatedAt k then Inl StateConflict
           else rbind (live_fences E (aj_plan k) db) (\<lambda>_.
                  settle_completion E k operation result u n db)) = Inr (response, db')"
    using r unfolding complete_accept_def by (auto simp only: rbind_Inr)
  note k = get_acceptD [OF n t]
  have "k = j" using same_operation [OF t mem(1) j(2) k(1,2)] .
  then obtain result c1 c2 where c: "accept_relations j result n (ad_collab db) = Inr c1" "close_tickets j n c1 = Inr c2"
    using rest mem(2) by (auto simp: settle_completion_def rbind_Inr split: option.splits if_splits)
  have s: "stored_ok E j" using k(3) \<open>k = j\<close> by simp
  have "distinct (map tk_id (cb_tickets c1))"
    using t untouched_tickets [OF c(1)] by (simp add: accept_tables_ok_def collab_ok_def tickets_ok_def)
  from closes_open [OF c(2) this stored_tickets [OF s] x] show ?thesis unfolding untouched_tickets [OF c(1)] .
qed


definition demo_closed :: "accept_command list" where
  "demo_closed = demo_collaboration @ [Collaborate (ChangeStatus \<lparr>ts_actor = ''m'', ts_expectedRevision = 1,
     ts_status = TicketClosed, ts_ticket = ''t'', ts_updatedAt = Stamp 4000\<rparr>)] @ demo_acceptance 2"

definition demo_stuck :: accept_db where
  "demo_stuck = run (accept_step demo_accept_env) (new_project (demo_oid (CHR ''a'')) demo_placement) demo_closed"

lemma demo_stuck_state:
  "map aj_phase (open_accepts demo_stuck) = [AMainUpdated]"
  "map (\<lambda>j. (ap_operation (aj_plan j), map ax_kind (ap_relations (aj_plan j)), map ax_ticket (ap_relations (aj_plan j)))) (open_accepts demo_stuck)
    = [(''o'', [Resolves], [''t''])]"
  "map (\<lambda>t. (tk_id t, tk_status t)) (cb_tickets (ad_collab demo_stuck)) = [(''t'', TicketClosed)]"
  by code_simp+


section \<open>An acceptance that waits for itself\<close>

lemma open_read:
  assumes "accept_ok E m db" "open_accepts db = [j]"
  shows "get_open_accept E db = Inr (Some j)"
proof -
  have t: "accept_tables_ok E m db" by (rule ok_shape(2) [OF assms(1)])
  then have stored: "\<forall>k\<in>set (ad_journals db). stored_ok E k" by (simp add: accept_tables_ok_def)
  have j: "j \<in> set (ad_journals db)" using arg_cong [OF assms(2), of set] by (auto simp: open_accepts_def)
  have opaque: "ic_opaque (ae_ids E) (ap_operation (aj_plan j))"
    using stored j by (auto simp: stored_ok_def canonical_prepare_def rbind_Inr require_def ensure_Inr row_input_def)
  obtain k where k: "List.find (has_operation (ap_operation (aj_plan j))) (ad_journals db) = Some k"
    using j by (cases "List.find (has_operation (ap_operation (aj_plan j))) (ad_journals db)") (auto simp: find_None_iff has_operation_def)
  then have "k \<in> set (ad_journals db)" "has_operation (ap_operation (aj_plan j)) k" by (auto simp: find_Some_iff)
  then have "k = j" using same_operation [OF t j] by (simp add: has_operation_def)
  then show ?thesis
    using k opaque by (simp add: get_open_accept_def assms(2) get_accept_stored [OF stored] require_def ensure_def rbind_def)
qed

text \<open>The permits that an acceptance leaves to its own recovery.\<close>

lemma recovery_starves:
  "wo_permits w \<ge> gi_permits G \<Longrightarrow> recover_accept E G P w = (Inl (Repository RUnavailable), w)"
  by (simp add: recover_accept_def with_reservation_def andthen_def reserve_accept_def)


definition demo_world :: world where
  "demo_world = \<lparr>wo_db = demo_ready, wo_membership = Some \<lparr>me_member = ''m'', me_revision = 1, me_manager = True\<rparr>,
     wo_bootstrap = None, wo_join = False, wo_lifecycle = None,
     wo_refs = [(main_ref, demo_oid (CHR ''d'')), (''refs/m'', demo_oid (CHR ''b''))], wo_commits = [], wo_permits = 0,
     wo_faults = [], wo_ticks = 0\<rparr>"


end
