(* ===== verification/Texts.thy ===== *)
theory Texts
  imports Collaboration WriteAdmission
begin

text \<open>
  The texts that clients send: titles, Markdown bodies, descriptions and comments, and how
  \<open>src/src/project-authority/tickets/ProjectTicketAuthority.ts\<close> and
  \<open>src/src/project-authority/requests/ProjectRequestAuthority.ts\<close> normalize and bound them before
  anything else is done with them. A text is its sequence of UTF-16 code units.
\<close>

section \<open>Strings of JavaScript\<close>

text \<open>The white space and line terminators that \<open>trim\<close> removes.\<close>

definition js_space :: "nat \<Rightarrow> bool" where
  "js_space c \<longleftrightarrow> c \<in> {9, 10, 11, 12, 13, 32, 0xA0, 0x1680, 0x2028, 0x2029, 0x202F, 0x205F, 0x3000, 0xFEFF}
     \<or> 0x2000 \<le> c \<and> c \<le> 0x200A"

definition trim_end :: "('a \<Rightarrow> bool) \<Rightarrow> 'a list \<Rightarrow> 'a list" where
  "trim_end P xs = rev (dropWhile P (rev xs))"

definition js_trim :: "utf16 \<Rightarrow> utf16" where
  "js_trim s = trim_end js_space (dropWhile js_space s)"

text \<open>\<open>replace(/\r\n?/gu, '\n')\<close>\<close>

fun newlines :: "utf16 \<Rightarrow> utf16" where
  "newlines [] = []"
| "newlines [c] = [if c = 13 then 10 else c]"
| "newlines (c # d # cs) =
     (if c = 13 \<and> d = 10 then 10 # newlines cs else (if c = 13 then 10 else c) # newlines (d # cs))"

fun split_lines :: "utf16 \<Rightarrow> utf16 list" where
  "split_lines [] = [[]]"
| "split_lines (c # cs) =
     (if c = 10 then [] # split_lines cs
      else (case split_lines cs of [] \<Rightarrow> [[c]] | l # ls \<Rightarrow> (c # l) # ls))"

fun join_lines :: "utf16 list \<Rightarrow> utf16" where
  "join_lines [] = []"
| "join_lines [l] = l"
| "join_lines (l # ls) = l @ 10 # join_lines ls"

definition blank :: "utf16 \<Rightarrow> bool" where
  "blank s \<longleftrightarrow> js_trim s = []"

section \<open>Normal forms\<close>

definition normalize_title :: "int \<Rightarrow> utf16 \<Rightarrow> failure + utf16" where
  "normalize_title maximum title =
     (let normalized = js_trim title
      in if length normalized = 0 \<or> int (length normalized) > maximum
         then Inl (Domain ''protocol-payload-invalid'' ''ticket-title-invalid'') else Inr normalized)"

definition without_blank_edges :: "utf16 \<Rightarrow> utf16" where
  "without_blank_edges value = join_lines (trim_end blank (dropWhile blank (split_lines (newlines value))))"

definition normalize_markdown :: "int \<Rightarrow> string \<Rightarrow> utf16 \<Rightarrow> failure + utf16" where
  "normalize_markdown maximum field value =
     (let normalized = without_blank_edges value
      in if length (js_trim normalized) = 0 then Inl (Domain ''protocol-payload-invalid'' (field @ ''-blank''))
         else if utf8_length normalized > maximum then Inl (Domain ''quota-exceeded'' (field @ ''-too-large''))
         else Inr normalized)"

definition normalize_description :: "int \<Rightarrow> utf16 \<Rightarrow> failure + utf16" where
  "normalize_description maximum description =
     (let normalized = without_blank_edges description
      in if length (js_trim normalized) = 0 then Inl (Domain ''description-required'' ''request-description-empty'')
         else if utf8_length normalized > maximum then Inl (Domain ''quota-exceeded'' ''request-description-limit'')
         else Inr normalized)"

text \<open>The Unicode normal form is a parameter; the control characters are single code units.\<close>

definition forbidden_control :: "nat \<Rightarrow> bool" where
  "forbidden_control c \<longleftrightarrow> c \<le> 8 \<or> c = 11 \<or> c = 12 \<or> 14 \<le> c \<and> c \<le> 31 \<or> c = 127"

definition normalize_comment :: "(utf16 \<Rightarrow> utf16) \<Rightarrow> int \<Rightarrow> utf16 \<Rightarrow> failure + utf16" where
  "normalize_comment nfc maximum body =
     (let normalized = js_trim (newlines (nfc body))
      in if length normalized = 0 \<or> utf8_length normalized > maximum \<or> list_ex forbidden_control normalized
         then Inl (Domain ''protocol-payload-invalid'' ''request-comment-body-invalid'') else Inr normalized)"

section \<open>Normalizing again changes nothing\<close>

lemma trim_end_ends: "trim_end P xs = [] \<or> \<not> P (last (trim_end P xs))"
  using hd_dropWhile [of P "rev xs"] by (auto simp: trim_end_def last_rev)

lemma trim_end_id: "xs = [] \<or> \<not> P (last xs) \<Longrightarrow> trim_end P xs = xs"
  by (cases xs rule: rev_cases) (auto simp: trim_end_def)

lemma trim_end_again [simp]: "trim_end P (trim_end P xs) = trim_end P xs"
  by (rule trim_end_id) (rule trim_end_ends)

lemma trim_end_prefix: "\<exists>zs. xs = trim_end P xs @ zs"
proof -
  have "rev xs = takeWhile P (rev xs) @ dropWhile P (rev xs)" by simp
  then have "xs = rev (dropWhile P (rev xs)) @ rev (takeWhile P (rev xs))" by (metis rev_append rev_rev_ident)
  then show ?thesis unfolding trim_end_def by blast
qed

lemma dropWhile_trimmed: "dropWhile P (trim_end P (dropWhile P xs)) = trim_end P (dropWhile P xs)"
proof (cases "trim_end P (dropWhile P xs)")
  case (Cons y ys)
  obtain zs where "dropWhile P xs = (y # ys) @ zs" using trim_end_prefix [of "dropWhile P xs" P] Cons by auto
  then have "\<not> P y" using hd_dropWhile [of P xs] by (metis append_Cons list.distinct(1) list.sel(1))
  then show ?thesis using Cons by simp
qed simp

lemma js_trim_again [simp]: "js_trim (js_trim s) = js_trim s"
  by (simp add: js_trim_def dropWhile_trimmed)

lemma set_trimmed: "set (trim_end P xs) \<subseteq> set xs" "set (dropWhile P xs) \<subseteq> set xs" "set (js_trim s) \<subseteq> set s"
  by (auto simp: trim_end_def js_trim_def dest!: set_dropWhileD)

lemma newlines_no_return: "13 \<notin> set (newlines s)"
  by (induction s rule: newlines.induct) auto

lemma newlines_id: "13 \<notin> set s \<Longrightarrow> newlines s = s"
  by (induction s rule: newlines.induct) auto

lemma split_lines_ne [simp]: "split_lines s \<noteq> []"
  by (induction s) (auto split: list.split)

lemma join_split_lines: "join_lines (split_lines s) = s"
proof (induction s)
  case (Cons c s)
  then show ?case by (cases "split_lines s"; cases "tl (split_lines s)") auto
qed simp

lemma split_lines_plain: "l \<in> set (split_lines s) \<Longrightarrow> 10 \<notin> set l \<and> set l \<subseteq> set s"
proof (induction s arbitrary: l)
  case (Cons c s)
  have ih: "10 \<notin> set m \<and> set m \<subseteq> set s" if "m \<in> set (split_lines s)" for m by (rule Cons.IH [OF that])
  obtain m ms where m: "split_lines s = m # ms" by (cases "split_lines s") auto
  have "l = c # m \<and> c \<noteq> 10 \<or> l \<in> set (split_lines s) \<or> l = []" using Cons.prems m by (auto split: if_splits)
  then show ?case using ih [of m] ih [of l] m by auto
qed simp

lemma split_append: "10 \<notin> set l \<Longrightarrow> split_lines (l @ s) = (l @ hd (split_lines s)) # tl (split_lines s)"
  by (induction l) (auto split: list.split)

lemma split_joined_lines: "ls \<noteq> [] \<Longrightarrow> \<forall>l\<in>set ls. 10 \<notin> set l \<Longrightarrow> split_lines (join_lines ls) = ls"
proof (induction ls rule: join_lines.induct)
  case (2 l)
  then show ?case using split_append [of l "[]"] by simp
next
  case (3 l m ls)
  then show ?case using split_append [of l "10 # join_lines (m # ls)"] by simp
qed simp

lemma set_join: "set (join_lines ls) \<subseteq> insert 10 (\<Union>l\<in>set ls. set l)"
  by (induction ls rule: join_lines.induct) auto

lemma blank_edges_again: "without_blank_edges (without_blank_edges s) = without_blank_edges s"
proof -
  define ls where "ls = trim_end blank (dropWhile blank (split_lines (newlines s)))"
  have e: "without_blank_edges s = join_lines ls" by (simp add: without_blank_edges_def ls_def)
  have mem: "l \<in> set (split_lines (newlines s))" if "l \<in> set ls" for l
    using that unfolding ls_def by (rule subsetD [OF subset_trans [OF set_trimmed(1,2)]])
  have plain: "\<forall>l\<in>set ls. 10 \<notin> set l" using mem split_lines_plain by blast
  have "13 \<notin> set l" if "l \<in> set ls" for l
    using split_lines_plain [OF mem [OF that]] newlines_no_return [of s] by auto
  then have "13 \<notin> insert 10 (\<Union>l\<in>set ls. set l)" by simp
  then have "13 \<notin> set (join_lines ls)" using subsetD [OF set_join] by metis
  then have n: "newlines (join_lines ls) = join_lines ls" by (rule newlines_id)
  have again: "trim_end blank (dropWhile blank ls) = ls" unfolding ls_def by (simp add: dropWhile_trimmed)
  show ?thesis
  proof (cases "ls = []")
    case True
    have "blank []" by (simp add: blank_def js_trim_def trim_end_def)
    then show ?thesis unfolding e True by (simp add: without_blank_edges_def trim_end_def)
  next
    case False
    then have "split_lines (join_lines ls) = ls" using plain by (rule split_joined_lines)
    then show ?thesis unfolding e by (simp add: without_blank_edges_def n again)
  qed
qed

lemma normalized_markdown:
  assumes "normalize_markdown maximum field s = Inr t"
  shows "normalize_markdown maximum field t = Inr t \<and> bounded_text t maximum False = Inr ()"
proof -
  have t: "t = without_blank_edges s" "js_trim t \<noteq> []" "utf8_length t \<le> maximum"
    using assms by (auto simp: normalize_markdown_def Let_def split: if_splits)
  have "t \<noteq> []" using t(2) by (auto simp: js_trim_def trim_end_def)
  moreover have "without_blank_edges t = t" unfolding t(1) by (rule blank_edges_again)
  ultimately show ?thesis using t(2,3) by (simp add: normalize_markdown_def Let_def bounded_text_def require_def)
qed

lemma normalized_description:
  assumes "normalize_description maximum s = Inr t"
  shows "normalize_description maximum t = Inr t \<and> bounded_text t maximum True = Inr ()"
proof -
  have t: "t = without_blank_edges s" "js_trim t \<noteq> []" "utf8_length t \<le> maximum"
    using assms by (auto simp: normalize_description_def Let_def split: if_splits)
  have "without_blank_edges t = t" unfolding t(1) by (rule blank_edges_again)
  then show ?thesis using t(2,3) by (simp add: normalize_description_def Let_def bounded_text_def require_def)
qed

lemma normalized_title:
  "normalize_title maximum s = Inr t \<Longrightarrow> normalize_title maximum t = Inr t \<and> bounded_utf16 t maximum = Inr ()"
  by (auto simp: normalize_title_def Let_def bounded_utf16_def require_def ensure_def split: if_splits)

lemma normalized_comment:
  assumes "normalize_comment nfc maximum s = Inr t"
  shows "bounded_text t maximum False = Inr () \<and> (nfc t = t \<longrightarrow> normalize_comment nfc maximum t = Inr t)"
proof -
  have t: "t = js_trim (newlines (nfc s))" "t \<noteq> []" "utf8_length t \<le> maximum" "\<not> list_ex forbidden_control t"
    using assms by (auto simp: normalize_comment_def Let_def split: if_splits)
  have "13 \<notin> set t" unfolding t(1) using subsetD [OF set_trimmed(3)] newlines_no_return by metis
  then have "js_trim (newlines t) = t" using newlines_id by (simp add: t(1))
  then show ?thesis using t(2-4) by (simp add: normalize_comment_def Let_def bounded_text_def require_def)
qed

end
