(* ===== verification/Authority.thy ===== *)
theory Authority
  imports AcceptSafety Texts
begin

text \<open>
  What the authorities of tickets and of change requests share
  (\<open>src/src/project-authority/tickets/ProjectTicketAuthority.ts\<close> and
  \<open>src/src/project-authority/requests/ProjectRequestAuthority.ts\<close>): transactions over the tables of a
  Project, the admission of reads
  (\<open>src/src/project-authority/admission/ProjectCollaborationReadAdmission.ts\<close>), and writes that a client
  may repeat, which are done once.
\<close>

section \<open>Transactions\<close>

text \<open>
  The body of a \<open>transact\<close> callback: it returns a value and the new tables, or throws, and then the
  tables stay as they were.
\<close>

type_synonym 'a tx = "accept_db \<Rightarrow> failure + 'a \<times> accept_db"

definition tx_give :: "'a \<Rightarrow> 'a tx" where
  "tx_give x db = Inr (x, db)"

definition tx_throw :: "string \<Rightarrow> string \<Rightarrow> 'a tx" where
  "tx_throw code reason db = Inl (Domain code reason)"

definition tx_then :: "'a tx \<Rightarrow> ('a \<Rightarrow> 'b tx) \<Rightarrow> 'b tx" where
  "tx_then t f db = rbind (t db) (\<lambda>(x, db'). f x db')"

definition tx_check :: "bool \<Rightarrow> string \<Rightarrow> string \<Rightarrow> unit tx" where
  "tx_check b code reason = (if b then tx_give () else tx_throw code reason)"

definition tx_lift :: "failure + 'a \<Rightarrow> 'a tx" where
  "tx_lift r db = rbind r (\<lambda>x. Inr (x, db))"

text \<open>\<open>scope.collaboration\<close>: a read, and a write that the journals of acceptances allow.\<close>

definition collab_read :: "(collab_db \<Rightarrow> coord_error + 'a) \<Rightarrow> 'a tx" where
  "collab_read q db = rbind (coordination (q (ad_collab db))) (\<lambda>x. Inr (x, db))"

definition collab_write :: "(collab_db \<Rightarrow> coord_error + 'a \<times> collab_db) \<Rightarrow> 'a tx" where
  "collab_write t db =
     rbind (coordination (t (ad_collab db))) (\<lambda>(x, c).
       if relations_kept db c then Inr (x, db\<lparr>ad_collab := c\<rparr>) else Inl (Coordination DependencyFailed))"

definition announce :: "accept_env \<Rightarrow> string \<Rightarrow> (string \<times> string) list \<Rightarrow> int \<Rightarrow> unit tx" where
  "announce E kind payload now db =
     rbind (coordination (append_event (ae_events E)
       \<lparr>px_newKind = kind, px_newPayload = payload, px_newOccurredAt = Stamp now\<rparr> (ad_events db))) (\<lambda>(_, ev).
       Inr ((), db\<lparr>ad_events := ev\<rparr>))"

section \<open>Reads\<close>

text \<open>
  A read needs no lease and does not care about an open acceptance; it is refused while the Project is
  created, joined or moved. Each of its transactions authorizes again and compares the facts.
\<close>

definition authorize_read :: "accept_env \<Rightarrow> world \<Rightarrow> failure + write_facts" where
  "authorize_read E w =
     rbind (authorize_member w) (\<lambda>_.
     rbind (ensure (wo_bootstrap w = None) (Admission AdmissionRecoveryRequired)) (\<lambda>_.
     rbind (ensure (\<not> wo_join w) (Admission AdmissionRecoveryRequired)) (\<lambda>_.
     rbind (ensure (wo_lifecycle w = None) (Admission AdmissionRecoveryRequired)) (\<lambda>_.
       authorize E w))))"

definition same_facts :: "write_facts \<Rightarrow> write_facts \<Rightarrow> bool" where
  "same_facts a b \<longleftrightarrow> wf_main a = wf_main b \<and> wf_member a = wf_member b \<and> wf_revision a = wf_revision b
     \<and> wf_manager a = wf_manager b \<and> same_placement (wf_placement a) (wf_placement b)"

definition read_transact :: "accept_env \<Rightarrow> write_facts \<Rightarrow> (accept_db \<Rightarrow> failure + 'a) \<Rightarrow> 'a act" where
  "read_transact E expected q =
     query (\<lambda>w. rbind (authorize_read E w) (\<lambda>current.
       rbind (ensure (same_facts current expected) (Admission AdmissionStateConflict)) (\<lambda>_. q (wo_db w))))"

definition run_read :: "accept_env \<Rightarrow> (write_facts \<Rightarrow> 'a act) \<Rightarrow> 'a act" where
  "run_read E operation = track (andthen (query (authorize_read E)) operation)"

section \<open>Repeatable writes\<close>

text \<open>
  What a client asks for, as it goes into the fingerprint of a write, and what it is answered. Both
  are JSON texts for the code: the fingerprint is the digest of the one, and the other is stored.
\<close>

datatype call_fields =
    TicketFields utf16 utf16
  | ContentFields utf16 int string utf16
  | TicketCommentFields utf16 string
  | StatusFields int ticket_status string
  | RequestCommentFields utf16 string
  | MetadataFields utf16 string int string
  | EnsureFields utf16 string string

datatype reply =
    TicketCreated utf16 ticket_view
  | TicketChanged ticket_view
  | TicketCommented comment_row ticket_view
  | RequestCommented comment_row request_view
  | RequestChanged request_view
  | RequestEnsured string request_view

text \<open>
  The parameters: the digest, the codec of the protocol package (\<open>None\<close> when a stored response does
  not decode), fresh identifiers by the time of the clock and a number, the parsers of mentions and of
  ticket references, and the memberships of the Project when the call runs: identifier, display
  name, and whether it is active.
\<close>

datatype references = InvalidReferences bool | ValidReferences "(relation_kind \<times> int) list"

record authority_env =
  au_fingerprint :: "call_fields \<Rightarrow> string"
  au_encode :: "reply \<Rightarrow> string"
  au_decode :: "string \<Rightarrow> response \<Rightarrow> reply option"
  au_id :: "nat \<Rightarrow> nat \<Rightarrow> string"
  au_mentions :: "utf16 \<Rightarrow> (string \<times> utf16) list \<Rightarrow> string list"
  au_references :: "utf16 \<Rightarrow> references"
  au_roster :: "(string \<times> utf16 \<times> bool) list"
  au_nfc :: "utf16 \<Rightarrow> utf16"
  au_snapshotBytes :: "request_view list \<Rightarrow> int"
  au_maxSnapshotBytes :: int
  au_maxOpenRequests :: int

definition decoded_reply :: "authority_env \<Rightarrow> string \<Rightarrow> string \<Rightarrow> response \<Rightarrow> failure + reply" where
  "decoded_reply A operation reason r =
     (case au_decode A operation r of
        None \<Rightarrow> Inl (Domain ''authority-integrity-error'' reason)
      | Some x \<Rightarrow> Inr x)"

text \<open>The name of a write, its key and fields, and the reasons of its refusals.\<close>

record write_call =
  wc_operation :: string
  wc_key :: string
  wc_fields :: call_fields
  wc_reused :: string
  wc_undecodable :: string

definition call_identity :: "authority_env \<Rightarrow> write_call \<Rightarrow> string \<Rightarrow> idempotency_identity" where
  "call_identity A c member = \<lparr>ii_key = wc_key c, ii_member = member, ii_operation = wc_operation c,
     ii_fingerprint = au_fingerprint A (wc_fields c)\<rparr>"

text \<open>The stored answer of an earlier call, if there is one.\<close>

definition earlier_reply :: "accept_env \<Rightarrow> authority_env \<Rightarrow> write_call \<Rightarrow> write_facts \<Rightarrow> reply option tx" where
  "earlier_reply E A c facts =
     tx_then (collab_read (find_result (ae_collab E) (call_identity A c (wf_member facts)))) (\<lambda>found.
       case found of
         Conflict \<Rightarrow> tx_throw ''idempotency-conflict'' (wc_reused c)
       | Replay r \<Rightarrow> tx_then (tx_lift (decoded_reply A (wc_operation c) (wc_undecodable c) r)) (\<lambda>x. tx_give (Some x))
       | Missing \<Rightarrow> tx_give None)"

definition keep_reply :: "accept_env \<Rightarrow> authority_env \<Rightarrow> write_call \<Rightarrow> write_facts \<Rightarrow> int \<Rightarrow> reply \<Rightarrow> reply tx" where
  "keep_reply E A c facts now x =
     tx_then (collab_write (store_result (ae_collab E) (call_identity A c (wf_member facts)) (Stamp now)
         (OtherResponse (au_encode A x)))) (\<lambda>stored.
       case stored of
         StoreConflict \<Rightarrow> tx_throw ''idempotency-conflict'' (wc_reused c)
       | StoreReplay r \<Rightarrow> tx_lift (decoded_reply A (wc_operation c) (wc_undecodable c) r)
       | Stored _ \<Rightarrow> tx_give x)"

text \<open>
  The transaction of a write: it looks again, changes the tables, and keeps the answer. The number of
  the tick stands for the clock and the identifiers that the transaction uses.
\<close>

definition write_once ::
  "accept_env \<Rightarrow> authority_env \<Rightarrow> process_env \<Rightarrow> write_call \<Rightarrow> write_facts \<Rightarrow> (nat \<Rightarrow> int \<Rightarrow> reply tx) \<Rightarrow> nat \<Rightarrow> reply tx" where
  "write_once E A P c facts mutation n =
     tx_then (earlier_reply E A c facts) (\<lambda>x.
       case x of
         Some r \<Rightarrow> tx_give r
       | None \<Rightarrow> tx_then (mutation n (pe_clock P n)) (\<lambda>r. keep_reply E A c facts (pe_clock P n) r))"

definition tick :: "nat act" where
  "tick w = (Inr (wo_ticks w), w\<lparr>wo_ticks := wo_ticks w + 1\<rparr>)"

text \<open>\<open>#mutateIdempotently\<close>, with what happens between the first look and the transaction.\<close>

definition repeatable_write ::
  "accept_env \<Rightarrow> authority_env \<Rightarrow> process_env \<Rightarrow> write_call \<Rightarrow> (write_facts \<Rightarrow> unit act)
    \<Rightarrow> (write_facts \<Rightarrow> nat \<Rightarrow> int \<Rightarrow> reply tx) \<Rightarrow> write_facts \<Rightarrow> reply act" where
  "repeatable_write E A P c before mutation facts =
     andthen (transact E facts None (earlier_reply E A c facts)) (\<lambda>x.
       case x of
         Some r \<Rightarrow> give r
       | None \<Rightarrow>
           andthen (before facts) (\<lambda>_.
           andthen tick (\<lambda>n. transact E facts None (write_once E A P c facts (mutation facts) n))))"

section \<open>What transactions keep\<close>

text \<open>
  A transaction of an authority changes the collaboration tables, in a way that keeps them
  well-formed, loses nothing and merges nothing, and the events.
\<close>

definition merged_only :: "collab_db \<Rightarrow> collab_db \<Rightarrow> bool" where
  "merged_only c c' \<longleftrightarrow> (\<forall>q\<in>set (cb_requests c'). rq_status q = Merged \<longrightarrow> q \<in> set (cb_requests c))"

definition tx_sound :: "'a tx \<Rightarrow> bool" where
  "tx_sound t \<longleftrightarrow> (\<forall>db x db'. t db = Inr (x, db') \<longrightarrow>
     (\<exists>c ev. db' = db\<lparr>ad_collab := c, ad_events := ev\<rparr> \<and> sound_step (ad_collab db) c \<and> merged_only (ad_collab db) c))"

named_theorems tx \<open>transactions that keep the tables of a Project well-formed\<close>

lemma tx_soundI:
  "(\<And>db x db'. t db = Inr (x, db') \<Longrightarrow>
     \<exists>c ev. db' = db\<lparr>ad_collab := c, ad_events := ev\<rparr> \<and> sound_step (ad_collab db) c \<and> merged_only (ad_collab db) c) \<Longrightarrow> tx_sound t"
  unfolding tx_sound_def by blast

lemma tx_soundE:
  assumes "tx_sound t" "t db = Inr (x, db')"
  obtains c ev where "db' = db\<lparr>ad_collab := c, ad_events := ev\<rparr>" "sound_step (ad_collab db) c" "merged_only (ad_collab db) c"
  using assms unfolding tx_sound_def by blast

lemma tx_unchanged: "(\<And>db x db'. t db = Inr (x, db') \<Longrightarrow> db' = db) \<Longrightarrow> tx_sound t"
proof (rule tx_soundI)
  fix db x db' assume "\<And>db x db'. t db = Inr (x, db') \<Longrightarrow> db' = db" "t db = Inr (x, db')"
  then have "db' = db" by blast
  then show "\<exists>c ev. db' = db\<lparr>ad_collab := c, ad_events := ev\<rparr> \<and> sound_step (ad_collab db) c \<and> merged_only (ad_collab db) c"
    by (intro exI [of _ "ad_collab db"] exI [of _ "ad_events db"]) (simp add: merged_only_def)
qed

lemma tx_basic [tx]: "tx_sound (tx_give x)" "tx_sound (tx_throw code reason)" "tx_sound (tx_lift r)" "tx_sound (collab_read q)"
  "tx_sound (tx_check b code reason)"
  by (rule tx_unchanged, auto simp: tx_give_def tx_throw_def tx_lift_def collab_read_def tx_check_def rbind_Inr split: if_splits)+

lemma tx_sound_then [tx]:
  assumes "tx_sound t" "\<And>x. tx_sound (f x)"
  shows "tx_sound (tx_then t f)"
proof (rule tx_soundI)
  fix db y db'' assume "tx_then t f db = Inr (y, db'')"
  then obtain x db' where t: "t db = Inr (x, db')" "f x db' = Inr (y, db'')" by (auto simp: tx_then_def rbind_Inr)
  obtain c ev where 1: "db' = db\<lparr>ad_collab := c, ad_events := ev\<rparr>" "sound_step (ad_collab db) c" "merged_only (ad_collab db) c"
    using tx_soundE [OF assms(1) t(1)] .
  obtain c' ev' where 2: "db'' = db'\<lparr>ad_collab := c', ad_events := ev'\<rparr>" "sound_step (ad_collab db') c'" "merged_only (ad_collab db') c'"
    using tx_soundE [OF assms(2) t(2)] .
  have "db'' = db\<lparr>ad_collab := c', ad_events := ev'\<rparr>" using 1 2 by simp
  moreover have "sound_step (ad_collab db) c'" using 1 2 sound_trans by auto
  moreover have "merged_only (ad_collab db) c'" using 1 2 by (simp add: merged_only_def)
  ultimately show "\<exists>c ev. db'' = db\<lparr>ad_collab := c, ad_events := ev\<rparr> \<and> sound_step (ad_collab db) c \<and> merged_only (ad_collab db) c" by blast
qed

lemma tx_lookup [tx]: "tx_sound t \<Longrightarrow> tx_sound u \<Longrightarrow> (\<And>r. tx_sound (f r)) \<Longrightarrow>
    tx_sound (case l of Missing \<Rightarrow> t | Conflict \<Rightarrow> u | Replay r \<Rightarrow> f r)"
  "tx_sound t \<Longrightarrow> (\<And>r. tx_sound (f r)) \<Longrightarrow> (\<And>r. tx_sound (g r)) \<Longrightarrow>
    tx_sound (case st of StoreConflict \<Rightarrow> t | StoreReplay r \<Rightarrow> f r | Stored r \<Rightarrow> g r)"
  by (cases l; simp) (cases st; simp)

lemma tx_split [tx]: "(b \<Longrightarrow> tx_sound t) \<Longrightarrow> (\<not> b \<Longrightarrow> tx_sound u) \<Longrightarrow> tx_sound (if b then t else u)"
  "(x = None \<Longrightarrow> tx_sound t) \<Longrightarrow> (\<And>y. x = Some y \<Longrightarrow> tx_sound (f y)) \<Longrightarrow> tx_sound (case x of None \<Rightarrow> t | Some y \<Rightarrow> f y)"
  "(\<And>a b. tx_sound (g a b)) \<Longrightarrow> tx_sound (case p of (a, b) \<Rightarrow> g a b)"
  by (cases x; cases p; simp)+

lemma tx_announce [tx]: "tx_sound (announce E kind payload now)"
proof (rule tx_soundI)
  fix db x db' assume "announce E kind payload now db = Inr (x, db')"
  then obtain ev where "db' = db\<lparr>ad_events := ev\<rparr>" by (auto simp: announce_def rbind_Inr)
  then have "db' = db\<lparr>ad_collab := ad_collab db, ad_events := ev\<rparr>" by simp
  then show "\<exists>c ev. db' = db\<lparr>ad_collab := c, ad_events := ev\<rparr> \<and> sound_step (ad_collab db) c \<and> merged_only (ad_collab db) c"
    using sound_refl by (metis merged_only_def)
qed

text \<open>The writes are the commands of theory \<open>Collaboration\<close>.\<close>

lemma tx_command:
  assumes "\<And>c x c'. t c = Inr (x, c') \<Longrightarrow> \<exists>k. collab_step E c k = c'"
  shows "tx_sound (collab_write t)"
proof (rule tx_soundI)
  fix db x db' assume "collab_write t db = Inr (x, db')"
  then obtain c where c: "t (ad_collab db) = Inr (x, c)" "db' = db\<lparr>ad_collab := c\<rparr>"
    by (auto simp: collab_write_def rbind_Inr split: if_splits)
  obtain k where k: "c = collab_step E (ad_collab db) k" using assms [OF c(1)] by blast
  have "sound_step (ad_collab db) c" unfolding k by (rule collab_step_sound)
  moreover have "merged_only (ad_collab db) c" unfolding k merged_only_def using collab_merges_nothing by blast
  ultimately show "\<exists>c ev. db' = db\<lparr>ad_collab := c, ad_events := ev\<rparr> \<and> sound_step (ad_collab db) c \<and> merged_only (ad_collab db) c"
    using c(2) by (intro exI [of _ c] exI [of _ "ad_events db"]) simp
qed

lemma committed_Inr [simp]: "committed (Inr (x, db')) db = db'" by (simp add: committed_def)

lemma tx_writes [tx]:
  "tx_sound (collab_write (create_ticket E i0))"
  "tx_sound (collab_write (create_ticket_comment E i1))"
  "tx_sound (collab_write (update_ticket_content E i2))"
  "tx_sound (collab_write (change_ticket_status E i3))"
  "tx_sound (collab_write (replace_mentions E i4))"
  "tx_sound (collab_write (store_result E i5 t r))"
  "tx_sound (collab_write (create_request E i6))"
  "tx_sound (collab_write (create_request_comment E i7))"
  "tx_sound (collab_write (update_open E i8))"
  "tx_sound (collab_write (replace_pending_relations E i9))"
proof -
  show "tx_sound (collab_write (create_ticket E i0))"
    by (rule tx_command [where E = E], rule exI [of _ "CreateTicket i0"]) simp
  show "tx_sound (collab_write (create_ticket_comment E i1))"
    by (rule tx_command [where E = E], rule exI [of _ "CommentTicket i1"]) simp
  show "tx_sound (collab_write (update_ticket_content E i2))"
    by (rule tx_command [where E = E], rule exI [of _ "UpdateTicket i2"]) simp
  show "tx_sound (collab_write (change_ticket_status E i3))"
    by (rule tx_command [where E = E], rule exI [of _ "ChangeStatus i3"]) simp
  show "tx_sound (collab_write (replace_mentions E i4))"
    by (rule tx_command [where E = E], rule exI [of _ "ReplaceMentions i4"]) simp
  show "tx_sound (collab_write (store_result E i5 t r))"
    by (rule tx_command [where E = E], rule exI [of _ "StoreResult i5 t r"]) simp
  show "tx_sound (collab_write (create_request E i6))"
    by (rule tx_command [where E = E], rule exI [of _ "CreateRequest i6"]) simp
  show "tx_sound (collab_write (create_request_comment E i7))"
    by (rule tx_command [where E = E], rule exI [of _ "CommentRequest i7"]) simp
  show "tx_sound (collab_write (update_open E i8))"
    by (rule tx_command [where E = E], rule exI [of _ "UpdateRequest i8"]) simp
  show "tx_sound (collab_write (replace_pending_relations E i9))"
    by (rule tx_command [where E = E], rule exI [of _ "ReplaceRelations i9"]) simp
qed

lemma tx_earlier_reply [tx]: "tx_sound (earlier_reply E A c facts)"
  unfolding earlier_reply_def by (intro tx)

lemma tx_keep_reply [tx]: "tx_sound (keep_reply E A c facts now x)"
  unfolding keep_reply_def by (intro tx)

lemma tx_write_once [tx]: "(\<And>n now. tx_sound (mutation n now)) \<Longrightarrow> tx_sound (write_once E A P c facts mutation n)"
  unfolding write_once_def by (intro tx)

text \<open>Such a transaction keeps the agreement of the main branch and the database.\<close>

lemma tx_accept_sound:
  assumes "tx_sound t" "t db = Inr (x, db')"
  shows "accept_sound E m db db'" "open_accepts db' = open_accepts db" "ad_project db' = ad_project db"
proof -
  obtain c ev where d: "db' = db\<lparr>ad_collab := c, ad_events := ev\<rparr>" "sound_step (ad_collab db) c" "merged_only (ad_collab db) c"
    using tx_soundE [OF assms] .
  have "accept_sound E m db (db\<lparr>ad_collab := c\<rparr>)"
    by (rule collab_sound [OF d(2)]) (use d(3) in \<open>auto simp: merged_only_def\<close>)
  moreover have "accept_sound E m (db\<lparr>ad_collab := c\<rparr>) (db\<lparr>ad_collab := c\<rparr>\<lparr>ad_events := ev\<rparr>)" by (rule event_irrelevant(1))
  ultimately show "accept_sound E m db db'" using accept_grows_trans d(1) by (auto simp: accept_sound_def)
  show "open_accepts db' = open_accepts db" "ad_project db' = ad_project db" using d(1) by (simp_all add: open_accepts_def)
qed

lemma tx_agrees:
  assumes "tx_sound t" "t db = Inr (x, db')" "main_agrees db refs"
  shows "main_agrees db' refs"
  using agrees_cong [OF tx_accept_sound(2,3) [OF assms(1,2)], of refs] assms(3) by simp

text \<open>Who calls, and that an answer was kept for that member.\<close>

definition caller :: "world \<Rightarrow> string option" where
  "caller w = map_option me_member (wo_membership w)"

definition reply_codec :: "authority_env \<Rightarrow> reply \<Rightarrow> bool" where
  "reply_codec A x \<longleftrightarrow> (\<forall>operation. au_decode A operation (OtherResponse (au_encode A x)) = Some x)"

definition kept :: "authority_env \<Rightarrow> write_call \<Rightarrow> string \<Rightarrow> reply \<Rightarrow> accept_db \<Rightarrow> bool" where
  "kept A c member x db \<longleftrightarrow> (\<exists>r\<in>set (cb_idempotency (ad_collab db)).
     same_key (call_identity A c member) (ir_identity r)
     \<and> ii_fingerprint (ir_identity r) = ii_fingerprint (call_identity A c member)
     \<and> (reply_codec A x \<longrightarrow> au_decode A (wc_operation c) (ir_response r) = Some x))"

definition answer_kept :: "authority_env \<Rightarrow> write_call \<Rightarrow> reply \<Rightarrow> world \<Rightarrow> bool" where
  "answer_kept A c x w \<longleftrightarrow> (\<exists>m. caller w = Some m \<and> kept A c m x (wo_db w))"

lemma lasting_answer_kept: "lasting (answer_kept A c x)"
  by (simp add: lasting_def answer_kept_def caller_def core_def)

lemma kept_replayed:
  assumes "find_result C (call_identity A c member) (ad_collab db) = Inr (Replay r)"
    and "decoded_reply A (wc_operation c) reason r = Inr x"
  shows "kept A c member x db"
proof -
  obtain y where "y \<in> set (cb_idempotency (ad_collab db))" "same_key (call_identity A c member) (ir_identity y)"
      "ii_fingerprint (ir_identity y) = ii_fingerprint (call_identity A c member)" "ir_response y = r"
    using found_result [OF assms(1)] by blast
  moreover have "au_decode A (wc_operation c) r = Some x" using assms(2) by (simp add: decoded_reply_def split: option.splits)
  ultimately show ?thesis unfolding kept_def by blast
qed

lemma kept_found:
  assumes "earlier_reply E A c facts db = Inr (Some x, db')"
  shows "kept A c (wf_member facts) x db'"
proof -
  obtain r where "find_result (ae_collab E) (call_identity A c (wf_member facts)) (ad_collab db) = Inr (Replay r)"
      "decoded_reply A (wc_operation c) (wc_undecodable c) r = Inr x" "db' = db"
    using assms by (auto simp: earlier_reply_def tx_then_def rbind_Inr collab_read_def coordination_def tx_throw_def tx_lift_def
        tx_give_def split: sum.splits idempotency_lookup.splits)
  then show ?thesis using kept_replayed by simp
qed

lemma kept_stored:
  assumes "keep_reply E A c facts now x db = Inr (y, db')"
  shows "kept A c (wf_member facts) y db'"
proof -
  let ?i = "call_identity A c (wf_member facts)" and ?r = "OtherResponse (au_encode A x)"
  obtain s d1 where s: "collab_write (store_result (ae_collab E) ?i (Stamp now) ?r) db = Inr (s, d1)"
    and k: "(case s of StoreConflict \<Rightarrow> tx_throw ''idempotency-conflict'' (wc_reused c)
       | StoreReplay r \<Rightarrow> tx_lift (decoded_reply A (wc_operation c) (wc_undecodable c) r)
       | Stored _ \<Rightarrow> tx_give x) d1 = Inr (y, db')"
    using assms by (auto simp: keep_reply_def tx_then_def rbind_Inr)
  obtain c1 where c1: "store_result (ae_collab E) ?i (Stamp now) ?r (ad_collab db) = Inr (s, c1)" "d1 = db\<lparr>ad_collab := c1\<rparr>"
    using s by (auto simp: collab_write_def rbind_Inr coordination_def split: sum.splits if_splits)
  show ?thesis
  proof (cases s)
    case StoreConflict
    then show ?thesis using k by (simp add: tx_throw_def)
  next
    case (StoreReplay r)
    then have "decoded_reply A (wc_operation c) (wc_undecodable c) r = Inr y" "db' = d1"
      using k by (auto simp: tx_lift_def rbind_Inr)
    moreover have "find_result (ae_collab E) ?i (ad_collab db') = Inr (Replay r)"
      using store_result_cases [OF c1(1)] StoreReplay c1(2) calculation(2) by auto
    ultimately show ?thesis using kept_replayed by blast
  next
    case (Stored r)
    then have "y = x" "db' = d1" using k by (simp_all add: tx_give_def)
    moreover obtain n where "c1 = (ad_collab db)\<lparr>cb_idempotency := cb_idempotency (ad_collab db)
        @ [\<lparr>ir_identity = ?i, ir_response = ?r, ir_createdAt = n\<rparr>]\<rparr>"
      using store_result_cases [OF c1(1)] Stored by auto
    ultimately show ?thesis using c1(2) by (simp add: kept_def same_key_def reply_codec_def)
  qed
qed

lemma kept_written:
  assumes "write_once E A P c facts mutation n db = Inr (y, db')"
  shows "kept A c (wf_member facts) y db'"
proof -
  obtain z d1 where z: "earlier_reply E A c facts db = Inr (z, d1)"
    and y: "(case z of Some r \<Rightarrow> tx_give r
       | None \<Rightarrow> tx_then (mutation n (pe_clock P n)) (\<lambda>r. keep_reply E A c facts (pe_clock P n) r)) d1 = Inr (y, db')"
    using assms by (auto simp: write_once_def tx_then_def rbind_Inr)
  show ?thesis
  proof (cases z)
    case None
    then show ?thesis using y by (auto simp: tx_then_def rbind_Inr intro: kept_stored)
  next
    case (Some r)
    then show ?thesis using y z kept_found by (simp add: tx_give_def)
  qed
qed

lemma triple_tx:
  assumes t: "tx_sound t" and R: "\<And>db x db'. t db = Inr (x, db') \<Longrightarrow> R x db'"
  shows "triple Stormy (accept_inv E m d) (transact E facts operation t)
    (\<lambda>x w. accept_inv E m d w \<and> caller w = Some (wf_member facts) \<and> R x (wo_db w)) (accept_inv E m d)"
  unfolding transact_def
proof (rule triple_write [OF lasting_inv])
  fix w x db assume i: "accept_inv E m d w" and r: "rbind (revalidate E facts operation w) (\<lambda>_. t (wo_db w)) = Inr (x, db)"
  have t': "t (wo_db w) = Inr (x, db)" and "\<exists>mb. wo_membership w = Some mb \<and> me_member mb = wf_member facts"
    using r by (auto simp: rbind_Inr revalidate_def authorize_def authorize_member_def ensure_Inr split: option.splits if_splits)
  then show "accept_sound E m (wo_db w) db \<and> main_agrees db (wo_refs w)
      \<and> caller (w\<lparr>wo_db := db\<rparr>) = Some (wf_member facts) \<and> R x (wo_db (w\<lparr>wo_db := db\<rparr>))"
    using i tx_accept_sound(1) [OF t t'] tx_agrees [OF t t'] R [OF t'] by (auto simp: accept_inv_def caller_def)
qed simp

lemma stays_tick [stay]: "stays tick"
  by (rule staysI) (auto simp: tick_def)

lemma triple_repeatable_write:
  assumes "\<And>facts n now. tx_sound (mutation facts n now)" "\<And>facts. stays (before facts)"
  shows "triple Stormy (accept_inv E m d) (repeatable_write E A P c before mutation facts)
    (\<lambda>x w. accept_inv E m d w \<and> answer_kept A c x w) (accept_inv E m d)"
proof -
  let ?I = "accept_inv E m d"
  let ?Q = "\<lambda>x w. ?I w \<and> answer_kept A c x w"
  let ?first = "\<lambda>x w. ?I w \<and> caller w = Some (wf_member facts) \<and> (\<forall>r. x = Some r \<longrightarrow> kept A c (wf_member facts) r (wo_db w))"
  have s: "triple Stormy ?I n (\<lambda>_. ?I) ?I" if "stays n" for n :: "'x act" by (rule triple_stays [OF that lasting_inv])
  have "triple Stormy ?I (transact E facts None (write_once E A P c facts (mutation facts) n))
      (\<lambda>x w. ?I w \<and> caller w = Some (wf_member facts) \<and> kept A c (wf_member facts) x (wo_db w)) ?I" for n
    by (rule triple_tx [OF tx_write_once]) (use assms kept_written in auto)
  then have w: "triple Stormy ?I (transact E facts None (write_once E A P c facts (mutation facts) n)) ?Q ?I" for n
    by (rule triple_weaken) (auto simp: answer_kept_def)
  have rest: "triple Stormy ?I (andthen (before facts) (\<lambda>_.
           andthen tick (\<lambda>n. transact E facts None (write_once E A P c facts (mutation facts) n)))) ?Q ?I"
    by (rule triple_andthen [OF s [OF assms(2)]], rule triple_andthen [OF s [OF stays_tick]], rule w)
  show ?thesis unfolding repeatable_write_def
  proof (rule triple_andthen)
    show "triple Stormy ?I (transact E facts None (earlier_reply E A c facts)) ?first ?I"
      by (rule triple_tx [OF tx_earlier_reply]) (auto intro: kept_found)
    show "triple Stormy (?first x) (case x of Some r \<Rightarrow> give r | None \<Rightarrow> andthen (before facts) (\<lambda>_.
           andthen tick (\<lambda>n. transact E facts None (write_once E A P c facts (mutation facts) n)))) ?Q ?I" for x
    proof (cases x)
      case None
      have "triple Stormy (?first x) (andthen (before facts) (\<lambda>_.
           andthen tick (\<lambda>n. transact E facts None (write_once E A P c facts (mutation facts) n)))) ?Q ?I"
        by (rule triple_conseq [OF rest]) simp_all
      then show ?thesis using None by simp
    next
      case (Some r)
      then show ?thesis by (auto simp: answer_kept_def intro!: triple_give)
    qed
  qed
qed

text \<open>Asking again changes nothing.\<close>

lemma triple_repeat:
  assumes J: "lasting J" and found: "\<And>w. J w \<Longrightarrow> caller w = Some member
      \<and> (\<forall>l. find_result (ae_collab E) (call_identity A c member) (ad_collab (wo_db w)) = Inr l \<longrightarrow> l = Replay r)"
    and decoded: "au_decode A (wc_operation c) r = Some x"
  shows "triple Stormy J (repeatable_write E A P c before mutation facts) (\<lambda>_. J) J"
proof -
  have first: "triple Stormy J (transact E facts None (earlier_reply E A c facts)) (\<lambda>z w. J w \<and> z \<noteq> None) J"
    unfolding transact_def
  proof (rule triple_transaction [OF lasting_detached [OF J]])
    fix w z db assume j: "J w" and t: "rbind (revalidate E facts None w) (\<lambda>_. earlier_reply E A c facts (wo_db w)) = Inr (z, db)"
    have "caller w = Some (wf_member facts)"
      using t by (auto simp: rbind_Inr revalidate_def authorize_def authorize_member_def ensure_Inr caller_def split: option.splits if_splits)
    then have "z = Some x \<and> db = wo_db w"
      using t found [OF j] decoded
      by (auto simp: earlier_reply_def tx_then_def rbind_Inr collab_read_def coordination_def tx_lift_def decoded_reply_def tx_give_def
          split: sum.splits)
    then show "J (w\<lparr>wo_db := db\<rparr>) \<and> z \<noteq> None" using j by simp
  qed simp_all
  show ?thesis unfolding repeatable_write_def
  proof (rule triple_andthen [OF first])
    show "triple Stormy (\<lambda>w. J w \<and> z \<noteq> None) (case z of Some r \<Rightarrow> give r | None \<Rightarrow> andthen (before facts) (\<lambda>_.
        andthen tick (\<lambda>n. transact E facts None (write_once E A P c facts (mutation facts) n)))) (\<lambda>_. J) J" for z
      by (cases z) (simp_all add: triple_def give_def)
  qed
qed

lemma stays_track [stay]: "stays m \<Longrightarrow> stays (track m)"
  unfolding track_def by (intro stay) (auto split: failure.split coord_error.split intro: stay)

lemma stays_run_read [stay]: "(\<And>facts. stays (operation facts)) \<Longrightarrow> stays (run_read E operation)"
  unfolding run_read_def by (intro stay)

lemma stays_read_transact [stay]: "stays (read_transact E facts q)"
  unfolding read_transact_def by (intro stay)

end
