(* ===== verification/AuthorityPage.thy ===== *)
theory AuthorityPage
  imports Authority
begin

text \<open>
  The pages of the authorities, \<open>src/src/project-authority/ProjectAuthorityPage.ts\<close>: the cursors that
  clients are given and give back, the division of the space of a detail, and the bound on the bytes of
  a page. A page is shorter than asked for when its items are too long, and a client that follows the
  cursors still sees every item once.
\<close>

section \<open>Cursors\<close>

text \<open>
  A cursor is the base64url text of a JSON object. Parsing and printing it, and the instants of ISO
  texts, are parameters: \<open>cu_parse\<close> is \<open>None\<close> when the text is not an object, \<open>cu_time\<close> when a text is
  not a date in the form that \<open>toISOString\<close> gives.
\<close>

datatype json = JString string | JInteger int | JOther

record cursor_env =
  cu_parse :: "string \<Rightarrow> (string \<times> json) list option"
  cu_print :: "(string \<times> json) list \<Rightarrow> string"
  cu_time :: "string \<Rightarrow> int option"
  cu_iso :: "int \<Rightarrow> string"
  cu_max :: int

definition cursor_error :: "string \<Rightarrow> failure + 'a" where
  "cursor_error reason = Inl (Domain ''protocol-payload-invalid'' reason)"

definition decode_cursor :: "cursor_env \<Rightarrow> string option \<Rightarrow> string \<Rightarrow> failure + (int \<times> string) option" where
  "decode_cursor C value reason =
     (case value of
        None \<Rightarrow> Inr None
      | Some v \<Rightarrow>
          if length v = 0 \<or> int (length v) > cu_max C then cursor_error reason
          else (case cu_parse C v of
                  None \<Rightarrow> cursor_error reason
                | Some source \<Rightarrow>
                    (case (map_of source ''createdAt'', map_of source ''id'') of
                       (Some (JString t), Some (JString i)) \<Rightarrow>
                         (case cu_time C t of
                            None \<Rightarrow> cursor_error reason
                          | Some n \<Rightarrow>
                              if length i = 0 \<or> length i > 128
                                \<or> list_ex (\<lambda>(k, _). k \<noteq> ''createdAt'' \<and> k \<noteq> ''id'') source
                              then cursor_error reason else Inr (Some (n, i)))
                     | _ \<Rightarrow> cursor_error reason)))"

definition encode_cursor :: "cursor_env \<Rightarrow> int \<times> string \<Rightarrow> string" where
  "encode_cursor C = (\<lambda>(t, i). cu_print C [(''createdAt'', JString (cu_iso C t)), (''id'', JString i)])"

definition decode_ticket_cursor :: "cursor_env \<Rightarrow> string option \<Rightarrow> failure + (int \<times> int) option" where
  "decode_ticket_cursor C value =
     (case value of
        None \<Rightarrow> Inr None
      | Some v \<Rightarrow>
          if length v = 0 \<or> int (length v) > cu_max C then cursor_error ''ticket-cursor-invalid''
          else (case cu_parse C v of
                  None \<Rightarrow> cursor_error ''ticket-cursor-invalid''
                | Some source \<Rightarrow>
                    (case (map_of source ''ticketNumber'', map_of source ''updatedAt'') of
                       (Some (JInteger n), Some (JString t)) \<Rightarrow>
                         (case cu_time C t of
                            None \<Rightarrow> cursor_error ''ticket-cursor-invalid''
                          | Some u \<Rightarrow>
                              if \<not> safe_integer n \<or> n < 1
                                \<or> list_ex (\<lambda>(k, _). k \<noteq> ''ticketNumber'' \<and> k \<noteq> ''updatedAt'') source
                              then cursor_error ''ticket-cursor-invalid'' else Inr (Some (u, n)))
                     | _ \<Rightarrow> cursor_error ''ticket-cursor-invalid'')))"

definition encode_ticket_cursor :: "cursor_env \<Rightarrow> int \<times> int \<Rightarrow> string" where
  "encode_ticket_cursor C = (\<lambda>(u, n). cu_print C [(''ticketNumber'', JInteger n), (''updatedAt'', JString (cu_iso C u))])"

text \<open>What the code relies on: printing and parsing are inverse, and so are the two forms of an instant.\<close>

definition cursor_codec :: "cursor_env \<Rightarrow> bool" where
  "cursor_codec C \<longleftrightarrow> (\<forall>fields. cu_parse C (cu_print C fields) = Some fields) \<and> (\<forall>t. cu_time C (cu_iso C t) = Some t)"

lemma cursor_roundtrip:
  assumes "cursor_codec C" "length (encode_cursor C (t, i)) \<noteq> 0" "int (length (encode_cursor C (t, i))) \<le> cu_max C"
    and "i \<noteq> []" "length i \<le> 128"
  shows "decode_cursor C (Some (encode_cursor C (t, i))) reason = Inr (Some (t, i))"
  using assms by (simp add: decode_cursor_def encode_cursor_def cursor_codec_def)

lemma ticket_cursor_roundtrip:
  assumes "cursor_codec C" "length (encode_ticket_cursor C (u, n)) \<noteq> 0" "int (length (encode_ticket_cursor C (u, n))) \<le> cu_max C"
    and "positive_safe n"
  shows "decode_ticket_cursor C (Some (encode_ticket_cursor C (u, n))) = Inr (Some (u, n))"
  using assms by (simp add: decode_ticket_cursor_def encode_ticket_cursor_def cursor_codec_def positive_safe_def)

section \<open>The space of a detail\<close>

record detail_limits =
  dl_detailBytes :: int
  dl_commentPageBytes :: int
  dl_relationPageBytes :: int
  dl_ticketCommentBytes :: int

definition clamp :: "int \<Rightarrow> int \<Rightarrow> int \<Rightarrow> int" where
  "clamp v low high = min high (max low v)"

definition comment_page_floor :: "detail_limits \<Rightarrow> int" where
  "comment_page_floor L = dl_ticketCommentBytes L * 6 + 4096"

text \<open>The bytes for comments and for relations; \<open>Math.ceil(available / 4)\<close> of an integer.\<close>

definition detail_budgets :: "detail_limits \<Rightarrow> int \<Rightarrow> bool \<Rightarrow> int \<times> int" where
  "detail_budgets L fixed includeRelations =
     (let available = max 0 (dl_detailBytes L - fixed - 1024)
      in if \<not> includeRelations then (clamp available (comment_page_floor L) (dl_commentPageBytes L), 0)
         else let relations = clamp (- ((- available) div 4)) 4096 (dl_relationPageBytes L)
              in (clamp (available - relations) (comment_page_floor L) (dl_commentPageBytes L), relations))"

definition comment_detail_budget :: "detail_limits \<Rightarrow> int \<Rightarrow> int" where
  "comment_detail_budget L fixed = fst (detail_budgets L fixed False)"

text \<open>Unless a floor is needed, a detail with its pages stays within its limit.\<close>

lemma detail_fits:
  assumes "detail_budgets L fixed True = (comments, relations)"
    and "comment_page_floor L \<le> dl_detailBytes L - fixed - 1024 - relations" "4 * 4096 \<le> dl_detailBytes L - fixed - 1024"
  shows "fixed + 1024 + comments + relations \<le> dl_detailBytes L"
  using assms by (auto simp: detail_budgets_def Let_def clamp_def max_def min_def split: if_splits)

section \<open>Bounded pages\<close>

text \<open>
  Of an item the bytes of its JSON text count, with one for the comma before it; of the rest of the
  page the bytes of the object without items, with its cursor.
\<close>

record ('a, 'k) page_options =
  po_hasMore :: bool
  po_itemBytes :: "'a \<Rightarrow> int"
  po_envelope :: "string option \<Rightarrow> int"
  po_pageBytes :: "'a list \<Rightarrow> string option \<Rightarrow> int"
  po_encode :: "'k \<Rightarrow> string"
  po_key :: "'a \<Rightarrow> 'k"
  po_maximum :: int

definition page_error :: "failure + 'a" where
  "page_error = Inl (Domain ''authority-integrity-error'' ''authority-page-item-exceeds-byte-budget'')"

fun bound_loop :: "('a, 'k) page_options \<Rightarrow> 'a list \<Rightarrow> 'a list \<Rightarrow> int \<Rightarrow> string option \<Rightarrow> failure + 'a list \<times> string option" where
  "bound_loop O1 [] accepted bytes next1 = Inr (accepted, next1)"
| "bound_loop O1 (x # xs) accepted bytes next1 =
     (let bytes' = bytes + po_itemBytes O1 x + (if accepted = [] then 0 else 1);
          cursor = (if xs \<noteq> [] \<or> po_hasMore O1 then Some (po_encode O1 (po_key O1 x)) else None)
      in if po_envelope O1 cursor + bytes' > po_maximum O1
         then (if accepted = [] then page_error else Inr (accepted, next1))
         else bound_loop O1 xs (accepted @ [x]) bytes' cursor)"

definition bound_page :: "('a, 'k) page_options \<Rightarrow> 'a list \<Rightarrow> failure + 'a list \<times> string option" where
  "bound_page O1 items =
     rbind (bound_loop O1 items [] 0 None) (\<lambda>(accepted, next1).
       if accepted \<noteq> [] \<and> po_pageBytes O1 accepted next1 > po_maximum O1 then page_error else Inr (accepted, next1))"

text \<open>The bytes of a page are those of its parts: the law of \<open>JSON.stringify\<close> that the loop uses.\<close>

fun items_bytes :: "('a \<Rightarrow> int) \<Rightarrow> 'a list \<Rightarrow> int" where
  "items_bytes f [] = 0"
| "items_bytes f [x] = f x"
| "items_bytes f (x # xs) = f x + 1 + items_bytes f xs"

definition additive :: "('a, 'k) page_options \<Rightarrow> bool" where
  "additive O1 \<longleftrightarrow> (\<forall>xs c. po_pageBytes O1 xs c = po_envelope O1 c + items_bytes (po_itemBytes O1) xs)"

definition item_fits :: "('a, 'k) page_options \<Rightarrow> 'a \<Rightarrow> bool" where
  "item_fits O1 x \<longleftrightarrow> po_envelope O1 None + po_itemBytes O1 x \<le> po_maximum O1
     \<and> po_envelope O1 (Some (po_encode O1 (po_key O1 x))) + po_itemBytes O1 x \<le> po_maximum O1"

definition next_cursor :: "('a, 'k) page_options \<Rightarrow> 'a list \<Rightarrow> 'a list \<Rightarrow> string option" where
  "next_cursor O1 items accepted =
     (if accepted = [] \<or> length accepted = length items \<and> \<not> po_hasMore O1 then None
      else Some (po_encode O1 (po_key O1 (last accepted))))"

lemma items_bytes_snoc: "items_bytes f (xs @ [x]) = items_bytes f xs + f x + (if xs = [] then 0 else 1)"
  by (induction f xs rule: items_bytes.induct) auto

lemma bound_loop_result:
  assumes "bytes = items_bytes (po_itemBytes O1) accepted" "next1 = next_cursor O1 (accepted @ xs) accepted"
    and "accepted \<noteq> [] \<longrightarrow> po_envelope O1 next1 + bytes \<le> po_maximum O1"
    and "accepted = [] \<longrightarrow> (\<forall>x\<in>set xs. item_fits O1 x)"
  shows "\<exists>k \<le> length xs. (accepted = [] \<and> xs \<noteq> [] \<longrightarrow> 0 < k)
    \<and> bound_loop O1 xs accepted bytes next1 = Inr (accepted @ take k xs, next_cursor O1 (accepted @ xs) (accepted @ take k xs))
    \<and> (accepted @ take k xs \<noteq> [] \<longrightarrow> po_envelope O1 (next_cursor O1 (accepted @ xs) (accepted @ take k xs))
         + items_bytes (po_itemBytes O1) (accepted @ take k xs) \<le> po_maximum O1)"
  using assms
proof (induction xs arbitrary: accepted bytes next1)
  case (Cons x xs)
  define bytes' where "bytes' = bytes + po_itemBytes O1 x + (if accepted = [] then 0 else 1)"
  define cursor where "cursor = (if xs \<noteq> [] \<or> po_hasMore O1 then Some (po_encode O1 (po_key O1 x)) else None)"
  have b: "bytes' = items_bytes (po_itemBytes O1) (accepted @ [x])"
    by (simp add: bytes'_def items_bytes_snoc Cons.prems(1))
  have c: "cursor = next_cursor O1 ((accepted @ [x]) @ xs) (accepted @ [x])"
    by (simp add: cursor_def next_cursor_def)
  have step: "bound_loop O1 (x # xs) accepted bytes next1 =
      (if po_envelope O1 cursor + bytes' > po_maximum O1
       then (if accepted = [] then page_error else Inr (accepted, next1)) else bound_loop O1 xs (accepted @ [x]) bytes' cursor)"
    by (simp add: Let_def bytes'_def cursor_def)
  show ?case
  proof (cases "po_envelope O1 cursor + bytes' > po_maximum O1")
    case True
    have "accepted \<noteq> []"
    proof
      assume e: "accepted = []"
      then have "item_fits O1 x" "bytes' = po_itemBytes O1 x" using Cons.prems(1,4) by (simp_all add: bytes'_def)
      then show False using True by (auto simp: item_fits_def cursor_def split: if_splits)
    qed
    then show ?thesis using True step Cons.prems by (intro exI [of _ 0]) simp
  next
    case False
    obtain k where k: "k \<le> length xs"
      "bound_loop O1 xs (accepted @ [x]) bytes' cursor
        = Inr ((accepted @ [x]) @ take k xs, next_cursor O1 ((accepted @ [x]) @ xs) ((accepted @ [x]) @ take k xs))"
      "po_envelope O1 (next_cursor O1 ((accepted @ [x]) @ xs) ((accepted @ [x]) @ take k xs))
         + items_bytes (po_itemBytes O1) ((accepted @ [x]) @ take k xs) \<le> po_maximum O1"
      using Cons.IH [OF b c] False by auto
    then show ?thesis using False step by (intro exI [of _ "Suc k"]) simp
  qed
qed simp

text \<open>A page of items that fit is a prefix of them, not empty unless there are none, and within the bound.\<close>

lemma bound_page_result:
  assumes "additive O1" "\<forall>x\<in>set items. item_fits O1 x"
  obtains k where "k \<le> length items" "items \<noteq> [] \<Longrightarrow> 0 < k"
    "bound_page O1 items = Inr (take k items, next_cursor O1 items (take k items))"
    "take k items \<noteq> [] \<Longrightarrow> po_pageBytes O1 (take k items) (next_cursor O1 items (take k items)) \<le> po_maximum O1"
proof -
  obtain k where k: "k \<le> length items" "items \<noteq> [] \<longrightarrow> 0 < k"
    "bound_loop O1 items [] 0 None = Inr (take k items, next_cursor O1 items (take k items))"
    "take k items \<noteq> [] \<longrightarrow> po_envelope O1 (next_cursor O1 items (take k items)) + items_bytes (po_itemBytes O1) (take k items) \<le> po_maximum O1"
    using bound_loop_result [of 0 O1 "[]" None items] assms(2) by (auto simp: next_cursor_def)
  then show thesis
    using that [of k] assms(1) by (auto simp: bound_page_def additive_def rbind_def)
qed

section \<open>Following the cursors\<close>

text \<open>
  A client that starts without a cursor and follows the cursors of its pages reads all the rows, when
  every page continues where the last one ended and is not empty while rows are left.
\<close>

lemma follow_cursors:
  assumes pages: "\<And>ys zs. rows = ys @ zs \<Longrightarrow>
      \<exists>k \<le> length zs. (zs \<noteq> [] \<longrightarrow> 0 < k)
        \<and> f (if ys = [] then None else Some (enc (last ys)))
            = Inr (take k zs, if k = length zs then None else Some (enc (last (take k zs))))"
    and "rows = ys @ zs" "length zs < n"
  shows "read_pages f n (if ys = [] then None else Some (enc (last ys))) = Some (Inr zs)"
  using assms(2,3)
proof (induction n arbitrary: ys zs)
  case (Suc n)
  obtain k where k: "k \<le> length zs" "zs \<noteq> [] \<longrightarrow> 0 < k"
    "f (if ys = [] then None else Some (enc (last ys))) = Inr (take k zs, if k = length zs then None else Some (enc (last (take k zs))))"
    using pages [OF Suc.prems(1)] by blast
  show ?case
  proof (cases "k = length zs")
    case True
    then show ?thesis using k(3) by simp
  next
    case False
    then have k0: "0 < k" "k < length zs" using k by (cases "zs = []"; simp)+
    then have ne: "take k zs \<noteq> []" by auto
    have "read_pages f n (if ys @ take k zs = [] then None else Some (enc (last (ys @ take k zs)))) = Some (Inr (drop k zs))"
      using Suc.IH [of "ys @ take k zs" "drop k zs"] Suc.prems k0 by simp
    then show ?thesis using k(3) False ne by simp
  qed
qed simp

end
