(* ===== verification/TicketAuthority.thy ===== *)
theory TicketAuthority
  imports AuthorityPage
begin

text \<open>
  The authority of tickets, \<open>src/src/project-authority/tickets/ProjectTicketAuthority.ts\<close>: its reads
  with their pages, and its writes, each one transaction that changes the tables, records the
  mentions, appends an event and keeps its answer.
\<close>

section \<open>Errors\<close>

text \<open>\<open>mapInfrastructureError\<close>\<close>

fun ticket_error :: "failure \<Rightarrow> string \<times> string" where
  "ticket_error (Domain code reason) = (code, reason)"
| "ticket_error (Admission e) =
     (case e of
        AuthorizationDenied \<Rightarrow> (''authorization-denied'', ''ticket-member-not-authorized'')
      | AdmissionRecoveryRequired \<Rightarrow> (''authority-not-synchronized'', ''ticket-authority-stale'')
      | AdmissionStateConflict \<Rightarrow> (''authority-not-synchronized'', ''ticket-authority-stale'')
      | AdmissionDependencyFailed \<Rightarrow> (''operation-failed'', ''ticket-authority-unavailable''))"
| "ticket_error (Coordination e) =
     (if e = InvalidRecord then (''authority-integrity-error'', ''ticket-persistence-invalid'')
      else (''operation-failed'', ''ticket-persistence-unavailable''))"
| "ticket_error e = (''operation-failed'', ''ticket-operation-failed'')"

definition map_ticket_error :: "'a act \<Rightarrow> 'a act" where
  "map_ticket_error m = catch m (\<lambda>e. throw (Domain (fst (ticket_error e)) (snd (ticket_error e))))"

section \<open>Pages\<close>

text \<open>The limits of the protocol package, the codec of a detail, and the bytes of JSON texts.\<close>

record ticket_detail =
  td_body :: utf16
  td_ticket :: ticket_view
  td_comments :: "comment_row list \<times> string option"
  td_relations :: "accepted_view list \<times> string option"

record page_env =
  pv_cursors :: cursor_env
  pv_limits :: detail_limits
  pv_defaultComments :: int
  pv_maxComments :: int
  pv_defaultTickets :: int
  pv_maxTickets :: int
  pv_maxRelations :: int
  pv_ticketPageBytes :: int
  pv_envelope :: "string \<Rightarrow> string option \<Rightarrow> int"
  pv_commentBytes :: "comment_row \<Rightarrow> int"
  pv_commentsBytes :: "comment_row list \<Rightarrow> string option \<Rightarrow> int"
  pv_relationBytes :: "accepted_view \<Rightarrow> int"
  pv_relationsBytes :: "accepted_view list \<Rightarrow> string option \<Rightarrow> int"
  pv_ticketBytes :: "ticket_view \<Rightarrow> int"
  pv_ticketsBytes :: "ticket_view list \<Rightarrow> string option \<Rightarrow> int"
  pv_baseBytes :: "utf16 \<Rightarrow> ticket_view \<Rightarrow> int"
  pv_requestBytes :: "request_view \<Rightarrow> int"
  pv_detailDecodes :: "ticket_detail \<Rightarrow> bool"
  pv_ticketNumber :: "int \<Rightarrow> failure + int"

definition comment_key :: "comment_row \<Rightarrow> int \<times> string" where
  "comment_key c = (cm_createdAt c, cm_id c)"

definition comment_options :: "page_env \<Rightarrow> bool \<Rightarrow> int \<Rightarrow> (comment_row, int \<times> string) page_options" where
  "comment_options V hasMore maximum = \<lparr>po_hasMore = hasMore, po_itemBytes = pv_commentBytes V,
     po_envelope = pv_envelope V ''comments'', po_pageBytes = pv_commentsBytes V,
     po_encode = encode_cursor (pv_cursors V), po_key = comment_key, po_maximum = maximum\<rparr>"

definition comment_page ::
  "page_env \<Rightarrow> comment_row list \<Rightarrow> bool \<Rightarrow> int \<Rightarrow> int \<Rightarrow> failure + comment_row list \<times> string option" where
  "comment_page V comments persistenceHasMore limit maximum =
     bound_page (comment_options V (int (length comments) > limit \<or> persistenceHasMore) maximum) (take (nat limit) comments)"

definition relation_page ::
  "page_env \<Rightarrow> accepted_view list \<Rightarrow> bool \<Rightarrow> int \<Rightarrow> int \<Rightarrow> failure + accepted_view list \<times> string option" where
  "relation_page V relations persistenceHasMore limit maximum =
     bound_page \<lparr>po_hasMore = int (length relations) > limit \<or> persistenceHasMore, po_itemBytes = pv_relationBytes V,
       po_envelope = pv_envelope V ''acceptedRelations'', po_pageBytes = pv_relationsBytes V,
       po_encode = encode_cursor (pv_cursors V), po_key = (\<lambda>v. (av_acceptedAt v, av_id v)), po_maximum = maximum\<rparr>
       (take (nat limit) relations)"

definition ticket_page :: "page_env \<Rightarrow> ticket_view list \<Rightarrow> int \<Rightarrow> failure + ticket_view list \<times> string option" where
  "ticket_page V rows limit =
     bound_page \<lparr>po_hasMore = int (length rows) > limit, po_itemBytes = pv_ticketBytes V,
       po_envelope = pv_envelope V ''tickets'', po_pageBytes = pv_ticketsBytes V,
       po_encode = encode_ticket_cursor (pv_cursors V), po_key = (\<lambda>t. (tv_updatedAt t, tv_number t)),
       po_maximum = pv_ticketPageBytes V\<rparr>
       (take (nat limit) rows)"

text \<open>The limit of a request, and its default.\<close>

definition page_limit :: "int option \<Rightarrow> int \<Rightarrow> int \<Rightarrow> string \<Rightarrow> failure + int" where
  "page_limit requested standard maximum reason =
     (let limit = (case requested of None \<Rightarrow> standard | Some n \<Rightarrow> n)
      in if \<not> safe_integer limit \<or> limit < 1 \<or> limit > maximum then Inl (Domain ''protocol-payload-invalid'' reason)
         else Inr limit)"

definition stamped :: "(int \<times> 'a) option \<Rightarrow> (stamp \<times> 'a) option" where
  "stamped c = map_option (\<lambda>(t, i). (Stamp t, i)) c"

section \<open>Reads\<close>

text \<open>The bodies of the reads are functions of the tables.\<close>

definition ticket_page_of ::
  "accept_env \<Rightarrow> page_env \<Rightarrow> (int \<times> int) option \<Rightarrow> int \<Rightarrow> ticket_status option \<Rightarrow> accept_db
    \<Rightarrow> failure + ticket_view list \<times> string option" where
  "ticket_page_of E V after limit status db =
     rbind (coordination (list_tickets (ae_collab E) (stamped after) (limit + 1) status (ad_collab db))) (\<lambda>rows.
       ticket_page V rows limit)"

definition list_tickets_call ::
  "accept_env \<Rightarrow> page_env \<Rightarrow> int option \<Rightarrow> string option \<Rightarrow> ticket_status option \<Rightarrow> (ticket_view list \<times> string option) act" where
  "list_tickets_call E V requested cursor status =
     map_ticket_error (
       andthen (lift (page_limit requested (pv_defaultTickets V) (pv_maxTickets V) ''ticket-list-limit-invalid'')) (\<lambda>limit.
       andthen (lift (decode_ticket_cursor (pv_cursors V) cursor)) (\<lambda>after.
         run_read E (\<lambda>facts. read_transact E facts (ticket_page_of E V after limit status)))))"

definition ticket_detail_of :: "accept_env \<Rightarrow> page_env \<Rightarrow> string \<Rightarrow> accept_db \<Rightarrow> failure + ticket_detail" where
  "ticket_detail_of E V ticket db =
     rbind (coordination (find_ticket_detail (ae_collab E) ticket (ad_collab db))) (\<lambda>found.
     case found of
       None \<Rightarrow> Inl (Domain ''ticket-not-found'' ''ticket-detail-missing'')
     | Some (body, view) \<Rightarrow>
         let (commentBytes, relationBytes) = detail_budgets (pv_limits V) (pv_baseBytes V body view) True
         in rbind (coordination (list_ticket_comments (ae_collab E) ticket None (pv_defaultComments V + 1) (ad_collab db))) (\<lambda>(cs, cn).
            rbind (coordination (list_accepted_relations (ae_collab E) ticket None (pv_maxRelations V + 1) (ad_collab db))) (\<lambda>(rs, rn).
            rbind (relation_page V rs (rn \<noteq> None) (pv_maxRelations V) relationBytes) (\<lambda>relations.
            rbind (comment_page V cs (cn \<noteq> None) (pv_defaultComments V) commentBytes) (\<lambda>comments.
            let d = \<lparr>td_body = body, td_ticket = view, td_comments = comments, td_relations = relations\<rparr>
            in if pv_detailDecodes V d then Inr d
               else Inl (Domain ''authority-integrity-error'' ''ticket-detail-invalid''))))))"

definition get_ticket_call :: "accept_env \<Rightarrow> page_env \<Rightarrow> string \<Rightarrow> ticket_detail act" where
  "get_ticket_call E V ticket =
     map_ticket_error (run_read E (\<lambda>facts. read_transact E facts (ticket_detail_of E V ticket)))"

definition resolve_ticket_number_call :: "accept_env \<Rightarrow> page_env \<Rightarrow> int \<Rightarrow> string option act" where
  "resolve_ticket_number_call E V n =
     map_ticket_error (
       andthen (lift (pv_ticketNumber V n)) (\<lambda>number.
         run_read E (\<lambda>facts. read_transact E facts (\<lambda>db.
           rbind (coordination (find_ticket_by_number (ae_collab E) number (ad_collab db))) (\<lambda>found.
             Inr (map_option tv_id found))))))"

definition ticket_exists :: "accept_env \<Rightarrow> string \<Rightarrow> accept_db \<Rightarrow> failure + unit" where
  "ticket_exists E ticket db =
     rbind (coordination (find_ticket (ae_collab E) ticket (ad_collab db))) (\<lambda>found.
       ensure (found \<noteq> None) (Domain ''ticket-not-found'' ''ticket-detail-missing''))"

definition ticket_comments_of ::
  "accept_env \<Rightarrow> page_env \<Rightarrow> string \<Rightarrow> (int \<times> string) option \<Rightarrow> int \<Rightarrow> accept_db \<Rightarrow> failure + comment_row list \<times> string option" where
  "ticket_comments_of E V ticket after limit db =
     rbind (ticket_exists E ticket db) (\<lambda>_.
     rbind (coordination (list_ticket_comments (ae_collab E) ticket (stamped after) (limit + 1) (ad_collab db))) (\<lambda>(items, next1).
       comment_page V items (next1 \<noteq> None) limit (dl_commentPageBytes (pv_limits V))))"

definition list_ticket_comments_call ::
  "accept_env \<Rightarrow> page_env \<Rightarrow> string \<Rightarrow> int option \<Rightarrow> string option \<Rightarrow> (comment_row list \<times> string option) act" where
  "list_ticket_comments_call E V ticket requested cursor =
     map_ticket_error (
       andthen (lift (page_limit requested (pv_defaultComments V) (pv_maxComments V) ''ticket-comment-limit-invalid'')) (\<lambda>limit.
       andthen (lift (decode_cursor (pv_cursors V) cursor ''ticket-comment-cursor-invalid'')) (\<lambda>after.
         run_read E (\<lambda>facts. read_transact E facts (ticket_comments_of E V ticket after limit)))))"

definition ticket_relations_of ::
  "accept_env \<Rightarrow> page_env \<Rightarrow> string \<Rightarrow> (int \<times> string) option \<Rightarrow> int \<Rightarrow> accept_db \<Rightarrow> failure + accepted_view list \<times> string option" where
  "ticket_relations_of E V ticket after limit db =
     rbind (ticket_exists E ticket db) (\<lambda>_.
     rbind (coordination (list_accepted_relations (ae_collab E) ticket (stamped after) (limit + 1) (ad_collab db))) (\<lambda>(items, next1).
       relation_page V items (next1 \<noteq> None) limit (dl_relationPageBytes (pv_limits V))))"

definition list_ticket_relations_call ::
  "accept_env \<Rightarrow> page_env \<Rightarrow> string \<Rightarrow> int option \<Rightarrow> string option \<Rightarrow> (accepted_view list \<times> string option) act" where
  "list_ticket_relations_call E V ticket requested cursor =
     map_ticket_error (
       andthen (lift (page_limit requested (pv_maxRelations V) (pv_maxRelations V) ''ticket-relation-limit-invalid'')) (\<lambda>limit.
       andthen (lift (decode_cursor (pv_cursors V) cursor ''ticket-relation-cursor-invalid'')) (\<lambda>after.
         run_read E (\<lambda>facts. read_transact E facts (ticket_relations_of E V ticket after limit)))))"

section \<open>Writes\<close>

text \<open>The members that a text mentions, among those active now.\<close>

definition replace_ticket_mentions ::
  "accept_env \<Rightarrow> authority_env \<Rightarrow> utf16 \<Rightarrow> int \<Rightarrow> string \<Rightarrow> mention_source \<Rightarrow> string \<Rightarrow> unit tx" where
  "replace_ticket_mentions E A body now source kind ticket =
     collab_write (replace_mentions (ae_collab E) \<lparr>rm_createdAt = Stamp now,
       rm_members = au_mentions A body (map (\<lambda>(m, name, _). (m, name)) (filter (\<lambda>(_, _, active). active) (au_roster A))),
       rm_source = source, rm_kind = kind, rm_ticket = ticket\<rparr>)"

definition missing_ticket :: "'a tx" where
  "missing_ticket = tx_throw ''ticket-not-found'' ''ticket-detail-missing''"

definition create_ticket_tx :: "accept_env \<Rightarrow> authority_env \<Rightarrow> utf16 \<Rightarrow> utf16 \<Rightarrow> write_facts \<Rightarrow> nat \<Rightarrow> int \<Rightarrow> reply tx" where
  "create_ticket_tx E A title body facts n now =
     tx_then (collab_write (create_ticket (ae_collab E) \<lparr>ct_author = wf_member facts, ct_body = body,
         ct_createdAt = Stamp now, ct_ticket = au_id A n 0, ct_title = title\<rparr>)) (\<lambda>ticket.
     tx_then (replace_ticket_mentions E A body now (tv_id ticket) InDescription (tv_id ticket)) (\<lambda>_.
     tx_then (announce E ''ticket.updated'' [(''ticketId'', tv_id ticket)] now) (\<lambda>_.
       tx_give (TicketCreated body ticket))))"

definition update_ticket_tx ::
  "accept_env \<Rightarrow> authority_env \<Rightarrow> utf16 \<Rightarrow> utf16 \<Rightarrow> int \<Rightarrow> string \<Rightarrow> write_facts \<Rightarrow> nat \<Rightarrow> int \<Rightarrow> reply tx" where
  "update_ticket_tx E A title body expected ticket facts n now =
     tx_then (collab_read (find_ticket_detail (ae_collab E) ticket)) (\<lambda>found.
     case found of
       None \<Rightarrow> missing_ticket
     | Some (currentBody, current) \<Rightarrow>
         tx_then (tx_check (wf_manager facts \<or> tv_author current = wf_member facts) ''authorization-denied'' ''ticket-edit-denied'') (\<lambda>_.
         tx_then (tx_check (tv_revision current = expected) ''stale-ticket'' ''ticket-revision-changed'') (\<lambda>_.
         if tv_title current = title \<and> currentBody = body then tx_give (TicketChanged current)
         else
           tx_then (collab_write (update_ticket_content (ae_collab E) \<lparr>ut_body = body, ut_expectedRevision = expected,
             ut_ticket = ticket, ut_title = title, ut_updatedAt = Stamp now\<rparr>)) (\<lambda>updated.
           case updated of
             None \<Rightarrow> tx_throw ''stale-ticket'' ''ticket-content-cas-failed''
           | Some view \<Rightarrow>
               tx_then (tx_check (tv_revision view = expected + 1) ''stale-ticket'' ''ticket-content-cas-failed'') (\<lambda>_.
               tx_then (replace_ticket_mentions E A body now (tv_id view) InDescription (tv_id view)) (\<lambda>_.
               tx_then (announce E ''ticket.updated'' [(''ticketId'', tv_id view)] now) (\<lambda>_.
                 tx_give (TicketChanged view))))))))"

definition comment_ticket_tx ::
  "accept_env \<Rightarrow> authority_env \<Rightarrow> utf16 \<Rightarrow> string \<Rightarrow> write_facts \<Rightarrow> nat \<Rightarrow> int \<Rightarrow> reply tx" where
  "comment_ticket_tx E A body ticket facts n now =
     tx_then (collab_read (find_ticket (ae_collab E) ticket)) (\<lambda>found.
     case found of
       None \<Rightarrow> missing_ticket
     | Some current \<Rightarrow>
         tx_then (tx_check (\<not> tv_commentCount current \<ge> ce_ticketComments (ae_collab E)) ''quota-exceeded'' ''ticket-comment-count-limit'') (\<lambda>_.
         tx_then (collab_write (create_ticket_comment (ae_collab E) \<lparr>cc_author = wf_member facts, cc_body = body,
             cc_comment = au_id A n 0, cc_createdAt = Stamp now, cc_subject = ticket\<rparr>)) (\<lambda>(comment, view).
         tx_then (replace_ticket_mentions E A body now (cm_id comment) InComment ticket) (\<lambda>_.
         tx_then (announce E ''ticket.comment-added'' [(''ticketId'', ticket)] now) (\<lambda>_.
           tx_give (TicketCommented comment view))))))"

definition change_status_tx ::
  "accept_env \<Rightarrow> ticket_status \<Rightarrow> int \<Rightarrow> string \<Rightarrow> write_facts \<Rightarrow> nat \<Rightarrow> int \<Rightarrow> reply tx" where
  "change_status_tx E status expected ticket facts n now =
     tx_then (collab_read (find_ticket (ae_collab E) ticket)) (\<lambda>found.
     case found of
       None \<Rightarrow> missing_ticket
     | Some current \<Rightarrow>
         tx_then (tx_check (tv_revision current = expected) ''stale-ticket'' ''ticket-revision-changed'') (\<lambda>_.
         tx_then (tx_check (wf_manager facts \<or> tv_author current = wf_member facts) ''authorization-denied'' ''ticket-status-denied'') (\<lambda>_.
         if tv_status current = status then tx_give (TicketChanged current)
         else
           tx_then (if status = TicketOpen then collab_read (has_pending_resolve (ae_collab E) (tv_id current)) else tx_give False) (\<lambda>pending.
           tx_then (tx_check (\<not> pending) ''stale-ticket'' ''ticket-pending-resolve-reopen'') (\<lambda>_.
           tx_then (collab_write (change_ticket_status (ae_collab E) \<lparr>ts_actor = wf_member facts, ts_expectedRevision = expected,
             ts_status = status, ts_ticket = ticket, ts_updatedAt = Stamp now\<rparr>)) (\<lambda>updated.
           case updated of
             None \<Rightarrow> tx_throw ''stale-ticket'' ''ticket-status-cas-failed''
           | Some view \<Rightarrow>
               tx_then (tx_check (tv_revision view = expected + 1) ''stale-ticket'' ''ticket-status-cas-failed'') (\<lambda>_.
               tx_then (announce E ''ticket.updated'' [(''ticketId'', tv_id view)] now) (\<lambda>_.
                 tx_give (TicketChanged view)))))))))"

text \<open>The calls.\<close>

datatype ticket_call =
    CreateTicketCall utf16 utf16 string
  | UpdateTicketCall utf16 utf16 int string string
  | CommentTicketCall utf16 string string
  | StatusCall ticket_status int string string

definition ticket_write_call :: "string \<Rightarrow> string \<Rightarrow> call_fields \<Rightarrow> string \<Rightarrow> write_call" where
  "ticket_write_call operation key asked undecodable = \<lparr>wc_operation = operation, wc_key = key, wc_fields = asked,
     wc_reused = ''ticket-idempotency-key-reused'', wc_undecodable = undecodable\<rparr>"

definition status_operation :: "ticket_status \<Rightarrow> string" where
  "status_operation status = (case status of TicketClosed \<Rightarrow> ''closeTicket'' | TicketOpen \<Rightarrow> ''reopenTicket'')"

text \<open>What a call asks for once its texts are normalized, or the error of a text.\<close>

definition ticket_request ::
  "accept_env \<Rightarrow> authority_env \<Rightarrow> ticket_call \<Rightarrow> failure + write_call \<times> (write_facts \<Rightarrow> nat \<Rightarrow> int \<Rightarrow> reply tx)" where
  "ticket_request E A c =
     (case c of
        CreateTicketCall title0 body0 key \<Rightarrow>
          rbind (normalize_title (ce_titleUtf16 (ae_collab E)) title0) (\<lambda>title.
          rbind (normalize_markdown (ce_bodyBytes (ae_collab E)) ''ticket-body'' body0) (\<lambda>body.
            Inr (ticket_write_call ''createTicket'' key (TicketFields body title) ''ticket-create-replay-invalid'',
              create_ticket_tx E A title body)))
      | UpdateTicketCall title0 body0 expected ticket key \<Rightarrow>
          rbind (normalize_title (ce_titleUtf16 (ae_collab E)) title0) (\<lambda>title.
          rbind (normalize_markdown (ce_bodyBytes (ae_collab E)) ''ticket-body'' body0) (\<lambda>body.
            Inr (ticket_write_call ''updateTicketContent'' key (ContentFields body expected ticket title) ''ticket-mutation-replay-invalid'',
              update_ticket_tx E A title body expected ticket)))
      | CommentTicketCall body0 ticket key \<Rightarrow>
          rbind (normalize_markdown (ce_ticketCommentBytes (ae_collab E)) ''ticket-comment'' body0) (\<lambda>body.
            Inr (ticket_write_call ''createTicketComment'' key (TicketCommentFields body ticket) ''ticket-comment-replay-invalid'',
              comment_ticket_tx E A body ticket))
      | StatusCall status expected ticket key \<Rightarrow>
          Inr (ticket_write_call (status_operation status) key (StatusFields expected status ticket) ''ticket-status-replay-invalid'',
            change_status_tx E status expected ticket))"

definition ticket_write ::
  "accept_env \<Rightarrow> authority_env \<Rightarrow> process_env \<Rightarrow> unit act \<Rightarrow> ticket_call \<Rightarrow> reply act" where
  "ticket_write E A P recover c =
     map_ticket_error (
       andthen (lift (ticket_request E A c)) (\<lambda>(call, mutation).
         run_write E recover (repeatable_write E A P call (\<lambda>_. give ()) mutation)))"

section \<open>The writes keep the tables well-formed\<close>

lemma tx_replace_ticket_mentions [tx]: "tx_sound (replace_ticket_mentions E A body now source kind ticket)"
  unfolding replace_ticket_mentions_def by (intro tx)

lemma tx_missing_ticket [tx]: "tx_sound missing_ticket"
  unfolding missing_ticket_def by (intro tx)

lemma tx_ticket_writes [tx]:
  "tx_sound (create_ticket_tx E A title body facts n now)"
  "tx_sound (update_ticket_tx E A title body expected ticket facts n now)"
  "tx_sound (comment_ticket_tx E A body ticket facts n now)"
  "tx_sound (change_status_tx E status expected ticket facts n now)"
  unfolding create_ticket_tx_def update_ticket_tx_def comment_ticket_tx_def change_status_tx_def by (intro tx)+

lemma ticket_request_sound: "ticket_request E A c = Inr (call, mutation) \<Longrightarrow> tx_sound (mutation facts n now)"
  by (auto simp: ticket_request_def rbind_Inr split: ticket_call.splits intro: tx)

text \<open>A write of a ticket is an admitted write; what the one keeps and leaves, the other does.\<close>

lemma triple_ticket_write:
  assumes "\<And>call mutation. ticket_request E A c = Inr (call, mutation) \<Longrightarrow> (\<And>facts n now. tx_sound (mutation facts n now)) \<Longrightarrow>
    triple Stormy I (write_admission E recover (repeatable_write E A P call (\<lambda>_. give ()) mutation) True) Q I"
  shows "triple Stormy I (ticket_write E A P recover c) Q I"
proof -
  have "triple Stormy I (andthen (lift (ticket_request E A c)) (\<lambda>(call, mutation).
         write_admission E recover (repeatable_write E A P call (\<lambda>_. give ()) mutation) True)) Q I"
  proof (cases "ticket_request E A c")
    case (Inl e)
    then show ?thesis by (intro tripleI) (auto simp: andthen_def lift_def)
  next
    case (Inr p)
    then obtain call mutation where p: "ticket_request E A c = Inr (call, mutation)" by (cases p) auto
    have "andthen (lift (ticket_request E A c)) (\<lambda>(call, mutation).
         write_admission E recover (repeatable_write E A P call (\<lambda>_. give ()) mutation) True)
      = write_admission E recover (repeatable_write E A P call (\<lambda>_. give ()) mutation) True"
      by (simp add: andthen_def lift_def p fun_eq_iff)
    then show ?thesis using assms [OF p ticket_request_sound [OF p]] by simp
  qed
  then show ?thesis unfolding ticket_write_def map_ticket_error_def run_write_def
    by (rule triple_catch) (auto intro: triple_throw)
qed

section \<open>Reading all comments of a ticket\<close>

text \<open>One page, by the cursor that a client sends: \<open>listTicketComments\<close> after its admission.\<close>

definition comments_by_cursor ::
  "accept_env \<Rightarrow> page_env \<Rightarrow> string \<Rightarrow> int \<Rightarrow> accept_db \<Rightarrow> string option \<Rightarrow> failure + comment_row list \<times> string option" where
  "comments_by_cursor E V ticket limit db cursor =
     rbind (decode_cursor (pv_cursors V) cursor ''ticket-comment-cursor-invalid'') (\<lambda>after.
       ticket_comments_of E V ticket after limit db)"

text \<open>
  What is asked of the parameters: the codec of cursors, the law of the sizes of JSON texts, and that each
  comment can be decoded, fits into a page of its own and has a cursor that fits.
\<close>

definition comment_fits :: "accept_env \<Rightarrow> page_env \<Rightarrow> comment_row \<Rightarrow> bool" where
  "comment_fits E V c \<longleftrightarrow> comment_decodable (ae_collab E) c = Inr c \<and> cm_id c \<noteq> [] \<and> length (cm_id c) \<le> 128
     \<and> (let cursor = encode_cursor (pv_cursors V) (comment_key c) in cursor \<noteq> [] \<and> int (length cursor) \<le> cu_max (pv_cursors V))
     \<and> item_fits (comment_options V True (dl_commentPageBytes (pv_limits V))) c"

definition comment_order :: "comment_row list \<Rightarrow> comment_row list" where
  "comment_order = sort_key comment_key"

lemma comment_page_options:
  "additive (comment_options V True m) \<Longrightarrow> additive (comment_options V b m)"
  "item_fits (comment_options V True m) c \<Longrightarrow> item_fits (comment_options V b m) c"
  by (simp_all add: additive_def item_fits_def comment_options_def)

lemma fitting_cursor:
  assumes "cursor_codec (pv_cursors V)" "comment_fits E V c"
  shows "decode_cursor (pv_cursors V) (Some (encode_cursor (pv_cursors V) (comment_key c))) reason = Inr (Some (comment_key c))"
proof -
  have "encode_cursor (pv_cursors V) (comment_key c) \<noteq> []"
    "int (length (encode_cursor (pv_cursors V) (comment_key c))) \<le> cu_max (pv_cursors V)" "cm_id c \<noteq> []" "length (cm_id c) \<le> 128"
    using assms(2) unfolding comment_fits_def Let_def by blast+
  then show ?thesis unfolding comment_key_def by (intro cursor_roundtrip assms(1)) simp_all
qed

lemma comment_key_eta: "(\<lambda>x. (cm_createdAt x, cm_id x)) = comment_key"
  by (simp add: comment_key_def fun_eq_iff)

lemma next_comments:
  assumes rows: "comment_order (comments_of ticket (cb_ticketComments (ad_collab db))) = ys @ zs"
    and ids: "distinct (map cm_id (cb_ticketComments (ad_collab db)))"
    and found: "find_ticket (ae_collab E) ticket (ad_collab db) = Inr (Some v)"
    and limit: "1 \<le> limit" "safe_integer (limit + 1)"
    and codec: "cursor_codec (pv_cursors V)" and sizes: "additive (comment_options V True (dl_commentPageBytes (pv_limits V)))"
    and fits: "\<forall>c\<in>set (cb_ticketComments (ad_collab db)). comment_fits E V c"
  shows "\<exists>k\<le>length zs. (zs \<noteq> [] \<longrightarrow> 0 < k)
    \<and> comments_by_cursor E V ticket limit db (if ys = [] then None else Some (encode_cursor (pv_cursors V) (comment_key (last ys))))
      = Inr (take k zs, if k = length zs then None else Some (encode_cursor (pv_cursors V) (comment_key (last (take k zs)))))"
proof -
  let ?cs = "comments_of ticket (cb_ticketComments (ad_collab db))"
  let ?after = "if ys = [] then None else Some (comment_key (last ys))"
  let ?C = "ae_collab E" and ?items = "take (nat (limit + 1)) zs"
  have sub: "set (ys @ zs) \<subseteq> set (cb_ticketComments (ad_collab db))"
  proof -
    have "set (ys @ zs) = set ?cs" using rows by (metis comment_order_def set_sort)
    then show ?thesis by (auto simp: comments_of_def)
  qed
  have last: "comment_fits E V (last ys)" if "ys \<noteq> []"
    using bspec [OF fits subsetD [OF sub, of "last ys"]] that by simp
  have cursor: "decode_cursor (pv_cursors V) (if ys = [] then None else Some (encode_cursor (pv_cursors V) (comment_key (last ys))))
      ''ticket-comment-cursor-invalid'' = Inr ?after"
  proof (cases "ys = []")
    case False
    then have "comment_fits E V (last ys)" by (rule last)
    then show ?thesis using False fitting_cursor [OF codec] by simp
  qed (simp add: decode_cursor_def)
  have valid: "valid_cursor ?C (stamped ?after) = Inr ?after"
  proof (cases "ys = []")
    case False
    then have "comment_fits E V (last ys)" by (rule last)
    then show ?thesis using False
      by (auto simp: comment_fits_def comment_key_def comment_decodable_def valid_cursor_def stamped_def opaque_id_def require_def
          timestamp_def split: if_splits)
  qed (simp add: valid_cursor_def stamped_def)
  have "distinct (map comment_key ?cs)"
    using ids by (auto simp: comment_key_def comments_of_def distinct_map inj_on_def)
  then have sorted: "sorted_wrt (\<lambda>x y. comment_key x < comment_key y) (ys @ zs)"
    using sorted_strict [of comment_key ?cs] rows by (simp add: comment_order_def)
  have after: "filter (\<lambda>x. after_key ?after (comment_key x)) (ys @ zs) = zs"
    using filter_after_prefix [OF sorted] by (cases "ys = []") (simp_all add: after_key_def)
  have listed: "rows_after comment_key ?after (limit + 1 + 1) ?cs = take (nat (limit + 1 + 1)) zs"
    using after rows by (simp add: rows_after_filter comment_order_def)
  have decoded: "rmap_all (comment_decodable ?C) xs = Inr xs" if "set xs \<subseteq> set zs" for xs
    using that sub fits by (induction xs) (auto simp: comment_fits_def)
  have ticket: "ic_opaque (ce_ids ?C) ticket"
    using found by (auto simp: find_ticket_def opaque_id_def rbind_Inr require_def ensure_Inr)
  have "list_ticket_comments ?C ticket (stamped ?after) (limit + 1) (ad_collab db)
      = Inr (page (take (nat (limit + 1 + 1)) zs) (limit + 1) comment_key)"
    using limit ticket listed decoded [of "take (nat (limit + 1 + 1)) zs"]
    by (simp add: list_ticket_comments_def opaque_id_def require_def positive_input_def valid comment_key_eta set_take_subset
        del: ex_simps)
  then have read: "list_ticket_comments ?C ticket (stamped ?after) (limit + 1) (ad_collab db)
      = Inr (?items, if int (length zs) > limit + 1 then Some (comment_key (last ?items)) else None)"
    using limit by (auto simp: page_def Let_def min_def)
  let ?more = "int (length zs) > limit" and ?max = "dl_commentPageBytes (pv_limits V)"
  let ?O = "comment_options V ?more ?max" and ?page = "take (nat limit) zs"
  have more: "(int (length ?items) > limit \<or> (if int (length zs) > limit + 1 then Some (comment_key (last ?items)) else None) \<noteq> None) = ?more"
    using limit by auto
  have cut: "take (nat limit) ?items = ?page" using limit by (simp add: min_def)
  have "\<forall>x\<in>set ?page. item_fits ?O x"
    using fits sub comment_page_options(2) by (auto simp: comment_fits_def dest!: in_set_takeD)
  then obtain k where k: "k \<le> length ?page" "?page \<noteq> [] \<Longrightarrow> 0 < k"
    "bound_page ?O ?page = Inr (take k ?page, next_cursor ?O ?page (take k ?page))"
    using bound_page_result [OF comment_page_options(1) [OF sizes]] by metis
  have bounded: "comment_page V ?items ((if int (length zs) > limit + 1 then Some (comment_key (last ?items)) else None) \<noteq> None) limit ?max
      = Inr (take k ?page, next_cursor ?O ?page (take k ?page))"
    unfolding comment_page_def cut using k(3) more by simp
  have taken: "take k ?page = take k zs" using k(1) by (simp add: min_def split: if_splits)
  have next1: "next_cursor ?O ?page (take k ?page)
      = (if k = length zs then None else Some (encode_cursor (pv_cursors V) (comment_key (last (take k zs)))))"
  proof (cases "zs = []")
    case False
    then have "0 < k" using k(2) limit(1) by simp
    moreover have "k = length zs \<longleftrightarrow> k = length ?page \<and> \<not> ?more" using k(1) limit(1) by auto
    ultimately show ?thesis using False k(1) unfolding taken by (auto simp: next_cursor_def comment_options_def)
  qed (use k(1) in \<open>simp add: next_cursor_def\<close>)
  have "comments_by_cursor E V ticket limit db (if ys = [] then None else Some (encode_cursor (pv_cursors V) (comment_key (last ys))))
      = comment_page V ?items ((if int (length zs) > limit + 1 then Some (comment_key (last ?items)) else None) \<noteq> None) limit ?max"
    unfolding comments_by_cursor_def cursor ticket_comments_of_def ticket_exists_def found rbind_def sum.case ensure_def
    by (simp add: read coordination_def del: not_None_eq)
  note this [unfolded bounded, unfolded next1, unfolded taken]
  moreover have "k \<le> length zs" "zs \<noteq> [] \<longrightarrow> 0 < k" using k(1,2) limit(1) by auto
  ultimately show ?thesis by blast
qed


text \<open>
  A codec of cursors that is one: texts are quoted character by character. Two comments, and pages
  with space for one of them.
\<close>

definition demo_iso :: "int \<Rightarrow> string" where
  "demo_iso t = (if t < 0 then CHR ''-'' else CHR ''+'') # replicate (nat \<bar>t\<bar>) (CHR ''1'')"

fun demo_time :: "string \<Rightarrow> int option" where
  "demo_time [] = None"
| "demo_time (c # cs) = Some (if c = CHR ''-'' then - int (length cs) else int (length cs))"

fun demo_quoted :: "string \<Rightarrow> string" where
  "demo_quoted [] = ''.''"
| "demo_quoted (c # cs) = CHR ''/'' # c # demo_quoted cs"

fun demo_get :: "string \<Rightarrow> (string \<times> string) option" where
  "demo_get [] = None"
| "demo_get [x] = (if x = CHR ''.'' then Some ([], []) else None)"
| "demo_get (x # c # r) =
     (if x = CHR ''.'' then Some ([], c # r) else map_option (\<lambda>(s, r'). (c # s, r')) (demo_get r))"

fun demo_put_json :: "json \<Rightarrow> string" where
  "demo_put_json (JString s) = CHR ''s'' # demo_quoted s"
| "demo_put_json (JInteger n) = CHR ''i'' # demo_quoted (demo_iso n)"
| "demo_put_json JOther = CHR ''o'' # demo_quoted []"

fun demo_get_json :: "string \<Rightarrow> (json \<times> string) option" where
  "demo_get_json [] = None"
| "demo_get_json (x # r) =
     (case demo_get r of
        None \<Rightarrow> None
      | Some (s, r') \<Rightarrow>
          Some (if x = CHR ''s'' then JString s else if x = CHR ''i'' then JInteger (the (demo_time s)) else JOther, r'))"

fun demo_print :: "(string \<times> json) list \<Rightarrow> string" where
  "demo_print [] = []"
| "demo_print ((k, v) # fs) = demo_quoted k @ demo_put_json v @ demo_print fs"

fun demo_parse :: "nat \<Rightarrow> string \<Rightarrow> (string \<times> json) list option" where
  "demo_parse n [] = Some []"
| "demo_parse 0 (c # cs) = None"
| "demo_parse (Suc n) (c # cs) =
     (case demo_get (c # cs) of
        None \<Rightarrow> None
      | Some (k, r) \<Rightarrow> (case demo_get_json r of None \<Rightarrow> None | Some (v, r') \<Rightarrow> map_option (Cons (k, v)) (demo_parse n r')))"

lemma demo_time_iso [simp]: "demo_time (demo_iso t) = Some t"
  by (simp add: demo_iso_def)

lemma demo_get_put [simp]: "demo_get (demo_quoted s @ r) = Some (s, r)"
  by (induction s) (cases r; simp)+

lemma demo_get_put_json [simp]: "demo_get_json (demo_put_json v @ r) = Some (v, r)"
  using demo_get_put [of "[]" r] by (cases v) simp_all

lemma demo_parse_print: "length fs \<le> n \<Longrightarrow> demo_parse n (demo_print fs) = Some fs"
proof (induction fs arbitrary: n)
  case (Cons f fs)
  obtain k v m where f: "f = (k, v)" "n = Suc m" using Cons.prems by (cases f; cases n) auto
  obtain c cs where p: "demo_print (f # fs) = c # cs" by (cases "demo_print (f # fs)"; cases k) (auto simp: f)
  then have "demo_get (c # cs) = Some (k, demo_put_json v @ demo_print fs)" by (simp add: f flip: p)
  then show ?case using Cons f p by simp
qed simp

lemma demo_print_length: "length fs \<le> length (demo_print fs)"
proof (induction fs)
  case (Cons f fs)
  obtain k v where "f = (k, v)" by (cases f)
  moreover have "1 \<le> length (demo_quoted k)" by (cases k) simp_all
  ultimately show ?case using Cons by (simp del: length_greater_0_conv One_nat_def)
qed simp

definition demo_cursors :: cursor_env where
  "demo_cursors = \<lparr>cu_parse = (\<lambda>s. demo_parse (length s) s), cu_print = demo_print, cu_time = demo_time, cu_iso = demo_iso, cu_max = 99\<rparr>"

lemma demo_codec: "cursor_codec demo_cursors"
  by (simp add: cursor_codec_def demo_cursors_def demo_parse_print demo_print_length)

definition demo_pages :: page_env where
  "demo_pages = \<lparr>pv_cursors = demo_cursors,
     pv_limits = \<lparr>dl_detailBytes = 99, dl_commentPageBytes = 15, dl_relationPageBytes = 15, dl_ticketCommentBytes = 9\<rparr>,
     pv_defaultComments = 5, pv_maxComments = 5, pv_defaultTickets = 5, pv_maxTickets = 5, pv_maxRelations = 5, pv_ticketPageBytes = 15,
     pv_envelope = (\<lambda>_ _. 2), pv_commentBytes = (\<lambda>_. 10), pv_commentsBytes = (\<lambda>cs _. 2 + items_bytes (\<lambda>_. 10) cs),
     pv_relationBytes = (\<lambda>_. 10), pv_relationsBytes = (\<lambda>rs _. 2 + items_bytes (\<lambda>_. 10) rs),
     pv_ticketBytes = (\<lambda>_. 10), pv_ticketsBytes = (\<lambda>ts _. 2 + items_bytes (\<lambda>_. 10) ts),
     pv_baseBytes = (\<lambda>_ _. 9), pv_requestBytes = (\<lambda>_. 9), pv_detailDecodes = (\<lambda>_. True), pv_ticketNumber = Inr\<rparr>"

definition demo_comments :: "accept_command list" where
  "demo_comments = [Collaborate (AddMember ''m''),
     Collaborate (CreateTicket \<lparr>ct_author = ''m'', ct_body = [65], ct_createdAt = Stamp 1, ct_ticket = ''t'', ct_title = [65]\<rparr>),
     Collaborate (CommentTicket \<lparr>cc_author = ''m'', cc_body = [66], cc_comment = ''b'', cc_createdAt = Stamp 7, cc_subject = ''t''\<rparr>),
     Collaborate (CommentTicket \<lparr>cc_author = ''m'', cc_body = [65], cc_comment = ''a'', cc_createdAt = Stamp 5, cc_subject = ''t''\<rparr>)]"

definition demo_commented :: accept_db where
  "demo_commented = run (accept_step demo_accept_env) (new_project (demo_oid (CHR ''a'')) demo_placement) (demo_comments)"

lemma demo_commented_rows:
  "cb_ticketComments (ad_collab demo_commented) = [\<lparr>cm_id = ''b'', cm_subject = ''t'', cm_author = ''m'', cm_body = [66], cm_createdAt = 7\<rparr>,
     \<lparr>cm_id = ''a'', cm_subject = ''t'', cm_author = ''m'', cm_body = [65], cm_createdAt = 5\<rparr>]"
  "(case find_ticket (ae_collab demo_accept_env) ''t'' (ad_collab demo_commented) of Inr (Some v) \<Rightarrow> True | _ \<Rightarrow> False)"
  by code_simp+


end
