(* ===== verification/RequestAuthority.thy ===== *)
theory RequestAuthority
  imports TicketAuthority
begin

text \<open>
  The authority of change requests, \<open>src/src/project-authority/requests/ProjectRequestAuthority.ts\<close>, with
  the limit on the open requests in \<open>ProjectRequestSnapshotCapacity.ts\<close> and its side of the repository
  in \<open>src/src/repositories/GitRepositoryAuthority.ts\<close> (\<open>inspectRequest\<close>, \<open>withRequestHeadValidation\<close>,
  \<open>#runRequestRead\<close>).
\<close>

section \<open>The repository\<close>

text \<open>\<open>#withRequestReadPermit\<close>: a permit for a read of the Project, given back in any case.\<close>

definition with_request_permit :: "git_env \<Rightarrow> 'a act \<Rightarrow> 'a act" where
  "with_request_permit G m w =
     (if wo_permits w < gi_permits G
      then and_always m close_reservation (w\<lparr>wo_permits := wo_permits w + 1\<rparr>)
      else (Inl (RequestRepository RequestUnavailable), w))"

definition require_request :: "bool \<Rightarrow> request_repository_error \<Rightarrow> unit act" where
  "require_request b e = check b (RequestRepository e)"

text \<open>What is not an error of the request itself is reported as \<open>unavailable\<close>.\<close>

definition request_errors :: "'a act \<Rightarrow> 'a act" where
  "request_errors m = catch m (\<lambda>e. case e of RequestRepository _ \<Rightarrow> throw e | _ \<Rightarrow> throw (RequestRepository RequestUnavailable))"

definition run_request_read ::
  "accept_env \<Rightarrow> git_env \<Rightarrow> string \<Rightarrow> string \<Rightarrow> placement \<Rightarrow> unit act \<Rightarrow> ((string \<times> string) list \<Rightarrow> 'a act) \<Rightarrow> 'a act" where
  "run_request_read E G member personalRef p revalidateAuthority operation =
     andthen (require_request (personalRef = ae_memberRef E member \<and> pl_project p = ae_project E) RequestStateConflict) (\<lambda>_.
     andthen (require_request (placement_lease_ok (ae_isProject E) p) RequestStateConflict) (\<lambda>_.
     request_errors (
       andthen (resolve_existing E G p) (\<lambda>_.
       andthen (revalidate_placement E G p) (\<lambda>_.
       andthen (read_refs E) (\<lambda>before.
       andthen (operation before) (\<lambda>result.
       andthen (resolve_existing E G p) (\<lambda>_.
       andthen (revalidate_placement E G p) (\<lambda>_.
       andthen revalidateAuthority (\<lambda>_.
       andthen (read_refs E) (\<lambda>after.
       andthen (require_request (same_refs before after) RequestStateConflict) (\<lambda>_.
         give result))))))))))))"

datatype review_condition = StaleReview | CleanReview | ConflictingReview

record request_inspection =
  ri_main :: string
  ri_condition :: review_condition
  ri_head :: string

text \<open>\<open>merge-base\<close> prints one of the bases and fails when there is none.\<close>

definition inspect_request ::
  "accept_env \<Rightarrow> git_env \<Rightarrow> string \<Rightarrow> request_view \<Rightarrow> placement \<Rightarrow> unit act \<Rightarrow> request_inspection act" where
  "inspect_request E G main q p revalidateAuthority =
     with_request_permit G (
       run_request_read E G (qv_member q) (ae_memberRef E (qv_member q)) p revalidateAuthority (\<lambda>refs.
         andthen (require_request (map_of refs main_ref = Some main) RequestStaleMain) (\<lambda>_.
         andthen (require_request (map_of refs (ae_memberRef E (qv_member q)) \<noteq> None) RequestStateConflict) (\<lambda>_.
         andthen (git_read (\<lambda>w. case gi_bases G (qv_firstBase q) (qv_head q) of [] \<Rightarrow> Inl RStateConflict | base # _ \<Rightarrow> Inr base)) (\<lambda>base.
         andthen (require_request (base = qv_firstBase q) RequestStateConflict) (\<lambda>_.
         if map_of refs (ae_memberRef E (qv_member q)) \<noteq> Some (qv_head q)
         then give \<lparr>ri_main = main, ri_condition = StaleReview, ri_head = qv_head q\<rparr>
         else andthen (git_read (\<lambda>w. Inr (gi_merge G main (qv_head q)))) (\<lambda>ls.
              andthen (require_request (ic_oid (ae_ids E) (case ls of [] \<Rightarrow> [] | l # _ \<Rightarrow> l)) RequestStateConflict) (\<lambda>_.
                give \<lparr>ri_main = main, ri_condition = (if length ls = 1 then CleanReview else ConflictingReview),
                  ri_head = qv_head q\<rparr>))))))))"

definition validate_request_head ::
  "accept_env \<Rightarrow> git_env \<Rightarrow> write_facts \<Rightarrow> string \<Rightarrow> unit act \<Rightarrow> unit act" where
  "validate_request_head E G facts head revalidateAuthority =
     run_request_read E G (wf_member facts) (ae_memberRef E (wf_member facts)) (wf_placement facts) revalidateAuthority (\<lambda>refs.
       andthen (require_request (map_of refs main_ref = Some (wf_main facts)) RequestStaleMain) (\<lambda>_.
       andthen (require_request (map_of refs (ae_memberRef E (wf_member facts)) = Some head) HeadNotPushed) (\<lambda>_.
         assert_commit G head)))"

section \<open>Errors\<close>

fun request_error :: "failure \<Rightarrow> string \<times> string" where
  "request_error (Domain code reason) = (code, reason)"
| "request_error (RequestRepository e) =
     (case e of
        HeadNotPushed \<Rightarrow> (''request-head-not-pushed'', ''request-head-not-pushed'')
      | RequestStaleMain \<Rightarrow> (''stale-main'', ''request-main-not-expected'')
      | RequestStateConflict \<Rightarrow> (''authority-not-synchronized'', ''request-git-state-stale'')
      | RequestUnavailable \<Rightarrow> (''operation-failed'', ''request-repository-unavailable''))"
| "request_error (Admission e) =
     (case e of
        AuthorizationDenied \<Rightarrow> (''authorization-denied'', ''request-member-not-authorized'')
      | AdmissionRecoveryRequired \<Rightarrow> (''authority-not-synchronized'', ''request-authority-stale'')
      | AdmissionStateConflict \<Rightarrow> (''authority-not-synchronized'', ''request-authority-stale'')
      | AdmissionDependencyFailed \<Rightarrow> (''operation-failed'', ''request-authority-unavailable''))"
| "request_error (Coordination e) =
     (case e of
        StateConflict \<Rightarrow> (''authority-not-synchronized'', ''request-state-conflict'')
      | InvalidRecord \<Rightarrow> (''authority-integrity-error'', ''request-persistence-invalid'')
      | DependencyFailed \<Rightarrow> (''operation-failed'', ''request-persistence-unavailable''))"
| "request_error e = (''operation-failed'', ''request-operation-failed'')"

definition map_request_error :: "'a act \<Rightarrow> 'a act" where
  "map_request_error m = catch m (\<lambda>e. throw (Domain (fst (request_error e)) (snd (request_error e))))"

section \<open>Reads\<close>

record request_detail =
  qd_request :: request_view
  qd_comments :: "comment_row list \<times> string option"
  qd_inspection :: request_inspection

definition present_request :: "accept_env \<Rightarrow> string \<Rightarrow> accept_db \<Rightarrow> failure + request_view" where
  "present_request E request db =
     rbind (coordination (find_request (ae_collab E) request (ad_collab db))) (\<lambda>found.
       case found of None \<Rightarrow> Inl (Domain ''request-not-open'' ''request-detail-missing'') | Some q \<Rightarrow> Inr q)"

definition request_with_comments ::
  "accept_env \<Rightarrow> page_env \<Rightarrow> string \<Rightarrow> accept_db \<Rightarrow> failure + request_view \<times> comment_row list \<times> string option" where
  "request_with_comments E V request db =
     rbind (present_request E request db) (\<lambda>q.
     rbind (coordination (list_request_comments (ae_collab E) request None (pv_defaultComments V + 1) (ad_collab db))) (\<lambda>(items, next1).
     rbind (comment_page V items (next1 \<noteq> None) (pv_defaultComments V)
         (comment_detail_budget (pv_limits V) (pv_requestBytes V q + 512))) (\<lambda>comments. Inr (q, comments))))"

definition request_unchanged :: "request_view option \<Rightarrow> request_view \<Rightarrow> bool" where
  "request_unchanged current q \<longleftrightarrow>
     (case current of
        None \<Rightarrow> False
      | Some c \<Rightarrow> qv_head c = qv_head q \<and> qv_revision c = qv_revision q \<and> qv_status c = qv_status q \<and> qv_updatedAt c = qv_updatedAt q)"

text \<open>The codec of a detail is the last parameter.\<close>

definition get_request_call ::
  "accept_env \<Rightarrow> git_env \<Rightarrow> page_env \<Rightarrow> (request_detail \<Rightarrow> bool) \<Rightarrow> string \<Rightarrow> request_detail act" where
  "get_request_call E G V decodes request =
     map_request_error (run_read E (\<lambda>facts.
       andthen (read_transact E facts (request_with_comments E V request)) (\<lambda>(q, comments).
       andthen (inspect_request E G (wf_main facts) q (wf_placement facts) (read_transact E facts (\<lambda>_. Inr ()))) (\<lambda>inspection.
       andthen (read_transact E facts (\<lambda>db. coordination (find_request (ae_collab E) request (ad_collab db)))) (\<lambda>current.
       andthen (check (request_unchanged current q) (Domain ''stale-request-head'' ''request-detail-changed'')) (\<lambda>_.
       andthen (check (ri_main inspection = wf_main facts \<and> ri_head inspection = qv_head q)
         (Domain ''authority-not-synchronized'' ''request-git-state-stale'')) (\<lambda>_.
       let d = \<lparr>qd_request = q, qd_comments = comments, qd_inspection = inspection\<rparr>
       in andthen (check (decodes d) (Domain ''authority-integrity-error'' ''request-detail-invalid'')) (\<lambda>_. give d))))))))"

definition request_comments_of ::
  "accept_env \<Rightarrow> page_env \<Rightarrow> string \<Rightarrow> (int \<times> string) option \<Rightarrow> int \<Rightarrow> accept_db \<Rightarrow> failure + comment_row list \<times> string option" where
  "request_comments_of E V request after limit db =
     rbind (present_request E request db) (\<lambda>_.
     rbind (coordination (list_request_comments (ae_collab E) request (stamped after) (limit + 1) (ad_collab db))) (\<lambda>(items, next1).
       comment_page V items (next1 \<noteq> None) limit (dl_commentPageBytes (pv_limits V))))"

definition list_request_comments_call ::
  "accept_env \<Rightarrow> page_env \<Rightarrow> string \<Rightarrow> int option \<Rightarrow> string option \<Rightarrow> (comment_row list \<times> string option) act" where
  "list_request_comments_call E V request requested cursor =
     map_request_error (
       andthen (lift (page_limit requested (pv_defaultComments V) (pv_maxComments V) ''request-comment-page-limit-invalid'')) (\<lambda>limit.
       andthen (lift (decode_cursor (pv_cursors V) cursor ''request-comment-cursor-invalid'')) (\<lambda>after.
         run_read E (\<lambda>facts. read_transact E facts (request_comments_of E V request after limit)))))"

section \<open>The limit on open requests\<close>

text \<open>
  \<open>listOpen\<close> with one row more than the limit. The rows are cut by the order of their identifiers,
  which is immaterial: more rows than that are too many in any order.
\<close>

definition requests_for_admission :: "collab_env \<Rightarrow> int \<Rightarrow> collab_db \<Rightarrow> coord_error + request_view list" where
  "requests_for_admission C maximum db =
     rmap_all (decode_request C db) (take (nat (maximum + 1)) (sort_key rq_id (filter (\<lambda>q. rq_status q = Open) (cb_requests db))))"

text \<open>Counters, titles and times count with the space they can grow to.\<close>

definition grown :: "collab_env \<Rightarrow> request_view \<Rightarrow> request_view" where
  "grown C q = q\<lparr>qv_commentCount := max_safe_integer, qv_revision := max_safe_integer, qv_updatedAt := 0,
     qv_relations := map (\<lambda>v. v\<lparr>lv_ticketRevision := max_safe_integer, lv_ticketTitle := replicate (nat (ce_titleUtf16 C)) 0\<rparr>)
       (qv_relations q)\<rparr>"

definition measure_capacity :: "accept_env \<Rightarrow> authority_env \<Rightarrow> (int \<times> int) tx" where
  "measure_capacity E A =
     tx_then (collab_read (requests_for_admission (ae_collab E) (au_maxOpenRequests A))) (\<lambda>qs.
       tx_give (au_snapshotBytes A (map (grown (ae_collab E)) qs), int (length qs)))"

definition assert_capacity :: "accept_env \<Rightarrow> authority_env \<Rightarrow> int \<times> int \<Rightarrow> unit tx" where
  "assert_capacity E A before =
     tx_then (measure_capacity E A) (\<lambda>after.
       tx_check (\<not> ((fst after > au_maxSnapshotBytes A \<or> snd after > au_maxOpenRequests A)
           \<and> (fst after > fst before \<or> snd after > snd before))) ''quota-exceeded'' ''request-snapshot-limit'')"

section \<open>References to tickets\<close>

text \<open>The relations of a description: a reference to a ticket that does not exist is dropped, unless it resolves.\<close>

fun resolve_references ::
  "(nat \<Rightarrow> string) \<Rightarrow> ticket_view list \<Rightarrow> (relation_kind \<times> int) list \<Rightarrow> nat \<Rightarrow> failure + pending_relation list" where
  "resolve_references ids ts [] k = Inr []"
| "resolve_references ids ts ((kind, number) # rs) k =
     (case List.find (\<lambda>t. tv_number t = number) ts of
        None \<Rightarrow>
          if kind = Resolves then Inl (Domain ''resolving-ticket-reference-not-found'' ''request-resolving-ticket-missing'')
          else resolve_references ids ts rs k
      | Some t \<Rightarrow>
          rbind (resolve_references ids ts rs (Suc k)) (\<lambda>ds.
            Inr (\<lparr>pr_kind = kind, pr_relation = ids k, pr_ticket = tv_id t\<rparr> # ds)))"

definition resolve_relations ::
  "accept_env \<Rightarrow> authority_env \<Rightarrow> (relation_kind \<times> int) list \<Rightarrow> nat \<Rightarrow> pending_relation list tx" where
  "resolve_relations E A refs n =
     tx_then (collab_read (find_tickets_by_numbers (ae_collab E) (map snd refs))) (\<lambda>ts.
     tx_then (tx_lift (resolve_references (\<lambda>k. au_id A n (Suc k)) ts refs 0)) (\<lambda>ds.
     tx_then (tx_check (int (length ds) \<le> ce_requestRelations (ae_collab E)) ''quota-exceeded'' ''request-ticket-relation-limit'') (\<lambda>_.
       tx_give ds)))"

definition same_relations :: "relation_view list \<Rightarrow> pending_relation list \<Rightarrow> bool" where
  "same_relations existing desired \<longleftrightarrow> length existing = length desired
     \<and> list_all (\<lambda>v. lv_state v = Pending
          \<and> map_of (rev (map (\<lambda>d. (pr_ticket d, pr_kind d)) desired)) (lv_ticket v) = Some (lv_kind v)) existing"

definition parsed_references :: "authority_env \<Rightarrow> utf16 \<Rightarrow> failure + (relation_kind \<times> int) list" where
  "parsed_references A description =
     (case au_references A description of
        InvalidReferences tooLarge \<Rightarrow>
          Inl (Domain (if tooLarge then ''quota-exceeded'' else ''protocol-payload-invalid'') ''request-ticket-reference-invalid'')
      | ValidReferences refs \<Rightarrow> Inr refs)"

section \<open>Writes\<close>

definition comment_request_tx :: "accept_env \<Rightarrow> authority_env \<Rightarrow> utf16 \<Rightarrow> string \<Rightarrow> write_facts \<Rightarrow> nat \<Rightarrow> int \<Rightarrow> reply tx" where
  "comment_request_tx E A body request facts n now =
     tx_then (collab_read (find_request (ae_collab E) request)) (\<lambda>found.
     case found of
       None \<Rightarrow> tx_throw ''request-not-open'' ''request-comment-request-not-open''
     | Some current \<Rightarrow>
         tx_then (tx_check (qv_status current = Open) ''request-not-open'' ''request-comment-request-not-open'') (\<lambda>_.
         tx_then (tx_check (\<not> qv_commentCount current \<ge> ce_requestComments (ae_collab E)) ''quota-exceeded'' ''request-comment-count-limit'') (\<lambda>_.
         tx_then (collab_write (create_request_comment (ae_collab E) \<lparr>cc_author = wf_member facts, cc_body = body,
             cc_comment = au_id A n 0, cc_createdAt = Stamp now, cc_subject = request\<rparr>)) (\<lambda>(comment, view).
         tx_then (announce E ''request.comment-added'' [(''requestId'', request)] now) (\<lambda>_.
           tx_give (RequestCommented comment view))))))"

definition replace_request_relations ::
  "accept_env \<Rightarrow> write_facts \<Rightarrow> string \<Rightarrow> string \<Rightarrow> pending_relation list \<Rightarrow> int \<Rightarrow> relation_view list tx" where
  "replace_request_relations E facts request head relations now =
     collab_write (replace_pending_relations (ae_collab E) \<lparr>rr_actor = wf_member facts, rr_commit = head,
       rr_relations = relations, rr_request = request, rr_updatedAt = Stamp now\<rparr>)"

definition update_request_row ::
  "accept_env \<Rightarrow> request_view \<Rightarrow> string \<Rightarrow> utf16 \<Rightarrow> int \<Rightarrow> request_view option tx" where
  "update_request_row E q head description now =
     collab_write (update_open (ae_collab E) \<lparr>ur_description = description, ur_expectedRevision = qv_revision q,
       ur_head = head, ur_request = qv_id q, ur_updatedAt = Stamp now\<rparr>)"

definition announce_request :: "accept_env \<Rightarrow> request_view \<Rightarrow> int \<Rightarrow> unit tx" where
  "announce_request E q now = announce E ''request.updated'' [(''requestId'', qv_id q)] now"

definition update_metadata_tx ::
  "accept_env \<Rightarrow> authority_env \<Rightarrow> utf16 \<Rightarrow> (relation_kind \<times> int) list \<Rightarrow> string \<Rightarrow> int \<Rightarrow> string \<Rightarrow> write_facts \<Rightarrow> nat \<Rightarrow> int \<Rightarrow> reply tx" where
  "update_metadata_tx E A description refs head expected request facts n now =
     tx_then (collab_read (find_request (ae_collab E) request)) (\<lambda>found.
     case found of
       None \<Rightarrow> tx_throw ''request-not-open'' ''request-metadata-request-not-open''
     | Some existing \<Rightarrow>
         tx_then (tx_check (qv_status existing = Open) ''request-not-open'' ''request-metadata-request-not-open'') (\<lambda>_.
         tx_then (tx_check (qv_member existing = wf_member facts) ''authorization-denied'' ''request-metadata-owner-required'') (\<lambda>_.
         tx_then (tx_check (qv_head existing = head) ''stale-request-head'' ''request-metadata-head-changed'') (\<lambda>_.
         tx_then (tx_check (qv_revision existing = expected) ''stale-request-metadata'' ''request-metadata-revision-changed'') (\<lambda>_.
         tx_then (resolve_relations E A refs n) (\<lambda>relations.
         if qv_description existing = description \<and> same_relations (qv_relations existing) relations
         then tx_give (RequestChanged existing)
         else
           tx_then (measure_capacity E A) (\<lambda>capacity.
           tx_then (replace_request_relations E facts (qv_id existing) (qv_head existing) relations now) (\<lambda>_.
           tx_then (update_request_row E existing (qv_head existing) description now) (\<lambda>updated.
           case updated of
             None \<Rightarrow> tx_throw ''stale-request-metadata'' ''request-metadata-changed''
           | Some result \<Rightarrow>
               tx_then (assert_capacity E A capacity) (\<lambda>_.
               tx_then (announce_request E result now) (\<lambda>_. tx_give (RequestChanged result))))))))))))"

text \<open>The three ways of \<open>#ensureMyRequest\<close>, and what follows when the request has changed.\<close>

definition create_my_request ::
  "accept_env \<Rightarrow> authority_env \<Rightarrow> utf16 \<Rightarrow> string \<Rightarrow> pending_relation list \<Rightarrow> write_facts \<Rightarrow> nat \<Rightarrow> int \<Rightarrow> request_view tx" where
  "create_my_request E A description head relations facts n now =
     tx_then (collab_write (create_request (ae_collab E) \<lparr>cr_createdAt = Stamp now, cr_description = description,
         cr_firstBase = wf_main facts, cr_head = head, cr_member = wf_member facts, cr_request = au_id A n 0\<rparr>)) (\<lambda>q.
     tx_then (replace_request_relations E facts (qv_id q) head relations now) (\<lambda>_.
     tx_then (collab_read (find_request (ae_collab E) (qv_id q))) (\<lambda>found.
       tx_give (case found of None \<Rightarrow> q | Some q' \<Rightarrow> q'))))"

definition update_my_request ::
  "accept_env \<Rightarrow> utf16 \<Rightarrow> string \<Rightarrow> pending_relation list \<Rightarrow> request_view \<Rightarrow> write_facts \<Rightarrow> int \<Rightarrow> request_view tx" where
  "update_my_request E description head relations existing facts now =
     tx_then (replace_request_relations E facts (qv_id existing) head relations now) (\<lambda>_.
     tx_then (update_request_row E existing head description now) (\<lambda>updated.
     case updated of
       None \<Rightarrow> tx_throw ''stale-request-head'' ''request-changed''
     | Some result \<Rightarrow> tx_give result))"

definition changed_request ::
  "accept_env \<Rightarrow> authority_env \<Rightarrow> int \<times> int \<Rightarrow> write_facts \<Rightarrow> int \<Rightarrow> request_view tx \<Rightarrow> reply tx" where
  "changed_request E A capacity facts now t =
     tx_then t (\<lambda>result.
     tx_then (assert_capacity E A capacity) (\<lambda>_.
     tx_then (announce_request E result now) (\<lambda>_. tx_give (RequestEnsured (wf_main facts) result))))"

definition ensure_request_tx ::
  "accept_env \<Rightarrow> authority_env \<Rightarrow> utf16 \<Rightarrow> (relation_kind \<times> int) list \<Rightarrow> string \<Rightarrow> write_facts \<Rightarrow> nat \<Rightarrow> int \<Rightarrow> reply tx" where
  "ensure_request_tx E A description refs head facts n now =
     tx_then (resolve_relations E A refs n) (\<lambda>relations.
     tx_then (collab_read (find_open_by_member (ae_collab E) (wf_member facts))) (\<lambda>found.
     tx_then (measure_capacity E A) (\<lambda>capacity.
     case found of
       None \<Rightarrow> changed_request E A capacity facts now (create_my_request E A description head relations facts n now)
     | Some existing \<Rightarrow>
         if qv_head existing = head \<and> qv_description existing = description \<and> same_relations (qv_relations existing) relations
         then tx_give (RequestEnsured (wf_main facts) existing)
         else changed_request E A capacity facts now (update_my_request E description head relations existing facts now))))"

section \<open>Calls\<close>

datatype request_call =
    CommentRequestCall utf16 string string
  | UpdateMetadataCall utf16 string int string string
  | EnsureRequestCall utf16 string string string

definition request_write_call :: "string \<Rightarrow> string \<Rightarrow> call_fields \<Rightarrow> string \<Rightarrow> write_call" where
  "request_write_call operation key asked undecodable = \<lparr>wc_operation = operation, wc_key = key, wc_fields = asked,
     wc_reused = ''request-idempotency-key-reused'', wc_undecodable = undecodable\<rparr>"

definition described :: "accept_env \<Rightarrow> authority_env \<Rightarrow> utf16 \<Rightarrow> failure + utf16 \<times> (relation_kind \<times> int) list" where
  "described E A description0 =
     rbind (normalize_description (ce_descriptionBytes (ae_collab E)) description0) (\<lambda>description.
     rbind (parsed_references A description) (\<lambda>refs. Inr (description, refs)))"

text \<open>The check before the transaction of \<open>#ensureMyRequest\<close>: the main branch and the pushed head.\<close>

definition pushed_head :: "accept_env \<Rightarrow> git_env \<Rightarrow> string \<Rightarrow> string \<Rightarrow> write_facts \<Rightarrow> unit act" where
  "pushed_head E G main head facts =
     andthen (check (wf_main facts = main) (Domain ''stale-main'' ''request-main-not-expected'')) (\<lambda>_.
       validate_request_head E G facts head (transact E facts None (tx_give ())))"

definition request_write ::
  "accept_env \<Rightarrow> authority_env \<Rightarrow> git_env \<Rightarrow> process_env \<Rightarrow> unit act \<Rightarrow> request_call \<Rightarrow> reply act" where
  "request_write E A G P recover c =
     map_request_error (
       case c of
         CommentRequestCall body0 request key \<Rightarrow>
           andthen (lift (normalize_comment (au_nfc A) (ce_commentBytes (ae_collab E)) body0)) (\<lambda>body.
             run_write E recover (repeatable_write E A P
               (request_write_call ''createComment'' key (RequestCommentFields body request) ''request-comment-idempotency-response-invalid'')
               (\<lambda>_. give ()) (comment_request_tx E A body request)))
       | UpdateMetadataCall description0 head expected request key \<Rightarrow>
           andthen (lift (described E A description0)) (\<lambda>(description, refs).
             run_write E recover (repeatable_write E A P
               (request_write_call ''updateMyRequestMetadata'' key (MetadataFields description head expected request)
                 ''request-metadata-idempotency-response-invalid'')
               (\<lambda>_. give ()) (update_metadata_tx E A description refs head expected request)))
       | EnsureRequestCall description0 main head key \<Rightarrow>
           andthen (lift (described E A description0)) (\<lambda>(description, refs).
           andthen (preflight E recover) (\<lambda>_.
             with_request_permit G (run_after_preflight E recover (repeatable_write E A P
               (request_write_call ''ensureMyRequest'' key (EnsureFields description main head) ''request-idempotency-response-invalid'')
               (pushed_head E G main head) (ensure_request_tx E A description refs head))))))"

section \<open>The writes keep the tables well-formed\<close>

lemma tx_request_parts [tx]:
  "tx_sound (measure_capacity E A)" "tx_sound (assert_capacity E A before)" "tx_sound (resolve_relations E A refs n)"
  "tx_sound (replace_request_relations E facts request head relations now)"
  "tx_sound (update_request_row E q head description now)" "tx_sound (announce_request E q now)"
  unfolding measure_capacity_def assert_capacity_def resolve_relations_def replace_request_relations_def
    update_request_row_def announce_request_def by (intro tx)+

lemma tx_request_changes [tx]:
  "tx_sound (create_my_request E A description head relations facts n now)"
  "tx_sound (update_my_request E description head relations existing facts now)"
  "tx_sound t \<Longrightarrow> tx_sound (changed_request E A capacity facts now t)"
  unfolding create_my_request_def update_my_request_def changed_request_def by (intro tx, assumption?)+

lemma tx_request_writes [tx]:
  "tx_sound (comment_request_tx E A body request facts n now)"
  "tx_sound (update_metadata_tx E A description refs head expected request facts n now)"
  "tx_sound (ensure_request_tx E A description refs head facts n now)"
  unfolding comment_request_tx_def update_metadata_tx_def ensure_request_tx_def by (intro tx)+

lemma stays_request_permit [stay]: "stays m \<Longrightarrow> stays (with_request_permit G m)"
proof (rule staysI)
  fix w r w' assume m: "stays m" and a: "with_request_permit G m w = (r, w')"
  have "stays (and_always m close_reservation)" by (intro stay m)
  then show "core w' = core w" using a staysD by (fastforce simp: with_request_permit_def split: if_splits)
qed

lemma stays_require_request [stay]: "stays (require_request b e)"
  unfolding require_request_def by (intro stay)

lemma stays_request_errors [stay]: "stays m \<Longrightarrow> stays (request_errors m)"
  unfolding request_errors_def by (intro stay) (auto intro: stay split: failure.split)

lemma stays_run_request_read [stay]:
  "stays revalidateAuthority \<Longrightarrow> (\<And>refs. stays (operation refs)) \<Longrightarrow> stays (run_request_read E G member ref p revalidateAuthority operation)"
  unfolding run_request_read_def resolve_existing_def by (intro stay) assumption?

lemma stays_transact_give [stay]: "stays (transact E facts operation (tx_give x))"
  unfolding transact_def transaction_def by (intro stay staysI) (auto simp: rbind_def tx_give_def core_def split: sum.splits)

lemma stays_pushed_head [stay]: "stays (pushed_head E G main head facts)"
  unfolding pushed_head_def validate_request_head_def by (intro stay)

lemma triple_request_permit:
  assumes m: "triple Stormy I m Q I" and I: "lasting I" and Q: "\<And>x. lasting (Q x)" "\<And>x w. Q x w \<Longrightarrow> I w"
  shows "triple Stormy I (with_request_permit G m) Q I"
proof (rule tripleI)
  fix w r w' assume a: "I w" "with_request_permit G m w = (r, w')"
  have "triple Stormy I (and_always m close_reservation) Q I"
    by (rule triple_and_always [OF m]) (auto intro: triple_conseq [OF triple_stays [OF stays_permits(2) Q(1)]] Q(2) triple_stays [OF stays_permits(2) I])
  moreover have "I (w\<lparr>wo_permits := wo_permits w + 1\<rparr>)" using lastingD [OF I, of "w\<lparr>wo_permits := wo_permits w + 1\<rparr>" w] a(1) by simp
  ultimately show "faults_in Stormy (wo_faults w') \<and> (case r of Inl e \<Rightarrow> allowed Stormy e \<and> I w' | Inr x \<Rightarrow> Q x w')"
    using a triple_result by (fastforce simp: with_request_permit_def split: if_splits sum.split)
qed

lemma triple_lift:
  assumes "\<And>x. r = Inr x \<Longrightarrow> triple Stormy I (f x) Q I"
  shows "triple Stormy I (andthen (lift r) f) Q I"
proof (cases r)
  case (Inl e)
  then show ?thesis by (intro tripleI) (auto simp: andthen_def lift_def)
next
  case (Inr x)
  have "andthen (lift r) f = f x" by (simp add: andthen_def lift_def Inr fun_eq_iff)
  then show ?thesis using assms [OF Inr] by simp
qed

text \<open>The call under which the answer of a write is kept.\<close>

definition request_made :: "accept_env \<Rightarrow> authority_env \<Rightarrow> request_call \<Rightarrow> failure + write_call" where
  "request_made E A c =
     (case c of
        CommentRequestCall body0 request key \<Rightarrow>
          rbind (normalize_comment (au_nfc A) (ce_commentBytes (ae_collab E)) body0) (\<lambda>body.
            Inr (request_write_call ''createComment'' key (RequestCommentFields body request) ''request-comment-idempotency-response-invalid''))
      | UpdateMetadataCall description0 head expected request key \<Rightarrow>
          rbind (described E A description0) (\<lambda>(description, refs).
            Inr (request_write_call ''updateMyRequestMetadata'' key (MetadataFields description head expected request)
              ''request-metadata-idempotency-response-invalid''))
      | EnsureRequestCall description0 main head key \<Rightarrow>
          rbind (described E A description0) (\<lambda>(description, refs).
            Inr (request_write_call ''ensureMyRequest'' key (EnsureFields description main head) ''request-idempotency-response-invalid'')))"

text \<open>The transactions of both authorities.\<close>

inductive authority_mutation :: "accept_env \<Rightarrow> authority_env \<Rightarrow> (write_facts \<Rightarrow> nat \<Rightarrow> int \<Rightarrow> reply tx) \<Rightarrow> bool" for E A where
  creates_ticket: "authority_mutation E A (create_ticket_tx E A title body)"
| updates_ticket: "authority_mutation E A (update_ticket_tx E A title body expected ticket)"
| comments_ticket: "authority_mutation E A (comment_ticket_tx E A body ticket)"
| changes_status: "authority_mutation E A (change_status_tx E status expected ticket)"
| comments_request: "authority_mutation E A (comment_request_tx E A body request)"
| updates_metadata: "authority_mutation E A (update_metadata_tx E A description refs head expected request)"
| ensures_request: "authority_mutation E A (ensure_request_tx E A description refs head)"

lemma mutation_sound: "authority_mutation E A mutation \<Longrightarrow> tx_sound (mutation facts n now)"
  by (induction rule: authority_mutation.induct) (intro tx)+

lemma ticket_request_mutation: "ticket_request E A c = Inr (call, mutation) \<Longrightarrow> authority_mutation E A mutation"
  by (auto simp: ticket_request_def rbind_Inr split: ticket_call.splits intro: authority_mutation.intros)

lemma triple_request_write:
  assumes admit: "\<And>call before mutation b. request_made E A c = Inr call \<Longrightarrow> (\<And>facts. stays (before facts)) \<Longrightarrow>
      authority_mutation E A mutation \<Longrightarrow>
      triple Stormy I (write_admission E recover (repeatable_write E A P call before mutation) b) Q I"
    and look: "triple Stormy I (write_admission E recover (\<lambda>_. give ()) True) (\<lambda>_. I) I"
    and I: "lasting I" and Q: "\<And>x. lasting (Q x)" "\<And>x w. Q x w \<Longrightarrow> I w"
  shows "triple Stormy I (request_write E A G P recover c) Q I"
proof -
  have "triple Stormy I (case c of
         CommentRequestCall body0 request key \<Rightarrow>
           andthen (lift (normalize_comment (au_nfc A) (ce_commentBytes (ae_collab E)) body0)) (\<lambda>body.
             run_write E recover (repeatable_write E A P
               (request_write_call ''createComment'' key (RequestCommentFields body request) ''request-comment-idempotency-response-invalid'')
               (\<lambda>_. give ()) (comment_request_tx E A body request)))
       | UpdateMetadataCall description0 head expected request key \<Rightarrow>
           andthen (lift (described E A description0)) (\<lambda>(description, refs).
             run_write E recover (repeatable_write E A P
               (request_write_call ''updateMyRequestMetadata'' key (MetadataFields description head expected request)
                 ''request-metadata-idempotency-response-invalid'')
               (\<lambda>_. give ()) (update_metadata_tx E A description refs head expected request)))
       | EnsureRequestCall description0 main head key \<Rightarrow>
           andthen (lift (described E A description0)) (\<lambda>(description, refs).
           andthen (preflight E recover) (\<lambda>_.
             with_request_permit G (run_after_preflight E recover (repeatable_write E A P
               (request_write_call ''ensureMyRequest'' key (EnsureFields description main head) ''request-idempotency-response-invalid'')
               (pushed_head E G main head) (ensure_request_tx E A description refs head)))))) Q I"
    unfolding run_write_def run_after_preflight_def preflight_def
  proof (cases c; simp only: request_call.case; rule triple_lift; clarsimp?)
    fix body0 request key body
    assume "c = CommentRequestCall body0 request key" "normalize_comment (au_nfc A) (ce_commentBytes (ae_collab E)) body0 = Inr body"
    then show "triple Stormy I (write_admission E recover (repeatable_write E A P
               (request_write_call ''createComment'' key (RequestCommentFields body request) ''request-comment-idempotency-response-invalid'')
               (\<lambda>_. give ()) (comment_request_tx E A body request)) True) Q I"
      by (intro admit stay authority_mutation.intros) (simp add: request_made_def rbind_def)
  next
    fix description0 head expected request key description refs
    assume "c = UpdateMetadataCall description0 head expected request key" "described E A description0 = Inr (description, refs)"
    then show "triple Stormy I (write_admission E recover (repeatable_write E A P
               (request_write_call ''updateMyRequestMetadata'' key (MetadataFields description head expected request)
                 ''request-metadata-idempotency-response-invalid'')
               (\<lambda>_. give ()) (update_metadata_tx E A description refs head expected request)) True) Q I"
      by (intro admit stay authority_mutation.intros) (simp add: request_made_def rbind_def)
  next
    fix description0 main head key description refs
    assume "c = EnsureRequestCall description0 main head key" "described E A description0 = Inr (description, refs)"
    then show "triple Stormy I (andthen (write_admission E recover (\<lambda>_. give ()) True) (\<lambda>_.
             with_request_permit G (write_admission E recover (repeatable_write E A P
               (request_write_call ''ensureMyRequest'' key (EnsureFields description main head) ''request-idempotency-response-invalid'')
               (pushed_head E G main head) (ensure_request_tx E A description refs head)) False))) Q I"
      by (intro triple_andthen [OF look] triple_request_permit I Q(1) admit stay authority_mutation.intros) (simp_all add: request_made_def rbind_def Q(2))
  qed
  then show ?thesis unfolding request_write_def map_request_error_def
    by (rule triple_catch) (auto intro: triple_throw)
qed

end
