(* ===== verification/ProjectRecovery.thy ===== *)
theory ProjectRecovery
  imports RecoveryDispatch Collaboration "HOL-Library.Sublist"
begin

text \<open>
  The recovery of all Projects, \<open>src/src/project-authority/recovery/ProjectRecoveryCoordinator.ts\<close>: the
  recovery of one Project by all its owners, and the passes over the catalog of candidates that
  \<open>src/src/coordination/postgres/PostgresCoordination.ts\<close> lists page by page. The owners are ports of the
  coordinator; their state and the catalog are one parameter \<open>'s\<close>. Theory \<open>AcceptSafety\<close> has the recovery of
  acceptances, \<open>RecoveryDispatch\<close> the one of lifecycle operations.
\<close>

section \<open>The catalog\<close>

record catalog_row =
  kr_kind :: string
  kr_operation :: string
  kr_project :: string
  kr_scheduledAt :: int

text \<open>A cursor is the key by which the rows are ordered; \<open>None\<close> is a cursor that does not validate.\<close>

type_synonym cursor = "int \<times> string \<times> string \<times> string"

definition row_cursor :: "catalog_row \<Rightarrow> cursor" where
  "row_cursor r = (kr_scheduledAt r, kr_kind r, kr_project r, kr_operation r)"

definition kind_pattern :: "string \<Rightarrow> bool" where
  "kind_pattern s \<longleftrightarrow>
     (case s of
        [] \<Rightarrow> False
      | c # cs \<Rightarrow> CHR ''a'' \<le> c \<and> c \<le> CHR ''z'' \<and> length cs \<le> 63
          \<and> list_all (\<lambda>d. CHR ''a'' \<le> d \<and> d \<le> CHR ''z'' \<or> CHR ''0'' \<le> d \<and> d \<le> CHR ''9'' \<or> d = CHR ''-'') cs)"

definition valid_row :: "id_checks \<Rightarrow> (string \<Rightarrow> bool) \<Rightarrow> catalog_row \<Rightarrow> bool" where
  "valid_row ids is_project r \<longleftrightarrow> kind_pattern (kr_kind r) \<and> is_project (kr_project r) \<and> ic_opaque ids (kr_operation r)"

definition list_candidates ::
  "id_checks \<Rightarrow> (string \<Rightarrow> bool) \<Rightarrow> int \<Rightarrow> cursor option \<Rightarrow> catalog_row list \<Rightarrow> coord_error + catalog_row list \<times> cursor option" where
  "list_candidates ids is_project limit after rows =
     (if \<not> safe_integer limit \<or> limit < 1 \<or> limit > 100 then Inl InvalidRecord
      else rbind (case after of
          None \<Rightarrow> Inr ()
        | Some (t, k, p, opid) \<Rightarrow> ensure (kind_pattern k \<and> is_project p \<and> ic_opaque ids opid) InvalidRecord) (\<lambda>_.
      let found = take (nat (limit + 1)) (sort_key row_cursor (filter (\<lambda>r. case after of None \<Rightarrow> True | Some c \<Rightarrow> c < row_cursor r) rows));
          page_rows = take (nat limit) found
      in rbind (ensure (list_all (valid_row ids is_project) page_rows) DependencyFailed) (\<lambda>_.
           Inr (page_rows, if int (length found) > limit \<and> page_rows \<noteq> [] then Some (row_cursor (last page_rows)) else None))))"

section \<open>Ports\<close>

text \<open>
  An error is one of the coordinator's own (\<open>ProjectRecoveryError\<close>) or one of an owner; of these,
  \<open>rp_isolating\<close> are the coordinator errors of acceptances and activations that say that the Project was set
  apart.
\<close>

datatype 'e fault = Known recovery_error | Foreign 'e

type_synonym ('s, 'e, 'a) port = "'s \<Rightarrow> ('e fault + 'a) \<times> 's"

datatype isolation = IsolationStale | IsolationDone bool

record ('s, 'e) recovery_ports =
  rp_closed :: "'s \<Rightarrow> bool"
  rp_isolating :: "'e \<Rightarrow> bool"
  rp_catalog :: "cursor option \<Rightarrow> ('s, 'e, catalog_row list \<times> cursor option) port"
  rp_creation :: "(string \<Rightarrow> ('s, 'e, unit) port) option"
  rp_membership :: "(string \<Rightarrow> ('s, 'e, unit) port) option"
  rp_leave :: "(string \<Rightarrow> ('s, 'e, unit) port) option"
  rp_removal :: "(string \<Rightarrow> ('s, 'e, unit) port) option"
  rp_activation :: "string \<Rightarrow> ('s, 'e, unit) port"
  rp_accept :: "string \<Rightarrow> ('s, 'e, unit) port"
  rp_lifecycle :: "((string \<Rightarrow> ('s, 'e, unit) port) \<times> (catalog_row \<Rightarrow> ('s, 'e, recovery_outcome) port)) option"
  rp_lease :: "string \<Rightarrow> 's \<Rightarrow> bool \<times> 's"
  rp_isolate :: "catalog_row \<Rightarrow> ('s, 'e, isolation) port"
  rp_closeLease :: "'s \<Rightarrow> bool \<times> 's"

definition is_isolated :: "('s, 'e) recovery_ports \<Rightarrow> 'e fault \<Rightarrow> bool" where
  "is_isolated R e \<longleftrightarrow> (case e of Known k \<Rightarrow> k = RecoveryNeeded | Foreign x \<Rightarrow> rp_isolating R x)"

section \<open>One Project\<close>

text \<open>The owners in their order; an owner that is not wired is passed over, and closing is checked after each.\<close>

definition owners :: "('s, 'e) recovery_ports \<Rightarrow> (string \<Rightarrow> ('s, 'e, unit) port) option list" where
  "owners R = [rp_creation R, rp_membership R, rp_leave R, rp_removal R, Some (rp_activation R), Some (rp_accept R),
     map_option fst (rp_lifecycle R)]"

fun run_owners :: "('s, 'e) recovery_ports \<Rightarrow> string \<Rightarrow> (string \<Rightarrow> ('s, 'e, unit) port) option list \<Rightarrow> ('s, 'e, unit) port" where
  "run_owners R p [] s = (Inr (), s)"
| "run_owners R p (f # fs) s =
     (if rp_closed R s then (Inl (Known RecoveryClosed), s)
      else case (case f of None \<Rightarrow> (Inr (), s) | Some port \<Rightarrow> port p s) of
        (Inl e, s') \<Rightarrow> (Inl e, s')
      | (Inr u, s') \<Rightarrow> run_owners R p fs s')"

definition coordinate_project :: "('s, 'e) recovery_ports \<Rightarrow> string \<Rightarrow> 's \<Rightarrow> (recovery_error + unit) \<times> 's" where
  "coordinate_project R p s =
     (case run_owners R p (owners R) s of
        (Inr u, s') \<Rightarrow> (Inr (), s')
      | (Inl e, s') \<Rightarrow>
          (Inl (case e of Known k \<Rightarrow> k | Foreign x \<Rightarrow> if is_isolated R e then RecoveryNeeded else RecoveryDependencyFailed), s'))"

section \<open>One candidate\<close>

definition isolate_unknown :: "id_checks \<Rightarrow> (string \<Rightarrow> bool) \<Rightarrow> ('s, 'e) recovery_ports \<Rightarrow> catalog_row \<Rightarrow> ('s, 'e, unit) port" where
  "isolate_unknown ids is_project R c s =
     (if \<not> valid_row ids is_project c then (Inl (Known RecoveryDependencyFailed), s)
      else case rp_lease R (kr_project c) s of
        (False, s1) \<Rightarrow> (Inl (Known RecoveryDependencyFailed), s1)
      | (True, s1) \<Rightarrow>
          (case (if rp_closed R s1 then (Inl (Known RecoveryClosed), s1) else rp_isolate R c s1) of (r, s2) \<Rightarrow>
             (case rp_closeLease R s2 of (closed, s3) \<Rightarrow>
                (if \<not> closed then Inl (Known RecoveryDependencyFailed)
                 else case r of
                   Inl (Known k) \<Rightarrow> Inl (Known k)
                 | Inl (Foreign x) \<Rightarrow> Inl (Known RecoveryDependencyFailed)
                 | Inr IsolationStale \<Rightarrow> Inr ()
                 | Inr (IsolationDone required) \<Rightarrow>
                     Inl (Known (if required then RecoveryNeeded else RecoveryDependencyFailed)), s3))))"

definition unsupported :: "('s, 'e, 'a) port" where
  "unsupported s = (Inl (Known RecoveryDependencyFailed), s)"

definition settling :: "('s, 'e, unit) port \<Rightarrow> ('s, 'e, recovery_outcome) port" where
  "settling m s = (case m s of (Inl e, s') \<Rightarrow> (Inl e, s') | (Inr u, s') \<Rightarrow> (Inr Settled, s'))"

definition owned :: "(string \<Rightarrow> ('s, 'e, unit) port) option \<Rightarrow> string \<Rightarrow> ('s, 'e, recovery_outcome) port" where
  "owned f p = (case f of None \<Rightarrow> unsupported | Some port \<Rightarrow> settling (port p))"

definition lifecycle_candidate :: "('s, 'e) recovery_ports \<Rightarrow> catalog_row \<Rightarrow> ('s, 'e, recovery_outcome) port" where
  "lifecycle_candidate R c = (case rp_lifecycle R of None \<Rightarrow> unsupported | Some (_, recover) \<Rightarrow> recover c)"

definition handle_candidate ::
  "id_checks \<Rightarrow> (string \<Rightarrow> bool) \<Rightarrow> ('s, 'e) recovery_ports \<Rightarrow> catalog_row \<Rightarrow> ('s, 'e, recovery_outcome) port" where
  "handle_candidate ids is_project R c =
     (let kind = kr_kind c; p = kr_project c
      in if kind = ''accept'' then settling (rp_accept R p)
         else if kind = ''activation'' then settling (rp_activation R p)
         else if kind = ''create-project'' then owned (rp_creation R) p
         else if kind = ''join-project'' then owned (rp_membership R) p
         else if kind = ''remove-member'' then owned (rp_removal R) p
         else if kind = ''leave'' then (if rp_leave R \<noteq> None then owned (rp_leave R) p else lifecycle_candidate R c)
         else if kind \<in> set [''authority-transfer'', ''backup'', ''delete'', ''export'', ''retire''] then lifecycle_candidate R c
         else settling (isolate_unknown ids is_project R c))"

section \<open>Passes\<close>

record recovery_pass =
  ps_settled :: nat
  ps_isolated :: nat
  ps_waiting :: nat
  ps_offline :: nat

definition count_outcome :: "recovery_outcome \<Rightarrow> recovery_pass \<Rightarrow> recovery_pass" where
  "count_outcome x ps =
     (case x of
        Settled \<Rightarrow> ps\<lparr>ps_settled := ps_settled ps + 1\<rparr>
      | WaitingForProof \<Rightarrow> ps\<lparr>ps_waiting := ps_waiting ps + 1\<rparr>
      | OfflineMaintenance \<Rightarrow> ps\<lparr>ps_offline := ps_offline ps + 1\<rparr>)"

text \<open>
  The candidates of a page. When one fails, the pass ends there, and a serving pass remembers it to
  start after it the next time.
\<close>

fun run_candidates ::
  "(catalog_row \<Rightarrow> ('s, 'e, recovery_outcome) port) \<Rightarrow> ('s, 'e) recovery_ports \<Rightarrow> bool \<Rightarrow> catalog_row list \<Rightarrow> recovery_pass
    \<Rightarrow> 's \<times> cursor option \<Rightarrow> ('e fault + recovery_pass) \<times> 's \<times> cursor option" where
  "run_candidates h R serving [] ps (s, after) = (Inr ps, s, after)"
| "run_candidates h R serving (c # cs) ps (s, after) =
     (if rp_closed R s then (Inl (Known RecoveryClosed), s, after)
      else case h c s of
        (Inr x, s') \<Rightarrow>
          if x = OfflineMaintenance \<and> \<not> serving then (Inl (Known RecoveryDependencyFailed), s', after)
          else run_candidates h R serving cs (count_outcome x ps) (s', after)
      | (Inl e, s') \<Rightarrow>
          if is_isolated R e then run_candidates h R serving cs (ps\<lparr>ps_isolated := ps_isolated ps + 1\<rparr>) (s', after)
          else (Inl e, s', if serving then Some (row_cursor c) else after))"

text \<open>The loop over the pages, with the number of pages that it may read.\<close>

fun run_catalog ::
  "nat \<Rightarrow> (catalog_row \<Rightarrow> ('s, 'e, recovery_outcome) port) \<Rightarrow> ('s, 'e) recovery_ports \<Rightarrow> bool \<Rightarrow> cursor option \<Rightarrow> recovery_pass
    \<Rightarrow> 's \<times> cursor option \<Rightarrow> (('e fault + recovery_pass) \<times> 's \<times> cursor option) option" where
  "run_catalog 0 h R serving after ps st = None"
| "run_catalog (Suc n) h R serving after ps (s, kept) =
     (if rp_closed R s then Some (Inl (Known RecoveryClosed), s, kept)
      else case rp_catalog R after s of
        (Inl e, s') \<Rightarrow> Some (Inl e, s', kept)
      | (Inr (cs, next1), s') \<Rightarrow>
          (case run_candidates h R serving cs ps (s', kept) of
             (Inl e, st') \<Rightarrow> Some (Inl e, st')
           | (Inr ps', s'', kept') \<Rightarrow>
               (case next1 of
                  None \<Rightarrow> Some (Inr ps', s'', if serving then None else kept')
                | Some c \<Rightarrow> run_catalog n h R serving (Some c) ps' (s'', kept'))))"

definition no_pass :: recovery_pass where
  "no_pass = \<lparr>ps_settled = 0, ps_isolated = 0, ps_waiting = 0, ps_offline = 0\<rparr>"

definition recover_catalog ::
  "nat \<Rightarrow> id_checks \<Rightarrow> (string \<Rightarrow> bool) \<Rightarrow> ('s, 'e) recovery_ports \<Rightarrow> bool \<Rightarrow> 's \<times> cursor option
    \<Rightarrow> (('e fault + recovery_pass) \<times> 's \<times> cursor option) option" where
  "recover_catalog n ids is_project R serving = (\<lambda>(s, kept).
     run_catalog n (handle_candidate ids is_project R) R serving (if serving then kept else None) no_pass (s, kept))"

section \<open>A pass reads the pages as one list\<close>

definition catalog_order :: "catalog_row list \<Rightarrow> catalog_row list" where
  "catalog_order rows = sort_key row_cursor rows"

text \<open>The cursor after so many rows.\<close>

definition cursor_at :: "catalog_row list \<Rightarrow> nat \<Rightarrow> cursor option" where
  "cursor_at order i = (if i = 0 then None else Some (row_cursor (order ! (i - 1))))"

text \<open>A catalog that keeps its rows while the passes run, and a coordinator that is not closed.\<close>

definition steady :: "id_checks \<Rightarrow> (string \<Rightarrow> bool) \<Rightarrow> catalog_row list \<Rightarrow> ('s, 'e) recovery_ports \<Rightarrow> bool" where
  "steady ids is_project rows R \<longleftrightarrow> distinct (map row_cursor rows) \<and> (\<forall>r\<in>set rows. valid_row ids is_project r)
     \<and> (\<forall>s. \<not> rp_closed R s)
     \<and> (\<forall>after s. rp_catalog R after s = (case list_candidates ids is_project 100 after rows of
          Inl e \<Rightarrow> (Inl (Known RecoveryDependencyFailed), s) | Inr p \<Rightarrow> (Inr p, s)))"

lemma after_position:
  assumes s: "sorted_wrt (\<lambda>x y. row_cursor x < row_cursor y) order" and i: "i \<le> length order"
  shows "filter (\<lambda>r. case cursor_at order i of None \<Rightarrow> True | Some c \<Rightarrow> c < row_cursor r) order = drop i order"
proof (cases i)
  case (Suc k)
  let ?c = "row_cursor (order ! k)"
  have k: "k < length order" using i Suc by simp
  have "\<not> ?c < row_cursor x" if x: "x \<in> set (take i order)" for x
  proof -
    obtain j where j: "x = order ! j" "j \<le> k" using x Suc k by (auto simp: in_set_conv_nth)
    show ?thesis
    proof (cases "j = k")
      case False
      then have "row_cursor x < ?c" using sorted_wrt_nth_less [OF s, of j k] j k by simp
      then show ?thesis by simp
    qed (use j in simp)
  qed
  moreover have "?c < row_cursor x" if x: "x \<in> set (drop i order)" for x
  proof -
    obtain j where j: "x = order ! (i + j)" "i + j < length order" using x by (auto simp: in_set_conv_nth)
    then show ?thesis using sorted_wrt_nth_less [OF s, of k "i + j"] Suc by simp
  qed
  ultimately have "filter (\<lambda>r. ?c < row_cursor r) (take i order @ drop i order) = drop i order"
    by (subst filter_append) (simp add: filter_empty_conv)
  then show ?thesis by (simp add: cursor_at_def Suc)
qed (simp add: cursor_at_def)

lemma page_at:
  assumes d: "distinct (map row_cursor rows)" and v: "\<forall>r\<in>set rows. valid_row ids is_project r"
    and i: "i \<le> length rows"
  shows "list_candidates ids is_project 100 (cursor_at (catalog_order rows) i) rows
    = Inr (take 100 (drop i (catalog_order rows)),
        if length rows - i > 100 then cursor_at (catalog_order rows) (i + 100) else None)"
proof -
  let ?order = "catalog_order rows"
  have st: "sorted_wrt (\<lambda>x y. row_cursor x < row_cursor y) ?order" unfolding catalog_order_def by (rule sorted_strict [OF d])
  have len: "length ?order = length rows" "set ?order = set rows" by (simp_all add: catalog_order_def)
  have "sort_key row_cursor (filter (\<lambda>r. case cursor_at ?order i of None \<Rightarrow> True | Some c \<Rightarrow> c < row_cursor r) rows) = drop i ?order"
    using after_position [OF st, of i] i len by (simp add: filter_sort catalog_order_def)
  moreover have valid: "list_all (valid_row ids is_project) (take 100 (drop i ?order))"
    using v len by (auto simp: list_all_iff dest!: in_set_takeD in_set_dropD)
  moreover have "(case cursor_at ?order i of None \<Rightarrow> Inr () | Some (t, k, p, opid) \<Rightarrow>
      ensure (kind_pattern k \<and> is_project p \<and> ic_opaque ids opid) InvalidRecord) = Inr ()"
  proof (cases i)
    case (Suc k)
    then have "?order ! k \<in> set rows" using i len by (metis Suc_le_lessD nth_mem)
    then show ?thesis using v Suc by (simp add: cursor_at_def row_cursor_def valid_row_def ensure_def)
  qed (simp add: cursor_at_def)
  moreover have "take 100 (take 101 (drop i ?order)) = take 100 (drop i ?order)" by (simp add: min_def)
  moreover have "row_cursor (last (take 100 (drop i ?order))) = row_cursor (?order ! (99 + i))" if "length rows - i > 100"
  proof -
    have "take 100 (drop i ?order) \<noteq> []" "length (take 100 (drop i ?order)) = 100" using that len by auto
    then have "last (take 100 (drop i ?order)) = take 100 (drop i ?order) ! 99" by (simp add: last_conv_nth)
    then show ?thesis using that len by (simp add: add.commute)
  qed
  ultimately show ?thesis using len
    by (simp add: list_candidates_def Let_def ensure_def max_safe_integer_def safe_integer_def cursor_at_def rbind_def)
qed

lemma run_candidates_append:
  "run_candidates h R serving (xs @ ys) ps st =
     (case run_candidates h R serving xs ps st of
        (Inl e, st') \<Rightarrow> (Inl e, st')
      | (Inr ps', st') \<Rightarrow> run_candidates h R serving ys ps' st')"
proof (induction xs arbitrary: ps st)
  case Nil
  then show ?case by (cases st) simp
next
  case (Cons c cs)
  then show ?case by (cases st) (auto split: prod.split sum.split)
qed

text \<open>The result of a pass from a position: the rows after it, one after the other.\<close>

lemma catalog_sequential:
  assumes R: "steady ids is_project rows R" and i: "i \<le> length rows" and n: "length rows - i < n"
  shows "run_catalog n h R serving (cursor_at (catalog_order rows) i) ps (s, kept) =
    Some (case run_candidates h R serving (drop i (catalog_order rows)) ps (s, kept) of
        (Inl e, st) \<Rightarrow> (Inl e, st)
      | (Inr ps', s', kept') \<Rightarrow> (Inr ps', s', if serving then None else kept'))"
  using i n
proof (induction n arbitrary: i ps s kept)
  case (Suc n)
  let ?order = "catalog_order rows"
  have f: "rp_catalog R (cursor_at ?order i) s = (Inr (take 100 (drop i ?order),
      if length rows - i > 100 then cursor_at ?order (i + 100) else None), s)"
    using R page_at [OF _ _ Suc.prems(1)] by (simp add: steady_def)
  have open1: "\<not> rp_closed R s" using R by (simp add: steady_def)
  show ?case
  proof (cases "length rows - i > 100")
    case True
    have parts: "drop i ?order = take 100 (drop i ?order) @ drop (i + 100) ?order"
      by (metis add.commute append_take_drop_id drop_drop)
    have "run_candidates h R serving (drop i ?order) ps (s, kept) =
        (case run_candidates h R serving (take 100 (drop i ?order)) ps (s, kept) of
          (Inl e, st') \<Rightarrow> (Inl e, st')
        | (Inr ps', st') \<Rightarrow> run_candidates h R serving (drop (i + 100) ?order) ps' st')"
      using run_candidates_append [of h R serving "take 100 (drop i ?order)" "drop (i + 100) ?order" ps "(s, kept)"]
      unfolding parts [symmetric] .
    moreover have "run_catalog n h R serving (cursor_at ?order (i + 100)) ps' (s', kept') =
      Some (case run_candidates h R serving (drop (i + 100) ?order) ps' (s', kept') of
        (Inl e, st) \<Rightarrow> (Inl e, st)
      | (Inr ps', s', kept') \<Rightarrow> (Inr ps', s', if serving then None else kept'))" for ps' s' kept'
      using Suc.IH [of "i + 100"] True Suc.prems by simp
    ultimately show ?thesis using f open1 True by (auto simp: cursor_at_def split: prod.split sum.split)
  next
    case False
    then have "take 100 (drop i ?order) = drop i ?order" by (simp add: catalog_order_def)
    then show ?thesis using f open1 False by (auto split: prod.split sum.split)
  qed
qed simp

section \<open>No candidate is starved\<close>

text \<open>What the handler was called for, when \<open>seen\<close> is a log of the calls.\<close>

definition logs :: "(catalog_row \<Rightarrow> ('s, 'e, recovery_outcome) port) \<Rightarrow> ('s \<Rightarrow> catalog_row list) \<Rightarrow> bool" where
  "logs h seen \<longleftrightarrow> (\<forall>c s. seen (snd (h c s)) = seen s @ [c])"

lemma candidates_seen:
  assumes "logs h seen" "\<forall>s. \<not> rp_closed R s" "run_candidates h R True cs ps (s, kept) = (r, s', kept')"
  shows "(\<exists>j<length cs. seen s' = seen s @ take (Suc j) cs \<and> kept' = Some (row_cursor (cs ! j)) \<and> (\<exists>e. r = Inl e))
    \<or> (seen s' = seen s @ cs \<and> kept' = kept \<and> (\<exists>p. r = Inr p))"
  using assms(3)
proof (induction cs arbitrary: ps s)
  case (Cons c cs)
  obtain r1 s1 where h: "h c s = (r1, s1)" by (cases "h c s")
  have seen: "seen s1 = seen s @ [c]" using assms(1) h by (metis logs_def snd_conv)
  show ?case
  proof (cases "\<exists>e. r1 = Inl e \<and> \<not> is_isolated R e")
    case True
    then have "seen s' = seen s @ take (Suc 0) (c # cs)" "kept' = Some (row_cursor c)" "\<exists>e. r = Inl e"
      using Cons.prems assms(2) h seen by auto
    then show ?thesis by (intro disjI1 exI [of _ 0]) simp
  next
    case False
    then obtain ps' where "run_candidates h R True cs ps' (s1, kept) = (r, s', kept')"
      using Cons.prems assms(2) h by (auto split: sum.splits if_splits)
    from Cons.IH [OF this] show ?thesis
    proof
      assume "\<exists>j<length cs. seen s' = seen s1 @ take (Suc j) cs \<and> kept' = Some (row_cursor (cs ! j)) \<and> (\<exists>e. r = Inl e)"
      then obtain j where "j < length cs" "seen s' = seen s1 @ take (Suc j) cs" "kept' = Some (row_cursor (cs ! j))" "\<exists>e. r = Inl e" by blast
      then show ?thesis using seen by (intro disjI1 exI [of _ "Suc j"]) simp
    qed (use seen in simp)
  qed
qed auto

text \<open>A number of serving passes, one after the other, whatever each of them returns.\<close>

fun serving_passes ::
  "nat \<Rightarrow> nat \<Rightarrow> (catalog_row \<Rightarrow> ('s, 'e, recovery_outcome) port) \<Rightarrow> ('s, 'e) recovery_ports \<Rightarrow> 's \<times> cursor option
    \<Rightarrow> ('s \<times> cursor option) option" where
  "serving_passes 0 n h R st = Some st"
| "serving_passes (Suc k) n h R st =
     (case run_catalog n h R True (snd st) no_pass st of
        None \<Rightarrow> None
      | Some (_, st') \<Rightarrow> serving_passes k n h R st')"

lemma passes_cycle:
  assumes R: "steady ids is_project rows R" and h: "logs h seen" and n: "length rows < n"
    and "seen s = concat (replicate c (catalog_order rows)) @ take i (catalog_order rows)" "i \<le> length rows"
    and "kept = cursor_at (catalog_order rows) i"
  shows "\<exists>s' kept' c' i'. serving_passes k n h R (s, kept) = Some (s', kept') \<and> i' \<le> length rows
    \<and> seen s' = concat (replicate c' (catalog_order rows)) @ take i' (catalog_order rows)
    \<and> c * Suc (length rows) + i + k \<le> c' * Suc (length rows) + i'"
  using assms(4-)
proof (induction k arbitrary: s c i kept)
  case 0
  then show ?case by auto
next
  case (Suc k)
  let ?order = "catalog_order rows"
  have len: "length ?order = length rows" by (simp add: catalog_order_def)
  have closed: "\<forall>s. \<not> rp_closed R s" using R by (simp add: steady_def)
  obtain r s1 kept1 where run: "run_candidates h R True (drop i ?order) no_pass (s, kept) = (r, s1, kept1)"
    by (cases "run_candidates h R True (drop i ?order) no_pass (s, kept)") auto
  have "run_catalog n h R True (snd (s, kept)) no_pass (s, kept) =
      Some (case r of Inl e \<Rightarrow> (Inl e, s1, kept1) | Inr ps \<Rightarrow> (Inr ps, s1, None))"
    using catalog_sequential [OF R Suc.prems(2), of n h True no_pass s kept] n run Suc.prems(3) by (simp split: sum.split)
  then have step: "serving_passes (Suc k) n h R (s, kept) =
      serving_passes k n h R (s1, case r of Inl e \<Rightarrow> kept1 | Inr ps \<Rightarrow> None)"
    by (simp split: sum.split)
  from candidates_seen [OF h closed run] show ?case
  proof
    assume "\<exists>j<length (drop i ?order). seen s1 = seen s @ take (Suc j) (drop i ?order)
        \<and> kept1 = Some (row_cursor (drop i ?order ! j)) \<and> (\<exists>e. r = Inl e)"
    then obtain j e where "j < length (drop i ?order)" and j: "seen s1 = seen s @ take (Suc j) (drop i ?order)"
      "kept1 = Some (row_cursor (drop i ?order ! j))" "r = Inl e" by blast
    then have ij: "i + j < length rows" using len by simp
    have "seen s1 = concat (replicate c ?order) @ take (i + Suc j) ?order"
      using j(1) Suc.prems(1) take_add [of i "Suc j" ?order] by simp
    moreover have "kept1 = cursor_at ?order (i + Suc j)" using j(2) ij len by (simp add: cursor_at_def)
    ultimately obtain s' kept' c' i' where "serving_passes k n h R (s1, kept1) = Some (s', kept')" "i' \<le> length rows"
      "seen s' = concat (replicate c' ?order) @ take i' ?order"
      "c * Suc (length rows) + (i + Suc j) + k \<le> c' * Suc (length rows) + i'"
      using Suc.IH [of s1 c "i + Suc j" kept1] ij by auto
    then show ?thesis using step j(3) by (intro exI [of _ s'] exI [of _ kept'] exI [of _ c'] exI [of _ i']) simp
  next
    assume "seen s1 = seen s @ drop i ?order \<and> kept1 = kept \<and> (\<exists>p. r = Inr p)"
    then obtain ps where p: "seen s1 = seen s @ drop i ?order" "r = Inr ps" by blast
    have "seen s1 = concat (replicate (Suc c) ?order) @ take 0 ?order"
      using p(1) Suc.prems(1) by (simp add: replicate_append_same [symmetric] del: replicate_append_same)
    then obtain s' kept' c' i' where "serving_passes k n h R (s1, None) = Some (s', kept')" "i' \<le> length rows"
      "seen s' = concat (replicate c' ?order) @ take i' ?order"
      "Suc c * Suc (length rows) + 0 + k \<le> c' * Suc (length rows) + i'"
      using Suc.IH [of s1 "Suc c" 0 None] by (auto simp: cursor_at_def)
    then show ?thesis using step p(2) Suc.prems(2) by (intro exI [of _ s'] exI [of _ kept'] exI [of _ c'] exI [of _ i']) simp
  qed
qed

text \<open>The same ports with a log of the candidates beside the state.\<close>

definition on_first :: "('s, 'e, 'a) port \<Rightarrow> ('s \<times> 't, 'e, 'a) port" where
  "on_first m = (\<lambda>(s, t). case m s of (r, s') \<Rightarrow> (r, (s', t)))"

definition noting ::
  "(catalog_row \<Rightarrow> ('s, 'e, recovery_outcome) port) \<Rightarrow> catalog_row \<Rightarrow> ('s \<times> catalog_row list, 'e, recovery_outcome) port" where
  "noting h c = (\<lambda>(s, t). case h c s of (r, s') \<Rightarrow> (r, (s', t @ [c])))"

definition lease_first :: "('s \<Rightarrow> bool \<times> 's) \<Rightarrow> 's \<times> 't \<Rightarrow> bool \<times> ('s \<times> 't)" where
  "lease_first m = (\<lambda>(s, t). case m s of (b, s') \<Rightarrow> (b, (s', t)))"

definition noting_ports :: "('s, 'e) recovery_ports \<Rightarrow> ('s \<times> catalog_row list, 'e) recovery_ports" where
  "noting_ports R = \<lparr>rp_closed = (\<lambda>(s, _). rp_closed R s), rp_isolating = rp_isolating R,
     rp_catalog = (\<lambda>a. on_first (rp_catalog R a)),
     rp_creation = map_option (\<lambda>f p. on_first (f p)) (rp_creation R),
     rp_membership = map_option (\<lambda>f p. on_first (f p)) (rp_membership R),
     rp_leave = map_option (\<lambda>f p. on_first (f p)) (rp_leave R),
     rp_removal = map_option (\<lambda>f p. on_first (f p)) (rp_removal R),
     rp_activation = (\<lambda>p. on_first (rp_activation R p)), rp_accept = (\<lambda>p. on_first (rp_accept R p)),
     rp_lifecycle = map_option (\<lambda>(f, g). (\<lambda>p. on_first (f p), \<lambda>c. on_first (g c))) (rp_lifecycle R),
     rp_lease = (\<lambda>p. lease_first (rp_lease R p)), rp_isolate = (\<lambda>c. on_first (rp_isolate R c)),
     rp_closeLease = lease_first (rp_closeLease R)\<rparr>"

lemma noting_steady: "steady ids is_project rows R \<Longrightarrow> steady ids is_project rows (noting_ports R)"
  by (auto simp: steady_def noting_ports_def on_first_def split: sum.split)

lemma noting_logs: "logs (noting h) snd"
  by (auto simp: logs_def noting_def split: prod.split)


text \<open>Two Projects whose acceptances fail every time, and three passes.\<close>

definition demo_rows :: "catalog_row list" where
  "demo_rows = [\<lparr>kr_kind = ''accept'', kr_operation = ''o'', kr_project = ''p'', kr_scheduledAt = 5\<rparr>,
     \<lparr>kr_kind = ''backup'', kr_operation = ''b'', kr_project = ''q'', kr_scheduledAt = 3\<rparr>]"

definition demo_checks :: id_checks where
  "demo_checks = \<lparr>ic_opaque = (\<lambda>s. s \<noteq> []), ic_member = (\<lambda>s. s \<noteq> []), ic_oid = (\<lambda>s. s \<noteq> [])\<rparr>"

definition demo_ports :: "(unit, unit) recovery_ports" where
  "demo_ports = \<lparr>rp_closed = (\<lambda>_. False), rp_isolating = (\<lambda>_. False),
     rp_catalog = (\<lambda>after s. case list_candidates demo_checks (\<lambda>_. True) 100 after demo_rows of
          Inl e \<Rightarrow> (Inl (Known RecoveryDependencyFailed), s) | Inr p \<Rightarrow> (Inr p, s)),
     rp_creation = None, rp_membership = None, rp_leave = None, rp_removal = None,
     rp_activation = (\<lambda>_ s. (Inr (), s)), rp_accept = (\<lambda>_ s. (Inl (Foreign ()), s)),
     rp_lifecycle = Some (\<lambda>_ s. (Inr (), s), \<lambda>_ s. (Inl (Known RecoveryDependencyFailed), s)),
     rp_lease = (\<lambda>_ s. (True, s)), rp_isolate = (\<lambda>_ s. (Inr IsolationStale, s)), rp_closeLease = (\<lambda>s. (True, s))\<rparr>"


end
