(* ===== verification/ProjectServer.thy ===== *)
theory ProjectServer
  imports RequestAuthority ProjectRecovery
begin

text \<open>
  One Project and the server over time: acceptances, the writes of both authorities, recoveries, and
  what other components do in between. The admissions of the authorities recover a Project through
  \<open>ProjectRecoveryCoordinator\<close>, as \<open>src/src/composition/createApplication.ts\<close> wires them.
\<close>

section \<open>The recovery of a Project\<close>

text \<open>
  The owners of other operations answer, and may change the journals of those operations, the placement
  and the state of service.
\<close>

record other_effect =
  oe_result :: "failure + unit"
  oe_bootstrap :: "lifecycle_state option"
  oe_join :: bool
  oe_lifecycle :: "lifecycle_state option"
  oe_placement :: "placement option"
  oe_service :: service_state

type_synonym other_owner = "world \<Rightarrow> other_effect"

record server_env =
  sv_accept :: accept_env
  sv_git :: git_env
  sv_process :: process_env
  sv_creation :: "other_owner option"
  sv_membership :: "other_owner option"
  sv_leave :: "other_owner option"
  sv_removal :: "other_owner option"
  sv_activation :: other_owner
  sv_lifecycle :: "other_owner option"
  sv_ports :: "(world, failure) recovery_ports"

definition other_act :: "server_env \<Rightarrow> other_owner \<Rightarrow> unit act" where
  "other_act V f w =
     (let x = f w
      in (oe_result x, w\<lparr>wo_bootstrap := oe_bootstrap x, wo_join := oe_join x, wo_lifecycle := oe_lifecycle x,
            wo_db := accept_step (sv_accept V) (accept_step (sv_accept V) (wo_db w) (ChangePlacement (oe_placement x)))
              (ChangeService (oe_service x))\<rparr>))"

text \<open>An action as a port: the errors of the coordinator of recoveries are its own.\<close>

definition as_port :: "unit act \<Rightarrow> (world, failure, unit) port" where
  "as_port m w =
     (case m w of
        (Inr u, w') \<Rightarrow> (Inr u, w')
      | (Inl e, w') \<Rightarrow>
          (Inl (case e of
             WriteAdmission.Recovery RecoveryRecoveryRequired \<Rightarrow> Known RecoveryNeeded
           | WriteAdmission.Recovery WriteAdmission.RecoveryDependencyFailed \<Rightarrow> Known RecoveryDispatch.RecoveryDependencyFailed
           | _ \<Rightarrow> Foreign e), w'))"

definition other_port :: "server_env \<Rightarrow> other_owner \<Rightarrow> string \<Rightarrow> (world, failure, unit) port" where
  "other_port V f project = as_port (other_act V f)"

definition server_ports :: "server_env \<Rightarrow> (world, failure) recovery_ports" where
  "server_ports V = (sv_ports V)\<lparr>rp_closed := \<lambda>_. False, rp_isolating := \<lambda>e. e = Coordinator CoordinatorRecoveryRequired,
     rp_creation := map_option (other_port V) (sv_creation V), rp_membership := map_option (other_port V) (sv_membership V),
     rp_leave := map_option (other_port V) (sv_leave V), rp_removal := map_option (other_port V) (sv_removal V),
     rp_activation := other_port V (sv_activation V),
     rp_accept := \<lambda>_. as_port (recover_accept (sv_accept V) (sv_git V) (sv_process V)),
     rp_lifecycle := map_option (\<lambda>f. (other_port V f, \<lambda>c. settling (other_port V f (kr_project c)))) (sv_lifecycle V)\<rparr>"

text \<open>\<open>recoverProject\<close> of the coordinator as the recovery of an admission; a stop of the process is no error it sees.\<close>

definition recover_server :: "server_env \<Rightarrow> unit act" where
  "recover_server V w =
     (case run_owners (server_ports V) (ae_project (sv_accept V)) (owners (server_ports V)) w of
        (Inl (Foreign Crashed), w') \<Rightarrow> (Inl Crashed, w')
      | _ \<Rightarrow>
          (case coordinate_project (server_ports V) (ae_project (sv_accept V)) w of
             (Inr u, w') \<Rightarrow> (Inr (), w')
           | (Inl e, w') \<Rightarrow>
               (Inl (WriteAdmission.Recovery (if e = RecoveryNeeded then RecoveryRecoveryRequired
                  else WriteAdmission.RecoveryDependencyFailed)), w')))"

section \<open>Events\<close>

datatype authority_call = TicketWrite ticket_call | RequestWrite request_call

definition authority_write :: "server_env \<Rightarrow> authority_env \<Rightarrow> authority_call \<Rightarrow> reply act" where
  "authority_write V A c =
     (case c of
        TicketWrite t \<Rightarrow> ticket_write (sv_accept V) A (sv_process V) (recover_server V) t
      | RequestWrite r \<Rightarrow> request_write (sv_accept V) A (sv_git V) (sv_process V) (recover_server V) r)"

text \<open>
  What happens to a Project: an acceptance, a write of an authority or a recovery, each by a process that
  starts with no permits taken and sees the given faults; and between them what other components do:
  edits of the collaboration tables, a push to a reference other than the main branch, and changes of
  the membership, the other journals, the placement and the state of service.
\<close>

datatype server_event =
    AcceptCall accept_request "call_fault list"
  | AuthorityCall authority_env authority_call "call_fault list"
  | RecoverCall "call_fault list"
  | CollaborationEdit collab_command
  | Push string string
  | ChangeMembership "membership option"
  | ChangeOther "lifecycle_state option" bool "lifecycle_state option"
  | MovePlacement "placement option"
  | SetService service_state

definition fresh :: "call_fault list \<Rightarrow> world \<Rightarrow> world" where
  "fresh fs w = w\<lparr>wo_permits := 0, wo_faults := fs\<rparr>"

definition push_ref :: "string \<Rightarrow> string \<Rightarrow> (string \<times> string) list \<Rightarrow> (string \<times> string) list" where
  "push_ref name oid refs =
     (if name = main_ref then refs else if map_of refs name = None then refs @ [(name, oid)] else set_ref name oid refs)"

fun serve :: "server_env \<Rightarrow> world \<Rightarrow> server_event \<Rightarrow> world" where
  "serve V w (AcceptCall r fs) = snd (accept (sv_accept V) (sv_git V) (sv_process V) r (fresh fs w))"
| "serve V w (AuthorityCall A c fs) = snd (authority_write V A c (fresh fs w))"
| "serve V w (RecoverCall fs) = snd (recover_server V (fresh fs w))"
| "serve V w (CollaborationEdit c) = w\<lparr>wo_db := accept_step (sv_accept V) (wo_db w) (Collaborate c)\<rparr>"
| "serve V w (Push name oid) = w\<lparr>wo_refs := push_ref name oid (wo_refs w)\<rparr>"
| "serve V w (ChangeMembership x) = w\<lparr>wo_membership := x\<rparr>"
| "serve V w (ChangeOther b j l) = w\<lparr>wo_bootstrap := b, wo_join := j, wo_lifecycle := l\<rparr>"
| "serve V w (MovePlacement l) = w\<lparr>wo_db := accept_step (sv_accept V) (wo_db w) (ChangePlacement l)\<rparr>"
| "serve V w (SetService s) = w\<lparr>wo_db := accept_step (sv_accept V) (wo_db w) (ChangeService s)\<rparr>"

definition started :: "string \<Rightarrow> placement \<Rightarrow> world" where
  "started main l = \<lparr>wo_db = new_project main l, wo_membership = None, wo_bootstrap = None, wo_join = False, wo_lifecycle = None,
     wo_refs = [(main_ref, main)], wo_commits = [], wo_permits = 0, wo_faults = [], wo_ticks = 0\<rparr>"

section \<open>Every event keeps the agreement\<close>

lemma agrees_step:
  "main_agrees db refs \<Longrightarrow> main_agrees (accept_step E db (Collaborate c)) refs"
  "main_agrees db refs \<Longrightarrow> main_agrees (accept_step E db (ChangePlacement l)) refs"
  "main_agrees db refs \<Longrightarrow> main_agrees (accept_step E db (ChangeService v)) refs"
  by (auto simp: main_agrees_def open_accepts_def Let_def split: option.splits list.splits)

lemma map_of_push: "map_of (push_ref name oid refs) main_ref = map_of refs main_ref"
  by (auto simp: push_ref_def map_of_set_ref map_add_def split: option.split)

lemma agrees_push: "main_agrees db (push_ref name oid refs) = main_agrees db refs"
  unfolding main_agrees_def map_of_push ..

lemma inv_accept_step:
  assumes "accept_inv E m d w" "main_agrees (accept_step E (wo_db w) c) (wo_refs w)"
  shows "accept_inv E m d (w\<lparr>wo_db := accept_step E (wo_db w) c\<rparr>)"
  by (rule inv_step [OF assms(1) accept_step_sound assms(2)])

abbreviation server_inv :: "server_env \<Rightarrow> string \<Rightarrow> accept_db \<Rightarrow> world \<Rightarrow> bool" where
  "server_inv V \<equiv> accept_inv (sv_accept V)"

lemma other_act_inv:
  assumes i: "server_inv V m d w"
  shows "server_inv V m d (snd (other_act V f w))"
proof -
  let ?E = "sv_accept V" and ?x = "f w"
  let ?d1 = "accept_step ?E (wo_db w) (ChangePlacement (oe_placement ?x))"
  have "server_inv V m d (w\<lparr>wo_db := ?d1\<rparr>)"
    by (rule inv_accept_step [OF i]) (use i agrees_step in \<open>auto simp: accept_inv_def simp del: accept_step.simps\<close>)
  then have "server_inv V m d (w\<lparr>wo_db := ?d1\<rparr>\<lparr>wo_db := accept_step ?E (wo_db (w\<lparr>wo_db := ?d1\<rparr>)) (ChangeService (oe_service ?x))\<rparr>)"
    by (rule inv_accept_step) (use i agrees_step in \<open>auto simp: accept_inv_def simp del: accept_step.simps\<close>)
  then show ?thesis by (simp add: other_act_def Let_def accept_inv_def del: accept_step.simps)
qed

text \<open>What each owner keeps, the recovery of the Project keeps.\<close>

definition conserves :: "('s \<Rightarrow> bool) \<Rightarrow> ('s \<Rightarrow> 'r \<times> 's) \<Rightarrow> bool" where
  "conserves I m \<longleftrightarrow> (\<forall>w. I w \<longrightarrow> I (snd (m w)))"

lemma conservesI: "(\<And>w. I w \<Longrightarrow> I (snd (m w))) \<Longrightarrow> conserves I m"
  by (simp add: conserves_def)

lemma conservesD: "conserves I m \<Longrightarrow> I w \<Longrightarrow> I (snd (m w))"
  by (simp add: conserves_def)

lemma triple_keeps: "triple Stormy I m (\<lambda>_. I) I = conserves I m"
proof
  assume t: "triple Stormy I m (\<lambda>_. I) I"
  show "conserves I m"
  proof (rule conservesI)
    fix w assume i: "I w"
    obtain r w' where m: "m w = (r, w')" by (cases "m w")
    show "I (snd (m w))" using triple_result [OF t m _ i] m by (cases r) simp_all
  qed
next
  assume k: "conserves I m"
  show "triple Stormy I m (\<lambda>_. I) I"
  proof (rule tripleI)
    fix w r w' assume "I w" "m w = (r, w')"
    then have "I w'" using conservesD [OF k] by (metis snd_conv)
    then show "faults_in Stormy (wo_faults w') \<and> (case r of Inl e \<Rightarrow> allowed Stormy e \<and> I w' | Inr x \<Rightarrow> I w')"
      by (cases r) simp_all
  qed
qed

lemma keeps_as_port: "conserves I m \<Longrightarrow> conserves I (as_port m)"
  by (rule conservesI, drule (1) conservesD) (auto simp: as_port_def split: prod.split sum.split)

lemma run_owners_keep:
  "(\<And>port. Some port \<in> set fs \<Longrightarrow> conserves I (port p)) \<Longrightarrow> conserves I (run_owners R p fs)"
proof (induction fs)
  case Nil
  then show ?case by (simp add: conserves_def)
next
  case (Cons f fs)
  then have rest: "conserves I (run_owners R p fs)" by simp
  show ?case
  proof (rule conservesI)
    fix w assume i: "I w"
    define s where "s = (case f of None \<Rightarrow> (Inr (), w) | Some port \<Rightarrow> port p w)"
    have "I (snd s)" using Cons.prems i by (cases f) (auto simp: s_def conservesD)
    then show "I (snd (run_owners R p (f # fs) w))"
      using i conservesD [OF rest] by (cases s; cases "fst s") (simp_all add: s_def [symmetric])
  qed
qed

lemma recover_server_snd: "snd (recover_server V w) = snd (run_owners (server_ports V) (ae_project (sv_accept V)) (owners (server_ports V)) w)"
  by (simp add: recover_server_def coordinate_project_def split: prod.split sum.split fault.split failure.split)

lemma recover_server_keeps:
  assumes other: "\<And>f. conserves I (other_act V f)" and accept: "conserves I (recover_accept (sv_accept V) (sv_git V) (sv_process V))"
  shows "conserves I (recover_server V)"
proof -
  let ?R = "server_ports V" and ?p = "ae_project (sv_accept V)"
  have "conserves I (run_owners ?R ?p (owners ?R))"
  proof (rule run_owners_keep)
    fix port assume "Some port \<in> set (owners ?R)"
    then have "(\<exists>g. port = other_port V g) \<or> port = (\<lambda>_. as_port (recover_accept (sv_accept V) (sv_git V) (sv_process V)))"
      by (auto simp: owners_def server_ports_def map_option_case split: option.splits)
    then show "conserves I (port ?p)" using keeps_as_port [OF other] keeps_as_port [OF accept] by (auto simp: other_port_def)
  qed
  then show ?thesis by (simp add: conserves_def recover_server_snd)
qed

lemma keeps_recover_server: "conserves (server_inv V m d) (recover_server V)"
proof (rule recover_server_keeps)
  show "conserves (server_inv V m d) (recover_accept (sv_accept V) (sv_git V) (sv_process V))"
    using triple_recover_accept unfolding triple_keeps .
qed (rule conservesI, rule other_act_inv)

text \<open>The call under which the answer of a write is kept, and the rule for the writes of both authorities.\<close>

definition call_made :: "server_env \<Rightarrow> authority_env \<Rightarrow> authority_call \<Rightarrow> failure + write_call" where
  "call_made V A c =
     (case c of
        TicketWrite t \<Rightarrow> rbind (ticket_request (sv_accept V) A t) (\<lambda>(call, _). Inr call)
      | RequestWrite r \<Rightarrow> request_made (sv_accept V) A r)"

lemma triple_authority_write:
  assumes admit: "\<And>call before mutation b. call_made V A c = Inr call \<Longrightarrow> (\<And>facts. stays (before facts)) \<Longrightarrow>
      authority_mutation (sv_accept V) A mutation \<Longrightarrow>
      triple Stormy I (write_admission (sv_accept V) (recover_server V)
        (repeatable_write (sv_accept V) A (sv_process V) call before mutation) b) Q I"
    and look: "triple Stormy I (write_admission (sv_accept V) (recover_server V) (\<lambda>_. give ()) True) (\<lambda>_. I) I"
    and I: "lasting I" and Q: "\<And>x. lasting (Q x)" "\<And>x w. Q x w \<Longrightarrow> I w"
  shows "triple Stormy I (authority_write V A c) Q I"
proof (cases c)
  case (TicketWrite t)
  have "triple Stormy I (ticket_write (sv_accept V) A (sv_process V) (recover_server V) t) Q I"
    by (rule triple_ticket_write, rule admit) (auto simp: TicketWrite call_made_def rbind_def stay intro: ticket_request_mutation)
  then show ?thesis by (simp add: authority_write_def TicketWrite)
next
  case (RequestWrite r)
  have "triple Stormy I (request_write (sv_accept V) A (sv_git V) (sv_process V) (recover_server V) r) Q I"
    by (rule triple_request_write [OF _ look I Q(1)], rule admit) (simp_all add: RequestWrite call_made_def Q(2))
  then show ?thesis by (simp add: authority_write_def RequestWrite)
qed

lemma triple_answered:
  "triple Stormy (server_inv V m d) (authority_write V A c)
    (\<lambda>x w. server_inv V m d w \<and> (\<exists>call. call_made V A c = Inr call \<and> answer_kept A call x w)) (server_inv V m d)"
proof -
  let ?I = "server_inv V m d"
  let ?Q = "\<lambda>x w. ?I w \<and> (\<exists>call. call_made V A c = Inr call \<and> answer_kept A call x w)"
  have r: "triple Stormy ?I (recover_server V) (\<lambda>_. ?I) ?I" unfolding triple_keeps by (rule keeps_recover_server)
  have r': "triple Stormy (\<lambda>w. ?I w \<and> \<not> quiet (sv_accept V) w) (recover_server V) (\<lambda>_. ?I) ?I"
    by (rule triple_conseq [OF r]) simp_all
  have Q: "lasting (?Q x)" for x
    using lasting_inv lasting_answer_kept unfolding lasting_def by metis
  show ?thesis
  proof (rule triple_authority_write [OF _ _ lasting_inv Q])
    fix call b and before :: "write_facts \<Rightarrow> unit act" and mutation :: "write_facts \<Rightarrow> nat \<Rightarrow> int \<Rightarrow> reply tx"
    assume c: "call_made V A c = Inr call" and s: "\<And>facts. stays (before facts)" and t: "authority_mutation (sv_accept V) A mutation"
    show "triple Stormy ?I (write_admission (sv_accept V) (recover_server V)
        (repeatable_write (sv_accept V) A (sv_process V) call before mutation) b) ?Q ?I"
    proof (rule triple_write_admission [OF lasting_inv _ Q _ r'])
      show "triple Stormy ?I (repeatable_write (sv_accept V) A (sv_process V) call before mutation facts) ?Q ?I" for facts
        by (rule triple_weaken [OF triple_repeatable_write [OF mutation_sound [OF t] s]]) (use c in blast)
    qed simp
  next
    show "triple Stormy ?I (write_admission (sv_accept V) (recover_server V) (\<lambda>_. give ()) True) (\<lambda>_. ?I) ?I"
      by (rule triple_admission [OF lasting_inv _ r]) (rule triple_give)
  qed simp
qed

lemma keeps_authority_write: "conserves (server_inv V m d) (authority_write V A c)"
  unfolding triple_keeps [symmetric] by (rule triple_weaken [OF triple_answered]) simp

lemma inv_fresh: "accept_inv E m d (fresh fs w) = accept_inv E m d w"
  by (simp add: accept_inv_def fresh_def)

lemma serve_keeps:
  assumes i: "server_inv V m d w"
  shows "server_inv V m d (serve V w e)"
proof -
  have f: "server_inv V m d (fresh fs w)" for fs using i by (simp add: inv_fresh)
  have "conserves (server_inv V m d) (accept (sv_accept V) (sv_git V) (sv_process V) r)" for r
    using triple_accept unfolding triple_keeps .
  note kept = conservesD [OF this f] conservesD [OF keeps_authority_write f] conservesD [OF keeps_recover_server f]
  have "main_agrees (wo_db w) (wo_refs w)" using i by (simp add: accept_inv_def)
  then have step: "server_inv V m d (w\<lparr>wo_db := accept_step (sv_accept V) (wo_db w) c\<rparr>)"
    if "\<exists>k l s. c = Collaborate k \<or> c = ChangePlacement l \<or> c = ChangeService s" for c
    using inv_accept_step [OF i] agrees_step that by blast
  show ?thesis
    using kept step i by (cases e) (auto simp: accept_inv_def agrees_push simp del: accept_step.simps)
qed

lemma started_inv: "server_inv V main (new_project main l) (started main l)"
  using acceptance.inv_run [of "sv_accept V" main l "[]"]
  by (simp add: accept_inv_def started_def main_agrees_def) (simp add: new_project_def open_accepts_def)

interpretation server: machine "started main l" "serve V" "server_inv V main (new_project main l)" for V main l
  by unfold_locales (rule started_inv, rule serve_keeps)

lemma run_serve_keeps: "server_inv V m d w \<Longrightarrow> server_inv V m d (run (serve V) w es)"
  by (induction es arbitrary: w) (simp_all add: serve_keeps del: serve.simps)

text \<open>Growth can be counted from any state on.\<close>

lemma inv_from_here: "server_inv V m d w \<Longrightarrow> server_inv V m (wo_db w) w"
  by (simp add: accept_inv_def)

section \<open>The main branch\<close>

text \<open>C1. The repository and the database never drift apart: whatever acceptances, edits of tickets and
  change requests and recoveries a Project has seen, whichever calls to Git and to the database failed
  before or after they took effect and wherever the process stopped, and whatever else happened in
  between, the commits that the completed acceptances recorded form a chain from the first commit to
  the one the Project expects, and the main branch in the repository is at that commit, or else at the
  recorded result of the one acceptance that is open and that started from that commit.\<close>

theorem main_branch_agrees:
  fixes V :: server_env and main :: string and l :: placement and es :: "server_event list"
  defines "w \<equiv> run (serve V) (started main l) es"
  shows "\<exists>pj. ad_project (wo_db w) = Some pj \<and> main_chain main (completed_accepts (wo_db w)) (pj_main pj)
    \<and> (map_of (wo_refs w) main_ref = Some (pj_main pj)
       \<or> (\<exists>j r. open_accepts (wo_db w) = [j] \<and> ap_main (aj_plan j) = pj_main pj \<and> aj_result j = Some r
            \<and> map_of (wo_refs w) main_ref = Some r))"
proof -
  have i: "server_inv V main (new_project main l) w" unfolding w_def by (rule server.inv_run)
  then have l: "length (open_accepts (wo_db w)) \<le> 1" and t: "accept_tables_ok (sv_accept V) main (wo_db w)"
    using ok_shape by (auto simp: accept_inv_def journals_shape_def)
  obtain pj where pj: "ad_project (wo_db w) = Some pj" "main_chain main (completed_accepts (wo_db w)) (pj_main pj)"
    using t by (auto simp: accept_tables_ok_def split: option.splits)
  show ?thesis
  proof (cases "open_accepts (wo_db w)")
    case Nil
    then show ?thesis using i pj by (simp add: accept_inv_def main_agrees_def)
  next
    case (Cons j js)
    then show ?thesis using i pj l by (auto simp: accept_inv_def main_agrees_def)
  qed
qed


section \<open>The caller stays the same\<close>

text \<open>No operation changes the membership of its caller.\<close>

definition spares :: "'a act \<Rightarrow> bool" where
  "spares m \<longleftrightarrow> (\<forall>w. wo_membership (snd (m w)) = wo_membership w)"

named_theorems spare \<open>actions that leave the membership alone\<close>

lemma sparesI: "(\<And>w r w'. m w = (r, w') \<Longrightarrow> wo_membership w' = wo_membership w) \<Longrightarrow> spares m"
  unfolding spares_def by (metis prod.collapse)

lemma sparesD: "spares m \<Longrightarrow> m w = (r, w') \<Longrightarrow> wo_membership w' = wo_membership w"
  unfolding spares_def by (metis snd_conv)

lemma spares_stays: "stays m \<Longrightarrow> spares m"
  by (rule sparesI) (drule (1) staysD, simp add: core_def)

lemma spares_basic [spare]: "spares (give x)" "spares (throw e)" "spares (check b e)" "spares (query q)"
  by (rule spares_stays, intro stay)+

lemma spares_andthen [spare]:
  assumes "spares m" "\<And>x. spares (f x)"
  shows "spares (andthen m f)"
proof (rule sparesI)
  fix w r w'' assume a: "andthen m f w = (r, w'')"
  obtain r1 w' where m: "m w = (r1, w')" by (cases "m w")
  show "wo_membership w'' = wo_membership w"
    using a m sparesD [OF assms(1) m] sparesD [OF assms(2)] by (cases r1) (auto simp: andthen_def)
qed

lemma spares_catch [spare]:
  assumes "spares m" "\<And>e. spares (h e)"
  shows "spares (catch m h)"
proof (rule sparesI)
  fix w r w'' assume a: "catch m h w = (r, w'')"
  obtain r1 w' where m: "m w = (r1, w')" by (cases "m w")
  show "wo_membership w'' = wo_membership w"
    using a m sparesD [OF assms(1) m] sparesD [OF assms(2)] by (cases r1) (auto simp: catch_def split: if_splits)
qed

lemma spares_and_always [spare]:
  fixes m :: "'a act"
  assumes "spares m" "spares d"
  shows "spares (and_always m d)"
proof (rule sparesI)
  fix w r w'' assume a: "and_always m d w = (r, w'')"
  obtain r1 w' where m: "m w = (r1, w')" by (cases "m w")
  have *: "spares (andthen d (\<lambda>_. throw e :: 'a act))" "spares (andthen d (\<lambda>_. give x))" for e and x :: 'a
    by (intro spare assms)+
  show "wo_membership w'' = wo_membership w"
    using a m sparesD [OF assms(1) m] sparesD [OF *(1)] sparesD [OF *(2)]
    by (cases r1) (auto simp: and_always_def split: if_splits)
qed

lemma spares_effect [spare]:
  assumes "spares m"
  shows "spares (effect f m)"
proof (rule sparesI)
  fix w r w' assume a: "effect f m w = (r, w')"
  show "wo_membership w' = wo_membership w"
  proof (cases "wo_faults w")
    case Nil
    then show ?thesis using a sparesD [OF assms] by (simp add: effect_def)
  next
    case (Cons x xs)
    obtain r1 w1 where "m (w\<lparr>wo_faults := xs\<rparr>) = (r1, w1)" by (cases "m (w\<lparr>wo_faults := xs\<rparr>)")
    then show ?thesis using a Cons sparesD [OF assms] by (cases x) (auto simp: effect_def)
  qed
qed

lemma spares_transaction [spare]: "spares (transaction t)" "spares (transact E facts operation u)"
  unfolding transact_def transaction_def
  by (intro spare, rule sparesI, auto split: sum.splits prod.splits)+

lemma spares_split [spare]: "spares m \<Longrightarrow> spares n \<Longrightarrow> spares (if b then m else n)"
  "spares m \<Longrightarrow> (\<And>y. spares (f y)) \<Longrightarrow> spares (case x of None \<Rightarrow> m | Some y \<Rightarrow> f y)"
  by (simp_all split: option.split)

lemma spares_repository [spare]:
  "spares (require_git b e)" "spares (read_refs E)" "spares (revalidate_placement E G p)"
  "spares (materialize_accept_result E G q x)" "spares (read_object_format G)" "spares (result_in_repository G q r f)"
  "spares (reserve_accept G)" "spares close_reservation" "spares (resolve_existing E G p)"
  "spares (operation_time P b)" "spares (read_record E operation)" "spares (required_result j)" "spares tick"
  by (rule spares_stays, (intro stay)?, (simp add: resolve_existing_def, intro stay)?)+

lemma spares_update_ref [spare]: "spares (update_ref name new old)"
  unfolding update_ref_def git_call_def by (intro spare, rule sparesI) (auto split: if_splits)

lemma spares_settle [spare]: "spares (settle_accept_main E G p r)"
  unfolding settle_accept_main_def run_accept_operation_def repository_errors_def advance_main_def
  by (intro spare) (auto intro: spare split: failure.split)

lemma spares_recover_accept: "spares (recover_accept E G P)"
  unfolding recover_accept_def with_reservation_def under_lease_def known_errors_def recover_record_def recovering_def
    recover_prepared_def recover_persisted_def recover_updated_def classify_def persist_def
  by (intro spare) (auto intro: spare split: failure.split)

lemma lasting_member: "lasting (\<lambda>w. wo_membership w = M)"
  by (simp add: lasting_def core_def)

lemma spares_keeps: "spares m \<Longrightarrow> conserves (\<lambda>w. wo_membership w = M) m"
  by (simp add: conserves_def spares_def)

lemma keeps_member_recover: "conserves (\<lambda>w. wo_membership w = M) (recover_server V)"
  by (rule recover_server_keeps) (rule spares_keeps, rule sparesI, auto simp: other_act_def Let_def,
    rule spares_keeps, rule spares_recover_accept)

lemma authority_write_caller: "caller (snd (authority_write V A c w)) = caller w"
proof -
  let ?M = "\<lambda>v. wo_membership v = wo_membership w"
  have k: "triple Stormy ?M m (\<lambda>_. ?M) ?M" if "spares m" for m :: "'x act"
    unfolding triple_keeps by (rule spares_keeps [OF that])
  have a: "triple Stormy ?M (write_admission (sv_accept V) (recover_server V) operation b) (\<lambda>_. ?M) ?M"
    if "\<And>facts. spares (operation facts)" for operation :: "write_facts \<Rightarrow> 'y act" and b
    by (rule triple_admission [OF lasting_member k [OF that]]) (simp add: triple_keeps keeps_member_recover)
  have "triple Stormy ?M (authority_write V A c) (\<lambda>_. ?M) ?M"
    by (rule triple_authority_write [OF _ _ lasting_member lasting_member])
      (simp_all add: a repeatable_write_def spare spares_stays)
  then have "?M (snd (authority_write V A c w))" unfolding triple_keeps by (rule conservesD) simp
  then show ?thesis by (simp add: caller_def)
qed


section \<open>A repeated call\<close>

lemma call_made_again: "call_made V (A\<lparr>au_id := ids, au_roster := roster\<rparr>) c = call_made V A c"
  by (auto simp: call_made_def ticket_request_def request_made_def described_def parsed_references_def rbind_def
      split: authority_call.split ticket_call.split request_call.split sum.split references.split)

lemma kept_grows: "kept A c m x db \<Longrightarrow> accept_grows db db' \<Longrightarrow> kept A c m x db'"
  unfolding kept_def accept_grows_def grows_def by blast

lemma kept_unique:
  assumes x: "kept A c m x db" "reply_codec A x" and y: "kept A c m y db" "reply_codec A y"
    and ok: "results_ok (ad_collab db)"
  shows "y = x"
proof -
  obtain r where r: "r \<in> set (cb_idempotency (ad_collab db))" "same_key (call_identity A c m) (ir_identity r)"
    "au_decode A (wc_operation c) (ir_response r) = Some x" using x unfolding kept_def by blast
  obtain s where s: "s \<in> set (cb_idempotency (ad_collab db))" "same_key (call_identity A c m) (ir_identity s)"
    "au_decode A (wc_operation c) (ir_response s) = Some y" using y unfolding kept_def by blast
  have "result_key r = result_key s" using r(2) s(2) by (simp add: same_key_result)
  then have "r = s" using ok r(1) s(1) by (auto simp: results_ok_def distinct_map inj_on_def)
  then show ?thesis using r(3) s(3) by simp
qed

lemma kept_replays:
  assumes "kept A c m x db" "reply_codec A x" "results_ok (ad_collab db)"
  obtains r where "au_decode A (wc_operation c) r = Some x"
    "\<And>l. find_result C (call_identity A c m) (ad_collab db) = Inr l \<Longrightarrow> l = Replay r"
proof -
  obtain r where r: "r \<in> set (cb_idempotency (ad_collab db))" "same_key (call_identity A c m) (ir_identity r)"
    "ii_fingerprint (ir_identity r) = ii_fingerprint (call_identity A c m)"
    "au_decode A (wc_operation c) (ir_response r) = Some x" using assms(1,2) unfolding kept_def by blast
  have "l = Replay (ir_response r)" if "find_result C (call_identity A c m) (ad_collab db) = Inr l" for l
  proof -
    have "validate_identity C (call_identity A c m) = Inr ()" using that by (auto simp: find_result_def rbind_Inr)
    then show ?thesis using that result_again [OF assms(3) r(1,2,3), of C] by simp
  qed
  then show thesis using that r(4) by blast
qed

lemma inv_results: "server_inv V m d w \<Longrightarrow> results_ok (ad_collab (wo_db w))"
  by (simp add: accept_inv_def accept_ok_def accept_tables_ok_def collab_ok_def)

lemma authority_write_again:
  assumes i: "server_inv V main d w" and q: "quiet (sv_accept V) w" and c: "caller w = Some m"
    and call: "call_made V A c = Inr call" and k: "kept A call m x (wo_db w)" "reply_codec A x"
  shows "wo_db (snd (authority_write V A c w)) = wo_db w"
proof -
  let ?E = "sv_accept V"
  let ?J = "\<lambda>v. wo_db v = wo_db w \<and> quiet ?E v \<and> caller v = Some m"
  obtain r where r: "au_decode A (wc_operation call) r = Some x"
    "\<And>l. find_result (ae_collab ?E) (call_identity A call m) (ad_collab (wo_db w)) = Inr l \<Longrightarrow> l = Replay r"
    using kept_replays [OF k inv_results [OF i]] by blast
  have "wo_db v = wo_db v' \<and> quiet ?E v = quiet ?E v' \<and> caller v = caller v'" if "core v = core v'" for v v'
    using that quiet_core [OF that, of ?E] by (simp add: core_def caller_def)
  note same = this
  have J: "lasting ?J"
    unfolding lasting_def by (intro allI impI) (drule same, simp)
  have busy: "triple Stormy (\<lambda>v. ?J v \<and> \<not> quiet ?E v) (recover_server V) (\<lambda>_. ?J) ?J"
    by (rule tripleI) blast
  have "triple Stormy ?J (authority_write V A c) (\<lambda>_. ?J) ?J"
  proof (rule triple_authority_write [OF _ _ J J])
    fix call' b and before :: "write_facts \<Rightarrow> unit act" and mutation :: "write_facts \<Rightarrow> nat \<Rightarrow> int \<Rightarrow> reply tx"
    assume "call_made V A c = Inr call'"
    then have c': "call' = call" using call by simp
    have "triple Stormy ?J (repeatable_write ?E A (sv_process V) call before mutation facts) (\<lambda>_. ?J) ?J" for facts
      by (rule triple_repeat [OF J _ r(1)]) (use r(2) in auto)
    then show "triple Stormy ?J (write_admission ?E (recover_server V)
        (repeatable_write ?E A (sv_process V) call' before mutation) b) (\<lambda>_. ?J) ?J"
      unfolding c' by (rule triple_write_admission [OF J _ J _ busy]) simp
  next
    show "triple Stormy ?J (write_admission ?E (recover_server V) (\<lambda>_. give ()) True) (\<lambda>_. ?J) ?J"
      by (rule triple_write_admission [OF J _ J _ busy]) (rule triple_give, simp, simp)
  qed simp
  then have "?J (snd (authority_write V A c w))" unfolding triple_keeps by (rule conservesD) (use q c in simp)
  then show ?thesis by simp
qed

text \<open>C2. A write that a client repeats is done once. Suppose a call of a ticket or request operation was
  answered in some reachable state. Whatever happens after it - other calls, acceptances, recoveries, failures
  and stops of the process - when the same member makes the same call with the same key again and is answered,
  the answer is the same; and unless something had to be recovered first, the repeated call leaves the
  database as it is, whatever fails on the way. The clock, the fresh identifiers and the roster of the
  Project may have changed; the codec of the protocol is supposed to decode the two answers.\<close>

theorem calls_done_once:
  fixes V :: server_env and A :: authority_env
  assumes B: "B = A\<lparr>au_id := ids, au_roster := roster\<rparr>"
    and first: "authority_write V A c (fresh fs (run (serve V) (started main l) es)) = (Inr x, w1)"
    and again: "authority_write V B c (fresh gs (run (serve V) w1 es')) = (Inr y, w3)"
    and caller: "caller (run (serve V) w1 es') = caller w1"
    and codec: "reply_codec A x" "reply_codec A y"
  shows "y = x \<and> (quiet (sv_accept V) (run (serve V) w1 es') \<longrightarrow> wo_db w3 = wo_db (run (serve V) w1 es'))"
proof -
  let ?w = "run (serve V) (started main l) es" and ?w2 = "run (serve V) w1 es'"
  have codecB: "reply_codec B z = reply_codec A z" and idB: "call_identity B k m = call_identity A k m"
    and keptB: "kept B k m z db = kept A k m z db" for z k m db
    by (simp_all add: B reply_codec_def call_identity_def kept_def)
  have "server_inv V main (new_project main l) (fresh fs ?w)" using server.inv_run by (simp add: inv_fresh)
  then have "server_inv V main (new_project main l) w1 \<and> (\<exists>call. call_made V A c = Inr call \<and> answer_kept A call x w1)"
    by (intro triple_result(2) [OF triple_answered first]) simp_all
  then obtain call where 1: "server_inv V main (new_project main l) w1" "call_made V A c = Inr call" "answer_kept A call x w1"
    by blast
  then have i2: "server_inv V main (wo_db w1) ?w2" using run_serve_keeps inv_from_here by blast
  then have i2': "server_inv V main (wo_db w1) (fresh gs ?w2)" by (simp add: inv_fresh)
  then have "server_inv V main (wo_db w1) w3 \<and> (\<exists>call. call_made V B c = Inr call \<and> answer_kept B call y w3)"
    by (intro triple_result(2) [OF triple_answered again]) simp_all
  then obtain call' where 3: "server_inv V main (wo_db w1) w3" "call_made V B c = Inr call'" "answer_kept B call' y w3"
    by blast
  have call': "call' = call" using 1(2) 3(2) call_made_again by (simp add: B)
  obtain m where m: "caller w1 = Some m" "kept A call m x (wo_db w1)" using 1(3) by (auto simp: answer_kept_def)
  have c2: "caller (fresh gs ?w2) = Some m" using caller m(1) by (simp add: caller_def fresh_def)
  have c3: "caller w3 = Some m" using authority_write_caller [of V B c "fresh gs ?w2"] again c2 by simp
  have k3: "kept A call m x (wo_db w3)" using kept_grows [OF m(2)] 3(1) by (simp add: accept_inv_def)
  have k2: "kept B call m x (wo_db (fresh gs ?w2))"
    using kept_grows [OF m(2)] i2 unfolding keptB by (simp add: accept_inv_def fresh_def)
  have "kept A call m y (wo_db w3)" using 3(3) c3 unfolding call' answer_kept_def keptB by simp
  then have "y = x" using kept_unique [OF k3 codec(1) _ codec(2) inv_results [OF 3(1)]] by simp
  moreover have "wo_db w3 = wo_db ?w2" if "quiet (sv_accept V) ?w2"
  proof -
    have "quiet (sv_accept V) (fresh gs ?w2)" using that quiet_core [of "fresh gs ?w2" ?w2 "sv_accept V"] by (simp add: fresh_def)
    from authority_write_again [OF i2' this c2 3(2) [unfolded call'] k2] codec(1)
    show ?thesis using again by (simp add: codecB fresh_def)
  qed
  ultimately show ?thesis by blast
qed

section \<open>Writes that nothing disturbs\<close>

lemma transact_clear:
  "wo_faults w = [] \<Longrightarrow> revalidate E facts operation w = Inr () \<Longrightarrow> t (wo_db w) = Inr (x, db) \<Longrightarrow>
    transact E facts operation t w = (Inr x, w\<lparr>wo_db := db\<rparr>)"
  by (simp add: transact_def transaction_def effect_clear rbind_def)

lemma admitted_clear:
  assumes "wo_faults w = []" "quiet E w" "authorize E w = Inr facts" "operation facts w = (Inr x, w')" "wo_faults w' = []"
  shows "write_admission E recover operation b w = (Inr x, w')"
proof -
  obtain r where r: "read_recovery_state E w = Inr r" "\<not> pending r" using assms(2) by (auto simp: quiet_def split: sum.splits)
  have "admission_round E operation b False w = (Inr (Some x), w')"
    using assms r by (simp add: admission_round_def under_lease_def andthen_def and_always_def effect_clear query_clear give_def)
  then show ?thesis by (simp add: write_admission_def track_def catch_def numeral_2_eq_2)
qed

lemma repeatable_clear:
  assumes "wo_faults w = []" "revalidate E facts None w = Inr ()" "earlier_reply E A c facts (wo_db w) = Inr (None, wo_db w)"
    and "write_once E A P c facts (mutation facts) (wo_ticks w) (wo_db w) = Inr (x, db)"
    and "\<And>n. revalidate E facts None (w\<lparr>wo_ticks := n\<rparr>) = Inr ()"
  shows "repeatable_write E A P c (\<lambda>_. give ()) mutation facts w = (Inr x, w\<lparr>wo_ticks := wo_ticks w + 1, wo_db := db\<rparr>)"
  using assms by (simp add: repeatable_write_def andthen_def transact_clear give_def tick_def)

lemma repeated_clear:
  assumes "wo_faults w = []" "revalidate E facts None w = Inr ()" "earlier_reply E A c facts (wo_db w) = Inr (Some x, wo_db w)"
  shows "repeatable_write E A P c before mutation facts w = (Inr x, w)"
  using assms by (simp add: repeatable_write_def andthen_def transact_clear give_def)

text \<open>A ticket is created, closed by another call, and the creation is asked for again.\<close>

definition demo_server :: "git_env \<Rightarrow> (world, failure) recovery_ports \<Rightarrow> server_env" where
  "demo_server G R = \<lparr>sv_accept = demo_accept_env, sv_git = G,
     sv_process = \<lparr>pe_digest = (\<lambda>_. []), pe_clock = (\<lambda>n. 5000 + int n), pe_operation = (\<lambda>_. ''o'')\<rparr>,
     sv_creation = None, sv_membership = None, sv_leave = None, sv_removal = None,
     sv_activation = (\<lambda>w. \<lparr>oe_result = Inr (), oe_bootstrap = wo_bootstrap w, oe_join = wo_join w, oe_lifecycle = wo_lifecycle w,
       oe_placement = ad_placement (wo_db w), oe_service = ServiceActive\<rparr>),
     sv_lifecycle = None, sv_ports = R\<rparr>"

definition demo_reply :: reply where
  "demo_reply = TicketCreated [65] \<lparr>tv_acceptedCount = 0, tv_author = ''m'', tv_commentCount = 0, tv_createdAt = 5000, tv_id = ''t'',
     tv_number = 1, tv_revision = 1, tv_status = TicketOpen, tv_title = [65], tv_updatedAt = 5000, tv_closed = None\<rparr>"

definition demo_authority :: authority_env where
  "demo_authority = \<lparr>au_fingerprint = (\<lambda>_. replicate 64 (CHR ''0'')), au_encode = (\<lambda>_. []), au_decode = (\<lambda>_ _. Some demo_reply),
     au_id = (\<lambda>_ _. ''t''), au_mentions = (\<lambda>_ _. []), au_references = (\<lambda>_. ValidReferences []), au_roster = [],
     au_nfc = id, au_snapshotBytes = (\<lambda>_. 0), au_maxSnapshotBytes = 9, au_maxOpenRequests = 9\<rparr>"

definition demo_create :: authority_call where
  "demo_create = TicketWrite (CreateTicketCall [65] [65] ''k'')"

definition demo_before :: "server_event list" where
  "demo_before = [ChangeMembership (Some \<lparr>me_member = ''m'', me_revision = 1, me_manager = True\<rparr>), CollaborationEdit (AddMember ''m'')]"

definition demo_start :: "git_env \<Rightarrow> (world, failure) recovery_ports \<Rightarrow> world" where
  "demo_start G R = run (serve (demo_server G R)) (started (demo_oid (CHR ''a'')) demo_placement) demo_before"

definition demo_start_db :: accept_db where
  "demo_start_db = accept_step demo_accept_env (new_project (demo_oid (CHR ''a'')) demo_placement) (Collaborate (AddMember ''m''))"

lemma demo_start: "demo_start G R = (started (demo_oid (CHR ''a'')) demo_placement)
    \<lparr>wo_membership := Some \<lparr>me_member = ''m'', me_revision = 1, me_manager = True\<rparr>, wo_db := demo_start_db\<rparr>"
  by (simp add: demo_start_def demo_before_def demo_start_db_def demo_server_def started_def del: accept_step.simps)

definition demo_facts :: write_facts where
  "demo_facts = \<lparr>wf_main = demo_oid (CHR ''a''), wf_member = ''m'', wf_revision = 1, wf_placement = demo_placement, wf_manager = True\<rparr>"

definition demo_call :: write_call where
  "demo_call = ticket_write_call ''createTicket'' ''k'' (TicketFields [65] [65]) ''ticket-create-replay-invalid''"

definition demo_written :: "failure + reply \<times> accept_db" where
  "demo_written = write_once demo_accept_env demo_authority \<lparr>pe_digest = (\<lambda>_. []), pe_clock = (\<lambda>n. 5000 + int n), pe_operation = (\<lambda>_. ''o'')\<rparr>
     demo_call demo_facts (create_ticket_tx demo_accept_env demo_authority [65] [65] demo_facts) 0 demo_start_db"

lemma demo_written: "(case demo_written of Inl e \<Rightarrow> None | Inr (x, db) \<Rightarrow> Some x) = Some demo_reply"
  by code_simp

lemma demo_earlier: "earlier_reply demo_accept_env demo_authority demo_call demo_facts demo_start_db = Inr (None, demo_start_db)"
  by code_simp

definition demo_created_db :: accept_db where
  "demo_created_db = (case demo_written of Inl e \<Rightarrow> demo_start_db | Inr (x, db) \<Rightarrow> db)"

definition demo_closing :: server_event where
  "demo_closing = CollaborationEdit (ChangeStatus \<lparr>ts_actor = ''m'', ts_expectedRevision = 1, ts_status = TicketClosed,
     ts_ticket = ''t'', ts_updatedAt = Stamp 6000\<rparr>)"

definition demo_later_db :: accept_db where
  "demo_later_db = accept_step demo_accept_env demo_created_db (Collaborate (ChangeStatus \<lparr>ts_actor = ''m'', ts_expectedRevision = 1,
     ts_status = TicketClosed, ts_ticket = ''t'', ts_updatedAt = Stamp 6000\<rparr>))"

lemma demo_later:
  "map tk_status (cb_tickets (ad_collab demo_later_db)) = [TicketClosed]"
  "earlier_reply demo_accept_env demo_authority demo_call demo_facts demo_later_db = Inr (Some demo_reply, demo_later_db)"
  "get_open_accept demo_accept_env demo_later_db = Inr None" "get_open_accept demo_accept_env demo_start_db = Inr None"
  "ad_project demo_later_db = ad_project demo_start_db" "ad_placement demo_later_db = ad_placement demo_start_db"
  by code_simp+

lemma demo_start_project:
  "ad_project demo_start_db = Some \<lparr>pj_main = demo_oid (CHR ''a''), pj_service = ServiceActive\<rparr>" "ad_placement demo_start_db = Some demo_placement"
  by code_simp+

definition demo_world_of :: "accept_db \<Rightarrow> nat \<Rightarrow> world" where
  "demo_world_of db n = (started (demo_oid (CHR ''a'')) demo_placement)
    \<lparr>wo_membership := Some \<lparr>me_member = ''m'', me_revision = 1, me_manager = True\<rparr>, wo_db := db, wo_ticks := n\<rparr>"

lemma demo_admission:
  assumes "ad_project db = ad_project demo_start_db" "ad_placement db = ad_placement demo_start_db" "get_open_accept demo_accept_env db = Inr None"
  shows "authorize demo_accept_env (demo_world_of db n) = Inr demo_facts" "quiet demo_accept_env (demo_world_of db n)"
    "revalidate demo_accept_env demo_facts None (demo_world_of db n) = Inr ()"
proof -
  have w: "wo_membership (demo_world_of db n) = Some \<lparr>me_member = ''m'', me_revision = 1, me_manager = True\<rparr>"
    "wo_db (demo_world_of db n) = db" "wo_bootstrap (demo_world_of db n) = None" "\<not> wo_join (demo_world_of db n)"
    "wo_lifecycle (demo_world_of db n) = None" by (simp_all add: demo_world_of_def started_def)
  have p: "pl_project demo_placement = ae_project demo_accept_env" by (simp add: demo_placement_def demo_accept_env_def)
  show a: "authorize demo_accept_env (demo_world_of db n) = Inr demo_facts"
    using assms demo_start_project p by (simp add: authorize_def authorize_member_def w rbind_def demo_facts_def)
  show "quiet demo_accept_env (demo_world_of db n)"
    using assms(3) by (simp add: quiet_def read_recovery_state_def authorize_member_def w rbind_def coordination_def pending_def)
  show "revalidate demo_accept_env demo_facts None (demo_world_of db n) = Inr ()"
    using assms(3) by (simp add: revalidate_def a w rbind_def coordination_def ensure_def same_placement_def)
qed

lemma demo_texts:
  "normalize_title (ce_titleUtf16 (ae_collab demo_accept_env)) [65] = Inr [65]"
  "normalize_markdown (ce_bodyBytes (ae_collab demo_accept_env)) ''ticket-body'' [65] = Inr [65]"
  by (simp_all add: normalize_title_def normalize_markdown_def without_blank_edges_def blank_def js_trim_def trim_end_def js_space_def
      demo_accept_env_def)

definition demo_process :: process_env where
  "demo_process = \<lparr>pe_digest = (\<lambda>_. []), pe_clock = (\<lambda>n. 5000 + int n), pe_operation = (\<lambda>_. ''o'')\<rparr>"

lemma demo_write:
  assumes "write_admission demo_accept_env (recover_server (demo_server G R)) (repeatable_write demo_accept_env
      (demo_authority\<lparr>au_id := ids\<rparr>) demo_process demo_call (\<lambda>_. give ())
      (create_ticket_tx demo_accept_env (demo_authority\<lparr>au_id := ids\<rparr>) [65] [65])) True w = (Inr x, w')"
  shows "authority_write (demo_server G R) (demo_authority\<lparr>au_id := ids\<rparr>) demo_create w = (Inr x, w')"
proof -
  have "ticket_request demo_accept_env (demo_authority\<lparr>au_id := ids\<rparr>) (CreateTicketCall [65] [65] ''k'')
    = Inr (demo_call, create_ticket_tx demo_accept_env (demo_authority\<lparr>au_id := ids\<rparr>) [65] [65])"
    unfolding ticket_request_def ticket_call.case demo_texts rbind_def sum.case demo_call_def ..
  note asked = this
  have parts: "sv_accept (demo_server G R) = demo_accept_env" "sv_process (demo_server G R) = demo_process"
    by (simp_all add: demo_server_def demo_process_def)
  show ?thesis
    unfolding authority_write_def demo_create_def authority_call.case parts ticket_write_def map_ticket_error_def run_write_def asked
      catch_def andthen_def lift_def prod.case sum.case assms ..
qed

theorem calls_done_once_witness:
  "\<forall>G R. \<exists>w1 w3. authority_write (demo_server G R) demo_authority demo_create (fresh [] (demo_start G R)) = (Inr demo_reply, w1)
     \<and> authority_write (demo_server G R) (demo_authority\<lparr>au_id := (\<lambda>_ _. ''u'')\<rparr>) demo_create
         (fresh [] (run (serve (demo_server G R)) w1 [demo_closing])) = (Inr demo_reply, w3)
     \<and> wo_db w3 = wo_db (run (serve (demo_server G R)) w1 [demo_closing])
     \<and> map tk_status (cb_tickets (ad_collab (wo_db w3))) = [TicketClosed]"
proof (intro allI)
  fix G :: git_env and R :: "(world, failure) recovery_ports"
  let ?V = "demo_server G R" and ?w1 = "demo_world_of demo_created_db 1" and ?A = "demo_authority\<lparr>au_id := (\<lambda>_ _. ''u'')\<rparr>"
  have "(case p of Inl e \<Rightarrow> None | Inr (x, db) \<Rightarrow> Some x) = Some demo_reply \<Longrightarrow>
      p = Inr (demo_reply, case p of Inl e \<Rightarrow> demo_start_db | Inr (x, db) \<Rightarrow> db)" for p :: "failure + reply \<times> accept_db"
    by (auto split: sum.splits)
  from this [OF demo_written] have "demo_written = Inr (demo_reply, demo_created_db)" unfolding demo_created_db_def .
  then have db: "write_once demo_accept_env demo_authority demo_process demo_call demo_facts
      (create_ticket_tx demo_accept_env demo_authority [65] [65] demo_facts) 0 demo_start_db = Inr (demo_reply, demo_created_db)"
    by (simp add: demo_written_def demo_process_def)
  have w0: "fresh [] (demo_start G R) = demo_world_of demo_start_db 0"
    by (simp add: demo_start fresh_def demo_world_of_def started_def)
  have same: "demo_authority\<lparr>au_id := au_id demo_authority\<rparr> = demo_authority" by simp
  have parts: "wo_faults (demo_world_of d n) = []" "wo_db (demo_world_of d n) = d" "wo_ticks (demo_world_of d n) = n"
    "demo_world_of d n\<lparr>wo_ticks := k\<rparr> = demo_world_of d k" "demo_world_of d n\<lparr>wo_db := e\<rparr> = demo_world_of e n" for d e n k
    by (simp_all add: demo_world_of_def started_def)
  have first: "authority_write ?V demo_authority demo_create (fresh [] (demo_start G R)) = (Inr demo_reply, ?w1)"
    unfolding w0
  proof (rule demo_write [where ids = "au_id demo_authority", unfolded same], rule admitted_clear)
    have "repeatable_write demo_accept_env demo_authority demo_process demo_call (\<lambda>_. give ())
        (create_ticket_tx demo_accept_env demo_authority [65] [65]) demo_facts (demo_world_of demo_start_db 0)
      = (Inr demo_reply, demo_world_of demo_start_db 0\<lparr>wo_ticks := wo_ticks (demo_world_of demo_start_db 0) + 1, wo_db := demo_created_db\<rparr>)"
      by (rule repeatable_clear) (use db demo_later(4) in \<open>simp_all add: parts demo_admission demo_earlier\<close>)
    then show "repeatable_write demo_accept_env demo_authority demo_process demo_call (\<lambda>_. give ())
        (create_ticket_tx demo_accept_env demo_authority [65] [65]) demo_facts (demo_world_of demo_start_db 0) = (Inr demo_reply, ?w1)"
      by (simp add: parts)
  qed (use demo_later(4) in \<open>simp_all add: parts demo_admission\<close>)
  have w2: "fresh [] (run (serve ?V) ?w1 [demo_closing]) = demo_world_of demo_later_db 1"
    by (simp add: demo_closing_def demo_server_def demo_later_db_def fresh_def demo_world_of_def started_def del: accept_step.simps)
  have "earlier_reply demo_accept_env ?A demo_call demo_facts demo_later_db = Inr (Some demo_reply, demo_later_db)"
  proof -
    have "decoded_reply ?A = decoded_reply demo_authority" "call_identity ?A = call_identity demo_authority"
      by (simp_all add: fun_eq_iff decoded_reply_def call_identity_def)
    then show ?thesis using demo_later(2) by (simp only: earlier_reply_def)
  qed
  then have again: "authority_write ?V ?A demo_create (fresh [] (run (serve ?V) ?w1 [demo_closing])) = (Inr demo_reply, demo_world_of demo_later_db 1)"
    unfolding w2
    by (intro demo_write admitted_clear repeated_clear) (use demo_later in \<open>simp_all add: parts demo_admission\<close>)
  have "quiet (sv_accept ?V) (run (serve ?V) ?w1 [demo_closing])"
    using demo_admission(2) [of demo_later_db 1] demo_later quiet_core [of "run (serve ?V) ?w1 [demo_closing]" "demo_world_of demo_later_db 1" demo_accept_env]
    unfolding w2 [symmetric] by (simp add: fresh_def demo_server_def)
  moreover have "caller (run (serve ?V) ?w1 [demo_closing]) = caller ?w1"
    by (simp add: caller_def demo_closing_def del: accept_step.simps)
  moreover have "reply_codec demo_authority demo_reply" by (simp add: reply_codec_def demo_authority_def)
  moreover have "?A = demo_authority\<lparr>au_id := (\<lambda>_ _. ''u''), au_roster := au_roster demo_authority\<rparr>" by simp
  ultimately have "wo_db (demo_world_of demo_later_db 1) = wo_db (run (serve ?V) ?w1 [demo_closing])"
    using calls_done_once [OF _ first [unfolded demo_start_def] again] by blast
  then show "\<exists>w1 w3. authority_write ?V demo_authority demo_create (fresh [] (demo_start G R)) = (Inr demo_reply, w1)
     \<and> authority_write ?V ?A demo_create (fresh [] (run (serve ?V) w1 [demo_closing])) = (Inr demo_reply, w3)
     \<and> wo_db w3 = wo_db (run (serve ?V) w1 [demo_closing]) \<and> map tk_status (cb_tickets (ad_collab (wo_db w3))) = [TicketClosed]"
    using first again demo_later(1) by (intro exI [of _ ?w1] exI [of _ "demo_world_of demo_later_db 1"] conjI) (simp_all only: parts)
qed

end
