(* ===== verification/Spec2Isabelle.thy ===== *)
theory Spec2Isabelle
  imports Prelude GitChildAdmission EventAdmission ReceiveAdmission UploadAdmission
    LifecycleJournal RecoveryDispatch DeletionStore Deletion Base64Url PrincipalBindings
    MembershipClaims ClaimEnvelopes ServerConfig RepositoryPublication Collaboration ProjectEvents AcceptJournal TreePolicy WriteAdmission AcceptRepository Triples AcceptCoordinator AcceptSafety AcceptOutcomes Texts Authority AuthorityPage TicketAuthority RequestAuthority ProjectRecovery ProjectServer
begin

text \<open>
  Verification of the Claudian collaboration server (\<open>src/src\<close>, TypeScript).

  \<^bold>\<open>The program.\<close> One process serves many Projects. A Project is a bare Git repository, the rows of a
  Postgres database (members, change requests, tickets, events, and the journals of long-running
  operations), and the membership of its authors. A client pushes to a personal branch, opens a change request
  for it, and a manager accepts it: the server computes the merge commit, moves the main branch and
  records the outcome. The repository and the database cannot be changed in one transaction, so
  every operation that touches both writes a journal first and is finished by a recovery after a
  crash; acceptances, publications of repositories, transfers, deletions and backups all follow this
  pattern. Admission controls bound the resources that clients can hold (Git processes, receives,
  uploads, event streams), and decide whether a Project takes writes at all.

  \<^bold>\<open>Foundations.\<close> Theory \<open>Prelude\<close>: errors as sums with \<open>rbind\<close>, \<open>ensure\<close> and \<open>require\<close> for the early
  returns of the code, safe integers, the counters kept in a \<open>Map\<close> (locale \<open>keyed_counter\<close>), association
  lists for tables, and locale \<open>machine\<close>: a start state, a step and an invariant, from which the
  invariant of every run follows once. Every stateful component is an interpretation of it.
  \<open>NodePath\<close> is the part of \<open>node:path\<close> that the server calls.

  \<^bold>\<open>Resource admission\<close> (\<open>src/src/resource-admission\<close>).
  \<^item> \<open>GitChildAdmission\<close>: \<open>ResourceAdmission.ts\<close>, the queue for Git child processes, with classes,
    limits per Project and in total, time-outs, cancellation and closing. An event is one call of a
    method or one callback of a timer or an abort signal. Shown: the limits, no lost wake-up, every call settles once,
    first come first served per Project and class, closing completes.
  \<^item> \<open>EventAdmission\<close>: \<open>ProjectEventAdmission.ts\<close>; \<open>ReceiveAdmission\<close>: \<open>GitReceiveAdmission.ts\<close>, whose
    asynchronous measurement of the free space is a step of its own; \<open>UploadAdmission\<close>:
    \<open>BootstrapUploadAdmission.ts\<close>. Shown: the limits hold in every interleaving, and where they do not
    (the count per Project of \<open>ReceiveAdmission\<close>).
  \<^item> \<open>ServerConfig\<close>: \<open>config/configDecoder.ts\<close> and \<open>config/ServerConfig.ts\<close>. Shown: whatever the
    environment says, a decoded configuration is accepted by the constructors of the admissions.

  \<^bold>\<open>Lifecycle\<close> (\<open>src/src/coordination/postgres/PostgresPortabilityLifecyclePersistence.ts\<close> unless named).
  \<^item> \<open>LifecycleJournal\<close>: \<open>put\<close>, \<open>advance\<close> and \<open>get\<close> of the journals and their recovery candidates.
  \<^item> \<open>RecoveryDispatch\<close>: \<open>ProjectLifecycleRecoveryDispatcher.ts\<close>, over locale \<open>recoverable\<close>.
  \<^item> \<open>DeletionStore\<close> and \<open>Deletion\<close>: tombstones, deletion intents and
    \<open>delete/DeletionCoordinator.ts\<close>; locale \<open>phase_store\<close> is what the coordinator relies on. The
    first theorem of this theory joins the deletion and the dispatcher.
  \<^item> \<open>Base64Url\<close>, \<open>PrincipalBindings\<close>, \<open>MembershipClaims\<close>, \<open>ClaimEnvelopes\<close>: the credentials of the
    members that a transfer carries over.
  \<^item> \<open>RepositoryPublication\<close>: \<open>repositories/RepositoryPublication.ts\<close>, over a file system of named
    entries in which every single call may be the last one. Shown: a refinement of the abstract
    publication (absent, staged, published), and that recovery completes.

  \<^bold>\<open>Collaboration.\<close>
  \<^item> \<open>Collaboration\<close>: \<open>PostgresCollaborationPersistence.ts\<close>, requests, tickets, comments, relations and
    the results of idempotent operations, one \<open>collab_db\<close> per Project.
  \<^item> \<open>ProjectEvents\<close>: the log of events in \<open>PostgresCoordination.ts\<close> and the stream of
    \<open>server/events/ProjectEventRoutes.ts\<close>. Shown: order, no gaps, no lost wake-up, replay.

  \<^bold>\<open>Acceptance of change requests.\<close>
  \<^item> \<open>AcceptJournal\<close>: \<open>PostgresAcceptPersistence.ts\<close> on top of \<open>Collaboration\<close> and \<open>ProjectEvents\<close>; its
    invariant describes the tables in every reachable state, operations of other components included.
  \<^item> \<open>TreePolicy\<close>: the check of the merged tree in \<open>GitRepositoryAuthority.ts\<close>, equivalent to a
    specification over the records of \<open>git ls-tree\<close>.
  \<^item> \<open>WriteAdmission\<close>: \<open>admission/ProjectWriteAdmission.ts\<close>, and the \<open>world\<close> in which a write runs: the
    database, the repository's references, Git permits, and the \<open>faults\<close> to come. An action
    consumes one fault for every call to the outside; a fault makes the call fail before or after its effect.
  \<^item> \<open>Triples\<close>: a Hoare logic for such actions with postconditions for success and failure.
  \<^item> \<open>AcceptRepository\<close>: the acceptance operations of \<open>GitRepositoryAuthority.ts\<close>;
    \<open>AcceptCoordinator\<close>: \<open>acceptance/ProjectAcceptCoordinator.ts\<close>; \<open>AcceptSafety\<close>: what an acceptance and its
    recovery keep of the agreement of main branch and database, whatever fails; \<open>AcceptOutcomes\<close>: when acceptances
    cannot complete.

  \<^bold>\<open>The authorities of tickets and change requests\<close> (\<open>src/src/project-authority\<close>).
  \<^item> \<open>Texts\<close>: how titles, bodies, descriptions and comments are normalized, and that this is done once for all.
  \<^item> \<open>Authority\<close>: what both authorities share: transactions over the tables (\<open>'a tx\<close>), the admission of reads
    (\<open>admission/ProjectCollaborationReadAdmission.ts\<close>), and \<open>repeatable_write\<close>, the writes whose answers are kept.
    \<open>tx_sound\<close> says that a transaction keeps the tables well-formed and loses nothing.
  \<^item> \<open>AuthorityPage\<close>: \<open>ProjectAuthorityPage.ts\<close>, cursors and pages bounded in bytes. Following
    the cursors of such pages reads every item once.
  \<^item> \<open>TicketAuthority\<close>: \<open>tickets/ProjectTicketAuthority.ts\<close>; \<open>RequestAuthority\<close>:
    \<open>requests/ProjectRequestAuthority.ts\<close> with its capacity check and its reads of the repository.

  \<^bold>\<open>The server.\<close>
  \<^item> \<open>ProjectRecovery\<close>: \<open>recovery/ProjectRecoveryCoordinator.ts\<close> and the catalog of candidates, over the ports of
    the owners. Shown: serving passes come round to every candidate.
  \<^item> \<open>ProjectServer\<close>: one Project under acceptances, writes of both authorities, recoveries, and edits of other
    components, each call with its own faults. Shown: the main branch and the database agree in every
    reachable state, and a repeated call is answered as the first time.

  \<^bold>\<open>Conventions.\<close> An operation of the persistence is one transaction: it returns the new tables or
  \<open>Inl\<close> an error and changes nothing. Times are milliseconds as \<open>int\<close>; numbers of JavaScript are \<open>int\<close> with
  \<open>safe_integer\<close> where the code checks it. The predicates and decoders of the protocol package
  (identifiers, member names, sizes of text, digests) are parameters, collected in environment records. A
  violated constraint of the database is \<open>DependencyFailed\<close>, as the adapter reports it.

  \<^bold>\<open>Bounds and fuel.\<close> \<open>admission_loop\<close> is called with two rounds: theorem \<open>admission_terminates\<close> shows
  that no third round exists. \<open>recover_project\<close> takes a number of iterations; the theorems state how
  many are enough (one for each open journal). The loops of the
  admissions and of the parsers recurse on their queues and inputs. \<open>run_catalog\<close> takes the number of pages
  that a pass may read; a catalog of \<open>n\<close> rows needs at most \<open>n + 1\<close>, as \<open>serving_passes_fair\<close> shows.
  Nothing else is bounded.


  \<^bold>\<open>Not modelled.\<close> Cancellation and closing of operations (they end an action between two calls, as a
  failed call does). Project creation and activation, membership, leaving and retiring: their journals
  or effects are parts of the model, their coordinators are not. Transfers between authorities, checkpoints,
  backups and environment restore: long protocols over cryptography, archives and streams of bytes. The
  supervision of Git processes, bundles and pack files: Git is reached through calls that may fail. HTTP
  transport, composition and logging, except for the wiring of recoveries. The HTML, CSS and SQL schema
  files are no TypeScript; the constraints of the schema that the operations rely on are written out in
  the tables' operations.
\<close>

section \<open>Deletion and recovery together\<close>

text \<open>C28. The deletion and the recovery dispatcher work together: after any number of failed runs
  of the deletion, recovering the Project while nothing fails returns without an error, in one
  iteration per journal; then no journal of the Project is open, the deletion's journal is
  completed, and the repository and the Project's content are gone.\<close>

theorem project_recovery_finishes_deletion:
  assumes ok: "deletion_db_ok (dv_ids V) db" and p: "put_intent (dv_ids V) i db = Inr (res, db')"
    and ids: "\<forall>r\<in>set rs. dv_ids (dr_env r) = dv_ids V"
    and s: "s = deletion_runs is_project (in_operation i) rs \<lparr>ds_db = db', ds_repository = b\<rparr>"
    and clean: "clean_run V" and project: "is_project p"
  shows "\<exists>s' j. recover_project is_project 1 (deletion_dispatch V) p s = Some (Inr (), s')
    \<and> get_nonterminal (dv_ids V) (dd_base (ds_db s')) = Inr None
    \<and> get_journal (dv_ids V) (in_operation i) (dd_base (ds_db s')) = Inr (Some j) \<and> j_state j = Completed
    \<and> \<not> ds_repository s' \<and> forbidden_empty (ds_db s')"
proof -
  obtain t where "deletion_underway (dv_ids V) (in_operation i) i t \<lparr>ds_db = db', ds_repository = b\<rparr>"
    using put_intent_underway [OF ok p] by blast
  from runs_underway [OF this ids] have "deletion_ready V i t s"
    unfolding s deletion_ready_def using clean by blast
  from deletion_recoverable.recover_project_settles [OF this, of is_project p 0] project
  obtain s' where s': "recover_project is_project 1 (deletion_dispatch V) p s = Some (Inr (), s')"
    "deletion_ready V i t s'" "de_open (deletion_dispatch V) p s' = Inr None"
    by auto
  then have un: "deletion_underway (dv_ids V) (in_operation i) i t s'" by (simp add: deletion_ready_def)
  obtain j where j: "select_journal (in_operation i) (dd_base (ds_db s')) = Some j"
    using underway_journal [OF un] .
  have none: "get_nonterminal (dv_ids V) (dd_base (ds_db s')) = Inr None"
    using s'(3) by (simp add: deletion_dispatch_def)
  then have "j_state j \<noteq> Active" using underway_open [OF un j] by auto
  then show ?thesis
    using s'(1) none journal_read [OF un j] underwayD(10-12) [OF un j] by (auto simp: phases_set)
qed

theorem project_recovery_finishes_deletion_witness:
  "\<exists>(s::deletion_state) s'. recover_project (\<lambda>_. True) 1 (deletion_dispatch demo_env) ''p'' s = Some (Inr (), s')
    \<and> \<not> ds_repository s'"
proof -
  obtain db' where p: "put_intent demo_ids demo_intent demo_content = Inr (Created, db')"
    using demo_put by blast
  have ids: "dv_ids demo_env = demo_ids" by (simp add: demo_env_def)
  have c: "clean_run demo_env" by (simp add: clean_run_def demo_env_def)
  have "\<forall>r\<in>set [demo_crash]. dv_ids (dr_env r) = dv_ids demo_env"
    by (simp add: demo_crash_def demo_run_def demo_env_def)
  from project_recovery_finishes_deletion [OF _ _ this refl c, unfolded ids, OF demo_content_ok p,
      of "\<lambda>_. True" "''p''" True]
  show ?thesis by blast
qed

end
